(* ===== verification/Prelude.thy ===== *)
theory Prelude
  imports Main "HOL-Library.Word"
begin

unbundle bit_operations_syntax

text \<open>
  Shared vocabulary of the development: the machine types of \<open>lib/kernel/stdint.h\<close>, the
  result type of every operation that may fail, memory objects as byte lists with checked
  access, and the general lemmas the components use.

  A C function that may not return normally has a result in \<open>fault + 'a\<close>: \<open>Inr x\<close> when it
  returns \<open>x\<close>, \<open>Inl f\<close> when it ends in the fault \<open>f\<close>.  \<open>Assertion\<close> and \<open>Panic_call\<close> are
  \<open>panic_spin\<close> of \<open>lib/kernel/debug.c\<close> (reached by \<open>ASSERT\<close> and by \<open>PANIC\<close>): interrupts are
  switched off and the kernel spins.  \<open>OutOfBounds\<close> and \<open>NullPointer\<close> are accesses outside
  the object a pointer points into; \<open>PageFault\<close> is an access that the page tables do not
  map.  \<open>Hang\<close> is a loop that never ends.  \<open>WouldBlock\<close> marks the point where a
  sequential run of an operation would have to give the processor to another thread.
\<close>

section \<open>Machine types\<close>

type_synonym u8 = "8 word"
type_synonym u16 = "16 word"
type_synonym u32 = "32 word"
type_synonym buf = "u8 list"

section \<open>Results\<close>

datatype fault =
    Assertion
  | Panic_call
  | OutOfBounds
  | NullPointer
  | PageFault
  | Hang
  | WouldBlock

type_synonym 'a res = "fault + 'a"

named_theorems res_simps \<open>unfolding a sequence of fallible operations\<close>
named_theorems frame_simps \<open>what an operation leaves unchanged\<close>
named_theorems dll_intros \<open>doubly linked lists kept by an operation\<close>

definition bindE :: "'a res \<Rightarrow> ('a \<Rightarrow> 'b res) \<Rightarrow> 'b res" where
  "bindE m f = (case m of Inl e \<Rightarrow> Inl e | Inr x \<Rightarrow> f x)"

definition assertE :: "bool \<Rightarrow> unit res" where
  "assertE b = (if b then Inr () else Inl Assertion)"

lemma bindE_simps [simp]:
  "bindE (Inl e) f = Inl e"
  "bindE (Inr x) f = f x"
  by (simp_all add: bindE_def)

lemma bindE_eq_Inr [res_simps]:
  "bindE m f = Inr y \<longleftrightarrow> (\<exists>x. m = Inr x \<and> f x = Inr y)"
  by (cases m) auto

lemma bindE_eq_Inl [res_simps]:
  "bindE m f = Inl e \<longleftrightarrow> m = Inl e \<or> (\<exists>x. m = Inr x \<and> f x = Inl e)"
  by (cases m) auto

lemma bindE_cong [fundef_cong]:
  "m = m' \<Longrightarrow> (\<And>x. m' = Inr x \<Longrightarrow> f x = g x) \<Longrightarrow> bindE m f = bindE m' g"
  by (cases m') auto

lemma assertE_simps [simp]:
  "assertE True = Inr ()"
  "assertE False = Inl Assertion"
  by (simp_all add: assertE_def)

lemma assertE_eq_Inr [res_simps]: "assertE b = Inr u \<longleftrightarrow> b"
  by (simp add: assertE_def)

section \<open>Memory objects\<close>

text \<open>
  A pointer argument stands for the bytes from it to the end of the object it points into.
  Reading or writing past that end is a fault of the model: C leaves it undefined.
\<close>

definition rd :: "'a list \<Rightarrow> nat \<Rightarrow> 'a res" where
  "rd b i = (if i < length b then Inr (b ! i) else Inl OutOfBounds)"

definition wr :: "'a list \<Rightarrow> nat \<Rightarrow> 'a \<Rightarrow> 'a list res" where
  "wr b i v = (if i < length b then Inr (b[i := v]) else Inl OutOfBounds)"

lemma rd_simps [simp]:
  "i < length b \<Longrightarrow> rd b i = Inr (b ! i)"
  "length b \<le> i \<Longrightarrow> rd b i = Inl OutOfBounds"
  by (simp_all add: rd_def)

lemma wr_simps [simp]:
  "i < length b \<Longrightarrow> wr b i v = Inr (b[i := v])"
  "length b \<le> i \<Longrightarrow> wr b i v = Inl OutOfBounds"
  by (simp_all add: wr_def)

lemma rd_eq_Inr [res_simps]: "rd b i = Inr v \<longleftrightarrow> i < length b \<and> b ! i = v"
  by (auto simp: rd_def)

lemma wr_eq_Inr [res_simps]: "wr b i v = Inr b' \<longleftrightarrow> i < length b \<and> b' = b[i := v]"
  by (auto simp: wr_def)

section \<open>Lists\<close>

lemma take_list_update_Suc:
  "i < length b \<Longrightarrow> take (Suc i) (b[i := v]) = take i b @ [v]"
  by (simp add: take_Suc_conv_app_nth)

lemma drop_list_update_Suc: "drop (Suc i) (b[i := v]) = drop (Suc i) b"
  by simp

lemma list_update_split:
  "i < length b \<Longrightarrow> b[i := v] = take i b @ v # drop (Suc i) b"
  by (rule upd_conv_take_nth_drop)

lemma nth_append_mid: "(xs @ y # ys) ! length xs = y"
  by simp

section \<open>Words\<close>

lemma unat_2p:
  assumes "n < LENGTH('a)"
  shows "unat (2 ^ n :: 'a::len word) = 2 ^ n"
proof -
  have "(0 :: 'a word) < 2 ^ n"
    using assms by (simp add: word_gt_0 not_le)
  then have "uint (2 ^ n :: 'a word) = 2 ^ n" by (rule uint_2p)
  then show ?thesis by (simp add: nat_power_eq flip: nat_uint_eq)
qed

lemma unat_small: "n < 2 ^ 32 \<Longrightarrow> unat (of_nat n :: u32) = n"
  by (simp add: unsigned_of_nat take_bit_nat_eq_self)

lemma and_2p: "(w :: 'a::len word) AND 2 ^ n = (if bit w n then 2 ^ n else 0)"
  by (intro bit_word_eqI) (auto simp: bit_simps)


lemma bit_numeral_masks:
  "bit (0xffff :: u32) n \<longleftrightarrow> n < 16"
  "bit (0xff0000 :: u32) n \<longleftrightarrow> 16 \<le> n \<and> n < 24"
  "bit (0xf0000 :: u32) n \<longleftrightarrow> 16 \<le> n \<and> n < 20"
  "bit (0xffff0000 :: u32) n \<longleftrightarrow> 16 \<le> n \<and> n < 32"
  "bit (0xffff :: u16) n \<longleftrightarrow> n < 16"
  "bit (0xffff :: int) n \<longleftrightarrow> n < 16"
  "bit (0xff :: int) n \<longleftrightarrow> n < 8"
  "bit (0xf :: int) n \<longleftrightarrow> n < 4"
  "bit (0xf0000 :: int) n \<longleftrightarrow> 16 \<le> n \<and> n < 20"
  "bit (0xf0 :: int) n \<longleftrightarrow> 4 \<le> n \<and> n < 8"
  "bit (0xf :: u8) n \<longleftrightarrow> n < 4"
  "bit (0xf :: u32) n \<longleftrightarrow> n < 4"
  "bit (0xf0 :: u8) n \<longleftrightarrow> 4 \<le> n \<and> n < 8"
proof -
  have g: "(0xf0000 :: int) = push_bit 16 (mask 4)" "(0xf0 :: int) = push_bit 4 (mask 4)"
    by (simp_all add: mask_eq_exp_minus_1 push_bit_eq_mult)
  show "bit (0xf0000 :: int) n \<longleftrightarrow> 16 \<le> n \<and> n < 20"
    "bit (0xf0 :: int) n \<longleftrightarrow> 4 \<le> n \<and> n < 8"
    unfolding g by (auto simp: bit_simps)
  have f: "(0xf :: int) = mask 4" "(0xf :: u8) = mask 4" "(0xf :: u32) = mask 4"
    "(0xf0 :: u8) = push_bit 4 (mask 4)"
    by (simp_all add: mask_eq_exp_minus_1)
  show "bit (0xf :: int) n \<longleftrightarrow> n < 4" "bit (0xf :: u8) n \<longleftrightarrow> n < 4"
    "bit (0xf :: u32) n \<longleftrightarrow> n < 4" "bit (0xf0 :: u8) n \<longleftrightarrow> 4 \<le> n \<and> n < 8"
    unfolding f by (auto simp: bit_simps)
  have i: "(0xffff :: int) = mask 16" "(0xff :: int) = mask 8"
    by (simp_all add: mask_eq_exp_minus_1)
  show "bit (0xffff :: int) n \<longleftrightarrow> n < 16" "bit (0xff :: int) n \<longleftrightarrow> n < 8"
    unfolding i by (auto simp: bit_simps)
  have m16: "(0xffff :: u16) = mask 16" by (simp add: mask_eq_exp_minus_1)
  show "bit (0xffff :: u16) n \<longleftrightarrow> n < 16"
    unfolding m16 by (auto simp: bit_simps)
  have m: "(0xffff :: u32) = mask 16" "(0xff0000 :: u32) = push_bit 16 (mask 8)"
    "(0xf0000 :: u32) = push_bit 16 (mask 4)" "(0xffff0000 :: u32) = push_bit 16 (mask 16)"
    by (simp_all add: mask_eq_exp_minus_1)
  show "bit (0xffff :: u32) n \<longleftrightarrow> n < 16"
    unfolding m(1) by (auto simp: bit_simps)
  show "bit (0xff0000 :: u32) n \<longleftrightarrow> 16 \<le> n \<and> n < 24"
    unfolding m(2) by (auto simp: bit_simps)
  show "bit (0xf0000 :: u32) n \<longleftrightarrow> 16 \<le> n \<and> n < 20"
    unfolding m(3) by (auto simp: bit_simps)
  show "bit (0xffff0000 :: u32) n \<longleftrightarrow> 16 \<le> n \<and> n < 32"
    unfolding m(4) by (auto simp: bit_simps)
qed

lemma bit_less_2p:
  assumes "(w :: 'a::len word) < 2 ^ k" and "k < LENGTH('a)" and "k \<le> n"
  shows "\<not> bit w n"
proof -
  have "unat w < 2 ^ k"
    using assms(1,2) unat_2p [where 'a = 'a, of k] by (simp add: word_less_nat_alt)
  then have "take_bit k (unat w) = unat w" by (simp add: take_bit_nat_eq_self)
  then have "\<not> bit (unat w) n" using assms(3) bit_take_bit_iff [of k "unat w" n] by auto
  then show ?thesis by (simp add: bit_unsigned_iff)
qed

end
