(* ===== verification/CString.thy ===== *)
theory CString
  imports Prelude
begin

text \<open>
  \<open>lib/kernel/string.c\<close>: the byte and string routines the whole kernel uses.  A pointer is
  \<open>buf option\<close>: \<open>None\<close> is \<open>NULL\<close>, \<open>Some b\<close> points at the first byte of \<open>b\<close>.  A result
  that is a pointer into the argument is its index.  \<open>char\<close> is a signed byte (gcc on x86), so
  comparisons of \<open>char\<close> values read them with \<open>sint\<close>.  The lemmas relate every routine to the
  text of a string, \<open>cstr\<close>: the bytes before the first zero.
\<close>

section \<open>The routines\<close>

text \<open>The pair-swapping loop: two bytes of \<open>src\<close> per round, written in the other order.\<close>

function swap_loop :: "buf \<Rightarrow> buf \<Rightarrow> nat \<Rightarrow> nat \<Rightarrow> buf res" where
  "swap_loop src out idx len =
     (if idx < len then
        bindE (rd src idx) (\<lambda>a.
        bindE (wr out (idx + 1) a) (\<lambda>out1.
        bindE (rd src (idx + 1)) (\<lambda>b.
        bindE (wr out1 idx b) (\<lambda>out2.
        swap_loop src out2 (idx + 2) len))))
      else wr out idx 0)"
  by pat_completeness auto
termination
  by (relation "measure (\<lambda>(src, out, idx, len). len - idx)") auto

declare swap_loop.simps [simp del]

definition swap_pairs_bytes :: "buf \<Rightarrow> buf \<Rightarrow> nat \<Rightarrow> buf res" where
  "swap_pairs_bytes src out len = swap_loop src out 0 len"

fun memset_loop :: "buf \<Rightarrow> nat \<Rightarrow> u8 \<Rightarrow> nat \<Rightarrow> buf res" where
  "memset_loop dst i v 0 = Inr dst"
| "memset_loop dst i v (Suc sz) =
     bindE (wr dst i v) (\<lambda>dst'. memset_loop dst' (Suc i) v sz)"

definition memset :: "buf option \<Rightarrow> u8 \<Rightarrow> nat \<Rightarrow> buf res" where
  "memset dstp v sz =
     (case dstp of None \<Rightarrow> Inl Assertion | Some dst \<Rightarrow> memset_loop dst 0 v sz)"

fun memcpy_loop :: "buf \<Rightarrow> buf \<Rightarrow> nat \<Rightarrow> nat \<Rightarrow> buf res" where
  "memcpy_loop dst src i 0 = Inr dst"
| "memcpy_loop dst src i (Suc sz) =
     bindE (rd src i) (\<lambda>v.
     bindE (wr dst i v) (\<lambda>dst'. memcpy_loop dst' src (Suc i) sz))"

definition memcpy :: "buf option \<Rightarrow> buf option \<Rightarrow> nat \<Rightarrow> buf res" where
  "memcpy dstp srcp sz =
     (case (dstp, srcp) of
        (Some dst, Some src) \<Rightarrow> memcpy_loop dst src 0 sz
      | _ \<Rightarrow> Inl Assertion)"

fun memcmp_loop :: "buf \<Rightarrow> buf \<Rightarrow> nat \<Rightarrow> nat \<Rightarrow> int res" where
  "memcmp_loop a b i 0 = Inr 0"
| "memcmp_loop a b i (Suc sz) =
     bindE (rd a i) (\<lambda>x.
     bindE (rd b i) (\<lambda>y.
       if x \<noteq> y then Inr (if sint x > sint y then 1 else -1)
       else memcmp_loop a b (Suc i) sz))"

definition memcmp :: "buf option \<Rightarrow> buf option \<Rightarrow> nat \<Rightarrow> int res" where
  "memcmp ap bp sz =
     (case (ap, bp) of
        (Some a, Some b) \<Rightarrow> memcmp_loop a b 0 sz
      | _ \<Rightarrow> Inl Assertion)"

text \<open>
  \<open>while (*(dst++) = *(src++));\<close> copies up to and including the terminating zero.  The
  positions \<open>i\<close> in \<open>dst\<close> and \<open>j\<close> in \<open>src\<close> advance together.
\<close>

function copy_str :: "buf \<Rightarrow> nat \<Rightarrow> buf \<Rightarrow> nat \<Rightarrow> buf res" where
  "copy_str dst i src j =
     (if j < length src then
        bindE (wr dst i (src ! j)) (\<lambda>dst'.
          if src ! j = 0 then Inr dst' else copy_str dst' (i + 1) src (j + 1))
      else Inl OutOfBounds)"
  by pat_completeness auto
termination
  by (relation "measure (\<lambda>(dst, i, src, j). length src - j)") auto

declare copy_str.simps [simp del]

definition strcpy :: "buf option \<Rightarrow> buf option \<Rightarrow> buf res" where
  "strcpy dstp srcp =
     (case (dstp, srcp) of
        (Some dst, Some src) \<Rightarrow> copy_str dst 0 src 0
      | _ \<Rightarrow> Inl Assertion)"

text \<open>\<open>scan_nul\<close> is the index of the first zero byte at or after \<open>i\<close>.\<close>

function scan_nul :: "buf \<Rightarrow> nat \<Rightarrow> nat res" where
  "scan_nul s i =
     (if i < length s then (if s ! i = 0 then Inr i else scan_nul s (i + 1))
      else Inl OutOfBounds)"
  by pat_completeness auto
termination
  by (relation "measure (\<lambda>(s, i). length s - i)") auto

declare scan_nul.simps [simp del]

definition strlen :: "buf option \<Rightarrow> nat res" where
  "strlen strp = (case strp of None \<Rightarrow> Inl Assertion | Some s \<Rightarrow> scan_nul s 0)"

text \<open>
  The loop runs while either string has a byte left; both are read at the same position.  The
  guard \<open>*a || *b\<close> reads \<open>b\<close> only when \<open>*a\<close> is zero, the body always reads both.
\<close>

function strcmp_loop :: "buf \<Rightarrow> buf \<Rightarrow> nat \<Rightarrow> int res" where
  "strcmp_loop a b i =
     (if i < length a then
        bindE (rd b i) (\<lambda>y.
          if a ! i = 0 \<and> y = 0 then Inr 0
          else if a ! i \<noteq> y then Inr (if sint (a ! i) > sint y then 1 else -1)
          else strcmp_loop a b (i + 1))
      else Inl OutOfBounds)"
  by pat_completeness auto
termination
  by (relation "measure (\<lambda>(a, b, i). length a - i)") auto

declare strcmp_loop.simps [simp del]

definition strcmp :: "buf option \<Rightarrow> buf option \<Rightarrow> int res" where
  "strcmp ap bp =
     (case (ap, bp) of
        (Some a, Some b) \<Rightarrow> strcmp_loop a b 0
      | _ \<Rightarrow> Inl Assertion)"

text \<open>\<open>*str == ch\<close> compares a signed \<open>char\<close> with an unsigned byte, both promoted to \<open>int\<close>.\<close>

definition char_eq :: "u8 \<Rightarrow> u8 \<Rightarrow> bool" where
  "char_eq c ch \<longleftrightarrow> sint c = uint ch"

function strchr_loop :: "buf \<Rightarrow> u8 \<Rightarrow> nat \<Rightarrow> nat option res" where
  "strchr_loop s ch i =
     (if i < length s then
        (if s ! i = 0 then Inr None
         else if char_eq (s ! i) ch then Inr (Some i)
         else strchr_loop s ch (i + 1))
      else Inl OutOfBounds)"
  by pat_completeness auto
termination
  by (relation "measure (\<lambda>(s, ch, i). length s - i)") auto

declare strchr_loop.simps [simp del]

definition strchr :: "buf option \<Rightarrow> u8 \<Rightarrow> nat option res" where
  "strchr strp ch =
     (case strp of None \<Rightarrow> Inl Assertion | Some s \<Rightarrow> strchr_loop s ch 0)"

fun strrchr_loop :: "buf \<Rightarrow> u8 \<Rightarrow> nat \<Rightarrow> nat option res" where
  "strrchr_loop s ch 0 = Inr None"
| "strrchr_loop s ch (Suc len) =
     bindE (rd s len) (\<lambda>c.
       if char_eq c ch then Inr (Some len) else strrchr_loop s ch len)"

definition strrchr :: "buf option \<Rightarrow> u8 \<Rightarrow> nat option res" where
  "strrchr strp ch =
     bindE (strlen strp) (\<lambda>len.
       case strp of None \<Rightarrow> Inl Assertion | Some s \<Rightarrow> strrchr_loop s ch len)"

text \<open>\<open>while (*(dst++)); dst--;\<close> stops at the zero of \<open>dst\<close>, and the copy starts there.\<close>

definition strcat :: "buf option \<Rightarrow> buf option \<Rightarrow> buf res" where
  "strcat dstp srcp =
     (case (dstp, srcp) of
        (Some dst, Some src) \<Rightarrow>
          bindE (scan_nul dst 0) (\<lambda>n. copy_str dst n src 0)
      | _ \<Rightarrow> Inl Assertion)"

function strchrs_loop :: "buf \<Rightarrow> u8 \<Rightarrow> nat \<Rightarrow> nat \<Rightarrow> nat res" where
  "strchrs_loop s ch i cnt =
     (if i < length s then
        (if s ! i = 0 then Inr cnt
         else strchrs_loop s ch (i + 1) (if char_eq (s ! i) ch then cnt + 1 else cnt))
      else Inl OutOfBounds)"
  by pat_completeness auto
termination
  by (relation "measure (\<lambda>(s, ch, i, cnt). length s - i)") auto

declare strchrs_loop.simps [simp del]

definition strchrs :: "buf option \<Rightarrow> u8 \<Rightarrow> nat res" where
  "strchrs strp ch =
     (case strp of None \<Rightarrow> Inl Assertion | Some s \<Rightarrow> strchrs_loop s ch 0 0)"

section \<open>The text of a string\<close>

definition cstr :: "buf \<Rightarrow> buf" where
  "cstr s = takeWhile (\<lambda>c. c \<noteq> 0) s"

definition terminated :: "buf \<Rightarrow> bool" where
  "terminated s \<longleftrightarrow> 0 \<in> set s"

lemma terminated_length: "terminated s \<Longrightarrow> length (cstr s) < length s"
  unfolding terminated_def cstr_def
  by (metis (mono_tags, lifting) length_takeWhile_le nat_less_le takeWhile_eq_take
      take_all set_takeWhileD order_refl)

lemma nth_cstr_length: "terminated s \<Longrightarrow> s ! length (cstr s) = 0"
  using terminated_length [of s] nth_length_takeWhile [of "\<lambda>c. c \<noteq> 0" s]
  by (simp add: cstr_def)

lemma nth_before_nul: "i < length (cstr s) \<Longrightarrow> s ! i \<noteq> 0 \<and> cstr s ! i = s ! i"
  unfolding cstr_def by (metis (mono_tags, lifting) nth_mem set_takeWhileD takeWhile_nth)

lemma cstr_before_length: "i < length (cstr s) \<Longrightarrow> i < length s"
  unfolding cstr_def by (metis length_takeWhile_le less_le_trans)

lemma cstr_nonzero: "0 \<notin> set (cstr s)"
  unfolding cstr_def by (auto dest: set_takeWhileD)

lemma cstr_append_nul: "0 \<notin> set xs \<Longrightarrow> cstr (xs @ 0 # ys) = xs"
  unfolding cstr_def by (induction xs) auto

lemma terminated_append_nul: "terminated (xs @ 0 # ys)"
  by (simp add: terminated_def)

lemma terminated_split: "terminated s \<Longrightarrow> s = cstr s @ 0 # drop (Suc (length (cstr s))) s"
  by (metis cstr_def id_take_nth_drop nth_cstr_length takeWhile_eq_take terminated_length)

section \<open>Blocks of memory\<close>

lemma memset_loop_ok:
  "i + n \<le> length b \<Longrightarrow>
   memset_loop b i v n = Inr (take i b @ replicate n v @ drop (i + n) b)"
proof (induction n arbitrary: b i)
  case (Suc n)
  then have i: "i < length b" by simp
  with Suc.prems Suc.IH [of "Suc i" "b[i := v]"] show ?case
    by (simp add: take_list_update_Suc replicate_append_same)
qed simp

lemma memset_ok:
  "n \<le> length b \<Longrightarrow> memset (Some b) v n = Inr (replicate n v @ drop n b)"
  by (simp add: memset_def memset_loop_ok)

lemma memset_whole: "n = length b \<Longrightarrow> memset (Some b) v n = Inr (replicate n v)"
  by (simp add: memset_ok)

lemma memset_null: "memset None v n = Inl Assertion"
  by (simp add: memset_def)

lemma memcpy_loop_ok:
  "i + n \<le> length d \<Longrightarrow> i + n \<le> length s \<Longrightarrow>
   memcpy_loop d s i n = Inr (take i d @ take n (drop i s) @ drop (i + n) d)"
proof (induction n arbitrary: d i)
  case (Suc n)
  then have i: "i < length d" "i < length s" by auto
  have "take (Suc n) (drop i s) = s ! i # take n (drop (Suc i) s)"
    using i(2) by (simp add: Cons_nth_drop_Suc [symmetric])
  with Suc.prems i Suc.IH [of "Suc i" "d[i := s ! i]"] show ?case
    by (simp add: take_list_update_Suc)
qed simp

lemma memcpy_ok:
  "n \<le> length d \<Longrightarrow> n \<le> length s \<Longrightarrow>
   memcpy (Some d) (Some s) n = Inr (take n s @ drop n d)"
  by (simp add: memcpy_def memcpy_loop_ok)

lemma memcmp_loop_zero:
  "i + n \<le> length a \<Longrightarrow> i + n \<le> length b \<Longrightarrow>
   \<exists>r. memcmp_loop a b i n = Inr r \<and>
       (r = 0 \<longleftrightarrow> take n (drop i a) = take n (drop i b))"
proof (induction n arbitrary: i)
  case (Suc n)
  then have i: "i < length a" "i < length b" by auto
  have "take (Suc n) (drop i s) = s ! i # take n (drop (Suc i) s)"
    if "i < length s" for s :: buf
    using that by (simp add: Cons_nth_drop_Suc [symmetric])
  with Suc.prems i Suc.IH [of "Suc i"] show ?case by auto
qed simp

lemma memcmp_zero_iff:
  assumes "n \<le> length a" and "n \<le> length b"
  shows "memcmp (Some a) (Some b) n = Inr 0 \<longleftrightarrow> take n a = take n b"
  using memcmp_loop_zero [of 0 n a b] assms by (auto simp: memcmp_def)

section \<open>Strings\<close>

lemma scan_nul_ok:
  "terminated s \<Longrightarrow> i \<le> length (cstr s) \<Longrightarrow> scan_nul s i = Inr (length (cstr s))"
proof (induction s i rule: scan_nul.induct)
  case (1 s i)
  have il: "i < length s" using terminated_length [OF "1.prems"(1)] "1.prems"(2) by simp
  show ?case
  proof (cases "i = length (cstr s)")
    case True
    with "1.prems" il show ?thesis by (subst scan_nul.simps) (simp add: nth_cstr_length)
  next
    case False
    with "1.prems" have i: "i < length (cstr s)" by simp
    then have "s ! i \<noteq> 0" using nth_before_nul by blast
    with "1.IH" "1.prems" i il show ?thesis by (simp add: scan_nul.simps [of s i])
  qed
qed

lemma strlen_ok: "terminated s \<Longrightarrow> strlen (Some s) = Inr (length (cstr s))"
  by (simp add: strlen_def scan_nul_ok)

lemma copy_str_ok:
  "terminated s \<Longrightarrow> j \<le> length (cstr s) \<Longrightarrow> i + (length (cstr s) - j) < length d \<Longrightarrow>
   copy_str d i s j =
     Inr (take i d @ drop j (cstr s) @ 0 # drop (i + (length (cstr s) - j) + 1) d)"
proof (induction d i s j rule: copy_str.induct)
  case (1 d i s j)
  have jl: "j < length s" using terminated_length [OF "1.prems"(1)] "1.prems"(2) by simp
  have il: "i < length d" using "1.prems"(3) by simp
  show ?case
  proof (cases "j = length (cstr s)")
    case True
    with "1.prems" jl il show ?thesis
      by (subst copy_str.simps) (simp add: nth_cstr_length list_update_split)
  next
    case False
    with "1.prems" have j: "j < length (cstr s)" by simp
    then have nz: "s ! j \<noteq> 0" and nth: "cstr s ! j = s ! j" using nth_before_nul by blast+
    have "copy_str (d[i := s ! j]) (i + 1) s (j + 1) =
        Inr (take (i + 1) (d[i := s ! j]) @ drop (j + 1) (cstr s) @
             0 # drop (i + 1 + (length (cstr s) - (j + 1)) + 1) (d[i := s ! j]))"
      using "1.IH" [OF jl _ nz] "1.prems" j il by simp
    moreover have "drop j (cstr s) = s ! j # drop (j + 1) (cstr s)"
      using j nth by (simp add: Cons_nth_drop_Suc [symmetric])
    moreover obtain k where "length (cstr s) = j + Suc k"
      using j less_imp_Suc_add by fastforce
    ultimately show ?thesis
      using jl il nz by (simp add: copy_str.simps [of d i s j] take_list_update_Suc)
  qed
qed

lemma strcpy_ok:
  "terminated s \<Longrightarrow> length (cstr s) < length d \<Longrightarrow>
   strcpy (Some d) (Some s) = Inr (cstr s @ 0 # drop (length (cstr s) + 1) d)"
  by (simp add: strcpy_def copy_str_ok)

lemma strcat_ok:
  assumes "terminated d" and "terminated s"
    and "length (cstr d) + length (cstr s) < length d"
  shows "strcat (Some d) (Some s) =
     Inr (cstr d @ cstr s @ 0 # drop (length (cstr d) + length (cstr s) + 1) d)"
  using assms by (simp add: strcat_def scan_nul_ok copy_str_ok cstr_def flip: takeWhile_eq_take)

section \<open>Comparison and search\<close>

text \<open>
  The order \<open>strcmp\<close> computes, on texts: position by position, the terminating zero of the
  shorter text taking part, bytes compared as signed values.
\<close>

fun scompare :: "buf \<Rightarrow> buf \<Rightarrow> int" where
  "scompare [] [] = 0"
| "scompare [] (y # ys) = (if sint y < 0 then 1 else -1)"
| "scompare (x # xs) [] = (if 0 < sint x then 1 else -1)"
| "scompare (x # xs) (y # ys) =
     (if x \<noteq> y then (if sint y < sint x then 1 else -1) else scompare xs ys)"

lemma scompare_zero_iff: "scompare xs ys = 0 \<longleftrightarrow> xs = ys"
  by (induction xs ys rule: scompare.induct) auto

lemma sint_zero_cases: "(x::u8) \<noteq> 0 \<Longrightarrow> sint x \<noteq> 0"
  by (metis signed_0 signed_word_eqI)

lemma scompare_antisym: "0 \<notin> set xs \<Longrightarrow> 0 \<notin> set ys \<Longrightarrow> scompare ys xs = - scompare xs ys"
proof (induction xs ys rule: scompare.induct)
  case (2 y ys)
  then show ?case using sint_zero_cases [of y] by auto
next
  case (3 x xs)
  then show ?case using sint_zero_cases [of x] by auto
next
  case (4 x xs y ys)
  then show ?case using signed_word_eqI [of x y] by auto
qed simp

lemma strcmp_loop_texts:
  "length p = length q \<Longrightarrow> 0 \<notin> set xs \<Longrightarrow> 0 \<notin> set ys \<Longrightarrow>
   strcmp_loop (p @ xs @ 0 # r) (q @ ys @ 0 # t) (length p) = Inr (scompare xs ys)"
proof (induction xs ys arbitrary: p q rule: scompare.induct)
  case (4 x xs y ys)
  show ?case
  proof (cases "x = y")
    case True
    have "strcmp_loop ((p @ [x]) @ xs @ 0 # r) ((q @ [x]) @ ys @ 0 # t) (length (p @ [x])) =
        Inr (scompare xs ys)"
      by (rule "4.IH") (use "4.prems" True in auto)
    with "4.prems" True show ?thesis
      by (subst strcmp_loop.simps) (simp add: nth_append)
  next
    case False
    with "4.prems" show ?thesis by (subst strcmp_loop.simps) (auto simp: nth_append)
  qed
qed (subst strcmp_loop.simps, auto simp: nth_append)+

lemma strcmp_ok:
  assumes "terminated a" and "terminated b"
  shows "strcmp (Some a) (Some b) = Inr (scompare (cstr a) (cstr b))"
proof -
  have "strcmp_loop a b 0 = Inr (scompare (cstr a) (cstr b))"
    using strcmp_loop_texts [of "[]" "[]" "cstr a" "cstr b"]
      terminated_split [OF assms(1)] terminated_split [OF assms(2)]
    by (metis append_Nil cstr_nonzero list.size(3))
  then show ?thesis by (simp add: strcmp_def)
qed

lemma char_eq_iff: "char_eq c ch \<longleftrightarrow> c = ch \<and> ch < 128"
proof
  assume "char_eq c ch"
  then have e: "sint c = uint ch" by (simp add: char_eq_def)
  have "c = word_of_int (sint c)" by simp
  also have "\<dots> = ch" by (simp add: e)
  finally have "c = ch" .
  moreover have "uint ch < 128" using sint_lt [of c] e by simp
  ultimately show "c = ch \<and> ch < 128" by (simp add: word_less_def)
next
  assume "c = ch \<and> ch < 128"
  then have "c = ch" and "uint ch < 128" by (auto simp: word_less_def)
  then show "char_eq c ch"
    using signed_take_bit_int_eq_self [of 7 "uint ch"] uint_ge_0 [of ch]
    by (simp add: char_eq_def sint_uint)
qed

fun first_at :: "('a \<Rightarrow> bool) \<Rightarrow> 'a list \<Rightarrow> nat \<Rightarrow> nat option" where
  "first_at P [] n = None"
| "first_at P (x # xs) n = (if P x then Some n else first_at P xs (Suc n))"

lemma first_at_None: "first_at P xs n = None \<longleftrightarrow> (\<forall>x \<in> set xs. \<not> P x)"
  by (induction xs arbitrary: n) auto

lemma first_at_Some:
  "first_at P xs n = Some k \<longleftrightarrow>
   n \<le> k \<and> k < n + length xs \<and> P (xs ! (k - n)) \<and> (\<forall>i < k - n. \<not> P (xs ! i))"
proof (induction xs arbitrary: n)
  case (Cons x xs)
  show ?case
  proof (cases "P x")
    case True
    then show ?thesis by (auto; metis diff_is_0_eq' le_eq_less_or_eq nth_Cons_0 zero_less_diff)
  next
    case False
    have "(\<forall>i < k - n. \<not> P ((x # xs) ! i)) \<longleftrightarrow> (\<forall>i < k - Suc n. \<not> P (xs ! i))" if "n < k"
      using that False by (auto simp: less_Suc_eq_0_disj Suc_diff_Suc [symmetric])
    moreover have "(x # xs) ! (k - n) = xs ! (k - Suc n)" if "n < k"
      using that by (simp add: Suc_diff_Suc [symmetric])
    ultimately show ?thesis
      using False Cons.IH [of "Suc n"] by (cases "n < k") (auto simp: not_less le_eq_less_or_eq)
  qed
qed auto

lemma strchr_loop_text:
  "0 \<notin> set xs \<Longrightarrow>
   strchr_loop (p @ xs @ 0 # r) ch (length p) = Inr (first_at (\<lambda>c. char_eq c ch) xs (length p))"
proof (induction xs arbitrary: p)
  case Nil
  then show ?case by (subst strchr_loop.simps) simp
next
  case (Cons x xs)
  from Cons.IH [of "p @ [x]"] Cons.prems show ?case
    by (subst strchr_loop.simps) (simp add: nth_append)
qed

lemma strchr_ok:
  "terminated s \<Longrightarrow> strchr (Some s) ch = Inr (first_at (\<lambda>c. char_eq c ch) (cstr s) 0)"
  using strchr_loop_text [of "cstr s" "[]" "drop (Suc (length (cstr s))) s" ch]
  by (simp add: strchr_def cstr_nonzero flip: terminated_split)

lemma strrchr_loop_ok:
  "n \<le> length s \<Longrightarrow>
   strrchr_loop s ch n =
     Inr (map_option (\<lambda>k. n - 1 - k) (first_at (\<lambda>c. char_eq c ch) (rev (take n s)) 0))"
proof (induction n)
  case (Suc n)
  have shift: "first_at P xs (Suc k) = map_option Suc (first_at P xs k)" for P k and xs :: buf
    by (induction xs arbitrary: k) auto
  from Suc show ?case
    by (simp add: take_Suc_conv_app_nth shift option.map_comp o_def)
qed simp

lemma strrchr_ok:
  "terminated s \<Longrightarrow> strrchr (Some s) ch =
     Inr (map_option (\<lambda>k. length (cstr s) - 1 - k)
            (first_at (\<lambda>c. char_eq c ch) (rev (cstr s)) 0))"
  using terminated_length [of s]
  by (simp add: strrchr_def strlen_ok strrchr_loop_ok cstr_def flip: takeWhile_eq_take)

lemma strchrs_loop_text:
  "0 \<notin> set xs \<Longrightarrow>
   strchrs_loop (p @ xs @ 0 # r) ch (length p) n =
     Inr (n + length (filter (\<lambda>c. char_eq c ch) xs))"
proof (induction xs arbitrary: p n)
  case Nil
  then show ?case by (subst strchrs_loop.simps) simp
next
  case (Cons x xs)
  from Cons.IH [of "p @ [x]"] Cons.prems show ?case
    by (subst strchrs_loop.simps) (simp add: nth_append)
qed

lemma strchrs_ok:
  "terminated s \<Longrightarrow> strchrs (Some s) ch = Inr (length (filter (\<lambda>c. char_eq c ch) (cstr s)))"
  using strchrs_loop_text [of "cstr s" "[]" "drop (Suc (length (cstr s))) s" ch 0]
  by (simp add: strchrs_def cstr_nonzero flip: terminated_split)

section \<open>Swapping neighbouring bytes\<close>

fun swap_pairs :: "'a list \<Rightarrow> 'a list" where
  "swap_pairs (a # b # xs) = b # a # swap_pairs xs"
| "swap_pairs xs = xs"

lemma length_swap_pairs [simp]: "length (swap_pairs xs) = length xs"
  by (induction xs rule: swap_pairs.induct) auto

lemma swap_pairs_swap_pairs [simp]: "swap_pairs (swap_pairs xs) = xs"
  by (induction xs rule: swap_pairs.induct) auto

lemma swap_pairs_append: "even (length xs) \<Longrightarrow> swap_pairs (xs @ ys) = swap_pairs xs @ swap_pairs ys"
  by (induction xs rule: swap_pairs.induct) auto

lemma nth_swap_pairs:
  "even (length xs) \<Longrightarrow> i < length xs \<Longrightarrow>
   swap_pairs xs ! i = xs ! (if even i then i + 1 else i - 1)"
proof (induction xs arbitrary: i rule: swap_pairs.induct)
  case (1 a b xs)
  then show ?case
    by (cases i rule: nat.exhaust; cases "i - 1") (auto simp: nth_Cons' split: if_splits)
qed auto

lemma swap_loop_ok:
  "even (length xs) \<Longrightarrow> length q = length p \<Longrightarrow> length xs < length out \<Longrightarrow>
   swap_loop (p @ xs @ r) (q @ out) (length p) (length p + length xs) =
     Inr (q @ swap_pairs xs @ 0 # drop (Suc (length xs)) out)"
proof (induction xs arbitrary: p q out rule: swap_pairs.induct)
  case (1 a b xs)
  then obtain c d out' where out: "out = c # d # out'"
    by (cases out; cases "tl out") auto
  have "swap_loop ((p @ [a, b]) @ xs @ r) ((q @ [b, a]) @ out') (length (p @ [a, b]))
          (length (p @ [a, b]) + length xs) =
        Inr ((q @ [b, a]) @ swap_pairs xs @ 0 # drop (Suc (length xs)) out')"
    by (rule "1.IH") (use "1.prems" out in auto)
  moreover have "(q @ out)[Suc (length p) := a, length p := b] = (q @ [b, a]) @ out'"
    using "1.prems"(2) out by (auto simp: list_update_append Suc_diff_le)
  moreover have "rd (p @ (a # b # xs) @ r) (length p) = Inr a"
    "rd (p @ (a # b # xs) @ r) (length p + 1) = Inr b"
    by (simp_all add: rd_def nth_append)
  ultimately show ?case
    using "1.prems" out by (subst swap_loop.simps) (simp add: wr_def)
next
  case "2_1"
  then show ?case
    by (subst swap_loop.simps) (cases out, auto simp: wr_def list_update_append)
qed auto

lemma swap_pairs_bytes_ok:
  assumes "even len" and "len \<le> length src" and "len < length out"
  shows "swap_pairs_bytes src out len =
    Inr (swap_pairs (take len src) @ 0 # drop (Suc len) out)"
  using swap_loop_ok [of "take len src" "[]" "[]" out "drop len src"] assms
  by (simp add: swap_pairs_bytes_def)

section \<open>Properties\<close>

text \<open>\<open>strcpy\<close> into a buffer with room for the text and its zero leaves the text of the
  source in the destination, keeps every byte behind it, and \<open>strlen\<close> then returns the length
  of that text; \<open>strcat\<close> onto the result appends a second text.\<close>

theorem strcpy_strcat_text:
  assumes "terminated s" and "terminated t" and "length (cstr s) + length (cstr t) < length d"
  shows "\<exists>d1 d2. strcpy (Some d) (Some s) = Inr d1 \<and> cstr d1 = cstr s \<and> length d1 = length d \<and>
           (\<forall>i. length (cstr s) < i \<and> i < length d \<longrightarrow> d1 ! i = d ! i) \<and>
           strlen (Some d1) = Inr (length (cstr s)) \<and>
           strcat (Some d1) (Some t) = Inr d2 \<and> cstr d2 = cstr s @ cstr t"
proof -
  let ?d1 = "cstr s @ 0 # drop (length (cstr s) + 1) d"
  have c: "cstr ?d1 = cstr s" and te: "terminated ?d1" and l: "length ?d1 = length d"
    using assms(3) by (simp_all add: cstr_append_nul cstr_nonzero terminated_append_nul)
  have keep: "?d1 ! i = d ! i" if "length (cstr s) < i" "i < length d" for i
    using that by (simp add: nth_append nth_Cons')
  have "strcat (Some ?d1) (Some t) = Inr (cstr s @ cstr t @ 0 # drop (length (cstr s) + length (cstr t) + 1) ?d1)"
    using strcat_ok [OF te assms(2)] c l assms(3) by simp
  moreover have "cstr (cstr s @ cstr t @ 0 # r) = cstr s @ cstr t" for r
    using cstr_append_nul [of "cstr s @ cstr t" r] by (simp add: cstr_nonzero)
  moreover have "strcpy (Some d) (Some s) = Inr ?d1"
    using assms by (intro strcpy_ok) auto
  ultimately show ?thesis
    using c l keep strlen_ok [OF te] by auto
qed

theorem strcpy_strcat_text_witness:
  "\<exists>d1 d2. strcpy (Some (replicate 8 7)) (Some [104, 100, 0]) = Inr d1 \<and> cstr d1 = [104, 100] \<and>
     strcat (Some d1) (Some [98, 49, 0]) = Inr d2 \<and> cstr d2 = [104, 100, 98, 49]"
proof -
  have "terminated [104, 100, 0]" "terminated [98, 49, 0]" "cstr [104, 100, 0] = [104, 100]"
    "cstr [98, 49, 0] = [98, 49]"
    by (simp_all add: terminated_def cstr_def)
  with strcpy_strcat_text [of "[104, 100, 0]" "[98, 49, 0]" "replicate 8 7"] show ?thesis by auto
qed

text \<open>\<open>strcmp\<close> of two terminated strings returns what the comparison of their texts returns
  (bytes as signed values); the result is zero exactly when the texts are equal, and
  exchanging the arguments negates it.\<close>

theorem strcmp_compares_texts:
  assumes "terminated a" and "terminated b"
  shows "strcmp (Some a) (Some b) = Inr (scompare (cstr a) (cstr b)) \<and>
         (strcmp (Some a) (Some b) = Inr 0 \<longleftrightarrow> cstr a = cstr b) \<and>
         strcmp (Some b) (Some a) = Inr (- scompare (cstr a) (cstr b))"
  using strcmp_ok [OF assms] strcmp_ok [OF assms(2,1)] scompare_zero_iff
    scompare_antisym [OF cstr_nonzero cstr_nonzero, of a b] by auto

theorem strcmp_compares_texts_witness:
  "strcmp (Some [104, 100, 0, 9]) (Some [104, 100, 0]) = Inr 0"
proof -
  have "terminated [104, 100, 0, 9]" "terminated [104, 100, 0]"
    "cstr [104, 100, 0, 9] = cstr [104, 100, 0]"
    by (simp_all add: terminated_def cstr_def)
  then show ?thesis
    using strcmp_compares_texts [of "[104, 100, 0, 9]" "[104, 100, 0]"] by blast
qed

text \<open>\<open>strchr\<close> finds the first occurrence of a byte below 128 and reports \<open>NULL\<close> when there is
  none; a byte of 128 or more is never found, even where the string contains it, because the
  signed \<open>char\<close> read from the string is compared with the unsigned argument.\<close>

theorem strchr_finds_ascii_only:
  assumes "terminated s"
  shows "(if ch < 128
          then (\<forall>i. strchr (Some s) ch = Inr (Some i) \<longleftrightarrow>
                     i < length (cstr s) \<and> s ! i = ch \<and> (\<forall>j < i. s ! j \<noteq> ch)) \<and>
               (strchr (Some s) ch = Inr None \<longleftrightarrow> ch \<notin> set (cstr s))
          else strchr (Some s) ch = Inr None \<and> strrchr (Some s) ch = Inr None \<and>
               strchrs (Some s) ch = Inr 0)"
proof (cases "ch < 128")
  case True
  then show ?thesis
    using nth_before_nul [of _ s]
    by (auto simp: strchr_ok [OF assms] first_at_Some first_at_None char_eq_iff)
next
  case False
  then have n: "\<not> char_eq c ch" for c by (simp add: char_eq_iff)
  then have "first_at (\<lambda>c. char_eq c ch) xs 0 = None" for xs
    by (simp add: first_at_None)
  with n False show ?thesis
    by (simp add: strchr_ok [OF assms] strrchr_ok [OF assms] strchrs_ok [OF assms])
qed

theorem strchr_finds_ascii_only_witness:
  "strchr (Some [65, 66, 66, 0]) 66 = Inr (Some 1) \<and> strchr (Some [65, 200, 0]) 200 = Inr None"
proof -
  have t: "terminated [65, 66, 66, 0]" "terminated [65, 200, 0]"
    and c: "cstr [65, 66, 66, 0] = [65, 66, 66]"
    by (simp_all add: terminated_def cstr_def)
  from strchr_finds_ascii_only [OF t(1), of 66] strchr_finds_ascii_only [OF t(2), of 200]
  show ?thesis by (simp add: c)
qed

text \<open>\<open>swap_pairs_bytes\<close> exchanges the bytes of every pair of an even-length block and
  terminates the result; applied to its own output it gives the block back.\<close>

theorem swap_pairs_bytes_involution:
  assumes "even len" and "len \<le> length src" and "len < length out" and "len < length out'"
  shows "\<exists>r. swap_pairs_bytes src out len = Inr r \<and> r ! len = 0 \<and>
           (\<forall>i < len. r ! i = src ! (if even i then i + 1 else i - 1)) \<and>
           swap_pairs_bytes r out' len = Inr (take len src @ 0 # drop (Suc len) out')"
proof -
  let ?r = "swap_pairs (take len src) @ 0 # drop (Suc len) out"
  have "?r ! i = src ! (if even i then i + 1 else i - 1)" if i: "i < len" for i
  proof -
    have "(if even i then i + 1 else i - 1) < len" using i assms(1) by (auto intro: Suc_lessI)
    with nth_swap_pairs [of "take len src" i] i assms(1,2) show ?thesis
      by (simp add: nth_append)
  qed
  then have "\<forall>i < len. ?r ! i = src ! (if even i then i + 1 else i - 1)" by blast
  moreover have "?r ! len = 0"
    using assms(2) by (simp add: nth_append)
  moreover have "swap_pairs_bytes ?r out' len = Inr (take len src @ 0 # drop (Suc len) out')"
    using assms by (subst swap_pairs_bytes_ok) auto
  ultimately show ?thesis
    using swap_pairs_bytes_ok [OF assms(1-3)] by blast
qed

theorem swap_pairs_bytes_involution_witness:
  "\<exists>r. swap_pairs_bytes [66, 65, 68, 67] (replicate 5 1) 4 = Inr r \<and> r ! 4 = 0 \<and> r ! 0 = 65"
proof -
  from swap_pairs_bytes_involution
    [of 4 "[66, 65, 68, 67]" "replicate 5 1" "replicate 5 1"]
  show ?thesis by auto
qed

end
