(* ===== verification/Bitmap.thy ===== *)
theory Bitmap
  imports CString
begin

text \<open>
  \<open>lib/kernel/bitmap.c\<close>: the bitmaps behind the physical pools, the virtual address pools and
  the block and inode maps of a partition.  A bitmap is a length in bytes and a pointer; the
  field \<open>bits\<close> holds the bytes the pointer reaches: the \<open>btmp_bytes_len\<close> bytes of the map,
  possibly followed by whatever lies behind it in memory.  Indices are natural numbers; a
  kernel with 32 MB of memory has no bitmap whose bit count leaves 32 bits.  The narrow
  \<open>uint8_t byte_idx\<close> of \<open>bitmap_set\<close> is kept.  The \<open>bit_pool\<close> locale is the contract that the
  allocators built on bitmaps rely on.
\<close>

section \<open>The operations\<close>

record bitmap =
  btmp_bytes_len :: nat
  bits :: buf

definition bitmap_init :: "bitmap \<Rightarrow> bitmap res" where
  "bitmap_init btmp =
     bindE (memset (Some (bits btmp)) 0 (btmp_bytes_len btmp)) (\<lambda>b. Inr (btmp\<lparr>bits := b\<rparr>))"

definition BITMAP_MASK :: u8 where
  "BITMAP_MASK = 1"

definition bitmap_scan_test :: "bitmap \<Rightarrow> nat \<Rightarrow> nat res" where
  "bitmap_scan_test btmp bit_idx =
     (let byte_idx = bit_idx div 8; bit_remain = bit_idx mod 8
      in bindE (rd (bits btmp) byte_idx) (\<lambda>byte.
           Inr (unat (byte AND push_bit bit_remain BITMAP_MASK))))"

definition bitmap_set :: "bitmap \<Rightarrow> nat \<Rightarrow> nat \<Rightarrow> bitmap res" where
  "bitmap_set btmp bit_idx val =
     bindE (assertE (val = 0 \<or> val = 1)) (\<lambda>_.
     let byte_idx = (bit_idx div 8) mod 256; bit_remain = bit_idx mod 8
     in bindE (rd (bits btmp) byte_idx) (\<lambda>byte.
        bindE (wr (bits btmp) byte_idx
                (if val \<noteq> 0 then byte OR push_bit bit_remain 1
                 else byte AND NOT (push_bit bit_remain 1)))
          (\<lambda>b. Inr (btmp\<lparr>bits := b\<rparr>))))"

text \<open>\<open>while ((0xff == bits[idx_byte]) && (idx_byte < len))\<close>: the byte is read before the bound test.\<close>

function skip_full :: "bitmap \<Rightarrow> nat \<Rightarrow> nat res" where
  "skip_full btmp idx_byte =
     (if idx_byte < length (bits btmp) then
        (if bits btmp ! idx_byte = 255 \<and> idx_byte < btmp_bytes_len btmp
         then skip_full btmp (idx_byte + 1) else Inr idx_byte)
      else Inl OutOfBounds)"
  by pat_completeness auto
termination
  by (relation "measure (\<lambda>(btmp, idx_byte). length (bits btmp) - idx_byte)") auto

declare skip_full.simps [simp del]

text \<open>\<open>while ((uint8_t)(BITMAP_MASK << idx_bit) & bits[idx_byte]) idx_bit++;\<close>\<close>

function first_free_bit :: "u8 \<Rightarrow> nat \<Rightarrow> nat" where
  "first_free_bit byte idx_bit =
     (if push_bit idx_bit BITMAP_MASK AND byte \<noteq> 0 then first_free_bit byte (idx_bit + 1)
      else idx_bit)"
  by pat_completeness auto
termination
proof (relation "measure (\<lambda>(byte, idx_bit). 8 - idx_bit)")
  fix byte :: u8 and idx_bit :: nat
  assume a: "push_bit idx_bit BITMAP_MASK AND byte \<noteq> 0"
  have "idx_bit < 8"
  proof (rule ccontr)
    assume "\<not> idx_bit < 8"
    then have "push_bit idx_bit BITMAP_MASK = (0 :: u8)"
      by (intro bit_word_eqI) (auto simp: BITMAP_MASK_def bit_simps)
    with a show False by simp
  qed
  then show "((byte, idx_bit + 1), (byte, idx_bit)) \<in> measure (\<lambda>(byte, idx_bit). 8 - idx_bit)"
    by simp
qed simp

declare first_free_bit.simps [simp del]

text \<open>The second loop; \<open>bit_left\<close> counts down, \<open>next_bit\<close> up, \<open>count\<close> is the run seen so far.\<close>

fun scan_run :: "bitmap \<Rightarrow> nat \<Rightarrow> nat \<Rightarrow> nat \<Rightarrow> nat \<Rightarrow> int res" where
  "scan_run btmp cnt 0 next_bit count = Inr (-1)"
| "scan_run btmp cnt (Suc bit_left) next_bit count =
     bindE (bitmap_scan_test btmp next_bit) (\<lambda>t.
       let count' = (if t = 0 then count + 1 else 0)
       in if count' = cnt then Inr (int next_bit - int cnt + 1)
          else scan_run btmp cnt bit_left (next_bit + 1) count')"

definition bitmap_scan :: "bitmap \<Rightarrow> nat \<Rightarrow> int res" where
  "bitmap_scan btmp cnt =
     bindE (skip_full btmp 0) (\<lambda>idx_byte.
     bindE (assertE (idx_byte < btmp_bytes_len btmp)) (\<lambda>_.
     if idx_byte = btmp_bytes_len btmp then Inr (-1)
     else
       let idx_bit = first_free_bit (bits btmp ! idx_byte) 0;
           bit_idx_start = idx_byte * 8 + idx_bit
       in if cnt = 1 then Inr (int bit_idx_start)
          else
            let bit_left = btmp_bytes_len btmp * 8 - bit_idx_start
            in scan_run btmp cnt bit_left (bit_idx_start + 1) 1))"

section \<open>Bits\<close>

text \<open>
  \<open>used b i\<close>: bit \<open>i\<close> of the map is one.  \<open>bitmap_wf\<close>: the bytes of the map exist.  \<open>nbits\<close> is
  the number of bits of the map.
\<close>

definition used :: "bitmap \<Rightarrow> nat \<Rightarrow> bool" where
  "used b i \<longleftrightarrow> bit (bits b ! (i div 8)) (i mod 8)"

definition nbits :: "bitmap \<Rightarrow> nat" where
  "nbits b = 8 * btmp_bytes_len b"

definition bitmap_wf :: "bitmap \<Rightarrow> bool" where
  "bitmap_wf b \<longleftrightarrow> btmp_bytes_len b \<le> length (bits b)"

lemma scan_test_ok:
  "i < 8 * length (bits b) \<Longrightarrow>
   bitmap_scan_test b i = Inr (if used b i then 2 ^ (i mod 8) else 0)"
  by (simp add: bitmap_scan_test_def Let_def BITMAP_MASK_def used_def and_2p unat_2p
      less_mult_imp_div_less mult.commute)

lemma bitmap_set_ok:
  assumes "val \<le> 1" and "(i div 8) mod 256 < length (bits b)"
  shows "bitmap_set b i val =
    Inr (b\<lparr>bits := (bits b)[(i div 8) mod 256 :=
            (if val = 1 then bits b ! ((i div 8) mod 256) OR push_bit (i mod 8) 1
             else bits b ! ((i div 8) mod 256) AND NOT (push_bit (i mod 8) 1))]\<rparr>)"
  using assms by (auto simp: bitmap_set_def Let_def le_Suc_eq)

lemma used_update:
  assumes "k < length (bits b)" and "r < 8"
  shows "used (b\<lparr>bits := (bits b)[k := bits b ! k OR push_bit r 1]\<rparr>) j \<longleftrightarrow>
           (j = 8 * k + r \<or> used b j)"
    and "used (b\<lparr>bits := (bits b)[k := bits b ! k AND NOT (push_bit r 1)]\<rparr>) j \<longleftrightarrow>
           (j \<noteq> 8 * k + r \<and> used b j)"
proof -
  have e: "j = 8 * k + r \<longleftrightarrow> j div 8 = k \<and> j mod 8 = r"
    using assms(2) by auto
  have m: "j mod 8 < 8" by simp
  show "used (b\<lparr>bits := (bits b)[k := bits b ! k OR push_bit r 1]\<rparr>) j \<longleftrightarrow>
           (j = 8 * k + r \<or> used b j)"
    using assms m by (cases "j div 8 = k") (auto simp: used_def e bit_simps)
  show "used (b\<lparr>bits := (bits b)[k := bits b ! k AND NOT (push_bit r 1)]\<rparr>) j \<longleftrightarrow>
           (j \<noteq> 8 * k + r \<and> used b j)"
    using assms m by (cases "j div 8 = k") (auto simp: used_def e bit_simps)
qed

lemma mod_2048: "8 * (i div 8 mod 256) + i mod 8 = i mod (2048 :: nat)"
  using mod_mult2_eq [of i 8 256] by simp

lemma bitmap_set_used:
  assumes "val \<le> 1" and "(i div 8) mod 256 < length (bits b)"
  shows "\<exists>b'. bitmap_set b i val = Inr b' \<and> btmp_bytes_len b' = btmp_bytes_len b \<and>
           length (bits b') = length (bits b) \<and>
           (\<forall>j. used b' j \<longleftrightarrow> (if j = i mod 2048 then val = 1 else used b j))"
  using used_update [OF assms(2), of "i mod 8"] mod_2048 [of i]
  by (auto simp: bitmap_set_ok [OF assms])

lemma bitmap_set_wraps: "bitmap_set b i val = bitmap_set b (i mod 2048) val"
proof -
  have "(i mod 2048) div 8 = i div 8 mod 256" and "(i mod 2048) mod 8 = i mod 8"
    by (simp_all flip: mod_2048)
  then show ?thesis by (simp add: bitmap_set_def Let_def)
qed

section \<open>Scanning\<close>

definition first_unused :: "bitmap \<Rightarrow> nat \<Rightarrow> bool" where
  "first_unused b i \<longleftrightarrow> i < nbits b \<and> \<not> used b i \<and> (\<forall>j < i. used b j)"

definition free_run :: "bitmap \<Rightarrow> nat \<Rightarrow> nat \<Rightarrow> bool" where
  "free_run b s cnt \<longleftrightarrow> (\<forall>j. s \<le> j \<and> j < s + cnt \<longrightarrow> \<not> used b j)"

lemma byte_full_iff: "(w :: u8) = 255 \<longleftrightarrow> (\<forall>n < 8. bit w n)"
proof -
  have e: "(255 :: u8) = -1" by simp
  show ?thesis unfolding e by (auto intro!: bit_word_eqI)
qed

lemma skip_full_ok:
  "bitmap_wf b \<Longrightarrow> i \<le> k \<Longrightarrow> k < btmp_bytes_len b \<Longrightarrow> bits b ! k \<noteq> 255 \<Longrightarrow>
   (\<forall>j. i \<le> j \<and> j < k \<longrightarrow> bits b ! j = 255) \<Longrightarrow> skip_full b i = Inr k"
proof (induction b i rule: skip_full.induct)
  case (1 b i)
  show ?case
  proof (cases "i = k")
    case True
    with "1.prems" show ?thesis by (subst skip_full.simps) (simp add: bitmap_wf_def)
  next
    case False
    with "1.prems" have "i < length (bits b)" "bits b ! i = 255" "i < btmp_bytes_len b"
      by (auto simp: bitmap_wf_def)
    with "1.IH" "1.prems" False show ?thesis by (subst skip_full.simps) simp
  qed
qed

lemma skip_full_all:
  "bitmap_wf b \<Longrightarrow> i \<le> btmp_bytes_len b \<Longrightarrow>
   (\<forall>j. i \<le> j \<and> j < btmp_bytes_len b \<longrightarrow> bits b ! j = 255) \<Longrightarrow>
   skip_full b i =
     (if btmp_bytes_len b < length (bits b) then Inr (btmp_bytes_len b) else Inl OutOfBounds)"
proof (induction b i rule: skip_full.induct)
  case (1 b i)
  show ?case
  proof (cases "i = btmp_bytes_len b")
    case True
    with "1.prems" show ?thesis by (subst skip_full.simps) (simp add: bitmap_wf_def)
  next
    case False
    with "1.prems" have "i < length (bits b)" "bits b ! i = 255" "i < btmp_bytes_len b"
      by (auto simp: bitmap_wf_def)
    with "1.IH" "1.prems" False show ?thesis by (subst skip_full.simps) simp
  qed
qed

lemma first_free_bit_ok:
  "i \<le> k \<Longrightarrow> k < 8 \<Longrightarrow> \<not> bit w k \<Longrightarrow> (\<forall>j. i \<le> j \<and> j < k \<longrightarrow> bit w j) \<Longrightarrow>
   first_free_bit w i = k"
proof (induction w i rule: first_free_bit.induct)
  case (1 w i)
  have m: "(push_bit i BITMAP_MASK AND w \<noteq> 0) = (i < 8 \<and> bit w i)"
    using exp_eq_0_imp_not_bit [where 'a = "8 word"]
    by (auto simp: BITMAP_MASK_def and.commute [of _ w] and_2p not_less)
  show ?case
  proof (cases "i = k")
    case True
    with "1.prems" m show ?thesis by (subst first_free_bit.simps) simp
  next
    case False
    with "1.prems" have "i < 8 \<and> bit w i" by auto
    with "1.IH" "1.prems" m False show ?thesis by (subst first_free_bit.simps) simp
  qed
qed

lemma used_in_byte: "r < 8 \<Longrightarrow> used b (8 * k + r) \<longleftrightarrow> bit (bits b ! k) r"
  by (simp add: used_def)

lemma first_unused_byte:
  assumes "first_unused b i"
  shows "i div 8 < btmp_bytes_len b" and "bits b ! (i div 8) \<noteq> 255"
    and "j < i div 8 \<Longrightarrow> bits b ! j = 255"
    and "first_free_bit (bits b ! (i div 8)) 0 = i mod 8"
proof -
  note fu = assms [unfolded first_unused_def nbits_def]
  show "i div 8 < btmp_bytes_len b" using fu by (simp add: less_mult_imp_div_less mult.commute)
  show "bits b ! (i div 8) \<noteq> 255" using fu byte_full_iff [of "bits b ! (i div 8)"] by (auto simp: used_def)
  show "bits b ! j = 255" if "j < i div 8"
    unfolding byte_full_iff
  proof (intro allI impI)
    fix n :: nat
    assume n: "n < 8"
    with that have "8 * j + n < i" by linarith
    with fu n show "bit (bits b ! j) n" by (metis used_in_byte)
  qed
  show "first_free_bit (bits b ! (i div 8)) 0 = i mod 8"
  proof (rule first_free_bit_ok)
    show "\<forall>j. 0 \<le> j \<and> j < i mod 8 \<longrightarrow> bit (bits b ! (i div 8)) j"
    proof (intro allI impI)
      fix j
      assume "0 \<le> j \<and> j < i mod 8"
      then have "j < 8" and "8 * (i div 8) + j < i"
        using mult_div_mod_eq [of 8 i] mod_less_divisor [of 8 i] by linarith+
      with fu show "bit (bits b ! (i div 8)) j" by (metis used_in_byte)
    qed
  qed (use fu in \<open>auto simp: used_def\<close>)
qed

lemma bitmap_scan_start:
  assumes "bitmap_wf b" and "first_unused b i"
  shows "bitmap_scan b cnt =
    (if cnt = 1 then Inr (int i)
     else scan_run b cnt (nbits b - i) (i + 1) 1)"
proof -
  have "skip_full b 0 = Inr (i div 8)"
    using first_unused_byte [OF assms(2)] assms(1) by (intro skip_full_ok) auto
  with first_unused_byte [OF assms(2)] show ?thesis
    by (simp add: bitmap_scan_def nbits_def Let_def mult.commute)
qed

lemma bitmap_scan_full:
  assumes "bitmap_wf b" and "\<forall>i < nbits b. used b i"
  shows "bitmap_scan b cnt =
    Inl (if btmp_bytes_len b < length (bits b) then Assertion else OutOfBounds)"
proof -
  have "bits b ! j = 255" if "j < btmp_bytes_len b" for j
    unfolding byte_full_iff
  proof (intro allI impI)
    fix n :: nat
    assume n: "n < 8"
    with that have "8 * j + n < nbits b" by (simp add: nbits_def)
    with assms(2) n show "bit (bits b ! j) n" by (metis used_in_byte)
  qed
  with skip_full_all [OF assms(1), of 0] show ?thesis by (simp add: bitmap_scan_def)
qed

lemma first_unused_ex:
  assumes "i < nbits b" and "\<not> used b i"
  shows "\<exists>k. first_unused b k"
proof -
  obtain k where k: "\<not> used b k" "\<forall>j < k. used b j"
    using assms(2) exists_least_iff [of "\<lambda>k. \<not> used b k"] by auto
  then have "k \<le> i" using assms(2) by (meson not_less)
  then have "k < nbits b" using assms(1) by (rule le_less_trans)
  with k show ?thesis unfolding first_unused_def by blast
qed

text \<open>
  \<open>scan_run\<close> keeps: the last \<open>count\<close> bits before \<open>next_bit\<close> are free, that run cannot be
  extended to the left, and no run of \<open>cnt\<close> free bits ends at or before \<open>next_bit\<close>.
\<close>

definition scan_inv :: "bitmap \<Rightarrow> nat \<Rightarrow> nat \<Rightarrow> nat \<Rightarrow> bool" where
  "scan_inv b cnt nxt count \<longleftrightarrow>
     count < cnt \<and> count \<le> nxt \<and> free_run b (nxt - count) count \<and>
     (nxt = count \<or> used b (nxt - count - 1)) \<and>
     (\<forall>s. s + cnt \<le> nxt \<longrightarrow> \<not> free_run b s cnt)"

definition scan_answer :: "bitmap \<Rightarrow> nat \<Rightarrow> nat \<Rightarrow> int res \<Rightarrow> bool" where
  "scan_answer b cnt limit r \<longleftrightarrow>
     (\<exists>s. r = Inr (int s) \<and> s + cnt \<le> limit \<and> free_run b s cnt \<and>
          (\<forall>s' < s. \<not> free_run b s' cnt)) \<or>
     (r = Inr (-1) \<and> (\<forall>s. s + cnt \<le> limit \<longrightarrow> \<not> free_run b s cnt))"

lemma free_run_used: "free_run b s cnt \<Longrightarrow> s \<le> j \<Longrightarrow> used b j \<Longrightarrow> s + cnt \<le> j"
  unfolding free_run_def by (meson not_le)

lemma not_free_run: "\<not> free_run b s cnt \<longleftrightarrow> (\<exists>j. s \<le> j \<and> j < s + cnt \<and> used b j)"
  by (auto simp: free_run_def)

lemma scan_inv_free:
  assumes "scan_inv b cnt nxt count" and "\<not> used b nxt" and "count + 1 \<noteq> cnt"
  shows "scan_inv b cnt (nxt + 1) (count + 1)"
proof -
  note inv = assms(1) [unfolded scan_inv_def]
  have "free_run b (nxt + 1 - (count + 1)) (count + 1)"
    using inv assms(2) unfolding free_run_def by (auto simp: less_Suc_eq)
  moreover have "\<not> free_run b s cnt" if "s + cnt = nxt + 1" for s
  proof
    assume r: "free_run b s cnt"
    have "s < nxt - count" using that inv assms(3) by linarith
    with inv have "used b (nxt - count - 1)" "s \<le> nxt - count - 1" by auto
    with free_run_used [OF r] have "s + cnt \<le> nxt - count - 1" by simp
    with that \<open>s < nxt - count\<close> show False by linarith
  qed
  ultimately show ?thesis
    using inv assms(3) unfolding scan_inv_def by (auto simp: le_Suc_eq)
qed

lemma scan_inv_used:
  assumes "scan_inv b cnt nxt count" and "used b nxt"
  shows "scan_inv b cnt (nxt + 1) 0"
proof -
  note inv = assms(1) [unfolded scan_inv_def]
  have "\<not> free_run b s cnt" if "s + cnt = nxt + 1" for s
    using that assms(2) inv free_run_used [of b s cnt nxt] by fastforce
  with inv assms(2) show ?thesis
    unfolding scan_inv_def by (auto simp: le_Suc_eq free_run_def)
qed

lemma scan_inv_found:
  assumes "scan_inv b cnt nxt count" and "\<not> used b nxt" and "count + 1 = cnt"
  shows "free_run b (nxt + 1 - cnt) cnt" and "s' < nxt + 1 - cnt \<Longrightarrow> \<not> free_run b s' cnt"
  using assms unfolding scan_inv_def free_run_def by (auto simp: less_Suc_eq)

lemma scan_run_answer:
  "scan_inv b cnt nxt count \<Longrightarrow> nxt + left \<le> 8 * length (bits b) \<Longrightarrow>
   scan_answer b cnt (nxt + left) (scan_run b cnt left nxt count)"
proof (induction left arbitrary: nxt count)
  case 0
  then show ?case by (simp add: scan_answer_def scan_inv_def)
next
  case (Suc left)
  let ?c = "if used b nxt then 0 else count + 1"
  have t: "bitmap_scan_test b nxt = Inr (if used b nxt then 2 ^ (nxt mod 8) else 0)"
    using Suc.prems(2) by (intro scan_test_ok) simp
  show ?case
  proof (cases "\<not> used b nxt \<and> count + 1 = cnt")
    case True
    with Suc.prems(1) have "cnt \<le> nxt + 1" by (simp add: scan_inv_def)
    with True t have "scan_run b cnt (Suc left) nxt count = Inr (int (nxt + 1 - cnt))"
      by (simp add: of_nat_diff)
    moreover have "nxt + 1 - cnt + cnt \<le> nxt + Suc left" using \<open>cnt \<le> nxt + 1\<close> by simp
    ultimately show ?thesis
      using scan_inv_found [OF Suc.prems(1)] True unfolding scan_answer_def by blast
  next
    case False
    have "scan_inv b cnt (nxt + 1) ?c"
      using scan_inv_free [OF Suc.prems(1)] scan_inv_used [OF Suc.prems(1)] False by auto
    then have "scan_answer b cnt (nxt + 1 + left) (scan_run b cnt left (nxt + 1) ?c)"
      using Suc.prems(2) by (intro Suc.IH) simp_all
    moreover have "?c \<noteq> cnt" using False Suc.prems(1) by (auto simp: scan_inv_def)
    ultimately show ?thesis using t by (cases "used b nxt") (simp_all add: Let_def)
  qed
qed

lemma scan_inv_start:
  assumes "first_unused b i" and "2 \<le> cnt"
  shows "scan_inv b cnt (i + 1) 1"
proof -
  note fu = assms(1) [unfolded first_unused_def]
  have "\<not> free_run b s cnt" if "s + cnt \<le> i + 1" for s
    using that assms(2) fu free_run_used [of b s cnt s] by (auto simp: not_le)
  moreover have "free_run b i 1" using fu by (auto simp: free_run_def less_Suc_eq)
  moreover have "i = 0 \<or> used b (i - 1)" using fu by (cases i) auto
  ultimately show ?thesis using assms(2) by (simp add: scan_inv_def)
qed

lemma bitmap_scan_many:
  assumes "btmp_bytes_len b < length (bits b)" and "first_unused b i" and "2 \<le> cnt"
  shows "scan_answer b cnt (nbits b + 1) (bitmap_scan b cnt)"
proof -
  have wf: "bitmap_wf b" using assms(1) by (simp add: bitmap_wf_def)
  have i: "i < nbits b" using assms(2) by (simp add: first_unused_def)
  have "scan_answer b cnt (i + 1 + (nbits b - i)) (scan_run b cnt (nbits b - i) (i + 1) 1)"
    using assms(1) i scan_inv_start [OF assms(2,3)]
    by (intro scan_run_answer) (auto simp: nbits_def)
  with i assms(3) show ?thesis
    by (simp add: bitmap_scan_start [OF wf assms(2)])
qed

section \<open>The contract of an allocation bitmap\<close>

text \<open>
  What the allocators need: scanning for one bit gives the lowest free one, setting a bit
  below the capacity changes exactly that bit.
\<close>

locale bit_pool =
  fixes wf :: "'b \<Rightarrow> bool"
    and cap :: "'b \<Rightarrow> nat"
    and taken :: "'b \<Rightarrow> nat \<Rightarrow> bool"
    and scan :: "'b \<Rightarrow> nat \<Rightarrow> int res"
    and assign :: "'b \<Rightarrow> nat \<Rightarrow> nat \<Rightarrow> 'b res"
  assumes scan_least:
      "wf b \<Longrightarrow> i < cap b \<Longrightarrow> \<not> taken b i \<Longrightarrow> (\<And>j. j < i \<Longrightarrow> taken b j) \<Longrightarrow>
       scan b 1 = Inr (int i)"
    and assign_bit:
      "wf b \<Longrightarrow> i < cap b \<Longrightarrow> v \<le> 1 \<Longrightarrow>
       \<exists>b'. assign b i v = Inr b' \<and> wf b' \<and> cap b' = cap b \<and>
            (\<forall>j. taken b' j \<longleftrightarrow> (if j = i then v = 1 else taken b j))"
begin

lemma take_lowest:
  assumes "wf b" and "k < cap b" and "\<not> taken b k"
  shows "\<exists>i b'. scan b 1 = Inr (int i) \<and> i \<le> k \<and> \<not> taken b i \<and> (\<forall>j < i. taken b j) \<and>
           assign b i 1 = Inr b' \<and> wf b' \<and> cap b' = cap b \<and>
           (\<forall>j. taken b' j \<longleftrightarrow> j = i \<or> taken b j)"
proof -
  obtain i where i: "\<not> taken b i" "\<forall>j < i. taken b j"
    using assms(3) exists_least_iff [of "\<lambda>k. \<not> taken b k"] by auto
  then have ik: "i \<le> k" using assms(3) by (meson not_less)
  with assms(2) have "i < cap b" by simp
  with scan_least [OF assms(1) this i(1)] assign_bit [OF assms(1) this, of 1] i ik show ?thesis
    by auto
qed

lemma take_then_give:
  assumes "wf b" and "i < cap b" and "\<not> taken b i"
  shows "\<exists>b' b''. assign b i 1 = Inr b' \<and> assign b' i 0 = Inr b'' \<and> wf b'' \<and> cap b'' = cap b \<and>
           (\<forall>j. taken b'' j \<longleftrightarrow> taken b j)"
proof -
  obtain b' where b': "assign b i 1 = Inr b'" "wf b'" "cap b' = cap b"
    "\<forall>j. taken b' j \<longleftrightarrow> (if j = i then (1::nat) = 1 else taken b j)"
    using assign_bit [OF assms(1,2), of 1] by auto
  with assign_bit [OF b'(2), of i 0] assms(2,3) show ?thesis by auto
qed

end

text \<open>
  The code's bitmap meets the contract below 2048 bits only: beyond that the byte index of
  \<open>bitmap_set\<close> does not fit its type (\<open>bitmap_set_wraps\<close>).
\<close>

definition bitmap_cap :: "bitmap \<Rightarrow> nat" where
  "bitmap_cap b = min (nbits b) 2048"

interpretation bmp: bit_pool bitmap_wf bitmap_cap used bitmap_scan bitmap_set
proof unfold_locales
  fix b i
  assume "bitmap_wf b" "i < bitmap_cap b" "\<not> used b i" "\<And>j. j < i \<Longrightarrow> used b j"
  then show "bitmap_scan b 1 = Inr (int i)"
    by (simp add: bitmap_scan_start [of b i] first_unused_def bitmap_cap_def)
next
  fix b i and v :: nat
  assume a: "bitmap_wf b" "i < bitmap_cap b" "v \<le> 1"
  then have "(i div 8) mod 256 < length (bits b)" and "i mod 2048 = i"
    by (auto simp: bitmap_cap_def nbits_def bitmap_wf_def)
  with bitmap_set_used [OF a(3) this(1)] a(1)
  show "\<exists>b'. bitmap_set b i v = Inr b' \<and> bitmap_wf b' \<and> bitmap_cap b' = bitmap_cap b \<and>
          (\<forall>j. used b' j \<longleftrightarrow> (if j = i then v = 1 else used b j))"
    by (auto simp: bitmap_wf_def bitmap_cap_def nbits_def)
qed

text \<open>From bit 2048 on the byte index wraps: the bit set is one that was set before.\<close>

lemma bitmap_set_past_2048:
  assumes "btmp_bytes_len b \<le> length (bits b)" and "i < 8 * btmp_bytes_len b" and "2048 \<le> i"
    and "\<not> used b i" and "\<forall>j < i. used b j"
  shows "bitmap_scan b 1 = Inr (int i) \<and> bitmap_set b i 1 = Inr b"
proof
  show "bitmap_scan b 1 = Inr (int i)"
    using assms by (simp add: bitmap_scan_start [of b i] bitmap_wf_def first_unused_def nbits_def)
  let ?k = "i mod 2048"
  have k: "?k < i" "?k < 2048" using assms(3) by (auto intro: order_less_le_trans [of _ 2048])
  then have u: "bit (bits b ! (?k div 8)) (?k mod 8)" using assms(5) by (auto simp: used_def)
  have l: "?k div 8 mod 256 = ?k div 8" "?k div 8 < length (bits b)"
    using k assms(1,2,3) by auto
  have "bits b ! (?k div 8) OR push_bit (?k mod 8) 1 = bits b ! (?k div 8)"
    using u by (intro bit_word_eqI) (auto simp: bit_simps)
  then show "bitmap_set b i 1 = Inr b"
    using bitmap_set_ok [of 1 ?k b] l by (subst bitmap_set_wraps) simp
qed

text \<open>The map of the 32 MB machine's kernel pool has 480 bytes; with its first 2048 bits taken:\<close>

section \<open>Properties\<close>

text \<open>C40: scanning for one bit and setting the bit found allocates: the scan returns the lowest
  free index, and setting it marks that bit and no other.  This holds while the lowest free
  index is below 2048.\<close>

theorem bitmap_alloc_one:
  assumes "btmp_bytes_len b \<le> length (bits b)"
    and "k < 8 * btmp_bytes_len b" and "k < 2048" and "\<not> used b k"
  shows "\<exists>i b'. bitmap_scan b 1 = Inr (int i) \<and> i \<le> k \<and> \<not> used b i \<and> (\<forall>j < i. used b j) \<and>
           bitmap_set b i 1 = Inr b' \<and> btmp_bytes_len b' = btmp_bytes_len b \<and>
           (\<forall>j. used b' j \<longleftrightarrow> j = i \<or> used b j)"
proof -
  have wf: "bitmap_wf b" and k: "k < bitmap_cap b"
    using assms by (simp_all add: bitmap_wf_def bitmap_cap_def nbits_def)
  obtain i b' where i: "bitmap_scan b 1 = Inr (int i)" "i \<le> k" "\<not> used b i" "\<forall>j < i. used b j"
    "bitmap_set b i 1 = Inr b'" "\<forall>j. used b' j \<longleftrightarrow> j = i \<or> used b j"
    using bmp.take_lowest [OF wf k assms(4)] by blast
  moreover have "btmp_bytes_len b' = btmp_bytes_len b"
    using i(5) by (auto simp: bitmap_set_def Let_def res_simps)
  ultimately show ?thesis by blast
qed

theorem bitmap_alloc_one_witness:
  "\<exists>i b'. bitmap_scan \<lparr>btmp_bytes_len = 2, bits = [255, 5]\<rparr> 1 = Inr (int i) \<and> i \<le> 9 \<and>
     \<not> used \<lparr>btmp_bytes_len = 2, bits = [255, 5]\<rparr> i \<and>
     (\<forall>j < i. used \<lparr>btmp_bytes_len = 2, bits = [255, 5]\<rparr> j) \<and>
     bitmap_set \<lparr>btmp_bytes_len = 2, bits = [255, 5]\<rparr> i 1 = Inr b' \<and>
     btmp_bytes_len b' = 2 \<and>
     (\<forall>j. used b' j \<longleftrightarrow> j = i \<or> used \<lparr>btmp_bytes_len = 2, bits = [255, 5]\<rparr> j)"
  using bitmap_alloc_one [of "\<lparr>btmp_bytes_len = 2, bits = [255, 5]\<rparr>" 9] by (simp add: used_def)

text \<open>Scanning for two or more bits returns the leftmost run of that many free bits, or -1
  when there is none; the runs it considers may end one bit behind the end of the map, in
  the byte that follows it in memory.\<close>

theorem bitmap_scan_leftmost_run:
  assumes "btmp_bytes_len b < length (bits b)" and "2 \<le> cnt"
    and "k < 8 * btmp_bytes_len b" and "\<not> used b k"
  shows "(\<exists>s. bitmap_scan b cnt = Inr (int s) \<and> s + cnt \<le> 8 * btmp_bytes_len b + 1 \<and>
            (\<forall>j. s \<le> j \<and> j < s + cnt \<longrightarrow> \<not> used b j) \<and>
            (\<forall>s' < s. \<exists>j. s' \<le> j \<and> j < s' + cnt \<and> used b j)) \<or>
         (bitmap_scan b cnt = Inr (-1) \<and>
            (\<forall>s. s + cnt \<le> 8 * btmp_bytes_len b + 1 \<longrightarrow>
                 (\<exists>j. s \<le> j \<and> j < s + cnt \<and> used b j)))"
proof -
  obtain i where "first_unused b i"
    using first_unused_ex [of k b] assms(3,4) by (auto simp: nbits_def)
  from bitmap_scan_many [OF assms(1) this assms(2), unfolded scan_answer_def nbits_def
      not_free_run, unfolded free_run_def]
  show ?thesis .
qed

theorem bitmap_scan_leftmost_run_witness:
  "let b = \<lparr>btmp_bytes_len = 1, bits = [51, 0]\<rparr>
   in (\<exists>s. bitmap_scan b 2 = Inr (int s) \<and> s + 2 \<le> 8 * btmp_bytes_len b + 1 \<and>
            (\<forall>j. s \<le> j \<and> j < s + 2 \<longrightarrow> \<not> used b j) \<and>
            (\<forall>s' < s. \<exists>j. s' \<le> j \<and> j < s' + 2 \<and> used b j)) \<or>
      (bitmap_scan b 2 = Inr (-1) \<and>
            (\<forall>s. s + 2 \<le> 8 * btmp_bytes_len b + 1 \<longrightarrow>
                 (\<exists>j. s \<le> j \<and> j < s + 2 \<and> used b j)))"
  unfolding Let_def
proof (rule bitmap_scan_leftmost_run [where k = 2])
  show "\<not> used \<lparr>btmp_bytes_len = 1, bits = [51, 0]\<rparr> 2" by code_simp
qed simp_all

text \<open>When only the last bit of a map is free and the bit behind the map happens to be
  zero, asking for two bits returns the index of that last bit, although the second bit of
  the pair lies outside the map.\<close>

theorem bitmap_scan_leaves_the_map:
  assumes "btmp_bytes_len b < length (bits b)" and "0 < btmp_bytes_len b"
    and "\<forall>j < 8 * btmp_bytes_len b - 1. used b j"
    and "\<not> used b (8 * btmp_bytes_len b - 1)" and "\<not> used b (8 * btmp_bytes_len b)"
  shows "bitmap_scan b 2 = Inr (int (8 * btmp_bytes_len b - 1))"
proof -
  let ?n = "8 * btmp_bytes_len b"
  have fu: "first_unused b (?n - 1)"
    using assms(2,3,4) by (simp add: first_unused_def nbits_def)
  have "\<not> free_run b s 2" if "s < ?n - 1" for s
    using that assms(3) unfolding free_run_def by auto
  moreover have "free_run b (?n - 1) 2"
    unfolding free_run_def
  proof (intro allI impI)
    fix j
    assume "?n - 1 \<le> j \<and> j < ?n - 1 + 2"
    with assms(2) have "j = ?n - 1 \<or> j = ?n" by arith
    with assms(4,5) show "\<not> used b j" by auto
  qed
  ultimately have s: "s = ?n - 1" if "free_run b s 2" "\<forall>s' < s. \<not> free_run b s' 2" for s
    using that by (metis linorder_neqE_nat)
  from bitmap_scan_many [OF assms(1) fu, of 2] \<open>free_run b (?n - 1) 2\<close> s assms(2)
  show ?thesis unfolding scan_answer_def nbits_def by fastforce
qed

theorem bitmap_scan_leaves_the_map_witness:
  "bitmap_scan \<lparr>btmp_bytes_len = 1, bits = [127, 0]\<rparr> 2 = Inr 7"
proof -
  let ?b = "\<lparr>btmp_bytes_len = 1, bits = [127, 0 :: u8]\<rparr>"
  have "\<forall>j < 7. used ?b j" "\<not> used ?b 7" "\<not> used ?b 8" by code_simp+
  then show ?thesis using bitmap_scan_leaves_the_map [of ?b] by simp
qed

text \<open>A map without a free bit makes the scan fail in its assertion (when there is a byte
  behind the map; otherwise the scan has already read outside it), for every number of bits
  asked: the return value -1 that the callers test for is never given for a full map.\<close>

theorem bitmap_scan_full_map_panics:
  assumes "btmp_bytes_len b < length (bits b)" and "\<forall>i < 8 * btmp_bytes_len b. used b i"
  shows "bitmap_scan b cnt = Inl Assertion"
  using bitmap_scan_full [of b cnt] assms by (simp add: bitmap_wf_def nbits_def)

theorem bitmap_scan_full_map_panics_witness:
  "bitmap_scan \<lparr>btmp_bytes_len = 1, bits = [255, 0]\<rparr> 1 = Inl Assertion"
proof -
  have "\<forall>j < 8. used \<lparr>btmp_bytes_len = 1, bits = [255, 0 :: u8]\<rparr> j"
    by code_simp
  then show ?thesis
    using bitmap_scan_full_map_panics [of "\<lparr>btmp_bytes_len = 1, bits = [255, 0]\<rparr>" 1] by simp
qed

text \<open>From bit 2048 on, allocation stops working: when the lowest free bit has an index of
  2048 or more (in a map of that size), marking it changes nothing, and the next scan returns
  the same index again.\<close>

theorem bitmap_alloc_repeats_beyond_2048:
  assumes "btmp_bytes_len b \<le> length (bits b)" and "i < 8 * btmp_bytes_len b" and "2048 \<le> i"
    and "\<not> used b i" and "\<forall>j < i. used b j"
  shows "bitmap_scan b 1 = Inr (int i) \<and> bitmap_set b i 1 = Inr b"
  using bitmap_set_past_2048 [OF assms] .

theorem bitmap_alloc_repeats_beyond_2048_witness:
  "let b = \<lparr>btmp_bytes_len = 480, bits = replicate 256 255 @ replicate 224 (0 :: u8)\<rparr>
   in bitmap_scan b 1 = Inr 2048 \<and> bitmap_set b 2048 1 = Inr b"
proof -
  let ?b = "\<lparr>btmp_bytes_len = 480, bits = replicate 256 255 @ replicate 224 (0 :: u8)\<rparr>"
  have "used ?b j" if "j < 2048" for j
    using that byte_full_iff [of "255 :: u8"] by (simp add: used_def nth_append)
  moreover have "\<not> used ?b 2048" by (simp add: used_def nth_append)
  ultimately show ?thesis
    using bitmap_alloc_repeats_beyond_2048 [of ?b 2048] by (simp add: Let_def)
qed

end
