(* ===== verification/Interrupt.thy ===== *)
theory Interrupt
  imports CString
begin

text \<open>
  \<open>kernel/interrupt.c\<close> and \<open>userprog/tss.c\<close>: the interrupt flag and its four operations, the
  gate descriptors of the IDT and the segment descriptors of the GDT, and the tables the
  initialisation fills.  The flag lives in the \<open>cpu\<close> record, which every later state record
  extends, so that the list and thread operations switch it off and on as the code does.
  Port output is the list of bytes written, in order.
\<close>

section \<open>The interrupt flag\<close>

record cpu =
  eflags :: u32

datatype intr_status = INTR_OFF | INTR_ON

definition EFLAGS_IF :: u32 where
  "EFLAGS_IF = 0x200"

definition intr_get_status :: "'z cpu_scheme \<Rightarrow> intr_status" where
  "intr_get_status s = (if eflags s AND EFLAGS_IF \<noteq> 0 then INTR_ON else INTR_OFF)"

text \<open>\<open>sti\<close> sets the flag, \<open>cli\<close> clears it.\<close>

definition intr_enable :: "'z cpu_scheme \<Rightarrow> intr_status \<times> 'z cpu_scheme" where
  "intr_enable s =
     (if intr_get_status s = INTR_ON then (INTR_ON, s)
      else (INTR_OFF, s\<lparr>eflags := eflags s OR EFLAGS_IF\<rparr>))"

definition intr_disable :: "'z cpu_scheme \<Rightarrow> intr_status \<times> 'z cpu_scheme" where
  "intr_disable s =
     (if intr_get_status s = INTR_ON then (INTR_ON, s\<lparr>eflags := eflags s AND NOT EFLAGS_IF\<rparr>)
      else (INTR_OFF, s))"

definition intr_set_status :: "intr_status \<Rightarrow> 'z cpu_scheme \<Rightarrow> intr_status \<times> 'z cpu_scheme" where
  "intr_set_status status s =
     (if status = INTR_ON then intr_enable s else intr_disable s)"

lemma bit_EFLAGS_IF: "bit EFLAGS_IF n \<longleftrightarrow> n = 9"
proof -
  have e: "EFLAGS_IF = push_bit 9 1" by (simp add: EFLAGS_IF_def)
  show ?thesis unfolding e by (auto simp: bit_simps simp del: push_bit_of_1)
qed

lemma get_status_bit: "intr_get_status s = (if bit (eflags s) 9 then INTR_ON else INTR_OFF)"
proof -
  have "eflags s AND EFLAGS_IF = (if bit (eflags s) 9 then EFLAGS_IF else 0)"
    by (intro bit_word_eqI) (auto simp: bit_simps bit_EFLAGS_IF)
  then show ?thesis by (simp add: intr_get_status_def EFLAGS_IF_def)
qed

lemma disable_fst: "fst (intr_disable s) = intr_get_status s"
  by (cases "intr_get_status s") (simp_all add: intr_disable_def)

lemma disable_off: "intr_get_status (snd (intr_disable s)) = INTR_OFF"
  by (simp add: intr_disable_def get_status_bit bit_EFLAGS_IF bit_simps)

lemma enable_on: "intr_get_status (snd (intr_enable s)) = INTR_ON"
  by (simp add: intr_enable_def get_status_bit bit_EFLAGS_IF bit_simps)

lemma set_status_get: "intr_get_status (snd (intr_set_status st s)) = st"
  by (cases st) (simp_all add: intr_set_status_def disable_off enable_on)

text \<open>Only the flag bit can change, so restoring the status restores the register.\<close>

lemma flag_clear_set: "bit (f :: u32) 9 \<Longrightarrow> (f AND NOT EFLAGS_IF) OR EFLAGS_IF = f"
  by (intro bit_word_eqI) (auto simp: bit_simps bit_EFLAGS_IF)

lemma disable_restore:
  "eflags (snd (intr_set_status (fst (intr_disable s)) (snd (intr_disable s)))) = eflags s"
proof (cases "intr_get_status s")
  case INTR_ON
  then have "bit (eflags s) 9" by (simp add: get_status_bit split: if_splits)
  then show ?thesis
    using INTR_ON flag_clear_set disable_off [of s]
    by (simp add: intr_set_status_def intr_disable_def intr_enable_def)
next
  case INTR_OFF
  then show ?thesis by (simp add: intr_set_status_def intr_disable_def)
qed

section \<open>Interrupt descriptor table\<close>

record gate_desc =
  func_offset_low_word :: u16
  selector :: u16
  dcount :: u8
  attribute :: u8
  func_offset_high_word :: u16

definition IDT_DESC_CNT :: nat where
  "IDT_DESC_CNT = 0x81"

definition IDT_DESC_ATTR_DPL0 :: u8 where
  "IDT_DESC_ATTR_DPL0 = push_bit 7 1 + push_bit 5 0 + 14"

definition IDT_DESC_ATTR_DPL3 :: u8 where
  "IDT_DESC_ATTR_DPL3 = push_bit 7 1 + push_bit 5 3 + 14"

definition SELECTOR_K_CODE :: u16 where
  "SELECTOR_K_CODE = push_bit 3 1 + push_bit 2 0 + 0"

definition make_idt_desc :: "u8 \<Rightarrow> u32 \<Rightarrow> gate_desc" where
  "make_idt_desc attr func =
     \<lparr>func_offset_low_word = ucast (func AND 0x0000ffff), selector = SELECTOR_K_CODE, dcount = 0,
      attribute = attr, func_offset_high_word = ucast (drop_bit 16 (func AND 0xffff0000))\<rparr>"

text \<open>
  \<open>intr_entry_table\<close> is the table of entry points in \<open>kernel/kernel.s\<close>; the argument holds the
  words from its start to the end of the object.
\<close>

fun idt_desc_loop :: "u32 list \<Rightarrow> gate_desc list \<Rightarrow> nat \<Rightarrow> nat \<Rightarrow> gate_desc list res" where
  "idt_desc_loop entries idt i 0 = Inr idt"
| "idt_desc_loop entries idt i (Suc n) =
     bindE (rd entries i) (\<lambda>e.
     bindE (wr idt i (make_idt_desc IDT_DESC_ATTR_DPL0 e)) (\<lambda>idt'.
       idt_desc_loop entries idt' (Suc i) n))"

definition idt_desc_init :: "u32 list \<Rightarrow> u32 \<Rightarrow> gate_desc list \<Rightarrow> gate_desc list res" where
  "idt_desc_init entries syscall_handler idt =
     bindE (idt_desc_loop entries idt 0 (IDT_DESC_CNT - 1)) (\<lambda>idt'.
       wr idt' 0x80 (make_idt_desc IDT_DESC_ATTR_DPL3 syscall_handler))"

definition pic_init :: "(u16 \<times> u8) list" where
  "pic_init =
     [(0x20, 0x11), (0x21, 0x20), (0x21, 0x04), (0x21, 0x01),
      (0xA0, 0x11), (0xA1, 0x28), (0xA1, 0x02), (0xA1, 0x01),
      (0x21, 0xf8), (0xA1, 0x3f)]"

text \<open>The handlers the kernel installs; the field is a function pointer in the code.\<close>

datatype intr_handler =
    General_intr_handler
  | Intr_time_handle
  | Intr_keyboard_handler
  | Intr_hd_handler

definition exception_names :: "(nat \<times> string) list" where
  "exception_names =
     [(0, ''#DE Divide Error''), (1, ''#DB Debug Exception''), (2, ''NMI Interrupt''),
      (3, ''#BP Breakpoint Exception''), (4, ''#OF Overflow Exception''),
      (5, ''#BR BOUND Range Exceeded Exception''), (6, ''#UD Invalid Opcode Exception''),
      (7, ''#NM Device Not Available Exception''), (8, ''#DF Double Fault Exception''),
      (9, ''Coprocessor Segment Overrun''), (10, ''#TS Invalid TSS Exception''),
      (11, ''#NP Segment Not Present''), (12, ''#SS Stack Fault Exception''),
      (13, ''#GP General Protection Exception''), (14, ''#PF Page-Fault Exception''),
      (16, ''#MF x87 FPU Floating-Point Error''), (17, ''#AC Alignment Check Exception''),
      (18, ''#MC Machine-Check Exception''), (19, ''#XF SIMD Floating-Point Exception'')]"

definition exception_init :: "string list \<times> intr_handler list" where
  "exception_init =
     (fold (\<lambda>(i, n) names. names[i := n]) exception_names (replicate IDT_DESC_CNT ''unknown''),
      replicate IDT_DESC_CNT General_intr_handler)"

definition register_handler :: "intr_handler list \<Rightarrow> u8 \<Rightarrow> intr_handler \<Rightarrow> intr_handler list res" where
  "register_handler idt_table vector_no h = wr idt_table (unat vector_no) h"

text \<open>
  Output on the screen is the sequence of calls of \<open>lib/kernel/print.s\<close>.  The handler returns
  from a spurious interrupt; every other one prints the exception and spins for ever (the flag
  of the result).  \<open>cr2\<close> is the address of the last page fault.
\<close>

datatype screen_op =
    Set_cursor u32
  | Put_char char
  | Put_str string
  | Put_int u32

definition general_intr_handler :: "string list \<Rightarrow> u32 \<Rightarrow> u8 \<Rightarrow> (screen_op list \<times> bool) res" where
  "general_intr_handler intr_name cr2 vec_nr =
     (if vec_nr = 0x27 \<or> vec_nr = 0x2f then Inr ([], True)
      else bindE (rd intr_name (unat vec_nr)) (\<lambda>name.
        Inr (Set_cursor 0 # replicate 320 (Put_char CHR '' '') @
             [Set_cursor 0, Put_str (''---------exception message begin---------'' @ [CHR 0x0A]),
              Set_cursor 88, Put_str name] @
             (if vec_nr = 14
              then [Put_str (CHR 0x0A # '' page_fault address is ''), Put_int cr2, Put_char CHR 0x0A]
              else []) @
             [Put_str (CHR 0x0A # ''---------exception message end---------'' @ [CHR 0x0A])],
             False)))"

text \<open>
  \<open>idt_init\<close> fills the table at the address \<open>idt_at\<close>, programs the controllers (the bytes written to the ports),
  sets the names and handlers and loads the table's limit and address into the processor.
\<close>

definition idt_operand :: "u32 \<Rightarrow> 64 word" where
  "idt_operand idt_at = ucast (of_nat (8 * IDT_DESC_CNT) - 1 :: u32) OR push_bit 16 (ucast idt_at)"

definition idt_init :: "u32 list \<Rightarrow> u32 \<Rightarrow> u32 \<Rightarrow> gate_desc list \<Rightarrow>
    (screen_op list \<times> gate_desc list \<times> (u16 \<times> u8) list \<times> (string list \<times> intr_handler list) \<times> 64 word) res" where
  "idt_init entries syscall_handler idt_at idt =
     bindE (idt_desc_init entries syscall_handler idt) (\<lambda>idt'.
       Inr ([Put_str (''idt_init start'' @ [CHR 0x0A]), Put_str (''idt_init done'' @ [CHR 0x0A])],
            idt', pic_init, exception_init, idt_operand idt_at))"

lemma idt_operand_fields:
  "ucast (idt_operand idt_at) = (0x407 :: u16)" "ucast (drop_bit 16 (idt_operand idt_at)) = idt_at"
proof -
  have o: "idt_operand idt_at = 0x407 OR push_bit 16 (ucast idt_at)" by (simp add: idt_operand_def IDT_DESC_CNT_def)
  have high: "\<not> bit (0x407 :: 64 word) n" if "16 \<le> n" for n
    using bit_less_2p [of "0x407 :: 64 word" 16 n] that by simp
  show "ucast (idt_operand idt_at) = (0x407 :: u16)"
    by (rule bit_word_eqI) (auto simp: o bit_simps)
  show "ucast (drop_bit 16 (idt_operand idt_at)) = idt_at"
    by (rule bit_word_eqI) (use high in \<open>auto simp: o bit_simps\<close>)
qed

section \<open>Global descriptor table and task state segment\<close>

record gdt_desc =
  limit_low_word :: u16
  base_low_word :: u16
  base_mid_byte :: u8
  attr_low_byte :: u8
  limit_high_attr_high :: u8
  base_high_byte :: u8

definition make_gdt_desc :: "u32 \<Rightarrow> u32 \<Rightarrow> u8 \<Rightarrow> u8 \<Rightarrow> gdt_desc" where
  "make_gdt_desc base_addr limit attr_low attr_high =
     \<lparr>limit_low_word = ucast (limit AND 0x0000ffff),
      base_low_word = ucast (base_addr AND 0x0000ffff),
      base_mid_byte = ucast (drop_bit 16 (base_addr AND 0x00ff0000)),
      attr_low_byte = attr_low,
      limit_high_attr_high = ucast (drop_bit 16 (limit AND 0x000f0000)) + attr_high,
      base_high_byte = ucast (drop_bit 24 base_addr)\<rparr>"

definition TSS_ATTR_LOW :: u8 where
  "TSS_ATTR_LOW = push_bit 7 1 + push_bit 5 0 + push_bit 4 0 + 9"

definition TSS_ATTR_HIGH :: u8 where
  "TSS_ATTR_HIGH = push_bit 7 1 + push_bit 6 0 + push_bit 5 0 + push_bit 4 0 + 0"

definition GDT_ATTR_HIGH :: u8 where
  "GDT_ATTR_HIGH = push_bit 7 1 + push_bit 6 1 + push_bit 5 0 + push_bit 4 0"

definition GDT_CODE_ATTR_LOW_DPL3 :: u8 where
  "GDT_CODE_ATTR_LOW_DPL3 = push_bit 7 1 + push_bit 5 3 + push_bit 4 1 + 8"

definition GDT_DATA_ATTR_LOW_DPL3 :: u8 where
  "GDT_DATA_ATTR_LOW_DPL3 = push_bit 7 1 + push_bit 5 3 + push_bit 4 1 + 2"

definition SELECTOR_K_STACK :: u32 where
  "SELECTOR_K_STACK = push_bit 3 2 + push_bit 2 0 + 0"

text \<open>
  The segment has 27 fields of four bytes.  Only the fields the code writes are kept; the
  \<open>memset\<close> of the whole structure makes the others zero.
\<close>

record tss =
  tss_esp0 :: u32
  tss_ss0 :: u32
  tss_io_base :: u32

definition tss_size :: nat where
  "tss_size = 27 * 4"

text \<open>
  \<open>tss_init\<close> returns the segment, the three descriptors it stores at \<open>0xc0000920\<close>,
  \<open>0xc0000928\<close> and \<open>0xc0000930\<close>, and the operand of \<open>lgdt\<close>; \<open>tss_addr\<close> is the address of the
  static variable.
\<close>

definition tss_init :: "u32 \<Rightarrow> tss \<times> (u32 \<times> gdt_desc) list \<times> 64 word" where
  "tss_init tss_addr =
     (\<lparr>tss_esp0 = 0, tss_ss0 = SELECTOR_K_STACK, tss_io_base = of_nat tss_size\<rparr>,
      [(0xc0000920, make_gdt_desc tss_addr (of_nat (tss_size - 1)) TSS_ATTR_LOW TSS_ATTR_HIGH),
       (0xc0000928, make_gdt_desc 0 0xfffff GDT_CODE_ATTR_LOW_DPL3 GDT_ATTR_HIGH),
       (0xc0000930, make_gdt_desc 0 0xfffff GDT_DATA_ATTR_LOW_DPL3 GDT_ATTR_HIGH)],
      (8 * 7 - 1) OR push_bit 16 (ucast (0xc0000900 :: u32)))"

definition update_tss_esp :: "tss \<Rightarrow> u32 \<Rightarrow> tss" where
  "update_tss_esp t pthread = t\<lparr>tss_esp0 := pthread + 4096\<rparr>"

section \<open>Properties\<close>

text \<open>The address and the limit the processor reads out of a descriptor.\<close>

definition gate_offset :: "gate_desc \<Rightarrow> u32" where
  "gate_offset g =
     push_bit 16 (ucast (func_offset_high_word g)) OR ucast (func_offset_low_word g)"

definition seg_base :: "gdt_desc \<Rightarrow> u32" where
  "seg_base d = push_bit 24 (ucast (base_high_byte d)) OR push_bit 16 (ucast (base_mid_byte d)) OR
     ucast (base_low_word d)"

definition seg_limit :: "gdt_desc \<Rightarrow> u32" where
  "seg_limit d = push_bit 16 (ucast (limit_high_attr_high d) AND 0xf) OR ucast (limit_low_word d)"

lemma seg_base_make: "seg_base (make_gdt_desc base limit al ah) = base"
proof (rule bit_word_eqI)
  fix n
  assume "n < LENGTH(32)"
  then show "bit (seg_base (make_gdt_desc base limit al ah)) n = bit base n"
    unfolding seg_base_def make_gdt_desc_def
    by (cases "n < 16"; cases "n < 24") (auto simp: bit_simps bit_numeral_masks)
qed

lemma high_limit_sum:
  assumes "ah AND 0xf = (0 :: u8)"
  shows "bit (ucast (drop_bit 16 limit AND (0xf :: u32)) + ah) n \<longleftrightarrow>
     (if n < 4 then bit limit (16 + n) else bit ah n)"
proof -
  let ?h = "ucast (drop_bit 16 limit AND (0xf :: u32)) :: u8"
  have h: "bit ?h n \<longleftrightarrow> n < 4 \<and> bit limit (16 + n)" for n
    by (auto simp: bit_simps bit_numeral_masks)
  have a: "\<not> bit ah n" if "n < 4" for n
  proof
    assume "bit ah n"
    with that have "bit (ah AND 0xf) n" by (simp add: bit_simps bit_numeral_masks)
    with assms show False by simp
  qed
  have "?h + ah = ?h OR ah"
    by (rule disjunctive_add) (use h a in blast)
  with h a show ?thesis by (auto simp: bit_or_iff)
qed

lemma gate_offset_make: "gate_offset (make_idt_desc attr func) = func"
  unfolding gate_offset_def make_idt_desc_def
  by (intro bit_word_eqI) (auto simp: bit_simps bit_numeral_masks)

text \<open>A gate built by \<open>make_idt_desc\<close> carries the handler's address, split over its two
  offset words, the kernel code selector and the attribute byte.\<close>

theorem make_idt_desc_roundtrip:
  "gate_offset (make_idt_desc attr func) = func \<and>
   selector (make_idt_desc attr func) = 8 \<and> attribute (make_idt_desc attr func) = attr"
  using gate_offset_make [of attr func] by (simp add: make_idt_desc_def SELECTOR_K_CODE_def)

text \<open>The descriptors of the GDT round-trip: the base the processor assembles from the three
  base fields is the address given, and the limit assembled from the two limit fields is the
  limit given when it fits 20 bits and the attribute byte has no low bits.\<close>

theorem make_gdt_desc_roundtrip:
  assumes "limit < 0x100000" and "attr_high AND 0xf = 0"
  shows "seg_base (make_gdt_desc base limit attr_low attr_high) = base \<and>
         seg_limit (make_gdt_desc base limit attr_low attr_high) = limit \<and>
         attr_low_byte (make_gdt_desc base limit attr_low attr_high) = attr_low \<and>
         limit_high_attr_high (make_gdt_desc base limit attr_low attr_high) AND 0xf0 = attr_high"
proof -
  have "seg_limit (make_gdt_desc base limit attr_low attr_high) = limit"
  proof (rule bit_word_eqI)
    fix n
    assume "n < LENGTH(32)"
    have "\<not> bit limit n" if "20 \<le> n"
      using bit_less_2p [of limit 20 n] assms(1) that by simp
    then show "bit (seg_limit (make_gdt_desc base limit attr_low attr_high)) n = bit limit n"
      unfolding seg_limit_def make_gdt_desc_def using \<open>n < LENGTH(32)\<close>
      by (cases "n < 16"; cases "n < 20")
        (auto simp: bit_simps bit_numeral_masks high_limit_sum [OF assms(2)])
  qed
  moreover have "limit_high_attr_high (make_gdt_desc base limit attr_low attr_high) AND 0xf0 =
      attr_high"
  proof (rule bit_word_eqI)
    fix n
    assume n: "n < LENGTH(8)"
    have "\<not> bit attr_high n" if "n < 4"
    proof
      assume "bit attr_high n"
      with that have "bit (attr_high AND 0xf) n" by (simp add: bit_simps bit_numeral_masks)
      with assms(2) show False by simp
    qed
    with n show "bit (limit_high_attr_high (make_gdt_desc base limit attr_low attr_high) AND 0xf0) n =
        bit attr_high n"
      unfolding make_gdt_desc_def
      by (auto simp: bit_and_iff bit_numeral_masks high_limit_sum [OF assms(2)])
  qed
  ultimately show ?thesis
    using seg_base_make [of base limit attr_low attr_high] by (simp add: make_gdt_desc_def)
qed

theorem make_gdt_desc_roundtrip_witness:
  "seg_base (make_gdt_desc 0xc0006940 107 TSS_ATTR_LOW TSS_ATTR_HIGH) = 0xc0006940 \<and>
   seg_limit (make_gdt_desc 0xc0006940 107 TSS_ATTR_LOW TSS_ATTR_HIGH) = 107 \<and>
   seg_limit (make_gdt_desc 0 0xfffff GDT_CODE_ATTR_LOW_DPL3 GDT_ATTR_HIGH) = 0xfffff"
  using make_gdt_desc_roundtrip [of 107 TSS_ATTR_HIGH "0xc0006940" TSS_ATTR_LOW]
    make_gdt_desc_roundtrip [of "0xfffff" GDT_ATTR_HIGH 0 GDT_CODE_ATTR_LOW_DPL3]
  by (simp add: TSS_ATTR_HIGH_def GDT_ATTR_HIGH_def)

text \<open>Disabling interrupts and setting the old status back restores the flags register, the
  status in between is off, and setting a status always establishes it.\<close>

theorem intr_disable_restore:
  "intr_get_status (snd (intr_disable s)) = INTR_OFF \<and>
   fst (intr_disable s) = intr_get_status s \<and>
   eflags (snd (intr_set_status (fst (intr_disable s)) (snd (intr_disable s)))) = eflags s \<and>
   intr_get_status (snd (intr_set_status st s)) = st"
  using disable_off disable_fst disable_restore set_status_get by blast

lemma idt_desc_loop_ok:
  "i + n \<le> length entries \<Longrightarrow> i + n \<le> length idt \<Longrightarrow>
   idt_desc_loop entries idt i n =
     Inr (take i idt @ map (make_idt_desc IDT_DESC_ATTR_DPL0) (take n (drop i entries)) @
          drop (i + n) idt)"
proof (induction n arbitrary: i idt)
  case (Suc n)
  then have i: "i < length entries" "i < length idt" by auto
  have "take (Suc n) (drop i entries) = entries ! i # take n (drop (Suc i) entries)"
    using i(1) by (simp add: Cons_nth_drop_Suc [symmetric])
  with Suc.prems i Suc.IH [of "Suc i"] show ?case by (simp add: take_list_update_Suc)
qed simp

lemma idt_desc_loop_short:
  "i \<le> length entries \<Longrightarrow> length entries < i + n \<Longrightarrow> i + n \<le> length idt \<Longrightarrow>
   idt_desc_loop entries idt i n = Inl OutOfBounds"
proof (induction n arbitrary: i idt)
  case (Suc n)
  then show ?case using Suc.IH [of "Suc i"] by (cases "i < length entries") auto
qed simp

text \<open>\<open>idt_desc_init\<close> needs 128 entry points.  With 128 or more it fills gates 0 to 127 with
  the entry points at privilege level 0 and gate 128 with the system call handler at level 3;
  with fewer (the table of \<open>kernel/kernel.s\<close> has 48) it reads behind the end of the table.\<close>

theorem idt_desc_init_needs_128_entries:
  assumes "length idt = 0x81"
  shows "(if 128 \<le> length entries
          then \<exists>idt'. idt_desc_init entries sh idt = Inr idt' \<and> length idt' = 0x81 \<and>
                 (\<forall>i < 128. gate_offset (idt' ! i) = entries ! i \<and>
                            attribute (idt' ! i) = 0x8e) \<and>
                 gate_offset (idt' ! 128) = sh \<and> attribute (idt' ! 128) = 0xee
          else idt_desc_init entries sh idt = Inl OutOfBounds)"
proof (cases "128 \<le> length entries")
  case True
  let ?g = "map (make_idt_desc IDT_DESC_ATTR_DPL0) (take 128 entries)"
  let ?idt = "?g @ [make_idt_desc IDT_DESC_ATTR_DPL3 sh]"
  have off: "attribute (make_idt_desc a f) = a" for a f
    by (simp add: make_idt_desc_def)
  have at: "IDT_DESC_ATTR_DPL0 = 0x8e" "IDT_DESC_ATTR_DPL3 = 0xee"
    by (simp_all add: IDT_DESC_ATTR_DPL0_def IDT_DESC_ATTR_DPL3_def)
  have "length (drop 128 idt) = 1" using assms by simp
  then obtain g where "drop 128 idt = [g]" by (cases "drop 128 idt") auto
  with idt_desc_loop_ok [of 0 128 entries idt] True assms
  have "idt_desc_init entries sh idt = Inr ?idt"
    by (simp add: idt_desc_init_def IDT_DESC_CNT_def list_update_append)
  moreover have "\<forall>i < 128. ?idt ! i = make_idt_desc IDT_DESC_ATTR_DPL0 (entries ! i)"
    using True by (simp add: nth_append)
  moreover have "?idt ! 128 = make_idt_desc IDT_DESC_ATTR_DPL3 sh"
    using True by (simp add: nth_append)
  ultimately show ?thesis using True off at gate_offset_make by simp
next
  case False
  then show ?thesis
    using idt_desc_loop_short [of 0 entries 128 idt] assms
    by (simp add: idt_desc_init_def IDT_DESC_CNT_def)
qed

theorem idt_desc_init_needs_128_entries_witness:
  "idt_desc_init (replicate 48 0xc0001500) 0xc0001a00
     (replicate 0x81 (make_idt_desc 0 0)) = Inl OutOfBounds"
  using idt_desc_init_needs_128_entries
    [of "replicate 0x81 (make_idt_desc 0 0)" "replicate 48 0xc0001500" "0xc0001a00"] by simp

end
