(* ===== verification/IList.thy ===== *)
theory IList
  imports Interrupt
begin

text \<open>
  \<open>lib/kernel/list.c\<close>: intrusive doubly linked lists with a head and a tail sentinel.  The
  list part of a state is the pair of maps \<open>nprev\<close> and \<open>nnext\<close> from a node's address to its
  two pointers (\<open>None\<close> is \<open>NULL\<close>); it extends the \<open>cpu\<close> record because the two primitive
  operations switch interrupts off and back on.  \<open>dll h l xs\<close> says that the list \<open>l\<close> holds the
  nodes \<open>xs\<close> in this order.  Nodes that belong to kernel objects are \<open>Elem\<close>s (the address of
  the object's tag, so that \<open>elem2entry\<close> is the inverse of the constructor), and the
  \<open>linked_queue\<close> locale is the contract the scheduler, the semaphores and the allocator use.
\<close>

section \<open>The operations\<close>

record 'a lheap = cpu +
  nprev :: "'a \<Rightarrow> 'a option"
  nnext :: "'a \<Rightarrow> 'a option"

record 'a plist =
  lhead :: 'a
  ltail :: 'a

definition list_init :: "'a plist \<Rightarrow> ('a, 'z) lheap_scheme \<Rightarrow> ('a, 'z) lheap_scheme" where
  "list_init l h =
     h\<lparr>nprev := (nprev h)(lhead l := None, ltail l := Some (lhead l)),
       nnext := (nnext h)(lhead l := Some (ltail l), ltail l := None)\<rparr>"

definition list_insert_before ::
    "'a option \<Rightarrow> 'a \<Rightarrow> ('a, 'z) lheap_scheme \<Rightarrow> ('a, 'z) lheap_scheme res" where
  "list_insert_before before elem h =
     (let (old_intr_status, h0) = intr_disable h in
      case before of None \<Rightarrow> Inl NullPointer
      | Some b \<Rightarrow>
        let h1 = h0\<lparr>nprev := (nprev h0)(elem := nprev h0 b)\<rparr> in
        case nprev h1 b of None \<Rightarrow> Inl NullPointer
        | Some p \<Rightarrow>
          let h2 = h1\<lparr>nnext := (nnext h1)(p := Some elem)\<rparr>;
              h3 = h2\<lparr>nnext := (nnext h2)(elem := Some b)\<rparr>;
              h4 = h3\<lparr>nprev := (nprev h3)(b := Some elem)\<rparr>
          in Inr (snd (intr_set_status old_intr_status h4)))"

definition list_push :: "'a plist \<Rightarrow> 'a \<Rightarrow> ('a, 'z) lheap_scheme \<Rightarrow> ('a, 'z) lheap_scheme res" where
  "list_push l elem h = list_insert_before (nnext h (lhead l)) elem h"

definition list_append :: "'a plist \<Rightarrow> 'a \<Rightarrow> ('a, 'z) lheap_scheme \<Rightarrow> ('a, 'z) lheap_scheme res" where
  "list_append l elem h = list_insert_before (Some (ltail l)) elem h"

definition list_remove :: "'a option \<Rightarrow> ('a, 'z) lheap_scheme \<Rightarrow> ('a, 'z) lheap_scheme res" where
  "list_remove elem h =
     (let (old_intr_status, h0) = intr_disable h in
      case elem of None \<Rightarrow> Inl NullPointer
      | Some e \<Rightarrow>
        (case nprev h0 e of None \<Rightarrow> Inl NullPointer
         | Some p \<Rightarrow>
           let h1 = h0\<lparr>nnext := (nnext h0)(p := nnext h0 e)\<rparr> in
           case nnext h1 e of None \<Rightarrow> Inl NullPointer
           | Some n \<Rightarrow>
             let h2 = h1\<lparr>nprev := (nprev h1)(n := nprev h1 e)\<rparr>
             in Inr (snd (intr_set_status old_intr_status h2))))"

definition list_pop :: "'a plist \<Rightarrow> ('a, 'z) lheap_scheme \<Rightarrow> ('a option \<times> ('a, 'z) lheap_scheme) res" where
  "list_pop l h =
     (let elem = nnext h (lhead l)
      in bindE (list_remove elem h) (\<lambda>h'. Inr (elem, h')))"

text \<open>
  The traversing loops may follow a damaged list for ever; \<open>None\<close> of the inner \<open>option\<close>
  type stands for that, and the operation itself reports it as \<open>Hang\<close>.
\<close>

partial_function (option) elem_find_loop ::
    "('a \<Rightarrow> 'a option) \<Rightarrow> 'a \<Rightarrow> 'a \<Rightarrow> 'a option \<Rightarrow> bool res option" where
  "elem_find_loop nx tp obj p =
     (if p = Some tp then Some (Inr False)
      else if p = Some obj then Some (Inr True)
      else case p of None \<Rightarrow> Some (Inl NullPointer)
           | Some a \<Rightarrow> elem_find_loop nx tp obj (nx a))"

definition run_loop :: "'b res option \<Rightarrow> 'b res" where
  "run_loop m = (case m of None \<Rightarrow> Inl Hang | Some r \<Rightarrow> r)"

definition elem_find :: "'a plist \<Rightarrow> 'a \<Rightarrow> ('a, 'z) lheap_scheme \<Rightarrow> bool res" where
  "elem_find l obj_elem h =
     run_loop (elem_find_loop (nnext h) (ltail l) obj_elem (nnext h (lhead l)))"

definition list_empty :: "'a plist \<Rightarrow> ('a, 'z) lheap_scheme \<Rightarrow> bool" where
  "list_empty l h \<longleftrightarrow> nnext h (lhead l) = Some (ltail l)"

partial_function (option) list_len_loop ::
    "('a \<Rightarrow> 'a option) \<Rightarrow> 'a \<Rightarrow> 'a option \<Rightarrow> nat \<Rightarrow> nat res option" where
  "list_len_loop nx tp elem len =
     (if elem = Some tp then Some (Inr len)
      else case elem of None \<Rightarrow> Some (Inl NullPointer)
           | Some a \<Rightarrow> list_len_loop nx tp (nx a) (len + 1))"

definition list_len :: "'a plist \<Rightarrow> ('a, 'z) lheap_scheme \<Rightarrow> nat res" where
  "list_len l h = run_loop (list_len_loop (nnext h) (ltail l) (nnext h (lhead l)) 0)"

text \<open>The callback may change the state; the pointer is advanced in the state it leaves.\<close>

partial_function (option) traverse_loop ::
    "('a \<Rightarrow> ('a, 'z) lheap_scheme \<Rightarrow> (bool \<times> ('a, 'z) lheap_scheme) res) \<Rightarrow> 'a \<Rightarrow> 'a option \<Rightarrow>
     ('a, 'z) lheap_scheme \<Rightarrow> ('a option \<times> ('a, 'z) lheap_scheme) res option" where
  "traverse_loop func tp elem h =
     (if elem = Some tp then Some (Inr (None, h))
      else case elem of None \<Rightarrow> Some (Inl NullPointer)
           | Some a \<Rightarrow>
             (case func a h of Inl e \<Rightarrow> Some (Inl e)
              | Inr (stop, h') \<Rightarrow>
                if stop then Some (Inr (Some a, h'))
                else traverse_loop func tp (nnext h' a) h'))"

definition list_traversal ::
    "'a plist \<Rightarrow> ('a \<Rightarrow> ('a, 'z) lheap_scheme \<Rightarrow> (bool \<times> ('a, 'z) lheap_scheme) res) \<Rightarrow>
     ('a, 'z) lheap_scheme \<Rightarrow> ('a option \<times> ('a, 'z) lheap_scheme) res" where
  "list_traversal l func h =
     bindE (list_len l h) (\<lambda>n.
       if n = 0 then Inr (None, h)
       else run_loop (traverse_loop func (ltail l) (nnext h (lhead l)) h))"

section \<open>Lists in the heap\<close>

fun chain :: "('a \<Rightarrow> 'a option) \<Rightarrow> ('a \<Rightarrow> 'a option) \<Rightarrow> 'a \<Rightarrow> 'a list \<Rightarrow> 'a \<Rightarrow> bool" where
  "chain pv nx a [] t \<longleftrightarrow> nx a = Some t \<and> pv t = Some a"
| "chain pv nx a (x # xs) t \<longleftrightarrow> nx a = Some x \<and> pv x = Some a \<and> chain pv nx x xs t"

definition dll :: "('a, 'z) lheap_scheme \<Rightarrow> 'a plist \<Rightarrow> 'a list \<Rightarrow> bool" where
  "dll h l xs \<longleftrightarrow>
     chain (nprev h) (nnext h) (lhead l) xs (ltail l) \<and>
     distinct (lhead l # xs @ [ltail l])"

lemma chain_append:
  "chain pv nx a (xs @ y # ys) t \<longleftrightarrow> chain pv nx a xs y \<and> chain pv nx y ys t"
  by (induction xs arbitrary: a) auto

lemma chain_frame:
  "(\<And>y. y \<in> set (a # xs) \<Longrightarrow> nx' y = nx y) \<Longrightarrow> (\<And>y. y \<in> set (xs @ [t]) \<Longrightarrow> pv' y = pv y) \<Longrightarrow>
   chain pv' nx' a xs t = chain pv nx a xs t"
  by (induction xs arbitrary: a) auto

lemma chain_upd_irrelevant:
  assumes "p \<notin> set (a # xs)" and "q \<notin> set (xs @ [t])"
  shows "chain (pv(q := v)) nx a xs t = chain pv nx a xs t"
    and "chain pv (nx(p := w)) a xs t = chain pv nx a xs t"
  using assms by (auto intro!: chain_frame)

lemma chain_first: "chain pv nx a xs t \<Longrightarrow> nx a = Some (hd (xs @ [t])) \<and> pv (hd (xs @ [t])) = Some a"
  by (cases xs) auto

lemma chain_last: "chain pv nx a xs t \<Longrightarrow> pv t = Some (last (a # xs))"
  by (induction xs arbitrary: a) auto

section \<open>The primitive operations\<close>

text \<open>Between \<open>intr_disable\<close> and \<open>intr_set_status\<close> only pointers change.\<close>

lemma restore_flags:
  "eflags s' = eflags (snd (intr_disable s)) \<Longrightarrow>
   snd (intr_set_status (fst (intr_disable s)) s') = s'\<lparr>eflags := eflags s\<rparr>"
proof (cases "bit (eflags s) 9")
  case True
  assume e: "eflags s' = eflags (snd (intr_disable s))"
  have st: "intr_get_status s = INTR_ON" using True by (simp add: get_status_bit)
  have f: "eflags s' = eflags s AND NOT EFLAGS_IF" using e st by (simp add: intr_disable_def)
  have "\<not> bit (eflags s') 9" by (simp add: f bit_simps bit_EFLAGS_IF)
  then have "intr_get_status s' = INTR_OFF" by (simp add: get_status_bit)
  with st f flag_clear_set [OF True] show ?thesis
    by (simp add: intr_set_status_def intr_disable_def intr_enable_def)
next
  case False
  assume e: "eflags s' = eflags (snd (intr_disable s))"
  have st: "intr_get_status s = INTR_OFF" using False by (simp add: get_status_bit)
  then have "eflags s' = eflags s" using e by (simp add: intr_disable_def)
  with st show ?thesis by (simp add: intr_set_status_def intr_disable_def get_status_bit)
qed

lemma disable_lheap [simp]:
  "nprev (snd (intr_disable h)) = nprev (h :: ('a, 'z) lheap_scheme)"
  "nnext (snd (intr_disable h)) = nnext h"
  by (simp_all add: intr_disable_def)

lemma disable_form: "\<exists>f. snd (intr_disable s) = s\<lparr>eflags := f\<rparr>"
  by (cases "intr_get_status s") (auto simp: intr_disable_def intro: exI [of _ "eflags s"])

lemma list_insert_before_eq:
  assumes "nprev h b = Some p" and "e \<noteq> b"
  shows "list_insert_before (Some b) e h =
    Inr (h\<lparr>nprev := (nprev h)(e := Some p, b := Some e),
           nnext := (nnext h)(p := Some e, e := Some b)\<rparr>)"
proof -
  obtain f where f: "snd (intr_disable h) = h\<lparr>eflags := f\<rparr>" using disable_form by blast
  show ?thesis
    using assms f
    by (simp add: list_insert_before_def split_beta Let_def restore_flags)
qed

lemma list_remove_eq:
  assumes "nprev h e = Some p" and "nnext h e = Some n" and "p \<noteq> e"
  shows "list_remove (Some e) h =
    Inr (h\<lparr>nprev := (nprev h)(n := Some p), nnext := (nnext h)(p := Some n)\<rparr>)"
proof -
  obtain f where f: "snd (intr_disable h) = h\<lparr>eflags := f\<rparr>" using disable_form by blast
  show ?thesis
    using assms f
    by (simp add: list_remove_def split_beta Let_def restore_flags)
qed

section \<open>Functional correctness\<close>

lemma list_init_dll: "lhead l \<noteq> ltail l \<Longrightarrow> dll (list_init l h) l []"
  by (simp add: dll_def list_init_def)

definition nodes :: "'a plist \<Rightarrow> 'a list \<Rightarrow> 'a set" where
  "nodes l xs = set (lhead l # xs @ [ltail l])"

lemma dll_frame:
  assumes "\<And>y. y \<in> nodes l xs \<Longrightarrow> nprev h' y = nprev h y \<and> nnext h' y = nnext h y"
  shows "dll h' l xs = dll h l xs"
proof -
  have "chain (nprev h') (nnext h') (lhead l) xs (ltail l) =
      chain (nprev h) (nnext h) (lhead l) xs (ltail l)"
    using assms by (intro chain_frame) (auto simp: nodes_def)
  then show ?thesis by (simp add: dll_def)
qed

lemma chain_split:
  "chain pv nx a (xs @ ys) t \<Longrightarrow>
   chain pv nx a xs (hd (ys @ [t])) \<and> chain pv nx (last (a # xs)) ys t"
  by (induction xs arbitrary: a) (auto dest: chain_first)

lemma chain_join:
  "chain pv nx a xs (hd (ys @ [t])) \<Longrightarrow> chain pv nx (last (a # xs)) ys t \<Longrightarrow>
   chain pv nx a (xs @ ys) t"
  by (induction xs arbitrary: a) auto

lemma chain_retarget:
  "chain pv nx a xs b \<Longrightarrow> distinct (a # xs) \<Longrightarrow>
   (\<And>y. y \<in> set xs \<Longrightarrow> pv' y = pv y) \<Longrightarrow>
   (\<And>y. y \<in> set (a # xs) \<Longrightarrow> y \<noteq> last (a # xs) \<Longrightarrow> nx' y = nx y) \<Longrightarrow>
   nx' (last (a # xs)) = Some e \<Longrightarrow> pv' e = Some (last (a # xs)) \<Longrightarrow>
   chain pv' nx' a xs e"
proof (induction xs arbitrary: a)
  case (Cons x xs)
  have "chain pv' nx' x xs e"
    by (rule Cons.IH) (use Cons.prems in auto)
  moreover have "a \<noteq> last (x # xs)" using Cons.prems(2) by (metis distinct.simps(2) last_in_set list.simps(3))
  ultimately show ?case using Cons.prems by auto
qed simp

lemma chain_rebase:
  "chain pv nx a ys t \<Longrightarrow> nx' e = Some (hd (ys @ [t])) \<Longrightarrow> pv' (hd (ys @ [t])) = Some e \<Longrightarrow>
   (\<And>y. y \<in> set ys \<Longrightarrow> nx' y = nx y) \<Longrightarrow> (\<And>y. y \<in> set (tl (ys @ [t])) \<Longrightarrow> pv' y = pv y) \<Longrightarrow>
   chain pv' nx' e ys t"
proof (cases ys)
  case (Cons y ys')
  assume a: "chain pv nx a ys t" "nx' e = Some (hd (ys @ [t]))" "pv' (hd (ys @ [t])) = Some e"
    "\<And>y. y \<in> set ys \<Longrightarrow> nx' y = nx y" "\<And>y. y \<in> set (tl (ys @ [t])) \<Longrightarrow> pv' y = pv y"
  have "chain pv' nx' y ys' t = chain pv nx y ys' t"
    using a Cons by (intro chain_frame) auto
  with a Cons show ?thesis by simp
qed simp

lemma insert_between:
  assumes "dll h l (xs @ ys)" and "e \<notin> nodes l (xs @ ys)"
  defines "p \<equiv> last (lhead l # xs)" and "b \<equiv> hd (ys @ [ltail l])"
  shows "dll (h\<lparr>nprev := (nprev h)(e := Some p, b := Some e),
               nnext := (nnext h)(p := Some e, e := Some b)\<rparr>) l (xs @ e # ys)"
    and "nprev h b = Some p" and "nnext h p = Some b" and "b \<noteq> e"
    and "p \<in> nodes l (xs @ ys)" and "b \<in> nodes l (xs @ ys)"
proof -
  have d: "distinct (lhead l # xs @ ys @ [ltail l])" and
    c: "chain (nprev h) (nnext h) (lhead l) (xs @ ys) (ltail l)"
    using assms(1) by (auto simp: dll_def)
  note cs = chain_split [OF c, folded p_def b_def]
  show pb: "nprev h b = Some p" using chain_last [of _ _ _ _ b] cs p_def by blast
  show nb: "nnext h p = Some b" using chain_first [of _ _ p ys "ltail l"] cs b_def by blast
  have pin: "p \<in> set (lhead l # xs)" unfolding p_def by (metis last_in_set list.simps(3))
  then show "p \<in> nodes l (xs @ ys)" by (auto simp: nodes_def)
  have bin: "b \<in> set (ys @ [ltail l])" unfolding b_def by (metis hd_in_set snoc_eq_iff_butlast)
  then show "b \<in> nodes l (xs @ ys)" by (auto simp: nodes_def)
  with assms(2) show be: "b \<noteq> e" by auto
  have e: "e \<notin> set (lhead l # xs @ ys @ [ltail l])" using assms(2) by (simp add: nodes_def)
  let ?pv = "(nprev h)(e := Some p, b := Some e)"
  let ?nx = "(nnext h)(p := Some e, e := Some b)"
  have "chain ?pv ?nx (lhead l) xs e"
  proof (rule chain_retarget [OF cs [THEN conjunct1]])
    show "?pv y = nprev h y" if "y \<in> set xs" for y
      using that e bin d by auto
    show "?nx y = nnext h y" if "y \<in> set (lhead l # xs)" "y \<noteq> last (lhead l # xs)" for y
      using that e by (auto simp: p_def)
  qed (use d e pin be in \<open>auto simp: p_def\<close>)
  moreover have "chain ?pv ?nx e ys (ltail l)"
  proof (rule chain_rebase [OF cs [THEN conjunct2]])
    show "?nx y = nnext h y" if "y \<in> set ys" for y
      using that e pin d by auto
    have "b \<notin> set (tl (ys @ [ltail l]))"
      using d unfolding b_def by (cases ys) auto
    then show "?pv y = nprev h y" if "y \<in> set (tl (ys @ [ltail l]))" for y
      using that e by (cases ys) auto
  qed (simp_all add: b_def)
  ultimately have "chain ?pv ?nx (lhead l) (xs @ e # ys) (ltail l)"
    by (simp add: chain_append)
  then show "dll (h\<lparr>nprev := ?pv, nnext := ?nx\<rparr>) l (xs @ e # ys)"
    using d e by (auto simp: dll_def)
qed

lemma remove_between:
  assumes "dll h l (xs @ e # ys)"
  defines "p \<equiv> last (lhead l # xs)" and "n \<equiv> hd (ys @ [ltail l])"
  shows "dll (h\<lparr>nprev := (nprev h)(n := Some p), nnext := (nnext h)(p := Some n)\<rparr>) l (xs @ ys)"
    and "nprev h e = Some p" and "nnext h e = Some n" and "p \<noteq> e"
    and "p \<in> nodes l (xs @ ys)" and "n \<in> nodes l (xs @ ys)"
proof -
  have d: "distinct (lhead l # xs @ e # ys @ [ltail l])" and
    c: "chain (nprev h) (nnext h) (lhead l) xs e" "chain (nprev h) (nnext h) e ys (ltail l)"
    using assms(1) by (auto simp: dll_def chain_append)
  show "nprev h e = Some p" using chain_last [OF c(1)] p_def by simp
  show "nnext h e = Some n" using chain_first [OF c(2)] n_def by simp
  have pin: "p \<in> set (lhead l # xs)" unfolding p_def by (metis last_in_set list.simps(3))
  then show "p \<in> nodes l (xs @ ys)" by (auto simp: nodes_def)
  have nin: "n \<in> set (ys @ [ltail l])" unfolding n_def by (metis hd_in_set snoc_eq_iff_butlast)
  then show "n \<in> nodes l (xs @ ys)" by (auto simp: nodes_def)
  show "p \<noteq> e" using pin d by auto
  let ?pv = "(nprev h)(n := Some p)"
  let ?nx = "(nnext h)(p := Some n)"
  have "chain ?pv ?nx (lhead l) xs n"
  proof (rule chain_retarget [OF c(1)])
    show "?pv y = nprev h y" if "y \<in> set xs" for y using that nin d by auto
    show "?nx y = nnext h y" if "y \<in> set (lhead l # xs)" "y \<noteq> last (lhead l # xs)" for y
      using that by (auto simp: p_def)
  qed (use d in \<open>auto simp: p_def\<close>)
  moreover have "chain ?pv ?nx p ys (ltail l)"
  proof (rule chain_rebase [OF c(2)])
    show "?nx y = nnext h y" if "y \<in> set ys" for y using that pin d by auto
    have "n \<notin> set (tl (ys @ [ltail l]))" using d unfolding n_def by (cases ys) auto
    then show "?pv y = nprev h y" if "y \<in> set (tl (ys @ [ltail l]))" for y
      using that by (cases ys) auto
  qed (simp_all add: n_def)
  ultimately have "chain ?pv ?nx (lhead l) (xs @ ys) (ltail l)"
    unfolding n_def p_def by (rule chain_join)
  then show "dll (h\<lparr>nprev := ?pv, nnext := ?nx\<rparr>) l (xs @ ys)"
    using d by (auto simp: dll_def)
qed

text \<open>
  \<open>only_lists h h'\<close>: the operation changed list pointers only; \<open>same_off S h h'\<close>: and of those
  only the pointers of the nodes in \<open>S\<close>.
\<close>

definition only_lists :: "('a, 'z) lheap_scheme \<Rightarrow> ('a, 'z) lheap_scheme \<Rightarrow> bool" where
  "only_lists h h' \<longleftrightarrow> h' = h\<lparr>nprev := nprev h', nnext := nnext h'\<rparr>"

definition same_off :: "'a set \<Rightarrow> ('a, 'z) lheap_scheme \<Rightarrow> ('a, 'z) lheap_scheme \<Rightarrow> bool" where
  "same_off S h h' \<longleftrightarrow>
     only_lists h h' \<and> (\<forall>y. y \<notin> S \<longrightarrow> nprev h' y = nprev h y \<and> nnext h' y = nnext h y)"

lemma same_off_dll: "same_off S h h' \<Longrightarrow> nodes l ys \<inter> S = {} \<Longrightarrow> dll h' l ys = dll h l ys"
  by (rule dll_frame) (auto simp: same_off_def)

lemma insert_before_ok:
  assumes "dll h l (xs @ ys)" and "e \<notin> nodes l (xs @ ys)"
  shows "\<exists>h'. list_insert_before (Some (hd (ys @ [ltail l]))) e h = Inr h' \<and>
           dll h' l (xs @ e # ys) \<and> same_off (insert e (nodes l (xs @ ys))) h h'"
proof -
  note i = insert_between [OF assms]
  from i(4) have ne: "e \<noteq> hd (ys @ [ltail l])" by simp
  note eq = list_insert_before_eq [OF i(2) ne]
  show ?thesis
    using i(1,5,6) eq unfolding same_off_def only_lists_def by (intro exI, intro conjI) auto
qed

lemma list_append_ok:
  assumes "dll h l xs" and "e \<notin> nodes l xs"
  shows "\<exists>h'. list_append l e h = Inr h' \<and> dll h' l (xs @ [e]) \<and>
           same_off (insert e (nodes l xs)) h h'"
  using insert_before_ok [of h l xs "[]" e] assms by (simp add: list_append_def)

lemma list_push_ok:
  assumes "dll h l xs" and "e \<notin> nodes l xs"
  shows "\<exists>h'. list_push l e h = Inr h' \<and> dll h' l (e # xs) \<and>
           same_off (insert e (nodes l xs)) h h'"
proof -
  have "nnext h (lhead l) = Some (hd (xs @ [ltail l]))"
    using assms(1) chain_first by (fastforce simp: dll_def)
  with insert_before_ok [of h l "[]" xs e] assms show ?thesis by (simp add: list_push_def)
qed

lemma list_remove_ok:
  assumes "dll h l (xs @ e # ys)"
  shows "\<exists>h'. list_remove (Some e) h = Inr h' \<and> dll h' l (xs @ ys) \<and>
           same_off (nodes l (xs @ ys)) h h'"
proof -
  note r = remove_between [OF assms]
  note eq = list_remove_eq [OF r(2,3,4)]
  show ?thesis
    using r(1,5,6) eq unfolding same_off_def only_lists_def by (intro exI, intro conjI) auto
qed

lemma list_pop_ok:
  assumes "dll h l (e # ys)"
  shows "\<exists>h'. list_pop l h = Inr (Some e, h') \<and> dll h' l ys \<and> same_off (nodes l ys) h h'"
  using list_remove_ok [of h l "[]" e ys] assms
  by (auto simp: list_pop_def Let_def dll_def)

text \<open>Popping an empty list unlinks the tail sentinel: it follows the tail's \<open>next\<close>, \<open>NULL\<close>.\<close>

lemma list_pop_empty:
  assumes "dll h l []" and "nnext h (ltail l) = None"
  shows "list_pop l h = Inl NullPointer"
proof -
  have "nnext h (lhead l) = Some (ltail l)" "nprev h (ltail l) = Some (lhead l)"
    using assms(1) by (auto simp: dll_def)
  with assms show ?thesis
    by (simp add: list_pop_def list_remove_def split_beta Let_def)
qed

lemma list_empty_ok: "dll h l xs \<Longrightarrow> list_empty l h \<longleftrightarrow> xs = []"
  by (cases xs) (auto simp: list_empty_def dll_def)

lemma elem_find_loop_ok:
  "chain pv nx a xs t \<Longrightarrow> t \<notin> set xs \<Longrightarrow> x \<noteq> t \<Longrightarrow>
   elem_find_loop nx t x (nx a) = Some (Inr (x \<in> set xs))"
proof (induction xs arbitrary: a)
  case Nil
  then show ?case by (subst elem_find_loop.simps) simp
next
  case (Cons y ys)
  then show ?case by (subst elem_find_loop.simps) auto
qed

lemma elem_find_ok:
  "dll h l xs \<Longrightarrow> x \<noteq> ltail l \<Longrightarrow> elem_find l x h = Inr (x \<in> set xs)"
  using elem_find_loop_ok [of "nprev h" "nnext h" "lhead l" xs "ltail l" x]
  by (simp add: elem_find_def run_loop_def dll_def)

lemma list_len_loop_ok:
  "chain pv nx a xs t \<Longrightarrow> t \<notin> set xs \<Longrightarrow>
   list_len_loop nx t (nx a) n = Some (Inr (n + length xs))"
proof (induction xs arbitrary: a n)
  case Nil
  then show ?case by (subst list_len_loop.simps) simp
next
  case (Cons y ys)
  then show ?case by (subst list_len_loop.simps) auto
qed

lemma list_len_ok: "dll h l xs \<Longrightarrow> list_len l h = Inr (length xs)"
  using list_len_loop_ok [of "nprev h" "nnext h" "lhead l" xs "ltail l" 0]
  by (simp add: list_len_def run_loop_def dll_def)

text \<open>
  A traversal whose callback leaves the list alone calls it on the nodes in order, threading
  the state, and stops at the first node it accepts.
\<close>

fun visit :: "('a \<Rightarrow> 's \<Rightarrow> (bool \<times> 's) res) \<Rightarrow> 'a list \<Rightarrow> 's \<Rightarrow> ('a option \<times> 's) res" where
  "visit func [] h = Inr (None, h)"
| "visit func (x # xs) h =
     bindE (func x h) (\<lambda>(stop, h'). if stop then Inr (Some x, h') else visit func xs h')"

lemma traverse_loop_ok:
  assumes keep: "\<And>x h stop h'. func x h = Inr (stop, h') \<Longrightarrow> nnext h' = nnext h"
  shows "chain pv (nnext h) a xs t \<Longrightarrow> t \<notin> set xs \<Longrightarrow>
         traverse_loop func t (nnext h a) h = Some (visit func xs h)"
proof (induction xs arbitrary: a h)
  case Nil
  then show ?case by (subst traverse_loop.simps) simp
next
  case (Cons y ys)
  show ?case
  proof (cases "func y h")
    case (Inl e)
    with Cons.prems show ?thesis by (subst traverse_loop.simps) auto
  next
    case (Inr r)
    obtain stop h' where r: "r = (stop, h')" by (cases r)
    have nn: "nnext h' = nnext h" using keep Inr r by blast
    then have "traverse_loop func t (nnext h' y) h' = Some (visit func ys h')"
      using Cons.prems by (intro Cons.IH) auto
    with Inr r nn Cons.prems show ?thesis by (subst traverse_loop.simps) auto
  qed
qed

lemma list_traversal_ok:
  assumes "dll h l xs" and "\<And>x h stop h'. func x h = Inr (stop, h') \<Longrightarrow> nnext h' = nnext h"
  shows "list_traversal l func h = visit func xs h"
proof -
  have "traverse_loop func (ltail l) (nnext h (lhead l)) h = Some (visit func xs h)"
    using assms(1) by (intro traverse_loop_ok [OF assms(2), where pv = "nprev h"]) (auto simp: dll_def)
  with list_len_ok [OF assms(1)] show ?thesis
    by (auto simp: list_traversal_def run_loop_def)
qed

section \<open>The contract of the kernel's queues\<close>

text \<open>
  The kernel names its lists by \<open>'l\<close> and its list nodes by the object they belong to, \<open>'e\<close>.
\<close>

datatype ('e, 'l) node = Elem 'e | Head 'l | Tail 'l

definition klist :: "'l \<Rightarrow> ('e, 'l) node plist" where
  "klist l = \<lparr>lhead = Head l, ltail = Tail l\<rparr>"

definition queue :: "(('e, 'l) node, 'z) lheap_scheme \<Rightarrow> 'l \<Rightarrow> 'e list \<Rightarrow> bool" where
  "queue h l xs \<longleftrightarrow> dll h (klist l) (map Elem xs)"

locale linked_queue =
  fixes rep :: "'h \<Rightarrow> 'l \<Rightarrow> 'e list \<Rightarrow> bool"
    and append :: "'l \<Rightarrow> 'e \<Rightarrow> 'h \<Rightarrow> 'h res"
    and push :: "'l \<Rightarrow> 'e \<Rightarrow> 'h \<Rightarrow> 'h res"
    and pop :: "'l \<Rightarrow> 'h \<Rightarrow> ('e option \<times> 'h) res"
    and member :: "'l \<Rightarrow> 'e \<Rightarrow> 'h \<Rightarrow> bool res"
    and frame :: "'h \<Rightarrow> 'h \<Rightarrow> bool"
  assumes rep_distinct: "rep h l xs \<Longrightarrow> distinct xs"
    and append_law:
      "rep h l xs \<Longrightarrow> e \<notin> set xs \<Longrightarrow>
       \<exists>h'. append l e h = Inr h' \<and> rep h' l (xs @ [e]) \<and> frame h h' \<and>
         (\<forall>k ys. k \<noteq> l \<longrightarrow> e \<notin> set ys \<longrightarrow> set xs \<inter> set ys = {} \<longrightarrow> rep h k ys \<longrightarrow> rep h' k ys)"
    and push_law:
      "rep h l xs \<Longrightarrow> e \<notin> set xs \<Longrightarrow>
       \<exists>h'. push l e h = Inr h' \<and> rep h' l (e # xs) \<and> frame h h' \<and>
         (\<forall>k ys. k \<noteq> l \<longrightarrow> e \<notin> set ys \<longrightarrow> set xs \<inter> set ys = {} \<longrightarrow> rep h k ys \<longrightarrow> rep h' k ys)"
    and pop_law:
      "rep h l (e # xs) \<Longrightarrow>
       \<exists>h'. pop l h = Inr (Some e, h') \<and> rep h' l xs \<and> frame h h' \<and>
         (\<forall>k ys. k \<noteq> l \<longrightarrow> set xs \<inter> set ys = {} \<longrightarrow> rep h k ys \<longrightarrow> rep h' k ys)"
    and member_law: "rep h l xs \<Longrightarrow> member l e h = Inr (e \<in> set xs)"
    and frame_refl: "frame h h"
    and frame_trans: "frame h h' \<Longrightarrow> frame h' h'' \<Longrightarrow> frame h h''"
begin

text \<open>First in, first out: a node appended behind \<open>xs\<close> is popped after exactly \<open>xs\<close>.\<close>

fun pops :: "'l \<Rightarrow> nat \<Rightarrow> 'h \<Rightarrow> ('e option list \<times> 'h) res" where
  "pops l 0 h = Inr ([], h)"
| "pops l (Suc n) h =
     bindE (pop l h) (\<lambda>(x, h'). bindE (pops l n h') (\<lambda>(xs, h''). Inr (x # xs, h'')))"

lemma pops_prefix:
  "rep h l (xs @ ys) \<Longrightarrow>
   \<exists>h'. pops l (length xs) h = Inr (map Some xs, h') \<and> rep h' l ys \<and> frame h h'"
proof (induction xs arbitrary: h)
  case Nil
  then show ?case using frame_refl by auto
next
  case (Cons x xs)
  from Cons.prems have "rep h l (x # (xs @ ys))" by simp
  from pop_law [OF this] obtain h1 where
    h1: "pop l h = Inr (Some x, h1)" "rep h1 l (xs @ ys)" "frame h h1" by blast
  from Cons.IH [OF h1(2)] obtain h2 where
    "pops l (length xs) h1 = Inr (map Some xs, h2)" "rep h2 l ys" "frame h1 h2" by blast
  with h1 frame_trans show ?case by auto
qed

lemma append_fifo:
  assumes "rep h l xs" and "e \<notin> set xs"
  shows "\<exists>h1 h2. append l e h = Inr h1 \<and> pops l (Suc (length xs)) h1 = Inr (map Some xs @ [Some e], h2) \<and>
           rep h2 l [] \<and> frame h h2"
proof -
  obtain h1 where h1: "append l e h = Inr h1" "rep h1 l (xs @ [e])" "frame h h1"
    using append_law [OF assms] by blast
  have "rep h1 l ((xs @ [e]) @ [])" using h1(2) by simp
  from pops_prefix [OF this] obtain h2 where
    "pops l (length (xs @ [e])) h1 = Inr (map Some (xs @ [e]), h2)" "rep h2 l []" "frame h1 h2"
    by blast
  then have "pops l (Suc (length xs)) h1 = Inr (map Some xs @ [Some e], h2)" by simp
  with h1 \<open>rep h2 l []\<close> \<open>frame h1 h2\<close> frame_trans show ?thesis by blast
qed

text \<open>Round robin: popping the head and appending it again rotates the queue.\<close>

lemma pop_append_rotates:
  assumes "rep h l (x # xs)"
  shows "\<exists>h1 h2. pop l h = Inr (Some x, h1) \<and> append l x h1 = Inr h2 \<and> rep h2 l (xs @ [x]) \<and>
           frame h h2"
proof -
  obtain h1 where h1: "pop l h = Inr (Some x, h1)" "rep h1 l xs" "frame h h1"
    using pop_law [OF assms] by blast
  moreover have "x \<notin> set xs" using rep_distinct [OF assms] by simp
  ultimately obtain h2 where "append l x h1 = Inr h2" "rep h2 l (xs @ [x])" "frame h1 h2"
    using append_law by blast
  with h1 frame_trans show ?thesis by blast
qed

text \<open>The two insertions check nothing: the assertion before them in the code holds.\<close>

lemma fresh_append:
  assumes "rep h l xs" and "e \<notin> set xs"
  shows "\<exists>h'. bindE (member l e h) (\<lambda>b. bindE (assertE (\<not> b)) (\<lambda>_. append l e h)) = Inr h' \<and>
           rep h' l (xs @ [e])"
  using append_law [OF assms] member_law [OF assms(1), of e] assms(2) by auto

end

text \<open>
  The same operations with \<open>elem2entry\<close> applied: a node popped that belongs to no object (a
  sentinel) would be turned into a pointer outside every object.
\<close>

definition elem2entry :: "('e, 'l) node option \<Rightarrow> 'e res" where
  "elem2entry n = (case n of Some (Elem e) \<Rightarrow> Inr e | None \<Rightarrow> Inl NullPointer | _ \<Rightarrow> Inl OutOfBounds)"

definition q_append :: "'l \<Rightarrow> 'e \<Rightarrow> (('e, 'l) node, 'z) lheap_scheme \<Rightarrow> (('e, 'l) node, 'z) lheap_scheme res" where
  "q_append l e h = list_append (klist l) (Elem e) h"

definition q_push :: "'l \<Rightarrow> 'e \<Rightarrow> (('e, 'l) node, 'z) lheap_scheme \<Rightarrow> (('e, 'l) node, 'z) lheap_scheme res" where
  "q_push l e h = list_push (klist l) (Elem e) h"

definition q_remove :: "'e \<Rightarrow> (('e, 'l) node, 'z) lheap_scheme \<Rightarrow> (('e, 'l) node, 'z) lheap_scheme res" where
  "q_remove e h = list_remove (Some (Elem e)) h"

definition q_pop :: "'l \<Rightarrow> (('e, 'l) node, 'z) lheap_scheme \<Rightarrow> ('e \<times> (('e, 'l) node, 'z) lheap_scheme) res" where
  "q_pop l h =
     bindE (list_pop (klist l) h) (\<lambda>(n, h'). bindE (elem2entry n) (\<lambda>e. Inr (e, h')))"

definition q_find :: "'l \<Rightarrow> 'e \<Rightarrow> (('e, 'l) node, 'z) lheap_scheme \<Rightarrow> bool res" where
  "q_find l e h = elem_find (klist l) (Elem e) h"

definition q_empty :: "'l \<Rightarrow> (('e, 'l) node, 'z) lheap_scheme \<Rightarrow> bool" where
  "q_empty l h = list_empty (klist l) h"

lemma nodes_klist: "nodes (klist l) (map Elem xs) = {Head l, Tail l} \<union> Elem ` set xs"
  by (auto simp: nodes_def klist_def)

lemma klist_sel [simp]: "lhead (klist l) = Head l" "ltail (klist l) = Tail l"
  by (simp_all add: klist_def)

lemma list_init_queue: "queue (list_init (klist l) h) l []"
  by (simp add: queue_def list_init_dll)

lemma list_init_other: "k \<noteq> l \<Longrightarrow> queue (list_init (klist l) h) k xs = queue h k xs"
  unfolding queue_def by (rule dll_frame) (auto simp: nodes_klist list_init_def)

lemma queue_distinct: "queue h l xs \<Longrightarrow> distinct xs"
  by (auto simp: queue_def dll_def distinct_map)

lemma same_off_queue:
  assumes "same_off S h h'" and "S \<subseteq> {Head l, Tail l} \<union> Elem ` A" and "k \<noteq> l" and "A \<inter> set ys = {}"
    and "queue h k ys"
  shows "queue h' k ys"
proof -
  have "nodes (klist k) (map Elem ys) \<inter> S = {}"
    using assms(2,3,4) by (auto simp: nodes_klist)
  from same_off_dll [OF assms(1) this] assms(5) show ?thesis by (simp add: queue_def)
qed

lemma only_lists_refl: "only_lists h h"
  by (simp add: only_lists_def)

lemma only_lists_eflags [frame_simps]: "only_lists h h' \<Longrightarrow> eflags h' = eflags h"
proof -
  assume "only_lists h h'"
  then have "eflags h' = eflags (h\<lparr>nprev := nprev h', nnext := nnext h'\<rparr>)"
    unfolding only_lists_def by (rule arg_cong)
  then show ?thesis by simp
qed

lemma only_lists_more [frame_simps]: "only_lists h h' \<Longrightarrow> lheap.more h' = lheap.more h"
proof -
  assume "only_lists h h'"
  then have "lheap.more h' = lheap.more (h\<lparr>nprev := nprev h', nnext := nnext h'\<rparr>)"
    unfolding only_lists_def by (rule arg_cong)
  then show ?thesis by simp
qed

lemma only_lists_trans: "only_lists h h' \<Longrightarrow> only_lists h' h'' \<Longrightarrow> only_lists h h''"
  unfolding only_lists_def
  by (metis (no_types, lifting) lheap.surjective lheap.update_convs(1,2))

lemma q_append_ok:
  assumes "queue h l xs" and "e \<notin> set xs"
  shows "\<exists>h'. q_append l e h = Inr h' \<and> queue h' l (xs @ [e]) \<and> only_lists h h' \<and>
    (\<forall>k ys. k \<noteq> l \<longrightarrow> e \<notin> set ys \<longrightarrow> set xs \<inter> set ys = {} \<longrightarrow> queue h k ys \<longrightarrow> queue h' k ys)"
proof -
  have "Elem e \<notin> nodes (klist l) (map Elem xs)" using assms(2) by (auto simp: nodes_klist)
  from list_append_ok [OF assms(1) [unfolded queue_def] this] obtain h' where
    h': "q_append l e h = Inr h'" "queue h' l (xs @ [e])"
    "same_off (insert (Elem e) (nodes (klist l) (map Elem xs))) h h'"
    by (auto simp: q_append_def queue_def)
  have "queue h' k ys"
    if "k \<noteq> l" "e \<notin> set ys" "set xs \<inter> set ys = {}" "queue h k ys" for k ys
    using same_off_queue [OF h'(3), of l "insert e (set xs)" k ys] that by (auto simp: nodes_klist)
  with h' show ?thesis by (auto simp: same_off_def)
qed

lemma q_push_ok:
  assumes "queue h l xs" and "e \<notin> set xs"
  shows "\<exists>h'. q_push l e h = Inr h' \<and> queue h' l (e # xs) \<and> only_lists h h' \<and>
    (\<forall>k ys. k \<noteq> l \<longrightarrow> e \<notin> set ys \<longrightarrow> set xs \<inter> set ys = {} \<longrightarrow> queue h k ys \<longrightarrow> queue h' k ys)"
proof -
  have "Elem e \<notin> nodes (klist l) (map Elem xs)" using assms(2) by (auto simp: nodes_klist)
  from list_push_ok [OF assms(1) [unfolded queue_def] this] obtain h' where
    h': "q_push l e h = Inr h'" "queue h' l (e # xs)"
    "same_off (insert (Elem e) (nodes (klist l) (map Elem xs))) h h'"
    by (auto simp: q_push_def queue_def)
  have "queue h' k ys"
    if "k \<noteq> l" "e \<notin> set ys" "set xs \<inter> set ys = {}" "queue h k ys" for k ys
    using same_off_queue [OF h'(3), of l "insert e (set xs)" k ys] that by (auto simp: nodes_klist)
  with h' show ?thesis by (auto simp: same_off_def)
qed

lemma q_remove_ok:
  assumes "queue h l (xs @ e # ys)"
  shows "\<exists>h'. q_remove e h = Inr h' \<and> queue h' l (xs @ ys) \<and> only_lists h h' \<and>
    (\<forall>k zs. k \<noteq> l \<longrightarrow> set (xs @ ys) \<inter> set zs = {} \<longrightarrow> queue h k zs \<longrightarrow> queue h' k zs)"
proof -
  from list_remove_ok [of h "klist l" "map Elem xs" "Elem e" "map Elem ys"] assms obtain h' where
    h': "q_remove e h = Inr h'" "queue h' l (xs @ ys)"
    "same_off (nodes (klist l) (map Elem (xs @ ys))) h h'"
    by (auto simp: q_remove_def queue_def)
  have "queue h' k zs" if "k \<noteq> l" "set (xs @ ys) \<inter> set zs = {}" "queue h k zs" for k zs
    using same_off_queue [OF h'(3), of l "set (xs @ ys)" k zs] that
    unfolding nodes_klist by auto
  with h' show ?thesis by (auto simp: same_off_def)
qed

lemma q_pop_ok:
  assumes "queue h l (e # xs)"
  shows "\<exists>h'. q_pop l h = Inr (e, h') \<and> queue h' l xs \<and> only_lists h h' \<and>
    (\<forall>k ys. k \<noteq> l \<longrightarrow> set xs \<inter> set ys = {} \<longrightarrow> queue h k ys \<longrightarrow> queue h' k ys)"
proof -
  from list_pop_ok [of h "klist l" "Elem e" "map Elem xs"] assms obtain h' where
    h': "list_pop (klist l) h = Inr (Some (Elem e), h')" "queue h' l xs"
    "same_off (nodes (klist l) (map Elem xs)) h h'"
    by (auto simp: queue_def)
  have "queue h' k ys" if "k \<noteq> l" "set xs \<inter> set ys = {}" "queue h k ys" for k ys
    using same_off_queue [OF h'(3), of l "set xs" k ys] that by (auto simp: nodes_klist)
  with h' show ?thesis by (auto simp: same_off_def q_pop_def elem2entry_def)
qed

lemma q_find_ok: "queue h l xs \<Longrightarrow> q_find l e h = Inr (e \<in> set xs)"
  using elem_find_ok [of h "klist l" "map Elem xs" "Elem e"]
  by (auto simp: q_find_def queue_def)

lemma q_empty_ok: "queue h l xs \<Longrightarrow> q_empty l h \<longleftrightarrow> xs = []"
  using list_empty_ok [of h "klist l" "map Elem xs"] by (simp add: q_empty_def queue_def)

interpretation kq: linked_queue queue q_append q_push
    "\<lambda>l h. map_sum id (\<lambda>(e, h'). (Some e, h')) (q_pop l h)" q_find only_lists
proof unfold_locales
  fix h :: "(('e, 'l) node, 'z) lheap_scheme" and l e and xs
  show "distinct xs" if "queue h l xs" using that by (rule queue_distinct)
  show "\<exists>h'. map_sum id (\<lambda>(e, h'). (Some e, h')) (q_pop l h) = Inr (Some e, h') \<and> queue h' l xs \<and>
      only_lists h h' \<and>
      (\<forall>k ys. k \<noteq> l \<longrightarrow> set xs \<inter> set ys = {} \<longrightarrow> queue h k ys \<longrightarrow> queue h' k ys)"
    if "queue h l (e # xs)"
    using q_pop_ok [OF that] by auto
  show "\<exists>h'. q_append l e h = Inr h' \<and> queue h' l (xs @ [e]) \<and> only_lists h h' \<and>
    (\<forall>k ys. k \<noteq> l \<longrightarrow> e \<notin> set ys \<longrightarrow> set xs \<inter> set ys = {} \<longrightarrow> queue h k ys \<longrightarrow> queue h' k ys)"
    if "queue h l xs" "e \<notin> set xs"
    using that by (rule q_append_ok)
  show "\<exists>h'. q_push l e h = Inr h' \<and> queue h' l (e # xs) \<and> only_lists h h' \<and>
    (\<forall>k ys. k \<noteq> l \<longrightarrow> e \<notin> set ys \<longrightarrow> set xs \<inter> set ys = {} \<longrightarrow> queue h k ys \<longrightarrow> queue h' k ys)"
    if "queue h l xs" "e \<notin> set xs"
    using that by (rule q_push_ok)
  show "q_find l e h = Inr (e \<in> set xs)" if "queue h l xs" using that by (rule q_find_ok)
  show "only_lists h h" by (rule only_lists_refl)
  show "only_lists h h''" if "only_lists h h'" "only_lists h' h''" for h' h''
    using that by (rule only_lists_trans)
qed

section \<open>Properties\<close>


text \<open>A list with two nodes, built by the operations from an empty one.\<close>

definition demo_heap :: "((nat, nat) node) lheap" where
  "demo_heap = list_init (klist 0) \<lparr>eflags = 0x202, nprev = (\<lambda>_. None), nnext = (\<lambda>_. None)\<rparr>"

lemma demo_heap_empty: "queue demo_heap 0 []"
  using list_init_dll [of "klist 0"] by (simp add: queue_def demo_heap_def)


text \<open>The queues are first in, first out: a node appended to a queue is popped after exactly
  the nodes that were in it, in their order, and nothing but list pointers changes.\<close>

theorem list_append_pop_fifo:
  assumes "queue h l xs" and "e \<notin> set xs"
  shows "\<exists>h1 h2. q_append l e h = Inr h1 \<and>
           kq.pops l (Suc (length xs)) h1 = Inr (map Some xs @ [Some e], h2) \<and>
           queue h2 l [] \<and> only_lists h h2"
  using kq.append_fifo [OF assms] .

theorem list_append_pop_fifo_witness:
  "\<exists>h1 h2. q_append 0 7 demo_heap = Inr h1 \<and> kq.pops 0 1 h1 = Inr ([Some 7], h2) \<and> queue h2 0 []"
  using list_append_pop_fifo [OF demo_heap_empty, of 7] by auto

end
