(* ===== verification/Paging.thy ===== *)
theory Paging
  imports Prelude
begin

text \<open>
  The page-table arithmetic of \<open>lib/kernel/memory.c\<close>: the addresses at which the recursive
  last page-directory entry shows the page tables, and the translation the kernel reads out of
  them.  \<open>mmu_walk\<close> is the two-level walk of the x86 processor (4 KB pages, present bits;
  access rights are not modelled) over physical memory \<open>pm\<close>, a map from the address of a
  32-bit word to its value; \<open>cr3\<close> is the physical address of the page directory.
\<close>

section \<open>The processor's walk\<close>

definition PG_P :: u32 where
  "PG_P = 1"

definition frame_of :: "u32 \<Rightarrow> u32" where
  "frame_of entry = entry AND 0xfffff000"

definition pde_addr :: "u32 \<Rightarrow> u32 \<Rightarrow> u32" where
  "pde_addr cr3 v = cr3 + push_bit 2 (drop_bit 22 v)"

definition pte_addr :: "u32 \<Rightarrow> u32 \<Rightarrow> u32" where
  "pte_addr pde v = frame_of pde + push_bit 2 (drop_bit 12 v AND 0x3ff)"

definition mmu_walk :: "u32 \<Rightarrow> (u32 \<Rightarrow> u32) \<Rightarrow> u32 \<Rightarrow> u32 option" where
  "mmu_walk cr3 pm v =
     (let pde = pm (pde_addr cr3 v)
      in if pde AND PG_P = 0 then None
         else let pte = pm (pte_addr pde v)
              in if pte AND PG_P = 0 then None else Some (frame_of pte + (v AND 0xfff)))"

text \<open>A 32-bit access through the page tables.\<close>

definition load32 :: "u32 \<Rightarrow> (u32 \<Rightarrow> u32) \<Rightarrow> u32 \<Rightarrow> u32 res" where
  "load32 cr3 pm v = (case mmu_walk cr3 pm v of None \<Rightarrow> Inl PageFault | Some p \<Rightarrow> Inr (pm p))"

definition store32 :: "u32 \<Rightarrow> (u32 \<Rightarrow> u32) \<Rightarrow> u32 \<Rightarrow> u32 \<Rightarrow> (u32 \<Rightarrow> u32) res" where
  "store32 cr3 pm v x =
     (case mmu_walk cr3 pm v of None \<Rightarrow> Inl PageFault | Some p \<Rightarrow> Inr (pm(p := x)))"

section \<open>The kernel's view\<close>

definition PDE_IDX :: "u32 \<Rightarrow> u32" where
  "PDE_IDX addr = drop_bit 22 (addr AND 0xffc00000)"

definition PTE_IDX :: "u32 \<Rightarrow> u32" where
  "PTE_IDX addr = drop_bit 12 (addr AND 0x003ff000)"

definition get_pde_ptr :: "u32 \<Rightarrow> u32" where
  "get_pde_ptr vaddr = 0xffc00000 + drop_bit 10 0xffc00000 + PDE_IDX vaddr * 4"

definition get_pte_ptr :: "u32 \<Rightarrow> u32" where
  "get_pte_ptr vaddr = 0xffc00000 + drop_bit 10 (vaddr AND 0xffc00000) + PTE_IDX vaddr * 4"

definition addr_v2p :: "u32 \<Rightarrow> (u32 \<Rightarrow> u32) \<Rightarrow> u32 \<Rightarrow> u32 res" where
  "addr_v2p cr3 pm vaddr =
     bindE (load32 cr3 pm (get_pte_ptr vaddr)) (\<lambda>pte.
       Inr ((pte AND 0xfffff000) OR (0x00000fff AND vaddr)))"

text \<open>The \<open>invlpg\<close> that follows drops the processor's cached translation; the walk has no cache.\<close>

definition page_table_pte_remove :: "u32 \<Rightarrow> (u32 \<Rightarrow> u32) \<Rightarrow> u32 \<Rightarrow> (u32 \<Rightarrow> u32) res" where
  "page_table_pte_remove cr3 pm vaddr =
     bindE (load32 cr3 pm (get_pte_ptr vaddr)) (\<lambda>pte.
       store32 cr3 pm (get_pte_ptr vaddr) (pte AND 0xfffffffe))"

section \<open>Bits of the addresses\<close>

lemma bit_page_masks:
  "bit (0xfffff000 :: int) n \<longleftrightarrow> 12 \<le> n \<and> n < 32"
  "bit (0xffc00000 :: int) n \<longleftrightarrow> 22 \<le> n \<and> n < 32"
  "bit (0x003ff000 :: int) n \<longleftrightarrow> 12 \<le> n \<and> n < 22"
  "bit (0x3ff :: int) n \<longleftrightarrow> n < 10"
  "bit (0xfff :: int) n \<longleftrightarrow> n < 12"
  "bit (0xfffffffe :: int) n \<longleftrightarrow> 1 \<le> n \<and> n < 32"
proof -
  have m: "(0xfffff000 :: int) = push_bit 12 (mask 20)" "(0xffc00000 :: int) = push_bit 22 (mask 10)"
    "(0x003ff000 :: int) = push_bit 12 (mask 10)" "(0x3ff :: int) = push_bit 0 (mask 10)"
    "(0xfff :: int) = push_bit 0 (mask 12)" "(0xfffffffe :: int) = push_bit 1 (mask 31)"
    by (simp_all add: mask_eq_exp_minus_1 push_bit_eq_mult)
  have p: "bit (push_bit k (mask l :: int)) n \<longleftrightarrow> k \<le> n \<and> n < k + l" for k l
    by (auto simp: bit_push_bit_iff_int bit_mask_iff)
  show "bit (0xfffff000 :: int) n \<longleftrightarrow> 12 \<le> n \<and> n < 32" unfolding m(1) p by simp
  show "bit (0xffc00000 :: int) n \<longleftrightarrow> 22 \<le> n \<and> n < 32" unfolding m(2) p by simp
  show "bit (0x003ff000 :: int) n \<longleftrightarrow> 12 \<le> n \<and> n < 22" unfolding m(3) p by simp
  show "bit (0x3ff :: int) n \<longleftrightarrow> n < 10" unfolding m(4) p by simp
  show "bit (0xfff :: int) n \<longleftrightarrow> n < 12" unfolding m(5) p by simp
  show "bit (0xfffffffe :: int) n \<longleftrightarrow> 1 \<le> n \<and> n < 32" unfolding m(6) p by simp
qed

lemma times4_push: "(w :: u32) * 4 = push_bit 2 w"
  by (simp add: push_bit_eq_mult)

lemma bit_get_pte_ptr:
  "bit (get_pte_ptr v) n \<longleftrightarrow> (if 22 \<le> n then n < 32 else 2 \<le> n \<and> bit v (n + 10))"
proof -
  define A where "A = drop_bit 10 (v AND 0xffc00000)"
  let ?b = "push_bit 2 (PTE_IDX v)"
  have a: "bit A n \<longleftrightarrow> 12 \<le> n \<and> n < 22 \<and> bit v (n + 10)" for n
    unfolding A_def by (auto simp: bit_simps bit_page_masks add.commute)
  have b: "bit ?b n \<longleftrightarrow> 2 \<le> n \<and> n < 12 \<and> bit v (n + 10)" for n
  proof (cases "2 \<le> n")
    case True
    then obtain k where "n = k + 2" by (metis add.commute le_Suc_ex)
    then show ?thesis by (auto simp: PTE_IDX_def bit_simps bit_page_masks add.commute)
  qed (simp add: bit_simps)
  have "0xffc00000 + A = 0xffc00000 OR A"
    by (rule disjunctive_add) (auto simp: a bit_page_masks)
  moreover have "(0xffc00000 OR A) + ?b = (0xffc00000 OR A) OR ?b"
    by (rule disjunctive_add) (auto simp: a b bit_page_masks bit_or_iff)
  ultimately have "get_pte_ptr v = (0xffc00000 OR A) OR ?b"
    unfolding get_pte_ptr_def times4_push A_def [symmetric] by simp
  then show ?thesis by (auto simp: a b bit_or_iff bit_page_masks)
qed

lemma bit_get_pde_ptr:
  "bit (get_pde_ptr v) n \<longleftrightarrow> (if 12 \<le> n then n < 32 else 2 \<le> n \<and> bit v (n + 20))"
proof -
  let ?b = "push_bit 2 (PDE_IDX v)"
  have b: "bit ?b n \<longleftrightarrow> 2 \<le> n \<and> n < 12 \<and> bit v (n + 20)" for n
  proof (cases "2 \<le> n")
    case True
    then obtain k where k: "n = k + 2" by (metis add.commute le_Suc_ex)
    have "bit v (k + 22) \<Longrightarrow> k < 10" using bit_imp_le_length [of v "k + 22"] by simp
    with k show ?thesis by (auto simp: PDE_IDX_def bit_simps bit_page_masks add.commute)
  qed (simp add: bit_simps)
  have "0xfffff000 + ?b = 0xfffff000 OR ?b"
    by (rule disjunctive_add) (auto simp: b bit_page_masks)
  then have "get_pde_ptr v = 0xfffff000 OR ?b"
    by (simp add: get_pde_ptr_def times4_push)
  then show ?thesis by (auto simp: b bit_or_iff bit_page_masks)
qed

section \<open>The recursive entry\<close>

text \<open>The last entry of the page directory points at the directory itself.\<close>

definition recursive_map :: "u32 \<Rightarrow> (u32 \<Rightarrow> u32) \<Rightarrow> bool" where
  "recursive_map cr3 pm \<longleftrightarrow>
     pm (cr3 + 0xffc) AND PG_P \<noteq> 0 \<and> frame_of (pm (cr3 + 0xffc)) = cr3"

definition present :: "u32 \<Rightarrow> bool" where
  "present entry \<longleftrightarrow> entry AND PG_P \<noteq> 0"

lemma pte_ptr_fields:
  "drop_bit 22 (get_pte_ptr v) = 0x3ff"
  "drop_bit 12 (get_pte_ptr v) AND 0x3ff = drop_bit 22 v"
  "get_pte_ptr v AND 0xfff = push_bit 2 (drop_bit 12 v AND 0x3ff)"
proof -
  have len: "bit v n \<Longrightarrow> n < 32" for n using bit_imp_le_length [of v n] by simp
  show "drop_bit 22 (get_pte_ptr v) = 0x3ff"
    by (rule bit_word_eqI) (auto simp: bit_drop_bit_eq bit_get_pte_ptr bit_page_masks)
  show "drop_bit 12 (get_pte_ptr v) AND 0x3ff = drop_bit 22 v"
    by (rule bit_word_eqI)
      (auto simp: bit_drop_bit_eq bit_and_iff bit_get_pte_ptr bit_page_masks ac_simps dest: len)
  show "get_pte_ptr v AND 0xfff = push_bit 2 (drop_bit 12 v AND 0x3ff)"
  proof (rule bit_word_eqI)
    fix n
    show "bit (get_pte_ptr v AND 0xfff) n = bit (push_bit 2 (drop_bit 12 v AND 0x3ff)) n"
    proof (cases "2 \<le> n")
      case True
      then obtain k where "n = k + 2" by (metis add.commute le_Suc_ex)
      then show ?thesis
        by (auto simp: bit_simps bit_get_pte_ptr bit_page_masks ac_simps dest: len)
    qed (simp add: bit_simps bit_get_pte_ptr)
  qed
qed

lemma pde_ptr_fields:
  "drop_bit 22 (get_pde_ptr v) = 0x3ff"
  "drop_bit 12 (get_pde_ptr v) AND 0x3ff = 0x3ff"
  "get_pde_ptr v AND 0xfff = push_bit 2 (drop_bit 22 v)"
proof -
  have len: "bit v n \<Longrightarrow> n < 32" for n using bit_imp_le_length [of v n] by simp
  show "drop_bit 22 (get_pde_ptr v) = 0x3ff"
    by (rule bit_word_eqI) (auto simp: bit_drop_bit_eq bit_get_pde_ptr bit_page_masks)
  show "drop_bit 12 (get_pde_ptr v) AND 0x3ff = 0x3ff"
    by (rule bit_word_eqI)
      (auto simp: bit_drop_bit_eq bit_and_iff bit_get_pde_ptr bit_page_masks)
  show "get_pde_ptr v AND 0xfff = push_bit 2 (drop_bit 22 v)"
  proof (rule bit_word_eqI)
    fix n
    show "bit (get_pde_ptr v AND 0xfff) n = bit (push_bit 2 (drop_bit 22 v)) n"
    proof (cases "2 \<le> n")
      case True
      then obtain k where "n = k + 2" by (metis add.commute le_Suc_ex)
      then show ?thesis
        by (auto simp: bit_simps bit_get_pde_ptr bit_page_masks ac_simps dest: len)
    qed (simp add: bit_simps bit_get_pde_ptr)
  qed
qed

lemma walk_pte_ptr:
  assumes "recursive_map cr3 pm" and "present (pm (pde_addr cr3 v))"
  shows "mmu_walk cr3 pm (get_pte_ptr v) = Some (pte_addr (pm (pde_addr cr3 v)) v)"
proof -
  have "pde_addr cr3 (get_pte_ptr v) = cr3 + 0xffc"
    by (simp add: pde_addr_def pte_ptr_fields)
  moreover have "pte_addr (pm (cr3 + 0xffc)) (get_pte_ptr v) = pde_addr cr3 v"
    using assms(1) by (simp add: pte_addr_def pte_ptr_fields recursive_map_def pde_addr_def)
  ultimately show ?thesis
    using assms by (simp add: mmu_walk_def Let_def recursive_map_def present_def pte_ptr_fields
        pte_addr_def)
qed

lemma walk_pde_ptr:
  assumes "recursive_map cr3 pm"
  shows "mmu_walk cr3 pm (get_pde_ptr v) = Some (pde_addr cr3 v)"
proof -
  have "pde_addr cr3 (get_pde_ptr v) = cr3 + 0xffc"
    by (simp add: pde_addr_def pde_ptr_fields)
  moreover have "pte_addr (pm (cr3 + 0xffc)) (get_pde_ptr v) = cr3 + 0xffc"
    using assms by (simp add: pte_addr_def pde_ptr_fields recursive_map_def)
  ultimately show ?thesis
    using assms by (simp add: mmu_walk_def Let_def recursive_map_def pde_ptr_fields pde_addr_def)
qed

lemma walk_pte_ptr_absent:
  assumes "recursive_map cr3 pm" and "\<not> present (pm (pde_addr cr3 v))"
  shows "mmu_walk cr3 pm (get_pte_ptr v) = None"
proof -
  have "pde_addr cr3 (get_pte_ptr v) = cr3 + 0xffc"
    by (simp add: pde_addr_def pte_ptr_fields)
  moreover have "pte_addr (pm (cr3 + 0xffc)) (get_pte_ptr v) = pde_addr cr3 v"
    using assms(1) by (simp add: pte_addr_def pte_ptr_fields recursive_map_def pde_addr_def)
  ultimately show ?thesis
    using assms by (simp add: mmu_walk_def Let_def recursive_map_def present_def)
qed

lemma frame_plus_offset: "frame_of e + (v AND 0xfff) = (e AND 0xfffff000) OR (0xfff AND v)"
  unfolding frame_of_def
  by (subst disjunctive_add) (auto simp: bit_and_iff bit_page_masks and.commute)

section \<open>Properties\<close>

text \<open>C32: with the recursive entry in place, the address \<open>addr_v2p\<close> computes for a mapped virtual
  address is the physical address the processor translates it to; where the page directory
  has no table for the address, reading the entry faults.\<close>

theorem addr_v2p_is_the_translation:
  assumes "recursive_map cr3 pm"
  shows "(mmu_walk cr3 pm v = Some p \<longrightarrow> addr_v2p cr3 pm v = Inr p) \<and>
         (\<not> present (pm (pde_addr cr3 v)) \<longrightarrow> addr_v2p cr3 pm v = Inl PageFault)"
proof (cases "present (pm (pde_addr cr3 v))")
  case True
  then have "addr_v2p cr3 pm v =
      Inr (frame_of (pm (pte_addr (pm (pde_addr cr3 v)) v)) + (v AND 0xfff))"
    using walk_pte_ptr [OF assms True]
    by (simp add: addr_v2p_def load32_def frame_plus_offset)
  with True show ?thesis
    by (auto simp: mmu_walk_def Let_def present_def split: if_splits)
next
  case False
  then show ?thesis
    using walk_pte_ptr_absent [OF assms False]
    by (simp add: addr_v2p_def load32_def mmu_walk_def Let_def present_def)
qed

text \<open>A directory at \<open>0x100000\<close> with one table at \<open>0x101000\<close> that maps page 1 to frame \<open>0x5000\<close>.\<close>

definition demo_pm :: "u32 \<Rightarrow> u32" where
  "demo_pm a = (if a = 0x100ffc then 0x100007 else if a = 0x100000 then 0x101007
     else if a = 0x101004 then 0x5007 else 0)"

theorem addr_v2p_is_the_translation_witness:
  "addr_v2p 0x100000 demo_pm 0x1234 = Inr 0x5234 \<and>
   addr_v2p 0x100000 demo_pm 0x400000 = Inl PageFault"
proof -
  have r: "recursive_map 0x100000 demo_pm"
    by (simp add: recursive_map_def demo_pm_def PG_P_def frame_of_def)
  have w: "mmu_walk 0x100000 demo_pm 0x1234 = Some 0x5234"
    by (simp add: mmu_walk_def Let_def pde_addr_def pte_addr_def demo_pm_def PG_P_def frame_of_def)
  have a: "\<not> present (demo_pm (pde_addr 0x100000 0x400000))"
    by (simp add: present_def pde_addr_def demo_pm_def)
  from addr_v2p_is_the_translation [OF r] w a show ?thesis by blast
qed

text \<open>\<open>page_table_pte_remove\<close> unmaps the page of a mapped address and, when the entry is not
  also a directory entry, leaves the translation of every page with another entry as it was.\<close>

theorem pte_remove_unmaps:
  assumes "recursive_map cr3 pm" and "present (pm (pde_addr cr3 v))"
    and "\<forall>w. pde_addr cr3 w \<noteq> pte_addr (pm (pde_addr cr3 v)) v"
  shows "\<exists>pm'. page_table_pte_remove cr3 pm v = Inr pm' \<and>
           mmu_walk cr3 pm' v = None \<and>
           (\<forall>w. mmu_walk cr3 pm' w =
                  (if pte_addr (pm (pde_addr cr3 w)) w = pte_addr (pm (pde_addr cr3 v)) v
                   then None else mmu_walk cr3 pm w))"
proof -
  let ?a = "pte_addr (pm (pde_addr cr3 v)) v"
  let ?pm' = "pm(?a := pm ?a AND 0xfffffffe)"
  have "page_table_pte_remove cr3 pm v = Inr ?pm'"
    using walk_pte_ptr [OF assms(1,2)]
    by (simp add: page_table_pte_remove_def load32_def store32_def)
  moreover have "(x AND 0xfffffffe) AND PG_P = 0" for x :: u32
    unfolding PG_P_def by (rule bit_word_eqI) (auto simp: bit_simps bit_page_masks)
  then have "mmu_walk cr3 ?pm' w =
      (if pte_addr (pm (pde_addr cr3 w)) w = ?a then None else mmu_walk cr3 pm w)" for w
    using assms(3) by (auto simp: mmu_walk_def Let_def)
  ultimately show ?thesis by auto
qed

theorem pte_remove_unmaps_witness:
  "\<exists>pm'. page_table_pte_remove 0x100000 demo_pm 0x1234 = Inr pm' \<and>
     mmu_walk 0x100000 pm' 0x1234 = None"
proof -
  have r: "recursive_map 0x100000 demo_pm"
    by (simp add: recursive_map_def demo_pm_def PG_P_def frame_of_def)
  have p: "present (demo_pm (pde_addr 0x100000 0x1234))"
    by (simp add: present_def pde_addr_def demo_pm_def PG_P_def)
  have a: "pte_addr (demo_pm (pde_addr 0x100000 0x1234)) 0x1234 = 0x101004"
    by (simp add: pde_addr_def pte_addr_def demo_pm_def frame_of_def)
  have "pde_addr 0x100000 w \<noteq> 0x101004" for w
  proof
    assume e: "pde_addr 0x100000 w = 0x101004"
    have "\<not> bit (push_bit 2 (drop_bit 22 w)) 12"
      by (auto simp: bit_simps dest: bit_imp_le_length)
    moreover have "push_bit 2 (drop_bit 22 w) = (0x1004 :: u32)"
      using e by (simp add: pde_addr_def algebra_simps)
    ultimately show False by simp
  qed
  with pte_remove_unmaps [OF r p] a show ?thesis by auto
qed

end
