(* ===== verification/Thread.thy ===== *)
theory Thread
  imports Bitmap IList Paging
begin

text \<open>
  \<open>thread/thread.c\<close>, its scheduling half, with the address-space switch of
  \<open>userprog/process.c\<close>.  A thread is named by the address of its PCB; \<open>running\<close> is what
  \<open>running_thread()\<close> computes from the stack pointer.  \<open>schedule\<close> returns in the thread it
  switches to: an operation that calls it is split at the switch, the part after it
  (\<open>thread_block_resume\<close>, \<open>thread_yield_resume\<close>) runs when the thread is resumed.  The saved
  stack pointer of a suspended thread is not part of the state.
\<close>

section \<open>The kernel state\<close>

datatype lock_id =
    Pid_lock
  | Kernel_pool_lock
  | User_pool_lock
  | Console_lock
  | Channel_lock nat
  | Ioq_lock

datatype sema_id = Lock_sema lock_id | Disk_done nat

datatype desc_array = K_block_descs | U_block_descs u32

text \<open>
  The list nodes embedded in kernel objects, and the kernel's lists.  A free memory block is
  named by the page directory of the address space it lives in (0 for the kernel's) and its
  address.
\<close>

datatype ktag =
    General_tag u32
  | All_list_tag u32
  | Free_elem u32 u32
  | Inode_tag u32
  | Part_tag nat nat

datatype klid =
    Thread_ready_list
  | Thread_all_list
  | Waiters sema_id
  | Free_list desc_array nat
  | Open_inodes nat
  | Partition_list

datatype task_status =
    TASK_RUNNING
  | TASK_READY
  | TASK_BLOCKED
  | TASK_WAITING
  | TASK_HANGING
  | TASK_DIED

record virtual_addr =
  vaddr_bitmap :: bitmap
  vaddr_start :: u32

record mem_block_desc =
  block_size :: u32
  blocks_pre_arena :: u32

record task_struct =
  self_kstart :: u32
  pid :: u16
  status :: task_status
  priority :: u8
  tname :: buf
  ticks :: u8
  elapsed_ticks :: u32
  fd_table :: "u32 list"
  pgdir :: u32
  userprog_vadder :: virtual_addr
  u_block_descs :: "mem_block_desc list"
  cwd_inode_nr :: u32
  stack_magic :: u32

record lock =
  holder :: u32
  holder_repeat_nr :: u32

record kstate = "(ktag, klid) node lheap" +
  tasks :: "u32 \<Rightarrow> task_struct option"
  running :: u32
  main_thread :: u32
  idle_thread :: u32
  next_pid :: u16
  sema_value :: "sema_id \<Rightarrow> u8"
  locks :: "lock_id \<Rightarrow> lock"
  cr3 :: u32
  ktss :: tss
  pmem :: "u32 \<Rightarrow> u32"

text \<open>Access through a PCB pointer.\<close>

definition get_task :: "u32 \<Rightarrow> 'z kstate_scheme \<Rightarrow> task_struct res" where
  "get_task t s = (case tasks s t of None \<Rightarrow> Inl NullPointer | Some p \<Rightarrow> Inr p)"

definition set_task :: "u32 \<Rightarrow> task_struct \<Rightarrow> 'z kstate_scheme \<Rightarrow> 'z kstate_scheme" where
  "set_task t p s = s\<lparr>tasks := (tasks s)(t := Some p)\<rparr>"

section \<open>Address spaces\<close>

definition page_dir_activate :: "u32 \<Rightarrow> 'z kstate_scheme \<Rightarrow> 'z kstate_scheme res" where
  "page_dir_activate p_thread s =
     bindE (get_task p_thread s) (\<lambda>p.
       if pgdir p \<noteq> 0 then
         bindE (addr_v2p (cr3 s) (pmem s) (pgdir p)) (\<lambda>pagedir_phy_addr.
           Inr (s\<lparr>cr3 := pagedir_phy_addr\<rparr>))
       else Inr (s\<lparr>cr3 := 0x100000\<rparr>))"

definition process_activate :: "u32 \<Rightarrow> 'z kstate_scheme \<Rightarrow> 'z kstate_scheme res" where
  "process_activate pthread s =
     bindE (assertE (pthread \<noteq> 0)) (\<lambda>_.
     bindE (page_dir_activate pthread s) (\<lambda>s1.
     bindE (get_task pthread s1) (\<lambda>p.
       if pgdir p \<noteq> 0 then Inr (s1\<lparr>ktss := update_tss_esp (ktss s1) pthread\<rparr>) else Inr s1)))"

section \<open>Scheduling\<close>

definition sleeping :: "task_status \<Rightarrow> bool" where
  "sleeping st \<longleftrightarrow> st = TASK_BLOCKED \<or> st = TASK_WAITING \<or> st = TASK_HANGING"

definition thread_unblock :: "u32 \<Rightarrow> 'z kstate_scheme \<Rightarrow> 'z kstate_scheme res" where
  "thread_unblock pthread s0 =
     (let (old_intr_status, s) = intr_disable s0 in
      bindE (get_task pthread s) (\<lambda>p.
      bindE (assertE (sleeping (status p))) (\<lambda>_.
      bindE (q_find Thread_ready_list (General_tag pthread) s) (\<lambda>found.
      bindE (assertE (\<not> found)) (\<lambda>_.
      bindE (q_push Thread_ready_list (General_tag pthread)
               (set_task pthread (p\<lparr>status := TASK_READY\<rparr>) s)) (\<lambda>s1.
        Inr (snd (intr_set_status old_intr_status s1))))))))"

text \<open>\<open>elem2entry(struct task_struct, general_tag, tag)\<close>: only a \<open>general_tag\<close> leads to a PCB.\<close>

definition tag2task :: "ktag \<Rightarrow> u32 res" where
  "tag2task tag = (case tag of General_tag t \<Rightarrow> Inr t | _ \<Rightarrow> Inl OutOfBounds)"

text \<open>\<open>switch_to\<close> leaves the processor in \<open>next\<close>.\<close>

definition switch_to :: "u32 \<Rightarrow> u32 \<Rightarrow> 'z kstate_scheme \<Rightarrow> 'z kstate_scheme" where
  "switch_to cur next s = s\<lparr>running := next\<rparr>"

definition schedule :: "'z kstate_scheme \<Rightarrow> 'z kstate_scheme res" where
  "schedule s0 =
     (let s = snd (intr_disable s0); cur = running s in
      bindE (get_task cur s) (\<lambda>p.
      bindE (if status p = TASK_RUNNING then
               bindE (q_find Thread_ready_list (General_tag cur) s) (\<lambda>found.
               bindE (assertE (\<not> found)) (\<lambda>_.
                 q_append Thread_ready_list (General_tag cur)
                   (set_task cur (p\<lparr>ticks := priority p, status := TASK_READY\<rparr>) s)))
             else Inr s) (\<lambda>s1.
      bindE (if q_empty Thread_ready_list s1 then thread_unblock (idle_thread s1) s1 else Inr s1)
        (\<lambda>s2.
      bindE (q_pop Thread_ready_list s2) (\<lambda>(thread_tag, s3).
      bindE (tag2task thread_tag) (\<lambda>next.
      bindE (get_task next s3) (\<lambda>q.
      bindE (process_activate next (set_task next (q\<lparr>status := TASK_RUNNING\<rparr>) s3)) (\<lambda>s4.
        Inr (switch_to cur next s4)))))))))"

definition thread_yield :: "'z kstate_scheme \<Rightarrow> (intr_status \<times> 'z kstate_scheme) res" where
  "thread_yield s0 =
     (let cur_thread = running s0; (old_intr_status, s) = intr_disable s0 in
      bindE (get_task cur_thread s) (\<lambda>p.
      let s1 = set_task cur_thread (p\<lparr>status := TASK_READY\<rparr>) s in
      bindE (q_find Thread_ready_list (General_tag cur_thread) s1) (\<lambda>found.
      bindE (assertE (\<not> found)) (\<lambda>_.
      bindE (q_append Thread_ready_list (General_tag cur_thread) s1) (\<lambda>s2.
      bindE (schedule s2) (\<lambda>s3. Inr (old_intr_status, s3)))))))"

definition thread_yield_resume :: "intr_status \<Rightarrow> 'z kstate_scheme \<Rightarrow> 'z kstate_scheme" where
  "thread_yield_resume old_intr_status s = snd (intr_set_status old_intr_status s)"

definition thread_block :: "task_status \<Rightarrow> 'z kstate_scheme \<Rightarrow> (intr_status \<times> 'z kstate_scheme) res" where
  "thread_block st s0 =
     bindE (assertE (sleeping st)) (\<lambda>_.
     let (old_intr_status, s) = intr_disable s0; cur = running s in
     bindE (get_task cur s) (\<lambda>p.
     bindE (schedule (set_task cur (p\<lparr>status := st\<rparr>) s)) (\<lambda>s1.
       Inr (old_intr_status, s1))))"

definition thread_block_resume :: "intr_status \<Rightarrow> 'z kstate_scheme \<Rightarrow> 'z kstate_scheme" where
  "thread_block_resume old_intr_status s = snd (intr_set_status old_intr_status s)"

text \<open>
  One round of \<open>idle()\<close>: block; when resumed, \<open>sti; hlt\<close> (interrupts on, wait for one).
\<close>

definition idle_block :: "'z kstate_scheme \<Rightarrow> (intr_status \<times> 'z kstate_scheme) res" where
  "idle_block s = thread_block TASK_BLOCKED s"

definition idle_resume :: "intr_status \<Rightarrow> 'z kstate_scheme \<Rightarrow> 'z kstate_scheme" where
  "idle_resume old s = snd (intr_enable (thread_block_resume old s))"

section \<open>What the primitive steps leave unchanged\<close>

lemma only_lists_kstate [frame_simps]:
  assumes "only_lists s (s' :: 'z kstate_scheme)"
  shows "tasks s' = tasks s" and "running s' = running s" and "main_thread s' = main_thread s"
    and "idle_thread s' = idle_thread s" and "next_pid s' = next_pid s"
    and "sema_value s' = sema_value s" and "locks s' = locks s" and "cr3 s' = cr3 s"
    and "ktss s' = ktss s" and "pmem s' = pmem s" and "kstate.more s' = kstate.more s"
  using only_lists_more [OF assms] by (cases s; cases s'; simp)+

text \<open>\<open>kframe\<close>: what no scheduling operation touches.\<close>

definition kframe :: "'z kstate_scheme \<Rightarrow> 'z kstate_scheme \<Rightarrow> bool" where
  "kframe s s' \<longleftrightarrow>
     main_thread s' = main_thread s \<and> idle_thread s' = idle_thread s \<and> next_pid s' = next_pid s \<and>
     sema_value s' = sema_value s \<and> locks s' = locks s \<and> pmem s' = pmem s \<and>
     kstate.more s' = kstate.more s"

lemma kframe_refl [simp]: "kframe s s"
  by (simp add: kframe_def)

lemma kframe_trans: "kframe s s' \<Longrightarrow> kframe s' s'' \<Longrightarrow> kframe s s''"
  by (simp add: kframe_def)

lemma kframe_only_lists: "only_lists s s' \<Longrightarrow> kframe s s'"
  by (simp add: kframe_def frame_simps)

lemma disable_kstate [simp]:
  "tasks (snd (intr_disable (s :: 'z kstate_scheme))) = tasks s"
  "running (snd (intr_disable s)) = running s"
  "idle_thread (snd (intr_disable s)) = idle_thread s"
  "cr3 (snd (intr_disable s)) = cr3 s"
  "pmem (snd (intr_disable s)) = pmem s"
  "ktss (snd (intr_disable s)) = ktss s"
  "locks (snd (intr_disable s)) = locks s"
  "sema_value (snd (intr_disable s)) = sema_value s"
  "main_thread (snd (intr_disable s)) = main_thread s"
  "next_pid (snd (intr_disable s)) = next_pid s"
  "kstate.more (snd (intr_disable s)) = kstate.more s"
  "kframe s (snd (intr_disable s))"
  by (simp_all add: intr_disable_def kframe_def)

lemma enable_kstate [simp]:
  "tasks (snd (intr_enable (s :: 'z kstate_scheme))) = tasks s"
  "running (snd (intr_enable s)) = running s"
  "idle_thread (snd (intr_enable s)) = idle_thread s"
  "cr3 (snd (intr_enable s)) = cr3 s"
  "pmem (snd (intr_enable s)) = pmem s"
  "ktss (snd (intr_enable s)) = ktss s"
  "locks (snd (intr_enable s)) = locks s"
  "sema_value (snd (intr_enable s)) = sema_value s"
  "main_thread (snd (intr_enable s)) = main_thread s"
  "next_pid (snd (intr_enable s)) = next_pid s"
  "kstate.more (snd (intr_enable s)) = kstate.more s"
  "kframe s (snd (intr_enable s))"
  "nprev (snd (intr_enable s)) = nprev s"
  "nnext (snd (intr_enable s)) = nnext s"
  by (simp_all add: intr_enable_def kframe_def)

lemma set_status_kstate [simp]:
  "tasks (snd (intr_set_status st (s :: 'z kstate_scheme))) = tasks s"
  "running (snd (intr_set_status st s)) = running s"
  "idle_thread (snd (intr_set_status st s)) = idle_thread s"
  "cr3 (snd (intr_set_status st s)) = cr3 s"
  "pmem (snd (intr_set_status st s)) = pmem s"
  "ktss (snd (intr_set_status st s)) = ktss s"
  "locks (snd (intr_set_status st s)) = locks s"
  "sema_value (snd (intr_set_status st s)) = sema_value s"
  "main_thread (snd (intr_set_status st s)) = main_thread s"
  "next_pid (snd (intr_set_status st s)) = next_pid s"
  "kstate.more (snd (intr_set_status st s)) = kstate.more s"
  "kframe s (snd (intr_set_status st s))"
  by (simp_all add: intr_set_status_def)

lemma queue_pointers:
  "nprev h' = nprev h \<Longrightarrow> nnext h' = nnext h \<Longrightarrow> queue h' l xs = queue h l xs"
  by (simp add: queue_def dll_def)

lemma queue_disable [simp]: "queue (snd (intr_disable s)) l xs = queue (s :: 'z kstate_scheme) l xs"
  by (rule queue_pointers) simp_all

lemma queue_set_status [simp]:
  "queue (snd (intr_set_status st s)) l xs = queue (s :: 'z kstate_scheme) l xs"
  by (rule queue_pointers) (simp_all add: intr_set_status_def)

lemma set_task_simps [simp]:
  "tasks (set_task t p s) = (tasks s)(t := Some p)"
  "running (set_task t p s) = running s"
  "idle_thread (set_task t p s) = idle_thread s"
  "cr3 (set_task t p s) = cr3 s"
  "pmem (set_task t p s) = pmem s"
  "ktss (set_task t p s) = ktss s"
  "eflags (set_task t p s) = eflags s"
  "locks (set_task t p s) = locks s"
  "sema_value (set_task t p s) = sema_value s"
  "main_thread (set_task t p s) = main_thread s"
  "next_pid (set_task t p s) = next_pid s"
  "kstate.more (set_task t p s) = kstate.more s"
  "kframe s (set_task t p s)"
  "queue (set_task t p s) l xs = queue s l xs"
  by (simp_all add: set_task_def kframe_def queue_def dll_def)

lemma get_task_Some [simp]: "tasks s t = Some p \<Longrightarrow> get_task t s = Inr p"
  by (simp add: get_task_def)

end
