(* ===== verification/Scheduler.thy ===== *)
theory Scheduler
  imports Thread
begin

text \<open>
  The contract of the scheduler of \<open>thread/thread.c\<close>: an abstract round-robin scheduler over a
  list of ready threads and a status per thread, the relation of the kernel state to it, and the
  refinement of \<open>schedule\<close>, \<open>thread_yield\<close>, \<open>thread_block\<close> and \<open>thread_unblock\<close> to its
  operations, which at the same time shows that none of their assertions fails.
\<close>

section \<open>The abstract scheduler\<close>

record asched =
  a_ready :: "u32 list"
  a_status :: "u32 \<Rightarrow> task_status option"
  a_running :: u32

definition a_requeue :: "asched \<Rightarrow> asched" where
  "a_requeue a =
     (if a_status a (a_running a) = Some TASK_RUNNING
      then a\<lparr>a_ready := a_ready a @ [a_running a],
             a_status := (a_status a)(a_running a \<mapsto> TASK_READY)\<rparr>
      else a)"

definition a_wake :: "u32 \<Rightarrow> asched \<Rightarrow> asched" where
  "a_wake t a = a\<lparr>a_ready := t # a_ready a, a_status := (a_status a)(t \<mapsto> TASK_READY)\<rparr>"

definition a_dispatch :: "asched \<Rightarrow> asched" where
  "a_dispatch a =
     a\<lparr>a_ready := tl (a_ready a), a_status := (a_status a)(hd (a_ready a) \<mapsto> TASK_RUNNING),
       a_running := hd (a_ready a)\<rparr>"

definition a_idle :: "u32 \<Rightarrow> asched \<Rightarrow> asched" where
  "a_idle idle a = (if a_ready a = [] then a_wake idle a else a)"

definition a_schedule :: "u32 \<Rightarrow> asched \<Rightarrow> asched" where
  "a_schedule idle a = a_dispatch (a_idle idle (a_requeue a))"

definition a_set :: "u32 \<Rightarrow> task_status \<Rightarrow> asched \<Rightarrow> asched" where
  "a_set t st a = a\<lparr>a_status := (a_status a)(t \<mapsto> st)\<rparr>"

definition a_block :: "u32 \<Rightarrow> task_status \<Rightarrow> asched \<Rightarrow> asched" where
  "a_block idle st a = a_schedule idle (a_set (a_running a) st a)"

definition a_yield :: "u32 \<Rightarrow> asched \<Rightarrow> asched" where
  "a_yield idle a = a_schedule idle a"

text \<open>
  What holds at the entry of \<open>schedule\<close>, and with a running thread, between any two operations:
  the ready list is exactly the set of ready threads, without repetition.
\<close>

definition a_pre :: "u32 \<Rightarrow> asched \<Rightarrow> bool" where
  "a_pre idle a \<longleftrightarrow>
     distinct (a_ready a) \<and> (\<forall>t. t \<in> set (a_ready a) \<longleftrightarrow> a_status a t = Some TASK_READY) \<and>
     (\<forall>t. t \<noteq> a_running a \<longrightarrow> a_status a t \<noteq> Some TASK_RUNNING) \<and>
     a_status a (a_running a) \<noteq> None \<and> a_status a 0 = None \<and>
     a_status a idle \<notin> {None, Some TASK_DIED}"

definition a_inv :: "u32 \<Rightarrow> asched \<Rightarrow> bool" where
  "a_inv idle a \<longleftrightarrow> a_pre idle a \<and> a_status a (a_running a) = Some TASK_RUNNING"

lemma a_pre_ready_status: "a_pre idle a \<Longrightarrow> t \<in> set (a_ready a) \<Longrightarrow> a_status a t = Some TASK_READY"
  by (simp add: a_pre_def)

lemma a_requeue_pre: "a_pre idle a \<Longrightarrow> a_pre idle (a_requeue a)"
  by (auto simp: a_pre_def a_requeue_def)

lemma a_requeue_not_running: "a_pre idle a \<Longrightarrow> a_status (a_requeue a) t \<noteq> Some TASK_RUNNING"
  by (auto simp: a_pre_def a_requeue_def)

lemma idle_sleeps:
  assumes "a_pre idle a" and "\<And>t. a_status a t \<noteq> Some TASK_RUNNING" and "a_ready a = []"
  shows "\<exists>st. a_status a idle = Some st \<and> sleeping st"
proof -
  obtain st where st: "a_status a idle = Some st" "st \<noteq> TASK_DIED"
    using assms(1) by (auto simp: a_pre_def)
  moreover have "st \<noteq> TASK_READY" using assms(1,3) st by (fastforce simp: a_pre_def)
  moreover have "st \<noteq> TASK_RUNNING" using assms(2) st by auto
  ultimately show ?thesis by (cases st) (auto simp: sleeping_def)
qed

lemma a_wake_pre:
  "a_pre idle a \<Longrightarrow> a_status a t = Some st \<Longrightarrow> sleeping st \<Longrightarrow> a_pre idle (a_wake t a)"
  by (auto simp: a_pre_def a_wake_def sleeping_def)

lemma a_dispatch_inv:
  assumes "a_pre idle a" and "\<And>t. a_status a t \<noteq> Some TASK_RUNNING" and "a_ready a \<noteq> []"
  shows "a_inv idle (a_dispatch a)"
proof (cases "a_ready a")
  case (Cons x xs)
  with assms(1) have "x \<notin> set xs" "a_status a x = Some TASK_READY" by (auto simp: a_pre_def)
  with assms(1,2) Cons show ?thesis by (auto simp: a_pre_def a_inv_def a_dispatch_def)
qed (use assms in simp)

lemma a_schedule_inv:
  assumes "a_pre idle a"
  shows "a_inv idle (a_schedule idle a)"
proof -
  let ?a = "a_requeue a"
  have p: "a_pre idle ?a" and nr: "\<And>t. a_status ?a t \<noteq> Some TASK_RUNNING"
    using assms a_requeue_pre a_requeue_not_running by auto
  show ?thesis
  proof (cases "a_ready ?a = []")
    case True
    from idle_sleeps [OF p nr True] obtain st where
      st: "a_status ?a idle = Some st" "sleeping st" by blast
    have "a_inv idle (a_dispatch (a_wake idle ?a))"
      by (rule a_dispatch_inv [OF a_wake_pre [OF p st]]) (use nr in \<open>auto simp: a_wake_def\<close>)
    with True show ?thesis by (simp add: a_schedule_def a_idle_def)
  next
    case False
    with a_dispatch_inv [OF p nr False] show ?thesis by (simp add: a_schedule_def a_idle_def)
  qed
qed

lemma a_block_inv:
  assumes "a_inv idle a" and "sleeping st"
  shows "a_pre idle (a_set (a_running a) st a)" and "a_inv idle (a_block idle st a)"
proof -
  show p: "a_pre idle (a_set (a_running a) st a)"
    using assms by (auto simp: a_inv_def a_pre_def a_set_def sleeping_def)
  then show "a_inv idle (a_block idle st a)" by (simp add: a_block_def a_schedule_inv)
qed

lemma a_wake_inv:
  "a_inv idle a \<Longrightarrow> a_status a t = Some st \<Longrightarrow> sleeping st \<Longrightarrow> a_inv idle (a_wake t a)"
  using a_wake_pre [of idle a t st] by (auto simp: a_inv_def a_wake_def sleeping_def)

section \<open>Round robin\<close>

text \<open>A thread preempted by the timer is queued behind the others; each gets its turn.\<close>

fun a_rounds :: "u32 \<Rightarrow> nat \<Rightarrow> asched \<Rightarrow> asched" where
  "a_rounds idle 0 a = a"
| "a_rounds idle (Suc n) a = a_rounds idle n (a_schedule idle a)"

lemma a_preempt:
  assumes "a_inv idle a"
  shows "a_running (a_schedule idle a) = hd (a_ready a @ [a_running a])" and
    "a_ready (a_schedule idle a) = tl (a_ready a @ [a_running a])"
  using assms by (auto simp: a_inv_def a_schedule_def a_requeue_def a_idle_def a_dispatch_def)

lemma a_rounds_turn:
  "a_inv idle a \<Longrightarrow> i < length (a_ready a) \<Longrightarrow>
   a_running (a_rounds idle (Suc i) a) = a_ready a ! i"
proof (induction i arbitrary: a)
  case 0
  then show ?case using a_preempt(1) [OF 0(1)] by (cases "a_ready a") auto
next
  case (Suc i)
  let ?a = "a_schedule idle a"
  have inv: "a_inv idle ?a" using Suc.prems(1) by (intro a_schedule_inv) (simp add: a_inv_def)
  have rd: "a_ready ?a = tl (a_ready a) @ [a_running a]"
    using a_preempt(2) [OF Suc.prems(1)] Suc.prems(2) by (cases "a_ready a") auto
  then have "i < length (a_ready ?a)" using Suc.prems(2) by simp
  from Suc.IH [OF inv this] rd Suc.prems(2) show ?case
    by (cases "i < length (tl (a_ready a))") (simp_all add: nth_append nth_tl)
qed

section \<open>The kernel state as an abstract scheduler\<close>

definition sched_abs :: "'z kstate_scheme \<Rightarrow> asched \<Rightarrow> bool" where
  "sched_abs s a \<longleftrightarrow>
     queue s Thread_ready_list (map General_tag (a_ready a)) \<and>
     a_status a = (\<lambda>t. map_option status (tasks s t)) \<and> a_running a = running s"

text \<open>
  The kernel half of every address space is the same, so a page directory can be found from
  within any of them; \<open>phys\<close> gives the physical address of a page directory.
\<close>

definition space_of :: "(u32 \<Rightarrow> u32) \<Rightarrow> task_struct \<Rightarrow> u32" where
  "space_of phys p = (if pgdir p = 0 then 0x100000 else phys (pgdir p))"

definition spaces_ok :: "(u32 \<Rightarrow> u32) \<Rightarrow> (u32 \<Rightarrow> task_struct option) \<Rightarrow> u32 \<Rightarrow> (u32 \<Rightarrow> u32) \<Rightarrow> bool" where
  "spaces_ok phys ts cr pm \<longleftrightarrow>
     (let spaces = insert 0x100000 (space_of phys ` ran ts) in
      cr \<in> spaces \<and>
      (\<forall>d \<in> spaces. \<forall>p \<in> ran ts. pgdir p \<noteq> 0 \<longrightarrow> addr_v2p d pm (pgdir p) = Inr (phys (pgdir p))))"

lemma spaces_ok_switch:
  assumes "spaces_ok phys ts cr pm" and "ts t = Some p"
  shows "spaces_ok phys ts (space_of phys p) pm"
  using assms unfolding spaces_ok_def Let_def by (auto simp: ran_def)

lemma spaces_ok_v2p:
  assumes "spaces_ok phys ts cr pm" and "ts t = Some p" and "pgdir p \<noteq> 0"
  shows "addr_v2p cr pm (pgdir p) = Inr (phys (pgdir p))"
  using assms unfolding spaces_ok_def Let_def by (auto simp: ran_def)

section \<open>The operations refine the abstract scheduler\<close>

text \<open>No list but the ready list changes, as far as it holds no tag of a thread in \<open>A\<close>.\<close>

definition other_queues :: "u32 set \<Rightarrow> 'z kstate_scheme \<Rightarrow> 'z kstate_scheme \<Rightarrow> bool" where
  "other_queues A s s' \<longleftrightarrow>
     (\<forall>k ys. k \<noteq> Thread_ready_list \<longrightarrow> General_tag ` A \<inter> set ys = {} \<longrightarrow> queue s k ys \<longrightarrow> queue s' k ys)"

lemma other_queues_trans:
  "other_queues A s s' \<Longrightarrow> other_queues B s' s'' \<Longrightarrow> A \<subseteq> C \<Longrightarrow> B \<subseteq> C \<Longrightarrow> other_queues C s s''"
  unfolding other_queues_def by (meson disjoint_iff image_mono subset_iff)

lemma tag_notin [simp]: "General_tag t \<in> General_tag ` A \<longleftrightarrow> t \<in> A"
  by auto

lemma sched_absD:
  assumes "sched_abs s a"
  shows "queue s Thread_ready_list (map General_tag (a_ready a))"
    and "a_status a t = map_option status (tasks s t)" and "a_running a = running s"
  using assms by (simp_all add: sched_abs_def)

lemma thread_unblock_ok:
  assumes abs: "sched_abs s a" and pre: "a_pre idle a"
    and t: "tasks s t = Some p" and sl: "sleeping (status p)"
  shows "\<exists>s'. thread_unblock t s = Inr s' \<and> sched_abs s' (a_wake t a) \<and> kframe s s' \<and>
           tasks s' = (tasks s)(t \<mapsto> p\<lparr>status := TASK_READY\<rparr>) \<and> running s' = running s \<and>
           cr3 s' = cr3 s \<and> ktss s' = ktss s \<and> eflags s' = eflags s \<and>
           other_queues (insert t (set (a_ready a))) s s'"
proof -
  let ?d = "snd (intr_disable s)"
  let ?s = "set_task t (p\<lparr>status := TASK_READY\<rparr>) ?d"
  have "a_status a t = Some (status p)" using sched_absD(2) [OF abs, of t] t by simp
  then have nin: "t \<notin> set (a_ready a)"
    using pre sl by (auto simp: a_pre_def sleeping_def)
  have q: "queue ?s Thread_ready_list (map General_tag (a_ready a))"
    using sched_absD(1) [OF abs] by simp
  have nin': "General_tag t \<notin> set (map General_tag (a_ready a))" using nin by auto
  from q_push_ok [OF q nin'] obtain s1 where
    s1: "q_push Thread_ready_list (General_tag t) ?s = Inr s1"
    "queue s1 Thread_ready_list (General_tag t # map General_tag (a_ready a))" "only_lists ?s s1"
    and fr: "\<forall>k ys. k \<noteq> Thread_ready_list \<longrightarrow> General_tag t \<notin> set ys \<longrightarrow>
        set (map General_tag (a_ready a)) \<inter> set ys = {} \<longrightarrow> queue ?s k ys \<longrightarrow> queue s1 k ys"
    by blast
  note o = only_lists_kstate [OF s1(3)] only_lists_eflags [OF s1(3)]
  have fl: "eflags s1 = eflags ?d" using o by simp
  have find: "q_find Thread_ready_list (General_tag t) ?d = Inr False"
    using q_find_ok [of ?d Thread_ready_list "map General_tag (a_ready a)" "General_tag t"]
      sched_absD(1) [OF abs] nin' by simp
  have eq: "thread_unblock t s = Inr (s1\<lparr>eflags := eflags s\<rparr>)"
    using s1(1) find t sl restore_flags [OF fl] fl
    by (simp add: thread_unblock_def split_beta Let_def)
  have "sched_abs (s1\<lparr>eflags := eflags s\<rparr>) (a_wake t a)"
    using s1(2) o abs by (auto simp: sched_abs_def a_wake_def queue_def dll_def)
  moreover have "kframe s (s1\<lparr>eflags := eflags s\<rparr>)"
    using kframe_only_lists [OF s1(3)] kframe_trans [of s ?d ?s] kframe_trans [of s ?s s1]
    by (simp add: kframe_def)
  moreover have "other_queues (insert t (set (a_ready a))) s (s1\<lparr>eflags := eflags s\<rparr>)"
    unfolding other_queues_def
  proof (intro allI impI)
    fix k ys
    assume a: "k \<noteq> Thread_ready_list" "General_tag ` insert t (set (a_ready a)) \<inter> set ys = {}" "queue s k ys"
    then have "queue ?s k ys" by simp
    with fr a have "queue s1 k ys" by auto
    then show "queue (s1\<lparr>eflags := eflags s\<rparr>) k ys" by (simp add: queue_def dll_def)
  qed
  ultimately show ?thesis using eq o by simp
qed

text \<open>The PCBs after an operation: statuses as in the abstract state, the rest as before.\<close>

definition retask :: "asched \<Rightarrow> (u32 \<Rightarrow> task_struct option) \<Rightarrow> u32 \<Rightarrow> task_struct option" where
  "retask a ts t = map_option (\<lambda>p. p\<lparr>status := the (a_status a t)\<rparr>) (ts t)"

definition refill :: "'z kstate_scheme \<Rightarrow> u32 \<Rightarrow> task_struct option" where
  "refill s = (case tasks s (running s) of
     Some p \<Rightarrow> if status p = TASK_RUNNING then (tasks s)(running s \<mapsto> p\<lparr>ticks := priority p\<rparr>) else tasks s
   | None \<Rightarrow> tasks s)"

lemma retask_same: "sched_abs s a \<Longrightarrow> retask a (tasks s) = tasks s"
proof
  fix t assume "sched_abs s a"
  then show "retask a (tasks s) t = tasks s t"
    by (cases "tasks s t") (auto simp: retask_def sched_abs_def)
qed

lemma retask_upd:
  assumes "retask a ts t = Some p" and "a_status a' = (a_status a)(t \<mapsto> st)"
  shows "(retask a ts)(t \<mapsto> p\<lparr>status := st\<rparr>) = retask a' ts"
proof
  fix x
  show "((retask a ts)(t \<mapsto> p\<lparr>status := st\<rparr>)) x = retask a' ts x"
    using assms by (auto simp: retask_def)
qed

lemma process_activate_ok:
  assumes "tasks s t = Some p" and "t \<noteq> 0" and "spaces_ok phys (tasks s) (cr3 s) (pmem s)"
  shows "process_activate t s = Inr (s\<lparr>cr3 := space_of phys p,
           ktss := if pgdir p = 0 then ktss s else update_tss_esp (ktss s) t\<rparr>)"
proof (cases "pgdir p = 0")
  case True
  with assms(1,2) show ?thesis
    by (simp add: process_activate_def page_dir_activate_def space_of_def get_task_def)
next
  case False
  with spaces_ok_v2p [OF assms(3,1)] assms(1,2) show ?thesis
    by (simp add: process_activate_def page_dir_activate_def space_of_def get_task_def)
qed

lemma spaces_ok_retask:
  assumes "\<forall>t. rel_option (\<lambda>p p'. pgdir p' = pgdir p) (ts t) (ts' t)" and "spaces_ok phys ts cr pm"
  shows "spaces_ok phys ts' cr pm"
proof -
  have f: "\<exists>q' \<in> ran ts'. pgdir q' = pgdir q" if "q \<in> ran ts" for q
  proof -
    from that obtain t where t: "ts t = Some q" by (auto simp: ran_def)
    with assms(1) have "rel_option (\<lambda>p p'. pgdir p' = pgdir p) (Some q) (ts' t)" by metis
    then show ?thesis by (cases "ts' t") (auto intro: ranI)
  qed
  have b: "\<exists>q' \<in> ran ts. pgdir q' = pgdir q" if "q \<in> ran ts'" for q
  proof -
    from that obtain t where t: "ts' t = Some q" by (auto simp: ran_def)
    with assms(1) have "rel_option (\<lambda>p p'. pgdir p' = pgdir p) (ts t) (Some q)" by metis
    then show ?thesis by (cases "ts t") (auto intro: ranI)
  qed
  have sub: "space_of phys ` A \<subseteq> space_of phys ` B" if "\<forall>q \<in> A. \<exists>q' \<in> B. pgdir q' = pgdir q" for A B
  proof
    fix y assume "y \<in> space_of phys ` A"
    then obtain q where q: "q \<in> A" "y = space_of phys q" by auto
    with that obtain q' where "q' \<in> B" "pgdir q' = pgdir q" by blast
    with q show "y \<in> space_of phys ` B" by (auto simp: space_of_def image_iff intro!: bexI [of _ q'])
  qed
  have "space_of phys ` ran ts' = space_of phys ` ran ts" using sub f b by blast
  with assms(2) b show ?thesis unfolding spaces_ok_def Let_def by metis
qed

text \<open>The three stages of \<open>schedule\<close>.\<close>

definition requeue_running :: "'z kstate_scheme \<Rightarrow> 'z kstate_scheme res" where
  "requeue_running s =
     (let cur = running s in
      bindE (get_task cur s) (\<lambda>p.
      if status p = TASK_RUNNING then
        bindE (q_find Thread_ready_list (General_tag cur) s) (\<lambda>found.
        bindE (assertE (\<not> found)) (\<lambda>_.
          q_append Thread_ready_list (General_tag cur)
            (set_task cur (p\<lparr>ticks := priority p, status := TASK_READY\<rparr>) s)))
      else Inr s))"

definition wake_idle :: "'z kstate_scheme \<Rightarrow> 'z kstate_scheme res" where
  "wake_idle s =
     (if q_empty Thread_ready_list s then thread_unblock (idle_thread s) s else Inr s)"

definition dispatch :: "u32 \<Rightarrow> 'z kstate_scheme \<Rightarrow> 'z kstate_scheme res" where
  "dispatch cur s2 =
     bindE (q_pop Thread_ready_list s2) (\<lambda>(thread_tag, s3).
     bindE (tag2task thread_tag) (\<lambda>next.
     bindE (get_task next s3) (\<lambda>q.
     bindE (process_activate next (set_task next (q\<lparr>status := TASK_RUNNING\<rparr>) s3)) (\<lambda>s4.
       Inr (switch_to cur next s4)))))"

lemma schedule_stages:
  "schedule s0 =
     (let s = snd (intr_disable s0) in
      bindE (requeue_running s) (\<lambda>s1. bindE (wake_idle s1) (dispatch (running s))))"
  by (cases "get_task (running (snd (intr_disable s0))) (snd (intr_disable s0))")
    (simp_all add: schedule_def requeue_running_def wake_idle_def dispatch_def [abs_def] Let_def)

lemma requeue_running_ok:
  assumes abs: "sched_abs s a" and pre: "a_pre idle a"
  shows "\<exists>s'. requeue_running s = Inr s' \<and> sched_abs s' (a_requeue a) \<and> kframe s s' \<and>
           tasks s' = retask (a_requeue a) (refill s) \<and> running s' = running s \<and>
           cr3 s' = cr3 s \<and> ktss s' = ktss s \<and> eflags s' = eflags s \<and>
           other_queues (set (a_ready (a_requeue a))) s s'"
proof -
  let ?r = "running s"
  have run: "a_running a = ?r" using sched_absD(3) [OF abs] .
  obtain p where p: "tasks s ?r = Some p"
    using pre sched_absD(2) [OF abs, of ?r] run by (auto simp: a_pre_def)
  have st: "a_status a ?r = Some (status p)" using sched_absD(2) [OF abs, of ?r] p by simp
  show ?thesis
  proof (cases "status p = TASK_RUNNING")
    case False
    then have "a_requeue a = a" using st run by (simp add: a_requeue_def)
    moreover have "refill s = tasks s" using False p by (simp add: refill_def)
    ultimately show ?thesis
      using False p abs retask_same [OF abs]
      by (simp add: requeue_running_def other_queues_def Let_def)
  next
    case True
    let ?p = "p\<lparr>ticks := priority p, status := TASK_READY\<rparr>"
    let ?s = "set_task ?r ?p s"
    have ra: "a_requeue a = a\<lparr>a_ready := a_ready a @ [?r], a_status := (a_status a)(?r \<mapsto> TASK_READY)\<rparr>"
      using True st run by (simp add: a_requeue_def)
    have "?r \<notin> set (a_ready a)" using pre st True by (auto simp: a_pre_def)
    then have nin: "General_tag ?r \<notin> set (map General_tag (a_ready a))" by auto
    have q: "queue ?s Thread_ready_list (map General_tag (a_ready a))"
      using sched_absD(1) [OF abs] by simp
    from q_append_ok [OF q nin] obtain s1 where
      s1: "q_append Thread_ready_list (General_tag ?r) ?s = Inr s1"
      "queue s1 Thread_ready_list (map General_tag (a_ready a) @ [General_tag ?r])" "only_lists ?s s1"
      and fr: "\<forall>k ys. k \<noteq> Thread_ready_list \<longrightarrow> General_tag ?r \<notin> set ys \<longrightarrow>
        set (map General_tag (a_ready a)) \<inter> set ys = {} \<longrightarrow> queue ?s k ys \<longrightarrow> queue s1 k ys"
      by blast
    note o = only_lists_kstate [OF s1(3)] only_lists_eflags [OF s1(3)]
    have find: "q_find Thread_ready_list (General_tag ?r) s = Inr False"
      using q_find_ok [OF sched_absD(1) [OF abs], of "General_tag ?r"] nin by simp
    have "requeue_running s = Inr s1"
      using s1(1) find p True by (simp add: requeue_running_def Let_def)
    moreover have "sched_abs s1 (a_requeue a)"
      using s1(2) o abs by (auto simp: sched_abs_def ra)
    moreover have "kframe s s1"
      using kframe_only_lists [OF s1(3)] kframe_trans [of s ?s s1] by simp
    moreover have "tasks s1 = retask (a_requeue a) (refill s)"
    proof
      fix t
      show "tasks s1 t = retask (a_requeue a) (refill s) t"
        using o p True abs
        by (cases "tasks s t") (auto simp: refill_def retask_def ra sched_abs_def)
    qed
    moreover have "other_queues (set (a_ready (a_requeue a))) s s1"
      using fr by (auto simp: other_queues_def ra)
    ultimately show ?thesis using o by simp
  qed
qed

lemma wake_idle_ok:
  assumes abs: "sched_abs s a" and pre: "a_pre (idle_thread s) a"
    and nr: "\<And>t. a_status a t \<noteq> Some TASK_RUNNING" and ts: "tasks s = retask a ts"
  defines "a' \<equiv> a_idle (idle_thread s) a"
  shows "\<exists>s'. wake_idle s = Inr s' \<and> sched_abs s' a' \<and> kframe s s' \<and>
           tasks s' = retask a' ts \<and> running s' = running s \<and>
           cr3 s' = cr3 s \<and> ktss s' = ktss s \<and> eflags s' = eflags s \<and>
           other_queues (set (a_ready a')) s s'"
proof (cases "a_ready a = []")
  case True
  from idle_sleeps [OF pre nr True] obtain st where
    st: "a_status a (idle_thread s) = Some st" "sleeping st" by blast
  with sched_absD(2) [OF abs, of "idle_thread s"] obtain p where
    p: "tasks s (idle_thread s) = Some p" "sleeping (status p)"
    by (cases "tasks s (idle_thread s)") auto
  from thread_unblock_ok [OF abs pre p] obtain s' where
    s': "thread_unblock (idle_thread s) s = Inr s'" "sched_abs s' (a_wake (idle_thread s) a)"
    "kframe s s'" "tasks s' = (tasks s)(idle_thread s \<mapsto> p\<lparr>status := TASK_READY\<rparr>)"
    "running s' = running s" "cr3 s' = cr3 s" "ktss s' = ktss s" "eflags s' = eflags s"
    "other_queues (insert (idle_thread s) (set (a_ready a))) s s'" by blast
  have e: "q_empty Thread_ready_list s"
    using q_empty_ok [OF sched_absD(1) [OF abs]] True by simp
  have "tasks s' = retask (a_wake (idle_thread s) a) ts"
    unfolding s'(4) ts by (rule retask_upd) (use p ts in \<open>auto simp: a_wake_def\<close>)
  with s' e True show ?thesis by (simp add: wake_idle_def a'_def a_idle_def a_wake_def)
next
  case False
  then have "\<not> q_empty Thread_ready_list s"
    using q_empty_ok [OF sched_absD(1) [OF abs]] by simp
  with False abs ts show ?thesis
    by (simp add: wake_idle_def a'_def a_idle_def other_queues_def)
qed

lemma dispatch_ok:
  assumes abs: "sched_abs s a" and pre: "a_pre idle a" and ne: "a_ready a \<noteq> []"
    and ts: "tasks s = retask a ts" and sp: "spaces_ok phys (tasks s) (cr3 s) (pmem s)"
  shows "\<exists>s' q. dispatch cur s = Inr s' \<and> sched_abs s' (a_dispatch a) \<and> kframe s s' \<and>
           tasks s' = retask (a_dispatch a) ts \<and> tasks s' (running s') = Some q \<and>
           cr3 s' = space_of phys q \<and>
           ktss s' = (if pgdir q = 0 then ktss s else update_tss_esp (ktss s) (running s')) \<and>
           eflags s' = eflags s \<and> spaces_ok phys (tasks s') (cr3 s') (pmem s') \<and>
           other_queues (set (a_ready a)) s s'"
proof -
  obtain t xs where r: "a_ready a = t # xs" using ne by (cases "a_ready a") auto
  have tr: "a_status a t = Some TASK_READY" using pre r by (auto simp: a_pre_def)
  with sched_absD(2) [OF abs, of t] obtain q0 where q0: "tasks s t = Some q0"
    by (cases "tasks s t") auto
  have t0: "t \<noteq> 0" using tr pre by (auto simp: a_pre_def)
  have q: "queue s Thread_ready_list (General_tag t # map General_tag xs)"
    using sched_absD(1) [OF abs] r by simp
  from q_pop_ok [OF q] obtain s3 where
    s3: "q_pop Thread_ready_list s = Inr (General_tag t, s3)"
    "queue s3 Thread_ready_list (map General_tag xs)" "only_lists s s3"
    and fr: "\<forall>k ys. k \<noteq> Thread_ready_list \<longrightarrow> set (map General_tag xs) \<inter> set ys = {} \<longrightarrow>
        queue s k ys \<longrightarrow> queue s3 k ys" by blast
  note o = only_lists_kstate [OF s3(3)] only_lists_eflags [OF s3(3)]
  let ?q = "q0\<lparr>status := TASK_RUNNING\<rparr>"
  let ?s = "set_task t ?q s3"
  let ?s' = "?s\<lparr>cr3 := space_of phys ?q,
    ktss := if pgdir ?q = 0 then ktss ?s else update_tss_esp (ktss ?s) t, running := t\<rparr>"
  have sp3: "spaces_ok phys (tasks ?s) (cr3 ?s) (pmem ?s)"
  proof (rule spaces_ok_retask)
    show "spaces_ok phys (tasks s) (cr3 ?s) (pmem ?s)" using sp o by simp
    show "\<forall>x. rel_option (\<lambda>p p'. pgdir p' = pgdir p) (tasks s x) (tasks ?s x)"
      using o q0 by (auto simp: option.rel_refl)
  qed
  have "process_activate t ?s = Inr (?s\<lparr>cr3 := space_of phys ?q,
      ktss := if pgdir ?q = 0 then ktss ?s else update_tss_esp (ktss ?s) t\<rparr>)"
    by (rule process_activate_ok [OF _ t0 sp3]) simp
  moreover have "get_task t s3 = Inr q0" using q0 o by simp
  ultimately have eq: "dispatch cur s = Inr ?s'"
    using s3(1) by (simp add: dispatch_def tag2task_def switch_to_def)
  have ts': "tasks ?s' = retask (a_dispatch a) ts"
  proof -
    have "tasks ?s' = (retask a ts)(t \<mapsto> ?q)" using o ts by simp
    also have "\<dots> = retask (a_dispatch a) ts"
      by (rule retask_upd) (use ts q0 r in \<open>auto simp: a_dispatch_def\<close>)
    finally show ?thesis .
  qed
  have abs': "sched_abs ?s' (a_dispatch a)"
  proof -
    have "queue ?s' Thread_ready_list (map General_tag xs)"
      using s3(2) by (simp add: queue_def dll_def set_task_def)
    moreover have "a_status (a_dispatch a) = (\<lambda>x. map_option status (tasks ?s' x))"
      using sched_absD(2) [OF abs] o r by (auto simp: a_dispatch_def)
    ultimately show ?thesis using r by (simp add: sched_abs_def a_dispatch_def)
  qed
  have fr': "kframe s ?s'" using kframe_only_lists [OF s3(3)] by (simp add: kframe_def)
  have sp': "spaces_ok phys (tasks ?s') (cr3 ?s') (pmem ?s')"
    using spaces_ok_switch [OF sp3, of t ?q] by simp
  have oq: "other_queues (set (a_ready a)) s ?s'"
    unfolding other_queues_def
  proof (intro allI impI)
    fix k ys
    assume a: "k \<noteq> Thread_ready_list" "General_tag ` set (a_ready a) \<inter> set ys = {}" "queue s k ys"
    with fr r have "queue s3 k ys" by auto
    then show "queue ?s' k ys" by (simp add: queue_def dll_def set_task_def)
  qed
  have "retask (a_dispatch a) ts t = Some ?q" using ts' by (simp flip: ts')
  with eq abs' fr' ts' sp' oq o show ?thesis by (intro exI [of _ ?s'] exI [of _ ?q]) simp
qed

lemma schedule_ok:
  assumes abs: "sched_abs s a" and pre: "a_pre (idle_thread s) a"
    and sp: "spaces_ok phys (tasks s) (cr3 s) (pmem s)"
  defines "a' \<equiv> a_schedule (idle_thread s) a"
  shows "\<exists>s' q. schedule s = Inr s' \<and> sched_abs s' a' \<and> kframe s s' \<and>
           tasks s' = retask a' (refill s) \<and> tasks s' (running s') = Some q \<and>
           cr3 s' = space_of phys q \<and>
           ktss s' = (if pgdir q = 0 then ktss s else update_tss_esp (ktss s) (running s')) \<and>
           intr_get_status s' = INTR_OFF \<and> spaces_ok phys (tasks s') (cr3 s') (pmem s') \<and>
           other_queues (set (running s' # a_ready a')) s s'"
proof -
  let ?d = "snd (intr_disable s)"
  let ?i = "idle_thread s"
  have absd: "sched_abs ?d a" using abs by (simp add: sched_abs_def)
  from requeue_running_ok [OF absd pre] obtain s1 where
    s1: "requeue_running ?d = Inr s1" "sched_abs s1 (a_requeue a)" "kframe ?d s1"
    "tasks s1 = retask (a_requeue a) (refill ?d)" "cr3 s1 = cr3 s" "ktss s1 = ktss s"
    "eflags s1 = eflags ?d" "other_queues (set (a_ready (a_requeue a))) ?d s1"
    by auto
  have i1: "idle_thread s1 = ?i" "pmem s1 = pmem s" using s1(3) by (simp_all add: kframe_def)
  have pre1: "a_pre (idle_thread s1) (a_requeue a)" using a_requeue_pre [OF pre] i1 by simp
  note nr = a_requeue_not_running [OF pre]
  let ?a2 = "a_idle ?i (a_requeue a)"
  from wake_idle_ok [OF s1(2) pre1 nr s1(4)] i1 s1 obtain s2 where
    s2: "wake_idle s1 = Inr s2" "sched_abs s2 ?a2" "kframe s1 s2"
    "tasks s2 = retask ?a2 (refill ?d)" "cr3 s2 = cr3 s" "ktss s2 = ktss s"
    "eflags s2 = eflags ?d" "other_queues (set (a_ready ?a2)) s1 s2"
    by auto
  have pm2: "pmem s2 = pmem s" using s2(3) i1 by (simp add: kframe_def)
  have pre2: "a_pre ?i ?a2"
  proof (cases "a_ready (a_requeue a) = []")
    case True
    with idle_sleeps [OF a_requeue_pre [OF pre] nr True] a_wake_pre [OF a_requeue_pre [OF pre]]
    show ?thesis by (auto simp: a_idle_def)
  qed (use a_requeue_pre [OF pre] in \<open>simp add: a_idle_def\<close>)
  have ne: "a_ready ?a2 \<noteq> []" by (auto simp: a_idle_def a_wake_def)
  have rf: "refill ?d = refill s" by (cases "tasks s (running s)") (simp_all add: refill_def)
  have sp2: "spaces_ok phys (tasks s2) (cr3 s2) (pmem s2)"
  proof (rule spaces_ok_retask)
    show "spaces_ok phys (tasks s) (cr3 s2) (pmem s2)" using sp s2(5) pm2 by simp
    show "\<forall>t. rel_option (\<lambda>p p'. pgdir p' = pgdir p) (tasks s t) (tasks s2 t)"
      unfolding s2(4) rf
      by (auto simp: retask_def refill_def option.rel_map option.rel_refl split: option.splits)
  qed
  have a': "a' = a_dispatch ?a2" by (simp add: a'_def a_schedule_def)
  from dispatch_ok [OF s2(2) pre2 ne s2(4) sp2, of "running s"] obtain s3 q where
    s3: "dispatch (running s) s2 = Inr s3" "sched_abs s3 a'" "kframe s2 s3"
    "tasks s3 = retask a' (refill s)" "tasks s3 (running s3) = Some q"
    "cr3 s3 = space_of phys q"
    "ktss s3 = (if pgdir q = 0 then ktss s2 else update_tss_esp (ktss s2) (running s3))"
    "eflags s3 = eflags s2" "spaces_ok phys (tasks s3) (cr3 s3) (pmem s3)"
    "other_queues (set (a_ready ?a2)) s2 s3"
    unfolding a' rf by blast
  have eq: "schedule s = Inr s3" using s1(1) s2(1) s3(1) by (simp add: schedule_stages)
  have kf: "kframe s s3"
    using s1(3) s2(3) s3(3) kframe_trans disable_kstate(12) by (meson kframe_trans)
  have off: "intr_get_status s3 = INTR_OFF"
    using disable_off [of s] s3(8) s2(7) by (simp add: get_status_bit)
  have hd: "running s3 # a_ready a' = a_ready ?a2"
    using ne sched_absD(3) [OF s3(2)] by (cases "a_ready ?a2") (auto simp: a' a_dispatch_def)
  have sub: "set (a_ready (a_requeue a)) \<subseteq> set (a_ready ?a2)" by (auto simp: a_idle_def a_wake_def)
  have "other_queues (set (a_ready ?a2)) s ?d" by (simp add: other_queues_def)
  then have "other_queues (set (a_ready ?a2)) s s3"
    using other_queues_trans s1(8) s2(8) s3(10) sub by (meson order_refl)
  then have oq: "other_queues (set (running s3 # a_ready a')) s s3" unfolding hd .
  show ?thesis
    using eq s3(2,4,5,6,7,9) kf off s2(6) oq by (intro exI [of _ s3] exI [of _ q]) simp
qed

text \<open>A yielding thread queues itself; \<open>schedule\<close> then finds it ready and does not refill its ticks.\<close>

lemma a_requeue_idem: "a_pre idle a \<Longrightarrow> a_schedule idle (a_requeue a) = a_schedule idle a"
  using a_requeue_not_running [of idle a "a_running (a_requeue a)"]
  by (simp add: a_schedule_def a_requeue_def split: if_splits)

definition sched_ok :: "(u32 \<Rightarrow> u32) \<Rightarrow> 'z kstate_scheme \<Rightarrow> asched \<Rightarrow> bool" where
  "sched_ok phys s a \<longleftrightarrow>
     sched_abs s a \<and> a_inv (idle_thread s) a \<and> spaces_ok phys (tasks s) (cr3 s) (pmem s)"

lemma kframe_idle: "kframe s s' \<Longrightarrow> idle_thread s' = idle_thread s"
  by (simp add: kframe_def)

text \<open>The next thread has the processor: its address space, its stack for interrupts.\<close>

definition has_cpu :: "(u32 \<Rightarrow> u32) \<Rightarrow> 'z kstate_scheme \<Rightarrow> bool" where
  "has_cpu phys s \<longleftrightarrow>
     (\<exists>q. tasks s (running s) = Some q \<and> status q = TASK_RUNNING \<and> cr3 s = space_of phys q \<and>
          (pgdir q \<noteq> 0 \<longrightarrow> tss_esp0 (ktss s) = running s + 4096))"

lemma schedule_sched_ok:
  assumes abs: "sched_abs s a" and pre: "a_pre (idle_thread s) a"
    and sp: "spaces_ok phys (tasks s) (cr3 s) (pmem s)"
  defines "a' \<equiv> a_schedule (idle_thread s) a"
  shows "\<exists>s'. schedule s = Inr s' \<and> sched_ok phys s' a' \<and> kframe s s' \<and> has_cpu phys s' \<and>
           tasks s' = retask a' (refill s) \<and> intr_get_status s' = INTR_OFF \<and>
           other_queues (set (running s' # a_ready a')) s s'"
proof -
  from schedule_ok [OF abs pre sp] obtain s' q where
    s': "schedule s = Inr s'" "sched_abs s' a'" "kframe s s'" "tasks s' = retask a' (refill s)"
    "tasks s' (running s') = Some q" "cr3 s' = space_of phys q"
    "ktss s' = (if pgdir q = 0 then ktss s else update_tss_esp (ktss s) (running s'))"
    "intr_get_status s' = INTR_OFF" "spaces_ok phys (tasks s') (cr3 s') (pmem s')"
    "other_queues (set (running s' # a_ready a')) s s'" unfolding a'_def by blast
  have inv: "a_inv (idle_thread s') a'"
    using a_schedule_inv [OF pre] kframe_idle [OF s'(3)] by (simp add: a'_def)
  have "a_status a' (running s') = Some (status q)" using sched_absD(2) [OF s'(2)] s'(5) by simp
  then have "status q = TASK_RUNNING" using inv sched_absD(3) [OF s'(2)] by (simp add: a_inv_def)
  then have "has_cpu phys s'"
    using s'(5,6,7) by (auto simp: has_cpu_def update_tss_esp_def)
  with s' inv show ?thesis by (auto simp: sched_ok_def)
qed

lemma sched_ok_flags: "sched_ok phys (s\<lparr>eflags := f\<rparr>) a = sched_ok phys s a"
  by (simp add: sched_ok_def sched_abs_def queue_def dll_def)

lemma thread_block_sched_ok:
  assumes ok: "sched_ok phys s a" and sl: "sleeping st"
  defines "a' \<equiv> a_block (idle_thread s) st a"
  shows "\<exists>s'. thread_block st s = Inr (intr_get_status s, s') \<and> sched_ok phys s' a' \<and> kframe s s' \<and>
           has_cpu phys s' \<and> tasks s' = retask a' (tasks s) \<and> intr_get_status s' = INTR_OFF \<and>
           other_queues (set (running s' # a_ready a')) s s'"
proof -
  let ?d = "snd (intr_disable s)"
  let ?r = "running s"
  have abs: "sched_abs s a" and inv: "a_inv (idle_thread s) a"
    and sp: "spaces_ok phys (tasks s) (cr3 s) (pmem s)" using ok by (auto simp: sched_ok_def)
  have run: "a_running a = ?r" using sched_absD(3) [OF abs] .
  have "a_status a ?r = Some TASK_RUNNING" using inv run by (simp add: a_inv_def)
  with sched_absD(2) [OF abs, of ?r] obtain p where
    p: "tasks s ?r = Some p" "status p = TASK_RUNNING" by (cases "tasks s ?r") auto
  let ?s = "set_task ?r (p\<lparr>status := st\<rparr>) ?d"
  let ?a = "a_set (a_running a) st a"
  have abs1: "sched_abs ?s ?a"
    using abs by (auto simp: sched_abs_def a_set_def)
  have pre1: "a_pre (idle_thread ?s) ?a" using a_block_inv(1) [OF inv sl] by simp
  have sp1: "spaces_ok phys (tasks ?s) (cr3 ?s) (pmem ?s)"
  proof (rule spaces_ok_retask)
    show "spaces_ok phys (tasks s) (cr3 ?s) (pmem ?s)" using sp by simp
    show "\<forall>t. rel_option (\<lambda>p p'. pgdir p' = pgdir p) (tasks s t) (tasks ?s t)"
      using p by (auto simp: option.rel_refl)
  qed
  from schedule_sched_ok [OF abs1 pre1 sp1] obtain s' where
    s': "schedule ?s = Inr s'" "sched_ok phys s' a'" "kframe ?s s'" "has_cpu phys s'"
    "tasks s' = retask a' (refill ?s)" "intr_get_status s' = INTR_OFF"
    "other_queues (set (running s' # a_ready a')) ?s s'"
    by (auto simp: a'_def a_block_def)
  have "refill ?s = (tasks s)(?r \<mapsto> p\<lparr>status := st\<rparr>)"
    using sl by (auto simp: refill_def sleeping_def)
  then have "tasks s' = retask a' (tasks s)"
    using s'(5) p by (auto simp: retask_def fun_eq_iff)
  moreover have "thread_block st s = Inr (intr_get_status s, s')"
    using s'(1) p sl by (simp add: thread_block_def split_beta Let_def disable_fst)
  moreover have "kframe s s'" using kframe_trans [of s ?s s'] s'(3) by (simp add: kframe_def)
  moreover have "other_queues (set (running s' # a_ready a')) s s'"
    using s'(7) by (auto simp: other_queues_def)
  ultimately show ?thesis using s' by blast
qed

lemma thread_yield_sched_ok:
  assumes ok: "sched_ok phys s a"
  defines "a' \<equiv> a_schedule (idle_thread s) a"
  shows "\<exists>s'. thread_yield s = Inr (intr_get_status s, s') \<and> sched_ok phys s' a' \<and> kframe s s' \<and>
           has_cpu phys s' \<and> tasks s' = retask a' (tasks s) \<and> intr_get_status s' = INTR_OFF \<and>
           other_queues (set (running s' # a_ready a')) s s'"
proof -
  let ?d = "snd (intr_disable s)"
  let ?r = "running s"
  have abs: "sched_abs s a" and inv: "a_inv (idle_thread s) a" and pre: "a_pre (idle_thread s) a"
    and sp: "spaces_ok phys (tasks s) (cr3 s) (pmem s)" using ok by (auto simp: sched_ok_def a_inv_def)
  have run: "a_running a = ?r" using sched_absD(3) [OF abs] .
  have rr: "a_status a ?r = Some TASK_RUNNING" using inv run by (simp add: a_inv_def)
  with sched_absD(2) [OF abs, of ?r] obtain p where
    p: "tasks s ?r = Some p" "status p = TASK_RUNNING" by (cases "tasks s ?r") auto
  let ?p = "p\<lparr>status := TASK_READY\<rparr>"
  let ?s = "set_task ?r ?p ?d"
  have ra: "a_requeue a = a\<lparr>a_ready := a_ready a @ [?r], a_status := (a_status a)(?r \<mapsto> TASK_READY)\<rparr>"
    using rr run by (simp add: a_requeue_def)
  have "?r \<notin> set (a_ready a)" using pre rr by (auto simp: a_pre_def)
  then have nin: "General_tag ?r \<notin> set (map General_tag (a_ready a))" by auto
  have q: "queue ?s Thread_ready_list (map General_tag (a_ready a))"
    using sched_absD(1) [OF abs] by simp
  from q_append_ok [OF q nin] obtain s1 where
    s1: "q_append Thread_ready_list (General_tag ?r) ?s = Inr s1"
    "queue s1 Thread_ready_list (map General_tag (a_ready a) @ [General_tag ?r])" "only_lists ?s s1"
    and fr: "\<forall>k ys. k \<noteq> Thread_ready_list \<longrightarrow> General_tag ?r \<notin> set ys \<longrightarrow>
      set (map General_tag (a_ready a)) \<inter> set ys = {} \<longrightarrow> queue ?s k ys \<longrightarrow> queue s1 k ys"
    by blast
  note o = only_lists_kstate [OF s1(3)]
  have find: "q_find Thread_ready_list (General_tag ?r) ?s = Inr False"
    using q_find_ok [OF q, of "General_tag ?r"] nin by simp
  have abs1: "sched_abs s1 (a_requeue a)"
    using s1(2) o abs by (auto simp: sched_abs_def ra)
  have pre1: "a_pre (idle_thread s1) (a_requeue a)" using a_requeue_pre [OF pre] o by simp
  have sp1: "spaces_ok phys (tasks s1) (cr3 s1) (pmem s1)"
  proof (rule spaces_ok_retask)
    show "spaces_ok phys (tasks s) (cr3 s1) (pmem s1)" using sp o by simp
    show "\<forall>t. rel_option (\<lambda>p p'. pgdir p' = pgdir p) (tasks s t) (tasks s1 t)"
      using p o by (auto simp: option.rel_refl)
  qed
  have i1: "a_schedule (idle_thread s1) (a_requeue a) = a'"
    using a_requeue_idem [OF pre] o by (simp add: a'_def)
  from schedule_sched_ok [OF abs1 pre1 sp1] obtain s' where
    s': "schedule s1 = Inr s'" "sched_ok phys s' a'" "kframe s1 s'" "has_cpu phys s'"
    "tasks s' = retask a' (refill s1)" "intr_get_status s' = INTR_OFF"
    "other_queues (set (running s' # a_ready a')) s1 s'"
    unfolding i1 by blast
  have "refill s1 = (tasks s)(?r \<mapsto> ?p)" using o by (simp add: refill_def)
  then have "tasks s' = retask a' (tasks s)"
    using s'(5) p by (auto simp: retask_def fun_eq_iff)
  moreover have "thread_yield s = Inr (intr_get_status s, s')"
    using s'(1) s1(1) p find by (simp add: thread_yield_def split_beta Let_def disable_fst)
  moreover have "kframe s s'"
    using kframe_trans [of s s1 s'] kframe_only_lists [OF s1(3)] s'(3) by (simp add: kframe_def)
  moreover have "other_queues (set (running s' # a_ready a')) s s'"
  proof -
    have hd: "running s' # a_ready a' = a_ready a @ [?r]"
    proof -
      have "running s' = a_running a'" using s'(2) by (simp add: sched_ok_def sched_abs_def)
      then show ?thesis
        using a_preempt [OF inv] run by (cases "a_ready a") (auto simp: a'_def)
    qed
    have "other_queues (set (a_ready a @ [?r])) s s1"
      unfolding other_queues_def
    proof (intro allI impI)
      fix k ys
      assume a: "k \<noteq> Thread_ready_list" "General_tag ` set (a_ready a @ [?r]) \<inter> set ys = {}" "queue s k ys"
      then have "queue ?s k ys" by simp
      with fr a show "queue s1 k ys" by auto
    qed
    with s'(7) show ?thesis unfolding hd using other_queues_trans by blast
  qed
  ultimately show ?thesis using s' by blast
qed

section \<open>Everything the scheduler can do\<close>

text \<open>
  The steps that touch the ready list or a status: the timer calls \<open>schedule\<close>, the running
  thread yields, blocks or unblocks another one, and a resumed thread restores its interrupt
  flag.
\<close>

inductive kstep :: "'z kstate_scheme \<Rightarrow> 'z kstate_scheme \<Rightarrow> bool" where
  preempt: "schedule s = Inr s' \<Longrightarrow> kstep s s'"
| yields: "thread_yield s = Inr (old, s') \<Longrightarrow> kstep s s'"
| blocks: "thread_block st s = Inr (old, s') \<Longrightarrow> kstep s s'"
| unblocks: "thread_unblock t s = Inr s' \<Longrightarrow> kstep s s'"
| resumes: "kstep s (snd (intr_set_status st s))"

inductive kreach :: "'z kstate_scheme \<Rightarrow> 'z kstate_scheme \<Rightarrow> bool" where
  start: "kreach s s"
| step: "kreach s s' \<Longrightarrow> kstep s' s'' \<Longrightarrow> kreach s s''"

lemma get_task_eq [res_simps]: "get_task t s = Inr p \<longleftrightarrow> tasks s t = Some p"
  by (simp add: get_task_def split: option.splits)

lemma thread_unblock_Inr:
  "thread_unblock t s = Inr s' \<Longrightarrow> \<exists>p. tasks s t = Some p \<and> sleeping (status p)"
  by (auto simp: thread_unblock_def split_beta Let_def res_simps)

lemma thread_block_Inr: "thread_block st s = Inr r \<Longrightarrow> sleeping st"
  by (auto simp: thread_block_def res_simps)

lemma thread_unblock_sched_ok:
  assumes ok: "sched_ok phys s a" and p: "tasks s t = Some p" "sleeping (status p)"
  shows "\<exists>s'. thread_unblock t s = Inr s' \<and> sched_ok phys s' (a_wake t a) \<and> kframe s s' \<and>
           tasks s' = (tasks s)(t \<mapsto> p\<lparr>status := TASK_READY\<rparr>) \<and> running s' = running s \<and>
           eflags s' = eflags s \<and> other_queues (insert t (set (a_ready a))) s s'"
proof -
  have abs: "sched_abs s a" and inv: "a_inv (idle_thread s) a"
    and sp: "spaces_ok phys (tasks s) (cr3 s) (pmem s)" using ok by (auto simp: sched_ok_def)
  from inv have pre: "a_pre (idle_thread s) a" by (simp add: a_inv_def)
  from thread_unblock_ok [OF abs pre p] obtain s' where
    s': "thread_unblock t s = Inr s'" "sched_abs s' (a_wake t a)" "kframe s s'"
    "tasks s' = (tasks s)(t \<mapsto> p\<lparr>status := TASK_READY\<rparr>)" "running s' = running s"
    "cr3 s' = cr3 s" "eflags s' = eflags s"
    "other_queues (insert t (set (a_ready a))) s s'" by blast
  have "a_status a t = Some (status p)" using sched_absD(2) [OF abs, of t] p by simp
  then have "a_inv (idle_thread s') (a_wake t a)"
    using a_wake_inv [OF inv _ p(2)] kframe_idle [OF s'(3)] by simp
  moreover have "spaces_ok phys (tasks s') (cr3 s') (pmem s')"
  proof (rule spaces_ok_retask)
    show "spaces_ok phys (tasks s) (cr3 s') (pmem s')" using sp s'(3,6) by (simp add: kframe_def)
    show "\<forall>x. rel_option (\<lambda>p p'. pgdir p' = pgdir p) (tasks s x) (tasks s' x)"
      using p s'(4) by (auto simp: option.rel_refl)
  qed
  ultimately show ?thesis using s' by (auto simp: sched_ok_def)
qed

lemma thread_unblock_awake:
  "tasks s t = Some p \<Longrightarrow> \<not> sleeping (status p) \<Longrightarrow> thread_unblock t s = Inl Assertion"
  by (simp add: thread_unblock_def split_beta Let_def)

lemma kstep_sched_ok:
  assumes "kstep s s'" and "sched_ok phys s a"
  shows "\<exists>a'. sched_ok phys s' a'"
  using assms(1)
proof (cases rule: kstep.cases)
  case preempt
  have "sched_abs s a" "a_pre (idle_thread s) a" "spaces_ok phys (tasks s) (cr3 s) (pmem s)"
    using assms(2) by (auto simp: sched_ok_def a_inv_def)
  from schedule_sched_ok [OF this] preempt show ?thesis by auto
next
  case (yields old)
  with thread_yield_sched_ok [OF assms(2)] show ?thesis by auto
next
  case (blocks st old)
  with thread_block_sched_ok [OF assms(2) thread_block_Inr [OF blocks]] show ?thesis by auto
next
  case (unblocks t)
  from thread_unblock_Inr [OF unblocks] obtain p where "tasks s t = Some p" "sleeping (status p)"
    by blast
  from thread_unblock_sched_ok [OF assms(2) this] unblocks show ?thesis by auto
next
  case (resumes st)
  have "idle_thread s' = idle_thread s" "queue s' = queue s"
    using resumes by (auto simp: fun_eq_iff)
  with resumes assms(2) show ?thesis by (auto simp: sched_ok_def sched_abs_def)
qed

lemma kreach_sched_ok: "kreach s s' \<Longrightarrow> sched_ok phys s a \<Longrightarrow> \<exists>a'. sched_ok phys s' a'"
proof (induction rule: kreach.induct)
  case (step s s' s'')
  then obtain a' where "sched_ok phys s' a'" by blast
  from kstep_sched_ok [OF step.hyps(2) this] show ?case .
qed blast

fun preempts :: "nat \<Rightarrow> 'z kstate_scheme \<Rightarrow> 'z kstate_scheme res" where
  "preempts 0 s = Inr s"
| "preempts (Suc n) s = bindE (schedule s) (preempts n)"

lemma preempts_ok:
  "sched_ok phys s a \<Longrightarrow>
   \<exists>s'. preempts n s = Inr s' \<and> sched_ok phys s' (a_rounds (idle_thread s) n a)"
proof (induction n arbitrary: s a)
  case (Suc n)
  then have "sched_abs s a" "a_pre (idle_thread s) a" "spaces_ok phys (tasks s) (cr3 s) (pmem s)"
    by (auto simp: sched_ok_def a_inv_def)
  from schedule_sched_ok [OF this] obtain s1 where
    s1: "schedule s = Inr s1" "sched_ok phys s1 (a_schedule (idle_thread s) a)" "kframe s s1"
    by blast
  from Suc.IH [OF s1(2)] kframe_idle [OF s1(3)] s1(1) show ?case by auto
qed simp

section \<open>Properties\<close>

text \<open>A kernel with the two threads the initialisation creates, the idle thread ready.\<close>

definition demo_task :: "task_status \<Rightarrow> task_struct" where
  "demo_task st = \<lparr>self_kstart = 0, pid = 1, status = st, priority = 1, tname = replicate 16 0,
     ticks = 1, elapsed_ticks = 0, fd_table = [], pgdir = 0,
     userprog_vadder = \<lparr>vaddr_bitmap = \<lparr>btmp_bytes_len = 0, bits = []\<rparr>, vaddr_start = 0\<rparr>,
     u_block_descs = [], cwd_inode_nr = 0, stack_magic = 0x19980320\<rparr>"

definition demo_kernel :: kstate where
  "demo_kernel =
     \<lparr>eflags = 0x202,
      nprev = (\<lambda>_. None)(Tail Thread_ready_list \<mapsto> Elem (General_tag 0xc0100000),
                         Elem (General_tag 0xc0100000) \<mapsto> Head Thread_ready_list),
      nnext = (\<lambda>_. None)(Head Thread_ready_list \<mapsto> Elem (General_tag 0xc0100000),
                         Elem (General_tag 0xc0100000) \<mapsto> Tail Thread_ready_list),
      tasks = (\<lambda>_. None)(0xc009e000 \<mapsto> demo_task TASK_RUNNING, 0xc0100000 \<mapsto> demo_task TASK_READY),
      running = 0xc009e000, main_thread = 0xc009e000, idle_thread = 0xc0100000, next_pid = 2,
      sema_value = (\<lambda>_. 1), locks = (\<lambda>_. \<lparr>holder = 0, holder_repeat_nr = 0\<rparr>), cr3 = 0x100000,
      ktss = \<lparr>tss_esp0 = 0, tss_ss0 = 0, tss_io_base = 0\<rparr>, pmem = (\<lambda>_. 0)\<rparr>"

definition demo_asched :: asched where
  "demo_asched = \<lparr>a_ready = [0xc0100000],
     a_status = (\<lambda>_. None)(0xc009e000 \<mapsto> TASK_RUNNING, 0xc0100000 \<mapsto> TASK_READY),
     a_running = 0xc009e000\<rparr>"

lemma demo_sched_ok: "sched_ok (\<lambda>_. 0) demo_kernel demo_asched"
proof -
  have r: "p \<in> ran (tasks demo_kernel) \<Longrightarrow> pgdir p = 0" for p
    by (auto simp: demo_kernel_def ran_def demo_task_def split: if_splits)
  have "spaces_ok (\<lambda>_. 0) (tasks demo_kernel) (cr3 demo_kernel) (pmem demo_kernel)"
    using r by (auto simp: spaces_ok_def demo_kernel_def)
  moreover have "sched_abs demo_kernel demo_asched"
    by (auto simp: sched_abs_def demo_kernel_def demo_asched_def queue_def dll_def demo_task_def)
  moreover have "a_inv (idle_thread demo_kernel) demo_asched"
    by (auto simp: a_inv_def a_pre_def demo_kernel_def demo_asched_def)
  ultimately show ?thesis by (simp add: sched_ok_def)
qed

text \<open>C1: \<open>schedule\<close> refines the round-robin scheduler.  Entered with the ready list in order, it
  never fails: a running thread is queued at the end with its ticks refilled, the idle thread
  is woken only when nothing else is ready, the first ready thread becomes the only running
  one with its address space and its interrupt stack active, interrupts are off, and no other
  field of any PCB changes.\<close>

theorem schedule_refines_round_robin:
  assumes "sched_abs s a" and "a_pre (idle_thread s) a"
    and "spaces_ok phys (tasks s) (cr3 s) (pmem s)"
  shows "\<exists>s'. schedule s = Inr s' \<and> sched_ok phys s' (a_schedule (idle_thread s) a) \<and>
           has_cpu phys s' \<and> tasks s' = retask (a_schedule (idle_thread s) a) (refill s) \<and>
           intr_get_status s' = INTR_OFF \<and> kframe s s'"
  using schedule_sched_ok [OF assms] by blast

theorem schedule_refines_round_robin_witness:
  "\<exists>s'. schedule demo_kernel = Inr s' \<and> running s' = 0xc0100000"
proof -
  have "sched_abs demo_kernel demo_asched" "a_pre (idle_thread demo_kernel) demo_asched"
    "spaces_ok (\<lambda>_. 0) (tasks demo_kernel) (cr3 demo_kernel) (pmem demo_kernel)"
    using demo_sched_ok by (auto simp: sched_ok_def a_inv_def)
  from schedule_refines_round_robin [OF this] obtain s' where
    s': "schedule demo_kernel = Inr s'"
    "sched_ok (\<lambda>_. 0) s' (a_schedule (idle_thread demo_kernel) demo_asched)" by blast
  then have "running s' = a_running (a_schedule (idle_thread demo_kernel) demo_asched)"
    by (simp add: sched_ok_def sched_abs_def)
  also have "\<dots> = 0xc0100000"
    by (simp add: a_schedule_def a_requeue_def a_idle_def a_dispatch_def demo_asched_def)
  finally show ?thesis using s'(1) by blast
qed

text \<open>C26: blocking, yielding and unblocking refine their abstract operations: a blocked thread
  leaves the rotation with the status given, a yielding thread goes to the end of the queue
  without new ticks, an unblocked thread goes to the front, and unblocking a thread that does
  not sleep fails its assertion.\<close>

theorem block_yield_unblock_refine:
  assumes "sched_ok phys s a" and "sleeping st"
  shows "(\<exists>s'. thread_block st s = Inr (intr_get_status s, s') \<and>
            sched_ok phys s' (a_block (idle_thread s) st a) \<and> has_cpu phys s' \<and>
            tasks s' = retask (a_block (idle_thread s) st a) (tasks s)) \<and>
         (\<exists>s'. thread_yield s = Inr (intr_get_status s, s') \<and>
            sched_ok phys s' (a_yield (idle_thread s) a) \<and> has_cpu phys s' \<and>
            tasks s' = retask (a_yield (idle_thread s) a) (tasks s)) \<and>
         (\<forall>t p. tasks s t = Some p \<longrightarrow>
            (if sleeping (status p)
             then \<exists>s'. thread_unblock t s = Inr s' \<and> sched_ok phys s' (a_wake t a) \<and>
                    running s' = running s \<and> eflags s' = eflags s
             else thread_unblock t s = Inl Assertion))"
proof (intro conjI allI impI)
  show "\<exists>s'. thread_block st s = Inr (intr_get_status s, s') \<and>
      sched_ok phys s' (a_block (idle_thread s) st a) \<and> has_cpu phys s' \<and>
      tasks s' = retask (a_block (idle_thread s) st a) (tasks s)"
    using thread_block_sched_ok [OF assms] by blast
  show "\<exists>s'. thread_yield s = Inr (intr_get_status s, s') \<and>
      sched_ok phys s' (a_yield (idle_thread s) a) \<and> has_cpu phys s' \<and>
      tasks s' = retask (a_yield (idle_thread s) a) (tasks s)"
    using thread_yield_sched_ok [OF assms(1)] unfolding a_yield_def by blast
  fix t p assume p: "tasks s t = Some p"
  show "if sleeping (status p)
     then \<exists>s'. thread_unblock t s = Inr s' \<and> sched_ok phys s' (a_wake t a) \<and>
            running s' = running s \<and> eflags s' = eflags s
     else thread_unblock t s = Inl Assertion"
    using thread_unblock_sched_ok [OF assms(1) p] thread_unblock_awake [OF p] by auto
qed

theorem block_yield_unblock_refine_witness:
  "(\<exists>s'. thread_block TASK_BLOCKED demo_kernel = Inr (INTR_ON, s') \<and> running s' = 0xc0100000) \<and>
   thread_unblock 0xc0100000 demo_kernel = Inl Assertion"
proof -
  have d: "intr_get_status demo_kernel = INTR_ON"
    by (simp add: intr_get_status_def demo_kernel_def EFLAGS_IF_def)
  have i: "tasks demo_kernel 0xc0100000 = Some (demo_task TASK_READY)"
    by (simp add: demo_kernel_def)
  have sl: "sleeping TASK_BLOCKED" by (simp add: sleeping_def)
  note t = block_yield_unblock_refine [OF demo_sched_ok sl]
  from t [THEN conjunct1] obtain s' where
    s': "thread_block TASK_BLOCKED demo_kernel = Inr (INTR_ON, s')"
    "sched_ok (\<lambda>_. 0) s' (a_block (idle_thread demo_kernel) TASK_BLOCKED demo_asched)"
    unfolding d by blast
  then have "running s' = a_running (a_block (idle_thread demo_kernel) TASK_BLOCKED demo_asched)"
    by (simp add: sched_ok_def sched_abs_def)
  then have "running s' = 0xc0100000"
    by (simp add: a_block_def a_set_def a_schedule_def a_requeue_def a_idle_def a_dispatch_def
        demo_asched_def)
  moreover have "thread_unblock 0xc0100000 demo_kernel = Inl Assertion"
    using t [THEN conjunct2, THEN conjunct2, rule_format, OF i]
    by (simp add: sleeping_def demo_task_def)
  ultimately show ?thesis using s'(1) by blast
qed

text \<open>C2: in every state the scheduling operations can reach exactly one thread is running, the
  one whose stack is in use; the ready list holds exactly the ready threads, each once.  There
  \<open>schedule\<close>, \<open>thread_yield\<close> and \<open>thread_block\<close> with a status that sleeps succeed, and
  \<open>thread_unblock\<close> succeeds on exactly the threads that sleep: on every other thread its
  assertion fails.\<close>

theorem one_running_thread:
  assumes "kreach s0 s" and "sched_ok phys s0 a0"
  shows "\<exists>rs. queue s Thread_ready_list (map General_tag rs) \<and> distinct rs \<and>
           (\<forall>t. t \<in> set rs \<longleftrightarrow> map_option status (tasks s t) = Some TASK_READY) \<and>
           (\<forall>t. map_option status (tasks s t) = Some TASK_RUNNING \<longleftrightarrow> t = running s) \<and>
           (\<exists>s'. schedule s = Inr s') \<and> (\<exists>r. thread_yield s = Inr r) \<and>
           (\<forall>st. sleeping st \<longrightarrow> (\<exists>r. thread_block st s = Inr r)) \<and>
           (\<forall>t p. tasks s t = Some p \<longrightarrow>
              (if sleeping (status p) then \<exists>s'. thread_unblock t s = Inr s'
               else thread_unblock t s = Inl Assertion))"
proof -
  obtain a where ok: "sched_ok phys s a" using kreach_sched_ok [OF assms] by blast
  then have abs: "sched_abs s a" and inv: "a_inv (idle_thread s) a" by (auto simp: sched_ok_def)
  have pre: "a_pre (idle_thread s) a" using inv by (simp add: a_inv_def)
  have sp: "spaces_ok phys (tasks s) (cr3 s) (pmem s)" using ok by (simp add: sched_ok_def)
  note st = sched_absD(2) [OF abs, symmetric] sched_absD(3) [OF abs, symmetric]
  have "\<forall>t. t \<in> set (a_ready a) \<longleftrightarrow> map_option status (tasks s t) = Some TASK_READY"
    using pre by (simp add: st a_pre_def)
  moreover have "\<forall>t. map_option status (tasks s t) = Some TASK_RUNNING \<longleftrightarrow> t = running s"
    unfolding st using inv by (auto simp: a_inv_def a_pre_def)
  moreover have "distinct (a_ready a)" using pre by (simp add: a_pre_def)
  moreover have "if sleeping (status p) then \<exists>s'. thread_unblock t s = Inr s'
      else thread_unblock t s = Inl Assertion" if "tasks s t = Some p" for t p
    using thread_unblock_sched_ok [OF ok that] thread_unblock_awake [OF that] by auto
  ultimately show ?thesis
    using sched_absD(1) [OF abs] schedule_sched_ok [OF abs pre sp] thread_yield_sched_ok [OF ok]
      thread_block_sched_ok [OF ok] by blast
qed

theorem one_running_thread_witness:
  "\<exists>s rs. kreach demo_kernel s \<and> running s = 0xc0100000 \<and>
     queue s Thread_ready_list (map General_tag rs) \<and> 0xc0100000 \<notin> set rs"
proof -
  have "sched_abs demo_kernel demo_asched" "a_pre (idle_thread demo_kernel) demo_asched"
    "spaces_ok (\<lambda>_. 0) (tasks demo_kernel) (cr3 demo_kernel) (pmem demo_kernel)"
    using demo_sched_ok by (auto simp: sched_ok_def a_inv_def)
  from schedule_sched_ok [OF this] obtain s where
    s: "schedule demo_kernel = Inr s"
    "sched_ok (\<lambda>_. 0) s (a_schedule (idle_thread demo_kernel) demo_asched)" by blast
  have r: "kreach demo_kernel s" using s(1) by (blast intro: kreach.intros kstep.preempt)
  have run: "running s = 0xc0100000"
    using s(2) by (simp add: sched_ok_def sched_abs_def a_schedule_def a_requeue_def a_idle_def
        a_dispatch_def demo_asched_def)
  from one_running_thread [OF r demo_sched_ok] obtain rs where
    rs: "queue s Thread_ready_list (map General_tag rs)"
    "\<forall>t. t \<in> set rs \<longleftrightarrow> map_option status (tasks s t) = Some TASK_READY"
    "\<forall>t. map_option status (tasks s t) = Some TASK_RUNNING \<longleftrightarrow> t = running s" by blast
  have "map_option status (tasks s (running s)) = Some TASK_RUNNING" using rs(3) by blast
  then have "0xc0100000 \<notin> set rs" using rs(2) run by auto
  with r run rs(1) show ?thesis by blast
qed

text \<open>C25: no ready thread starves: the thread with \<open>i\<close> threads before it in the ready list has
  the processor after \<open>i + 1\<close> switches by the timer.\<close>

theorem ready_threads_get_their_turn:
  assumes "sched_ok phys s a" and "i < length (a_ready a)"
  shows "\<exists>s'. preempts (Suc i) s = Inr s' \<and> running s' = a_ready a ! i \<and>
           map_option status (tasks s' (a_ready a ! i)) = Some TASK_RUNNING"
proof -
  obtain s' where s': "preempts (Suc i) s = Inr s'"
    "sched_ok phys s' (a_rounds (idle_thread s) (Suc i) a)"
    using preempts_ok [OF assms(1)] by blast
  have inv: "a_inv (idle_thread s) a" using assms(1) by (simp add: sched_ok_def)
  have run: "running s' = a_ready a ! i"
    using s'(2) a_rounds_turn [OF inv assms(2)]
    by (simp add: sched_ok_def sched_abs_def del: a_rounds.simps)
  then have "map_option status (tasks s' (a_ready a ! i)) = Some TASK_RUNNING"
    using s'(2) by (auto simp: sched_ok_def sched_abs_def a_inv_def simp del: a_rounds.simps)
  with s'(1) run show ?thesis by blast
qed

theorem ready_threads_get_their_turn_witness:
  "\<exists>s'. preempts 1 demo_kernel = Inr s' \<and> running s' = 0xc0100000"
  using ready_threads_get_their_turn [OF demo_sched_ok, of 0]
  by (auto simp: demo_asched_def simp del: preempts.simps)

end
