(* ===== verification/Sync.thy ===== *)
theory Sync
  imports Scheduler
begin

text \<open>
  \<open>thread/sync.c\<close>: semaphores and locks.  \<open>sema_down\<close> may give the processor away in the middle:
  it is split at that point, \<open>sema_down\<close> runs up to the first switch or to the end,
  \<open>sema_down_again\<close> is the next round of its loop after the thread was resumed.  \<open>lock_acquire\<close>
  is the run of the whole operation when it need not wait.  The step relation \<open>lstep\<close> cuts
  both lock operations into the pieces between which the timer may switch threads.
\<close>

section \<open>Semaphores\<close>

definition sema_init :: "sema_id \<Rightarrow> u8 \<Rightarrow> 'z kstate_scheme \<Rightarrow> 'z kstate_scheme" where
  "sema_init psema value s =
     list_init (klist (Waiters psema)) (s\<lparr>sema_value := (sema_value s)(psema := value)\<rparr>)"

text \<open>One round of the loop of \<open>sema_down\<close>: \<open>True\<close> when the semaphore was taken.\<close>

definition sema_down_round :: "sema_id \<Rightarrow> 'z kstate_scheme \<Rightarrow> (bool \<times> 'z kstate_scheme) res" where
  "sema_down_round psema s =
     (if sema_value s psema = 0 then
        bindE (q_append (Waiters psema) (General_tag (running s)) s) (\<lambda>s1.
        bindE (thread_block TASK_BLOCKED s1) (\<lambda>(_, s2). Inr (False, s2)))
      else
        let s1 = s\<lparr>sema_value := (sema_value s)(psema := sema_value s psema - 1)\<rparr> in
        bindE (assertE (sema_value s1 psema = 0)) (\<lambda>_. Inr (True, s1)))"

definition sema_down_end :: "intr_status \<Rightarrow> (bool \<times> 'z kstate_scheme) \<Rightarrow> (bool \<times> 'z kstate_scheme) res" where
  "sema_down_end old_intr_status r =
     (if fst r then Inr (True, snd (intr_set_status old_intr_status (snd r))) else Inr r)"

definition sema_down :: "sema_id \<Rightarrow> 'z kstate_scheme \<Rightarrow> (bool \<times> 'z kstate_scheme) res" where
  "sema_down psema s =
     (let (old_intr_status, s0) = intr_disable s in
      bindE (sema_down_round psema s0) (sema_down_end old_intr_status))"

text \<open>
  \<open>thread_block\<close> was called with interrupts off, so that is what it restores; \<open>old_intr_status\<close>
  is the local variable of \<open>sema_down\<close>.
\<close>

definition sema_down_again ::
    "sema_id \<Rightarrow> intr_status \<Rightarrow> 'z kstate_scheme \<Rightarrow> (bool \<times> 'z kstate_scheme) res" where
  "sema_down_again psema old_intr_status s =
     bindE (sema_down_round psema (thread_block_resume INTR_OFF s)) (sema_down_end old_intr_status)"

definition sema_up :: "sema_id \<Rightarrow> 'z kstate_scheme \<Rightarrow> 'z kstate_scheme res" where
  "sema_up psema s =
     (let (old_intr_status, s0) = intr_disable s in
      bindE (assertE (sema_value s0 psema = 0)) (\<lambda>_.
      bindE (if \<not> q_empty (Waiters psema) s0 then
               bindE (q_pop (Waiters psema) s0) (\<lambda>(tag, s1).
               bindE (tag2task tag) (\<lambda>thread_blocked. thread_unblock thread_blocked s1))
             else Inr s0) (\<lambda>s2.
      let s3 = s2\<lparr>sema_value := (sema_value s2)(psema := sema_value s2 psema + 1)\<rparr> in
      bindE (assertE (sema_value s3 psema = 1)) (\<lambda>_.
        Inr (snd (intr_set_status old_intr_status s3))))))"

section \<open>Locks\<close>

definition set_holder :: "lock_id \<Rightarrow> u32 \<Rightarrow> 'z kstate_scheme \<Rightarrow> 'z kstate_scheme" where
  "set_holder plock t s = s\<lparr>locks := (locks s)(plock := (locks s plock)\<lparr>holder := t\<rparr>)\<rparr>"

definition set_repeat :: "lock_id \<Rightarrow> u32 \<Rightarrow> 'z kstate_scheme \<Rightarrow> 'z kstate_scheme" where
  "set_repeat plock n s = s\<lparr>locks := (locks s)(plock := (locks s plock)\<lparr>holder_repeat_nr := n\<rparr>)\<rparr>"

definition lock_init :: "lock_id \<Rightarrow> 'z kstate_scheme \<Rightarrow> 'z kstate_scheme" where
  "lock_init plock s = sema_init (Lock_sema plock) 1 (set_repeat plock 0 (set_holder plock 0 s))"

definition lock_acquire :: "lock_id \<Rightarrow> 'z kstate_scheme \<Rightarrow> 'z kstate_scheme res" where
  "lock_acquire plock s =
     (if holder (locks s plock) \<noteq> running s then
        bindE (sema_down (Lock_sema plock) s) (\<lambda>(got, s1).
          if got then Inr (set_repeat plock 1 (set_holder plock (running s1) s1))
          else Inl WouldBlock)
      else Inr (set_repeat plock (holder_repeat_nr (locks s plock) + 1) s))"

definition lock_release :: "lock_id \<Rightarrow> 'z kstate_scheme \<Rightarrow> 'z kstate_scheme res" where
  "lock_release plock s =
     bindE (assertE (holder (locks s plock) = running s)) (\<lambda>_.
       if holder_repeat_nr (locks s plock) > 1
       then Inr (set_repeat plock (holder_repeat_nr (locks s plock) - 1) s)
       else
         bindE (assertE (holder_repeat_nr (locks s plock) = 1)) (\<lambda>_.
         let s1 = set_holder plock 0 s;
             s2 = set_repeat plock (holder_repeat_nr (locks s1 plock) - 1) s1
         in sema_up (Lock_sema plock) s2))"

section \<open>Interleavings\<close>

text \<open>
  Where a thread is with respect to one lock.  \<open>Sleeping\<close>: inside the loop of \<open>sema_down\<close>, with
  the value of its local variable.
\<close>

datatype lpc =
    Outside
  | At_down
  | Sleeping intr_status
  | Got
  | Held_set
  | Inside
  | Cleared
  | At_up

text \<open>
  The steps of the running thread on the lock, in the order of \<open>lock_acquire\<close> and
  \<open>lock_release\<close>, and what else may happen: the timer, any scheduling operation of a thread
  that is not inside \<open>sema_down\<close>, unblocking of threads that do not wait for this lock.  The
  idle thread takes no locks.
\<close>

inductive lstep :: "lock_id \<Rightarrow> 'z kstate_scheme \<times> (u32 \<Rightarrow> lpc) \<Rightarrow> 'z kstate_scheme \<times> (u32 \<Rightarrow> lpc) \<Rightarrow> bool"
  for plock where
  enter: "pc (running s) = Outside \<Longrightarrow> running s \<noteq> idle_thread s \<Longrightarrow>
    holder (locks s plock) \<noteq> running s \<Longrightarrow> lstep plock (s, pc) (s, pc(running s := At_down))"
| down: "pc (running s) = At_down \<Longrightarrow> sema_down (Lock_sema plock) s = Inr (got, s') \<Longrightarrow>
    lstep plock (s, pc) (s', pc(running s := if got then Got else Sleeping (intr_get_status s)))"
| down_again: "pc (running s) = Sleeping old \<Longrightarrow>
    sema_down_again (Lock_sema plock) old s = Inr (got, s') \<Longrightarrow>
    lstep plock (s, pc) (s', pc(running s := if got then Got else Sleeping old))"
| write_holder: "pc (running s) = Got \<Longrightarrow>
    lstep plock (s, pc) (set_holder plock (running s) s, pc(running s := Held_set))"
| write_repeat: "pc (running s) = Held_set \<Longrightarrow>
    lstep plock (s, pc) (set_repeat plock 1 s, pc(running s := Inside))"
| acquire_again: "pc (running s) = Inside \<Longrightarrow> holder (locks s plock) = running s \<Longrightarrow>
    holder_repeat_nr (locks s plock) \<noteq> 0xffffffff \<Longrightarrow>
    lstep plock (s, pc) (set_repeat plock (holder_repeat_nr (locks s plock) + 1) s, pc)"
| release_inner: "pc (running s) = Inside \<Longrightarrow> holder (locks s plock) = running s \<Longrightarrow>
    holder_repeat_nr (locks s plock) > 1 \<Longrightarrow>
    lstep plock (s, pc) (set_repeat plock (holder_repeat_nr (locks s plock) - 1) s, pc)"
| clear_holder: "pc (running s) = Inside \<Longrightarrow> holder (locks s plock) = running s \<Longrightarrow>
    holder_repeat_nr (locks s plock) = 1 \<Longrightarrow>
    lstep plock (s, pc) (set_holder plock 0 s, pc(running s := Cleared))"
| clear_repeat: "pc (running s) = Cleared \<Longrightarrow>
    lstep plock (s, pc)
      (set_repeat plock (holder_repeat_nr (locks s plock) - 1) s, pc(running s := At_up))"
| up: "pc (running s) = At_up \<Longrightarrow> sema_up (Lock_sema plock) s = Inr s' \<Longrightarrow>
    lstep plock (s, pc) (s', pc(running s := Outside))"
| timer: "schedule s = Inr s' \<Longrightarrow> lstep plock (s, pc) (s', pc)"
| yield: "\<forall>old. pc (running s) \<noteq> Sleeping old \<Longrightarrow> thread_yield s = Inr (old, s') \<Longrightarrow>
    lstep plock (s, pc) (s', pc)"
| block: "\<forall>old. pc (running s) \<noteq> Sleeping old \<Longrightarrow> thread_block st s = Inr (old, s') \<Longrightarrow>
    lstep plock (s, pc) (s', pc)"
| unblock: "\<forall>old. pc t \<noteq> Sleeping old \<Longrightarrow> thread_unblock t s = Inr s' \<Longrightarrow>
    lstep plock (s, pc) (s', pc)"
| flags: "lstep plock (s, pc) (s\<lparr>eflags := f\<rparr>, pc)"

inductive lreach :: "lock_id \<Rightarrow> 'z kstate_scheme \<times> (u32 \<Rightarrow> lpc) \<Rightarrow> 'z kstate_scheme \<times> (u32 \<Rightarrow> lpc) \<Rightarrow> bool"
  for plock where
  lstart: "lreach plock c c"
| lmore: "lreach plock c c' \<Longrightarrow> lstep plock c' c'' \<Longrightarrow> lreach plock c c''"

text \<open>The threads that own the lock or are about to.\<close>

definition critical :: "lpc \<Rightarrow> bool" where
  "critical p \<longleftrightarrow> p \<in> {Got, Held_set, Inside, Cleared, At_up}"

section \<open>Who owns the lock, who waits\<close>

definition owned_by :: "lock \<Rightarrow> u32 \<Rightarrow> lpc \<Rightarrow> bool" where
  "owned_by lk t p \<longleftrightarrow>
     holder lk = (if p = Held_set \<or> p = Inside then t else 0) \<and>
     (p = Inside \<longrightarrow> holder_repeat_nr lk \<noteq> 0) \<and> (p = Cleared \<longrightarrow> holder_repeat_nr lk = 1)"

definition owner :: "u8 \<Rightarrow> lock \<Rightarrow> (u32 \<Rightarrow> lpc) \<Rightarrow> bool" where
  "owner v lk pc \<longleftrightarrow>
     (if v = 1 then (\<forall>t. \<not> critical (pc t)) \<and> holder lk = 0
      else v = 0 \<and>
        (\<exists>t. critical (pc t) \<and> (\<forall>u. u \<noteq> t \<longrightarrow> \<not> critical (pc u)) \<and> owned_by lk t (pc t)))"

definition wait_ok :: "u32 \<Rightarrow> (u32 \<Rightarrow> lpc) \<Rightarrow> asched \<Rightarrow> u32 list \<Rightarrow> bool" where
  "wait_ok idle pc a ws \<longleftrightarrow>
     (\<forall>t \<in> set ws. (\<exists>old. pc t = Sleeping old) \<and> a_status a t = Some TASK_BLOCKED) \<and>
     (\<forall>t old. pc t = Sleeping old \<longrightarrow> t \<notin> set ws \<longrightarrow>
        a_status a t = Some TASK_READY \<or> a_status a t = Some TASK_RUNNING) \<and>
     pc idle = Outside \<and> pc 0 = Outside"

lemma critical_simps [simp]:
  "\<not> critical Outside" "\<not> critical At_down" "\<not> critical (Sleeping old)" "critical Got"
  "critical Held_set" "critical Inside" "critical Cleared" "critical At_up"
  by (simp_all add: critical_def)

lemma owner_outside:
  assumes "\<not> critical (pc r)" and "\<not> critical p"
  shows "owner v lk (pc(r := p)) = owner v lk pc"
proof -
  have c: "critical ((pc(r := p)) t) = critical (pc t)" for t using assms by simp
  have e: "critical (pc t) \<Longrightarrow> (pc(r := p)) t = pc t" for t using assms by auto
  show ?thesis
  proof (cases "v = 1")
    case True
    then show ?thesis using c by (simp add: owner_def)
  next
    case False
    then show ?thesis unfolding owner_def c by (simp add: e cong: conj_cong del: fun_upd_apply)
  qed
qed

lemma owner_take: "owner 1 lk pc \<Longrightarrow> owner 0 lk (pc(r := Got))"
  by (auto simp: owner_def owned_by_def)

lemma owner_unique:
  assumes "owner v lk pc" and "critical (pc r)"
  shows "v = 0 \<and> (\<forall>u. u \<noteq> r \<longrightarrow> \<not> critical (pc u)) \<and> owned_by lk r (pc r)"
proof -
  have v: "v \<noteq> 1" using assms by (auto simp: owner_def)
  with assms(1) obtain t where t: "v = 0" "critical (pc t)" "\<forall>u. u \<noteq> t \<longrightarrow> \<not> critical (pc u)"
    "owned_by lk t (pc t)" by (auto simp: owner_def)
  have "r = t" using t(3) assms(2) by blast
  with t show ?thesis by simp
qed

lemma owner_move:
  assumes "owner v lk pc" and "critical (pc r)" and "critical p" and "owned_by lk' r p"
  shows "owner v lk' (pc(r := p))"
  using owner_unique [OF assms(1,2)] assms(3,4)
  unfolding owner_def by (auto intro!: exI [of _ r])

lemma owner_give:
  assumes "owner v lk pc" and "pc r = At_up"
  shows "owner 1 lk (pc(r := Outside))"
  using owner_unique [OF assms(1), of r] assms(2) by (auto simp: owner_def owned_by_def)

lemma a_schedule_status:
  assumes "a_pre idle a"
  shows "a_status (a_schedule idle a) t =
    (if t = a_running (a_schedule idle a) then Some TASK_RUNNING
     else if a_status a t = Some TASK_RUNNING then Some TASK_READY else a_status a t)"
proof -
  have "t \<noteq> a_running a \<Longrightarrow> a_status a t \<noteq> Some TASK_RUNNING" using assms by (auto simp: a_pre_def)
  then show ?thesis
    by (auto simp: a_schedule_def a_dispatch_def a_idle_def a_wake_def a_requeue_def)
qed

lemma a_schedule_members:
  "set (a_running (a_schedule idle a) # a_ready (a_schedule idle a)) \<subseteq>
   insert idle (set (a_ready (a_requeue a)))"
proof -
  have "a_ready (a_idle idle (a_requeue a)) \<noteq> []" by (auto simp: a_idle_def a_wake_def)
  then have "a_running (a_schedule idle a) # a_ready (a_schedule idle a) =
      a_ready (a_idle idle (a_requeue a))"
    by (simp add: a_schedule_def a_dispatch_def)
  then show ?thesis by (auto simp: a_idle_def a_wake_def)
qed

lemma blocked_stay_out:
  assumes pre: "a_pre idle a" and t: "a_status a t = Some TASK_BLOCKED" "t \<noteq> idle"
  shows "t \<notin> set (a_running (a_schedule idle a) # a_ready (a_schedule idle a))"
    and "a_status (a_schedule idle a) t = Some TASK_BLOCKED"
proof -
  have "a_status (a_requeue a) t = Some TASK_BLOCKED" using t(1) by (auto simp: a_requeue_def)
  then have "t \<notin> set (a_ready (a_requeue a))"
    using a_requeue_pre [OF pre] by (auto simp: a_pre_def)
  then show nm: "t \<notin> set (a_running (a_schedule idle a) # a_ready (a_schedule idle a))"
    using a_schedule_members [of idle a] t(2) by auto
  then show "a_status (a_schedule idle a) t = Some TASK_BLOCKED"
    using a_schedule_status [OF pre, of t] t(1) by simp
qed

lemma wait_ok_not_idle: "wait_ok idle pc a ws \<Longrightarrow> idle \<notin> set ws \<and> 0 \<notin> set ws"
  by (force simp: wait_ok_def)

lemma wait_ok_schedule:
  assumes pre: "a_pre idle a" and w: "wait_ok idle pc a ws"
  shows "wait_ok idle pc (a_schedule idle a) ws"
    and "set ws \<inter> set (a_running (a_schedule idle a) # a_ready (a_schedule idle a)) = {}"
proof -
  have b: "a_status a t = Some TASK_BLOCKED \<and> t \<noteq> idle" if "t \<in> set ws" for t
    using w that wait_ok_not_idle [OF w] by (auto simp: wait_ok_def)
  show "set ws \<inter> set (a_running (a_schedule idle a) # a_ready (a_schedule idle a)) = {}"
    using blocked_stay_out(1) [OF pre] b by blast
  show "wait_ok idle pc (a_schedule idle a) ws"
    unfolding wait_ok_def
  proof (intro conjI ballI allI impI)
    fix t assume "t \<in> set ws"
    then show "\<exists>old. pc t = Sleeping old" "a_status (a_schedule idle a) t = Some TASK_BLOCKED"
      using w blocked_stay_out(2) [OF pre] b by (auto simp: wait_ok_def)
  next
    fix t old assume "pc t = Sleeping old" "t \<notin> set ws"
    then have "a_status a t = Some TASK_READY \<or> a_status a t = Some TASK_RUNNING"
      using w by (auto simp: wait_ok_def)
    then show "a_status (a_schedule idle a) t = Some TASK_READY \<or>
        a_status (a_schedule idle a) t = Some TASK_RUNNING"
      using a_schedule_status [OF pre, of t] by auto
  qed (use w in \<open>auto simp: wait_ok_def\<close>)
qed

lemma wait_ok_set:
  assumes "a_status a r = Some TASK_RUNNING" and "\<forall>old. pc r \<noteq> Sleeping old" and "wait_ok idle pc a ws"
  shows "wait_ok idle pc (a_set r st a) ws"
  using assms by (fastforce simp: wait_ok_def a_set_def)

lemma wait_ok_sleep:
  assumes "a_status a r = Some TASK_RUNNING" and "wait_ok idle pc a ws" and "r \<noteq> idle" and "r \<noteq> 0"
  shows "wait_ok idle (pc(r := Sleeping old)) (a_set r TASK_BLOCKED a) (ws @ [r])"
  using assms by (auto simp: wait_ok_def a_set_def)

lemma wait_ok_wake_first:
  assumes "wait_ok idle pc a (w # ws)" and "w \<notin> set ws"
  shows "wait_ok idle pc (a_wake w a) ws"
  using assms by (auto simp: wait_ok_def a_wake_def)

lemma wait_ok_wake_other:
  assumes "wait_ok idle pc a ws" and "\<forall>old. pc t \<noteq> Sleeping old"
  shows "wait_ok idle pc (a_wake t a) ws"
  using assms by (fastforce simp: wait_ok_def a_wake_def)

lemma wait_ok_pc:
  assumes "wait_ok idle pc a ws" and "r \<notin> set ws" and "\<forall>old. p \<noteq> Sleeping old" and "r \<noteq> idle" and "r \<noteq> 0"
  shows "wait_ok idle (pc(r := p)) a ws"
  using assms by (auto simp: wait_ok_def)

section \<open>The semaphore operations under the invariant\<close>

definition lock_inv :: "(u32 \<Rightarrow> u32) \<Rightarrow> lock_id \<Rightarrow> 'z kstate_scheme \<Rightarrow> (u32 \<Rightarrow> lpc) \<Rightarrow> asched \<Rightarrow> u32 list \<Rightarrow> bool" where
  "lock_inv phys plock s pc a ws \<longleftrightarrow>
     sched_ok phys s a \<and> queue s (Waiters (Lock_sema plock)) (map General_tag ws) \<and>
     wait_ok (idle_thread s) pc a ws \<and>
     owner (sema_value s (Lock_sema plock)) (locks s plock) pc \<and>
     (sema_value s (Lock_sema plock) = 1 \<longrightarrow> ws \<noteq> [] \<longrightarrow> (\<exists>t old. pc t = Sleeping old \<and> t \<notin> set ws))"

lemma sched_ok_running:
  assumes "sched_ok phys s a"
  shows "a_running a = running s" and "a_status a (running s) = Some TASK_RUNNING"
    and "running s \<noteq> 0" and "a_pre (idle_thread s) a" and "sched_abs s a"
    and "running s \<notin> set (a_ready a)" and "a_inv (idle_thread s) a"
    and "spaces_ok phys (tasks s) (cr3 s) (pmem s)"
proof -
  show abs: "sched_abs s a" and inv: "a_inv (idle_thread s) a"
    and "spaces_ok phys (tasks s) (cr3 s) (pmem s)" using assms by (auto simp: sched_ok_def)
  show r: "a_running a = running s" using sched_absD(3) [OF abs] .
  show st: "a_status a (running s) = Some TASK_RUNNING" using inv r by (simp add: a_inv_def)
  show pre: "a_pre (idle_thread s) a" using inv by (simp add: a_inv_def)
  show "running s \<noteq> 0" using st pre by (auto simp: a_pre_def)
  show "running s \<notin> set (a_ready a)" using st pre by (auto simp: a_pre_def)
qed

lemma sched_ok_same:
  assumes "sched_ok phys s a" and "queue s' Thread_ready_list = queue s Thread_ready_list"
    and "tasks s' = tasks s" and "running s' = running s" and "idle_thread s' = idle_thread s"
    and "cr3 s' = cr3 s" and "pmem s' = pmem s"
  shows "sched_ok phys s' a"
  using assms by (simp add: sched_ok_def sched_abs_def)

lemma sema_value_update [simp]:
  "queue (s\<lparr>sema_value := f\<rparr>) l xs = queue s l xs"
  "queue (s\<lparr>locks := g\<rparr>) l xs = queue s l xs"
  "queue (s\<lparr>eflags := e\<rparr>) l xs = queue s l xs"
  by (simp_all add: queue_def dll_def)

lemma sched_ok_update [simp]:
  "sched_ok phys (s\<lparr>sema_value := f\<rparr>) a = sched_ok phys s a"
  "sched_ok phys (s\<lparr>locks := g\<rparr>) a = sched_ok phys s a"
  by (simp_all add: sched_ok_def sched_abs_def)

lemma sema_down_round_takes:
  assumes "sema_value s psema = 1"
  shows "sema_down_round psema s = Inr (True, s\<lparr>sema_value := (sema_value s)(psema := 0)\<rparr>)"
  using assms by (simp add: sema_down_round_def)

lemma sema_down_round_sleeps:
  assumes ok: "sched_ok phys s a" and q: "queue s (Waiters psema) (map General_tag ws)"
    and w: "\<forall>t \<in> set ws. a_status a t = Some TASK_BLOCKED" "idle_thread s \<notin> set ws"
    and r: "running s \<noteq> idle_thread s" and v: "sema_value s psema = 0"
  defines "a' \<equiv> a_block (idle_thread s) TASK_BLOCKED a"
  shows "\<exists>s'. sema_down_round psema s = Inr (False, s') \<and> sched_ok phys s' a' \<and>
           queue s' (Waiters psema) (map General_tag (ws @ [running s])) \<and> kframe s s'"
proof -
  let ?r = "running s"
  note run = sched_ok_running [OF ok]
  have nin: "General_tag ?r \<notin> set (map General_tag ws)" using w(1) run(2) by auto
  from q_append_ok [OF q nin] obtain s1 where
    s1: "q_append (Waiters psema) (General_tag ?r) s = Inr s1"
    "queue s1 (Waiters psema) (map General_tag ws @ [General_tag ?r])" "only_lists s s1"
    and fr: "\<forall>k ys. k \<noteq> Waiters psema \<longrightarrow> General_tag ?r \<notin> set ys \<longrightarrow>
      set (map General_tag ws) \<inter> set ys = {} \<longrightarrow> queue s k ys \<longrightarrow> queue s1 k ys" by blast
  note o = only_lists_kstate [OF s1(3)]
  have "queue s1 Thread_ready_list (map General_tag (a_ready a))"
  proof (rule fr [rule_format])
    show "General_tag ?r \<notin> set (map General_tag (a_ready a))" using run(6) by auto
    have "set ws \<inter> set (a_ready a) = {}"
      using w(1) a_pre_ready_status [OF run(4)] by fastforce
    then show "set (map General_tag ws) \<inter> set (map General_tag (a_ready a)) = {}" by auto
    show "queue s Thread_ready_list (map General_tag (a_ready a))"
      using sched_absD(1) [OF run(5)] .
  qed simp
  then have ok1: "sched_ok phys s1 a"
    using ok o by (auto simp: sched_ok_def sched_abs_def)
  have sl: "sleeping TASK_BLOCKED" by (simp add: sleeping_def)
  from thread_block_sched_ok [OF ok1 sl] obtain s' where
    s': "thread_block TASK_BLOCKED s1 = Inr (intr_get_status s1, s')" "sched_ok phys s' a'"
    "kframe s1 s'" "other_queues (set (running s' # a_ready a')) s1 s'"
    unfolding a'_def using o by auto
  have "queue s' (Waiters psema) (map General_tag (ws @ [?r]))"
  proof (rule s'(4) [unfolded other_queues_def, rule_format])
    show "queue s1 (Waiters psema) (map General_tag (ws @ [?r]))" using s1(2) by simp
    let ?a = "a_set (a_running a) TASK_BLOCKED a"
    have pre: "a_pre (idle_thread s) ?a" using a_block_inv(1) [OF run(7) sl] .
    have "t \<notin> set (running s' # a_ready a')" if "t \<in> set (ws @ [?r])" for t
    proof -
      have "a_status ?a t = Some TASK_BLOCKED" "t \<noteq> idle_thread s"
        using that w r run(1) by (auto simp: a_set_def)
      from blocked_stay_out(1) [OF pre this] show ?thesis
        using sched_ok_running(1) [OF s'(2)] by (simp add: a'_def a_block_def)
    qed
    then show "General_tag ` set (running s' # a_ready a') \<inter> set (map General_tag (ws @ [?r])) = {}"
      by fastforce
  qed simp
  moreover have "sema_down_round psema s = Inr (False, s')"
    using v s1(1) s'(1) by (simp add: sema_down_round_def)
  moreover have "kframe s s'" using kframe_trans [OF kframe_only_lists [OF s1(3)] s'(3)] .
  ultimately show ?thesis using s'(2) by blast
qed

lemma sema_up_ok:
  assumes ok: "sched_ok phys s a" and q: "queue s (Waiters psema) (map General_tag ws)"
    and w: "\<forall>t \<in> set ws. a_status a t = Some TASK_BLOCKED" and v: "sema_value s psema = 0"
  defines "a' \<equiv> (if ws = [] then a else a_wake (hd ws) a)"
  shows "\<exists>s'. sema_up psema s = Inr s' \<and> sched_ok phys s' a' \<and>
           queue s' (Waiters psema) (map General_tag (tl ws)) \<and>
           sema_value s' = (sema_value s)(psema := 1) \<and> locks s' = locks s \<and>
           running s' = running s \<and> idle_thread s' = idle_thread s \<and>
           intr_get_status s' = intr_get_status s"
proof -
  let ?d = "snd (intr_disable s)"
  have okd: "sched_ok phys ?d a" using sched_ok_same [OF ok, of ?d] by (simp add: fun_eq_iff)
  have qd: "queue ?d (Waiters psema) (map General_tag ws)" using q by simp
  define fin where "fin s2 = snd (intr_set_status (fst (intr_disable s))
    (s2\<lparr>sema_value := (sema_value s2)(psema := 1)\<rparr>))" for s2 :: "'a kstate_scheme"
  have fin_ok: "sched_ok phys (fin s2) b = sched_ok phys s2 b"
    "queue (fin s2) l xs = queue s2 l xs" "locks (fin s2) = locks s2" "running (fin s2) = running s2"
    "idle_thread (fin s2) = idle_thread s2"
    "sema_value (fin s2) = (sema_value s2)(psema := 1)"
    "intr_get_status (fin s2) = intr_get_status s" for s2 b l xs
    by (simp_all add: fin_def sched_ok_def sched_abs_def set_status_get disable_fst)
  show ?thesis
  proof (cases ws)
    case Nil
    then have "q_empty (Waiters psema) ?d" using q_empty_ok [OF qd] by simp
    then have "sema_up psema s = Inr (fin ?d)"
      using v by (simp add: sema_up_def split_beta Let_def fin_def)
    then show ?thesis using Nil okd qd by (simp add: fin_ok a'_def)
  next
    case (Cons t ts)
    then have ne: "\<not> q_empty (Waiters psema) ?d" using q_empty_ok [OF qd] by simp
    have "queue ?d (Waiters psema) (General_tag t # map General_tag ts)" using qd Cons by simp
    from q_pop_ok [OF this] obtain s1 where
      s1: "q_pop (Waiters psema) ?d = Inr (General_tag t, s1)"
      "queue s1 (Waiters psema) (map General_tag ts)" "only_lists ?d s1"
      and fr: "\<forall>k ys. k \<noteq> Waiters psema \<longrightarrow> set (map General_tag ts) \<inter> set ys = {} \<longrightarrow>
        queue ?d k ys \<longrightarrow> queue s1 k ys" by blast
    note o = only_lists_kstate [OF s1(3)]
    note run = sched_ok_running [OF ok]
    have dj: "set ws \<inter> set (a_ready a) = {}"
      using w a_pre_ready_status [OF run(4)] by fastforce
    have "queue s1 Thread_ready_list (map General_tag (a_ready a))"
    proof (rule fr [rule_format])
      show "set (map General_tag ts) \<inter> set (map General_tag (a_ready a)) = {}"
        using dj Cons by auto
      show "queue ?d Thread_ready_list (map General_tag (a_ready a))"
        using sched_absD(1) [OF run(5)] by simp
    qed simp
    then have ok1: "sched_ok phys s1 a" using ok o by (auto simp: sched_ok_def sched_abs_def)
    have "a_status a t = Some TASK_BLOCKED" using w Cons by simp
    then obtain p where p: "tasks s1 t = Some p" "sleeping (status p)"
      using sched_absD(2) [OF run(5), of t] o
      by (cases "tasks s t") (auto simp: sleeping_def)
    from thread_unblock_sched_ok [OF ok1 p] obtain s2 where
      s2: "thread_unblock t s1 = Inr s2" "sched_ok phys s2 (a_wake t a)" "kframe s1 s2"
      "running s2 = running s1" "other_queues (insert t (set (a_ready a))) s1 s2" by blast
    have k: "sema_value s2 = sema_value s" "locks s2 = locks s" "running s2 = running s"
      "idle_thread s2 = idle_thread s"
      using s2(3,4) o by (auto simp: kframe_def)
    have dts: "distinct (t # ts)"
      using queue_distinct [OF q] Cons by (auto simp: distinct_map)
    have "queue s2 (Waiters psema) (map General_tag ts)"
    proof (rule s2(5) [unfolded other_queues_def, rule_format])
      show "General_tag ` insert t (set (a_ready a)) \<inter> set (map General_tag ts) = {}"
        using dj Cons dts by auto
    qed (use s1(2) in simp_all)
    moreover have "sema_up psema s = Inr (fin s2)"
      using v ne s1(1) s2(1) k
      by (simp add: sema_up_def split_beta Let_def fin_def tag2task_def)
    ultimately show ?thesis using Cons s2(2) k by (simp add: fin_ok a'_def)
  qed
qed

section \<open>The invariant holds in every step\<close>

lemma lock_invD:
  assumes "lock_inv phys plock s pc a ws"
  shows "sched_ok phys s a" and "queue s (Waiters (Lock_sema plock)) (map General_tag ws)"
    and "wait_ok (idle_thread s) pc a ws"
    and "owner (sema_value s (Lock_sema plock)) (locks s plock) pc"
    and "\<forall>t \<in> set ws. a_status a t = Some TASK_BLOCKED" and "idle_thread s \<notin> set ws"
    and "running s \<notin> set ws"
proof -
  show ok: "sched_ok phys s a" and "queue s (Waiters (Lock_sema plock)) (map General_tag ws)"
    and w: "wait_ok (idle_thread s) pc a ws"
    and "owner (sema_value s (Lock_sema plock)) (locks s plock) pc"
    using assms by (auto simp: lock_inv_def)
  show b: "\<forall>t \<in> set ws. a_status a t = Some TASK_BLOCKED" using w by (simp add: wait_ok_def)
  show "idle_thread s \<notin> set ws" using wait_ok_not_idle [OF w] by simp
  show "running s \<notin> set ws" using b sched_ok_running(2) [OF ok] by auto
qed

lemma sema_value_01: "owner v lk pc \<Longrightarrow> v = 0 \<or> v = 1"
  by (auto simp: owner_def split: if_splits)

lemma not_outside_not_idle:
  assumes "lock_inv phys plock s pc a ws" and "pc (running s) \<noteq> Outside"
  shows "running s \<noteq> idle_thread s"
  using lock_invD(3) [OF assms(1)] assms(2) by (auto simp: wait_ok_def)

text \<open>Any scheduling operation that leaves the lock and the program counters alone.\<close>

lemma lock_inv_sched:
  assumes inv: "lock_inv phys plock s pc a ws" and ok: "sched_ok phys s' a'" and fr: "kframe s s'"
    and w: "wait_ok (idle_thread s) pc a' ws"
    and q: "queue s' (Waiters (Lock_sema plock)) (map General_tag ws)"
  shows "lock_inv phys plock s' pc a' ws"
  using assms by (simp add: lock_inv_def kframe_def)

lemma lock_inv_schedule:
  assumes inv: "lock_inv phys plock s pc a ws" and pre: "a_pre (idle_thread s) b"
    and w: "wait_ok (idle_thread s) pc b ws"
    and s': "sched_ok phys s' (a_schedule (idle_thread s) b)" "kframe s s'"
      "other_queues (set (running s' # a_ready (a_schedule (idle_thread s) b))) s s'"
  shows "lock_inv phys plock s' pc (a_schedule (idle_thread s) b) ws"
proof (rule lock_inv_sched [OF inv s'(1,2)])
  show "wait_ok (idle_thread s) pc (a_schedule (idle_thread s) b) ws"
    using wait_ok_schedule(1) [OF pre w] .
  show "queue s' (Waiters (Lock_sema plock)) (map General_tag ws)"
  proof (rule s'(3) [unfolded other_queues_def, rule_format])
    show "General_tag ` set (running s' # a_ready (a_schedule (idle_thread s) b)) \<inter>
        set (map General_tag ws) = {}"
      using wait_ok_schedule(2) [OF pre w] sched_ok_running(1) [OF s'(1)] by auto
    show "queue s (Waiters (Lock_sema plock)) (map General_tag ws)" using lock_invD(2) [OF inv] .
  qed simp
qed

text \<open>A step of the owner that changes the lock record or its program counter only.\<close>

lemma lock_inv_owner:
  assumes inv: "lock_inv phys plock s pc a ws" and r: "critical (pc (running s))"
    and p: "critical p" "owned_by lk (running s) p"
  shows "lock_inv phys plock (s\<lparr>locks := (locks s)(plock := lk)\<rparr>) (pc(running s := p)) a ws"
proof -
  note i = lock_invD [OF inv]
  have v: "sema_value s (Lock_sema plock) = 0" using owner_unique [OF i(4) r] by simp
  have "running s \<noteq> idle_thread s"
    using not_outside_not_idle [OF inv] r critical_simps(1) by metis
  then have "wait_ok (idle_thread s) (pc(running s := p)) a ws"
    using wait_ok_pc [OF i(3,7), of p] p(1) sched_ok_running(3) [OF i(1)] critical_simps(3) by metis
  moreover have "sched_ok phys (s\<lparr>locks := (locks s)(plock := lk)\<rparr>) a" using i(1) by simp
  ultimately show ?thesis
    using i(2) owner_move [OF i(4) r p(1), of lk] p(2) v by (simp add: lock_inv_def)
qed

text \<open>The two outcomes of a round: the semaphore taken, or asleep at the end of its queue.\<close>

definition lock_after_down ::
    "(u32 \<Rightarrow> u32) \<Rightarrow> lock_id \<Rightarrow> 'z kstate_scheme \<Rightarrow> intr_status \<Rightarrow> (u32 \<Rightarrow> lpc) \<Rightarrow> asched \<Rightarrow> u32 list \<Rightarrow>
     'z kstate_scheme \<Rightarrow> bool" where
  "lock_after_down phys plock s old pc a ws s' \<longleftrightarrow>
     (if sema_value s (Lock_sema plock) = 1
      then lock_inv phys plock s' (pc(running s := Got)) a ws
      else lock_inv phys plock s' (pc(running s := Sleeping old))
             (a_block (idle_thread s) TASK_BLOCKED a) (ws @ [running s])) \<and>
     sema_value s' = (sema_value s)(Lock_sema plock := 0) \<and> locks s' = locks s \<and>
     idle_thread s' = idle_thread s"

lemma lock_after_down_cong:
  "running d = running s \<Longrightarrow> sema_value d = sema_value s \<Longrightarrow> locks d = locks s \<Longrightarrow>
   idle_thread d = idle_thread s \<Longrightarrow>
   lock_after_down phys plock d old pc a ws s' = lock_after_down phys plock s old pc a ws s'"
  by (simp add: lock_after_down_def)

lemma lock_after_down_inv:
  "lock_after_down phys plock s old pc a ws s' \<Longrightarrow>
   \<exists>a' ws'. lock_inv phys plock s'
     (pc(running s := if sema_value s (Lock_sema plock) = 1 then Got else Sleeping old)) a' ws'"
  by (auto simp: lock_after_down_def simp del: fun_upd_apply split: if_splits)

lemma lock_inv_round:
  assumes inv: "lock_inv phys plock s pc a ws" and r: "pc (running s) = At_down \<or> pc (running s) = Sleeping old"
  shows "\<exists>s'. sema_down_round (Lock_sema plock) s = Inr (sema_value s (Lock_sema plock) = 1, s') \<and>
           lock_after_down phys plock s old pc a ws s'"
proof -
  let ?l = "Lock_sema plock"
  let ?r = "running s"
  note i = lock_invD [OF inv]
  note run = sched_ok_running [OF i(1)]
  have ni: "?r \<noteq> idle_thread s" using not_outside_not_idle [OF inv] r by auto
  have nc: "\<not> critical (pc ?r)" using r by auto
  show ?thesis
  proof (cases "sema_value s ?l = 1")
    case True
    let ?s = "s\<lparr>sema_value := (sema_value s)(?l := 0)\<rparr>"
    have "sched_ok phys ?s a" using i(1) by simp
    moreover have "wait_ok (idle_thread s) (pc(?r := Got)) a ws"
      using wait_ok_pc [OF i(3,7) _ ni run(3)] by simp
    moreover have "owner 0 (locks s plock) (pc(?r := Got))"
      using owner_take i(4) True by simp
    ultimately have "lock_inv phys plock ?s (pc(?r := Got)) a ws"
      using i(2) by (simp add: lock_inv_def)
    with sema_down_round_takes [OF True] True show ?thesis by (simp add: lock_after_down_def)
  next
    case False
    then have v: "sema_value s ?l = 0" using sema_value_01 [OF i(4)] by simp
    let ?a = "a_block (idle_thread s) TASK_BLOCKED a"
    from sema_down_round_sleeps [OF i(1,2,5,6) ni v] obtain s' where
      s': "sema_down_round ?l s = Inr (False, s')" "sched_ok phys s' ?a"
      "queue s' (Waiters ?l) (map General_tag (ws @ [?r]))" "kframe s s'" by blast
    have sl: "sleeping TASK_BLOCKED" by (simp add: sleeping_def)
    have pre: "a_pre (idle_thread s) (a_set ?r TASK_BLOCKED a)"
      using a_block_inv(1) [OF run(7) sl] run(1) by simp
    have "wait_ok (idle_thread s) (pc(?r := Sleeping old)) ?a (ws @ [?r])"
      using wait_ok_schedule(1) [OF pre wait_ok_sleep [OF run(2) i(3) ni run(3)]]
      by (simp add: a_block_def run(1))
    moreover have "owner 0 (locks s plock) (pc(?r := Sleeping old))"
      using owner_outside [where pc = pc and r = ?r] nc i(4) v by simp
    ultimately have "lock_inv phys plock s' (pc(?r := Sleeping old)) ?a (ws @ [?r])"
      using s'(2,3,4) v by (simp add: lock_inv_def kframe_def)
    moreover have "sema_value s' = (sema_value s)(?l := 0)" "locks s' = locks s"
      "idle_thread s' = idle_thread s" using s'(4) v by (auto simp: kframe_def)
    ultimately show ?thesis using s'(1) False by (auto simp: lock_after_down_def)
  qed
qed

lemma lock_inv_flags: "lock_inv phys plock (s\<lparr>eflags := f\<rparr>) pc a ws = lock_inv phys plock s pc a ws"
  by (simp add: lock_inv_def sched_ok_flags)

lemma set_status_form: "\<exists>f. snd (intr_set_status st s) = s\<lparr>eflags := f\<rparr>"
  unfolding intr_set_status_def intr_enable_def intr_disable_def
  by (auto intro: exI [of _ "eflags s"])

lemma lock_inv_disable:
  "lock_inv phys plock (snd (intr_disable s)) pc a ws = lock_inv phys plock s pc a ws"
  using disable_form [of s] lock_inv_flags by metis

lemma lock_inv_set_status:
  "lock_inv phys plock (snd (intr_set_status st s)) pc a ws = lock_inv phys plock s pc a ws"
  using set_status_form [of st s] lock_inv_flags by metis

lemma lock_after_down_flags:
  "lock_after_down phys plock s old pc a ws (snd (intr_set_status st s')) =
   lock_after_down phys plock s old pc a ws s'"
  by (simp add: lock_after_down_def lock_inv_set_status)

lemma lock_inv_down_end:
  assumes "sema_down_round psema s = Inr (got, s1)" and "lock_after_down phys plock t old pc a ws s1"
  shows "\<exists>s'. bindE (sema_down_round psema s) (sema_down_end st) = Inr (got, s') \<and>
           lock_after_down phys plock t old pc a ws s'"
  using assms by (cases got) (simp_all add: sema_down_end_def lock_after_down_flags)

lemma lock_inv_down:
  assumes inv: "lock_inv phys plock s pc a ws" and r: "pc (running s) = At_down"
  shows "\<exists>s'. sema_down (Lock_sema plock) s = Inr (sema_value s (Lock_sema plock) = 1, s') \<and>
           lock_after_down phys plock s (intr_get_status s) pc a ws s'"
proof -
  let ?d = "snd (intr_disable s)"
  have d: "lock_inv phys plock ?d pc a ws" using inv by (simp add: lock_inv_disable)
  have "pc (running ?d) = At_down \<or> pc (running ?d) = Sleeping (intr_get_status s)" using r by simp
  from lock_inv_round [OF d this] obtain s1 where
    s1: "sema_down_round (Lock_sema plock) ?d = Inr (sema_value s (Lock_sema plock) = 1, s1)"
    "lock_after_down phys plock s (intr_get_status s) pc a ws s1"
    using lock_after_down_cong [of ?d s] by auto
  from lock_inv_down_end [OF s1, of "intr_get_status s"] show ?thesis
    by (simp add: sema_down_def split_beta disable_fst)
qed

lemma lock_inv_down_again:
  assumes inv: "lock_inv phys plock s pc a ws" and r: "pc (running s) = Sleeping old"
  shows "\<exists>s'. sema_down_again (Lock_sema plock) old s = Inr (sema_value s (Lock_sema plock) = 1, s') \<and>
           lock_after_down phys plock s old pc a ws s'"
proof -
  let ?d = "thread_block_resume INTR_OFF s"
  have d: "lock_inv phys plock ?d pc a ws"
    using inv by (simp add: thread_block_resume_def lock_inv_set_status)
  have rd: "running ?d = running s" "sema_value ?d = sema_value s" "locks ?d = locks s"
    "idle_thread ?d = idle_thread s" by (simp_all add: thread_block_resume_def)
  then have "pc (running ?d) = At_down \<or> pc (running ?d) = Sleeping old" using r by simp
  from lock_inv_round [OF d this] rd obtain s1 where
    s1: "sema_down_round (Lock_sema plock) ?d = Inr (sema_value s (Lock_sema plock) = 1, s1)"
    "lock_after_down phys plock s old pc a ws s1"
    using lock_after_down_cong [of ?d s] by auto
  from lock_inv_down_end [OF s1, of old] show ?thesis unfolding sema_down_again_def .
qed

lemma lock_inv_up:
  assumes inv: "lock_inv phys plock s pc a ws" and r: "pc (running s) = At_up"
  shows "\<exists>s'. sema_up (Lock_sema plock) s = Inr s' \<and>
           lock_inv phys plock s' (pc(running s := Outside)) (if ws = [] then a else a_wake (hd ws) a) (tl ws) \<and>
           sema_value s' (Lock_sema plock) = 1 \<and> locks s' = locks s \<and> idle_thread s' = idle_thread s"
proof -
  let ?l = "Lock_sema plock"
  let ?r = "running s"
  note i = lock_invD [OF inv]
  note run = sched_ok_running [OF i(1)]
  have ni: "?r \<noteq> idle_thread s" using not_outside_not_idle [OF inv] r by auto
  have v: "sema_value s ?l = 0" using owner_unique [OF i(4), of ?r] r by simp
  let ?a = "if ws = [] then a else a_wake (hd ws) a"
  from sema_up_ok [OF i(1,2,5) v] obtain s' where
    s': "sema_up ?l s = Inr s'" "sched_ok phys s' ?a"
    "queue s' (Waiters ?l) (map General_tag (tl ws))" "sema_value s' = (sema_value s)(?l := 1)"
    "locks s' = locks s" "idle_thread s' = idle_thread s" by blast
  have dist: "distinct ws" using queue_distinct [OF i(2)] by (simp add: distinct_map)
  have w: "wait_ok (idle_thread s) pc ?a (tl ws)"
    using i(3) wait_ok_wake_first dist by (cases ws) auto
  have "?r \<notin> set (tl ws)" using i(7) by (cases ws) auto
  from wait_ok_pc [OF w this _ ni run(3)]
  have w': "wait_ok (idle_thread s) (pc(?r := Outside)) ?a (tl ws)" by simp
  have "tl ws \<noteq> [] \<longrightarrow> (\<exists>t old. (pc(?r := Outside)) t = Sleeping old \<and> t \<notin> set (tl ws))"
  proof
    assume "tl ws \<noteq> []"
    then obtain t ts where ws: "ws = t # ts" by (cases ws) auto
    then obtain old where "pc t = Sleeping old" using i(3) by (auto simp: wait_ok_def)
    moreover have "t \<noteq> ?r" using i(7) ws by auto
    ultimately show "\<exists>t old. (pc(?r := Outside)) t = Sleeping old \<and> t \<notin> set (tl ws)"
      using ws dist by (intro exI [of _ t] exI [of _ old]) auto
  qed
  then show ?thesis
    using s' w' owner_give [OF i(4) r] by (intro exI [of _ s']) (simp add: lock_inv_def)
qed

lemma no_wrap:
  assumes "n \<noteq> (0xffffffff :: u32)"
  shows "n + 1 \<noteq> 0"
proof
  assume "n + 1 = 0"
  then have "n = - 1" by (simp add: eq_neg_iff_add_eq_0)
  with assms show False by simp
qed

lemma lock_inv_enter:
  assumes inv: "lock_inv phys plock s pc a ws" and r: "pc (running s) = Outside" "running s \<noteq> idle_thread s"
  shows "lock_inv phys plock s (pc(running s := At_down)) a ws"
  supply fun_upd_apply [simp del]
proof -
  note i = lock_invD [OF inv]
  have "wait_ok (idle_thread s) (pc(running s := At_down)) a ws"
    using wait_ok_pc [OF i(3,7), of At_down] r sched_ok_running(3) [OF i(1)] by simp
  moreover have "owner (sema_value s (Lock_sema plock)) (locks s plock) (pc(running s := At_down))"
    using owner_outside [where pc = pc and r = "running s"] r(1) i(4) by simp
  moreover have "(\<exists>t old. (pc(running s := At_down)) t = Sleeping old \<and> t \<notin> set ws)"
    if "\<exists>t old. pc t = Sleeping old \<and> t \<notin> set ws"
    using that r(1) by (metis fun_upd_apply lpc.distinct(3))
  ultimately show ?thesis using inv unfolding lock_inv_def by blast
qed

lemma lock_inv_timer:
  assumes inv: "lock_inv phys plock s pc a ws"
  shows "\<exists>s'. schedule s = Inr s' \<and> lock_inv phys plock s' pc (a_schedule (idle_thread s) a) ws \<and> kframe s s'"
proof -
  note i = lock_invD [OF inv]
  note run = sched_ok_running [OF i(1)]
  from schedule_sched_ok [OF run(5,4,8)] obtain s' where
    s': "schedule s = Inr s'" "sched_ok phys s' (a_schedule (idle_thread s) a)" "kframe s s'"
    "other_queues (set (running s' # a_ready (a_schedule (idle_thread s) a))) s s'" by blast
  from lock_inv_schedule [OF inv run(4) i(3) s'(2-4)] s'(1,3) show ?thesis by blast
qed

lemma lstep_inv:
  assumes "lstep plock c c'"
  shows "lock_inv phys plock (fst c) (snd c) a ws \<Longrightarrow>
    \<exists>a' ws'. lock_inv phys plock (fst c') (snd c') a' ws'"
  supply fun_upd_apply [simp del]
  using assms
proof (induction rule: lstep.induct)
  case (enter pc s)
  from lock_inv_enter [OF enter.prems [unfolded fst_conv snd_conv] enter.hyps(1,2)]
  show ?case unfolding fst_conv snd_conv by blast
next
  case (down pc s got s')
  from lock_inv_down [OF down.prems [unfolded fst_conv snd_conv] down.hyps(1)] down.hyps(2)
    lock_after_down_inv show ?case by fastforce
next
  case (down_again pc s old got s')
  from lock_inv_down_again [OF down_again.prems [unfolded fst_conv snd_conv] down_again.hyps(1)]
    down_again.hyps(2) lock_after_down_inv show ?case by fastforce
next
  case (write_holder pc s)
  have "owned_by ((locks s plock)\<lparr>holder := running s\<rparr>) (running s) Held_set"
    by (simp add: owned_by_def)
  from lock_inv_owner [OF write_holder.prems [unfolded fst_conv snd_conv] _ _ this] write_holder.hyps
  show ?case by (auto simp: set_holder_def)
next
  case (write_repeat pc s)
  note inv = write_repeat.prems [unfolded fst_conv snd_conv]
  have "holder (locks s plock) = running s"
    using owner_unique [OF lock_invD(4) [OF inv], of "running s"] write_repeat.hyps
    by (simp add: owned_by_def)
  then have "owned_by ((locks s plock)\<lparr>holder_repeat_nr := 1\<rparr>) (running s) Inside"
    by (simp add: owned_by_def)
  from lock_inv_owner [OF inv _ _ this] write_repeat.hyps show ?case
    by (auto simp: set_repeat_def)
next
  case (acquire_again pc s)
  have "owned_by ((locks s plock)\<lparr>holder_repeat_nr := holder_repeat_nr (locks s plock) + 1\<rparr>)
      (running s) Inside"
    using acquire_again.hyps(2,3) no_wrap by (simp add: owned_by_def)
  from lock_inv_owner [OF acquire_again.prems [unfolded fst_conv snd_conv] _ _ this]
    acquire_again.hyps(1) fun_upd_triv [of pc "running s"] show ?case
    by (auto simp: set_repeat_def)
next
  case (release_inner pc s)
  have "owned_by ((locks s plock)\<lparr>holder_repeat_nr := holder_repeat_nr (locks s plock) - 1\<rparr>)
      (running s) Inside"
    using release_inner.hyps(2,3) by (auto simp: owned_by_def)
  from lock_inv_owner [OF release_inner.prems [unfolded fst_conv snd_conv] _ _ this]
    release_inner.hyps(1) fun_upd_triv [of pc "running s"] show ?case
    by (auto simp: set_repeat_def)
next
  case (clear_holder pc s)
  have "owned_by ((locks s plock)\<lparr>holder := 0\<rparr>) (running s) Cleared"
    using clear_holder.hyps(3) by (simp add: owned_by_def)
  from lock_inv_owner [OF clear_holder.prems [unfolded fst_conv snd_conv] _ _ this]
    clear_holder.hyps(1) show ?case by (auto simp: set_holder_def)
next
  case (clear_repeat pc s)
  note inv = clear_repeat.prems [unfolded fst_conv snd_conv]
  have "holder (locks s plock) = 0"
    using owner_unique [OF lock_invD(4) [OF inv], of "running s"] clear_repeat.hyps
    by (simp add: owned_by_def)
  then have "owned_by ((locks s plock)\<lparr>holder_repeat_nr := holder_repeat_nr (locks s plock) - 1\<rparr>)
      (running s) At_up"
    by (simp add: owned_by_def)
  from lock_inv_owner [OF inv _ _ this] clear_repeat.hyps show ?case
    by (auto simp: set_repeat_def)
next
  case (up pc s s')
  from lock_inv_up [OF up.prems [unfolded fst_conv snd_conv] up.hyps(1)] up.hyps(2)
  show ?case by auto
next
  case (timer s s' pc)
  from lock_inv_timer [OF timer.prems [unfolded fst_conv snd_conv]] timer.hyps show ?case by auto
next
  case (yield pc s old s')
  note inv = yield.prems [unfolded fst_conv snd_conv]
  note i = lock_invD [OF inv]
  note run = sched_ok_running [OF i(1)]
  from thread_yield_sched_ok [OF i(1)] yield.hyps
  have "sched_ok phys s' (a_schedule (idle_thread s) a)" "kframe s s'"
    "other_queues (set (running s' # a_ready (a_schedule (idle_thread s) a))) s s'" by auto
  from lock_inv_schedule [OF inv run(4) i(3) this] show ?case by auto
next
  case (block pc s st old s')
  note inv = block.prems [unfolded fst_conv snd_conv]
  note i = lock_invD [OF inv]
  note run = sched_ok_running [OF i(1)]
  note sl = thread_block_Inr [OF block.hyps(2)]
  let ?b = "a_set (running s) st a"
  have pre: "a_pre (idle_thread s) ?b" using a_block_inv(1) [OF run(7) sl] run(1) by simp
  have w: "wait_ok (idle_thread s) pc ?b ws" using wait_ok_set [OF run(2) block.hyps(1) i(3)] .
  from thread_block_sched_ok [OF i(1) sl] block.hyps(2) run(1)
  have "sched_ok phys s' (a_schedule (idle_thread s) ?b)" "kframe s s'"
    "other_queues (set (running s' # a_ready (a_schedule (idle_thread s) ?b))) s s'"
    by (auto simp: a_block_def)
  from lock_inv_schedule [OF inv pre w this] show ?case by auto
next
  case (unblock pc t s s')
  note inv = unblock.prems [unfolded fst_conv snd_conv]
  note i = lock_invD [OF inv]
  note run = sched_ok_running [OF i(1)]
  from thread_unblock_Inr [OF unblock.hyps(2)] obtain p where
    p: "tasks s t = Some p" "sleeping (status p)" by blast
  from thread_unblock_sched_ok [OF i(1) p] unblock.hyps(2) have
    s': "sched_ok phys s' (a_wake t a)" "kframe s s'"
    "other_queues (insert t (set (a_ready a))) s s'" by auto
  have "t \<notin> set ws" using i(3) unblock.hyps(1) by (auto simp: wait_ok_def)
  moreover have "set ws \<inter> set (a_ready a) = {}"
    using i(5) a_pre_ready_status [OF run(4)] by fastforce
  ultimately have "General_tag ` insert t (set (a_ready a)) \<inter> set (map General_tag ws) = {}"
    by auto
  then have "queue s' (Waiters (Lock_sema plock)) (map General_tag ws)"
    using s'(3) i(2) by (simp add: other_queues_def)
  with lock_inv_sched [OF inv s'(1,2) wait_ok_wake_other [OF i(3) unblock.hyps(1)]] show ?case
    by auto
next
  case (flags s pc f)
  then show ?case by (auto simp: lock_inv_flags)
qed

lemma lreach_inv:
  "lreach plock c c' \<Longrightarrow> lock_inv phys plock (fst c) (snd c) a ws \<Longrightarrow>
   \<exists>a' ws'. lock_inv phys plock (fst c') (snd c') a' ws'"
proof (induction rule: lreach.induct)
  case (lmore c c' c'')
  then obtain a' ws' where "lock_inv phys plock (fst c') (snd c') a' ws'" by blast
  from lstep_inv [OF lmore.hyps(2) this] show ?case .
qed blast

lemma u32_one:
  assumes "(n :: u32) \<noteq> 0" and "\<not> 1 < n"
  shows "n = 1"
proof -
  have "unat n \<noteq> 0" using assms(1) by (simp add: unat_eq_0)
  moreover have "\<not> 1 < unat n" using assms(2) by (simp add: word_less_nat_alt)
  ultimately have "unat n = 1" by simp
  then show ?thesis by (simp add: word_unat_eq_iff)
qed

lemma lock_eta: "(lk :: lock)\<lparr>holder := t, holder_repeat_nr := n\<rparr> = \<lparr>holder = t, holder_repeat_nr = n\<rparr>"
  by (cases lk) simp

section \<open>A lock without contention\<close>

definition lock_free :: "lock_id \<Rightarrow> 'z kstate_scheme \<Rightarrow> bool" where
  "lock_free plock s \<longleftrightarrow>
     sema_value s (Lock_sema plock) = 1 \<and> holder (locks s plock) = 0 \<and> running s \<noteq> 0 \<and>
     queue s (Waiters (Lock_sema plock)) []"

definition lock_held :: "lock_id \<Rightarrow> 'z kstate_scheme \<Rightarrow> 'z kstate_scheme" where
  "lock_held plock s =
     s\<lparr>sema_value := (sema_value s)(Lock_sema plock := 0),
       locks := (locks s)(plock := \<lparr>holder = running s, holder_repeat_nr = 1\<rparr>)\<rparr>"

definition lock_freed :: "lock_id \<Rightarrow> 'z kstate_scheme \<Rightarrow> 'z kstate_scheme" where
  "lock_freed plock s =
     s\<lparr>sema_value := (sema_value s)(Lock_sema plock := 1),
       locks := (locks s)(plock := \<lparr>holder = 0, holder_repeat_nr = 0\<rparr>)\<rparr>"

lemma lock_freed_kstate [simp]:
  "tasks (lock_freed l s) = tasks s"
  "running (lock_freed l s) = running s"
  "main_thread (lock_freed l s) = main_thread s"
  "next_pid (lock_freed l s) = next_pid s"
  "idle_thread (lock_freed l s) = idle_thread s"
  "cr3 (lock_freed l s) = cr3 s"
  "pmem (lock_freed l s) = pmem s"
  "queue (lock_freed l s) q xs = queue s q xs"
  by (simp_all add: lock_freed_def)

lemma lock_held_kstate [simp]:
  "tasks (lock_held l s) = tasks s"
  "running (lock_held l s) = running s"
  "idle_thread (lock_held l s) = idle_thread s"
  "cr3 (lock_held l s) = cr3 s"
  "pmem (lock_held l s) = pmem s"
  "queue (lock_held l s) q xs = queue s q xs"
  by (simp_all add: lock_held_def)

lemma lock_free_freed: "lock_free l s \<Longrightarrow> lock_free l (lock_freed l s)"
  by (simp add: lock_free_def) (simp add: lock_freed_def)

lemma lock_free_freed_other: "lock_free l (lock_freed k s) = (l = k \<and> running s \<noteq> 0 \<and> queue s (Waiters (Lock_sema l)) [] \<or> l \<noteq> k \<and> lock_free l s)"
  by (auto simp: lock_free_def) (auto simp: lock_freed_def)

lemma disable_eflags: "snd (intr_disable s) = s\<lparr>eflags := eflags (snd (intr_disable s))\<rparr>"
  by (cases "intr_get_status s") (simp_all add: intr_disable_def)

lemma sema_down_free:
  assumes "sema_value s psema = 1"
  shows "sema_down psema s = Inr (True, s\<lparr>sema_value := (sema_value s)(psema := 0)\<rparr>)"
proof -
  let ?d = "snd (intr_disable s)"
  have v: "sema_value ?d psema = 1" using assms by simp
  have "snd (intr_set_status (fst (intr_disable s)) (?d\<lparr>sema_value := (sema_value s)(psema := 0)\<rparr>)) =
      ?d\<lparr>sema_value := (sema_value s)(psema := 0), eflags := eflags s\<rparr>"
    by (subst restore_flags) simp_all
  also have "\<dots> = s\<lparr>sema_value := (sema_value s)(psema := 0)\<rparr>"
    by (subst disable_eflags) simp
  finally show ?thesis
    using sema_down_round_takes [OF v] by (simp add: sema_down_def sema_down_end_def split_beta)
qed

lemma sema_up_free:
  assumes "sema_value s psema = 0" and "queue s (Waiters psema) []"
  shows "sema_up psema s = Inr (s\<lparr>sema_value := (sema_value s)(psema := 1)\<rparr>)"
proof -
  let ?d = "snd (intr_disable s)"
  have e: "q_empty (Waiters psema) ?d" using q_empty_ok [of ?d "Waiters psema" "[]"] assms(2) by simp
  have "snd (intr_set_status (fst (intr_disable s)) (?d\<lparr>sema_value := (sema_value s)(psema := 1)\<rparr>)) =
      ?d\<lparr>sema_value := (sema_value s)(psema := 1), eflags := eflags s\<rparr>"
    by (subst restore_flags) simp_all
  also have "\<dots> = s\<lparr>sema_value := (sema_value s)(psema := 1)\<rparr>"
    by (subst disable_eflags) simp
  finally show ?thesis
    using e assms(1) by (simp add: sema_up_def split_beta Let_def)
qed

lemma lock_acquire_free: "lock_free plock s \<Longrightarrow> lock_acquire plock s = Inr (lock_held plock s)"
  by (simp add: lock_acquire_def lock_free_def sema_down_free lock_held_def set_holder_def
      set_repeat_def lock_eta)

lemma lock_release_last:
  assumes "sema_value s (Lock_sema plock) = 0" and "queue s (Waiters (Lock_sema plock)) []"
    and "locks s plock = \<lparr>holder = running s, holder_repeat_nr = 1\<rparr>"
  shows "lock_release plock s = Inr (lock_freed plock s)"
proof -
  let ?s = "s\<lparr>locks := (locks s)(plock := \<lparr>holder = 0, holder_repeat_nr = 0\<rparr>)\<rparr>"
  have "sema_up (Lock_sema plock) ?s =
      Inr (?s\<lparr>sema_value := (sema_value s)(Lock_sema plock := 1)\<rparr>)"
    by (subst sema_up_free) (use assms in simp_all)
  with assms(3) show ?thesis
    by (simp add: lock_release_def Let_def set_holder_def set_repeat_def lock_freed_def)
qed

lemma lock_release_held:
  assumes "lock_free plock s"
  shows "lock_release plock (lock_held plock s) = Inr (lock_freed plock s)"
  using lock_release_last [of "lock_held plock s" plock] assms
  by (simp add: lock_held_def lock_freed_def lock_free_def)

lemma lock_busy:
  assumes "sched_ok phys s a" and "queue s (Waiters (Lock_sema plock)) (map General_tag ws)"
    and "\<forall>t \<in> set ws. a_status a t = Some TASK_BLOCKED" and "idle_thread s \<notin> set ws"
    and "running s \<noteq> idle_thread s" and "sema_value s (Lock_sema plock) = 0"
    and "holder (locks s plock) \<noteq> running s"
  shows "lock_acquire plock s = Inl WouldBlock"
proof -
  let ?d = "snd (intr_disable s)"
  have "sched_ok phys ?d a" using sched_ok_same [OF assms(1), of ?d] by (simp add: fun_eq_iff)
  from sema_down_round_sleeps [OF this, of "Lock_sema plock" ws] assms(2-6) obtain s' where
    "sema_down_round (Lock_sema plock) ?d = Inr (False, s')" by auto
  then have "sema_down (Lock_sema plock) s = Inr (False, s')"
    by (simp add: sema_down_def split_beta sema_down_end_def)
  with assms(7) show ?thesis by (simp add: lock_acquire_def)
qed

section \<open>Properties\<close>

text \<open>A lock nobody holds or waits for, no thread inside one of its operations.\<close>

definition lock_start :: "(u32 \<Rightarrow> u32) \<Rightarrow> lock_id \<Rightarrow> 'z kstate_scheme \<Rightarrow> bool" where
  "lock_start phys plock s \<longleftrightarrow> (\<exists>a. sched_ok phys s a) \<and> lock_free plock s"

lemma lock_free_inv:
  "sched_ok phys s a \<Longrightarrow> lock_free plock s \<Longrightarrow> lock_inv phys plock s (\<lambda>_. Outside) a []"
  by (auto simp: lock_free_def lock_inv_def wait_ok_def owner_def)

lemma lock_start_inv: "lock_start phys plock s \<Longrightarrow> \<exists>a. lock_inv phys plock s (\<lambda>_. Outside) a []"
  unfolding lock_start_def using lock_free_inv by blast

lemma lreach_start:
  assumes "lreach plock (s0, \<lambda>_. Outside) (s, pc)" and "lock_start phys plock s0"
  shows "\<exists>a ws. lock_inv phys plock s pc a ws"
proof -
  obtain a where "lock_inv phys plock s0 (\<lambda>_. Outside) a []" using lock_start_inv [OF assms(2)] by blast
  with lreach_inv [OF assms(1), of phys a "[]"] show ?thesis by simp
qed

text \<open>C3: mutual exclusion.  However the operations of the threads on a lock, the timer, yielding,
  blocking and unblocking interleave, at most one thread is between taking the semaphore and
  giving it back; the thread inside is the holder the lock names, and the semaphore is 0
  exactly when there is one.\<close>

theorem lock_mutual_exclusion:
  assumes "lreach plock (s0, \<lambda>_. Outside) (s, pc)" and "lock_start phys plock s0"
  shows "(\<forall>t u. critical (pc t) \<and> critical (pc u) \<longrightarrow> t = u) \<and>
         (\<forall>t. pc t = Inside \<longrightarrow> holder (locks s plock) = t \<and> holder_repeat_nr (locks s plock) \<noteq> 0) \<and>
         (if sema_value s (Lock_sema plock) = 0 then \<exists>t. critical (pc t)
          else sema_value s (Lock_sema plock) = 1 \<and> (\<forall>t. \<not> critical (pc t)))"
proof -
  obtain a ws where "lock_inv phys plock s pc a ws" using lreach_start [OF assms] by blast
  note ow = lock_invD(4) [OF this]
  have u: "v = 0 \<and> (\<forall>u. u \<noteq> r \<longrightarrow> \<not> critical (pc u)) \<and> owned_by (locks s plock) r (pc r)"
    if "critical (pc r)" "v = sema_value s (Lock_sema plock)" for r v
    using owner_unique [OF ow that(1)] that(2) by simp
  have "\<forall>t u. critical (pc t) \<and> critical (pc u) \<longrightarrow> t = u" using u by blast
  moreover have "\<forall>t. pc t = Inside \<longrightarrow> holder (locks s plock) = t \<and> holder_repeat_nr (locks s plock) \<noteq> 0"
    using u by (force simp: owned_by_def)
  moreover have "if sema_value s (Lock_sema plock) = 0 then \<exists>t. critical (pc t)
      else sema_value s (Lock_sema plock) = 1 \<and> (\<forall>t. \<not> critical (pc t))"
    using ow by (auto simp: owner_def split: if_splits)
  ultimately show ?thesis by blast
qed

text \<open>A kernel with a running thread, an idle thread, and a free lock with an empty queue.\<close>

definition demo_locked :: kstate where
  "demo_locked = list_init (klist (Waiters (Lock_sema Console_lock))) demo_kernel"

lemma demo_locked_start: "lock_start (\<lambda>_. 0) Console_lock demo_locked"
proof -
  have "sched_ok (\<lambda>_. 0) demo_locked demo_asched"
    using demo_sched_ok
    by (auto simp: demo_locked_def sched_ok_def sched_abs_def list_init_def queue_def dll_def
        demo_asched_def)
  moreover have "queue demo_locked (Waiters (Lock_sema Console_lock)) []"
    by (simp add: queue_def demo_locked_def list_init_dll)
  ultimately show ?thesis
    by (auto simp: lock_start_def lock_free_def demo_locked_def list_init_def demo_kernel_def)
qed

lemma demo_locked_run: "running demo_locked = 0xc009e000" "idle_thread demo_locked = 0xc0100000"
  "locks demo_locked Console_lock = \<lparr>holder = 0, holder_repeat_nr = 0\<rparr>"
  "sema_value demo_locked (Lock_sema Console_lock) = 1"
  by (simp_all add: demo_locked_def list_init_def demo_kernel_def)

text \<open>The running thread has entered and taken the semaphore.\<close>

lemma demo_locked_reach:
  "lreach Console_lock (demo_locked, \<lambda>_. Outside)
     (demo_locked\<lparr>sema_value := (sema_value demo_locked)(Lock_sema Console_lock := 0)\<rparr>,
      (\<lambda>_. Outside)(0xc009e000 := Got))"
proof -
  let ?s = "demo_locked\<lparr>sema_value := (sema_value demo_locked)(Lock_sema Console_lock := 0)\<rparr>"
  have "lstep Console_lock (demo_locked, \<lambda>_. Outside)
      (demo_locked, (\<lambda>_. Outside)(running demo_locked := At_down))"
    by (rule lstep.enter) (simp_all add: demo_locked_run)
  moreover have "lstep Console_lock (demo_locked, (\<lambda>_. Outside)(running demo_locked := At_down))
      (?s, ((\<lambda>_. Outside)(running demo_locked := At_down))(running demo_locked :=
        if True then Got else Sleeping (intr_get_status demo_locked)))"
    by (rule lstep.down) (simp_all add: sema_down_free demo_locked_run)
  ultimately have "lreach Console_lock (demo_locked, \<lambda>_. Outside)
      (?s, ((\<lambda>_. Outside)(running demo_locked := At_down))(running demo_locked := Got))"
    unfolding if_True fun_upd_upd by (rule lreach.lmore [OF lreach.lmore [OF lreach.lstart]])
  then show ?thesis by (simp add: demo_locked_run)
qed

theorem lock_mutual_exclusion_witness:
  "\<exists>s pc. lreach Console_lock (demo_locked, \<lambda>_. Outside) (s, pc) \<and> critical (pc 0xc009e000) \<and>
     (\<forall>u. critical (pc u) \<longrightarrow> u = 0xc009e000)"
  using lock_mutual_exclusion [OF demo_locked_reach demo_locked_start] demo_locked_reach
  by (metis critical_simps(4) fun_upd_same)

text \<open>C27: in every reachable interleaving the next step of the running thread succeeds: no
  assertion of \<open>sema_down\<close>, \<open>sema_up\<close>, \<open>thread_block\<close> or \<open>thread_unblock\<close> fails, and a thread
  inside passes the assertions of \<open>lock_release\<close>.\<close>

theorem lock_operations_never_fail:
  assumes "lreach plock (s0, \<lambda>_. Outside) (s, pc)" and "lock_start phys plock s0"
  shows "(pc (running s) = At_down \<longrightarrow> (\<exists>r. sema_down (Lock_sema plock) s = Inr r)) \<and>
         (\<forall>old. pc (running s) = Sleeping old \<longrightarrow> (\<exists>r. sema_down_again (Lock_sema plock) old s = Inr r)) \<and>
         (pc (running s) = At_up \<longrightarrow> (\<exists>r. sema_up (Lock_sema plock) s = Inr r)) \<and>
         (pc (running s) = Inside \<longrightarrow> (\<exists>r. lock_release plock s = Inr r))"
proof -
  obtain a ws where inv: "lock_inv phys plock s pc a ws" using lreach_start [OF assms] by blast
  note i = lock_invD [OF inv]
  have "\<exists>r. lock_release plock s = Inr r" if r: "pc (running s) = Inside"
  proof -
    from owner_unique [OF i(4), of "running s"] r
    have o: "sema_value s (Lock_sema plock) = 0" "holder (locks s plock) = running s"
      "holder_repeat_nr (locks s plock) \<noteq> 0" by (auto simp: owned_by_def)
    show ?thesis
    proof (cases "holder_repeat_nr (locks s plock) > 1")
      case True
      with o show ?thesis by (simp add: lock_release_def)
    next
      case False
      then have one: "holder_repeat_nr (locks s plock) = 1"
        using u32_one o(3) by blast
      let ?s = "set_repeat plock (holder_repeat_nr (locks (set_holder plock 0 s) plock) - 1) (set_holder plock 0 s)"
      have "sched_ok phys ?s a" "queue ?s (Waiters (Lock_sema plock)) (map General_tag ws)"
        "sema_value ?s (Lock_sema plock) = 0"
        using i(1,2) o(1) by (simp_all add: set_repeat_def set_holder_def)
      from sema_up_ok [OF this(1,2) i(5) this(3)] o one show ?thesis
        by (auto simp: lock_release_def Let_def)
    qed
  qed
  then show ?thesis
    using lock_inv_down [OF inv] lock_inv_down_again [OF inv] lock_inv_up [OF inv] by blast
qed

theorem lock_operations_never_fail_witness:
  "\<exists>r. sema_down (Lock_sema Console_lock) demo_locked = Inr r"
proof -
  have "lstep Console_lock (demo_locked, \<lambda>_. Outside)
      (demo_locked, (\<lambda>_. Outside)(running demo_locked := At_down))"
    by (rule lstep.enter) (simp_all add: demo_locked_run)
  then have "lreach Console_lock (demo_locked, \<lambda>_. Outside)
      (demo_locked, (\<lambda>_. Outside)(running demo_locked := At_down))"
    by (rule lreach.lmore [OF lreach.lstart])
  from lock_operations_never_fail [OF this demo_locked_start] show ?thesis by simp
qed

text \<open>C10: no wake-up is lost.  In every interleaving of the operations on a lock, from a kernel in which
  nobody holds it or waits for it: whenever the lock is free and threads are still queued on it,
  another waiter has already been taken off the queue and is ready or running, so it will try
  again.\<close>

theorem no_lost_wakeup:
  assumes "lreach plock (s0, \<lambda>_. Outside) (s, pc)" and "lock_start phys plock s0"
    and "sema_value s (Lock_sema plock) = 1" and "queue s (Waiters (Lock_sema plock)) ws" and "ws \<noteq> []"
  shows "\<exists>t old p. pc t = Sleeping old \<and> General_tag t \<notin> set ws \<and> tasks s t = Some p \<and>
           (status p = TASK_READY \<or> status p = TASK_RUNNING)"
proof -
  obtain a vs where inv: "lock_inv phys plock s pc a vs" using lreach_start [OF assms(1,2)] by blast
  note i = lock_invD [OF inv]
  have ws: "(x \<in> set ws) = (x \<in> set (map General_tag vs))" for x
  proof -
    have "q_find (Waiters (Lock_sema plock)) x s = Inr (x \<in> set ws)" using q_find_ok [OF assms(4)] .
    with q_find_ok [OF i(2), of x] show ?thesis by simp
  qed
  obtain x where "x \<in> set ws" using assms(5) by (cases ws) auto
  then have "vs \<noteq> []" using ws by auto
  then obtain t old where t: "pc t = Sleeping old" "t \<notin> set vs"
    using inv assms(3) by (auto simp: lock_inv_def)
  then have st: "a_status a t = Some TASK_READY \<or> a_status a t = Some TASK_RUNNING"
    using i(3) by (auto simp: wait_ok_def)
  have "a_status a t = map_option status (tasks s t)"
    using sched_absD(2) [OF sched_ok_running(5) [OF i(1)]] .
  with st obtain p where "tasks s t = Some p" "status p = TASK_READY \<or> status p = TASK_RUNNING"
    by (cases "tasks s t") auto
  moreover have "General_tag t \<notin> set ws" using ws t(2) by auto
  ultimately show ?thesis using t(1) by blast
qed

text \<open>
  A run followed on the abstract scheduler: what is reached, the threads and the queue of the lock
  there, the semaphore's value and the lock's record.
\<close>

definition lock_run :: "(u32 \<Rightarrow> u32) \<Rightarrow> lock_id \<Rightarrow> 'z kstate_scheme \<Rightarrow> u32 \<Rightarrow> (u32 \<Rightarrow> lpc) \<Rightarrow> asched \<Rightarrow> u32 list \<Rightarrow>
    u8 \<Rightarrow> lock \<Rightarrow> 'z kstate_scheme \<Rightarrow> bool" where
  "lock_run phys plock s0 idle pc a ws v lk s \<longleftrightarrow>
     lreach plock (s0, \<lambda>_. Outside) (s, pc) \<and> lock_inv phys plock s pc a ws \<and> idle_thread s = idle \<and>
     sema_value s (Lock_sema plock) = v \<and> locks s plock = lk"

lemma lock_run_running: "lock_run phys plock s0 idle pc a ws v lk s \<Longrightarrow> running s = a_running a"
  using lock_invD(1) sched_ok_running(1) by (fastforce simp: lock_run_def)

lemma lock_run_enter:
  assumes "lock_run phys plock s0 idle pc a ws v lk s" and "a_running a = r" and "pc r = Outside"
    and "r \<noteq> idle" and "holder lk \<noteq> r"
  shows "lock_run phys plock s0 idle (pc(r := At_down)) a ws v lk s"
proof -
  have r: "running s = r" using lock_run_running [OF assms(1)] assms(2) by simp
  have "lstep plock (s, pc) (s, pc(running s := At_down))"
    by (rule lstep.enter) (use assms r in \<open>simp_all add: lock_run_def\<close>)
  then show ?thesis using assms r lock_inv_enter [of phys plock s pc a ws]
    unfolding lock_run_def by (auto intro: lreach.lmore simp del: fun_upd_apply)
qed

lemma lock_run_down:
  assumes "lock_run phys plock s0 idle pc a ws v lk s" and "a_running a = r" and "pc r = At_down"
  shows "\<exists>s' old. if v = 1 then lock_run phys plock s0 idle (pc(r := Got)) a ws 0 lk s'
           else lock_run phys plock s0 idle (pc(r := Sleeping old)) (a_block idle TASK_BLOCKED a) (ws @ [r]) 0 lk s'"
proof -
  have r: "running s = r" using lock_run_running [OF assms(1)] assms(2) by simp
  have inv: "lock_inv phys plock s pc a ws" and at: "pc (running s) = At_down"
    and l: "lreach plock (s0, \<lambda>_. Outside) (s, pc)"
    and f: "idle_thread s = idle" "sema_value s (Lock_sema plock) = v" "locks s plock = lk"
    using assms r by (auto simp: lock_run_def)
  from lock_inv_down [OF inv at] obtain s' where
    s': "sema_down (Lock_sema plock) s = Inr (sema_value s (Lock_sema plock) = 1, s')"
    "lock_after_down phys plock s (intr_get_status s) pc a ws s'" by blast
  from lreach.lmore [OF l lstep.down [where pc = pc and s = s, OF at s'(1)]] s'(2) r f show ?thesis
    unfolding lock_run_def lock_after_down_def
    by (intro exI [of _ s'] exI [of _ "intr_get_status s"]) (auto simp del: fun_upd_apply simp add: fun_upd_same)
qed

lemma lock_run_timer:
  assumes "lock_run phys plock s0 idle pc a ws v lk s"
  shows "\<exists>s'. lock_run phys plock s0 idle pc (a_schedule idle a) ws v lk s'"
proof -
  from assms lock_inv_timer [of phys plock s pc a ws] obtain s' where
    "schedule s = Inr s'" "lock_inv phys plock s' pc (a_schedule idle a) ws" "kframe s s'"
    by (auto simp: lock_run_def)
  moreover from this(1) have "lreach plock (s0, \<lambda>_. Outside) (s', pc)"
    using lreach.lmore [OF _ lstep.timer] assms by (fastforce simp: lock_run_def)
  ultimately have "lock_run phys plock s0 idle pc (a_schedule idle a) ws v lk s'"
    using assms by (simp add: lock_run_def kframe_def)
  then show ?thesis by blast
qed

text \<open>A step of the owner.\<close>

lemma lock_run_own:
  assumes "lock_run phys plock s0 idle pc a ws v lk s" and "a_running a = r" and "critical (pc r)"
    and "critical p" and "owned_by lk' r p"
    and "running s = r \<Longrightarrow> locks s plock = lk \<Longrightarrow>
      lstep plock (s, pc) (s\<lparr>locks := (locks s)(plock := lk')\<rparr>, pc(r := p))"
  shows "\<exists>s'. lock_run phys plock s0 idle (pc(r := p)) a ws v lk' s'"
proof -
  have r: "running s = r" using lock_run_running [OF assms(1)] assms(2) by simp
  have i: "lock_inv phys plock s pc a ws" "lreach plock (s0, \<lambda>_. Outside) (s, pc)" "locks s plock = lk"
    using assms(1) by (auto simp: lock_run_def)
  let ?s = "s\<lparr>locks := (locks s)(plock := lk')\<rparr>"
  have "lock_inv phys plock ?s (pc(r := p)) a ws"
    using lock_inv_owner [OF i(1), of p lk'] assms(3-5) r by simp
  moreover have "lreach plock (s0, \<lambda>_. Outside) (?s, pc(r := p))" by (rule lreach.lmore [OF i(2) assms(6) [OF r i(3)]])
  ultimately have "lock_run phys plock s0 idle (pc(r := p)) a ws v lk' ?s"
    using assms(1) by (simp add: lock_run_def)
  then show ?thesis by blast
qed

lemma lock_run_up:
  assumes "lock_run phys plock s0 idle pc a ws v lk s" and "a_running a = r" and "pc r = At_up"
  shows "\<exists>s'. lock_run phys plock s0 idle (pc(r := Outside)) (if ws = [] then a else a_wake (hd ws) a) (tl ws) 1 lk s'"
proof -
  have r: "running s = r" using lock_run_running [OF assms(1)] assms(2) by simp
  have i: "lock_inv phys plock s pc a ws" "lreach plock (s0, \<lambda>_. Outside) (s, pc)" and at: "pc (running s) = At_up"
    using assms r by (auto simp: lock_run_def)
  from lock_inv_up [OF i(1) at] obtain s' where
    s': "sema_up (Lock_sema plock) s = Inr s'"
    "lock_inv phys plock s' (pc(running s := Outside)) (if ws = [] then a else a_wake (hd ws) a) (tl ws)"
    "sema_value s' (Lock_sema plock) = 1" "locks s' = locks s" "idle_thread s' = idle_thread s" by blast
  have "lreach plock (s0, \<lambda>_. Outside) (s', pc(running s := Outside))"
    by (rule lreach.lmore [OF i(2) lstep.up [where pc = pc and s = s, OF at s'(1)]])
  with s'(2-5) assms(1) have
    "lock_run phys plock s0 idle (pc(r := Outside)) (if ws = [] then a else a_wake (hd ws) a) (tl ws) 1 lk s'"
    unfolding lock_run_def r by simp
  then show ?thesis by blast
qed

text \<open>The owner passes through the lock: the record is written, the thread is inside, the record is cleared.\<close>

lemma lock_run_release:
  assumes "lock_run phys plock s0 idle pc a ws v lk s" and "a_running a = r" and "pc r = Got"
  shows "\<exists>s'. lock_run phys plock s0 idle (pc(r := Outside)) (if ws = [] then a else a_wake (hd ws) a) (tl ws) 1
           \<lparr>holder = 0, holder_repeat_nr = 0\<rparr> s'"
proof -
  note sets = owned_by_def set_holder_def set_repeat_def
  have "\<exists>s'. lock_run phys plock s0 idle (pc(r := Held_set)) a ws v (lk\<lparr>holder := r\<rparr>) s'"
    using lock_run_own [OF assms(1) assms(2), of Held_set "lk\<lparr>holder := r\<rparr>"] lstep.write_holder [of pc s plock] assms(3)
    by (force simp: sets lock_eta)
  then obtain s1 where 1: "lock_run phys plock s0 idle (pc(r := Held_set)) a ws v (lk\<lparr>holder := r\<rparr>) s1" by blast
  have "\<exists>s'. lock_run phys plock s0 idle (pc(r := Inside)) a ws v (\<lparr>holder = r, holder_repeat_nr = 1\<rparr>) s'"
    using lock_run_own [OF 1 assms(2), of Inside "\<lparr>holder = r, holder_repeat_nr = 1\<rparr>"] lstep.write_repeat [of "pc(r := Held_set)" s1 plock]
    by (force simp: sets lock_eta)
  then obtain s2 where 2: "lock_run phys plock s0 idle (pc(r := Inside)) a ws v (\<lparr>holder = r, holder_repeat_nr = 1\<rparr>) s2" by blast
  have "\<exists>s'. lock_run phys plock s0 idle (pc(r := Cleared)) a ws v (\<lparr>holder = 0, holder_repeat_nr = 1\<rparr>) s'"
    using lock_run_own [OF 2 assms(2), of Cleared "\<lparr>holder = 0, holder_repeat_nr = 1\<rparr>"] lstep.clear_holder [of "pc(r := Inside)" s2 plock]
    by (force simp: sets lock_eta)
  then obtain s3 where 3: "lock_run phys plock s0 idle (pc(r := Cleared)) a ws v (\<lparr>holder = 0, holder_repeat_nr = 1\<rparr>) s3" by blast
  have "\<exists>s'. lock_run phys plock s0 idle (pc(r := At_up)) a ws v (\<lparr>holder = 0, holder_repeat_nr = 0\<rparr>) s'"
    using lock_run_own [OF 3 assms(2), of At_up "\<lparr>holder = 0, holder_repeat_nr = 0\<rparr>"] lstep.clear_repeat [of "pc(r := Cleared)" s3 plock]
    by (force simp: sets lock_eta)
  then obtain s4 where 4: "lock_run phys plock s0 idle (pc(r := At_up)) a ws v (\<lparr>holder = 0, holder_repeat_nr = 0\<rparr>) s4" by blast
  from lock_run_up [OF 4 assms(2)] show ?thesis by simp
qed

text \<open>
  A kernel with four threads: \<open>0xc009e000\<close> runs, \<open>0xc0101000\<close> and \<open>0xc0102000\<close> are ready, the idle thread
  \<open>0xc0100000\<close> sleeps; nobody uses the lock of the console.
\<close>

definition demo_crew :: kstate where
  "demo_crew = demo_kernel
     \<lparr>nprev := (\<lambda>_. None)(Tail Thread_ready_list \<mapsto> Elem (General_tag 0xc0102000),
        Elem (General_tag 0xc0102000) \<mapsto> Elem (General_tag 0xc0101000),
        Elem (General_tag 0xc0101000) \<mapsto> Head Thread_ready_list,
        Tail (Waiters (Lock_sema Console_lock)) \<mapsto> Head (Waiters (Lock_sema Console_lock))),
      nnext := (\<lambda>_. None)(Head Thread_ready_list \<mapsto> Elem (General_tag 0xc0101000),
        Elem (General_tag 0xc0101000) \<mapsto> Elem (General_tag 0xc0102000),
        Elem (General_tag 0xc0102000) \<mapsto> Tail Thread_ready_list,
        Head (Waiters (Lock_sema Console_lock)) \<mapsto> Tail (Waiters (Lock_sema Console_lock))),
      tasks := (\<lambda>_. None)(0xc009e000 \<mapsto> demo_task TASK_RUNNING, 0xc0100000 \<mapsto> demo_task TASK_BLOCKED,
        0xc0101000 \<mapsto> demo_task TASK_READY, 0xc0102000 \<mapsto> demo_task TASK_READY)\<rparr>"

definition demo_crew_sched :: asched where
  "demo_crew_sched = \<lparr>a_ready = [0xc0101000, 0xc0102000],
     a_status = (\<lambda>_. None)(0xc009e000 \<mapsto> TASK_RUNNING, 0xc0100000 \<mapsto> TASK_BLOCKED,
       0xc0101000 \<mapsto> TASK_READY, 0xc0102000 \<mapsto> TASK_READY), a_running = 0xc009e000\<rparr>"

lemma demo_crew_start:
  "sched_ok (\<lambda>_. 0) demo_crew demo_crew_sched" "lock_start (\<lambda>_. 0) Console_lock demo_crew"
proof -
  note d = demo_crew_def demo_kernel_def demo_crew_sched_def
  have r: "p \<in> ran (tasks demo_crew) \<Longrightarrow> pgdir p = 0" for p
    by (auto simp: d ran_def demo_task_def split: if_splits)
  have "spaces_ok (\<lambda>_. 0) (tasks demo_crew) (cr3 demo_crew) (pmem demo_crew)"
    using r by (auto simp: spaces_ok_def demo_crew_def demo_kernel_def)
  moreover have "sched_abs demo_crew demo_crew_sched"
    by (auto simp: sched_abs_def d queue_def dll_def demo_task_def fun_eq_iff)
  moreover have "a_inv (idle_thread demo_crew) demo_crew_sched"
    by (auto simp: a_inv_def a_pre_def d)
  ultimately show ok: "sched_ok (\<lambda>_. 0) demo_crew demo_crew_sched" by (simp add: sched_ok_def)
  have "queue demo_crew (Waiters (Lock_sema Console_lock)) []" by (simp add: queue_def dll_def d)
  then show "lock_start (\<lambda>_. 0) Console_lock demo_crew"
    using ok by (auto simp: lock_start_def lock_free_def) (simp_all add: d)
qed

text \<open>
  The first thread takes the lock and is interrupted; the other two try, one after the other, and fall
  asleep; the first one releases the lock, which wakes the second, while the third still waits.
\<close>

lemma demo_crew_run:
  "\<exists>s pc a lk o1 o2. lock_run (\<lambda>_. 0) Console_lock demo_crew 0xc0100000 pc a [0xc0102000] 1 lk s \<and>
     pc = (\<lambda>_. Outside)(0xc0101000 := Sleeping o1, 0xc0102000 := Sleeping o2)"
proof -
  let ?run = "lock_run (\<lambda>_. 0) Console_lock demo_crew 0xc0100000"
  let ?lk = "\<lparr>holder = 0, holder_repeat_nr = 0\<rparr>" and ?pc = "\<lambda>_ :: u32. Outside" and ?a0 = demo_crew_sched
  let ?A = "0xc009e000" and ?B = "0xc0101000" and ?C = "0xc0102000"
  let ?a1 = "a_schedule 0xc0100000 ?a0"
  let ?a2 = "a_block 0xc0100000 TASK_BLOCKED ?a1"
  let ?a3 = "a_block 0xc0100000 TASK_BLOCKED ?a2"
  note step = a_schedule_def a_requeue_def a_idle_def a_dispatch_def a_block_def a_set_def demo_crew_sched_def
  have 0: "?run ?pc ?a0 [] 1 ?lk demo_crew"
    using lock_free_inv [OF demo_crew_start(1)] demo_crew_start(2)
    by (simp add: lock_run_def lock_start_def lock_free_def lreach.lstart)
      (simp add: demo_crew_def demo_kernel_def)
  from lock_run_enter [OF 0, of ?A] have "?run (?pc(?A := At_down)) ?a0 [] 1 ?lk demo_crew" by (simp add: step)
  from lock_run_down [OF this, of ?A] obtain s1 where "?run (?pc(?A := Got)) ?a0 [] 0 ?lk s1" by (auto simp: step)
  from lock_run_timer [OF this] obtain s2 where "?run (?pc(?A := Got)) ?a1 [] 0 ?lk s2" by blast
  from lock_run_enter [OF this, of ?B] have "?run (?pc(?A := Got, ?B := At_down)) ?a1 [] 0 ?lk s2" by (simp add: step)
  from lock_run_down [OF this, of ?B] obtain s3 o1 where
    "?run (?pc(?A := Got, ?B := Sleeping o1)) ?a2 [?B] 0 ?lk s3" by (auto simp: step)
  from lock_run_enter [OF this, of ?C] have
    "?run (?pc(?A := Got, ?B := Sleeping o1, ?C := At_down)) ?a2 [?B] 0 ?lk s3" by (simp add: step)
  from lock_run_down [OF this, of ?C] obtain s4 o2 where
    "?run (?pc(?A := Got, ?B := Sleeping o1, ?C := Sleeping o2)) ?a3 [?B, ?C] 0 ?lk s4" by (auto simp: step)
  from lock_run_release [OF this, of ?A] have
    "\<exists>s5. ?run (?pc(?A := Got, ?B := Sleeping o1, ?C := Sleeping o2, ?A := Outside)) (a_wake ?B ?a3) [?C] 1 ?lk s5"
    by (simp add: step)
  moreover have "?pc(?A := Got, ?B := Sleeping o1, ?C := Sleeping o2, ?A := Outside) =
      ?pc(?B := Sleeping o1, ?C := Sleeping o2)" by (simp add: fun_eq_iff)
  ultimately have "\<exists>s5. ?run (?pc(?B := Sleeping o1, ?C := Sleeping o2)) (a_wake ?B ?a3) [?C] 1 ?lk s5" by (simp only:)
  then show ?thesis by blast
qed

theorem no_lost_wakeup_witness:
  "\<exists>s pc p. lreach Console_lock (demo_crew, \<lambda>_. Outside) (s, pc) \<and> sema_value s (Lock_sema Console_lock) = 1 \<and>
     queue s (Waiters (Lock_sema Console_lock)) [General_tag 0xc0102000] \<and> tasks s 0xc0101000 = Some p \<and>
     (status p = TASK_READY \<or> status p = TASK_RUNNING)"
proof -
  obtain s pc o1 o2 where
    s: "lreach Console_lock (demo_crew, \<lambda>_. Outside) (s, pc)" "sema_value s (Lock_sema Console_lock) = 1"
      "queue s (Waiters (Lock_sema Console_lock)) [General_tag 0xc0102000]"
    and pc: "pc = (\<lambda>_. Outside)(0xc0101000 := Sleeping o1, 0xc0102000 := Sleeping o2)"
    using demo_crew_run lock_invD(2) unfolding lock_run_def by fastforce
  from no_lost_wakeup [OF s(1) demo_crew_start(2) s(2,3)] obtain t old p where
    "pc t = Sleeping old" "t \<noteq> 0xc0102000" "tasks s t = Some p" "status p = TASK_READY \<or> status p = TASK_RUNNING"
    by auto
  with pc s show ?thesis by (auto split: if_splits)
qed

text \<open>Locks are recursive: a thread that acquires a free lock twice holds it until the second
  release, which leaves the kernel as it was.\<close>

theorem lock_is_recursive:
  assumes "lock_free plock s"
  shows "\<exists>s1 s2 s3. lock_acquire plock s = Inr s1 \<and> lock_acquire plock s1 = Inr s2 \<and>
           holder_repeat_nr (locks s2 plock) = 2 \<and> lock_release plock s2 = Inr s3 \<and>
           holder (locks s3 plock) = running s \<and> sema_value s3 (Lock_sema plock) = 0 \<and>
           lock_release plock s3 = Inr (lock_freed plock s)"
proof -
  let ?h = "lock_held plock s"
  have 2: "lock_acquire plock ?h = Inr (set_repeat plock 2 ?h)"
    by (simp add: lock_acquire_def lock_held_def)
  have "set_repeat plock 1 (set_repeat plock 2 ?h) = ?h"
    by (simp add: set_repeat_def lock_held_def)
  then have 3: "lock_release plock (set_repeat plock 2 ?h) = Inr ?h"
    by (simp add: lock_release_def) (simp add: set_repeat_def lock_held_def)
  show ?thesis
    using lock_acquire_free [OF assms] 2 3 lock_release_held [OF assms]
    by (intro exI [of _ ?h] exI [of _ "set_repeat plock 2 ?h"] exI [of _ ?h])
      (simp add: set_repeat_def lock_held_def)
qed

theorem lock_is_recursive_witness:
  "\<exists>s1 s2. lock_acquire Console_lock demo_locked = Inr s1 \<and> lock_acquire Console_lock s1 = Inr s2 \<and>
     holder_repeat_nr (locks s2 Console_lock) = 2"
  using lock_is_recursive [of Console_lock demo_locked] demo_locked_start
  unfolding lock_start_def by blast

end
