(* ===== verification/Memory.thy ===== *)
theory Memory
  imports Sync
begin

text \<open>
  \<open>lib/kernel/memory.c\<close>: the two pools of physical pages and the virtual address pools, the
  mapping of pages, and the block allocator of \<open>sys_malloc\<close> on top of them.  The pools are
  bitmaps (theory Bitmap), the page tables are words of physical memory (theory Paging), the
  locks are those of theory Sync in their sequential form: an operation that would have to wait
  ends in \<open>WouldBlock\<close>.  The header of an arena is a record at the physical frame of its page;
  \<open>NULL\<close> is the address 0.  The messages the functions print are not modelled.

  The bytes of a pool's bitmap run to the end of the region at \<open>0xc009a000\<close>; the bytes behind a
  map, which \<open>bitmap_scan\<close> may read, are kept as they were when the map was set up.
\<close>

section \<open>State\<close>

record pool =
  pool_bitmap :: bitmap
  phy_address_start :: u32
  pool_size :: u32

record arena =
  desc :: "(desc_array \<times> nat) option"
  arena_cnt :: u32
  large :: bool

datatype pool_flags = POOL_FLAG_KERNEL | POOL_FLAG_USER

record mstate = kstate +
  kernel_pool :: pool
  user_pool :: pool
  kernel_vaddr :: virtual_addr
  k_block_descs :: "mem_block_desc list"
  arenas :: "u32 \<Rightarrow> arena option"

definition PG_SIZE :: u32 where
  "PG_SIZE = 4096"

definition get_pool :: "pool_flags \<Rightarrow> 'z mstate_scheme \<Rightarrow> pool" where
  "get_pool pf s = (case pf of POOL_FLAG_KERNEL \<Rightarrow> kernel_pool s | POOL_FLAG_USER \<Rightarrow> user_pool s)"

definition set_pool :: "pool_flags \<Rightarrow> pool \<Rightarrow> 'z mstate_scheme \<Rightarrow> 'z mstate_scheme" where
  "set_pool pf p s = (case pf of POOL_FLAG_KERNEL \<Rightarrow> s\<lparr>kernel_pool := p\<rparr> | POOL_FLAG_USER \<Rightarrow> s\<lparr>user_pool := p\<rparr>)"

definition pool_lock :: "pool_flags \<Rightarrow> lock_id" where
  "pool_lock pf = (case pf of POOL_FLAG_KERNEL \<Rightarrow> Kernel_pool_lock | POOL_FLAG_USER \<Rightarrow> User_pool_lock)"

section \<open>Initialisation\<close>

definition mem_block_desc_size :: "u16 \<Rightarrow> mem_block_desc" where
  "mem_block_desc_size sz = \<lparr>block_size = ucast sz, blocks_pre_arena = (PG_SIZE - 12) div ucast sz\<rparr>"

fun block_desc_loop :: "desc_array \<Rightarrow> nat \<Rightarrow> nat \<Rightarrow> u16 \<Rightarrow> 'z kstate_scheme \<Rightarrow>
    mem_block_desc list \<times> 'z kstate_scheme" where
  "block_desc_loop arr i 0 sz s = ([], s)"
| "block_desc_loop arr i (Suc n) sz s =
     (let s1 = list_init (klist (Free_list arr i)) s;
          (ds, s2) = block_desc_loop arr (Suc i) n (sz * 2) s1
      in (mem_block_desc_size sz # ds, s2))"

definition block_desc_init :: "desc_array \<Rightarrow> 'z kstate_scheme \<Rightarrow> mem_block_desc list \<times> 'z kstate_scheme" where
  "block_desc_init desc_array s = block_desc_loop desc_array 0 7 16 s"

text \<open>\<open>mem\<close>: the bytes at \<open>0xc009a000\<close>, where the bitmaps are placed one behind the other.\<close>

definition mem_pool_init :: "buf \<Rightarrow> u32 \<Rightarrow> 'z mstate_scheme \<Rightarrow> 'z mstate_scheme res" where
  "mem_pool_init mem total_mem s =
     (let page_table_size = PG_SIZE * 256;
          used_mem = 0x100000 + page_table_size;
          free_mem = total_mem - used_mem;
          all_free_page = free_mem div PG_SIZE;
          kernel_free_page = all_free_page div 2;
          user_free_page = all_free_page - kernel_free_page;
          kernel_btmp_bytes_len = unat (drop_bit 3 kernel_free_page);
          user_btmp_bytes_len = unat (drop_bit 3 user_free_page);
          kernel_pool_start = used_mem;
          user_pool_start = kernel_pool_start + kernel_free_page * PG_SIZE
      in
      bindE (bitmap_init \<lparr>btmp_bytes_len = kernel_btmp_bytes_len, bits = mem\<rparr>) (\<lambda>kb.
      bindE (bitmap_init \<lparr>btmp_bytes_len = user_btmp_bytes_len,
                          bits = drop kernel_btmp_bytes_len (bits kb)\<rparr>) (\<lambda>ub.
      bindE (bitmap_init \<lparr>btmp_bytes_len = kernel_btmp_bytes_len,
                          bits = drop user_btmp_bytes_len (bits ub)\<rparr>) (\<lambda>vb.
        let s1 = s\<lparr>kernel_pool := \<lparr>pool_bitmap = kb, phy_address_start = kernel_pool_start,
                                    pool_size = kernel_free_page * PG_SIZE\<rparr>,
                   user_pool := \<lparr>pool_bitmap = ub, phy_address_start = user_pool_start,
                                  pool_size = user_free_page * PG_SIZE\<rparr>,
                   kernel_vaddr := \<lparr>vaddr_bitmap = vb, vaddr_start = 0xc0100000\<rparr>\<rparr>
        in Inr (lock_init User_pool_lock (lock_init Kernel_pool_lock s1))))))"

text \<open>\<open>mem_bytes_total\<close>: the word the loader left at \<open>0xb00\<close>.\<close>

definition mem_init :: "buf \<Rightarrow> u32 \<Rightarrow> 'z mstate_scheme \<Rightarrow> 'z mstate_scheme res" where
  "mem_init mem mem_bytes_total s =
     bindE (assertE (mem_bytes_total = 0x2000000)) (\<lambda>_.
     bindE (mem_pool_init mem mem_bytes_total s) (\<lambda>s1.
       let (ds, s2) = block_desc_init K_block_descs s1 in Inr (s2\<lparr>k_block_descs := ds\<rparr>)))"

section \<open>Pages\<close>

fun bitmap_set_run :: "bitmap \<Rightarrow> nat \<Rightarrow> nat \<Rightarrow> bitmap res" where
  "bitmap_set_run b i 0 = Inr b"
| "bitmap_set_run b i (Suc n) = bindE (bitmap_set b i 1) (\<lambda>b'. bitmap_set_run b' (Suc i) n)"

text \<open>\<open>bitmap_scan\<close> returns an \<open>int\<close>; its use as an index converts it to \<open>uint32_t\<close>.\<close>

definition u32_idx :: "int \<Rightarrow> nat" where
  "u32_idx i = unat (word_of_int i :: u32)"

definition vadder_get :: "pool_flags \<Rightarrow> nat \<Rightarrow> 'z mstate_scheme \<Rightarrow> (u32 \<times> 'z mstate_scheme) res" where
  "vadder_get pf pg_cnt s =
     (case pf of
        POOL_FLAG_KERNEL \<Rightarrow>
          bindE (bitmap_scan (vaddr_bitmap (kernel_vaddr s)) pg_cnt) (\<lambda>bit_idx_start.
          if bit_idx_start = -1 then Inr (0, s)
          else
            let vaddr_start = vaddr_start (kernel_vaddr s) + word_of_int bit_idx_start * PG_SIZE in
            bindE (bitmap_set_run (vaddr_bitmap (kernel_vaddr s)) (u32_idx bit_idx_start) pg_cnt) (\<lambda>b.
              Inr (vaddr_start, s\<lparr>kernel_vaddr := (kernel_vaddr s)\<lparr>vaddr_bitmap := b\<rparr>\<rparr>)))
      | POOL_FLAG_USER \<Rightarrow>
          bindE (get_task (running s) s) (\<lambda>cur_thread.
          let v = userprog_vadder cur_thread in
          bindE (bitmap_scan (vaddr_bitmap v) pg_cnt) (\<lambda>bit_idx_start.
          if bit_idx_start = -1 then Inr (0, s)
          else
            bindE (bitmap_set_run (vaddr_bitmap v) (u32_idx bit_idx_start) pg_cnt) (\<lambda>b.
            let s1 = set_task (running s) (cur_thread\<lparr>userprog_vadder := v\<lparr>vaddr_bitmap := b\<rparr>\<rparr>) s;
                vaddr_start = vaddr_start v + word_of_int bit_idx_start * PG_SIZE in
            bindE (assertE (vaddr_start < 0xc0000000 - PG_SIZE)) (\<lambda>_. Inr (vaddr_start, s1))))))"

definition palloc :: "pool_flags \<Rightarrow> 'z mstate_scheme \<Rightarrow> (u32 \<times> 'z mstate_scheme) res" where
  "palloc m_pool s =
     (let p = get_pool m_pool s in
      bindE (bitmap_scan (pool_bitmap p) 1) (\<lambda>bit_idx_start.
      if bit_idx_start = -1 then Inr (0, s)
      else
        bindE (bitmap_set (pool_bitmap p) (u32_idx bit_idx_start) 1) (\<lambda>b.
          Inr (word_of_int bit_idx_start * PG_SIZE + phy_address_start p,
               set_pool m_pool (p\<lparr>pool_bitmap := b\<rparr>) s))))"

text \<open>\<open>memset(page, 0, PG_SIZE)\<close>: the words of the frame become zero, an arena header in it too.\<close>

definition zero_page :: "u32 \<Rightarrow> 'z mstate_scheme \<Rightarrow> 'z mstate_scheme res" where
  "zero_page v s =
     (case mmu_walk (cr3 s) (pmem s) v of None \<Rightarrow> Inl PageFault
      | Some p \<Rightarrow> Inr (s\<lparr>pmem := \<lambda>a. if frame_of a = frame_of p then 0 else pmem s a,
                        arenas := (arenas s)(frame_of p \<mapsto> \<lparr>desc = None, arena_cnt = 0, large = False\<rparr>)\<rparr>))"

fun zero_pages :: "u32 \<Rightarrow> nat \<Rightarrow> 'z mstate_scheme \<Rightarrow> 'z mstate_scheme res" where
  "zero_pages v 0 s = Inr s"
| "zero_pages v (Suc n) s = bindE (zero_page v s) (zero_pages (v + PG_SIZE) n)"

definition pg_entry :: "u32 \<Rightarrow> u32" where
  "pg_entry paddr = paddr OR 4 OR 2 OR 1"

definition mem_load :: "u32 \<Rightarrow> 'z mstate_scheme \<Rightarrow> u32 res" where
  "mem_load v s = load32 (cr3 s) (pmem s) v"

definition mem_store :: "u32 \<Rightarrow> u32 \<Rightarrow> 'z mstate_scheme \<Rightarrow> 'z mstate_scheme res" where
  "mem_store v x s = bindE (store32 (cr3 s) (pmem s) v x) (\<lambda>pm. Inr (s\<lparr>pmem := pm\<rparr>))"

definition page_table_add :: "u32 \<Rightarrow> u32 \<Rightarrow> 'z mstate_scheme \<Rightarrow> 'z mstate_scheme res" where
  "page_table_add vaddr paddr s =
     (let pde = get_pde_ptr vaddr; pte = get_pte_ptr vaddr in
      bindE (mem_load pde s) (\<lambda>e.
      if e AND 0x00000001 \<noteq> 0 then
        bindE (mem_load pte s) (\<lambda>t.
        bindE (assertE (t AND 0x00000001 = 0)) (\<lambda>_. mem_store pte (pg_entry paddr) s))
      else
        bindE (palloc POOL_FLAG_KERNEL s) (\<lambda>(pde_phy, s1).
        bindE (mem_store pde (pg_entry pde_phy) s1) (\<lambda>s2.
        bindE (zero_page (pte AND 0xfffff000) s2) (\<lambda>s3.
        bindE (mem_load pte s3) (\<lambda>t.
        bindE (assertE (t AND 0x00000001 = 0)) (\<lambda>_. mem_store pte (pg_entry paddr) s3)))))))"

fun malloc_page_loop :: "pool_flags \<Rightarrow> u32 \<Rightarrow> nat \<Rightarrow> 'z mstate_scheme \<Rightarrow> (bool \<times> 'z mstate_scheme) res" where
  "malloc_page_loop pf vaddr 0 s = Inr (True, s)"
| "malloc_page_loop pf vaddr (Suc cnt) s =
     bindE (palloc pf s) (\<lambda>(page_phy, s1).
     if page_phy = 0 then Inr (False, s1)
     else bindE (page_table_add vaddr page_phy s1) (malloc_page_loop pf (vaddr + PG_SIZE) cnt))"

definition malloc_page :: "pool_flags \<Rightarrow> nat \<Rightarrow> 'z mstate_scheme \<Rightarrow> (u32 \<times> 'z mstate_scheme) res" where
  "malloc_page pf pg_cnt s =
     bindE (assertE (pg_cnt > 0)) (\<lambda>_.
     bindE (vadder_get pf pg_cnt s) (\<lambda>(vadder_start, s1).
     if vadder_start = 0 then Inr (0, s1)
     else bindE (malloc_page_loop pf vadder_start pg_cnt s1) (\<lambda>(ok, s2).
       Inr (if ok then vadder_start else 0, s2))))"

definition get_pages :: "pool_flags \<Rightarrow> nat \<Rightarrow> 'z mstate_scheme \<Rightarrow> (u32 \<times> 'z mstate_scheme) res" where
  "get_pages pf pg_cnt s =
     bindE (lock_acquire (pool_lock pf) s) (\<lambda>s1.
     bindE (malloc_page pf pg_cnt s1) (\<lambda>(vaddr, s2).
     bindE (if vaddr \<noteq> 0 then zero_pages vaddr pg_cnt s2 else Inr s2) (\<lambda>s3.
     bindE (lock_release (pool_lock pf) s3) (\<lambda>s4. Inr (vaddr, s4)))))"

definition get_kernel_page :: "nat \<Rightarrow> 'z mstate_scheme \<Rightarrow> (u32 \<times> 'z mstate_scheme) res" where
  "get_kernel_page pg_cnt s = get_pages POOL_FLAG_KERNEL pg_cnt s"

definition get_user_page :: "nat \<Rightarrow> 'z mstate_scheme \<Rightarrow> (u32 \<times> 'z mstate_scheme) res" where
  "get_user_page pg_cnt s = get_pages POOL_FLAG_USER pg_cnt s"

definition get_a_page :: "pool_flags \<Rightarrow> u32 \<Rightarrow> 'z mstate_scheme \<Rightarrow> (u32 \<times> 'z mstate_scheme) res" where
  "get_a_page pf vaddr s =
     bindE (lock_acquire (pool_lock pf) s) (\<lambda>s1.
     bindE (get_task (running s1) s1) (\<lambda>cur_thread.
     bindE (if pgdir cur_thread \<noteq> 0 \<and> pf = POOL_FLAG_USER then
              let v = userprog_vadder cur_thread;
                  bit_idx_start = (vaddr - vaddr_start v) div PG_SIZE in
              bindE (assertE (1 \<le> sint bit_idx_start)) (\<lambda>_.
              bindE (bitmap_set (vaddr_bitmap v) (unat bit_idx_start) 1) (\<lambda>b.
                Inr (set_task (running s1) (cur_thread\<lparr>userprog_vadder := v\<lparr>vaddr_bitmap := b\<rparr>\<rparr>) s1)))
            else if pgdir cur_thread = 0 \<and> pf = POOL_FLAG_KERNEL then
              let v = kernel_vaddr s1;
                  bit_idx_start = (vaddr - vaddr_start v) div PG_SIZE in
              bindE (bitmap_set (vaddr_bitmap v) (unat bit_idx_start) 1) (\<lambda>b.
                Inr (s1\<lparr>kernel_vaddr := v\<lparr>vaddr_bitmap := b\<rparr>\<rparr>))
            else Inl Panic_call) (\<lambda>s2.
     bindE (palloc pf s2) (\<lambda>(page_phy, s3).
     if page_phy = 0 then Inr (0, s3)
     else bindE (page_table_add vaddr page_phy s3) (\<lambda>s4.
          bindE (lock_release (pool_lock pf) s4) (\<lambda>s5. Inr (vaddr, s5)))))))"

text \<open>Releasing pages.\<close>

definition pfree :: "u32 \<Rightarrow> 'z mstate_scheme \<Rightarrow> 'z mstate_scheme res" where
  "pfree pg_phy_addr s =
     bindE (get_task (running s) s) (\<lambda>cur_thread.
     let pf = if pgdir cur_thread = 0 then POOL_FLAG_KERNEL else POOL_FLAG_USER;
         p = get_pool pf s;
         bit_idx = (pg_phy_addr - phy_address_start p) div PG_SIZE in
     bindE (bitmap_set (pool_bitmap p) (unat bit_idx) 0) (\<lambda>b.
       Inr (set_pool pf (p\<lparr>pool_bitmap := b\<rparr>) s)))"

fun bitmap_clear_run :: "bitmap \<Rightarrow> nat \<Rightarrow> nat \<Rightarrow> bitmap res" where
  "bitmap_clear_run b i 0 = Inr b"
| "bitmap_clear_run b i (Suc pg_cnt) =
     bindE (bitmap_set b (pg_cnt + i) 0) (\<lambda>b'. bitmap_clear_run b' i pg_cnt)"

definition vaddr_remove :: "pool_flags \<Rightarrow> u32 \<Rightarrow> nat \<Rightarrow> 'z mstate_scheme \<Rightarrow> 'z mstate_scheme res" where
  "vaddr_remove pf vaddr pg_cnt s =
     (case pf of
        POOL_FLAG_KERNEL \<Rightarrow>
          let v = kernel_vaddr s; bit_idx_start = (vaddr - vaddr_start v) div PG_SIZE in
          bindE (bitmap_clear_run (vaddr_bitmap v) (unat bit_idx_start) pg_cnt) (\<lambda>b.
            Inr (s\<lparr>kernel_vaddr := v\<lparr>vaddr_bitmap := b\<rparr>\<rparr>))
      | POOL_FLAG_USER \<Rightarrow>
          bindE (get_task (running s) s) (\<lambda>cur_thread.
          let v = userprog_vadder cur_thread; bit_idx_start = (vaddr - vaddr_start v) div PG_SIZE in
          bindE (bitmap_clear_run (vaddr_bitmap v) (unat bit_idx_start) pg_cnt) (\<lambda>b.
            Inr (set_task (running s) (cur_thread\<lparr>userprog_vadder := v\<lparr>vaddr_bitmap := b\<rparr>\<rparr>) s))))"

definition pte_remove :: "u32 \<Rightarrow> 'z mstate_scheme \<Rightarrow> 'z mstate_scheme res" where
  "pte_remove vaddr s =
     bindE (page_table_pte_remove (cr3 s) (pmem s) vaddr) (\<lambda>pm. Inr (s\<lparr>pmem := pm\<rparr>))"

fun mfree_page_loop :: "u32 \<Rightarrow> nat \<Rightarrow> 'z mstate_scheme \<Rightarrow> 'z mstate_scheme res" where
  "mfree_page_loop vaddr 0 s = Inr s"
| "mfree_page_loop vaddr (Suc n) s =
     bindE (mem_load (get_pte_ptr vaddr) s) (\<lambda>t.
     bindE (pfree (t AND 0xfffff000) s) (\<lambda>s1.
     bindE (pte_remove vaddr s1) (mfree_page_loop (vaddr + PG_SIZE) n)))"

definition mfree_page :: "pool_flags \<Rightarrow> u32 \<Rightarrow> nat \<Rightarrow> 'z mstate_scheme \<Rightarrow> 'z mstate_scheme res" where
  "mfree_page pf vaddr pg_cnt s =
     bindE (mfree_page_loop vaddr pg_cnt s) (vaddr_remove pf vaddr pg_cnt)"

section \<open>Blocks\<close>

text \<open>
  \<open>sizeof(struct arena)\<close> is 12.  An arena header is found through the page tables at the frame of
  its page; following a pointer to a page that holds none is outside every object.
\<close>

definition arena2block :: "u32 \<Rightarrow> u32 \<Rightarrow> u32 \<Rightarrow> u32" where
  "arena2block a idx blk_size = a + 12 + idx * blk_size"

definition block2arena :: "u32 \<Rightarrow> u32" where
  "block2arena b = b AND 0xfffff000"

definition arena_frame :: "u32 \<Rightarrow> 'z mstate_scheme \<Rightarrow> u32 res" where
  "arena_frame a s = (case mmu_walk (cr3 s) (pmem s) a of None \<Rightarrow> Inl PageFault | Some p \<Rightarrow> Inr (frame_of p))"

definition get_arena :: "u32 \<Rightarrow> 'z mstate_scheme \<Rightarrow> arena res" where
  "get_arena a s =
     bindE (arena_frame a s) (\<lambda>f. case arenas s f of None \<Rightarrow> Inl OutOfBounds | Some x \<Rightarrow> Inr x)"

definition set_arena :: "u32 \<Rightarrow> arena \<Rightarrow> 'z mstate_scheme \<Rightarrow> 'z mstate_scheme res" where
  "set_arena a x s = bindE (arena_frame a s) (\<lambda>f. Inr (s\<lparr>arenas := (arenas s)(f \<mapsto> x)\<rparr>))"

definition get_descs :: "desc_array \<Rightarrow> 'z mstate_scheme \<Rightarrow> mem_block_desc list res" where
  "get_descs arr s =
     (case arr of K_block_descs \<Rightarrow> Inr (k_block_descs s)
      | U_block_descs t \<Rightarrow> bindE (get_task t s) (\<lambda>p. Inr (u_block_descs p)))"

text \<open>\<open>for (desc_idx = 0; desc_idx < DESC_CNT; desc_idx++) if (size <= descs[desc_idx].block_size) break;\<close>\<close>

fun desc_search :: "mem_block_desc list \<Rightarrow> u32 \<Rightarrow> nat \<Rightarrow> nat" where
  "desc_search [] req i = i"
| "desc_search (d # ds) req i = (if req \<le> block_size d then i else desc_search ds req (Suc i))"

text \<open>\<open>memset\<close> of a block: its words one by one.\<close>

fun zero_words :: "u32 \<Rightarrow> nat \<Rightarrow> 'z mstate_scheme \<Rightarrow> 'z mstate_scheme res" where
  "zero_words v 0 s = Inr s"
| "zero_words v (Suc n) s = bindE (mem_store v 0 s) (zero_words (v + 4) n)"

fun split_arena :: "desc_array \<Rightarrow> nat \<Rightarrow> u32 \<Rightarrow> u32 \<Rightarrow> u32 \<Rightarrow> u32 \<Rightarrow> nat \<Rightarrow> 'z mstate_scheme \<Rightarrow>
    'z mstate_scheme res" where
  "split_arena arr i space a blk_size idx 0 s = Inr s"
| "split_arena arr i space a blk_size idx (Suc n) s =
     bindE (q_append (Free_list arr i) (Free_elem space (arena2block a idx blk_size)) s)
       (split_arena arr i space a blk_size (idx + 1) n)"

definition tag2block :: "ktag \<Rightarrow> u32 res" where
  "tag2block tag = (case tag of Free_elem sp b \<Rightarrow> Inr b | _ \<Rightarrow> Inl OutOfBounds)"

text \<open>Requests above 1024 bytes: whole pages behind an arena header.\<close>

definition malloc_large :: "pool_flags \<Rightarrow> u32 \<Rightarrow> 'z mstate_scheme \<Rightarrow> (u32 \<times> 'z mstate_scheme) res" where
  "malloc_large pf req s1 =
     (let page_cnt = (req + 12 + PG_SIZE - 1) div PG_SIZE in
      bindE (malloc_page pf (unat page_cnt) s1) (\<lambda>(a, s2).
      if a \<noteq> 0 then
        bindE (zero_pages a (unat page_cnt) s2) (\<lambda>s3.
        bindE (set_arena a \<lparr>desc = None, arena_cnt = page_cnt, large = True\<rparr> s3) (\<lambda>s4.
        bindE (lock_release (pool_lock pf) s4) (\<lambda>s5. Inr (a + 12, s5))))
      else bindE (lock_release (pool_lock pf) s2) (\<lambda>s3. Inr (0, s3))))"

text \<open>A new arena for the descriptor \<open>i\<close>; \<open>None\<close> when there is no page for it.\<close>

definition new_arena :: "pool_flags \<Rightarrow> desc_array \<Rightarrow> nat \<Rightarrow> u32 \<Rightarrow> mem_block_desc \<Rightarrow> 'z mstate_scheme \<Rightarrow>
    (bool \<times> 'z mstate_scheme) res" where
  "new_arena pf arr i space d s1 =
     bindE (malloc_page pf 1 s1) (\<lambda>(a, s2).
     if a = 0 then Inr (False, s2)
     else
       bindE (zero_pages a 1 s2) (\<lambda>s3.
       bindE (set_arena a \<lparr>desc = Some (arr, i), arena_cnt = blocks_pre_arena d, large = False\<rparr> s3) (\<lambda>s4.
       bindE (split_arena arr i space a (block_size d) 0 (unat (blocks_pre_arena d)) s4) (\<lambda>s5.
         Inr (True, s5)))))"

definition take_block :: "pool_flags \<Rightarrow> desc_array \<Rightarrow> nat \<Rightarrow> mem_block_desc \<Rightarrow> 'z mstate_scheme \<Rightarrow>
    (u32 \<times> 'z mstate_scheme) res" where
  "take_block pf arr i d s1 =
     bindE (list_len (klist (Free_list arr i)) s1) (\<lambda>_.
     bindE (q_pop (Free_list arr i) s1) (\<lambda>(tag, s2).
     bindE (tag2block tag) (\<lambda>b.
     bindE (zero_words b (unat (block_size d) div 4) s2) (\<lambda>s3.
     let a = block2arena b in
     bindE (get_arena a s3) (\<lambda>x.
     bindE (set_arena a (x\<lparr>arena_cnt := arena_cnt x - 1\<rparr>) s3) (\<lambda>s4.
     bindE (lock_release (pool_lock pf) s4) (\<lambda>s5. Inr (b, s5))))))))"

definition sys_malloc :: "u32 \<Rightarrow> 'z mstate_scheme \<Rightarrow> (u32 \<times> 'z mstate_scheme) res" where
  "sys_malloc req s =
     bindE (get_task (running s) s) (\<lambda>cur_thread.
     let pf = if pgdir cur_thread = 0 then POOL_FLAG_KERNEL else POOL_FLAG_USER;
         arr = if pgdir cur_thread = 0 then K_block_descs else U_block_descs (running s);
         space = pgdir cur_thread
     in if \<not> (req > 0 \<and> req < pool_size (get_pool pf s)) then Inr (0, s)
     else
       bindE (lock_acquire (pool_lock pf) s) (\<lambda>s1.
       if req > 1024 then malloc_large pf req s1
       else
         bindE (get_descs arr s1) (\<lambda>descs.
         let desc_idx = desc_search descs req 0 in
         bindE (rd descs desc_idx) (\<lambda>d.
         bindE (if q_empty (Free_list arr desc_idx) s1 then new_arena pf arr desc_idx space d s1
                else Inr (True, s1)) (\<lambda>(ok, s2).
         if \<not> ok then bindE (lock_release (pool_lock pf) s2) (\<lambda>s3. Inr (0, s3))
         else take_block pf arr desc_idx d s2)))))"

fun remove_blocks :: "u32 \<Rightarrow> u32 \<Rightarrow> u32 \<Rightarrow> u32 \<Rightarrow> nat \<Rightarrow> 'z mstate_scheme \<Rightarrow> 'z mstate_scheme res" where
  "remove_blocks space a blk_size idx 0 s = Inr s"
| "remove_blocks space a blk_size idx (Suc n) s =
     bindE (q_remove (Free_elem space (arena2block a idx blk_size)) s)
       (remove_blocks space a blk_size (idx + 1) n)"

definition free_small :: "pool_flags \<Rightarrow> u32 \<Rightarrow> u32 \<Rightarrow> arena \<Rightarrow> 'z mstate_scheme \<Rightarrow> 'z mstate_scheme res" where
  "free_small pf space ptr x s1 =
     (case desc x of None \<Rightarrow> Inl NullPointer
      | Some (arr, i) \<Rightarrow>
        let a = block2arena ptr in
        bindE (get_descs arr s1) (\<lambda>descs.
        bindE (rd descs i) (\<lambda>d.
        bindE (q_append (Free_list arr i) (Free_elem space ptr) s1) (\<lambda>s2.
        let x' = x\<lparr>arena_cnt := arena_cnt x + 1\<rparr> in
        bindE (set_arena a x' s2) (\<lambda>s3.
        if arena_cnt x' = blocks_pre_arena d then
          bindE (remove_blocks space a (block_size d) 0 (unat (blocks_pre_arena d)) s3)
            (mfree_page pf a 1)
        else Inr s3)))))"

definition sys_free :: "u32 \<Rightarrow> 'z mstate_scheme \<Rightarrow> 'z mstate_scheme res" where
  "sys_free ptr s =
     bindE (assertE (ptr \<noteq> 0)) (\<lambda>_.
     bindE (get_task (running s) s) (\<lambda>cur_thread.
     let pf = if pgdir cur_thread = 0 then POOL_FLAG_KERNEL else POOL_FLAG_USER;
         space = pgdir cur_thread in
     bindE (lock_acquire (pool_lock pf) s) (\<lambda>s1.
     bindE (get_arena (block2arena ptr) s1) (\<lambda>x.
     bindE (if desc x = None \<and> large x then mfree_page pf ptr (unat (arena_cnt x)) s1
            else free_small pf space ptr x s1)
       (lock_release (pool_lock pf))))))"

end
