(* ===== verification/Allocation.thy ===== *)
theory Allocation
  imports Memory
begin

text \<open>
  What the allocators of \<open>lib/kernel/memory.c\<close> promise: which words of physical memory
  \<open>page_table_add\<close> changes and what the processor translates afterwards, the pages \<open>palloc\<close> and
  \<open>get_kernel_page\<close> hand out, the layout \<open>mem_init\<close> sets up, the geometry of arenas, and the
  round trip of \<open>sys_malloc\<close> and \<open>sys_free\<close>.
\<close>

section \<open>Frames and slots\<close>

lemma bit_page_masks2:
  "bit (4092 :: int) n \<longleftrightarrow> 2 \<le> n \<and> n < 12"
  "bit (1048575 :: int) n \<longleftrightarrow> n < 20"
proof -
  have m: "(4092 :: int) = push_bit 2 (mask 10)" "(1048575 :: int) = push_bit 0 (mask 20)"
    by (simp_all add: mask_eq_exp_minus_1 push_bit_eq_mult)
  have p: "bit (push_bit k (mask l :: int)) n \<longleftrightarrow> k \<le> n \<and> n < k + l" for k l
    by (auto simp: bit_push_bit_iff_int bit_mask_iff)
  show "bit (4092 :: int) n \<longleftrightarrow> 2 \<le> n \<and> n < 12" unfolding m(1) p by simp
  show "bit (1048575 :: int) n \<longleftrightarrow> n < 20" unfolding m(2) p by simp
qed

lemma bit_len32: "bit (w :: u32) n \<Longrightarrow> n < 32"
  using bit_imp_le_length [of w n] by simp

lemma frame_slot: "frame_of (frame_of e + push_bit 2 (x AND 0x3ff)) = frame_of e"
proof -
  have "frame_of e + push_bit 2 (x AND 0x3ff) = frame_of e OR push_bit 2 (x AND 0x3ff)"
    unfolding frame_of_def
    by (rule disjunctive_add) (auto simp: bit_simps bit_page_masks bit_page_masks2)
  then show ?thesis
    unfolding frame_of_def by (intro bit_word_eqI) (auto simp: bit_simps bit_page_masks bit_page_masks2)
qed

lemma frame_off: "frame_of (frame_of e + (v AND 0xfff)) = frame_of e"
proof -
  have "frame_of e + (v AND 0xfff) = frame_of e OR (v AND 0xfff)"
    unfolding frame_of_def
    by (rule disjunctive_add) (auto simp: bit_simps bit_page_masks bit_page_masks2)
  then show ?thesis
    unfolding frame_of_def by (intro bit_word_eqI) (auto simp: bit_simps bit_page_masks bit_page_masks2)
qed

lemma frame_idem [simp]: "frame_of (frame_of e) = frame_of e"
  by (simp add: frame_of_def and.assoc)

lemma top_masked: "drop_bit 22 (v :: u32) AND 0x3ff = drop_bit 22 v"
  by (rule bit_word_eqI) (auto simp: bit_simps bit_page_masks bit_page_masks2 dest: bit_len32)

lemma frame_pde_addr: "frame_of cr = cr \<Longrightarrow> frame_of (pde_addr cr v) = cr"
  using frame_slot [of cr "drop_bit 22 v"] by (simp add: pde_addr_def top_masked)

lemma frame_pte_addr: "frame_of (pte_addr e v) = frame_of e"
  unfolding pte_addr_def by (rule frame_slot)

lemma recursive_aligned: "recursive_map cr pm \<Longrightarrow> frame_of cr = cr"
  unfolding recursive_map_def by (metis frame_idem)

lemma pg_entry_present [simp]: "present (pg_entry p)"
proof -
  have "bit (pg_entry p AND PG_P) 0" by (simp add: pg_entry_def PG_P_def bit_simps)
  then show ?thesis by (auto simp: present_def)
qed

lemma not_present_0: "\<not> present 0"
  by (simp add: present_def)

lemma pg_entry_frame: "frame_of (pg_entry p) = frame_of p"
proof -
  have "\<not> bit (7 :: u32) n" if "3 \<le> n" for n
    using bit_less_2p [of "7 :: u32" 3 n] that by simp
  moreover have "pg_entry p = p OR 7" by (simp add: pg_entry_def or.assoc)
  ultimately show ?thesis
    unfolding frame_of_def by (intro bit_word_eqI) (auto simp: bit_simps bit_page_masks bit_page_masks2)
qed

lemma walk_frame:
  assumes "mmu_walk cr pm w = Some p"
  shows "mmu_walk cr pm (frame_of w) = Some (frame_of p)"
proof -
  have "drop_bit 22 (frame_of w) = drop_bit 22 w"
    unfolding frame_of_def by (rule bit_word_eqI) (auto simp: bit_simps bit_page_masks bit_page_masks2 dest: bit_len32)
  moreover have "drop_bit 12 (frame_of w) = drop_bit 12 w"
    unfolding frame_of_def by (rule bit_word_eqI) (auto simp: bit_simps bit_page_masks bit_page_masks2 dest: bit_len32)
  moreover have "frame_of w AND 0xfff = 0"
    unfolding frame_of_def by (rule bit_word_eqI) (auto simp: bit_simps bit_page_masks bit_page_masks2)
  ultimately show ?thesis
    using assms frame_off by (auto simp: mmu_walk_def Let_def pde_addr_def pte_addr_def split: if_splits)
qed

section \<open>Mapping a page\<close>

lemma mem_store_walk:
  "mmu_walk (cr3 s) (pmem s) v = Some p \<Longrightarrow> mem_store v x s = Inr (s\<lparr>pmem := (pmem s)(p := x)\<rparr>)"
  by (simp add: mem_store_def store32_def)

lemma mem_load_walk: "mmu_walk (cr3 s) (pmem s) v = Some p \<Longrightarrow> mem_load v s = Inr (pmem s p)"
  by (simp add: mem_load_def load32_def)

lemma present_bit: "present e \<longleftrightarrow> e AND 1 \<noteq> 0"
  by (simp add: present_def PG_P_def)

text \<open>The word of physical memory that holds the entry of the page of \<open>v\<close>.\<close>

definition slot :: "u32 \<Rightarrow> (u32 \<Rightarrow> u32) \<Rightarrow> u32 \<Rightarrow> u32" where
  "slot cr pm v = pte_addr (pm (pde_addr cr v)) v"

lemma walk_store_slot:
  assumes "recursive_map cr pm" and "frame_of (pm (pde_addr cr v)) \<noteq> cr"
  shows "mmu_walk cr (pm(slot cr pm v := e)) w =
    (if present (pm (pde_addr cr w)) \<and> slot cr pm w = slot cr pm v
     then if present e then Some (frame_of e + (w AND 0xfff)) else None
     else mmu_walk cr pm w)"
proof -
  note al = recursive_aligned [OF assms(1)]
  have "pde_addr cr w \<noteq> slot cr pm v"
    using frame_pde_addr [OF al, of w] frame_pte_addr assms(2) unfolding slot_def by metis
  then have "(pm(slot cr pm v := e)) (pde_addr cr w) = pm (pde_addr cr w)" by simp
  then show ?thesis
    by (simp add: mmu_walk_def Let_def slot_def present_def)
qed

lemma page_table_add_present:
  assumes rec: "recursive_map (cr3 s) (pmem s)" and pd: "present (pmem s (pde_addr (cr3 s) v))"
    and nd: "\<not> present (pmem s (slot (cr3 s) (pmem s) v))"
  shows "page_table_add v p s =
    Inr (s\<lparr>pmem := (pmem s)(slot (cr3 s) (pmem s) v := pg_entry p)\<rparr>)"
proof -
  note d = mem_load_walk [OF walk_pde_ptr [OF rec]]
  note t = walk_pte_ptr [OF rec pd, folded slot_def]
  show ?thesis
    using pd nd d mem_load_walk [OF t] mem_store_walk [OF t]
    by (simp add: page_table_add_def Let_def present_bit)
qed

lemma zero_page_walk:
  assumes "mmu_walk (cr3 s) (pmem s) v = Some p"
  shows "zero_page v s = Inr (s\<lparr>pmem := \<lambda>a. if frame_of a = frame_of p then 0 else pmem s a,
    arenas := (arenas s)(frame_of p \<mapsto> \<lparr>desc = None, arena_cnt = 0, large = False\<rparr>)\<rparr>)"
  using assms by (simp add: zero_page_def)

text \<open>A new page table: the frame \<open>f\<close> the pool returns is cleared and linked before the entry is
  written.\<close>

definition with_table :: "u32 \<Rightarrow> (u32 \<Rightarrow> u32) \<Rightarrow> u32 \<Rightarrow> u32 \<Rightarrow> u32 \<Rightarrow> u32" where
  "with_table cr pm v f a = (if frame_of a = f then 0 else (pm(pde_addr cr v := pg_entry f)) a)"

lemma with_table_facts:
  assumes rec: "recursive_map cr pm" and v: "pde_addr cr v \<noteq> cr + 0xffc"
    and f: "frame_of f = f" "f \<noteq> cr"
  shows "recursive_map cr (with_table cr pm v f)"
    and "with_table cr pm v f (pde_addr cr w) = (if pde_addr cr w = pde_addr cr v then pg_entry f else pm (pde_addr cr w))"
    and "slot cr (with_table cr pm v f) v = pte_addr (pg_entry f) v"
    and "with_table cr pm v f (pte_addr (pg_entry f) v) = 0"
proof -
  note al = recursive_aligned [OF rec]
  have pd: "frame_of (pde_addr cr u) = cr" for u using frame_pde_addr [OF al] .
  have "pde_addr cr 0xffc00000 = cr + 0xffc" by (simp add: pde_addr_def)
  with pd [of "0xffc00000"] have "frame_of (cr + 0xffc) = cr" by simp
  with rec v f show "recursive_map cr (with_table cr pm v f)"
    by (simp add: recursive_map_def with_table_def)
  show w: "with_table cr pm v f (pde_addr cr w) = (if pde_addr cr w = pde_addr cr v then pg_entry f else pm (pde_addr cr w))" for w
    using pd f by (simp add: with_table_def)
  show "slot cr (with_table cr pm v f) v = pte_addr (pg_entry f) v"
    using w [of v] by (simp add: slot_def)
  show "with_table cr pm v f (pte_addr (pg_entry f) v) = 0"
    using f by (simp add: with_table_def frame_pte_addr pg_entry_frame)
qed

lemma page_table_add_absent:
  assumes rec: "recursive_map (cr3 s) (pmem s)" and nd: "\<not> present (pmem s (pde_addr (cr3 s) v))"
    and v: "pde_addr (cr3 s) v \<noteq> cr3 s + 0xffc"
    and pa: "palloc POOL_FLAG_KERNEL s = Inr (f, s1)" and s1: "cr3 s1 = cr3 s" "pmem s1 = pmem s"
    and f: "frame_of f = f" "f \<noteq> cr3 s"
  defines "pm \<equiv> with_table (cr3 s) (pmem s) v f"
  shows "page_table_add v p s =
    Inr (s1\<lparr>pmem := pm(slot (cr3 s) pm v := pg_entry p),
           arenas := (arenas s1)(f \<mapsto> \<lparr>desc = None, arena_cnt = 0, large = False\<rparr>)\<rparr>)"
proof -
  let ?cr = "cr3 s"
  let ?pm1 = "(pmem s)(pde_addr ?cr v := pg_entry f)"
  note w = with_table_facts [OF rec v f, folded pm_def]
  note d = walk_pde_ptr [OF rec]
  have e: "pmem s (pde_addr ?cr v) AND 1 = 0" using nd by (simp add: present_bit)
  have st: "mem_store (get_pde_ptr v) (pg_entry f) s1 = Inr (s1\<lparr>pmem := ?pm1\<rparr>)"
    using mem_store_walk [of s1] d [of v] s1 by simp
  have rec1: "recursive_map ?cr ?pm1" using rec v by (simp add: recursive_map_def)
  have pd1: "present (?pm1 (pde_addr ?cr v))" by simp
  have "mmu_walk ?cr ?pm1 (get_pte_ptr v) = Some (pte_addr (?pm1 (pde_addr ?cr v)) v)"
    using rec1 pd1 by (rule walk_pte_ptr)
  from walk_frame [OF this]
  have wt: "mmu_walk ?cr ?pm1 (frame_of (get_pte_ptr v)) = Some f"
    using f(1) by (simp add: frame_pte_addr pg_entry_frame)
  let ?s3 = "s1\<lparr>pmem := pm, arenas := (arenas s1)(f \<mapsto> \<lparr>desc = None, arena_cnt = 0, large = False\<rparr>)\<rparr>"
  have z: "zero_page (get_pte_ptr v AND 0xfffff000) (s1\<lparr>pmem := ?pm1\<rparr>) = Inr ?s3"
  proof -
    have "mmu_walk (cr3 (s1\<lparr>pmem := ?pm1\<rparr>)) (pmem (s1\<lparr>pmem := ?pm1\<rparr>)) (frame_of (get_pte_ptr v)) = Some f"
      using wt s1(1) by simp
    from zero_page_walk [OF this] show ?thesis
      unfolding f(1) by (simp add: frame_of_def [of "get_pte_ptr v"] pm_def with_table_def [abs_def] cong: if_cong)
  qed
  have pd3: "present (pm (pde_addr ?cr v))" using w(2) by simp
  note t = walk_pte_ptr [OF w(1) pd3, folded slot_def]
  have sl: "pm (slot ?cr pm v) = 0" using w(3,4) by simp
  have ld: "mem_load (get_pte_ptr v) ?s3 = Inr 0"
    using mem_load_walk [of ?s3] t s1 sl by simp
  have wr: "mem_store (get_pte_ptr v) (pg_entry p) ?s3 =
      Inr (?s3\<lparr>pmem := pm(slot ?cr pm v := pg_entry p)\<rparr>)"
    using mem_store_walk [of ?s3] t s1 by simp
  show ?thesis
    using mem_load_walk [OF d, of v] e pa st z ld wr
    by (simp add: page_table_add_def Let_def)
qed

section \<open>Allocating a frame\<close>

lemma u32_idx_int: "i < 2 ^ 32 \<Longrightarrow> u32_idx (int i) = i"
  by (simp add: u32_idx_def unsigned_of_nat take_bit_nat_eq_self)

lemma palloc_ok:
  assumes "bitmap_wf (pool_bitmap (get_pool pf s))" and "k < bitmap_cap (pool_bitmap (get_pool pf s))"
    and "\<not> used (pool_bitmap (get_pool pf s)) k"
  shows "\<exists>i b. i \<le> k \<and> \<not> used (pool_bitmap (get_pool pf s)) i \<and> (\<forall>j < i. used (pool_bitmap (get_pool pf s)) j) \<and>
           palloc pf s = Inr (of_nat i * PG_SIZE + phy_address_start (get_pool pf s),
             set_pool pf ((get_pool pf s)\<lparr>pool_bitmap := b\<rparr>) s) \<and>
           bitmap_wf b \<and> bitmap_cap b = bitmap_cap (pool_bitmap (get_pool pf s)) \<and>
           (\<forall>j. used b j \<longleftrightarrow> j = i \<or> used (pool_bitmap (get_pool pf s)) j)"
proof -
  let ?b = "pool_bitmap (get_pool pf s)"
  from bmp.take_lowest [OF assms] obtain i b where
    i: "bitmap_scan ?b 1 = Inr (int i)" "i \<le> k" "\<not> used ?b i" "\<forall>j < i. used ?b j"
    "bitmap_set ?b i 1 = Inr b" "bitmap_wf b" "bitmap_cap b = bitmap_cap ?b"
    "\<forall>j. used b j \<longleftrightarrow> j = i \<or> used ?b j" by blast
  have "k < 2048" using assms(2) by (simp add: bitmap_cap_def)
  then have u: "u32_idx (int i) = i" using i(2) by (intro u32_idx_int) simp
  have "palloc pf s = Inr (of_nat i * PG_SIZE + phy_address_start (get_pool pf s),
      set_pool pf ((get_pool pf s)\<lparr>pool_bitmap := b\<rparr>) s)"
    using i(1,5) u by (simp add: palloc_def Let_def)
  with i show ?thesis by blast
qed

lemma set_pool_simps [simp]:
  "cr3 (set_pool pf p s) = cr3 s" "pmem (set_pool pf p s) = pmem s"
  "running (set_pool pf p s) = running s" "tasks (set_pool pf p s) = tasks s"
  "arenas (set_pool pf p s) = arenas s" "locks (set_pool pf p s) = locks s"
  "sema_value (set_pool pf p s) = sema_value s" "eflags (set_pool pf p s) = eflags s"
  "kernel_vaddr (set_pool pf p s) = kernel_vaddr s"
  "queue (set_pool pf p s) l xs = queue s l xs"
  "get_pool pf (set_pool pf p s) = p"
  by (simp_all add: set_pool_def get_pool_def queue_def dll_def split: pool_flags.splits)

lemma walk_Some_present:
  "mmu_walk cr pm w = Some q \<Longrightarrow> present (pm (pde_addr cr w)) \<and> present (pm (slot cr pm w))"
  by (auto simp: mmu_walk_def Let_def present_def slot_def split: if_splits)

lemma table_add_present_keeps:
  fixes p :: u32
  assumes "recursive_map cr pm" and "present (pm (pde_addr cr v))" and "frame_of (pm (pde_addr cr v)) \<noteq> cr"
    and "\<not> present (pm (slot cr pm v))"
  defines "pm' \<equiv> pm(slot cr pm v := pg_entry p)"
  shows "mmu_walk cr pm' v = Some (frame_of p + (v AND 0xfff))" and "recursive_map cr pm'"
    and "mmu_walk cr pm w = Some q \<Longrightarrow> mmu_walk cr pm' w = Some q"
proof -
  note al = recursive_aligned [OF assms(1)]
  note w = walk_store_slot [OF assms(1,3), of "pg_entry p", folded pm'_def]
  show "mmu_walk cr pm' v = Some (frame_of p + (v AND 0xfff))"
    using w [of v] assms(2) by (simp add: pg_entry_frame)
  have "pde_addr cr 0xffc00000 = cr + 0xffc" by (simp add: pde_addr_def)
  then have "frame_of (cr + 0xffc) = cr" using frame_pde_addr [OF al, of "0xffc00000"] by simp
  then have "slot cr pm v \<noteq> cr + 0xffc" using assms(3) frame_pte_addr unfolding slot_def by metis
  then show "recursive_map cr pm'" using assms(1) by (simp add: recursive_map_def pm'_def)
  show "mmu_walk cr pm' w = Some q" if "mmu_walk cr pm w = Some q"
    using w [of w] that walk_Some_present [OF that] assms(4) by auto
qed

lemma table_add_absent_keeps:
  fixes p :: u32
  assumes rec: "recursive_map cr pm" and nd: "\<not> present (pm (pde_addr cr v))"
    and v: "pde_addr cr v \<noteq> cr + 0xffc" and f: "frame_of f = f" "f \<noteq> cr"
    and fresh: "\<forall>w. present (pm (pde_addr cr w)) \<longrightarrow> frame_of (pm (pde_addr cr w)) \<noteq> f"
  defines "pt \<equiv> with_table cr pm v f"
  defines "pm' \<equiv> pt(slot cr pt v := pg_entry p)"
  shows "mmu_walk cr pm' v = Some (frame_of p + (v AND 0xfff))" and "recursive_map cr pm'"
    and "mmu_walk cr pm w = Some q \<Longrightarrow> mmu_walk cr pm' w = Some q"
proof -
  note t = with_table_facts [OF rec v f, folded pt_def]
  have pd: "pt (pde_addr cr v) = pg_entry f" using t(2) by simp
  have a: "present (pt (pde_addr cr v))" "frame_of (pt (pde_addr cr v)) \<noteq> cr"
    "\<not> present (pt (slot cr pt v))"
    using pd t(3,4) f not_present_0 by (simp_all add: pg_entry_frame)
  note k = table_add_present_keeps [OF t(1) a, where p = p, folded pm'_def]
  show "mmu_walk cr pm' v = Some (frame_of p + (v AND 0xfff))" "recursive_map cr pm'"
    using k by simp_all
  show "mmu_walk cr pm' w = Some q" if w: "mmu_walk cr pm w = Some q"
  proof (rule k(3))
    note pr = walk_Some_present [OF w]
    have ne: "pde_addr cr w \<noteq> pde_addr cr v" using pr nd by auto
    then have e: "pt (pde_addr cr w) = pm (pde_addr cr w)" using t(2) by simp
    have sl: "slot cr pt w = slot cr pm w" using e by (simp add: slot_def)
    have "frame_of (slot cr pm w) \<noteq> f" using fresh pr by (auto simp: slot_def frame_pte_addr)
    moreover have "slot cr pm w \<noteq> pde_addr cr v" using pr nd by auto
    ultimately have "pt (slot cr pm w) = pm (slot cr pm w)" by (simp add: pt_def with_table_def)
    then show "mmu_walk cr pt w = Some q"
      using w e sl unfolding mmu_walk_def Let_def slot_def by metis
  qed
qed

lemma page_offset:
  assumes "a AND 0xfff = 0" and "k < 4096"
  shows "frame_of (a + of_nat k) = a" and "unat (a + of_nat k) = unat a + k"
proof -
  define off where "off = (of_nat k :: u32)"
  have uo: "unat off = k" unfolding off_def by (rule unat_small) (use assms(2) in simp)
  have "off < 2 ^ 12" using uo assms(2) by (simp add: word_less_nat_alt)
  then have ob: "\<not> bit off n" if "12 \<le> n" for n
    using bit_less_2p [of off 12 n] that by simp
  have ab: "\<not> bit a n" if "n < 12" for n
  proof
    assume "bit a n"
    then have "bit (a AND 0xfff) n" using that by (simp add: bit_simps bit_page_masks)
    with assms(1) show False by simp
  qed
  have s: "a + off = a OR off" by (rule disjunctive_add) (use ob ab in \<open>metis not_le\<close>)
  have "(a + off) AND 0xfffff000 = a"
  proof (rule bit_word_eqI)
    fix n assume "n < LENGTH(32)"
    then show "bit ((a + off) AND 0xfffff000) n = bit a n"
      unfolding s using ob [of n] ab [of n]
      by (cases "n < 12") (simp_all add: bit_and_iff bit_or_iff bit_page_masks)
  qed
  then show "frame_of (a + of_nat k) = a" by (simp add: frame_of_def off_def)
  have "unat a + unat off = unat (a OR off)"
    using disjunctive_add [of "unat a" "unat off"] ob ab
    by (simp add: bit_unsigned_iff unsigned_or_eq) (metis not_le)
  then show "unat (a + of_nat k) = unat a + k" using s uo by (simp add: off_def)
qed

section \<open>Pages that are not page tables\<close>

definition table_free :: "u32 \<Rightarrow> (u32 \<Rightarrow> u32) \<Rightarrow> u32 \<Rightarrow> bool" where
  "table_free cr pm F \<longleftrightarrow>
     F \<noteq> cr \<and> (\<forall>w. present (pm (pde_addr cr w)) \<longrightarrow> frame_of (pm (pde_addr cr w)) \<noteq> F)"

lemma table_free_walk:
  assumes "recursive_map cr pm" and "table_free cr pm F" and "\<And>a. frame_of a \<noteq> F \<Longrightarrow> pm' a = pm a"
  shows "mmu_walk cr pm' w = mmu_walk cr pm w" and "recursive_map cr pm'" and "table_free cr pm' F"
proof -
  note al = recursive_aligned [OF assms(1)]
  have pd: "pm' (pde_addr cr v) = pm (pde_addr cr v)" for v
    using assms(2) assms(3) [of "pde_addr cr v"] frame_pde_addr [OF al, of v]
    by (auto simp: table_free_def)
  show "mmu_walk cr pm' w = mmu_walk cr pm w"
  proof (cases "present (pm (pde_addr cr w))")
    case True
    then have "pm' (slot cr pm w) = pm (slot cr pm w)"
      using assms(2,3) by (simp add: table_free_def slot_def frame_pte_addr)
    then show ?thesis using pd by (simp add: mmu_walk_def Let_def slot_def)
  qed (simp add: mmu_walk_def Let_def pd present_def)
  have "pde_addr cr 0xffc00000 = cr + 0xffc" by (simp add: pde_addr_def)
  then show "recursive_map cr pm'" using assms(1) pd [of "0xffc00000"] by (simp add: recursive_map_def)
  show "table_free cr pm' F" using assms(2) pd by (simp add: table_free_def)
qed

lemma walk_aligned:
  assumes "mmu_walk cr pm a = Some F" and "a AND 0xfff = 0"
  shows "frame_of F = F"
  using assms frame_off by (auto simp: mmu_walk_def Let_def split: if_splits)

lemma walk_same_page:
  assumes w: "mmu_walk cr pm a = Some F" and a: "a AND 0xfff = 0" and fr: "frame_of v = a"
  shows "mmu_walk cr pm v = Some (F + (v AND 0xfff))"
proof -
  have "drop_bit 22 v = drop_bit 22 a" "drop_bit 12 v = drop_bit 12 a"
    unfolding fr [symmetric] frame_of_def
    by (rule bit_word_eqI, auto simp: bit_simps bit_page_masks bit_page_masks2 dest: bit_len32)+
  then have "pde_addr cr v = pde_addr cr a" "pte_addr e v = pte_addr e a" for e
    by (simp_all add: pde_addr_def pte_addr_def)
  then show ?thesis using w a by (auto simp: mmu_walk_def Let_def split: if_splits)
qed

text \<open>\<open>a\<close> is a page the kernel may write: its frame \<open>F\<close> holds no page table.\<close>

definition data_page :: "'z mstate_scheme \<Rightarrow> u32 \<Rightarrow> u32 \<Rightarrow> bool" where
  "data_page s a F \<longleftrightarrow>
     recursive_map (cr3 s) (pmem s) \<and> a AND 0xfff = 0 \<and> mmu_walk (cr3 s) (pmem s) a = Some F \<and>
     table_free (cr3 s) (pmem s) F"

lemma data_page_keep:
  assumes "data_page s a F" and "\<And>x. frame_of x \<noteq> F \<Longrightarrow> pmem s' x = pmem s x" and "cr3 s' = cr3 s"
  shows "data_page s' a F" and "mmu_walk (cr3 s') (pmem s') = mmu_walk (cr3 s) (pmem s)"
  using assms table_free_walk [of "cr3 s" "pmem s" F "pmem s'"]
  by (auto simp: data_page_def fun_eq_iff)

lemma zero_page_data:
  assumes "data_page s a F"
  shows "zero_page a s = Inr (s\<lparr>pmem := \<lambda>x. if frame_of x = F then 0 else pmem s x,
    arenas := (arenas s)(F \<mapsto> \<lparr>desc = None, arena_cnt = 0, large = False\<rparr>)\<rparr>)"
  using zero_page_walk [of s a F] assms walk_aligned [of "cr3 s" "pmem s" a F]
  by (simp add: data_page_def)

lemma zero_words_data:
  assumes "data_page s a F" and "k + 4 * n \<le> 4096"
  shows "\<exists>pm. zero_words (a + of_nat k) n s = Inr (s\<lparr>pmem := pm\<rparr>) \<and>
           (\<forall>x. pm x = (if \<exists>j < n. x = F + ((a + of_nat (k + 4 * j)) AND 0xfff) then 0 else pmem s x)) \<and>
           (\<forall>x. frame_of x \<noteq> F \<longrightarrow> pm x = pmem s x)"
  using assms
proof (induction n arbitrary: k s)
  case 0
  show ?case by (intro exI [of _ "pmem s"]) simp
next
  case (Suc n)
  let ?v = "a + of_nat k"
  let ?p = "F + (?v AND 0xfff)"
  have dp: "a AND 0xfff = 0" "mmu_walk (cr3 s) (pmem s) a = Some F" using Suc.prems(1)
    by (auto simp: data_page_def)
  have fr: "frame_of ?v = a" by (rule page_offset [OF dp(1)]) (use Suc.prems(2) in simp)
  note st = mem_store_walk [OF walk_same_page [OF dp(2,1) fr], of 0]
  let ?s = "s\<lparr>pmem := (pmem s)(?p := 0)\<rparr>"
  have fF: "frame_of F = F" using walk_aligned [OF dp(2,1)] .
  have fp: "frame_of ?p = F" using frame_off [of F ?v] fF by simp
  have ds: "data_page ?s a F"
    by (rule data_page_keep(1) [OF Suc.prems(1)]) (use fp in auto)
  have kk: "?v + 4 = a + of_nat (k + 4)" by (simp add: add.assoc)
  have kn: "k + 4 + 4 * n \<le> 4096" using Suc.prems(2) by simp
  from Suc.IH [OF ds kn] obtain pm where
    pm: "zero_words (a + of_nat (k + 4)) n ?s = Inr (?s\<lparr>pmem := pm\<rparr>)"
    "\<forall>x. pm x = (if \<exists>j < n. x = F + ((a + of_nat (k + 4 + 4 * j)) AND 0xfff) then 0 else pmem ?s x)"
    "\<forall>x. frame_of x \<noteq> F \<longrightarrow> pm x = pmem ?s x" by (elim exE conjE) (rule that)
  have split: "(\<exists>j < Suc n. x = F + ((a + of_nat (k + 4 * j)) AND 0xfff)) \<longleftrightarrow>
      x = ?p \<or> (\<exists>j < n. x = F + ((a + of_nat (k + 4 + 4 * j)) AND 0xfff))" for x
    by (subst Ex_less_Suc2) (simp add: algebra_simps)
  have "zero_words ?v (Suc n) s = Inr (s\<lparr>pmem := pm\<rparr>)"
    using st pm(1) unfolding zero_words.simps kk by simp
  moreover have "\<forall>x. pm x = (if \<exists>j < Suc n. x = F + ((a + of_nat (k + 4 * j)) AND 0xfff) then 0 else pmem s x)"
    unfolding split using pm(2) by auto
  moreover have "\<forall>x. frame_of x \<noteq> F \<longrightarrow> pm x = pmem s x" using pm(3) fp by auto
  ultimately show ?case by blast
qed

lemma arena_frame_data:
  assumes "data_page s a F"
  shows "arena_frame a s = Inr F"
  using assms walk_aligned [of "cr3 s" "pmem s" a F] by (simp add: arena_frame_def data_page_def)

lemma only_lists_mstate [frame_simps]:
  assumes "only_lists s (s' :: 'z mstate_scheme)"
  shows "kernel_pool s' = kernel_pool s" and "user_pool s' = user_pool s"
    and "kernel_vaddr s' = kernel_vaddr s" and "k_block_descs s' = k_block_descs s"
    and "arenas s' = arenas s" and "mstate.more s' = mstate.more s"
  using only_lists_more [OF assms] by (cases s; cases s'; simp)+

lemma queue_mstate [simp]:
  "queue (s\<lparr>pmem := pm\<rparr>) l xs = queue s l xs" "queue (s\<lparr>arenas := ar\<rparr>) l xs = queue s l xs"
  "queue (s\<lparr>running := t\<rparr>) l xs = queue s l xs" "queue (s\<lparr>kernel_vaddr := kv\<rparr>) l xs = queue s l xs"
  by (simp_all add: queue_def dll_def)

section \<open>Taking and returning a block\<close>

lemma lock_held_simps [simp]:
  "tasks (lock_held l s) = tasks s" "running (lock_held l s) = running s" "cr3 (lock_held l s) = cr3 s"
  "pmem (lock_held l s) = pmem s" "queue (lock_held l s) k xs = queue s k xs"
  "locks (lock_held l s) l = \<lparr>holder = running s, holder_repeat_nr = 1\<rparr>"
  "sema_value (lock_held l s) (Lock_sema l) = 0" "idle_thread (lock_held l s) = idle_thread s"
  "tasks (lock_freed l s) = tasks s" "running (lock_freed l s) = running s" "cr3 (lock_freed l s) = cr3 s"
  "pmem (lock_freed l s) = pmem s" "queue (lock_freed l s) k xs = queue s k xs"
  "holder (locks (lock_freed l s) l) = 0" "sema_value (lock_freed l s) (Lock_sema l) = 1"
  "idle_thread (lock_freed l s) = idle_thread s" "eflags (lock_freed l s) = eflags s"
  "eflags (lock_held l s) = eflags s"
  by (simp_all add: lock_held_def lock_freed_def)

lemma lock_held_mstate [simp]:
  "kernel_pool (lock_held l s) = kernel_pool s" "user_pool (lock_held l s) = user_pool s"
  "kernel_vaddr (lock_held l s) = kernel_vaddr s" "k_block_descs (lock_held l s) = k_block_descs s"
  "arenas (lock_held l s) = arenas s"
  "kernel_pool (lock_freed l s) = kernel_pool s" "user_pool (lock_freed l s) = user_pool s"
  "kernel_vaddr (lock_freed l s) = kernel_vaddr s" "k_block_descs (lock_freed l s) = k_block_descs s"
  "arenas (lock_freed l s) = arenas s" "data_page (lock_freed l s) a F = data_page s a F"
  "data_page (lock_held l s) a F = data_page s a F"
  by (simp_all add: lock_held_def lock_freed_def data_page_def)

lemma only_lists_data_page: "only_lists s s' \<Longrightarrow> data_page s' a F = data_page s a F"
  by (simp add: data_page_def frame_simps)

text \<open>What taking and returning a block leaves alone.\<close>

definition mframe :: "'z mstate_scheme \<Rightarrow> 'z mstate_scheme \<Rightarrow> bool" where
  "mframe s s' \<longleftrightarrow>
     tasks s' = tasks s \<and> running s' = running s \<and> cr3 s' = cr3 s \<and> eflags s' = eflags s \<and>
     kernel_pool s' = kernel_pool s \<and> user_pool s' = user_pool s \<and> kernel_vaddr s' = kernel_vaddr s \<and>
     k_block_descs s' = k_block_descs s \<and> mmu_walk (cr3 s') (pmem s') = mmu_walk (cr3 s) (pmem s)"

lemma mframe_lock [simp]:
  "mframe (lock_held l s) s' = mframe s s'" "mframe s (lock_freed l s') = mframe s s'"
  by (simp_all add: mframe_def)

lemma mframe_trans: "mframe s s' \<Longrightarrow> mframe s' s'' \<Longrightarrow> mframe s s''"
  unfolding mframe_def by metis

lemma take_block_ok:
  assumes q: "queue s (Free_list arr i) (Free_elem sp b # xs)" and dp: "data_page s a F"
    and b: "b = a + of_nat k" "k + unat (block_size d) \<le> 4096" "4 dvd unat (block_size d)" "k < 4096"
    and x: "arenas s F = Some x"
    and l: "sema_value s (Lock_sema (pool_lock pf)) = 0" "queue s (Waiters (Lock_sema (pool_lock pf))) []"
      "locks s (pool_lock pf) = \<lparr>holder = running s, holder_repeat_nr = 1\<rparr>"
  shows "\<exists>s'. take_block pf arr i d s = Inr (b, s') \<and> queue s' (Free_list arr i) xs \<and>
           arenas s' = (arenas s)(F \<mapsto> x\<lparr>arena_cnt := arena_cnt x - 1\<rparr>) \<and> mframe s s' \<and>
           lock_free (pool_lock pf) (s'\<lparr>running := 1\<rparr>) \<and> data_page s' a F \<and>
           (\<forall>j < unat (block_size d) div 4. mem_load (a + of_nat (k + 4 * j)) s' = Inr 0)"
proof -
  have len: "list_len (klist (Free_list arr i)) s = Inr (Suc (length xs))"
    using list_len_ok [of s "klist (Free_list arr i)"] q by (fastforce simp: queue_def)
  from q_pop_ok [OF q] obtain s2 where
    s2: "q_pop (Free_list arr i) s = Inr (Free_elem sp b, s2)" "queue s2 (Free_list arr i) xs" "only_lists s s2"
    and fr: "\<forall>k ys. k \<noteq> Free_list arr i \<longrightarrow> set xs \<inter> set ys = {} \<longrightarrow> queue s k ys \<longrightarrow> queue s2 k ys" by blast
  note o = only_lists_kstate [OF s2(3)] only_lists_mstate [OF s2(3)] only_lists_eflags [OF s2(3)]
  have w2: "queue s2 (Waiters (Lock_sema (pool_lock pf))) []" using fr l(2) by simp
  have dp2: "data_page s2 a F" using dp only_lists_data_page [OF s2(3)] by blast
  let ?n = "unat (block_size d) div 4"
  have kn: "k + 4 * ?n \<le> 4096" using b(2,3) by auto
  from zero_words_data [OF dp2 kn] obtain pm where
    pm: "zero_words b ?n s2 = Inr (s2\<lparr>pmem := pm\<rparr>)"
    "\<forall>y. pm y = (if \<exists>j < ?n. y = F + ((a + of_nat (k + 4 * j)) AND 0xfff) then 0 else pmem s2 y)"
    "\<forall>y. frame_of y \<noteq> F \<longrightarrow> pm y = pmem s2 y" unfolding b(1) by blast
  let ?s3 = "s2\<lparr>pmem := pm\<rparr>"
  note dk = data_page_keep [OF dp2, of ?s3]
  have dp3: "data_page ?s3 a F" and mw: "mmu_walk (cr3 ?s3) (pmem ?s3) = mmu_walk (cr3 s2) (pmem s2)"
    using dk pm(3) by auto
  have aa: "a AND 0xfff = 0" using dp by (simp add: data_page_def)
  have ba: "block2arena b = a"
    using page_offset(1) [OF aa b(4)] b(1) by (simp add: block2arena_def frame_of_def)
  let ?x = "x\<lparr>arena_cnt := arena_cnt x - 1\<rparr>"
  let ?s4 = "?s3\<lparr>arenas := (arenas ?s3)(F \<mapsto> ?x)\<rparr>"
  have ga: "get_arena a ?s3 = Inr x" using arena_frame_data [OF dp3] x o by (simp add: get_arena_def)
  have sa: "set_arena a ?x ?s3 = Inr ?s4" using arena_frame_data [OF dp3] by (simp add: set_arena_def)
  have lr: "lock_release (pool_lock pf) ?s4 = Inr (lock_freed (pool_lock pf) ?s4)"
    by (rule lock_release_last) (use l o w2 in simp_all)
  let ?s5 = "lock_freed (pool_lock pf) ?s4"
  have "take_block pf arr i d s = Inr (b, ?s5)"
    using len s2(1) pm(1) ba ga sa lr by (simp add: take_block_def Let_def tag2block_def)
  moreover have "queue ?s5 (Free_list arr i) xs" using s2(2) by simp
  moreover have "mframe s ?s5" using o mw by (simp add: mframe_def)
  moreover have "lock_free (pool_lock pf) (?s5\<lparr>running := 1\<rparr>)"
    using w2 by (simp add: lock_free_def)
  moreover have dp5: "data_page ?s5 a F" using dp3 by (simp add: data_page_def)
  moreover have "mem_load (a + of_nat (k + 4 * j)) ?s5 = Inr 0" if j: "j < ?n" for j
  proof -
    have "frame_of (a + of_nat (k + 4 * j)) = a"
      by (rule page_offset(1) [OF aa]) (use kn j in simp)
    from walk_same_page [OF _ aa this, of "cr3 ?s5" "pmem ?s5" F] dp5
    have "mmu_walk (cr3 ?s5) (pmem ?s5) (a + of_nat (k + 4 * j)) = Some (F + ((a + of_nat (k + 4 * j)) AND 0xfff))"
      by (simp add: data_page_def)
    from mem_load_walk [OF this] show ?thesis using pm(2) j by auto
  qed
  ultimately show ?thesis using o by (intro exI [of _ ?s5]) simp
qed

lemma free_small_ok:
  assumes q: "queue s (Free_list arr i) xs" and new: "Free_elem sp b \<notin> set xs" and dp: "data_page s a F"
    and b: "b = a + of_nat k" "k < 4096" and x: "desc x = Some (arr, i)" "arenas s F = Some x"
    and d: "get_descs arr s = Inr ds" "i < length ds" "arena_cnt x + 1 \<noteq> blocks_pre_arena (ds ! i)"
    and w: "queue s (Waiters l) []"
  shows "\<exists>s'. free_small pf sp b x s = Inr s' \<and> queue s' (Free_list arr i) (xs @ [Free_elem sp b]) \<and>
           arenas s' = (arenas s)(F \<mapsto> x\<lparr>arena_cnt := arena_cnt x + 1\<rparr>) \<and> pmem s' = pmem s \<and>
           mframe s s' \<and> locks s' = locks s \<and> sema_value s' = sema_value s \<and> queue s' (Waiters l) []"
proof -
  from q_append_ok [OF q new] obtain s2 where
    s2: "q_append (Free_list arr i) (Free_elem sp b) s = Inr s2"
    "queue s2 (Free_list arr i) (xs @ [Free_elem sp b])" "only_lists s s2" "queue s2 (Waiters l) []"
    using w by fastforce
  note o = only_lists_kstate [OF s2(3)] only_lists_mstate [OF s2(3)] only_lists_eflags [OF s2(3)]
  have aa: "a AND 0xfff = 0" using dp by (simp add: data_page_def)
  have ba: "block2arena b = a"
    using page_offset(1) [OF aa b(2)] b(1) by (simp add: block2arena_def frame_of_def)
  have dp2: "data_page s2 a F" using dp only_lists_data_page [OF s2(3)] by blast
  let ?x = "x\<lparr>arena_cnt := arena_cnt x + 1\<rparr>"
  let ?s3 = "s2\<lparr>arenas := (arenas s2)(F \<mapsto> ?x)\<rparr>"
  have "set_arena a ?x s2 = Inr ?s3" using arena_frame_data [OF dp2] by (simp add: set_arena_def)
  then have "free_small pf sp b x s = Inr ?s3"
    using x d s2(1) ba by (simp add: free_small_def Let_def)
  moreover have "mframe s ?s3" using o by (simp add: mframe_def)
  ultimately show ?thesis using s2 o by (intro exI [of _ ?s3]) simp
qed

section \<open>Properties\<close>

text \<open>A kernel with two pools of 16 pages whose page directory is the one of \<open>demo_pm\<close>.\<close>

definition demo_mstate :: mstate where
  "demo_mstate = kstate.extend (demo_locked\<lparr>pmem := demo_pm\<rparr>)
     (mstate.fields
       \<lparr>pool_bitmap = \<lparr>btmp_bytes_len = 2, bits = [1, 0, 0]\<rparr>, phy_address_start = 0x200000, pool_size = 0x10000\<rparr>
       \<lparr>pool_bitmap = \<lparr>btmp_bytes_len = 2, bits = [0, 0, 0]\<rparr>, phy_address_start = 0x210000, pool_size = 0x10000\<rparr>
       \<lparr>vaddr_bitmap = \<lparr>btmp_bytes_len = 2, bits = [0, 0, 0]\<rparr>, vaddr_start = 0xc0100000\<rparr> []
       (\<lambda>_. None))"

lemma demo_mstate_simps [simp]:
  "cr3 demo_mstate = 0x100000" "pmem demo_mstate = demo_pm" "running demo_mstate = 0xc009e000"
  "kernel_pool demo_mstate = \<lparr>pool_bitmap = \<lparr>btmp_bytes_len = 2, bits = [1, 0, 0]\<rparr>, phy_address_start = 0x200000, pool_size = 0x10000\<rparr>"
  "user_pool demo_mstate = \<lparr>pool_bitmap = \<lparr>btmp_bytes_len = 2, bits = [0, 0, 0]\<rparr>, phy_address_start = 0x210000, pool_size = 0x10000\<rparr>"
  by (simp_all add: demo_mstate_def kstate.defs mstate.defs demo_locked_def list_init_def demo_kernel_def)

text \<open>C20: \<open>page_table_add\<close> maps the page: afterwards the processor translates the address to the
  frame given, every translation that existed is kept, and so is the recursive entry.  Where
  the directory has no table yet, a cleared frame of the kernel pool becomes one.\<close>

theorem page_table_add_maps:
  assumes "recursive_map (cr3 s) (pmem s)" and "pde_addr (cr3 s) v \<noteq> cr3 s + 0xffc"
    and "if present (pmem s (pde_addr (cr3 s) v))
         then \<not> present (pmem s (slot (cr3 s) (pmem s) v)) \<and> frame_of (pmem s (pde_addr (cr3 s) v)) \<noteq> cr3 s
         else palloc POOL_FLAG_KERNEL s = Inr (f, s1) \<and> cr3 s1 = cr3 s \<and> pmem s1 = pmem s \<and>
           frame_of f = f \<and> f \<noteq> cr3 s \<and>
           (\<forall>w. present (pmem s (pde_addr (cr3 s) w)) \<longrightarrow> frame_of (pmem s (pde_addr (cr3 s) w)) \<noteq> f)"
  shows "\<exists>s'. page_table_add v p s = Inr s' \<and> cr3 s' = cr3 s \<and> recursive_map (cr3 s) (pmem s') \<and>
           mmu_walk (cr3 s) (pmem s') v = Some (frame_of p + (v AND 0xfff)) \<and>
           (\<forall>w q. mmu_walk (cr3 s) (pmem s) w = Some q \<longrightarrow> mmu_walk (cr3 s) (pmem s') w = Some q)"
proof (cases "present (pmem s (pde_addr (cr3 s) v))")
  case True
  with assms(3) have a: "frame_of (pmem s (pde_addr (cr3 s) v)) \<noteq> cr3 s"
    "\<not> present (pmem s (slot (cr3 s) (pmem s) v))" by auto
  show ?thesis
    using page_table_add_present [OF assms(1) True a(2)] table_add_present_keeps [OF assms(1) True a]
    by simp
next
  case False
  with assms(3) have a: "palloc POOL_FLAG_KERNEL s = Inr (f, s1)" "cr3 s1 = cr3 s" "pmem s1 = pmem s"
    "frame_of f = f" "f \<noteq> cr3 s"
    "\<forall>w. present (pmem s (pde_addr (cr3 s) w)) \<longrightarrow> frame_of (pmem s (pde_addr (cr3 s) w)) \<noteq> f" by auto
  show ?thesis
    using page_table_add_absent [OF assms(1) False assms(2) a(1-5)]
      table_add_absent_keeps [OF assms(1) False assms(2) a(4-6)] a(2)
    by (simp del: fun_upd_apply)
qed

lemma demo_pde: "demo_pm (pde_addr 0x100000 w) \<noteq> 0 \<Longrightarrow>
  pde_addr 0x100000 w = 0x100ffc \<or> pde_addr 0x100000 w = 0x100000"
proof -
  assume a: "demo_pm (pde_addr 0x100000 w) \<noteq> 0"
  have "frame_of (0x100000 :: u32) = 0x100000" by (simp add: frame_of_def)
  from frame_pde_addr [OF this] have "frame_of (pde_addr 0x100000 w) = 0x100000" .
  moreover have "frame_of (0x101004 :: u32) = 0x101000" by (simp add: frame_of_def)
  ultimately have "pde_addr 0x100000 w \<noteq> 0x101004" by auto
  with a show ?thesis by (auto simp: demo_pm_def split: if_splits)
qed

theorem page_table_add_maps_witness:
  "\<exists>s'. page_table_add 0x400123 0x7000 demo_mstate = Inr s' \<and>
     mmu_walk 0x100000 (pmem s') 0x400123 = Some 0x7123"
proof -
  have rec: "recursive_map (cr3 demo_mstate) (pmem demo_mstate)"
    by (simp add: recursive_map_def demo_pm_def PG_P_def frame_of_def)
  have v: "pde_addr (cr3 demo_mstate) 0x400123 \<noteq> cr3 demo_mstate + 0xffc" by (simp add: pde_addr_def)
  have nd: "\<not> present (pmem demo_mstate (pde_addr (cr3 demo_mstate) 0x400123))"
    by (simp add: present_def pde_addr_def demo_pm_def)
  let ?p = "get_pool POOL_FLAG_KERNEL demo_mstate"
  have b: "bitmap_scan (pool_bitmap ?p) 1 = Inr 1"
    by (simp add: get_pool_def) code_simp
  have bs: "bitmap_set (pool_bitmap ?p) 1 1 = Inr \<lparr>btmp_bytes_len = 2, bits = [3, 0, 0]\<rparr>"
    by (simp add: get_pool_def bitmap_set_def)
  have pa: "palloc POOL_FLAG_KERNEL demo_mstate = Inr (0x201000,
      set_pool POOL_FLAG_KERNEL (?p\<lparr>pool_bitmap := \<lparr>btmp_bytes_len = 2, bits = [3, 0, 0]\<rparr>\<rparr>) demo_mstate)"
    using b bs u32_idx_int [of 1] by (simp add: palloc_def Let_def PG_SIZE_def) (simp add: get_pool_def)
  have fr: "\<forall>w. present (pmem demo_mstate (pde_addr (cr3 demo_mstate) w)) \<longrightarrow>
      frame_of (pmem demo_mstate (pde_addr (cr3 demo_mstate) w)) \<noteq> 0x201000"
    using demo_pde by (auto simp: present_def demo_pm_def frame_of_def split: if_splits)
  have ff: "frame_of (0x201000 :: u32) = 0x201000" "frame_of (0x7000 :: u32) = 0x7000"
    by (simp_all add: frame_of_def)
  from page_table_add_maps [OF rec v, of "0x201000" _ "0x7000"] nd pa fr ff show ?thesis by auto
qed

text \<open>While a pool has a free page among its first 2048, \<open>palloc\<close> returns the lowest free
  one, in the pool's range, and marks exactly that page.\<close>

theorem palloc_takes_lowest_free:
  assumes "btmp_bytes_len (pool_bitmap (get_pool pf s)) \<le> length (bits (pool_bitmap (get_pool pf s)))"
    and "k < 8 * btmp_bytes_len (pool_bitmap (get_pool pf s))" and "k < 2048"
    and "\<not> used (pool_bitmap (get_pool pf s)) k"
  shows "\<exists>i s'. palloc pf s = Inr (of_nat i * PG_SIZE + phy_address_start (get_pool pf s), s') \<and> i \<le> k \<and>
           \<not> used (pool_bitmap (get_pool pf s)) i \<and> (\<forall>j < i. used (pool_bitmap (get_pool pf s)) j) \<and>
           (\<forall>j. used (pool_bitmap (get_pool pf s')) j \<longleftrightarrow> j = i \<or> used (pool_bitmap (get_pool pf s)) j) \<and>
           pmem s' = pmem s \<and> cr3 s' = cr3 s \<and> tasks s' = tasks s"
proof -
  let ?b = "pool_bitmap (get_pool pf s)"
  have "bitmap_wf ?b" "k < bitmap_cap ?b" using assms by (simp_all add: bitmap_wf_def bitmap_cap_def nbits_def)
  from palloc_ok [OF this assms(4)] obtain i b where
    "i \<le> k" "\<not> used ?b i" "\<forall>j < i. used ?b j" "\<forall>j. used b j \<longleftrightarrow> j = i \<or> used ?b j"
    "palloc pf s = Inr (of_nat i * PG_SIZE + phy_address_start (get_pool pf s),
       set_pool pf ((get_pool pf s)\<lparr>pool_bitmap := b\<rparr>) s)" by blast
  then show ?thesis by (intro exI [of _ i]) simp
qed

theorem palloc_takes_lowest_free_witness:
  "\<exists>i s'. palloc POOL_FLAG_USER demo_mstate = Inr (of_nat i * PG_SIZE + 0x210000, s') \<and> i \<le> 3"
  using palloc_takes_lowest_free [of POOL_FLAG_USER demo_mstate 3]
  by (auto simp: get_pool_def used_def)

text \<open>Once the first 2048 pages of a pool are taken, \<open>palloc\<close> hands out the next page without
  marking it, again and again: the kernel pool of the machine has 3840 pages.\<close>

theorem palloc_repeats_beyond_2048:
  assumes "btmp_bytes_len (pool_bitmap (get_pool pf s)) \<le> length (bits (pool_bitmap (get_pool pf s)))"
    and "i < 8 * btmp_bytes_len (pool_bitmap (get_pool pf s))" and "2048 \<le> i" and "i < 2 ^ 32"
    and "\<not> used (pool_bitmap (get_pool pf s)) i" and "\<forall>j < i. used (pool_bitmap (get_pool pf s)) j"
  shows "palloc pf s = Inr (of_nat i * PG_SIZE + phy_address_start (get_pool pf s), s)"
proof -
  have "bitmap_scan (pool_bitmap (get_pool pf s)) 1 = Inr (int i) \<and>
      bitmap_set (pool_bitmap (get_pool pf s)) i 1 = Inr (pool_bitmap (get_pool pf s))"
    using bitmap_set_past_2048 [OF assms(1,2,3,5,6)] .
  moreover have "set_pool pf (get_pool pf s) s = s"
    by (cases pf) (simp_all add: set_pool_def get_pool_def)
  ultimately show ?thesis
    using u32_idx_int [OF assms(4)] by (simp add: palloc_def Let_def)
qed

theorem palloc_repeats_beyond_2048_witness:
  "let b = \<lparr>btmp_bytes_len = 480, bits = replicate 256 255 @ replicate 224 (0 :: u8)\<rparr>;
       s = demo_mstate\<lparr>kernel_pool := \<lparr>pool_bitmap = b, phy_address_start = 0x200000, pool_size = 0xf00000\<rparr>\<rparr>
   in palloc POOL_FLAG_KERNEL s = Inr (0xa00000, s)"
proof -
  let ?b = "\<lparr>btmp_bytes_len = 480, bits = replicate 256 255 @ replicate 224 (0 :: u8)\<rparr>"
  let ?s = "demo_mstate\<lparr>kernel_pool := \<lparr>pool_bitmap = ?b, phy_address_start = 0x200000, pool_size = 0xf00000\<rparr>\<rparr>"
  have p: "get_pool POOL_FLAG_KERNEL ?s = \<lparr>pool_bitmap = ?b, phy_address_start = 0x200000, pool_size = 0xf00000\<rparr>"
    by (simp add: get_pool_def)
  have "used ?b j" if "j < 2048" for j
    using that byte_full_iff [of "255 :: u8"] by (simp add: used_def nth_append)
  moreover have "\<not> used ?b 2048" by (simp add: used_def nth_append)
  ultimately show ?thesis
    using palloc_repeats_beyond_2048 [of POOL_FLAG_KERNEL ?s 2048]
    by (simp add: p Let_def PG_SIZE_def)
qed

lemma block_desc_loop_ok:
  "fst (block_desc_loop arr i n sz s) = map (\<lambda>k. mem_block_desc_size (sz * 2 ^ k)) [0..<n] \<and>
   (\<forall>k. i \<le> k \<and> k < i + n \<longrightarrow> queue (snd (block_desc_loop arr i n sz s)) (Free_list arr k) []) \<and>
   (\<forall>l xs. (\<forall>k. i \<le> k \<and> k < i + n \<longrightarrow> l \<noteq> Free_list arr k) \<longrightarrow> queue s l xs \<longrightarrow>
      queue (snd (block_desc_loop arr i n sz s)) l xs)"
proof (induction n arbitrary: i sz s)
  case (Suc n)
  let ?s = "list_init (klist (Free_list arr i)) s"
  note ih = Suc.IH [of "Suc i" "sz * 2" ?s]
  have m: "map (\<lambda>k. mem_block_desc_size (sz * 2 ^ k)) [0..<Suc n] =
      mem_block_desc_size sz # map (\<lambda>k. mem_block_desc_size (sz * 2 * 2 ^ k)) [0..<n]"
    by (simp add: map_upt_Suc algebra_simps del: upt_Suc)
  have q: "queue (snd (block_desc_loop arr (Suc i) n (sz * 2) ?s)) (Free_list arr i) []"
    using ih list_init_queue by fastforce
  have o: "queue (snd (block_desc_loop arr (Suc i) n (sz * 2) ?s)) l xs"
    if "\<forall>k. i \<le> k \<and> k < i + Suc n \<longrightarrow> l \<noteq> Free_list arr k" "queue s l xs" for l xs
  proof -
    have "queue ?s l xs" using that by (subst list_init_other) auto
    with ih that(1) show ?thesis by auto
  qed
  have k: "queue (snd (block_desc_loop arr (Suc i) n (sz * 2) ?s)) (Free_list arr k) []"
    if "i \<le> k" "k < i + Suc n" for k
    using ih q that by (cases "k = i") auto
  show ?case using ih m o k by (simp add: split_beta Let_def del: upt_Suc)
qed auto

text \<open>C33: \<open>block_desc_init\<close> sets up seven sizes, 16 to 1024 bytes, each with an empty free list, and
  the blocks of an arena fit its page: block \<open>k\<close> lies behind the 12-byte header and inside the
  page, two blocks do not overlap, and \<open>block2arena\<close> finds the arena of any of them.\<close>

theorem arena_blocks_fit:
  assumes "i < 7" and "k < unat (blocks_pre_arena (fst (block_desc_init arr s) ! i))"
    and "a AND 0xfff = 0"
  shows "unat (block_size (fst (block_desc_init arr s) ! i)) = 2 ^ (i + 4) \<and>
         queue (snd (block_desc_init arr s)) (Free_list arr i) [] \<and>
         (let b = arena2block a (of_nat k) (block_size (fst (block_desc_init arr s) ! i)) in
          unat b = unat a + 12 + k * 2 ^ (i + 4) \<and> 12 + (k + 1) * 2 ^ (i + 4) \<le> 4096 \<and>
          block2arena b = a)"
proof -
  let ?ds = "fst (block_desc_init arr s)"
  have ds: "?ds = map (\<lambda>k. mem_block_desc_size (16 * 2 ^ k)) [0..<7]"
    using block_desc_loop_ok [of arr 0 7 16 s] by (simp add: block_desc_init_def)
  have q: "queue (snd (block_desc_init arr s)) (Free_list arr i) []"
    using block_desc_loop_ok [of arr 0 7 16 s] assms(1) by (simp add: block_desc_init_def)
  have d: "?ds ! i = mem_block_desc_size (16 * 2 ^ i)"
    using assms(1) unfolding ds by (simp add: nth_append del: upt_Suc)
  have "i = 0 \<or> i = 1 \<or> i = 2 \<or> i = 3 \<or> i = 4 \<or> i = 5 \<or> i = 6" using assms(1) by auto
  then have bs: "unat (block_size (?ds ! i)) = 2 ^ (i + 4) \<and>
      unat (blocks_pre_arena (?ds ! i)) = 4084 div 2 ^ (i + 4)"
    unfolding d by (auto simp: mem_block_desc_size_def PG_SIZE_def)
  have fit: "12 + (k + 1) * 2 ^ (i + 4) \<le> 4096"
  proof -
    have "(k + 1) * 2 ^ (i + 4) \<le> 4084 div 2 ^ (i + 4) * 2 ^ (i + 4)"
      using assms(2) bs by (intro mult_le_mono1) simp
    also have "\<dots> \<le> 4084" by simp
    finally show ?thesis by simp
  qed
  have "0 < (2 :: nat) ^ (i + 4)" by simp
  with fit have lt: "12 + k * 2 ^ (i + 4) < 4096" unfolding add_mult_distrib by linarith
  have "arena2block a (of_nat k) (block_size (?ds ! i)) =
      a + of_nat (12 + k * unat (block_size (?ds ! i)))"
    by (simp add: arena2block_def add.assoc)
  then have "arena2block a (of_nat k) (block_size (?ds ! i)) = a + of_nat (12 + k * 2 ^ (i + 4))"
    by (simp only: bs)
  with page_offset [OF assms(3) lt] bs q fit show ?thesis
    by (simp add: block2arena_def frame_of_def Let_def del: of_nat_add of_nat_mult of_nat_power)
qed

theorem arena_blocks_fit_witness:
  "block2arena (arena2block 0xc0105000 2 (block_size (fst (block_desc_init K_block_descs demo_mstate) ! 6))) =
   0xc0105000"
proof -
  have "fst (block_desc_init K_block_descs demo_mstate) ! 6 = mem_block_desc_size 1024"
    using block_desc_loop_ok [of K_block_descs 0 7 16 demo_mstate]
    by (simp add: block_desc_init_def upt_rec)
  then have "(2 :: nat) < unat (blocks_pre_arena (fst (block_desc_init K_block_descs demo_mstate) ! 6))"
    by (simp add: mem_block_desc_size_def PG_SIZE_def)
  from arena_blocks_fit [OF _ this, of "0xc0105000"] show ?thesis by (simp add: Let_def)
qed

lemma used_zeroed: "i < 8 * n \<Longrightarrow> \<not> used \<lparr>btmp_bytes_len = n, bits = replicate n 0 @ r\<rparr> i"
  using less_mult_imp_div_less [of i n 8] by (simp add: used_def nth_append mult.commute)

lemma bitmap_init_ok:
  "n \<le> length m \<Longrightarrow> bitmap_init \<lparr>btmp_bytes_len = n, bits = m\<rparr> =
     Inr \<lparr>btmp_bytes_len = n, bits = replicate n 0 @ drop n m\<rparr>"
  by (simp add: bitmap_init_def memset_ok)

lemma lock_init_frame:
  "kernel_pool (lock_init l s) = kernel_pool s" "user_pool (lock_init l s) = user_pool s"
  "kernel_vaddr (lock_init l s) = kernel_vaddr s" "running (lock_init l s) = running s"
  "sema_value (lock_init l s) = (sema_value s)(Lock_sema l := 1)"
  "holder (locks (lock_init l s) k) = (if k = l then 0 else holder (locks s k))"
  by (simp_all add: lock_init_def sema_init_def list_init_def set_holder_def set_repeat_def)

lemma lock_init_queue: "queue (lock_init l s) (Waiters (Lock_sema l)) []"
  by (simp add: lock_init_def sema_init_def list_init_queue)

lemma lock_init_other:
  "k \<noteq> l \<Longrightarrow> queue (lock_init l s) (Waiters (Lock_sema k)) xs = queue s (Waiters (Lock_sema k)) xs"
  by (simp add: lock_init_def sema_init_def list_init_other set_holder_def set_repeat_def)

lemma block_desc_loop_frame:
  "only_lists s (snd (block_desc_loop arr i n sz s))"
proof (induction n arbitrary: i sz s)
  case (Suc n)
  have "only_lists s (list_init (klist (Free_list arr i)) s)"
    by (simp add: only_lists_def list_init_def)
  from only_lists_trans [OF this Suc.IH] show ?case by (simp add: split_beta Let_def)
qed (simp add: only_lists_refl)

text \<open>On the machine \<open>mem_init\<close> accepts (32 MB) the two pools split the memory above the page
  tables in half, 3840 pages each, adjacent and disjoint, the kernel's virtual pool starts at
  \<open>0xc0100000\<close>, every bitmap is clear and both locks are free; any other size of memory fails
  the assertion.\<close>

theorem mem_init_layout:
  assumes "1440 \<le> length mem" and "running s \<noteq> 0"
  shows "mem_init mem found s =
           (if found = 0x2000000 then mem_init mem 0x2000000 s else Inl Assertion) \<and>
         (\<exists>s'. mem_init mem 0x2000000 s = Inr s' \<and>
            phy_address_start (kernel_pool s') = 0x200000 \<and> pool_size (kernel_pool s') = 3840 * 4096 \<and>
            phy_address_start (user_pool s') = 0x200000 + 3840 * 4096 \<and>
            pool_size (user_pool s') = 3840 * 4096 \<and> vaddr_start (kernel_vaddr s') = 0xc0100000 \<and>
            phy_address_start (user_pool s') + pool_size (user_pool s') = 0x2000000 \<and>
            (\<forall>b \<in> {pool_bitmap (kernel_pool s'), pool_bitmap (user_pool s'), vaddr_bitmap (kernel_vaddr s')}.
               btmp_bytes_len b = 480 \<and> (\<forall>i < 3840. \<not> used b i)) \<and>
            map block_size (k_block_descs s') = [16, 32, 64, 128, 256, 512, 1024] \<and>
            map blocks_pre_arena (k_block_descs s') = [255, 127, 63, 31, 15, 7, 3] \<and>
            lock_free Kernel_pool_lock s' \<and> lock_free User_pool_lock s')"
proof
  show "mem_init mem found s = (if found = 0x2000000 then mem_init mem 0x2000000 s else Inl Assertion)"
    by (simp add: mem_init_def)
  let ?kb = "\<lparr>btmp_bytes_len = 480, bits = replicate 480 0 @ drop 480 mem\<rparr>"
  let ?ub = "\<lparr>btmp_bytes_len = 480, bits = replicate 480 0 @ drop 960 mem\<rparr>"
  let ?vb = "\<lparr>btmp_bytes_len = 480, bits = replicate 480 0 @ drop 1440 mem\<rparr>"
  define s1 where "s1 = s\<lparr>kernel_pool := \<lparr>pool_bitmap = ?kb, phy_address_start = 0x200000, pool_size = 0xf00000\<rparr>,
    user_pool := \<lparr>pool_bitmap = ?ub, phy_address_start = 0x1100000, pool_size = 0xf00000\<rparr>,
    kernel_vaddr := \<lparr>vaddr_bitmap = ?vb, vaddr_start = 0xc0100000\<rparr>\<rparr>"
  define s2 where "s2 = lock_init User_pool_lock (lock_init Kernel_pool_lock s1)"
  have "mem_pool_init mem 0x2000000 s = Inr s2"
    using assms(1) by (simp add: mem_pool_init_def PG_SIZE_def Let_def bitmap_init_ok s1_def s2_def)
  define s3 where "s3 = snd (block_desc_init K_block_descs s2)"
  define ds where "ds = fst (block_desc_init K_block_descs s2)"
  have i: "mem_init mem 0x2000000 s = Inr (s3\<lparr>k_block_descs := ds\<rparr>)"
    using \<open>mem_pool_init mem 0x2000000 s = Inr s2\<close>
    by (simp add: mem_init_def split_beta s3_def ds_def)
  have o: "only_lists s2 s3" unfolding s3_def block_desc_init_def by (rule block_desc_loop_frame)
  have w: "queue s3 (Waiters l) []" if "queue s2 (Waiters l) []" for l
    using block_desc_loop_ok [of K_block_descs 0 7 16 s2] that
    by (simp add: s3_def block_desc_init_def)
  have d: "ds = map (\<lambda>k. mem_block_desc_size (16 * 2 ^ k)) [0..<7]"
    using block_desc_loop_ok [of K_block_descs 0 7 16 s2] by (simp add: ds_def block_desc_init_def)
  have dl: "map block_size ds = [16, 32, 64, 128, 256, 512, 1024]"
    "map blocks_pre_arena ds = [255, 127, 63, 31, 15, 7, 3]"
    unfolding d by (simp_all add: upt_rec mem_block_desc_size_def PG_SIZE_def)
  note f = only_lists_mstate [OF o] only_lists_kstate [OF o]
  have lf: "lock_free l (s3\<lparr>k_block_descs := ds\<rparr>)" if "l \<in> {Kernel_pool_lock, User_pool_lock}" for l
  proof -
    have "queue s2 (Waiters (Lock_sema l)) []"
      using that by (auto simp: s2_def lock_init_queue lock_init_other)
    from w [OF this] show ?thesis
      using that f assms(2) by (auto simp: lock_free_def s2_def lock_init_frame s1_def queue_def dll_def)
  qed
  have u: "\<not> used \<lparr>btmp_bytes_len = 480, bits = replicate 480 0 @ r\<rparr> j" if "j < 3840" for r j
    using used_zeroed [of j 480 r] that by simp
  show "\<exists>s'. mem_init mem 0x2000000 s = Inr s' \<and>
            phy_address_start (kernel_pool s') = 0x200000 \<and> pool_size (kernel_pool s') = 3840 * 4096 \<and>
            phy_address_start (user_pool s') = 0x200000 + 3840 * 4096 \<and>
            pool_size (user_pool s') = 3840 * 4096 \<and> vaddr_start (kernel_vaddr s') = 0xc0100000 \<and>
            phy_address_start (user_pool s') + pool_size (user_pool s') = 0x2000000 \<and>
            (\<forall>b \<in> {pool_bitmap (kernel_pool s'), pool_bitmap (user_pool s'), vaddr_bitmap (kernel_vaddr s')}.
               btmp_bytes_len b = 480 \<and> (\<forall>i < 3840. \<not> used b i)) \<and>
            map block_size (k_block_descs s') = [16, 32, 64, 128, 256, 512, 1024] \<and>
            map blocks_pre_arena (k_block_descs s') = [255, 127, 63, 31, 15, 7, 3] \<and>
            lock_free Kernel_pool_lock s' \<and> lock_free User_pool_lock s'"
    using i f dl lf u
    by (intro exI [of _ "s3\<lparr>k_block_descs := ds\<rparr>"]) (simp add: s2_def lock_init_frame s1_def)
qed

theorem mem_init_layout_witness:
  "mem_init (replicate 20480 0xff) 0x4000000 demo_mstate = Inl Assertion \<and>
   (\<exists>s'. mem_init (replicate 20480 0xff) 0x2000000 demo_mstate = Inr s' \<and>
      phy_address_start (user_pool s') = 0x1100000)"
  using mem_init_layout [of "replicate 20480 0xff" demo_mstate "0x4000000"] by fastforce

lemma desc_search_first:
  "desc_search ds n k = k + m \<Longrightarrow> m < length ds \<Longrightarrow>
   n \<le> block_size (ds ! m) \<and> (\<forall>j < m. block_size (ds ! j) < n)"
proof (induction ds arbitrary: k m)
  case (Cons d ds)
  show ?case
  proof (cases "n \<le> block_size d")
    case False
    have le: "k \<le> desc_search ds n k" for k by (induction ds arbitrary: k) (auto intro: Suc_leD)
    obtain l where l: "m = Suc l" using Cons.prems False le [of "Suc k"] by (cases m) auto
    from Cons.IH [of "Suc k" l] Cons.prems l False show ?thesis by (auto simp: less_Suc_eq_0_disj)
  qed (use Cons.prems in simp)
qed simp

text \<open>C21: a block handed out and given back.  In a kernel thread, when the free list of the first block
  size that fits (at most 1024 bytes) is not empty and the arena of its first block has another block
  in use, \<open>sys_malloc\<close> takes that block off the list, clears it and counts it off its arena;
  \<open>sys_free\<close> of its address puts it at the end of the same list, so that the list comes back rotated,
  and restores the arena's count.  The lock is free again after both, and no translation, pool or PCB
  changes.\<close>

theorem malloc_free_block:
  assumes "tasks s (running s) = Some p" and "pgdir p = 0" and "lock_free Kernel_pool_lock s"
    and "0 < n" and "n \<le> 1024" and "n < pool_size (kernel_pool s)"
    and "i = desc_search (k_block_descs s) n 0" and "i < length (k_block_descs s)"
    and "queue s (Free_list K_block_descs i) (Free_elem 0 b # xs)"
    and "data_page s a F" and "b = a + of_nat k" and "b \<noteq> 0" and "k < 4096"
    and "k + unat (block_size (k_block_descs s ! i)) \<le> 4096" and "4 dvd unat (block_size (k_block_descs s ! i))"
    and "arenas s F = Some x" and "desc x = Some (K_block_descs, i)"
    and "arena_cnt x \<noteq> blocks_pre_arena (k_block_descs s ! i)"
  shows "\<exists>s1 s2. sys_malloc n s = Inr (b, s1) \<and> queue s1 (Free_list K_block_descs i) xs \<and>
           n \<le> block_size (k_block_descs s ! i) \<and> (\<forall>j < i. block_size (k_block_descs s ! j) < n) \<and>
           (\<forall>j < unat (block_size (k_block_descs s ! i)) div 4. mem_load (a + of_nat (k + 4 * j)) s1 = Inr 0) \<and>
           arenas s1 = (arenas s)(F \<mapsto> x\<lparr>arena_cnt := arena_cnt x - 1\<rparr>) \<and> mframe s s1 \<and>
           sys_free b s1 = Inr s2 \<and> queue s2 (Free_list K_block_descs i) (xs @ [Free_elem 0 b]) \<and>
           arenas s2 = arenas s \<and> mframe s s2 \<and> lock_free Kernel_pool_lock s2"
proof -
  let ?L = "pool_lock POOL_FLAG_KERNEL"
  have L: "?L = Kernel_pool_lock" by (simp add: pool_lock_def)
  let ?d = "k_block_descs s ! i"
  let ?h = "lock_held ?L s"
  have la: "lock_acquire ?L s = Inr ?h" using lock_acquire_free assms(3) L by simp
  have qh: "queue ?h (Free_list K_block_descs i) (Free_elem 0 b # xs)" using assms(9) by simp
  have dh: "data_page ?h a F" using assms(10) by simp
  have wh: "queue ?h (Waiters (Lock_sema ?L)) []" using assms(3) L by (simp add: lock_free_def)
  have "arenas ?h F = Some x" "sema_value ?h (Lock_sema ?L) = 0"
    "locks ?h ?L = \<lparr>holder = running ?h, holder_repeat_nr = 1\<rparr>" using assms(16) by simp_all
  from take_block_ok [OF qh dh assms(11,14,15,13) this(1,2) wh this(3)] obtain s1 where
    s1: "take_block POOL_FLAG_KERNEL K_block_descs i ?d ?h = Inr (b, s1)"
    "queue s1 (Free_list K_block_descs i) xs"
    "arenas s1 = (arenas ?h)(F \<mapsto> x\<lparr>arena_cnt := arena_cnt x - 1\<rparr>)" "mframe ?h s1"
    "lock_free ?L (s1\<lparr>running := 1\<rparr>)" "data_page s1 a F"
    "\<forall>j < unat (block_size ?d) div 4. mem_load (a + of_nat (k + 4 * j)) s1 = Inr 0" by blast
  have ne: "\<not> q_empty (Free_list K_block_descs i) ?h" using q_empty_ok [OF qh] by simp
  have le: "\<not> 1024 < n" using assms(5) by simp
  have mal: "sys_malloc n s = Inr (b, s1)"
    using assms(1,2,4,6,8) la ne le s1(1)
    by (simp add: sys_malloc_def Let_def get_pool_def get_descs_def assms(7) [symmetric])
  have m1: "mframe s s1" using s1(4) by simp
  have run: "running s1 = running s" "tasks s1 = tasks s" "k_block_descs s1 = k_block_descs s"
    using m1 by (auto simp: mframe_def)
  have free1: "lock_free ?L s1" using s1(5) assms(3) run by (simp add: lock_free_def)
  let ?h1 = "lock_held ?L s1"
  let ?x = "x\<lparr>arena_cnt := arena_cnt x - 1\<rparr>"
  have la1: "lock_acquire ?L s1 = Inr ?h1" using lock_acquire_free [OF free1] .
  have nin: "Free_elem 0 b \<notin> set xs" using queue_distinct [OF assms(9)] by simp
  have q1: "queue ?h1 (Free_list K_block_descs i) xs" using s1(2) by simp
  have d1: "data_page ?h1 a F" using s1(6) by simp
  have w1: "queue ?h1 (Waiters (Lock_sema ?L)) []" using free1 by (simp add: lock_free_def)
  have x1: "desc ?x = Some (K_block_descs, i)" "arenas ?h1 F = Some ?x" using assms(17) s1(3) by simp_all
  have g1: "get_descs K_block_descs ?h1 = Inr (k_block_descs s)" using run by (simp add: get_descs_def)
  have c1: "arena_cnt ?x + 1 \<noteq> blocks_pre_arena (k_block_descs s ! i)" using assms(18) by simp
  from free_small_ok [OF q1 nin d1 assms(11,13) x1 g1 assms(8) c1 w1] obtain s2 where
    s2: "free_small POOL_FLAG_KERNEL 0 b ?x ?h1 = Inr s2"
    "queue s2 (Free_list K_block_descs i) (xs @ [Free_elem 0 b])"
    "arenas s2 = (arenas ?h1)(F \<mapsto> ?x\<lparr>arena_cnt := arena_cnt ?x + 1\<rparr>)" "pmem s2 = pmem ?h1"
    "mframe ?h1 s2" "locks s2 = locks ?h1" "sema_value s2 = sema_value ?h1"
    "queue s2 (Waiters (Lock_sema ?L)) []" by blast
  have r2: "running s2 = running s1" using s2(5) by (simp add: mframe_def)
  have lr: "lock_release ?L s2 = Inr (lock_freed ?L s2)"
    by (rule lock_release_last) (use s2(6,7,8) r2 in simp_all)
  have aa: "a AND 0xfff = 0" using assms(10) by (simp add: data_page_def)
  have ba: "block2arena b = a"
    using page_offset(1) [OF aa assms(13)] assms(11) by (simp add: block2arena_def frame_of_def)
  have ga: "get_arena (block2arena b) ?h1 = Inr ?x"
    using arena_frame_data [OF d1] x1(2) ba by (simp add: get_arena_def)
  have fr: "sys_free b s1 = Inr (lock_freed ?L s2)"
    using assms(1,2,12,17) run la1 ga s2(1) lr by (simp add: sys_free_def Let_def)
  have ar: "arenas (lock_freed ?L s2) = arenas s" using s2(3) s1(3) assms(16) by auto
  have m2: "mframe s (lock_freed ?L s2)" using mframe_trans [OF m1] s2(5) by simp
  have lf: "lock_free Kernel_pool_lock (lock_freed ?L s2)"
    using s2(8) r2 run assms(3) L by (simp add: lock_free_def)
  show ?thesis
    using mal s1(2,3,7) m1 fr s2(2) ar m2 lf desc_search_first [of "k_block_descs s" n 0 i] assms(7,8)
    by (intro exI [of _ s1] exI [of _ "lock_freed ?L s2"]) simp
qed

text \<open>A heap with one arena at \<open>0x1000\<close> (frame \<open>0x5000\<close>) and its first two blocks of 16 bytes free.\<close>

definition demo_heap_state :: mstate where
  "demo_heap_state =
     (let s0 = list_init (klist (Free_list K_block_descs 0))
                 (list_init (klist (Waiters (Lock_sema Kernel_pool_lock))) demo_mstate)
      in s0\<lparr>nprev := (nprev s0)(Elem (Free_elem 0 0x100c) \<mapsto> Head (Free_list K_block_descs 0),
              Elem (Free_elem 0 0x101c) \<mapsto> Elem (Free_elem 0 0x100c),
              Tail (Free_list K_block_descs 0) \<mapsto> Elem (Free_elem 0 0x101c)),
            nnext := (nnext s0)(Head (Free_list K_block_descs 0) \<mapsto> Elem (Free_elem 0 0x100c),
              Elem (Free_elem 0 0x100c) \<mapsto> Elem (Free_elem 0 0x101c),
              Elem (Free_elem 0 0x101c) \<mapsto> Tail (Free_list K_block_descs 0)),
            k_block_descs := [mem_block_desc_size 16],
            arenas := (\<lambda>_. None)(0x5000 \<mapsto> \<lparr>desc = Some (K_block_descs, 0), arena_cnt = 2, large = False\<rparr>)\<rparr>)"

theorem malloc_free_block_witness:
  "\<exists>s1 s2. sys_malloc 10 demo_heap_state = Inr (0x100c, s1) \<and> sys_free 0x100c s1 = Inr s2 \<and>
     queue s2 (Free_list K_block_descs 0) [Free_elem 0 0x101c, Free_elem 0 0x100c]"
proof -
  let ?s = demo_heap_state
  note h = demo_heap_state_def Let_def list_init_def
  have sel: "cr3 ?s = 0x100000" "pmem ?s = demo_pm" "running ?s = 0xc009e000"
    "kernel_pool ?s = kernel_pool demo_mstate" "k_block_descs ?s = [mem_block_desc_size 16]"
    "arenas ?s = (\<lambda>_. None)(0x5000 \<mapsto> \<lparr>desc = Some (K_block_descs, 0), arena_cnt = 2, large = False\<rparr>)"
    by (simp_all add: h)
  have t: "tasks ?s (running ?s) = Some (demo_task TASK_RUNNING)"
    by (simp add: h demo_mstate_def kstate.defs mstate.defs demo_locked_def demo_kernel_def)
  have w: "queue ?s (Waiters (Lock_sema Kernel_pool_lock)) []"
    by (simp add: h queue_def dll_def)
  have lf: "lock_free Kernel_pool_lock ?s"
    using w by (simp add: lock_free_def sel) (simp add: h demo_mstate_def kstate.defs mstate.defs
      demo_locked_def demo_kernel_def)
  have q: "queue ?s (Free_list K_block_descs 0) [Free_elem 0 0x100c, Free_elem 0 0x101c]"
    by (simp add: h queue_def dll_def)
  have "frame_of (demo_pm (pde_addr 0x100000 v)) \<noteq> 0x5000" if "present (demo_pm (pde_addr 0x100000 v))" for v
  proof -
    have "demo_pm (pde_addr 0x100000 v) \<noteq> 0" using that not_present_0 by metis
    from demo_pde [OF this] show ?thesis by (auto simp: demo_pm_def frame_of_def)
  qed
  then have "table_free 0x100000 demo_pm 0x5000" by (simp add: table_free_def)
  then have dp: "data_page ?s 0x1000 0x5000"
    by (simp add: data_page_def sel recursive_map_def demo_pm_def PG_P_def frame_of_def mmu_walk_def
        Let_def pde_addr_def pte_addr_def)
  have ds: "desc_search (k_block_descs ?s) 10 0 = 0" "k_block_descs ?s ! 0 = mem_block_desc_size 16"
    by (simp_all add: sel mem_block_desc_size_def)
  have bs: "block_size (mem_block_desc_size 16) = 16" "blocks_pre_arena (mem_block_desc_size 16) = 255"
    by (simp_all add: mem_block_desc_size_def PG_SIZE_def)
  have "\<exists>s1 s2. sys_malloc 10 ?s = Inr (0x100c, s1) \<and> queue s1 (Free_list K_block_descs 0) [Free_elem 0 0x101c] \<and>
      10 \<le> block_size (k_block_descs ?s ! 0) \<and> (\<forall>j < 0. block_size (k_block_descs ?s ! j) < 10) \<and>
      (\<forall>j < unat (block_size (k_block_descs ?s ! 0)) div 4. mem_load (0x1000 + of_nat (12 + 4 * j)) s1 = Inr 0) \<and>
      arenas s1 = (arenas ?s)(0x5000 \<mapsto> \<lparr>desc = Some (K_block_descs, 0), arena_cnt = 2, large = False\<rparr>
        \<lparr>arena_cnt := arena_cnt \<lparr>desc = Some (K_block_descs, 0), arena_cnt = 2, large = False\<rparr> - 1\<rparr>) \<and> mframe ?s s1 \<and>
      sys_free 0x100c s1 = Inr s2 \<and>
      queue s2 (Free_list K_block_descs 0) ([Free_elem 0 0x101c] @ [Free_elem 0 0x100c]) \<and>
      arenas s2 = arenas ?s \<and> mframe ?s s2 \<and> lock_free Kernel_pool_lock s2"
    by (rule malloc_free_block [OF t _ lf _ _ _ _ _ q dp, of 10])
      (simp_all add: sel ds bs demo_task_def)
  then show ?thesis by auto
qed

lemma lowest_free:
  assumes "bitmap_wf b" and "i < bitmap_cap b" and "\<not> used b i" and "\<forall>j < i. used b j"
  shows "bitmap_scan b 1 = Inr (int i)" and "i < 2048"
    and "\<exists>b'. bitmap_set b i 1 = Inr b' \<and> (\<forall>j. used b' j \<longleftrightarrow> j = i \<or> used b j)"
proof -
  from bmp.take_lowest [OF assms(1-3)] obtain j b' where
    j: "bitmap_scan b 1 = Inr (int j)" "j \<le> i" "\<not> used b j" "bitmap_set b j 1 = Inr b'"
    "\<forall>m. used b' m \<longleftrightarrow> m = j \<or> used b m" by blast
  have "j = i" using j(2,3) assms(4) by (meson le_neq_implies_less)
  with j show "bitmap_scan b 1 = Inr (int i)"
    and "\<exists>b'. bitmap_set b i 1 = Inr b' \<and> (\<forall>m. used b' m \<longleftrightarrow> m = i \<or> used b m)" by auto
  show "i < 2048" using assms(2) by (simp add: bitmap_cap_def)
qed

text \<open>What the next request for a kernel page finds: page \<open>i\<close> of the kernel's addresses and frame
  \<open>f\<close> of its pool are the lowest free ones, \<open>v\<close> and \<open>P\<close> their addresses; the page table of \<open>v\<close> is in
  place and has no entry for it, and the frame holds no page table.\<close>

definition next_page :: "'z mstate_scheme \<Rightarrow> nat \<Rightarrow> nat \<Rightarrow> u32 \<Rightarrow> u32 \<Rightarrow> bool" where
  "next_page s i f v P \<longleftrightarrow>
     recursive_map (cr3 s) (pmem s) \<and>
     bitmap_wf (vaddr_bitmap (kernel_vaddr s)) \<and> i < bitmap_cap (vaddr_bitmap (kernel_vaddr s)) \<and>
     \<not> used (vaddr_bitmap (kernel_vaddr s)) i \<and> (\<forall>j < i. used (vaddr_bitmap (kernel_vaddr s)) j) \<and>
     bitmap_wf (pool_bitmap (kernel_pool s)) \<and> f < bitmap_cap (pool_bitmap (kernel_pool s)) \<and>
     \<not> used (pool_bitmap (kernel_pool s)) f \<and> (\<forall>j < f. used (pool_bitmap (kernel_pool s)) j) \<and>
     v = vaddr_start (kernel_vaddr s) + of_nat i * PG_SIZE \<and> v \<noteq> 0 \<and> v AND 0xfff = 0 \<and>
     P = of_nat f * PG_SIZE + phy_address_start (kernel_pool s) \<and> P \<noteq> 0 \<and> frame_of P = P \<and>
     present (pmem s (pde_addr (cr3 s) v)) \<and> frame_of (pmem s (pde_addr (cr3 s) v)) \<noteq> cr3 s \<and>
     \<not> present (pmem s (slot (cr3 s) (pmem s) v)) \<and> table_free (cr3 s) (pmem s) P"

text \<open>What a request for kernel pages leaves alone besides the page tables.\<close>

definition page_frame :: "'z mstate_scheme \<Rightarrow> 'z mstate_scheme \<Rightarrow> bool" where
  "page_frame s s' \<longleftrightarrow>
     cr3 s' = cr3 s \<and> tasks s' = tasks s \<and> running s' = running s \<and> eflags s' = eflags s \<and>
     next_pid s' = next_pid s \<and> main_thread s' = main_thread s \<and> idle_thread s' = idle_thread s \<and>
     nprev s' = nprev s \<and> nnext s' = nnext s \<and> mstate.more s' = mstate.more s \<and>
     (\<forall>k. k \<noteq> Kernel_pool_lock \<longrightarrow>
        locks s' k = locks s k \<and> sema_value s' (Lock_sema k) = sema_value s (Lock_sema k))"

lemma page_frame_queue: "page_frame s s' \<Longrightarrow> queue s' l xs = queue s l xs"
  by (simp add: page_frame_def queue_def dll_def)

lemma page_frame_lock: "page_frame s s' \<Longrightarrow> k \<noteq> Kernel_pool_lock \<Longrightarrow> lock_free k s \<Longrightarrow> lock_free k s'"
  by (simp add: lock_free_def page_frame_queue) (simp add: page_frame_def)

lemma get_kernel_page_ok:
  assumes lfr: "lock_free Kernel_pool_lock s" and np: "next_page s i f v P"
  shows "\<exists>s'. get_kernel_page 1 s = Inr (v, s') \<and> data_page s' v P \<and>
           (\<forall>a. frame_of a = P \<longrightarrow> pmem s' a = 0) \<and>
           (\<forall>a. frame_of a \<noteq> P \<longrightarrow> a \<noteq> slot (cr3 s) (pmem s) v \<longrightarrow> pmem s' a = pmem s a) \<and>
           (\<forall>w. pmem s' (pde_addr (cr3 s) w) = pmem s (pde_addr (cr3 s) w)) \<and>
           (\<forall>w q. mmu_walk (cr3 s) (pmem s) w = Some q \<longrightarrow> mmu_walk (cr3 s) (pmem s') w = Some q) \<and>
           (\<forall>j. used (vaddr_bitmap (kernel_vaddr s')) j \<longleftrightarrow> j = i \<or> used (vaddr_bitmap (kernel_vaddr s)) j) \<and>
           (\<forall>j. used (pool_bitmap (kernel_pool s')) j \<longleftrightarrow> j = f \<or> used (pool_bitmap (kernel_pool s)) j) \<and>
           page_frame s s' \<and> lock_free Kernel_pool_lock s'"
proof -
  have assms: "lock_free Kernel_pool_lock s" "recursive_map (cr3 s) (pmem s)"
    "bitmap_wf (vaddr_bitmap (kernel_vaddr s))" "i < bitmap_cap (vaddr_bitmap (kernel_vaddr s))"
    "\<not> used (vaddr_bitmap (kernel_vaddr s)) i" "\<forall>j < i. used (vaddr_bitmap (kernel_vaddr s)) j"
    "bitmap_wf (pool_bitmap (kernel_pool s))" "f < bitmap_cap (pool_bitmap (kernel_pool s))"
    "\<not> used (pool_bitmap (kernel_pool s)) f" "\<forall>j < f. used (pool_bitmap (kernel_pool s)) j"
    "v = vaddr_start (kernel_vaddr s) + of_nat i * PG_SIZE" "v \<noteq> 0" "v AND 0xfff = 0"
    "P = of_nat f * PG_SIZE + phy_address_start (kernel_pool s)" "P \<noteq> 0" "frame_of P = P"
    "present (pmem s (pde_addr (cr3 s) v))" "frame_of (pmem s (pde_addr (cr3 s) v)) \<noteq> cr3 s"
    "\<not> present (pmem s (slot (cr3 s) (pmem s) v))" "table_free (cr3 s) (pmem s) P"
    using lfr np unfolding next_page_def by - (elim conjE, assumption)+
  let ?L = "pool_lock POOL_FLAG_KERNEL"
  have L: "?L = Kernel_pool_lock" by (simp add: pool_lock_def)
  let ?h = "lock_held ?L s"
  have la: "lock_acquire ?L s = Inr ?h" using lock_acquire_free assms(1) L by simp
  note vl = lowest_free [OF assms(3-6)]
  note pl = lowest_free [OF assms(7-10)]
  from vl(3) obtain vb where vb: "bitmap_set (vaddr_bitmap (kernel_vaddr s)) i 1 = Inr vb"
    "\<forall>j. used vb j \<longleftrightarrow> j = i \<or> used (vaddr_bitmap (kernel_vaddr s)) j" by blast
  from pl(3) obtain pb where pb: "bitmap_set (pool_bitmap (kernel_pool s)) f 1 = Inr pb"
    "\<forall>j. used pb j \<longleftrightarrow> j = f \<or> used (pool_bitmap (kernel_pool s)) j" by blast
  have ui: "u32_idx (int i) = i" "u32_idx (int f) = f" using vl(2) pl(2) by (simp_all add: u32_idx_int)
  let ?h1 = "?h\<lparr>kernel_vaddr := (kernel_vaddr s)\<lparr>vaddr_bitmap := vb\<rparr>\<rparr>"
  have vg: "vadder_get POOL_FLAG_KERNEL 1 ?h = Inr (v, ?h1)"
    using vl(1) vb(1) ui assms(11) by (simp add: vadder_get_def Let_def)
  let ?h2 = "?h1\<lparr>kernel_pool := (kernel_pool s)\<lparr>pool_bitmap := pb\<rparr>\<rparr>"
  have pa: "palloc POOL_FLAG_KERNEL ?h1 = Inr (P, ?h2)"
    using pl(1) pb(1) ui assms(14) by (simp add: palloc_def Let_def get_pool_def set_pool_def)
  let ?sl = "slot (cr3 s) (pmem s) v"
  let ?pm = "(pmem s)(?sl := pg_entry P)"
  let ?h3 = "?h2\<lparr>pmem := ?pm\<rparr>"
  have ad: "page_table_add v P ?h2 = Inr ?h3"
    using page_table_add_present [of ?h2 v P] assms(2,17,19) by simp
  have mp: "malloc_page POOL_FLAG_KERNEL 1 ?h = Inr (v, ?h3)"
    using vg pa ad assms(12,15) by (simp add: malloc_page_def)
  note kp = table_add_present_keeps [OF assms(2,17,18,19), where p = P]
  have pd: "?pm (pde_addr (cr3 s) w) = pmem s (pde_addr (cr3 s) w)" for w
  proof -
    have "pde_addr (cr3 s) w \<noteq> ?sl"
      using frame_pde_addr [OF recursive_aligned [OF assms(2)], of w] frame_pte_addr assms(18)
      unfolding slot_def by metis
    then show ?thesis by simp
  qed
  have tf: "table_free (cr3 s) ?pm P" using assms(20) by (simp add: table_free_def pd del: fun_upd_apply)
  have wv: "mmu_walk (cr3 s) ?pm v = Some P" using kp(1) assms(13,16) by simp
  have dp: "data_page ?h3 v P" using kp(2) assms(13) wv tf by (simp add: data_page_def)
  let ?z = "\<lambda>x. if frame_of x = P then 0 else ?pm x"
  let ?h4 = "?h3\<lparr>pmem := ?z, arenas := (arenas ?h3)(P \<mapsto> \<lparr>desc = None, arena_cnt = 0, large = False\<rparr>)\<rparr>"
  have zp: "zero_pages v 1 ?h3 = Inr ?h4" using zero_page_data [OF dp] by (simp cong: if_cong)
  have lr: "lock_release ?L ?h4 = Inr (lock_freed ?L ?h4)"
    by (rule lock_release_last) (use assms(1) L in \<open>simp_all add: lock_free_def queue_def dll_def lock_held_def\<close>)
  let ?s' = "lock_freed ?L ?h4"
  have get: "get_kernel_page 1 s = Inr (v, ?s')"
    using la mp zp lr assms(12) by (simp add: get_kernel_page_def get_pages_def)
  have zw: "mmu_walk (cr3 s) ?z w = mmu_walk (cr3 s) ?pm w" for w
    by (rule table_free_walk(1) [OF kp(2) tf]) simp
  have lf: "lock_free Kernel_pool_lock ?s'"
    using assms(1) L by (simp add: lock_free_def queue_def dll_def lock_freed_def lock_held_def)
  have fr: "page_frame s ?s'" using L by (simp add: page_frame_def lock_freed_def lock_held_def)
  have dz: "data_page ?s' v P"
    by (rule data_page_keep(1) [OF dp]) simp_all
  have pz: "?z (pde_addr (cr3 s) w) = pmem s (pde_addr (cr3 s) w)" for w
    using frame_pde_addr [OF recursive_aligned [OF assms(2)], of w] assms(20) pd [of w]
    by (auto simp: table_free_def simp del: fun_upd_apply)
  show ?thesis
    using get wv zw kp(3) vb(2) pb(2) lf dz fr pz
    by (intro exI [of _ ?s']) (simp add: del: fun_upd_apply; simp)
qed

text \<open>\<open>get_kernel_page\<close> for one page, with the page table of the address in place, returns the
  lowest free kernel address mapped to the lowest free kernel frame, cleared; both are marked,
  every other translation and every PCB stays, and the pool's lock is free again.\<close>

theorem get_kernel_page_maps_a_clear_page:
  assumes "lock_free Kernel_pool_lock s" and "recursive_map (cr3 s) (pmem s)"
    and "bitmap_wf (vaddr_bitmap (kernel_vaddr s))" and "i < bitmap_cap (vaddr_bitmap (kernel_vaddr s))"
    and "\<not> used (vaddr_bitmap (kernel_vaddr s)) i" and "\<forall>j < i. used (vaddr_bitmap (kernel_vaddr s)) j"
    and "bitmap_wf (pool_bitmap (kernel_pool s))" and "f < bitmap_cap (pool_bitmap (kernel_pool s))"
    and "\<not> used (pool_bitmap (kernel_pool s)) f" and "\<forall>j < f. used (pool_bitmap (kernel_pool s)) j"
    and "v = vaddr_start (kernel_vaddr s) + of_nat i * PG_SIZE" and "v \<noteq> 0" and "v AND 0xfff = 0"
    and "P = of_nat f * PG_SIZE + phy_address_start (kernel_pool s)" and "P \<noteq> 0" and "frame_of P = P"
    and "present (pmem s (pde_addr (cr3 s) v))" and "frame_of (pmem s (pde_addr (cr3 s) v)) \<noteq> cr3 s"
    and "\<not> present (pmem s (slot (cr3 s) (pmem s) v))" and "table_free (cr3 s) (pmem s) P"
  shows "\<exists>s'. get_kernel_page 1 s = Inr (v, s') \<and> mmu_walk (cr3 s) (pmem s') v = Some P \<and>
           (\<forall>a. frame_of a = P \<longrightarrow> pmem s' a = 0) \<and>
           (\<forall>w q. mmu_walk (cr3 s) (pmem s) w = Some q \<longrightarrow> mmu_walk (cr3 s) (pmem s') w = Some q) \<and>
           (\<forall>j. used (vaddr_bitmap (kernel_vaddr s')) j \<longleftrightarrow> j = i \<or> used (vaddr_bitmap (kernel_vaddr s)) j) \<and>
           (\<forall>j. used (pool_bitmap (kernel_pool s')) j \<longleftrightarrow> j = f \<or> used (pool_bitmap (kernel_pool s)) j) \<and>
           cr3 s' = cr3 s \<and> tasks s' = tasks s \<and> lock_free Kernel_pool_lock s'"
proof -
  from assms have "next_page s i f v P" unfolding next_page_def by (intro conjI) assumption+
  from get_kernel_page_ok [OF assms(1) this] obtain s' where
    "get_kernel_page 1 s = Inr (v, s')" "data_page s' v P" "\<forall>a. frame_of a = P \<longrightarrow> pmem s' a = 0"
    "\<forall>w q. mmu_walk (cr3 s) (pmem s) w = Some q \<longrightarrow> mmu_walk (cr3 s) (pmem s') w = Some q"
    "\<forall>j. used (vaddr_bitmap (kernel_vaddr s')) j \<longleftrightarrow> j = i \<or> used (vaddr_bitmap (kernel_vaddr s)) j"
    "\<forall>j. used (pool_bitmap (kernel_pool s')) j \<longleftrightarrow> j = f \<or> used (pool_bitmap (kernel_pool s)) j"
    "page_frame s s'" "lock_free Kernel_pool_lock s'" by (elim exE conjE) (rule that)
  then show ?thesis
    by (intro exI [of _ s']) (simp add: data_page_def page_frame_def)
qed

theorem get_kernel_page_maps_a_clear_page_witness:
  "\<exists>s'. get_kernel_page 1 (demo_heap_state\<lparr>kernel_vaddr :=
       \<lparr>vaddr_bitmap = \<lparr>btmp_bytes_len = 2, bits = [0, 0, 0]\<rparr>, vaddr_start = 0x2000\<rparr>\<rparr>) = Inr (0x2000, s') \<and>
     mmu_walk 0x100000 (pmem s') 0x2000 = Some 0x201000"
proof -
  let ?s = "demo_heap_state\<lparr>kernel_vaddr :=
       \<lparr>vaddr_bitmap = \<lparr>btmp_bytes_len = 2, bits = [0, 0, 0]\<rparr>, vaddr_start = 0x2000\<rparr>\<rparr>"
  note h = demo_heap_state_def Let_def list_init_def
  have sel: "cr3 ?s = 0x100000" "pmem ?s = demo_pm" "running ?s = 0xc009e000"
    "kernel_pool ?s = kernel_pool demo_mstate" by (simp_all add: h)
  have lf: "lock_free Kernel_pool_lock ?s"
    by (simp add: lock_free_def sel) (simp add: h demo_mstate_def kstate.defs mstate.defs
      demo_locked_def demo_kernel_def queue_def dll_def)
  have rec: "recursive_map (cr3 ?s) (pmem ?s)"
    by (simp add: sel recursive_map_def demo_pm_def PG_P_def frame_of_def)
  have "frame_of (demo_pm (pde_addr 0x100000 v)) \<noteq> 0x201000" if "present (demo_pm (pde_addr 0x100000 v))" for v
  proof -
    have "demo_pm (pde_addr 0x100000 v) \<noteq> 0" using that not_present_0 by metis
    from demo_pde [OF this] show ?thesis by (auto simp: demo_pm_def frame_of_def)
  qed
  then have tf: "table_free (cr3 ?s) (pmem ?s) 0x201000" by (simp add: table_free_def sel)
  have m: "demo_pm (pde_addr 0x100000 0x2000) = 0x101007" "slot 0x100000 demo_pm 0x2000 = 0x101008"
    "demo_pm 0x101008 = 0"
    by (simp_all add: demo_pm_def pde_addr_def slot_def pte_addr_def frame_of_def)
  have u: "\<forall>j < 1. used \<lparr>btmp_bytes_len = 2, bits = [1, 0, 0 :: u8]\<rparr> j"
    "\<not> used \<lparr>btmp_bytes_len = 2, bits = [1, 0, 0 :: u8]\<rparr> 1"
    "\<not> used \<lparr>btmp_bytes_len = 2, bits = [0, 0, 0 :: u8]\<rparr> 0"
    by (simp_all add: used_def)
  have bit1: "present (0x101007 :: u32)" "\<not> present 0" "frame_of (0x101007 :: u32) = 0x101000"
    "frame_of (0x201000 :: u32) = 0x201000"
    by (simp_all add: present_def PG_P_def frame_of_def)
  from get_kernel_page_maps_a_clear_page [OF lf rec, of 0 1 "0x2000" "0x201000"] tf m u bit1
  show ?thesis by (auto simp: sel bitmap_wf_def bitmap_cap_def nbits_def PG_SIZE_def)
qed

end
