(* ===== verification/Process.thy ===== *)
theory Process
  imports Allocation
begin

text \<open>
  Creation of threads (\<open>thread/thread.c\<close>) and of user processes (\<open>userprog/process.c\<close>), the idle
  thread, the thread that \<open>kernel/main.c\<close> becomes, and \<open>userprog/syscall_init.c\<close>.  A PCB page
  comes from \<open>get_kernel_page\<close>; its first bytes are the \<open>task_struct\<close>, and the two frames the code
  writes at the top of its stack are records at the address the code computes for them.
  Functions a thread can start with are the constructors of \<open>kcode\<close>.
\<close>

section \<open>State\<close>

datatype kcode =
    Kernel_thread
  | Idle
  | Start_process
  | Code_at u32

record thread_stack =
  ts_ebp :: u32
  ts_ebx :: u32
  ts_edi :: u32
  ts_esi :: u32
  ts_eip :: kcode
  ts_function :: kcode
  ts_func_arg :: u32

text \<open>The fields of \<open>struct intr_stack\<close> that \<open>start_process\<close> writes.\<close>

record intr_stack =
  is_edi :: u32
  is_esi :: u32
  is_ebp :: u32
  is_esp_dummy :: u32
  is_ebx :: u32
  is_edx :: u32
  is_ecx :: u32
  is_eax :: u32
  is_gs :: u32
  is_fs :: u32
  is_es :: u32
  is_ds :: u32
  is_eip :: u32
  is_cs :: u32
  is_eflags :: u32
  is_esp :: u32
  is_ss :: u32

record pstate = mstate +
  thread_stacks :: "u32 \<Rightarrow> thread_stack option"
  intr_stacks :: "u32 \<Rightarrow> intr_stack option"

section \<open>Threads\<close>

text \<open>The value returned is read after the lock was released.\<close>

definition allocate_pid :: "'z mstate_scheme \<Rightarrow> (u16 \<times> 'z mstate_scheme) res" where
  "allocate_pid s =
     bindE (lock_acquire Pid_lock s) (\<lambda>s1.
     bindE (lock_release Pid_lock (s1\<lparr>next_pid := next_pid s1 + 1\<rparr>)) (\<lambda>s2.
       Inr (next_pid s2, s2)))"

definition zero_desc :: mem_block_desc where
  "zero_desc = \<lparr>block_size = 0, blocks_pre_arena = 0\<rparr>"

definition zero_task :: task_struct where
  "zero_task = \<lparr>self_kstart = 0, pid = 0, status = TASK_RUNNING, priority = 0, tname = replicate 16 0,
     ticks = 0, elapsed_ticks = 0, fd_table = replicate 8 0, pgdir = 0,
     userprog_vadder = \<lparr>vaddr_bitmap = \<lparr>btmp_bytes_len = 0, bits = []\<rparr>, vaddr_start = 0\<rparr>,
     u_block_descs = replicate 7 zero_desc, cwd_inode_nr = 0, stack_magic = 0\<rparr>"

text \<open>\<open>memset(pthread, 0, sizeof(*pthread))\<close>: the two tags of the PCB become null pointers too.\<close>

definition zero_pcb :: "u32 \<Rightarrow> 'z mstate_scheme \<Rightarrow> 'z mstate_scheme res" where
  "zero_pcb t s =
     bindE (assertE (t \<noteq> 0)) (\<lambda>_.
       Inr (set_task t zero_task
         (s\<lparr>nprev := (nprev s)(Elem (General_tag t) := None, Elem (All_list_tag t) := None),
            nnext := (nnext s)(Elem (General_tag t) := None, Elem (All_list_tag t) := None)\<rparr>)))"

fun fd_loop :: "u32 list \<Rightarrow> nat \<Rightarrow> nat \<Rightarrow> u32 list res" where
  "fd_loop fds i 0 = Inr fds"
| "fd_loop fds i (Suc n) = bindE (wr fds i (-1)) (\<lambda>fds'. fd_loop fds' (Suc i) n)"

definition init_thread :: "u32 \<Rightarrow> buf \<Rightarrow> u32 \<Rightarrow> 'z mstate_scheme \<Rightarrow> 'z mstate_scheme res" where
  "init_thread pthread name prio s =
     bindE (zero_pcb pthread s) (\<lambda>s1.
     bindE (get_task pthread s1) (\<lambda>p1.
     bindE (strcpy (Some (tname p1)) (Some name)) (\<lambda>nm.
     let s2 = set_task pthread (p1\<lparr>tname := nm\<rparr>) s1 in
     bindE (allocate_pid s2) (\<lambda>(new_pid, s3).
     bindE (get_task pthread s3) (\<lambda>p3.
     bindE (wr (fd_table p3) 0 0) (\<lambda>f0. bindE (wr f0 1 1) (\<lambda>f1. bindE (wr f1 2 2) (\<lambda>f2.
     bindE (fd_loop f2 3 5) (\<lambda>fds.
       Inr (set_task pthread
         (p3\<lparr>pid := new_pid,
             status := if pthread = main_thread s3 then TASK_RUNNING else TASK_READY,
             fd_table := fds, pgdir := 0, ticks := ucast prio, elapsed_ticks := 0,
             priority := ucast prio, stack_magic := 0x19980320,
             self_kstart := pthread + PG_SIZE\<rparr>) s3))))))))))"

text \<open>
  \<open>self_kstart\<close> is a pointer to words: subtracting \<open>sizeof(struct intr_stack)\<close>, 76, moves it by 76
  words, \<open>sizeof(struct thread_stack)\<close>, 32, by 32 words.
\<close>

definition thread_create :: "u32 \<Rightarrow> kcode \<Rightarrow> u32 \<Rightarrow> 'z pstate_scheme \<Rightarrow> 'z pstate_scheme res" where
  "thread_create pthread func arg s =
     bindE (get_task pthread s) (\<lambda>p.
     let ks = self_kstart p - 4 * 76 - 4 * 32;
         s1 = set_task pthread (p\<lparr>self_kstart := ks\<rparr>) s in
     Inr (s1\<lparr>thread_stacks := (thread_stacks s1)(ks \<mapsto>
            \<lparr>ts_ebp = 0, ts_ebx = 0, ts_edi = 0, ts_esi = 0, ts_eip = Kernel_thread,
             ts_function = func, ts_func_arg = arg\<rparr>)\<rparr>))"

definition enqueue_new :: "klid \<Rightarrow> ktag \<Rightarrow> 'z kstate_scheme \<Rightarrow> 'z kstate_scheme res" where
  "enqueue_new l tag s =
     bindE (q_find l tag s) (\<lambda>found. bindE (assertE (\<not> found)) (\<lambda>_. q_append l tag s))"

definition thread_start :: "buf \<Rightarrow> u32 \<Rightarrow> kcode \<Rightarrow> u32 \<Rightarrow> 'z pstate_scheme \<Rightarrow> (u32 \<times> 'z pstate_scheme) res" where
  "thread_start name prio func arg s =
     bindE (get_kernel_page 1 s) (\<lambda>(thread, s1).
     bindE (init_thread thread name prio s1) (\<lambda>s2.
     bindE (thread_create thread func arg s2) (\<lambda>s3.
     bindE (enqueue_new Thread_ready_list (General_tag thread) s3) (\<lambda>s4.
     bindE (enqueue_new Thread_all_list (All_list_tag thread) s4) (\<lambda>s5.
       Inr (thread, s5))))))"

text \<open>\<open>kernel_thread\<close> up to the call of the thread's function.\<close>

definition kernel_thread :: "'z kstate_scheme \<Rightarrow> 'z kstate_scheme" where
  "kernel_thread s = snd (intr_enable s)"

text \<open>\<open>''main''\<close> and \<open>''idle''\<close> with their terminating zero.\<close>

definition main_name :: buf where
  "main_name = [0x6d, 0x61, 0x69, 0x6e, 0]"

definition idle_name :: buf where
  "idle_name = [0x69, 0x64, 0x6c, 0x65, 0]"

definition make_main_thread :: "'z mstate_scheme \<Rightarrow> 'z mstate_scheme res" where
  "make_main_thread s =
     (let s1 = s\<lparr>main_thread := running s\<rparr> in
      bindE (init_thread (main_thread s1) main_name 1 s1) (\<lambda>s2.
        q_append Thread_all_list (General_tag (main_thread s2)) s2))"

definition thread_init :: "'z pstate_scheme \<Rightarrow> 'z pstate_scheme res" where
  "thread_init s =
     (let s1 = list_init (klist Thread_ready_list) s;
          s2 = list_init (klist Thread_all_list) s1;
          s3 = lock_init Pid_lock s2 in
      bindE (make_main_thread s3) (\<lambda>s4.
      bindE (thread_start idle_name 10 Idle 0 s4) (\<lambda>(t, s5). Inr (s5\<lparr>idle_thread := t\<rparr>))))"

section \<open>Processes\<close>

definition SELECTOR_U_CODE :: u32 where
  "SELECTOR_U_CODE = push_bit 3 5 + push_bit 2 0 + 3"

definition SELECTOR_U_DATA :: u32 where
  "SELECTOR_U_DATA = push_bit 3 6 + push_bit 2 0 + 3"

definition USER_VADDR_START :: u32 where
  "USER_VADDR_START = 0x8048000"

definition USER_STACK3_VADDR :: u32 where
  "USER_STACK3_VADDR = 0xc0000000 - 0x1000"

text \<open>
  \<open>start_process\<close> up to the jump to \<open>intr_exit\<close>, which pops the frame at the stack pointer it
  returns.  \<open>get_a_page\<close> is called after the other fields were written.
\<close>

definition start_process :: "u32 \<Rightarrow> 'z pstate_scheme \<Rightarrow> (u32 \<times> 'z pstate_scheme) res" where
  "start_process filename s =
     bindE (get_task (running s) s) (\<lambda>p.
     let ks = self_kstart p + 4 * 32;
         s1 = set_task (running s) (p\<lparr>self_kstart := ks\<rparr>) s in
     bindE (get_a_page POOL_FLAG_USER USER_STACK3_VADDR s1) (\<lambda>(stk, s2).
       Inr (ks, s2\<lparr>intr_stacks := (intr_stacks s2)(ks \<mapsto>
         \<lparr>is_edi = 0, is_esi = 0, is_ebp = 0, is_esp_dummy = 0, is_ebx = 0, is_edx = 0, is_ecx = 0,
          is_eax = 0, is_gs = SELECTOR_U_DATA, is_fs = SELECTOR_U_DATA, is_es = SELECTOR_U_DATA,
          is_ds = SELECTOR_U_DATA, is_eip = filename, is_cs = SELECTOR_U_CODE,
          is_eflags = 0 OR push_bit 1 1 OR push_bit 9 1, is_esp = stk + PG_SIZE,
          is_ss = SELECTOR_U_DATA\<rparr>)\<rparr>)))"

fun copy_words :: "u32 \<Rightarrow> u32 \<Rightarrow> nat \<Rightarrow> 'z mstate_scheme \<Rightarrow> 'z mstate_scheme res" where
  "copy_words dst src 0 s = Inr s"
| "copy_words dst src (Suc n) s =
     bindE (mem_load src s) (\<lambda>x. bindE (mem_store dst x s) (copy_words (dst + 4) (src + 4) n))"

definition create_page_dir :: "'z mstate_scheme \<Rightarrow> (u32 \<times> 'z mstate_scheme) res" where
  "create_page_dir s =
     bindE (get_kernel_page 1 s) (\<lambda>(page_dir_vaddr, s1).
     if page_dir_vaddr = 0 then Inr (0, s1)
     else
       bindE (copy_words (page_dir_vaddr + 0xc00) (0xfffff000 + 0xc00) (0x400 div 4) s1) (\<lambda>s2.
       bindE (addr_v2p (cr3 s2) (pmem s2) page_dir_vaddr) (\<lambda>new_page_dir_phy_addr.
       bindE (mem_store (page_dir_vaddr + 1023 * 4) (pg_entry new_page_dir_phy_addr) s2) (\<lambda>s3.
         Inr (page_dir_vaddr, s3)))))"

text \<open>\<open>get_kernel_page\<close> cleared the pages of the bitmap.\<close>

definition create_user_vaddr_bitmap :: "u32 \<Rightarrow> 'z mstate_scheme \<Rightarrow> 'z mstate_scheme res" where
  "create_user_vaddr_bitmap user_prog s =
     (let bitmap_pg_cnt = ((0xc0000000 - USER_VADDR_START) div PG_SIZE div 8 + PG_SIZE - 1) div PG_SIZE in
      bindE (get_kernel_page (unat bitmap_pg_cnt) s) (\<lambda>(page, s1).
      bindE (get_task user_prog s1) (\<lambda>p.
      bindE (assertE (page \<noteq> 0)) (\<lambda>_.
      bindE (bitmap_init \<lparr>btmp_bytes_len = unat (bitmap_pg_cnt * PG_SIZE),
                          bits = replicate (unat (bitmap_pg_cnt * PG_SIZE)) 0\<rparr>) (\<lambda>b.
        Inr (set_task user_prog
          (p\<lparr>userprog_vadder := \<lparr>vaddr_bitmap = b, vaddr_start = USER_VADDR_START\<rparr>\<rparr>) s1))))))"

definition process_execute :: "u32 \<Rightarrow> buf \<Rightarrow> 'z pstate_scheme \<Rightarrow> 'z pstate_scheme res" where
  "process_execute filename name s0 =
     (let (old_intr_status, s) = intr_disable s0 in
      bindE (get_kernel_page 1 s) (\<lambda>(thread, s1).
      bindE (init_thread thread name 31 s1) (\<lambda>s2.
      bindE (create_user_vaddr_bitmap thread s2) (\<lambda>s3.
      bindE (thread_create thread Start_process filename s3) (\<lambda>s4.
      bindE (create_page_dir s4) (\<lambda>(pd, s5).
      bindE (get_task thread s5) (\<lambda>p.
      let s6 = set_task thread (p\<lparr>pgdir := pd\<rparr>) s5;
          (ds, s7) = block_desc_init (U_block_descs thread) s6;
          s8 = set_task thread (p\<lparr>pgdir := pd, u_block_descs := ds\<rparr>) s7 in
      bindE (q_append Thread_ready_list (General_tag thread) s8) (\<lambda>s9.
      bindE (q_append Thread_all_list (All_list_tag thread) s9) (\<lambda>s10.
        Inr (snd (intr_set_status old_intr_status s10)))))))))))"

section \<open>System calls\<close>

datatype syscall_fn = Sys_getpid | Sys_write | Sys_malloc | Sys_free

definition syscall_init :: "syscall_fn option list \<Rightarrow> syscall_fn option list res" where
  "syscall_init tab =
     bindE (wr tab 0 (Some Sys_getpid)) (\<lambda>t0.
     bindE (wr t0 1 (Some Sys_write)) (\<lambda>t1.
     bindE (wr t1 2 (Some Sys_malloc)) (\<lambda>t2. wr t2 3 (Some Sys_free))))"

definition sys_getpid :: "'z kstate_scheme \<Rightarrow> u32 res" where
  "sys_getpid s = bindE (get_task (running s) s) (\<lambda>p. Inr (scast (pid p)))"

section \<open>A fresh PCB\<close>

lemma allocate_pid_free:
  assumes "lock_free Pid_lock s"
  shows "allocate_pid s = Inr (next_pid s + 1, lock_freed Pid_lock (s\<lparr>next_pid := next_pid s + 1\<rparr>))"
proof -
  let ?h = "(lock_held Pid_lock s)\<lparr>next_pid := next_pid s + 1\<rparr>"
  have n: "next_pid (lock_held Pid_lock s) = next_pid s" by (simp add: lock_held_def)
  have q: "queue (s\<lparr>next_pid := v\<rparr>) l xs = queue s l xs" for v l xs by (simp add: queue_def dll_def)
  have "lock_release Pid_lock ?h = Inr (lock_freed Pid_lock ?h)"
    by (rule lock_release_last)
      (use assms in \<open>simp_all add: lock_free_def lock_held_def queue_def dll_def\<close>)
  moreover have "lock_freed Pid_lock ?h = lock_freed Pid_lock (s\<lparr>next_pid := next_pid s + 1\<rparr>)"
    by (simp add: lock_freed_def lock_held_def)
  moreover have "next_pid (lock_freed Pid_lock (s\<lparr>next_pid := next_pid s + 1\<rparr>)) = next_pid s + 1"
    by (simp add: lock_freed_def)
  ultimately show ?thesis
    using lock_acquire_free [OF assms] n by (simp add: allocate_pid_def)
qed

definition zeroed_tags :: "u32 \<Rightarrow> 'z mstate_scheme \<Rightarrow> 'z mstate_scheme" where
  "zeroed_tags t s =
     s\<lparr>nprev := (nprev s)(Elem (General_tag t) := None, Elem (All_list_tag t) := None),
       nnext := (nnext s)(Elem (General_tag t) := None, Elem (All_list_tag t) := None)\<rparr>"

lemma zeroed_tags_queue:
  "General_tag t \<notin> set xs \<Longrightarrow> All_list_tag t \<notin> set xs \<Longrightarrow> queue (zeroed_tags t s) l xs = queue s l xs"
  unfolding queue_def by (rule dll_frame) (auto simp: nodes_klist zeroed_tags_def)

lemma fd_loop_std: "fd_loop [0, 1, 2, 0, 0, 0, 0, 0] 3 5 = Inr [0, 1, 2, -1, -1, -1, -1, -1]"
  by (simp add: eval_nat_numeral)

text \<open>The PCB \<open>init_thread\<close> builds.\<close>

definition fresh_task :: "u32 \<Rightarrow> buf \<Rightarrow> u32 \<Rightarrow> bool \<Rightarrow> u16 \<Rightarrow> task_struct" where
  "fresh_task t nm prio is_main new_pid = zero_task
     \<lparr>self_kstart := t + PG_SIZE, pid := new_pid,
      status := if is_main then TASK_RUNNING else TASK_READY, priority := ucast prio,
      tname := nm, ticks := ucast prio, fd_table := [0, 1, 2, -1, -1, -1, -1, -1],
      stack_magic := 0x19980320\<rparr>"

lemma init_thread_ok:
  assumes "lock_free Pid_lock s" and "t \<noteq> 0" and "strcpy (Some (replicate 16 0)) (Some name) = Inr nm"
  shows "init_thread t name prio s = Inr (set_task t (fresh_task t nm prio (t = main_thread s) (next_pid s + 1))
           (lock_freed Pid_lock ((zeroed_tags t s)\<lparr>next_pid := next_pid s + 1\<rparr>)))"
proof -
  let ?z = "set_task t zero_task (zeroed_tags t s)"
  let ?n = "set_task t (zero_task\<lparr>tname := nm\<rparr>) ?z"
  have z: "zero_pcb t s = Inr ?z" using assms(2) by (simp add: zero_pcb_def zeroed_tags_def)
  have q: "queue (zeroed_tags t s) (Waiters (Lock_sema Pid_lock)) []"
    using assms(1) zeroed_tags_queue [of t "[]" s "Waiters (Lock_sema Pid_lock)"]
    by (simp add: lock_free_def)
  have "lock_free Pid_lock ?n"
    using q assms(1) by (simp add: lock_free_def zeroed_tags_def)
  note a = allocate_pid_free [OF this]
  let ?r = "lock_freed Pid_lock (?n\<lparr>next_pid := next_pid ?n + 1\<rparr>)"
  have np: "next_pid ?n = next_pid s" by (simp add: zeroed_tags_def)
  have mt: "main_thread ?r = main_thread s" and zm: "main_thread (zeroed_tags t s) = main_thread s"
    and zn: "next_pid (zeroed_tags t s) = next_pid s"
    by (simp_all add: zeroed_tags_def)
  have gt: "get_task t ?r = Inr (zero_task\<lparr>tname := nm\<rparr>)"
    by (simp add: get_task_def lock_freed_def set_task_def)
  have fin: "set_task t x ?r = set_task t x (lock_freed Pid_lock ((zeroed_tags t s)\<lparr>next_pid := next_pid s + 1\<rparr>))" for x
    by (simp add: set_task_def lock_freed_def zeroed_tags_def)
  have tn: "tname zero_task = replicate 16 0" by (simp add: zero_task_def)
  have fd: "fd_table zero_task = replicate 8 0" by (simp add: zero_task_def)
  have w: "wr (replicate 8 0) 0 0 = Inr (replicate 8 (0 :: u32))" "wr (replicate 8 (0 :: u32)) (Suc 0) 1 = Inr [0, 1, 0, 0, 0, 0, 0, 0]"
    "wr [0, 1, 0, 0, 0, 0, 0, 0 :: u32] 2 2 = Inr [0, 1, 2, 0, 0, 0, 0, 0]"
    by (simp_all add: wr_def eval_nat_numeral)
  have ft: "zero_task\<lparr>tname := nm, pid := next_pid s + 1,
      status := if t = main_thread s then TASK_RUNNING else TASK_READY,
      fd_table := [0, 1, 2, -1, -1, -1, -1, -1], pgdir := 0, ticks := ucast prio, elapsed_ticks := 0,
      priority := ucast prio, stack_magic := 0x19980320, self_kstart := t + PG_SIZE\<rparr> =
      fresh_task t nm prio (t = main_thread s) (next_pid s + 1)"
    by (simp add: fresh_task_def zero_task_def)
  show ?thesis
    using a gt fin w fd_loop_std ft
    by (simp add: init_thread_def z tn assms(3) Let_def np mt fd zm zn if_distrib cong: if_cong)
qed

lemma init_thread_long_name:
  assumes "t \<noteq> 0" and "strcpy (Some (replicate 16 0)) (Some name) = Inl e"
  shows "init_thread t name prio s = Inl e"
  using assms by (simp add: init_thread_def zero_pcb_def zero_task_def)

section \<open>Properties\<close>

text \<open>A new thread's PCB: \<open>init_thread\<close> gives it the next pid, the three standard descriptors and
  five free ones, its priority as its ticks, the stack at the end of its page, the magic number
  and, unless it is the main thread, the status ready; the pid lock is free again and no queue
  without its tags changes.\<close>

theorem init_thread_fills_the_pcb:
  assumes "lock_free Pid_lock s" and "t \<noteq> 0" and "strcpy (Some (replicate 16 0)) (Some name) = Inr nm"
  shows "\<exists>s'. init_thread t name prio s = Inr s' \<and>
           tasks s' = (tasks s)(t \<mapsto> fresh_task t nm prio (t = main_thread s) (next_pid s + 1)) \<and>
           next_pid s' = next_pid s + 1 \<and> running s' = running s \<and> lock_free Pid_lock s' \<and>
           (\<forall>l xs. General_tag t \<notin> set xs \<longrightarrow> All_list_tag t \<notin> set xs \<longrightarrow> queue s l xs \<longrightarrow> queue s' l xs)"
proof -
  let ?s' = "set_task t (fresh_task t nm prio (t = main_thread s) (next_pid s + 1))
           (lock_freed Pid_lock ((zeroed_tags t s)\<lparr>next_pid := next_pid s + 1\<rparr>))"
  have q: "queue ?s' l xs = queue (zeroed_tags t s) l xs" for l xs
    unfolding set_task_simps by (rule queue_pointers) (simp_all add: lock_freed_def)
  have keep: "queue ?s' l xs"
    if "General_tag t \<notin> set xs" and "All_list_tag t \<notin> set xs" and "queue s l xs" for l xs
    using that zeroed_tags_queue [of t xs s l] unfolding q by simp
  have "running s \<noteq> 0" and "queue s (Waiters (Lock_sema Pid_lock)) []"
    using assms(1) by (simp_all add: lock_free_def)
  with keep [of "[]" "Waiters (Lock_sema Pid_lock)"] have "lock_free Pid_lock ?s'"
    unfolding lock_free_def by (simp add: lock_freed_def zeroed_tags_def)
  then show ?thesis
    using init_thread_ok [OF assms, of prio] keep
    by (intro exI [of _ ?s']) (simp add: lock_freed_def zeroed_tags_def)
qed

lemma demo_pid_lock: "lock_free Pid_lock (list_init (klist (Waiters (Lock_sema Pid_lock))) demo_mstate)"
proof -
  let ?s = "list_init (klist (Waiters (Lock_sema Pid_lock))) demo_mstate"
  have "queue ?s (Waiters (Lock_sema Pid_lock)) []"
    using list_init_dll [of "klist (Waiters (Lock_sema Pid_lock))" demo_mstate] by (simp add: queue_def)
  then show ?thesis
    by (simp add: lock_free_def list_init_def demo_mstate_def kstate.defs mstate.defs demo_locked_def
        demo_kernel_def)
qed

theorem init_thread_fills_the_pcb_witness:
  "\<exists>s'. init_thread 0xc0101000 idle_name 10 (list_init (klist (Waiters (Lock_sema Pid_lock))) demo_mstate) = Inr s' \<and>
     map_option ticks (tasks s' 0xc0101000) = Some 10 \<and> lock_free Pid_lock s'"
proof -
  have "strcpy (Some (replicate 16 0)) (Some idle_name) =
      Inr [0x69, 0x64, 0x6c, 0x65, 0, 0, 0, 0, 0, 0, 0, 0, 0, 0, 0, 0]"
    by (simp add: idle_name_def) code_simp
  from init_thread_fills_the_pcb [where t = "0xc0101000" and prio = 10, OF demo_pid_lock _ this]
  show ?thesis by (auto simp: fresh_task_def)
qed

section \<open>The main thread is in two lists\<close>

lemma damaged_all_list:
  assumes "queue s Thread_all_list (General_tag m # xs)" and "queue s Thread_ready_list ys"
    and "nnext s (Tail Thread_ready_list) = None" and "General_tag m \<notin> set ys" and "tag \<noteq> General_tag m"
  shows "\<exists>s2. q_append Thread_ready_list (General_tag m) s = Inr s2 \<and>
           enqueue_new Thread_all_list tag s2 = Inl NullPointer"
proof -
  let ?m = "Elem (General_tag m)" and ?t = "Tail Thread_ready_list" and ?h = "Head Thread_all_list"
  define p where "p = last (Head Thread_ready_list # map Elem ys)"
  have p: "nprev s ?t = Some p"
    using assms(2) chain_last unfolding queue_def dll_def p_def by fastforce
  have pin: "p \<in> {Head Thread_ready_list} \<union> Elem ` set ys"
    using last_in_set [of "Head Thread_ready_list # map Elem ys"] by (auto simp: p_def)
  have h: "nnext s ?h = Some ?m" using assms(1) by (simp add: queue_def dll_def)
  let ?s2 = "s\<lparr>nprev := (nprev s)(?m := Some p, ?t := Some ?m), nnext := (nnext s)(p := Some ?m, ?m := Some ?t)\<rparr>"
  have a: "q_append Thread_ready_list (General_tag m) s = Inr ?s2"
    using list_insert_before_eq [OF p, of ?m] by (simp add: q_append_def list_append_def)
  have "nnext ?s2 ?h = Some ?m" "nnext ?s2 ?m = Some ?t" "nnext ?s2 ?t = None"
    using h assms(3) pin by auto
  then have "elem_find_loop (nnext ?s2) (Tail Thread_all_list) (Elem tag) (nnext ?s2 ?h) = Some (Inl NullPointer)"
    using assms(5) by (simp add: elem_find_loop.simps del: fun_upd_apply)
  then have "q_find Thread_all_list tag ?s2 = Inl NullPointer"
    by (simp add: q_find_def elem_find_def run_loop_def)
  with a show ?thesis by (simp add: enqueue_new_def)
qed

text \<open>\<open>make_main_thread\<close> puts the main thread into the list of all threads with its
  \<open>general_tag\<close>, the tag the ready list uses.  Once \<open>schedule\<close> has put the running main thread into
  the ready list, the list of all threads leads into the ready list: entering a new thread
  (\<open>thread_start\<close>) follows it past the ready list's tail to a null pointer.\<close>

theorem main_thread_in_two_lists:
  assumes "lock_free Pid_lock s" and "queue s Thread_all_list []"
  shows "\<exists>s1. make_main_thread s = Inr s1 \<and> main_thread s1 = running s \<and>
           queue s1 Thread_all_list [General_tag (running s)] \<and>
           (\<forall>s2 xs ys tag. queue s2 Thread_all_list (General_tag (running s) # xs) \<longrightarrow>
              queue s2 Thread_ready_list ys \<longrightarrow> nnext s2 (Tail Thread_ready_list) = None \<longrightarrow>
              General_tag (running s) \<notin> set ys \<longrightarrow> tag \<noteq> General_tag (running s) \<longrightarrow>
              (\<exists>s3. q_append Thread_ready_list (General_tag (running s)) (s2 :: 'z mstate_scheme) = Inr s3 \<and>
                 enqueue_new Thread_all_list tag s3 = Inl NullPointer))"
proof -
  let ?s0 = "s\<lparr>main_thread := running s\<rparr>"
  have q: "queue ?s0 l xs = queue s l xs" for l xs by (rule queue_pointers) simp_all
  have l: "lock_free Pid_lock ?s0" using assms(1) q by (simp add: lock_free_def)
  have r: "running s \<noteq> 0" using assms(1) by (simp add: lock_free_def)
  have n: "strcpy (Some (replicate 16 0)) (Some main_name) =
      Inr [0x6d, 0x61, 0x69, 0x6e, 0, 0, 0, 0, 0, 0, 0, 0, 0, 0, 0, 0]"
    by (simp add: main_name_def) code_simp
  define s1 where "s1 = set_task (running s) (fresh_task (running s)
      [0x6d, 0x61, 0x69, 0x6e, 0, 0, 0, 0, 0, 0, 0, 0, 0, 0, 0, 0] 1 True (next_pid s + 1))
      (lock_freed Pid_lock ((zeroed_tags (running s) ?s0)\<lparr>next_pid := next_pid s + 1\<rparr>))"
  have i: "init_thread (running s) main_name 1 ?s0 = Inr s1"
    using init_thread_ok [OF l r n, of 1] by (simp add: s1_def)
  have "queue s1 Thread_all_list [] = queue (zeroed_tags (running s) ?s0) Thread_all_list []"
    unfolding s1_def set_task_simps by (rule queue_pointers) (simp_all add: lock_freed_def)
  then have q1: "queue s1 Thread_all_list []"
    using zeroed_tags_queue [of "running s" "[]" ?s0 Thread_all_list] assms(2) q by simp
  have m1: "main_thread s1 = running s" by (simp add: s1_def zeroed_tags_def)
  obtain s2 where s2: "q_append Thread_all_list (General_tag (running s)) s1 = Inr s2"
    "queue s2 Thread_all_list [General_tag (running s)]" "only_lists s1 s2"
    using q_append_ok [OF q1, of "General_tag (running s)"] by auto
  then have "make_main_thread s = Inr s2" using i m1 by (simp add: make_main_thread_def)
  moreover have "main_thread s2 = running s" using s2(3) m1 by (simp add: frame_simps)
  ultimately show ?thesis
    by (intro exI [of _ s2] conjI s2(2) allI impI damaged_all_list)
qed

text \<open>The two lists as the boot leaves them.\<close>

definition demo_boot_lists :: mstate where
  "demo_boot_lists = demo_mstate\<lparr>
     nprev := (\<lambda>_. None)(Tail Thread_all_list \<mapsto> Elem (General_tag 0xc009e000),
                        Elem (General_tag 0xc009e000) \<mapsto> Head Thread_all_list,
                        Tail Thread_ready_list \<mapsto> Head Thread_ready_list),
     nnext := (\<lambda>_. None)(Head Thread_all_list \<mapsto> Elem (General_tag 0xc009e000),
                        Elem (General_tag 0xc009e000) \<mapsto> Tail Thread_all_list,
                        Head Thread_ready_list \<mapsto> Tail Thread_ready_list)\<rparr>"

theorem main_thread_in_two_lists_witness:
  "\<exists>s3. q_append Thread_ready_list (General_tag 0xc009e000) demo_boot_lists = Inr s3 \<and>
     enqueue_new Thread_all_list (All_list_tag 0xc0101000) s3 = Inl NullPointer"
proof -
  let ?s = "list_init (klist Thread_all_list) (list_init (klist (Waiters (Lock_sema Pid_lock))) demo_mstate)"
  have "queue ?s Thread_all_list []"
    using list_init_dll [of "klist Thread_all_list"] by (simp add: queue_def)
  moreover have "lock_free Pid_lock ?s"
    using demo_pid_lock by (simp add: lock_free_def queue_def dll_def list_init_def)
  moreover have "running ?s = 0xc009e000" by (simp add: list_init_def)
  moreover have "queue demo_boot_lists Thread_all_list [General_tag 0xc009e000]"
    "queue demo_boot_lists Thread_ready_list []" "nnext demo_boot_lists (Tail Thread_ready_list) = None"
    by (simp_all add: queue_def dll_def demo_boot_lists_def)
  ultimately show ?thesis
    using main_thread_in_two_lists [where s = ?s] by fastforce
qed

end
