(* ===== verification/Spaces.thy ===== *)
theory Spaces
  imports Process
begin

text \<open>
  The address spaces of user processes (\<open>create_page_dir\<close> of \<open>userprog/process.c\<close>) and what a new
  thread means to the scheduler (\<open>thread_start\<close> of \<open>thread/thread.c\<close>).  A new directory shares the
  kernel's page tables, shows itself in its last entry and has nothing below the kernel, so that
  the scheduler's assumption on the address spaces (\<open>spaces_ok\<close>) survives the creation of
  processes; \<open>thread_start\<close> adds one ready thread to the abstract scheduler.
\<close>

section \<open>Entries of a page directory\<close>

lemma page_low:
  fixes a :: u32
  assumes "a AND 0xfff = 0" and "k < 4096"
  shows "(a + of_nat k) AND 0xfff = of_nat k"
proof -
  let ?x = "a + of_nat k"
  have "frame_of ?x + (?x AND 0xfff) = frame_of ?x OR (?x AND 0xfff)"
    unfolding frame_of_def
    by (rule disjunctive_add) (auto simp: bit_simps bit_page_masks bit_page_masks2)
  also have "\<dots> = ?x"
    unfolding frame_of_def
    by (rule bit_word_eqI) (auto simp: bit_simps bit_page_masks bit_page_masks2 dest: bit_len32)
  finally show ?thesis using page_offset(1) [OF assms] by simp
qed

lemma aligned_low: "frame_of P = P \<Longrightarrow> P AND 0xfff = (0 :: u32)"
proof -
  assume "frame_of P = P"
  moreover have "frame_of P AND 0xfff = 0"
    unfolding frame_of_def by (rule bit_word_eqI) (auto simp: bit_simps bit_page_masks bit_page_masks2)
  ultimately show ?thesis by simp
qed

text \<open>Entry \<open>i\<close> of the directory in the frame \<open>d\<close>.\<close>

definition dir_entry :: "u32 \<Rightarrow> nat \<Rightarrow> u32" where
  "dir_entry d i = d + of_nat (4 * i)"

lemma dir_entry_frame: "frame_of d = d \<Longrightarrow> i < 1024 \<Longrightarrow> frame_of (dir_entry d i) = d"
  using page_offset(1) [OF aligned_low, of d "4 * i"] by (simp add: dir_entry_def)

lemma dir_entry_inj:
  assumes "frame_of d = d" and "i < 1024" and "j < 1024" and "dir_entry d i = dir_entry d j"
  shows "i = j"
proof -
  have "unat (dir_entry d i) = unat d + 4 * i" "unat (dir_entry d j) = unat d + 4 * j"
    unfolding dir_entry_def
    by (rule page_offset(2) [OF aligned_low [OF assms(1)]], use assms(2,3) in linarith)+
  then have "unat d + 4 * i = unat d + 4 * j" unfolding assms(4) by (rule trans [OF sym])
  then show ?thesis by simp
qed

lemma pde_addr_entry: "pde_addr d w = dir_entry d (unat w div 0x400000)"
proof -
  have "unat (drop_bit 22 w) = unat w div 0x400000"
    by (simp add: drop_bit_eq_div unat_div)
  then have "drop_bit 22 w = of_nat (unat w div 0x400000)" by (metis of_nat_unat ucast_id)
  then show ?thesis
    by (simp add: pde_addr_def dir_entry_def push_bit_eq_mult mult.commute)
qed

lemma walk_dir_window:
  assumes "recursive_map cr pm" and "i < 1024"
  shows "mmu_walk cr pm (0xfffff000 + of_nat (4 * i)) = Some (dir_entry cr i)"
proof -
  have g: "get_pde_ptr 0 = 0xfffff000" by (simp add: get_pde_ptr_def PDE_IDX_def)
  have w: "mmu_walk cr pm 0xfffff000 = Some cr"
    using walk_pde_ptr [OF assms(1), of 0] unfolding g by (simp add: pde_addr_def)
  have l: "(0xfffff000 :: u32) AND 0xfff = 0" by simp
  have k: "4 * i < 4096" using assms(2) by simp
  show ?thesis
    using walk_same_page [OF w l page_offset(1) [OF l k]] page_low [OF l k] by (simp add: dir_entry_def)
qed

lemma walk_data_page:
  assumes "data_page s v F" and "i < 1024"
  shows "mmu_walk (cr3 s) (pmem s) (v + of_nat (4 * i)) = Some (dir_entry F i)"
proof -
  have v: "v AND 0xfff = 0" "mmu_walk (cr3 s) (pmem s) v = Some F" using assms(1) by (auto simp: data_page_def)
  have k: "4 * i < 4096" using assms(2) by simp
  show ?thesis
    using walk_same_page [OF v(2,1) page_offset(1) [OF v(1) k]] page_low [OF v(1) k] by (simp add: dir_entry_def)
qed

section \<open>Copying the kernel's entries\<close>

text \<open>The entries \<open>k\<close> to \<open>k + n - 1\<close> of the current directory in a page that holds no page table.\<close>

lemma copy_words_entries:
  assumes "data_page s v F" and "k + n \<le> 1024"
  shows "\<exists>pm. copy_words (v + of_nat (4 * k)) (0xfffff000 + of_nat (4 * k)) n s = Inr (s\<lparr>pmem := pm\<rparr>) \<and>
           (\<forall>j. k \<le> j \<and> j < k + n \<longrightarrow> pm (dir_entry F j) = pmem s (dir_entry (cr3 s) j)) \<and>
           (\<forall>x. (\<forall>j. k \<le> j \<and> j < k + n \<longrightarrow> x \<noteq> dir_entry F j) \<longrightarrow> pm x = pmem s x)"
  using assms
proof (induction n arbitrary: k s)
  case 0
  show ?case by (intro exI [of _ "pmem s"]) auto
next
  case (Suc n)
  let ?e = "pmem s (dir_entry (cr3 s) k)"
  let ?s = "s\<lparr>pmem := (pmem s)(dir_entry F k := ?e)\<rparr>"
  have rec: "recursive_map (cr3 s) (pmem s)" and fF: "frame_of F = F" and ne: "F \<noteq> cr3 s"
    using Suc.prems(1) walk_aligned by (auto simp: data_page_def table_free_def)
  have k: "k < 1024" using Suc.prems(2) by simp
  have fc: "frame_of (cr3 s) = cr3 s" using recursive_aligned [OF rec] .
  have fr: "frame_of (dir_entry F k) = F" using dir_entry_frame [OF fF k] .
  have ds: "data_page ?s v F" by (rule data_page_keep(1) [OF Suc.prems(1)]) (use fr in auto)
  have "k + 1 + n \<le> 1024" using Suc.prems(2) by simp
  from Suc.IH [OF ds this] obtain pm where
    pm: "copy_words (v + of_nat (4 * (k + 1))) (0xfffff000 + of_nat (4 * (k + 1))) n ?s = Inr (?s\<lparr>pmem := pm\<rparr>)"
    "\<forall>j. k + 1 \<le> j \<and> j < k + 1 + n \<longrightarrow> pm (dir_entry F j) = pmem ?s (dir_entry (cr3 ?s) j)"
    "\<forall>x. (\<forall>j. k + 1 \<le> j \<and> j < k + 1 + n \<longrightarrow> x \<noteq> dir_entry F j) \<longrightarrow> pm x = pmem ?s x"
    by (elim exE conjE) (rule that)
  have a: "v + of_nat (4 * k) + 4 = v + of_nat (4 * (k + 1))"
    "0xfffff000 + of_nat (4 * k) + (4 :: u32) = 0xfffff000 + of_nat (4 * (k + 1))"
    by (simp_all add: algebra_simps)
  have "copy_words (v + of_nat (4 * k)) (0xfffff000 + of_nat (4 * k)) (Suc n) s = Inr (s\<lparr>pmem := pm\<rparr>)"
    using pm(1) mem_load_walk [OF walk_dir_window [OF rec k]] mem_store_walk [OF walk_data_page [OF Suc.prems(1) k]]
    unfolding copy_words.simps a by simp
  moreover have "pm (dir_entry F j) = pmem s (dir_entry (cr3 s) j)" if j: "k \<le> j \<and> j < k + Suc n" for j
  proof (cases "j = k")
    case True
    have "dir_entry F k \<noteq> dir_entry F i" if "k + 1 \<le> i \<and> i < k + 1 + n" for i
      using dir_entry_inj [OF fF k, of i] that Suc.prems(2) by auto
    then show ?thesis using pm(3) True by simp
  next
    case False
    have "dir_entry (cr3 s) j \<noteq> dir_entry F k"
      using dir_entry_frame [OF fc, of j] fr ne j Suc.prems(2) by auto
    then show ?thesis using pm(2) False j by simp
  qed
  moreover have "pm x = pmem s x" if x: "\<forall>j. k \<le> j \<and> j < k + Suc n \<longrightarrow> x \<noteq> dir_entry F j" for x
  proof -
    have "x \<noteq> dir_entry F k" "\<forall>j. k + 1 \<le> j \<and> j < k + 1 + n \<longrightarrow> x \<noteq> dir_entry F j" using x by auto
    then show ?thesis using pm(3) by simp
  qed
  ultimately show ?case by blast
qed

section \<open>A new directory\<close>

text \<open>The directory \<open>d\<close> shows itself in its last entry and has the kernel's page tables in the entries
  \<open>0x300\<close> to \<open>0x3fe\<close>.\<close>

definition shares_kernel :: "u32 \<Rightarrow> u32 \<Rightarrow> (u32 \<Rightarrow> u32) \<Rightarrow> bool" where
  "shares_kernel cr d pm \<longleftrightarrow>
     recursive_map d pm \<and> (\<forall>i. 0x300 \<le> i \<and> i < 0x3ff \<longrightarrow> pm (dir_entry d i) = pm (dir_entry cr i))"

lemma shares_kernel_walk:
  assumes "shares_kernel cr d pm" and "0xc0000000 \<le> w" and "w < 0xffc00000"
  shows "mmu_walk d pm w = mmu_walk cr pm w"
proof -
  have "0xc0000000 \<le> unat w" "unat w < 0xffc00000"
    using assms(2,3) by (simp_all add: word_le_nat_alt word_less_nat_alt)
  then have "0x300 \<le> unat w div 0x400000" "unat w div 0x400000 < 0x3ff" by linarith+
  then have "pm (pde_addr d w) = pm (pde_addr cr w)"
    using assms(1) unfolding pde_addr_entry by (simp add: shares_kernel_def)
  then show ?thesis by (simp add: mmu_walk_def)
qed

lemma no_user_walk:
  assumes "\<forall>i < 0x300. pm (dir_entry d i) = 0" and "w < 0xc0000000"
  shows "mmu_walk d pm w = None"
proof -
  have "unat w < 0xc0000000" using assms(2) by (simp add: word_less_nat_alt)
  then have "unat w div 0x400000 < 0x300" by linarith
  then have "pm (pde_addr d w) = 0" using assms(1) unfolding pde_addr_entry by simp
  then show ?thesis by (simp add: mmu_walk_def)
qed

lemma addr_v2p_walk:
  assumes "recursive_map cr pm" and "mmu_walk cr pm v = Some p"
  shows "addr_v2p cr pm v = Inr p"
proof -
  have "present (pm (pde_addr cr v))" using walk_Some_present [OF assms(2)] by simp
  from walk_pte_ptr [OF assms(1) this] assms(2) show ?thesis
    by (auto simp: addr_v2p_def load32_def frame_plus_offset [symmetric] mmu_walk_def Let_def split: if_splits)
qed

lemma next_pageD:
  assumes "next_page s i f v P"
  shows "recursive_map (cr3 s) (pmem s)" and "v \<noteq> 0" and "v AND 0xfff = 0" and "frame_of P = P"
    and "P \<noteq> 0" and "table_free (cr3 s) (pmem s) P"
  using assms unfolding next_page_def by - (elim conjE, assumption)+

lemma create_page_dir_ok:
  assumes "lock_free Kernel_pool_lock s" and np: "next_page s i f v P"
  shows "\<exists>s'. create_page_dir s = Inr (v, s') \<and> data_page s' v P \<and> shares_kernel (cr3 s) P (pmem s') \<and>
           (\<forall>i < 0x300. pmem s' (dir_entry P i) = 0) \<and>
           (\<forall>a. frame_of a \<noteq> P \<longrightarrow> a \<noteq> slot (cr3 s) (pmem s) v \<longrightarrow> pmem s' a = pmem s a) \<and>
           (\<forall>w q. mmu_walk (cr3 s) (pmem s) w = Some q \<longrightarrow> mmu_walk (cr3 s) (pmem s') w = Some q) \<and>
           page_frame s s' \<and> lock_free Kernel_pool_lock s'"
proof -
  from get_kernel_page_ok [OF assms] obtain s1 where
    s1: "get_kernel_page 1 s = Inr (v, s1)" "data_page s1 v P" "\<forall>a. frame_of a = P \<longrightarrow> pmem s1 a = 0"
    "\<forall>a. frame_of a \<noteq> P \<longrightarrow> a \<noteq> slot (cr3 s) (pmem s) v \<longrightarrow> pmem s1 a = pmem s a"
    "\<forall>w q. mmu_walk (cr3 s) (pmem s) w = Some q \<longrightarrow> mmu_walk (cr3 s) (pmem s1) w = Some q"
    "page_frame s s1" "lock_free Kernel_pool_lock s1" by (elim exE conjE) (rule that)
  have P: "frame_of P = P" and v0: "v \<noteq> 0" using next_pageD [OF np] by simp_all
  have cr: "cr3 s1 = cr3 s" using s1(6) by (simp add: page_frame_def)
  from copy_words_entries [OF s1(2), of "0x300" "0x100"] obtain pm where
    pm: "copy_words (v + of_nat (4 * 0x300)) (0xfffff000 + of_nat (4 * 0x300)) 0x100 s1 = Inr (s1\<lparr>pmem := pm\<rparr>)"
    "\<forall>j. 0x300 \<le> j \<and> j < 0x300 + 0x100 \<longrightarrow> pm (dir_entry P j) = pmem s1 (dir_entry (cr3 s1) j)"
    "\<forall>x. (\<forall>j. 0x300 \<le> j \<and> j < 0x300 + 0x100 \<longrightarrow> x \<noteq> dir_entry P j) \<longrightarrow> pm x = pmem s1 x"
    by (rule exE) (simp, elim conjE, rule that)
  let ?s2 = "s1\<lparr>pmem := pm\<rparr>" and ?l = "dir_entry P 0x3ff"
  have out: "pm x = pmem s1 x" if "frame_of x \<noteq> P" for x
  proof -
    have "x \<noteq> dir_entry P j" if "0x300 \<le> j \<and> j < 0x300 + 0x100" for j
      using \<open>frame_of x \<noteq> P\<close> dir_entry_frame [OF P, of j] that by auto
    then show ?thesis using pm(3) by blast
  qed
  have d2: "data_page ?s2 v P" by (rule data_page_keep(1) [OF s1(2)]) (simp_all add: out)
  let ?s3 = "?s2\<lparr>pmem := pm(?l := pg_entry P)\<rparr>"
  have fl: "frame_of ?l = P" using dir_entry_frame [OF P, of "0x3ff"] by simp
  have d3: "data_page ?s3 v P" by (rule data_page_keep(1) [OF d2]) (use fl in auto)
  have vp: "addr_v2p (cr3 ?s2) (pmem ?s2) v = Inr P"
    using d2 addr_v2p_walk [of "cr3 ?s2" "pmem ?s2" v P] by (simp add: data_page_def)
  have st: "mem_store (v + 1023 * 4) (pg_entry P) ?s2 = Inr ?s3"
    using mem_store_walk [OF walk_data_page [OF d2, of "0x3ff"]] by simp
  have get: "create_page_dir s = Inr (v, ?s3)"
    using s1(1) v0 pm(1) vp st by (simp add: create_page_dir_def)
  have "P + 0xffc = ?l" by (simp add: dir_entry_def)
  then have rec: "recursive_map P (pmem ?s3)"
    using pg_entry_present [of P] P by (simp add: recursive_map_def pg_entry_frame present_def)
  have cf: "frame_of (cr3 s) = cr3 s" and ne: "cr3 s \<noteq> P"
    using next_pageD(1,6) [OF np] recursive_aligned by (auto simp: table_free_def)
  have "pmem ?s3 (dir_entry P i) = pmem ?s3 (dir_entry (cr3 s) i)" if "0x300 \<le> i \<and> i < 0x3ff" for i
  proof -
    have "dir_entry P i \<noteq> ?l" using dir_entry_inj [OF P, of i "0x3ff"] that by auto
    moreover have f: "frame_of (dir_entry (cr3 s) i) = cr3 s" using dir_entry_frame [OF cf] that by simp
    ultimately show ?thesis using pm(2) out [of "dir_entry (cr3 s) i"] that ne fl cr by auto
  qed
  with rec have sk: "shares_kernel (cr3 s) P (pmem ?s3)" by (simp add: shares_kernel_def)
  have us: "pmem ?s3 (dir_entry P i) = 0" if "i < 0x300" for i
  proof -
    have n: "dir_entry P i \<noteq> dir_entry P j" if "0x300 \<le> j \<and> j < 0x300 + 0x100" for j
      using dir_entry_inj [OF P, of i j] that \<open>i < 0x300\<close> by auto
    have "pm (dir_entry P i) = pmem s1 (dir_entry P i)" using pm(3) n by blast
    then show ?thesis using n [of "0x3ff"] s1(3) dir_entry_frame [OF P, of i] that by simp
  qed
  have fo: "pmem ?s3 x = pmem s1 x" if "frame_of x \<noteq> P" for x using out [OF that] that fl by auto
  have wk: "mmu_walk (cr3 s) (pmem ?s3) w = mmu_walk (cr3 s) (pmem s1) w" for w
    using table_free_walk(1) [of "cr3 s1" "pmem s1" P "pmem ?s3"] s1(2) fo cr by (simp add: data_page_def)
  have pf: "page_frame s ?s3" using s1(6) by (simp add: page_frame_def)
  have lf: "lock_free Kernel_pool_lock ?s3" using s1(7) by (simp add: lock_free_def queue_def dll_def)
  show ?thesis
    using get d3 sk us fo s1(4,5) wk pf lf by (intro exI [of _ ?s3]) (simp del: fun_upd_apply)
qed

section \<open>All address spaces\<close>

text \<open>The directories in use, and what they have in common: the kernel's page tables, through which
  the directory of every process is mapped.\<close>

definition spaces :: "(u32 \<Rightarrow> u32) \<Rightarrow> (u32 \<Rightarrow> task_struct option) \<Rightarrow> u32 set" where
  "spaces phys ts = insert 0x100000 (space_of phys ` ran ts)"

definition spaces_shared :: "(u32 \<Rightarrow> u32) \<Rightarrow> (u32 \<Rightarrow> task_struct option) \<Rightarrow> u32 \<Rightarrow> (u32 \<Rightarrow> u32) \<Rightarrow> bool" where
  "spaces_shared phys ts cr pm \<longleftrightarrow>
     cr \<in> spaces phys ts \<and> (\<forall>d \<in> spaces phys ts. shares_kernel cr d pm) \<and>
     (\<forall>p \<in> ran ts. pgdir p \<noteq> 0 \<longrightarrow> 0xc0000000 \<le> pgdir p \<and> pgdir p < 0xffc00000 \<and>
        mmu_walk cr pm (pgdir p) = Some (phys (pgdir p)))"

lemma spaces_shared_ok:
  assumes "spaces_shared phys ts cr pm"
  shows "spaces_ok phys ts cr pm"
proof -
  have "addr_v2p d pm (pgdir p) = Inr (phys (pgdir p))"
    if "d \<in> spaces phys ts" "p \<in> ran ts" "pgdir p \<noteq> 0" for d p
  proof (rule addr_v2p_walk)
    have d: "shares_kernel cr d pm" using assms that(1) by (simp add: spaces_shared_def)
    then show "recursive_map d pm" by (simp add: shares_kernel_def)
    show "mmu_walk d pm (pgdir p) = Some (phys (pgdir p))"
      using assms that(2,3) shares_kernel_walk [OF d, of "pgdir p"] by (simp add: spaces_shared_def)
  qed
  then show ?thesis using assms by (auto simp: spaces_ok_def spaces_shared_def spaces_def)
qed

lemma spaces_shared_switch:
  assumes "spaces_shared phys ts cr pm" and "d \<in> spaces phys ts"
  shows "spaces_shared phys ts d pm"
proof -
  have d: "shares_kernel cr d pm" using assms by (simp add: spaces_shared_def)
  have "shares_kernel d e pm" if "e \<in> spaces phys ts" for e
  proof -
    have "shares_kernel cr e pm" using assms(1) that by (simp add: spaces_shared_def)
    with d show ?thesis unfolding shares_kernel_def by metis
  qed
  moreover have "mmu_walk d pm (pgdir p) = Some (phys (pgdir p)) \<and> 0xc0000000 \<le> pgdir p \<and> pgdir p < 0xffc00000"
    if "p \<in> ran ts" "pgdir p \<noteq> 0" for p
  proof -
    have "0xc0000000 \<le> pgdir p" "pgdir p < 0xffc00000" "mmu_walk cr pm (pgdir p) = Some (phys (pgdir p))"
      using assms(1) that unfolding spaces_shared_def by blast+
    with shares_kernel_walk [OF d] show ?thesis by simp
  qed
  ultimately show ?thesis using assms(2) unfolding spaces_shared_def by blast
qed

lemma recursive_entry: "recursive_map d pm \<longleftrightarrow>
  pm (dir_entry d 0x3ff) AND PG_P \<noteq> 0 \<and> frame_of (pm (dir_entry d 0x3ff)) = d"
  by (simp add: recursive_map_def dir_entry_def)

lemma shares_kernel_keep:
  assumes "shares_kernel cr d pm" and "frame_of cr = cr"
    and "\<And>a. frame_of a = cr \<or> frame_of a = d \<Longrightarrow> pm' a = pm a"
  shows "shares_kernel cr d pm'"
proof -
  have d: "frame_of d = d" using assms(1) recursive_aligned [of d pm] by (simp add: shares_kernel_def)
  have "pm' (dir_entry d i) = pm (dir_entry d i)" "pm' (dir_entry cr i) = pm (dir_entry cr i)" if "i < 1024" for i
    using assms(3) dir_entry_frame [OF d that] dir_entry_frame [OF assms(2) that] by simp_all
  then show ?thesis using assms(1) by (simp add: shares_kernel_def recursive_entry)
qed

text \<open>A directory entered into the PCB of a thread that had none.\<close>

lemma spaces_shared_new:
  assumes sh: "spaces_shared phys ts cr pm" and t: "ts t = Some p" "pgdir p = 0"
    and keep: "\<And>a. frame_of a \<in> spaces phys ts \<Longrightarrow> pm' a = pm a"
    and walks: "\<And>w q. mmu_walk cr pm w = Some q \<Longrightarrow> mmu_walk cr pm' w = Some q"
    and new: "shares_kernel cr P pm'" "mmu_walk cr pm v = None" "mmu_walk cr pm' v = Some P"
    and v: "0xc0000000 \<le> v" "v < 0xffc00000"
  shows "spaces_shared (phys(v := P)) (ts(t \<mapsto> p\<lparr>pgdir := v\<rparr>)) cr pm'"
proof -
  let ?ts = "ts(t \<mapsto> p\<lparr>pgdir := v\<rparr>)" and ?ph = "phys(v := P)"
  have v0: "v \<noteq> 0" using v(1) by auto
  have old: "q = p\<lparr>pgdir := v\<rparr> \<or> q \<in> ran ts" if "q \<in> ran ?ts" for q
    using that by (auto simp: ran_def split: if_splits)
  have nv: "pgdir q \<noteq> v" if "q \<in> ran ts" for q
    using sh that new(2) v0 by (auto simp: spaces_shared_def)
  have so: "space_of ?ph q = space_of phys q" if "q \<in> ran ts" for q
    using nv [OF that] by (simp add: space_of_def)
  have sub: "d = P \<or> d \<in> spaces phys ts" if "d \<in> spaces ?ph ?ts" for d
    using that old so v0 by (fastforce simp: spaces_def space_of_def)
  have cs: "cr \<in> spaces phys ts" using sh by (simp add: spaces_shared_def)
  have "cr \<in> spaces ?ph ?ts"
  proof (cases "cr = 0x100000")
    case False
    with cs obtain u q where u: "ts u = Some q" "cr = space_of phys q" by (auto simp: spaces_def ran_def)
    with False t have "?ts u = Some q" by (auto simp: space_of_def)
    then have "q \<in> ran ?ts" by (rule ranI)
    moreover have "cr = space_of ?ph q" using u so [of q] by (simp add: ranI)
    ultimately show ?thesis unfolding spaces_def by blast
  qed (simp add: spaces_def)
  moreover have fc: "frame_of cr = cr"
    using sh cs recursive_aligned by (auto simp: spaces_shared_def shares_kernel_def)
  have "shares_kernel cr d pm'" if "d \<in> spaces ?ph ?ts" for d
    using sub [OF that] new(1) sh shares_kernel_keep [OF _ fc, of d pm pm'] keep cs
    by (auto simp: spaces_shared_def)
  moreover have "mmu_walk cr pm' (pgdir q) = Some (?ph (pgdir q)) \<and> 0xc0000000 \<le> pgdir q \<and> pgdir q < 0xffc00000"
    if "q \<in> ran ?ts" "pgdir q \<noteq> 0" for q
    using old [OF that(1)] nv that(2) new(3) v sh walks by (auto simp: spaces_shared_def)
  ultimately show ?thesis by (simp add: spaces_shared_def)
qed

text \<open>The directory made for the thread \<open>t\<close>, seen from any assignment of PCBs in which \<open>t\<close> has none.\<close>

lemma create_page_dir_spaces:
  assumes "lock_free Kernel_pool_lock s" and np: "next_page s i f v P"
    and v: "0xc0000000 \<le> v" "v < 0xffc00000"
    and sh: "spaces_shared phys ts (cr3 s) (pmem s)" and fresh: "P \<notin> spaces phys ts"
    "frame_of (pmem s (pde_addr (cr3 s) v)) \<notin> spaces phys ts"
    and t: "ts t = Some p" "pgdir p = 0"
  shows "\<exists>s'. create_page_dir s = Inr (v, s') \<and> (\<forall>w < 0xc0000000. mmu_walk P (pmem s') w = None) \<and>
           (\<forall>w q. 0xc0000000 \<le> w \<longrightarrow> w < 0xffc00000 \<longrightarrow> mmu_walk (cr3 s) (pmem s) w = Some q \<longrightarrow>
              mmu_walk P (pmem s') w = Some q) \<and>
           spaces_shared (phys(v := P)) (ts(t \<mapsto> p\<lparr>pgdir := v\<rparr>)) (cr3 s) (pmem s') \<and>
           page_frame s s' \<and> lock_free Kernel_pool_lock s'"
proof -
  from create_page_dir_ok [OF assms(1,2)] obtain s' where
    s': "create_page_dir s = Inr (v, s')" "data_page s' v P" "shares_kernel (cr3 s) P (pmem s')"
    "\<forall>i < 0x300. pmem s' (dir_entry P i) = 0"
    "\<forall>a. frame_of a \<noteq> P \<longrightarrow> a \<noteq> slot (cr3 s) (pmem s) v \<longrightarrow> pmem s' a = pmem s a"
    "\<forall>w q. mmu_walk (cr3 s) (pmem s) w = Some q \<longrightarrow> mmu_walk (cr3 s) (pmem s') w = Some q"
    "page_frame s s'" "lock_free Kernel_pool_lock s'" by (elim exE conjE) (rule that)
  have f: "cr3 s' = cr3 s" using s'(7) by (simp add: page_frame_def)
  have wv: "mmu_walk (cr3 s) (pmem s') v = Some P" using s'(2) f by (simp add: data_page_def)
  have nv: "mmu_walk (cr3 s) (pmem s) v = None"
    using np walk_Some_present [of "cr3 s" "pmem s" v] unfolding next_page_def
    by (cases "mmu_walk (cr3 s) (pmem s) v") auto
  have keep: "pmem s' a = pmem s a" if "frame_of a \<in> spaces phys ts" for a
    using s'(5) that fresh frame_pte_addr unfolding slot_def by metis
  have "spaces_shared (phys(v := P)) (ts(t \<mapsto> p\<lparr>pgdir := v\<rparr>)) (cr3 s) (pmem s')"
    using spaces_shared_new [OF sh t keep _ s'(3) nv wv v] s'(6) by simp
  moreover have "mmu_walk P (pmem s') w = Some q"
    if "0xc0000000 \<le> w" "w < 0xffc00000" "mmu_walk (cr3 s) (pmem s) w = Some q" for w q
    using shares_kernel_walk [OF s'(3) that(1,2)] s'(6) that(3) by simp
  ultimately show ?thesis using s'(1,7,8) no_user_walk [OF s'(4)] by (intro exI [of _ s']) simp
qed

section \<open>Properties\<close>

text \<open>C23: \<open>create_page_dir\<close> makes an address space: no address below the kernel is mapped in it, every
  kernel address is mapped where it was, and when the directory is entered into a PCB without
  one, all address spaces share the kernel's page tables as before, so that the directory can be
  activated from the current space and found again from any other.\<close>

theorem new_directory_shares_the_kernel:
  assumes "lock_free Kernel_pool_lock s" and "next_page s i f v P"
    and "0xc0000000 \<le> v" and "v < 0xffc00000"
    and "spaces_shared phys (tasks s) (cr3 s) (pmem s)" and "P \<notin> spaces phys (tasks s)"
    and "frame_of (pmem s (pde_addr (cr3 s) v)) \<notin> spaces phys (tasks s)"
    and "tasks s t = Some p" and "pgdir p = 0"
  shows "\<exists>s' s2. create_page_dir s = Inr (v, s') \<and> s2 = set_task t (p\<lparr>pgdir := v\<rparr>) s' \<and>
           (\<forall>w < 0xc0000000. mmu_walk P (pmem s2) w = None) \<and>
           (\<forall>w q. 0xc0000000 \<le> w \<longrightarrow> w < 0xffc00000 \<longrightarrow> mmu_walk (cr3 s) (pmem s) w = Some q \<longrightarrow>
              mmu_walk P (pmem s2) w = Some q) \<and>
           spaces_shared (phys(v := P)) (tasks s2) (cr3 s2) (pmem s2) \<and>
           page_dir_activate t s2 = Inr (s2\<lparr>cr3 := P\<rparr>) \<and>
           spaces_shared (phys(v := P)) (tasks s2) P (pmem s2)"
proof -
  from create_page_dir_spaces [OF assms(1-9)] obtain s' where
    s': "create_page_dir s = Inr (v, s')" "\<forall>w < 0xc0000000. mmu_walk P (pmem s') w = None"
    "\<forall>w q. 0xc0000000 \<le> w \<longrightarrow> w < 0xffc00000 \<longrightarrow> mmu_walk (cr3 s) (pmem s) w = Some q \<longrightarrow>
       mmu_walk P (pmem s') w = Some q"
    "spaces_shared (phys(v := P)) ((tasks s)(t \<mapsto> p\<lparr>pgdir := v\<rparr>)) (cr3 s) (pmem s')" "page_frame s s'"
    by (elim exE conjE) (rule that)
  let ?s2 = "set_task t (p\<lparr>pgdir := v\<rparr>) s'" and ?ph = "phys(v := P)"
  have sh: "spaces_shared ?ph (tasks ?s2) (cr3 ?s2) (pmem ?s2)"
    using s'(4,5) by (simp add: page_frame_def)
  have P: "P \<in> spaces ?ph (tasks ?s2)"
    using assms(3) by (auto simp: spaces_def space_of_def ran_def intro!: image_eqI [of _ _ "p\<lparr>pgdir := v\<rparr>"])
  have "page_dir_activate t ?s2 = Inr (?s2\<lparr>cr3 := P\<rparr>)"
    using spaces_ok_v2p [OF spaces_shared_ok [OF sh], of t "p\<lparr>pgdir := v\<rparr>"] assms(3)
    by (auto simp: page_dir_activate_def get_task_def)
  then show ?thesis
    using s'(1-3) sh spaces_shared_switch [OF sh P]
    by (intro exI [of _ s'] exI [of _ ?s2]) simp
qed

text \<open>A directory at \<open>0x100000\<close> whose entry \<open>0x300\<close> leads to a table at \<open>0x101000\<close>; the page of the idle
  thread, the first of the kernel's addresses, is taken.\<close>

definition demo_kernel_pm :: "u32 \<Rightarrow> u32" where
  "demo_kernel_pm a = (if a = 0x100ffc then 0x100007 else if a = 0x100c00 then 0x101007 else 0)"

definition demo_pstate :: pstate where
  "demo_pstate = mstate.extend
     (list_init (klist Thread_all_list) (list_init (klist (Waiters (Lock_sema Pid_lock)))
       (list_init (klist (Waiters (Lock_sema Kernel_pool_lock)))
         (demo_mstate\<lparr>pmem := demo_kernel_pm, kernel_vaddr :=
            \<lparr>vaddr_bitmap = \<lparr>btmp_bytes_len = 2, bits = [1, 0, 0]\<rparr>, vaddr_start = 0xc0100000\<rparr>\<rparr>))))
     (pstate.fields (\<lambda>_. None) (\<lambda>_. None))"

lemma demo_pstate_simps [simp]:
  "cr3 demo_pstate = 0x100000" "pmem demo_pstate = demo_kernel_pm" "running demo_pstate = 0xc009e000"
  "tasks demo_pstate = tasks demo_kernel" "kernel_pool demo_pstate = kernel_pool demo_mstate"
  "kernel_vaddr demo_pstate = \<lparr>vaddr_bitmap = \<lparr>btmp_bytes_len = 2, bits = [1, 0, 0]\<rparr>, vaddr_start = 0xc0100000\<rparr>"
  "main_thread demo_pstate = 0xc009e000" "idle_thread demo_pstate = 0xc0100000"
  by (simp_all add: demo_pstate_def mstate.defs pstate.defs list_init_def demo_mstate_def kstate.defs
      demo_locked_def demo_kernel_def)

lemma demo_pstate_next: "next_page demo_pstate 1 1 0xc0101000 0x201000"
proof -
  have u: "used \<lparr>btmp_bytes_len = 2, bits = [1, 0, 0 :: u8]\<rparr> 0" "\<not> used \<lparr>btmp_bytes_len = 2, bits = [1, 0, 0 :: u8]\<rparr> 1"
    by (simp_all add: used_def)
  have "frame_of (demo_kernel_pm a) \<noteq> 0x201000" for a
    by (simp add: demo_kernel_pm_def frame_of_def)
  then have "table_free 0x100000 demo_kernel_pm 0x201000" by (simp add: table_free_def)
  with u show ?thesis
    by (simp add: next_page_def recursive_map_def demo_kernel_pm_def PG_P_def frame_of_def pde_addr_def
        slot_def pte_addr_def present_def bitmap_wf_def bitmap_cap_def nbits_def PG_SIZE_def)
qed

lemma demo_pstate_shared: "spaces_shared (\<lambda>_. 0) (tasks demo_pstate) 0x100000 demo_kernel_pm"
  "spaces (\<lambda>_. 0) (tasks demo_pstate) = {0x100000}"
proof -
  have r: "pgdir p = 0" if "p \<in> ran (tasks demo_pstate)" for p
    using that by (auto simp: demo_kernel_def ran_def demo_task_def split: if_splits)
  then show s: "spaces (\<lambda>_. 0) (tasks demo_pstate) = {0x100000}" by (auto simp: spaces_def space_of_def)
  show "spaces_shared (\<lambda>_. 0) (tasks demo_pstate) 0x100000 demo_kernel_pm"
    using r unfolding spaces_shared_def s
    by (simp add: shares_kernel_def recursive_map_def demo_kernel_pm_def PG_P_def frame_of_def)
qed

lemma demo_pstate_locks: "lock_free Kernel_pool_lock demo_pstate" "lock_free Pid_lock demo_pstate"
  by (simp_all add: lock_free_def)
    (simp_all add: demo_pstate_def mstate.defs pstate.defs list_init_def demo_mstate_def kstate.defs
      demo_locked_def demo_kernel_def queue_def dll_def)

theorem new_directory_shares_the_kernel_witness:
  "\<exists>s' s2. create_page_dir demo_pstate = Inr (0xc0101000, s') \<and>
     s2 = set_task 0xc0100000 (demo_task TASK_READY\<lparr>pgdir := 0xc0101000\<rparr>) s' \<and>
     page_dir_activate 0xc0100000 s2 = Inr (s2\<lparr>cr3 := 0x201000\<rparr>) \<and>
     mmu_walk 0x201000 (pmem s2) 0x8048000 = None"
proof -
  have n: "frame_of (pmem demo_pstate (pde_addr (cr3 demo_pstate) 0xc0101000)) = 0x101000"
    by (simp add: demo_kernel_pm_def pde_addr_def frame_of_def)
  have t: "tasks demo_pstate 0xc0100000 = Some (demo_task TASK_READY)" "pgdir (demo_task TASK_READY) = 0"
    by (simp_all add: demo_kernel_def demo_task_def)
  have "\<exists>s' s2. create_page_dir demo_pstate = Inr (0xc0101000, s') \<and>
      s2 = set_task 0xc0100000 (demo_task TASK_READY\<lparr>pgdir := 0xc0101000\<rparr>) s' \<and>
      (\<forall>w < 0xc0000000. mmu_walk 0x201000 (pmem s2) w = None) \<and>
      page_dir_activate 0xc0100000 s2 = Inr (s2\<lparr>cr3 := 0x201000\<rparr>)"
    using new_directory_shares_the_kernel [OF demo_pstate_locks(1) demo_pstate_next, of "\<lambda>_. 0" "0xc0100000", OF _ _ _ _ _ t]
      demo_pstate_shared n by auto
  then obtain s' s2 where s2: "create_page_dir demo_pstate = Inr (0xc0101000, s')"
    "s2 = set_task 0xc0100000 (demo_task TASK_READY\<lparr>pgdir := 0xc0101000\<rparr>) s'"
    "\<forall>w < 0xc0000000. mmu_walk 0x201000 (pmem s2) w = None"
    "page_dir_activate 0xc0100000 s2 = Inr (s2\<lparr>cr3 := 0x201000\<rparr>)"
    by (elim exE conjE) (rule that)
  then have "mmu_walk 0x201000 (pmem s2) 0x8048000 = None" by simp
  with s2(1,2,4) show ?thesis by (intro exI conjI)
qed

section \<open>Starting a thread\<close>

text \<open>A new thread in the abstract scheduler: it is ready and the last to run.\<close>

definition a_start :: "u32 \<Rightarrow> asched \<Rightarrow> asched" where
  "a_start t a = a\<lparr>a_ready := a_ready a @ [t], a_status := (a_status a)(t \<mapsto> TASK_READY)\<rparr>"

lemma a_start_inv: "a_inv idle a \<Longrightarrow> a_status a t = None \<Longrightarrow> t \<noteq> 0 \<Longrightarrow> a_inv idle (a_start t a)"
  by (auto simp: a_inv_def a_pre_def a_start_def)

lemma enqueue_new_ok:
  assumes "queue s l xs" and "tag \<notin> set xs"
  shows "\<exists>s'. enqueue_new l tag s = Inr s' \<and> q_append l tag s = Inr s' \<and> queue s' l (xs @ [tag]) \<and> only_lists s s' \<and>
           (\<forall>k ys. k \<noteq> l \<longrightarrow> tag \<notin> set ys \<longrightarrow> set xs \<inter> set ys = {} \<longrightarrow> queue s k ys \<longrightarrow> queue s' k ys)"
  using q_append_ok [OF assms] q_find_ok [OF assms(1), of tag] assms(2) by (simp add: enqueue_new_def)

lemma enqueue_both_ok:
  assumes "queue s Thread_ready_list ys" and "queue s Thread_all_list xs"
    and "g \<notin> set ys" and "g \<notin> set xs" and "b \<notin> set ys" and "b \<notin> set xs" and "g \<noteq> b"
    and "set ys \<inter> set xs = {}"
  shows "\<exists>s4 s5. enqueue_new Thread_ready_list g s = Inr s4 \<and> enqueue_new Thread_all_list b s4 = Inr s5 \<and>
           q_append Thread_ready_list g s = Inr s4 \<and> q_append Thread_all_list b s4 = Inr s5 \<and>
           queue s5 Thread_ready_list (ys @ [g]) \<and> queue s5 Thread_all_list (xs @ [b]) \<and> only_lists s s5 \<and>
           (\<forall>k. k \<noteq> Thread_ready_list \<longrightarrow> k \<noteq> Thread_all_list \<longrightarrow> queue s k [] \<longrightarrow> queue s5 k [])"
proof -
  from enqueue_new_ok [OF assms(1,3)] obtain s4 where
    s4: "enqueue_new Thread_ready_list g s = Inr s4" "q_append Thread_ready_list g s = Inr s4" "queue s4 Thread_ready_list (ys @ [g])" "only_lists s s4"
    "\<forall>k zs. k \<noteq> Thread_ready_list \<longrightarrow> g \<notin> set zs \<longrightarrow> set ys \<inter> set zs = {} \<longrightarrow> queue s k zs \<longrightarrow> queue s4 k zs"
    by blast
  have "queue s4 Thread_all_list xs" using s4(5) assms(2,4,8) by simp
  from enqueue_new_ok [OF this assms(6)] obtain s5 where
    s5: "enqueue_new Thread_all_list b s4 = Inr s5" "q_append Thread_all_list b s4 = Inr s5" "queue s5 Thread_all_list (xs @ [b])" "only_lists s4 s5"
    "\<forall>k zs. k \<noteq> Thread_all_list \<longrightarrow> b \<notin> set zs \<longrightarrow> set xs \<inter> set zs = {} \<longrightarrow> queue s4 k zs \<longrightarrow> queue s5 k zs"
    by blast
  have "queue s5 Thread_ready_list (ys @ [g])"
    using s5(5) s4(3) assms(4,5,7,8) by (simp add: Int_commute)
  moreover have "queue s5 k []" if "k \<noteq> Thread_ready_list" "k \<noteq> Thread_all_list" "queue s k []" for k
    using s5(5) s4(5) that by simp
  ultimately show ?thesis using s4(1,2) s5(1-3) only_lists_trans [OF s4(4) s5(4)] by blast
qed

lemma spaces_shared_thread:
  assumes "spaces_shared phys ts cr pm" and "ts t = None" and "pgdir p = 0"
    and "\<And>a. frame_of a \<in> spaces phys ts \<Longrightarrow> pm' a = pm a"
    and "\<And>w q. mmu_walk cr pm w = Some q \<Longrightarrow> mmu_walk cr pm' w = Some q"
  shows "spaces_shared phys (ts(t \<mapsto> p)) cr pm'"
proof -
  have r: "ran (ts(t \<mapsto> p)) = insert p (ran ts)" using assms(2) by simp
  have e: "spaces phys (ts(t \<mapsto> p)) = spaces phys ts"
    using assms(3) by (simp add: spaces_def r space_of_def)
  have c: "cr \<in> spaces phys ts" using assms(1) by (simp add: spaces_shared_def)
  then have f: "frame_of cr = cr"
    using assms(1) recursive_aligned [of cr pm] by (auto simp: spaces_shared_def shares_kernel_def)
  have "shares_kernel cr d pm'" if "d \<in> spaces phys ts" for d
    by (rule shares_kernel_keep [OF _ f, of _ pm]) (use assms(1,4) that c in \<open>auto simp: spaces_shared_def\<close>)
  with assms(1,3,5) c show ?thesis unfolding spaces_shared_def e r by blast
qed

text \<open>The PCB of the new thread, with room for the two frames at the top of its stack.\<close>

definition started_task :: "u32 \<Rightarrow> buf \<Rightarrow> u32 \<Rightarrow> u16 \<Rightarrow> task_struct" where
  "started_task t nm prio new_pid =
     (fresh_task t nm prio False new_pid)\<lparr>self_kstart := t + PG_SIZE - 4 * 76 - 4 * 32\<rparr>"

definition first_frame :: "kcode \<Rightarrow> u32 \<Rightarrow> thread_stack" where
  "first_frame func arg = \<lparr>ts_ebp = 0, ts_ebx = 0, ts_edi = 0, ts_esi = 0, ts_eip = Kernel_thread,
     ts_function = func, ts_func_arg = arg\<rparr>"

text \<open>What the creation of the thread \<open>t\<close> leaves alone: \<open>kmem_same\<close> holds of the steps that do not ask for
  memory, \<open>pcb_frame\<close> of all of them.\<close>

definition kmem_same :: "'z mstate_scheme \<Rightarrow> 'z mstate_scheme \<Rightarrow> bool" where
  "kmem_same s s' \<longleftrightarrow>
     pmem s' = pmem s \<and> kernel_pool s' = kernel_pool s \<and> kernel_vaddr s' = kernel_vaddr s"

definition pcb_frame :: "u32 \<Rightarrow> 'z mstate_scheme \<Rightarrow> 'z mstate_scheme \<Rightarrow> bool" where
  "pcb_frame t s s' \<longleftrightarrow>
     cr3 s' = cr3 s \<and> running s' = running s \<and> idle_thread s' = idle_thread s \<and>
     main_thread s' = main_thread s \<and> eflags s' = eflags s \<and> (\<forall>k. lock_free k s \<longrightarrow> lock_free k s') \<and>
     (\<forall>l xs. General_tag t \<notin> set xs \<longrightarrow> All_list_tag t \<notin> set xs \<longrightarrow>
        (\<forall>k. l \<noteq> Free_list (U_block_descs t) k) \<longrightarrow> queue s l xs \<longrightarrow> queue s' l xs)"

lemma pcb_frame_trans: "pcb_frame t s s' \<Longrightarrow> pcb_frame t s' s'' \<Longrightarrow> pcb_frame t s s''"
  by (auto simp: pcb_frame_def)

lemma page_frame_pcb: "page_frame s s' \<Longrightarrow> lock_free Kernel_pool_lock s' \<Longrightarrow> pcb_frame t s s'"
proof -
  assume pf: "page_frame s s'" and k: "lock_free Kernel_pool_lock s'"
  have "lock_free l s'" if "lock_free l s" for l
    using that k page_frame_lock [OF pf, of l] by (cases "l = Kernel_pool_lock") auto
  then show ?thesis
    using pf page_frame_queue [OF pf] unfolding pcb_frame_def by (simp add: page_frame_def)
qed

lemma set_task_pcb: "pcb_frame u s (set_task t p s)" "kmem_same s (set_task t p s)"
  by (auto simp: pcb_frame_def kmem_same_def lock_free_def) (simp_all add: set_task_def)

lemma init_thread_frame:
  assumes "lock_free Pid_lock s" and "t \<noteq> 0" and "t \<noteq> main_thread s"
    and "strcpy (Some (replicate 16 0)) (Some name) = Inr nm"
  shows "\<exists>s'. init_thread t name prio s = Inr s' \<and>
           tasks s' = (tasks s)(t \<mapsto> fresh_task t nm prio False (next_pid s + 1)) \<and>
           next_pid s' = next_pid s + 1 \<and> thread_stacks s' = thread_stacks s \<and> kmem_same s s' \<and> pcb_frame t s s'"
proof -
  let ?s' = "set_task t (fresh_task t nm prio False (next_pid s + 1))
      (lock_freed Pid_lock ((zeroed_tags t s)\<lparr>next_pid := next_pid s + 1\<rparr>))"
  have i: "init_thread t name prio s = Inr ?s'" using init_thread_ok [OF assms(1,2,4), of prio] assms(3) by simp
  have q: "queue ?s' l xs = queue (zeroed_tags t s) l xs" for l xs
    by (rule queue_pointers) (simp_all add: lock_freed_def set_task_def)
  have keep: "queue ?s' l xs" if "General_tag t \<notin> set xs" "All_list_tag t \<notin> set xs" "queue s l xs" for l xs
    using that zeroed_tags_queue [of t xs s l] unfolding q by simp
  have lf: "lock_free k ?s'" if "lock_free k s" for k
    using that keep [of "[]" "Waiters (Lock_sema k)"]
    by (simp add: lock_free_def lock_freed_def zeroed_tags_def set_task_def)
  show ?thesis
    using i keep lf
    by (intro exI [of _ ?s'])
      (simp add: lock_freed_def zeroed_tags_def set_task_def kmem_same_def pcb_frame_def)
qed

lemma thread_create_frame:
  assumes "tasks s t = Some p"
  shows "\<exists>s'. thread_create t func arg s = Inr s' \<and>
           tasks s' = (tasks s)(t \<mapsto> p\<lparr>self_kstart := self_kstart p - 4 * 76 - 4 * 32\<rparr>) \<and>
           next_pid s' = next_pid s \<and>
           thread_stacks s' = (thread_stacks s)(self_kstart p - 4 * 76 - 4 * 32 \<mapsto> first_frame func arg) \<and>
           kmem_same s s' \<and> pcb_frame t s s'"
proof -
  let ?ks = "self_kstart p - 4 * 76 - 4 * 32"
  let ?s' = "(set_task t (p\<lparr>self_kstart := ?ks\<rparr>) s)\<lparr>thread_stacks := (thread_stacks s)(?ks \<mapsto> first_frame func arg)\<rparr>"
  have "thread_create t func arg s = Inr ?s'"
    using assms by (simp add: thread_create_def get_task_def first_frame_def Let_def set_task_def)
  moreover have "queue ?s' l xs = queue s l xs" for l xs
    by (rule queue_pointers) (simp_all add: set_task_def)
  ultimately show ?thesis
    by (intro exI [of _ ?s']) (simp add: set_task_def kmem_same_def pcb_frame_def lock_free_def)
qed


lemma demo_pstate_sched: "sched_ok (\<lambda>_. 0) demo_pstate demo_asched" "queue demo_pstate Thread_all_list []"
proof -
  have "sched_abs demo_pstate demo_asched"
    by (simp add: sched_abs_def demo_kernel_def demo_asched_def demo_task_def fun_eq_iff)
      (simp add: demo_pstate_def mstate.defs pstate.defs list_init_def demo_mstate_def kstate.defs
        demo_locked_def demo_kernel_def queue_def dll_def)
  moreover have "a_inv (idle_thread demo_pstate) demo_asched"
    using demo_sched_ok by (simp add: sched_ok_def demo_kernel_def)
  ultimately show "sched_ok (\<lambda>_. 0) demo_pstate demo_asched"
    using spaces_shared_ok [OF demo_pstate_shared(1)] by (simp add: sched_ok_def)
  show "queue demo_pstate Thread_all_list []"
    by (simp add: demo_pstate_def mstate.defs pstate.defs list_init_def demo_mstate_def kstate.defs
        demo_locked_def demo_kernel_def queue_def dll_def)
qed

lemma idle_name_fits: "strcpy (Some (replicate 16 0)) (Some idle_name) =
    Inr [0x69, 0x64, 0x6c, 0x65, 0, 0, 0, 0, 0, 0, 0, 0, 0, 0, 0, 0]"
  by (simp add: idle_name_def) code_simp


end
