(* ===== verification/Pages.thy ===== *)
theory Pages
  imports Allocation
begin

text \<open>
  Requests for several kernel pages (\<open>get_kernel_page\<close> of \<open>lib/kernel/memory.c\<close>) when the lowest free
  addresses and frames form a run: the run is taken page by page, each page is mapped and
  cleared, and what is left of the run is there for the next request.
\<close>

section \<open>A run of bits\<close>

lemma bitmap_scan_run:
  assumes "btmp_bytes_len b < length (bits b)" and "0 < n" and "i + n \<le> bitmap_cap b"
    and "\<forall>j < i. used b j" and "\<forall>j. i \<le> j \<and> j < i + n \<longrightarrow> \<not> used b j"
  shows "bitmap_scan b n = Inr (int i)"
proof (cases "n = 1")
  case True
  with assms show ?thesis by (intro bmp.scan_least [of b i, folded True]) (auto simp: bitmap_wf_def)
next
  case False
  have c: "bitmap_cap b \<le> nbits b" by (simp add: bitmap_cap_def)
  have n: "2 \<le> n" "i + n \<le> nbits b" using assms(2,3) c False by auto
  then have fu: "first_unused b i" using assms(4,5) by (simp add: first_unused_def)
  have fr: "free_run b i n" using assms(5) by (simp add: free_run_def)
  have le: "i \<le> s" if "free_run b s n" for s
  proof (rule ccontr)
    assume "\<not> i \<le> s"
    then have "used b s" using assms(4) by simp
    with that n(1) show False by (auto simp: free_run_def)
  qed
  from bitmap_scan_many [OF assms(1) fu n(1)] show ?thesis
    unfolding scan_answer_def
  proof (elim disjE exE conjE)
    fix s assume s: "bitmap_scan b n = Inr (int s)" "free_run b s n" "\<forall>s' < s. \<not> free_run b s' n"
    have "i \<le> s" using le s(2) .
    moreover have "\<not> i < s" using s(3) fr by blast
    ultimately show ?thesis using s(1) by simp
  next
    assume "\<forall>s. s + n \<le> nbits b + 1 \<longrightarrow> \<not> free_run b s n"
    with fr n(2) show ?thesis by force
  qed
qed

lemma bitmap_set_run_ok:
  assumes "bitmap_wf b" and "i + n \<le> bitmap_cap b"
  shows "\<exists>b'. bitmap_set_run b i n = Inr b' \<and> btmp_bytes_len b' = btmp_bytes_len b \<and>
           length (bits b') = length (bits b) \<and>
           (\<forall>j. used b' j \<longleftrightarrow> used b j \<or> (i \<le> j \<and> j < i + n))"
  using assms
proof (induction n arbitrary: b i)
  case (Suc n)
  have m: "i mod 2048 = i" "i div 8 mod 256 < length (bits b)"
    using Suc.prems by (auto simp: bitmap_cap_def nbits_def bitmap_wf_def)
  from bitmap_set_used [of 1 i b, OF _ m(2)] obtain b1 where
    b1: "bitmap_set b i 1 = Inr b1" "btmp_bytes_len b1 = btmp_bytes_len b" "length (bits b1) = length (bits b)"
    "\<forall>j. used b1 j \<longleftrightarrow> j = i \<or> used b j" using m(1) by auto
  have "bitmap_wf b1" "Suc i + n \<le> bitmap_cap b1"
    using Suc.prems b1(2,3) by (simp_all add: bitmap_wf_def bitmap_cap_def nbits_def)
  from Suc.IH [OF this] obtain b2 where b2:
    "bitmap_set_run b1 (Suc i) n = Inr b2" "btmp_bytes_len b2 = btmp_bytes_len b1"
    "length (bits b2) = length (bits b1)"
    "\<forall>j. used b2 j \<longleftrightarrow> used b1 j \<or> (Suc i \<le> j \<and> j < Suc i + n)" by blast
  have "used b2 j \<longleftrightarrow> used b j \<or> (i \<le> j \<and> j < i + Suc n)" for j
    unfolding b2(4) [rule_format] b1(4) [rule_format] by arith
  with b1(1-3) b2(1-3) show ?case by (intro exI [of _ b2]) simp
qed auto

section \<open>A run of pages\<close>

definition nth_page :: "u32 \<Rightarrow> nat \<Rightarrow> u32" where
  "nth_page v k = v + of_nat k * PG_SIZE"

lemma nth_page_simps [simp]:
  "nth_page v 0 = v" "nth_page (v + PG_SIZE) k = nth_page v (Suc k)" "nth_page (nth_page v n) k = nth_page v (n + k)"
  by (simp_all add: nth_page_def algebra_simps)

lemma nth_page_low: "v AND 0xfff = 0 \<Longrightarrow> nth_page v k AND 0xfff = 0"
proof -
  assume v: "v AND 0xfff = 0"
  then have "\<not> bit v n" if "n < 12" for n
    using that bit_and_iff [of v "0xfff" n] by (simp add: bit_page_masks)
  note low = this
  have "bit v n = bit (push_bit 12 (drop_bit 12 v)) n" if "n < LENGTH(32)" for n
    using low [of n] that by (cases "n < 12") (simp_all add: bit_simps)
  then have "v = push_bit 12 (drop_bit 12 v)" by (rule bit_word_eqI)
  then have "nth_page v k = push_bit 12 (drop_bit 12 v + of_nat k)"
    by (simp add: nth_page_def PG_SIZE_def push_bit_eq_mult distrib_right)
  then show ?thesis by (intro bit_word_eqI) (auto simp: bit_simps bit_page_masks)
qed

section \<open>The directory stays\<close>

definition same_dir :: "u32 \<Rightarrow> (u32 \<Rightarrow> u32) \<Rightarrow> (u32 \<Rightarrow> u32) \<Rightarrow> bool" where
  "same_dir cr pm pm' \<longleftrightarrow> (\<forall>w. pm' (pde_addr cr w) = pm (pde_addr cr w))"

lemma same_dir_facts:
  assumes "same_dir cr pm pm'"
  shows "slot cr pm' w = slot cr pm w" and "table_free cr pm' F = table_free cr pm F"
    and "recursive_map cr pm' = recursive_map cr pm"
proof -
  have "pde_addr cr 0xffc00000 = cr + 0xffc" by (simp add: pde_addr_def)
  then have "pm' (cr + 0xffc) = pm (cr + 0xffc)" using assms by (metis same_dir_def)
  then show "slot cr pm' w = slot cr pm w" and "table_free cr pm' F = table_free cr pm F"
    and "recursive_map cr pm' = recursive_map cr pm"
    using assms by (simp_all add: same_dir_def slot_def table_free_def recursive_map_def)
qed

lemma same_dir_trans: "same_dir cr pm pm' \<Longrightarrow> same_dir cr pm' pm'' \<Longrightarrow> same_dir cr pm pm''"
  by (simp add: same_dir_def)

lemma same_dir_store:
  assumes "recursive_map cr pm" and "frame_of a \<noteq> cr"
  shows "same_dir cr pm (pm(a := e))"
  using assms frame_pde_addr [OF recursive_aligned [OF assms(1)]] by (auto simp: same_dir_def)

section \<open>Mapping a run\<close>

text \<open>From frame \<open>f\<close> on, the lowest \<open>n\<close> free frames of the kernel's pool can be mapped from \<open>v\<close> on.\<close>

definition map_run :: "'z mstate_scheme \<Rightarrow> nat \<Rightarrow> u32 \<Rightarrow> u32 \<Rightarrow> nat \<Rightarrow> bool" where
  "map_run s f v P n \<longleftrightarrow>
     recursive_map (cr3 s) (pmem s) \<and> v AND 0xfff = 0 \<and> P AND 0xfff = 0 \<and>
     bitmap_wf (pool_bitmap (kernel_pool s)) \<and> f + n \<le> bitmap_cap (pool_bitmap (kernel_pool s)) \<and>
     (\<forall>j < f. used (pool_bitmap (kernel_pool s)) j) \<and>
     (\<forall>j. f \<le> j \<and> j < f + n \<longrightarrow> \<not> used (pool_bitmap (kernel_pool s)) j) \<and>
     P = of_nat f * PG_SIZE + phy_address_start (kernel_pool s) \<and>
     (\<forall>k < n. nth_page P k \<noteq> 0 \<and> present (pmem s (pde_addr (cr3 s) (nth_page v k))) \<and>
        frame_of (pmem s (pde_addr (cr3 s) (nth_page v k))) \<noteq> cr3 s \<and>
        \<not> present (pmem s (slot (cr3 s) (pmem s) (nth_page v k))) \<and>
        table_free (cr3 s) (pmem s) (nth_page P k)) \<and>
     inj_on (\<lambda>k. slot (cr3 s) (pmem s) (nth_page v k)) {..<n}"

lemma frame_of_aligned: "P AND 0xfff = 0 \<Longrightarrow> frame_of P = P"
  using page_offset(1) [of P 0] by simp

lemma map_run_step:
  assumes "map_run s f v P (Suc n)"
  shows "\<exists>b. palloc POOL_FLAG_KERNEL s = Inr (P, s\<lparr>kernel_pool := (kernel_pool s)\<lparr>pool_bitmap := b\<rparr>\<rparr>) \<and>
           P \<noteq> 0 \<and> bitmap_wf b \<and> bitmap_cap b = bitmap_cap (pool_bitmap (kernel_pool s)) \<and>
           (\<forall>j. used b j \<longleftrightarrow> j = f \<or> used (pool_bitmap (kernel_pool s)) j)"
proof -
  let ?b = "pool_bitmap (kernel_pool s)"
  have a: "bitmap_wf ?b" "f < bitmap_cap ?b" "\<not> used ?b f" "\<forall>j < f. used ?b j"
    "P = of_nat f * PG_SIZE + phy_address_start (kernel_pool s)" "P \<noteq> 0"
    using assms by (auto simp: map_run_def)
  have g: "get_pool POOL_FLAG_KERNEL s = kernel_pool s" by (simp add: get_pool_def)
  from palloc_ok [of POOL_FLAG_KERNEL s f] a(1-3) g obtain i b where
    i: "i \<le> f" "\<not> used ?b i" "palloc POOL_FLAG_KERNEL s = Inr (of_nat i * PG_SIZE + phy_address_start (kernel_pool s),
      set_pool POOL_FLAG_KERNEL ((kernel_pool s)\<lparr>pool_bitmap := b\<rparr>) s)"
    "bitmap_wf b" "bitmap_cap b = bitmap_cap ?b" "\<forall>j. used b j \<longleftrightarrow> j = i \<or> used ?b j" by auto
  have "i = f" using i(1,2) a(4) by (meson le_neq_implies_less)
  with i a(5,6) show ?thesis by (intro exI [of _ b]) (simp add: set_pool_def)
qed

lemma map_run_rest:
  assumes mr: "map_run s f v P (n + m)" and b: "bitmap_wf b"
    "bitmap_cap b = bitmap_cap (pool_bitmap (kernel_pool s))"
    "\<forall>j. used b j \<longleftrightarrow> used (pool_bitmap (kernel_pool s)) j \<or> (f \<le> j \<and> j < f + n)"
    and sel: "cr3 s' = cr3 s" "kernel_pool s' = (kernel_pool s)\<lparr>pool_bitmap := b\<rparr>"
    and sd: "same_dir (cr3 s) (pmem s) (pmem s')"
    and keep: "\<And>k. k < m \<Longrightarrow> pmem s' (slot (cr3 s) (pmem s) (nth_page v (n + k))) =
      pmem s (slot (cr3 s) (pmem s) (nth_page v (n + k)))"
  shows "map_run s' (f + n) (nth_page v n) (nth_page P n) m"
proof -
  note sf = same_dir_facts [OF sd]
  have al: "v AND 0xfff = 0" "P AND 0xfff = 0" and rec: "recursive_map (cr3 s) (pmem s)"
    and pages: "\<forall>k < n + m. nth_page P k \<noteq> 0 \<and> present (pmem s (pde_addr (cr3 s) (nth_page v k))) \<and>
      frame_of (pmem s (pde_addr (cr3 s) (nth_page v k))) \<noteq> cr3 s \<and>
      \<not> present (pmem s (slot (cr3 s) (pmem s) (nth_page v k))) \<and> table_free (cr3 s) (pmem s) (nth_page P k)"
    and inj: "inj_on (\<lambda>k. slot (cr3 s) (pmem s) (nth_page v k)) {..<n + m}"
    and P: "P = of_nat f * PG_SIZE + phy_address_start (kernel_pool s)"
    and ub: "f + (n + m) \<le> bitmap_cap (pool_bitmap (kernel_pool s))"
      "\<forall>j < f. used (pool_bitmap (kernel_pool s)) j"
      "\<forall>j. f \<le> j \<and> j < f + (n + m) \<longrightarrow> \<not> used (pool_bitmap (kernel_pool s)) j"
    using mr unfolding map_run_def by - (elim conjE, assumption)+
  note low = nth_page_low [OF al(1), of n] nth_page_low [OF al(2), of n]
  have inj': "inj_on (\<lambda>k. slot (cr3 s) (pmem s) (nth_page v (n + k))) {..<m}"
    by (rule inj_onI) (use inj_onD [OF inj] in fastforce)
  have P': "nth_page P n = of_nat (f + n) * PG_SIZE + phy_address_start (kernel_pool s)"
    unfolding P by (simp add: nth_page_def algebra_simps)
  have bits: "\<forall>j < f + n. used b j" "\<forall>j. f + n \<le> j \<and> j < f + n + m \<longrightarrow> \<not> used b j" "f + n + m \<le> bitmap_cap b"
    unfolding b(2) b(3) [rule_format] using ub by auto
  have rec': "recursive_map (cr3 s) (pmem s')" using rec sf(3) by simp
  have dir: "pmem s' (pde_addr (cr3 s) w) = pmem s (pde_addr (cr3 s) w)" for w
    using sd by (simp add: same_dir_def)
  have ps: "pool_bitmap (kernel_pool s') = b" "phy_address_start (kernel_pool s') = phy_address_start (kernel_pool s)"
    using sel(2) by simp_all
  show ?thesis
    unfolding map_run_def sel(1) ps sf(1,2) dir nth_page_simps
    using bits low b(1) inj' P' rec' pages keep by (intro conjI) auto
qed

lemma malloc_page_loop_ok:
  assumes "map_run s f v P n"
  shows "\<exists>pm b. malloc_page_loop POOL_FLAG_KERNEL v n s =
             Inr (True, s\<lparr>kernel_pool := (kernel_pool s)\<lparr>pool_bitmap := b\<rparr>, pmem := pm\<rparr>) \<and>
           same_dir (cr3 s) (pmem s) pm \<and>
           (\<forall>k < n. mmu_walk (cr3 s) pm (nth_page v k) = Some (nth_page P k)) \<and>
           (\<forall>a. (\<forall>k < n. a \<noteq> slot (cr3 s) (pmem s) (nth_page v k)) \<longrightarrow> pm a = pmem s a) \<and>
           (\<forall>w q. mmu_walk (cr3 s) (pmem s) w = Some q \<longrightarrow> mmu_walk (cr3 s) pm w = Some q) \<and>
           bitmap_wf b \<and> bitmap_cap b = bitmap_cap (pool_bitmap (kernel_pool s)) \<and>
           (\<forall>j. used b j \<longleftrightarrow> used (pool_bitmap (kernel_pool s)) j \<or> (f \<le> j \<and> j < f + n))"
  using assms
proof (induction n arbitrary: s f v P)
  case 0
  then have "bitmap_wf (pool_bitmap (kernel_pool s))" by (simp add: map_run_def)
  then show ?case by (intro exI [of _ "pmem s"] exI [of _ "pool_bitmap (kernel_pool s)"]) (auto simp: same_dir_def)
next
  case (Suc n)
  let ?cr = "cr3 s" and ?pm = "pmem s"
  let ?sl = "\<lambda>k. slot ?cr ?pm (nth_page v k)"
  from map_run_step [OF Suc.prems] obtain b where
    b: "palloc POOL_FLAG_KERNEL s = Inr (P, s\<lparr>kernel_pool := (kernel_pool s)\<lparr>pool_bitmap := b\<rparr>\<rparr>)"
    "P \<noteq> 0" "bitmap_wf b" "bitmap_cap b = bitmap_cap (pool_bitmap (kernel_pool s))"
    "\<forall>j. used b j \<longleftrightarrow> j = f \<or> used (pool_bitmap (kernel_pool s)) j" by blast
  have rec: "recursive_map ?cr ?pm" and al: "v AND 0xfff = 0" "P AND 0xfff = 0"
    and v0: "present (?pm (pde_addr ?cr v))" "frame_of (?pm (pde_addr ?cr v)) \<noteq> ?cr" "\<not> present (?pm (slot ?cr ?pm v))"
    and inj: "inj_on ?sl {..<Suc n}"
    using Suc.prems by (force simp: map_run_def)+
  let ?pm1 = "?pm(slot ?cr ?pm v := pg_entry P)"
  let ?s1 = "s\<lparr>kernel_pool := (kernel_pool s)\<lparr>pool_bitmap := b\<rparr>, pmem := ?pm1\<rparr>"
  have ad: "page_table_add v P (s\<lparr>kernel_pool := (kernel_pool s)\<lparr>pool_bitmap := b\<rparr>\<rparr>) = Inr ?s1"
    using page_table_add_present [of "s\<lparr>kernel_pool := (kernel_pool s)\<lparr>pool_bitmap := b\<rparr>\<rparr>" v P] rec v0 by simp
  have sd: "same_dir ?cr ?pm ?pm1"
    using same_dir_store [OF rec] v0(2) by (simp add: slot_def frame_pte_addr)
  note sf = same_dir_facts [OF sd]
  note tk = table_add_present_keeps [OF rec v0, where p = P]
  have wv: "mmu_walk ?cr ?pm1 v = Some P" using tk(1) al frame_of_aligned by simp
  have ne: "?sl (Suc k) \<noteq> slot ?cr ?pm v" if "k < n" for k
    using inj_onD [OF inj, of "Suc k" 0] that by auto
  have mr: "map_run ?s1 (Suc f) (v + PG_SIZE) (P + PG_SIZE) n"
  proof -
    have m: "map_run s f v P (1 + n)" using Suc.prems by simp
    have u: "\<forall>j. used b j \<longleftrightarrow> used (pool_bitmap (kernel_pool s)) j \<or> (f \<le> j \<and> j < f + 1)"
      unfolding b(5) [rule_format] by (intro allI) arith
    have e: "nth_page v 1 = v + PG_SIZE" "nth_page P 1 = P + PG_SIZE" by (simp_all add: nth_page_def)
    have "map_run ?s1 (f + 1) (nth_page v 1) (nth_page P 1) n"
      by (rule map_run_rest [OF m b(3,4) u]) (use sd ne in simp_all)
    then show ?thesis unfolding e by simp
  qed
  from Suc.IH [OF mr] obtain pm b' where
    ih: "malloc_page_loop POOL_FLAG_KERNEL (v + PG_SIZE) n ?s1 =
        Inr (True, ?s1\<lparr>kernel_pool := (kernel_pool ?s1)\<lparr>pool_bitmap := b'\<rparr>, pmem := pm\<rparr>)"
    "same_dir ?cr ?pm1 pm" "\<forall>k < n. mmu_walk ?cr pm (nth_page v (Suc k)) = Some (nth_page P (Suc k))"
    "\<forall>a. (\<forall>k < n. a \<noteq> slot ?cr ?pm1 (nth_page v (Suc k))) \<longrightarrow> pm a = ?pm1 a"
    "\<forall>w q. mmu_walk ?cr ?pm1 w = Some q \<longrightarrow> mmu_walk ?cr pm w = Some q"
    "bitmap_wf b'" "bitmap_cap b' = bitmap_cap b"
    "\<forall>j. used b' j \<longleftrightarrow> used b j \<or> (Suc f \<le> j \<and> j < Suc f + n)"
    by (elim exE conjE) (simp add: that del: fun_upd_apply)
  have "malloc_page_loop POOL_FLAG_KERNEL v (Suc n) s =
      Inr (True, s\<lparr>kernel_pool := (kernel_pool s)\<lparr>pool_bitmap := b'\<rparr>, pmem := pm\<rparr>)"
    using b(1,2) ad ih(1) by simp
  moreover have "mmu_walk ?cr pm (nth_page v k) = Some (nth_page P k)" if "k < Suc n" for k
    using that ih(3,5) wv by (cases k) auto
  moreover have "pm a = ?pm a" if a: "\<forall>k < Suc n. a \<noteq> ?sl k" for a
  proof -
    have "a \<noteq> slot ?cr ?pm v" "\<forall>k < n. a \<noteq> ?sl (Suc k)" using a by (auto dest: spec [of _ 0])
    then show ?thesis using ih(4) sf(1) by simp
  qed
  moreover have "used b' j \<longleftrightarrow> used (pool_bitmap (kernel_pool s)) j \<or> (f \<le> j \<and> j < f + Suc n)" for j
    unfolding ih(8) [rule_format] b(5) [rule_format] by arith
  ultimately show ?case
    using same_dir_trans [OF sd ih(2)] ih(5-7) b(4) tk(3)
    by (intro exI [of _ pm] exI [of _ b']) (simp del: fun_upd_apply)
qed

section \<open>Clearing a run\<close>

lemma frame_change:
  assumes "recursive_map cr pm" and "table_free cr pm F" and "\<And>a. frame_of a \<noteq> F \<Longrightarrow> pm' a = pm a"
  shows "same_dir cr pm pm'" and "mmu_walk cr pm' w = mmu_walk cr pm w"
proof -
  show "same_dir cr pm pm'"
    using assms(2,3) frame_pde_addr [OF recursive_aligned [OF assms(1)]]
    by (auto simp: same_dir_def table_free_def)
  show "mmu_walk cr pm' w = mmu_walk cr pm w" by (rule table_free_walk(1) [OF assms])
qed

lemma data_page_dir:
  assumes "data_page s a F" and "same_dir (cr3 s) (pmem s) (pmem s')" and "cr3 s' = cr3 s"
    and "mmu_walk (cr3 s) (pmem s') a = Some F"
  shows "data_page s' a F"
  using assms same_dir_facts [OF assms(2)] by (simp add: data_page_def)

lemma zero_pages_ok:
  assumes "\<forall>k < n. data_page s (nth_page v k) (nth_page P k)" and "recursive_map (cr3 s) (pmem s)"
  shows "\<exists>pm ar. zero_pages v n s = Inr (s\<lparr>pmem := pm, arenas := ar\<rparr>) \<and>
           (\<forall>a. pm a = (if \<exists>k < n. frame_of a = nth_page P k then 0 else pmem s a)) \<and>
           same_dir (cr3 s) (pmem s) pm \<and> (\<forall>w. mmu_walk (cr3 s) pm w = mmu_walk (cr3 s) (pmem s) w)"
  using assms
proof (induction n arbitrary: s v P)
  case 0
  show ?case by (intro exI [of _ "pmem s"] exI [of _ "arenas s"]) (simp add: same_dir_def)
next
  case (Suc n)
  have dp: "data_page s v P" using Suc.prems(1) by force
  let ?pm1 = "\<lambda>a. if frame_of a = P then 0 else pmem s a"
  let ?s1 = "s\<lparr>pmem := ?pm1, arenas := (arenas s)(P \<mapsto> \<lparr>desc = None, arena_cnt = 0, large = False\<rparr>)\<rparr>"
  have tf: "table_free (cr3 s) (pmem s) P" using dp by (simp add: data_page_def)
  note fc = frame_change [OF Suc.prems(2) tf, of ?pm1]
  have sd: "same_dir (cr3 s) (pmem s) ?pm1" by (rule fc(1)) simp
  have wk: "mmu_walk (cr3 s) ?pm1 w = mmu_walk (cr3 s) (pmem s) w" for w by (rule fc(2)) simp
  have rest: "\<forall>k < n. data_page ?s1 (nth_page (v + PG_SIZE) k) (nth_page (P + PG_SIZE) k)"
  proof (intro allI impI)
    fix k assume "k < n"
    then have d: "data_page s (nth_page v (Suc k)) (nth_page P (Suc k))" using Suc.prems(1) by simp
    then show "data_page ?s1 (nth_page (v + PG_SIZE) k) (nth_page (P + PG_SIZE) k)"
      unfolding nth_page_simps
      by (rule data_page_dir) (use sd wk d in \<open>simp_all add: data_page_def\<close>)
  qed
  have rec: "recursive_map (cr3 ?s1) (pmem ?s1)" using same_dir_facts(3) [OF sd] Suc.prems(2) by simp
  have sel: "cr3 ?s1 = cr3 s" "pmem ?s1 = ?pm1" by simp_all
  from Suc.IH [OF rest rec, unfolded nth_page_simps sel] obtain pm ar where
    ih: "zero_pages (v + PG_SIZE) n ?s1 = Inr (?s1\<lparr>pmem := pm, arenas := ar\<rparr>)"
    "\<forall>a. pm a = (if \<exists>k < n. frame_of a = nth_page P (Suc k) then 0 else ?pm1 a)"
    "same_dir (cr3 s) ?pm1 pm" "\<forall>w. mmu_walk (cr3 s) pm w = mmu_walk (cr3 s) ?pm1 w"
    by (elim exE conjE) (rule that)
  have "zero_pages v (Suc n) s = Inr (s\<lparr>pmem := pm, arenas := ar\<rparr>)"
    using zero_page_data [OF dp] ih(1) by simp
  moreover have "pm a = (if \<exists>k < Suc n. frame_of a = nth_page P k then 0 else pmem s a)" for a
    unfolding ih(2) [rule_format] Ex_less_Suc2 by auto
  moreover have "mmu_walk (cr3 s) pm w = mmu_walk (cr3 s) (pmem s) w" for w
    using ih(4) [rule_format, of w] wk [of w] by (rule trans)
  ultimately show ?case using same_dir_trans [OF sd ih(3)] by (intro exI conjI allI)
qed

section \<open>A request for a run\<close>

text \<open>\<open>n\<close> pages from the address \<open>v\<close> and the frame \<open>P\<close> on are the next ones to be handed out.\<close>

definition page_run :: "'z mstate_scheme \<Rightarrow> nat \<Rightarrow> nat \<Rightarrow> u32 \<Rightarrow> u32 \<Rightarrow> nat \<Rightarrow> bool" where
  "page_run s i f v P n \<longleftrightarrow>
     map_run s f v P n \<and>
     btmp_bytes_len (vaddr_bitmap (kernel_vaddr s)) < length (bits (vaddr_bitmap (kernel_vaddr s))) \<and>
     i + n \<le> bitmap_cap (vaddr_bitmap (kernel_vaddr s)) \<and>
     (\<forall>j < i. used (vaddr_bitmap (kernel_vaddr s)) j) \<and>
     (\<forall>j. i \<le> j \<and> j < i + n \<longrightarrow> \<not> used (vaddr_bitmap (kernel_vaddr s)) j) \<and>
     v = vaddr_start (kernel_vaddr s) + of_nat i * PG_SIZE \<and> (\<forall>k < n. nth_page v k \<noteq> 0)"

lemma map_run_le:
  assumes "map_run s f v P (n + m)"
  shows "map_run s f v P n"
proof -
  have "inj_on (\<lambda>k. slot (cr3 s) (pmem s) (nth_page v k)) {..<n}"
    by (rule inj_on_subset [of _ "{..<n + m}"]) (use assms in \<open>auto simp: map_run_def\<close>)
  then show ?thesis using assms unfolding map_run_def by (elim conjE) (intro conjI; simp)
qed

text \<open>The frames of the run, and the words of the page tables that lead to them.\<close>

definition run_frames :: "u32 \<Rightarrow> nat \<Rightarrow> u32 set" where
  "run_frames P n = nth_page P ` {..<n}"

definition run_slots :: "'z mstate_scheme \<Rightarrow> u32 \<Rightarrow> nat \<Rightarrow> u32 set" where
  "run_slots s v n = (\<lambda>k. slot (cr3 s) (pmem s) (nth_page v k)) ` {..<n}"

text \<open>The result \<open>s'\<close> of a request for \<open>n\<close> pages.\<close>

definition run_taken :: "'z mstate_scheme \<Rightarrow> u32 \<Rightarrow> u32 \<Rightarrow> nat \<Rightarrow> 'z mstate_scheme \<Rightarrow> bool" where
  "run_taken s v P n s' \<longleftrightarrow>
     (\<forall>k < n. data_page s' (nth_page v k) (nth_page P k)) \<and>
     (\<forall>a. frame_of a \<in> run_frames P n \<longrightarrow> pmem s' a = 0) \<and>
     (\<forall>a. frame_of a \<notin> run_frames P n \<longrightarrow> a \<notin> run_slots s v n \<longrightarrow> pmem s' a = pmem s a) \<and>
     same_dir (cr3 s) (pmem s) (pmem s') \<and>
     (\<forall>w q. mmu_walk (cr3 s) (pmem s) w = Some q \<longrightarrow> mmu_walk (cr3 s) (pmem s') w = Some q) \<and>
     page_frame s s' \<and> lock_free Kernel_pool_lock s'"

lemma vadder_get_run:
  assumes "page_run s i f v P n" and "0 < n"
  shows "\<exists>vb. vadder_get POOL_FLAG_KERNEL n s = Inr (v, s\<lparr>kernel_vaddr := (kernel_vaddr s)\<lparr>vaddr_bitmap := vb\<rparr>\<rparr>) \<and>
           btmp_bytes_len vb = btmp_bytes_len (vaddr_bitmap (kernel_vaddr s)) \<and>
           length (bits vb) = length (bits (vaddr_bitmap (kernel_vaddr s))) \<and>
           (\<forall>j. used vb j \<longleftrightarrow> used (vaddr_bitmap (kernel_vaddr s)) j \<or> (i \<le> j \<and> j < i + n))"
proof -
  let ?b = "vaddr_bitmap (kernel_vaddr s)"
  have a: "btmp_bytes_len ?b < length (bits ?b)" "i + n \<le> bitmap_cap ?b" "\<forall>j < i. used ?b j"
    "\<forall>j. i \<le> j \<and> j < i + n \<longrightarrow> \<not> used ?b j" "v = vaddr_start (kernel_vaddr s) + of_nat i * PG_SIZE"
    using assms(1) unfolding page_run_def by - (elim conjE, assumption)+
  have wf: "bitmap_wf ?b" using a(1) by (simp add: bitmap_wf_def)
  have "i < 2048" using a(2) assms(2) by (simp add: bitmap_cap_def)
  then have u: "u32_idx (int i) = i" by (intro u32_idx_int) simp
  from bitmap_set_run_ok [OF wf a(2)] obtain vb where
    "bitmap_set_run ?b i n = Inr vb" "btmp_bytes_len vb = btmp_bytes_len ?b" "length (bits vb) = length (bits ?b)"
    "\<forall>j. used vb j \<longleftrightarrow> used ?b j \<or> (i \<le> j \<and> j < i + n)" by blast
  with bitmap_scan_run [OF a(1) assms(2) a(2-4)] u a(5) show ?thesis
    by (intro exI [of _ vb]) (simp add: vadder_get_def Let_def)
qed

lemma map_run_cong:
  "cr3 s' = cr3 s \<Longrightarrow> pmem s' = pmem s \<Longrightarrow> kernel_pool s' = kernel_pool s \<Longrightarrow> map_run s' f v P n = map_run s f v P n"
  by (simp add: map_run_def)

lemma page_run_cong:
  assumes "cr3 s' = cr3 s" and "pmem s' = pmem s" and "kernel_pool s' = kernel_pool s"
    and "kernel_vaddr s' = kernel_vaddr s"
  shows "page_run s' i f v P n = page_run s i f v P n"
  unfolding page_run_def map_run_cong [OF assms(1-3)] assms(4) by (rule refl)

lemma page_run_le:
  assumes "page_run s i f v P (n + m)"
  shows "page_run s i f v P n"
proof -
  have "\<forall>k < n + m. nth_page v k \<noteq> 0" and "map_run s f v P (n + m)"
    using assms unfolding page_run_def by - (elim conjE, assumption)+
  then have "\<forall>k < n. nth_page v k \<noteq> 0" and "map_run s f v P n" using map_run_le by auto
  with assms show ?thesis unfolding page_run_def by (elim conjE) (intro conjI; (assumption | simp))
qed

lemma run_frames_iff: "F \<in> run_frames P n \<longleftrightarrow> (\<exists>k < n. F = nth_page P k)"
  by (auto simp: run_frames_def)

text \<open>The entries of the pages behind the first \<open>n\<close> are not among the words a request for \<open>n\<close> pages changes.\<close>

lemma run_slot_apart:
  assumes "map_run s f v P (n + m)" and "k < m"
  shows "frame_of (slot (cr3 s) (pmem s) (nth_page v (n + k))) \<notin> run_frames P n"
    and "slot (cr3 s) (pmem s) (nth_page v (n + k)) \<notin> run_slots s v n"
proof -
  have pages: "\<forall>k < n + m. nth_page P k \<noteq> 0 \<and> present (pmem s (pde_addr (cr3 s) (nth_page v k))) \<and>
      frame_of (pmem s (pde_addr (cr3 s) (nth_page v k))) \<noteq> cr3 s \<and>
      \<not> present (pmem s (slot (cr3 s) (pmem s) (nth_page v k))) \<and> table_free (cr3 s) (pmem s) (nth_page P k)"
    and inj: "inj_on (\<lambda>k. slot (cr3 s) (pmem s) (nth_page v k)) {..<n + m}"
    using assms(1) unfolding map_run_def by - (elim conjE, assumption)+
  have "present (pmem s (pde_addr (cr3 s) (nth_page v (n + k))))" using pages assms(2) by simp
  then have "frame_of (slot (cr3 s) (pmem s) (nth_page v (n + k))) \<noteq> nth_page P j" if "j < n" for j
    using pages that by (simp add: slot_def frame_pte_addr table_free_def)
  then show "frame_of (slot (cr3 s) (pmem s) (nth_page v (n + k))) \<notin> run_frames P n"
    by (auto simp: run_frames_iff)
  show "slot (cr3 s) (pmem s) (nth_page v (n + k)) \<notin> run_slots s v n"
    using inj_onD [OF inj, of "n + k"] assms(2) by (fastforce simp: run_slots_def)
qed

text \<open>What is left of the run once the first \<open>n\<close> addresses are marked.\<close>

lemma page_run_rest:
  assumes pr: "page_run s i f v P (n + m)" and m: "map_run s' (f + n) (nth_page v n) (nth_page P n) m"
    and kv: "kernel_vaddr s' = (kernel_vaddr s)\<lparr>vaddr_bitmap := b\<rparr>"
    and b: "btmp_bytes_len b = btmp_bytes_len (vaddr_bitmap (kernel_vaddr s))"
      "length (bits b) = length (bits (vaddr_bitmap (kernel_vaddr s)))"
      "\<forall>j. used b j \<longleftrightarrow> used (vaddr_bitmap (kernel_vaddr s)) j \<or> (i \<le> j \<and> j < i + n)"
  shows "page_run s' (i + n) (f + n) (nth_page v n) (nth_page P n) m"
proof -
  have vb: "btmp_bytes_len (vaddr_bitmap (kernel_vaddr s)) < length (bits (vaddr_bitmap (kernel_vaddr s)))"
    "i + (n + m) \<le> bitmap_cap (vaddr_bitmap (kernel_vaddr s))"
    "\<forall>j < i. used (vaddr_bitmap (kernel_vaddr s)) j"
    "\<forall>j. i \<le> j \<and> j < i + (n + m) \<longrightarrow> \<not> used (vaddr_bitmap (kernel_vaddr s)) j"
    and v: "v = vaddr_start (kernel_vaddr s) + of_nat i * PG_SIZE" "\<forall>k < n + m. nth_page v k \<noteq> 0"
    using pr unfolding page_run_def by - (elim conjE, assumption)+
  have sel: "vaddr_bitmap (kernel_vaddr s') = b" "vaddr_start (kernel_vaddr s') = vaddr_start (kernel_vaddr s)"
    using kv by simp_all
  have nv: "nth_page v n = vaddr_start (kernel_vaddr s) + of_nat (i + n) * PG_SIZE"
    unfolding v(1) by (simp add: nth_page_def algebra_simps)
  have cap: "bitmap_cap b = bitmap_cap (vaddr_bitmap (kernel_vaddr s))"
    using b(1) by (simp add: bitmap_cap_def nbits_def)
  have "\<forall>j < i + n. used b j" "\<forall>j. i + n \<le> j \<and> j < i + n + m \<longrightarrow> \<not> used b j"
    unfolding b(3) [rule_format] using vb(3,4) by auto
  then show ?thesis
    unfolding page_run_def sel b(1,2) cap nth_page_simps using m vb(1,2) v(2) nv
    by (intro conjI) (assumption | simp)+
qed

lemma get_kernel_page_run:
  assumes lf: "lock_free Kernel_pool_lock s" and pr: "page_run s i f v P (n + m)" and n: "0 < n"
  shows "\<exists>s'. get_kernel_page n s = Inr (v, s') \<and> run_taken s v P n s' \<and>
           page_run s' (i + n) (f + n) (nth_page v n) (nth_page P n) m"
proof -
  let ?L = "pool_lock POOL_FLAG_KERNEL" and ?cr = "cr3 s"
  have L: "?L = Kernel_pool_lock" by (simp add: pool_lock_def)
  let ?h = "lock_held ?L s"
  have la: "lock_acquire ?L s = Inr ?h" using lock_acquire_free lf L by simp
  have mr: "map_run s f v P (n + m)" and v: "\<forall>k < n + m. nth_page v k \<noteq> 0"
    using pr unfolding page_run_def by - (elim conjE, assumption)+
  have al: "v AND 0xfff = 0" "P AND 0xfff = 0" and rec: "recursive_map ?cr (pmem s)"
    and tf: "\<forall>k < n + m. table_free ?cr (pmem s) (nth_page P k)"
    using mr unfolding map_run_def by - (elim conjE, (assumption | simp))+
  have "page_run ?h i f v P n" using page_run_le [OF pr] by (subst page_run_cong) simp_all
  from vadder_get_run [OF this n] obtain b1 where
    vg: "vadder_get POOL_FLAG_KERNEL n ?h = Inr (v, ?h\<lparr>kernel_vaddr := (kernel_vaddr s)\<lparr>vaddr_bitmap := b1\<rparr>\<rparr>)"
    "btmp_bytes_len b1 = btmp_bytes_len (vaddr_bitmap (kernel_vaddr s))"
    "length (bits b1) = length (bits (vaddr_bitmap (kernel_vaddr s)))"
    "\<forall>j. used b1 j \<longleftrightarrow> used (vaddr_bitmap (kernel_vaddr s)) j \<or> (i \<le> j \<and> j < i + n)"
    unfolding lock_held_mstate by blast
  let ?h1 = "?h\<lparr>kernel_vaddr := (kernel_vaddr s)\<lparr>vaddr_bitmap := b1\<rparr>\<rparr>"
  have s1: "cr3 ?h1 = ?cr" "pmem ?h1 = pmem s" "kernel_pool ?h1 = kernel_pool s" by simp_all
  have "map_run ?h1 f v P n" using map_run_le [OF mr] map_run_cong [OF s1] by simp
  from malloc_page_loop_ok [OF this, unfolded s1] obtain pm b2 where
    ml: "malloc_page_loop POOL_FLAG_KERNEL v n ?h1 = Inr (True, ?h1\<lparr>kernel_pool := (kernel_pool s)\<lparr>pool_bitmap := b2\<rparr>, pmem := pm\<rparr>)"
    "same_dir ?cr (pmem s) pm" "\<forall>k < n. mmu_walk ?cr pm (nth_page v k) = Some (nth_page P k)"
    "\<forall>a. (\<forall>k < n. a \<noteq> slot ?cr (pmem s) (nth_page v k)) \<longrightarrow> pm a = pmem s a"
    "\<forall>w q. mmu_walk ?cr (pmem s) w = Some q \<longrightarrow> mmu_walk ?cr pm w = Some q"
    "bitmap_wf b2" "bitmap_cap b2 = bitmap_cap (pool_bitmap (kernel_pool s))"
    "\<forall>j. used b2 j \<longleftrightarrow> used (pool_bitmap (kernel_pool s)) j \<or> (f \<le> j \<and> j < f + n)"
    by (elim exE conjE) (rule that)
  let ?h2 = "?h1\<lparr>kernel_pool := (kernel_pool s)\<lparr>pool_bitmap := b2\<rparr>, pmem := pm\<rparr>"
  note sf = same_dir_facts [OF ml(2)]
  have dp: "\<forall>k < n. data_page ?h2 (nth_page v k) (nth_page P k)"
    using ml(3) tf rec sf nth_page_low [OF al(1)] by (simp add: data_page_def)
  have s2: "cr3 ?h2 = ?cr" "pmem ?h2 = pm" by simp_all
  have r2: "recursive_map (cr3 ?h2) (pmem ?h2)" using rec sf(3) by simp
  from zero_pages_ok [OF dp r2, unfolded s2] obtain pz ar where
    z: "zero_pages v n ?h2 = Inr (?h2\<lparr>pmem := pz, arenas := ar\<rparr>)"
    "\<forall>a. pz a = (if \<exists>k < n. frame_of a = nth_page P k then 0 else pm a)"
    "same_dir ?cr pm pz" "\<forall>w. mmu_walk ?cr pz w = mmu_walk ?cr pm w"
    by (elim exE conjE) (rule that)
  let ?h3 = "?h2\<lparr>pmem := pz, arenas := ar\<rparr>"
  let ?s' = "lock_freed ?L ?h3"
  have lr: "lock_release ?L ?h3 = Inr ?s'"
    by (rule lock_release_last) (use lf L in \<open>simp_all add: lock_free_def queue_def dll_def lock_held_def\<close>)
  have "v \<noteq> 0" using v n by force
  then have get: "get_kernel_page n s = Inr (v, ?s')"
    using la vg(1) ml(1) z(1) lr n by (simp add: get_kernel_page_def get_pages_def malloc_page_def)
  have pzo: "pz a = pmem s a" if "frame_of a \<notin> run_frames P n" "a \<notin> run_slots s v n" for a
    using z(2) ml(4) that by (auto simp: run_frames_iff run_slots_def)
  have sd: "same_dir ?cr (pmem s) pz" by (rule same_dir_trans [OF ml(2) z(3)])
  have dps: "\<forall>k < n. data_page ?s' (nth_page v k) (nth_page P k)"
  proof (intro allI impI)
    fix k assume "k < n"
    with dp have d: "data_page ?h2 (nth_page v k) (nth_page P k)" by blast
    then have "data_page ?h3 (nth_page v k) (nth_page P k)"
      by (rule data_page_dir) (use z(3,4) d in \<open>simp_all add: data_page_def\<close>)
    then show "data_page ?s' (nth_page v k) (nth_page P k)" by simp
  qed
  have pf: "page_frame s ?s'" using L by (simp add: page_frame_def lock_freed_def lock_held_def)
  have lk: "lock_free Kernel_pool_lock ?s'"
    using lf L by (simp add: lock_free_def queue_def dll_def lock_freed_def lock_held_def)
  have taken: "run_taken s v P n ?s'"
    unfolding run_taken_def
    using dps pf lk pzo sd z(2,4) ml(5) by (intro conjI) (auto simp: run_frames_iff)
  have keep: "pz (slot ?cr (pmem s) (nth_page v (n + k))) = pmem s (slot ?cr (pmem s) (nth_page v (n + k)))" if "k < m" for k
    by (rule pzo) (rule run_slot_apart [OF mr that])+
  have m': "map_run ?s' (f + n) (nth_page v n) (nth_page P n) m"
    by (rule map_run_rest [OF mr ml(6-8)]) (use keep sd in simp_all)
  have "page_run ?s' (i + n) (f + n) (nth_page v n) (nth_page P n) m"
    by (rule page_run_rest [OF pr m' _ vg(2-4)]) simp
  with get taken show ?thesis by blast
qed

end
