(* ===== verification/Execute.thy ===== *)
theory Execute
  imports Spaces Pages
begin

text \<open>
  \<open>process_execute\<close> of \<open>userprog/process.c\<close> from its request for a PCB to the two lists: the pages it
  takes (the PCB, 23 for the bitmap of the user's addresses, the page directory) are the next 25 of
  the kernel, and the result is one more ready thread of the abstract scheduler with an address
  space of its own.
\<close>

section \<open>Requests for memory, one after the other\<close>

text \<open>The words of the frames in \<open>D\<close>, the directory and every translation are kept.\<close>

definition mem_grows :: "u32 set \<Rightarrow> 'z mstate_scheme \<Rightarrow> 'z mstate_scheme \<Rightarrow> bool" where
  "mem_grows D s s' \<longleftrightarrow>
     cr3 s' = cr3 s \<and> same_dir (cr3 s) (pmem s) (pmem s') \<and>
     (\<forall>a. frame_of a \<in> D \<longrightarrow> pmem s' a = pmem s a) \<and>
     (\<forall>w q. mmu_walk (cr3 s) (pmem s) w = Some q \<longrightarrow> mmu_walk (cr3 s) (pmem s') w = Some q)"

lemma mem_grows_trans: "mem_grows D s s' \<Longrightarrow> mem_grows D s' s'' \<Longrightarrow> mem_grows D s s''"
  by (auto simp: mem_grows_def same_dir_def)

lemma kmem_same_trans: "kmem_same s s' \<Longrightarrow> kmem_same s' s'' \<Longrightarrow> kmem_same s s''"
  by (simp add: kmem_same_def)

lemma kmem_same_grows: "kmem_same s s' \<Longrightarrow> pcb_frame t s s' \<Longrightarrow> mem_grows D s s'"
  by (simp add: mem_grows_def kmem_same_def pcb_frame_def same_dir_def)

text \<open>None of the pages from \<open>v\<close> and \<open>P\<close> on has to do with the frames in \<open>D\<close>.\<close>

definition run_apart :: "u32 set \<Rightarrow> 'z mstate_scheme \<Rightarrow> u32 \<Rightarrow> u32 \<Rightarrow> nat \<Rightarrow> bool" where
  "run_apart D s v P n \<longleftrightarrow>
     (\<forall>k < n. nth_page P k \<notin> D \<and> frame_of (pmem s (pde_addr (cr3 s) (nth_page v k))) \<notin> D)"

lemma run_apart_rest:
  "run_apart D s v P (n + m) \<Longrightarrow> mem_grows E s s' \<Longrightarrow> run_apart D s' (nth_page v n) (nth_page P n) m"
  by (simp add: run_apart_def mem_grows_def same_dir_def)

lemma run_apart_le: "run_apart D s v P (n + m) \<Longrightarrow> run_apart D s v P n"
  by (simp add: run_apart_def)

lemma run_taken_grows:
  assumes "run_taken s v P n s'" and "run_apart D s v P n"
  shows "mem_grows D s s'"
proof -
  have "pmem s' a = pmem s a" if "frame_of a \<in> D" for a
  proof -
    have "frame_of a \<notin> run_frames P n" using that assms(2) by (auto simp: run_apart_def run_frames_iff)
    moreover have "a \<notin> run_slots s v n"
      using that assms(2) frame_pte_addr by (auto simp: run_apart_def run_slots_def slot_def)
    ultimately show ?thesis using assms(1) by (simp add: run_taken_def)
  qed
  then show ?thesis using assms(1) by (simp add: mem_grows_def run_taken_def page_frame_def)
qed

lemma run_taken_pcb: "run_taken s v P n s' \<Longrightarrow> pcb_frame t s s'"
  unfolding run_taken_def by (elim conjE) (rule page_frame_pcb)

lemma page_run_kmem: "kmem_same s s' \<Longrightarrow> pcb_frame t s s' \<Longrightarrow> page_run s i f v P n \<Longrightarrow> page_run s' i f v P n"
  by (subst page_run_cong [of s' s]) (simp_all add: kmem_same_def pcb_frame_def)

lemma page_run_next:
  assumes "page_run s i f v P (Suc m)"
  shows "next_page s i f v P"
proof -
  have b: "btmp_bytes_len (vaddr_bitmap (kernel_vaddr s)) < length (bits (vaddr_bitmap (kernel_vaddr s)))"
    "i + Suc m \<le> bitmap_cap (vaddr_bitmap (kernel_vaddr s))" "\<forall>j < i. used (vaddr_bitmap (kernel_vaddr s)) j"
    "\<forall>j. i \<le> j \<and> j < i + Suc m \<longrightarrow> \<not> used (vaddr_bitmap (kernel_vaddr s)) j"
    "v = vaddr_start (kernel_vaddr s) + of_nat i * PG_SIZE" "\<forall>k < Suc m. nth_page v k \<noteq> 0" "map_run s f v P (Suc m)"
    using assms unfolding page_run_def by - (elim conjE, assumption)+
  have m: "recursive_map (cr3 s) (pmem s)" "v AND 0xfff = 0" "P AND 0xfff = 0"
    "bitmap_wf (pool_bitmap (kernel_pool s))" "f + Suc m \<le> bitmap_cap (pool_bitmap (kernel_pool s))"
    "\<forall>j < f. used (pool_bitmap (kernel_pool s)) j"
    "\<forall>j. f \<le> j \<and> j < f + Suc m \<longrightarrow> \<not> used (pool_bitmap (kernel_pool s)) j"
    "P = of_nat f * PG_SIZE + phy_address_start (kernel_pool s)"
    "\<forall>k < Suc m. nth_page P k \<noteq> 0 \<and> present (pmem s (pde_addr (cr3 s) (nth_page v k))) \<and>
        frame_of (pmem s (pde_addr (cr3 s) (nth_page v k))) \<noteq> cr3 s \<and>
        \<not> present (pmem s (slot (cr3 s) (pmem s) (nth_page v k))) \<and> table_free (cr3 s) (pmem s) (nth_page P k)"
    using b(7) unfolding map_run_def by - (elim conjE, assumption)+
  show ?thesis
    unfolding next_page_def
    using m(9) [rule_format, of 0] b(6) [rule_format, of 0] frame_of_aligned [OF m(3)] b(1-4) m(4-7)
    by (intro conjI m(1,2,4,6,8) b(3,5)) (auto simp: bitmap_wf_def)
qed

section \<open>The bitmap of the user's addresses\<close>

definition user_bitmap :: bitmap where
  "user_bitmap = \<lparr>btmp_bytes_len = 23 * 4096, bits = replicate (23 * 4096) 0\<rparr>"

lemma user_bitmap_frame:
  assumes lf: "lock_free Kernel_pool_lock s" and pr: "page_run s i f v P (23 + m)" and t: "tasks s t = Some p"
  shows "\<exists>s1. create_user_vaddr_bitmap t s = Inr (set_task t
             (p\<lparr>userprog_vadder := \<lparr>vaddr_bitmap = user_bitmap, vaddr_start = USER_VADDR_START\<rparr>\<rparr>) s1) \<and>
           run_taken s v P 23 s1 \<and> page_run s1 (i + 23) (f + 23) (nth_page v 23) (nth_page P 23) m"
proof -
  from get_kernel_page_run [OF lf pr] obtain s1 where
    s1: "get_kernel_page 23 s = Inr (v, s1)" "run_taken s v P 23 s1"
    "page_run s1 (i + 23) (f + 23) (nth_page v 23) (nth_page P 23) m" by auto
  have "page_run s i f v P (Suc (22 + m))" using pr by simp
  from next_pageD(2) [OF page_run_next [OF this]] have v0: "v \<noteq> 0" .
  have c: "((0xc0000000 - USER_VADDR_START) div PG_SIZE div 8 + PG_SIZE - 1) div PG_SIZE = (23 :: u32)"
    by (simp add: USER_VADDR_START_def PG_SIZE_def)
  have n: "unat (23 * PG_SIZE) = 23 * 4096" "unat (23 :: u32) = 23" by (simp_all add: PG_SIZE_def)
  have t1: "tasks s1 t = Some p" using s1(2) t by (simp add: run_taken_def page_frame_def)
  have b: "bitmap_init \<lparr>btmp_bytes_len = 23 * 4096, bits = replicate (23 * 4096) 0\<rparr> = Inr user_bitmap"
    unfolding user_bitmap_def by (subst bitmap_init_ok) simp_all
  have "create_user_vaddr_bitmap t s = Inr (set_task t
      (p\<lparr>userprog_vadder := \<lparr>vaddr_bitmap = user_bitmap, vaddr_start = USER_VADDR_START\<rparr>\<rparr>) s1)"
    unfolding create_user_vaddr_bitmap_def Let_def c n s1(1)
    using v0 t1 b by (simp add: get_task_def)
  with s1(2,3) show ?thesis by blast
qed

section \<open>A process\<close>

text \<open>The PCB of a new process.\<close>

definition process_task :: "u32 \<Rightarrow> buf \<Rightarrow> u16 \<Rightarrow> u32 \<Rightarrow> task_struct" where
  "process_task t nm new_pid d = (started_task t nm 31 new_pid)
     \<lparr>userprog_vadder := \<lparr>vaddr_bitmap = user_bitmap, vaddr_start = USER_VADDR_START\<rparr>, pgdir := d,
      u_block_descs := map (\<lambda>k. mem_block_desc_size (16 * 2 ^ k)) [0..<7]\<rparr>"

text \<open>Up to the page directory: the PCB, the bitmap, the first frame.\<close>

lemma process_pcb:
  assumes lf: "lock_free Kernel_pool_lock s" "lock_free Pid_lock s" and pr: "page_run s i f t P (24 + m)"
    and ra: "run_apart D s t P (24 + m)" and mt: "t \<noteq> main_thread s"
    and nm: "strcpy (Some (replicate 16 0)) (Some name) = Inr nm"
  defines "p \<equiv> (started_task t nm 31 (next_pid s + 1))
      \<lparr>userprog_vadder := \<lparr>vaddr_bitmap = user_bitmap, vaddr_start = USER_VADDR_START\<rparr>\<rparr>"
  shows "\<exists>s1 s2 s3 s4. get_kernel_page 1 s = Inr (t, s1) \<and> init_thread t name 31 s1 = Inr s2 \<and>
           create_user_vaddr_bitmap t s2 = Inr s3 \<and> thread_create t func arg s3 = Inr s4 \<and>
           tasks s4 = (tasks s)(t \<mapsto> p) \<and> next_pid s4 = next_pid s + 1 \<and>
           thread_stacks s4 (t + PG_SIZE - 4 * 76 - 4 * 32) = Some (first_frame func arg) \<and>
           page_run s4 (i + 24) (f + 24) (nth_page t 24) (nth_page P 24) m \<and>
           run_apart D s4 (nth_page t 24) (nth_page P 24) m \<and> mem_grows D s s4 \<and> pcb_frame t s s4"
proof -
  have pr1: "page_run s i f t P (1 + (23 + m))" and ra1: "run_apart D s t P (1 + (23 + m))"
    using pr ra by simp_all
  from get_kernel_page_run [OF lf(1) pr1] obtain s1 where
    s1: "get_kernel_page 1 s = Inr (t, s1)" "run_taken s t P 1 s1"
    "page_run s1 (i + 1) (f + 1) (nth_page t 1) (nth_page P 1) (23 + m)" by auto
  note g1 = run_taken_grows [OF s1(2) run_apart_le [OF ra1]]
  note a1 = run_apart_rest [OF ra1 g1]
  note p1 = run_taken_pcb [OF s1(2), of t]
  have f1: "tasks s1 = tasks s" "next_pid s1 = next_pid s" using s1(2) by (simp_all add: run_taken_def page_frame_def)
  have l1: "lock_free Pid_lock s1" "main_thread s1 = main_thread s" using p1 lf by (simp_all add: pcb_frame_def)
  have "page_run s i f t P (Suc (23 + m))" using pr by simp
  from next_pageD(2) [OF page_run_next [OF this]] have t0: "t \<noteq> 0" .
  have mt1: "t \<noteq> main_thread s1" using mt l1 by simp
  from init_thread_frame [OF l1(1) t0 mt1 nm, of 31] obtain s2 where
    s2: "init_thread t name 31 s1 = Inr s2" "tasks s2 = (tasks s1)(t \<mapsto> fresh_task t nm 31 False (next_pid s1 + 1))"
    "next_pid s2 = next_pid s1 + 1" "kmem_same s1 s2" "pcb_frame t s1 s2" by blast
  let ?f = "fresh_task t nm 31 False (next_pid s + 1)"
  have t2: "tasks s2 t = Some ?f" using s2(2) f1 by simp
  note g2 = kmem_same_grows [OF s2(4,5), of D]
  have l2: "lock_free Kernel_pool_lock s2"
    using pcb_frame_trans [OF p1 s2(5)] lf(1) by (simp add: pcb_frame_def)
  have a2: "run_apart D s2 (nth_page t 1) (nth_page P 1) (23 + m)"
    using run_apart_rest [of D s1 "nth_page t 1" "nth_page P 1" 0 "23 + m"] a1 g2 by simp
  let ?u = "\<lparr>vaddr_bitmap = user_bitmap, vaddr_start = USER_VADDR_START\<rparr>"
  have e: "i + 1 + 23 = i + 24" "f + 1 + 23 = f + 24" "nth_page (nth_page t 1) 23 = nth_page t 24"
    "nth_page (nth_page P 1) 23 = nth_page P 24" by simp_all
  from user_bitmap_frame [OF l2 page_run_kmem [OF s2(4,5) s1(3)] t2, unfolded e] obtain s3 where
    s3: "create_user_vaddr_bitmap t s2 = Inr (set_task t (?f\<lparr>userprog_vadder := ?u\<rparr>) s3)"
    "run_taken s2 (nth_page t 1) (nth_page P 1) 23 s3"
    "page_run s3 (i + 24) (f + 24) (nth_page t 24) (nth_page P 24) m" by blast
  let ?s3 = "set_task t (?f\<lparr>userprog_vadder := ?u\<rparr>) s3"
  note g3 = run_taken_grows [OF s3(2) run_apart_le [OF a2]]
  note a3 = run_apart_rest [OF a2 g3]
  note p3 = pcb_frame_trans [OF run_taken_pcb [OF s3(2), of t] set_task_pcb(1)]
  have f3: "tasks s3 = tasks s2" "next_pid s3 = next_pid s2" using s3(2) by (simp_all add: run_taken_def page_frame_def)
  have "tasks ?s3 t = Some (?f\<lparr>userprog_vadder := ?u\<rparr>)" by simp
  from thread_create_frame [OF this, of func arg] obtain s4 where
    s4: "thread_create t func arg ?s3 = Inr s4"
    "tasks s4 = (tasks ?s3)(t \<mapsto> ?f\<lparr>userprog_vadder := ?u, self_kstart := self_kstart ?f - 4 * 76 - 4 * 32\<rparr>)"
    "next_pid s4 = next_pid ?s3"
    "thread_stacks s4 = (thread_stacks ?s3)(self_kstart ?f - 4 * 76 - 4 * 32 \<mapsto> first_frame func arg)"
    "kmem_same ?s3 s4" "pcb_frame t ?s3 s4" by auto
  have k34: "kmem_same s3 s4" "pcb_frame t s3 s4"
    using kmem_same_trans [OF set_task_pcb(2) s4(5)] pcb_frame_trans [OF set_task_pcb(1) s4(6)] .
  note g4 = kmem_same_grows [OF k34, of D]
  have a4: "run_apart D s4 (nth_page t 24) (nth_page P 24) m"
    using run_apart_rest [of D s3 "nth_page t 24" "nth_page P 24" 0 m] a3 g4 by simp
  have "pcb_frame t s s4"
    by (rule pcb_frame_trans [OF p1 pcb_frame_trans [OF s2(5) pcb_frame_trans [OF p3 s4(6)]]])
  moreover have "mem_grows D s s4"
    by (rule mem_grows_trans [OF g1 mem_grows_trans [OF g2 mem_grows_trans [OF g3 g4]]])
  moreover have ks: "self_kstart ?f = t + PG_SIZE" by (simp add: fresh_task_def)
  moreover have "?f\<lparr>userprog_vadder := ?u, self_kstart := self_kstart ?f - 4 * 76 - 4 * 32\<rparr> = p"
    unfolding p_def started_task_def ks by (simp add: fresh_task_def zero_task_def)
  then have "tasks s4 = (tasks s)(t \<mapsto> p)" unfolding s4(2) by (simp add: f3 s2(2) f1)
  ultimately show ?thesis
    using s1(1) s2(1) s3(1) s4(1,3,4) s2(3) f1(2) f3(2) a4 page_run_kmem [OF k34 s3(3)] ks
    by (intro exI [of _ s1] exI [of _ s2] exI [of _ ?s3] exI [of _ s4]) (simp add: set_task_def)
qed

lemma block_desc_pcb:
  assumes "block_desc_init (U_block_descs t) s = (ds, s')"
  shows "pcb_frame t s s'" and "only_lists s s'" and "ds = map (\<lambda>k. mem_block_desc_size (16 * 2 ^ k)) [0..<7]"
    and "k < 7 \<Longrightarrow> queue s' (Free_list (U_block_descs t) k) []"
proof -
  let ?l = "block_desc_loop (U_block_descs t) 0 7 16 s"
  have e: "ds = fst ?l" "s' = snd ?l" using assms by (simp_all add: block_desc_init_def)
  note b = block_desc_loop_ok [of "U_block_descs t" 0 7 16 s, folded e]
  show o: "only_lists s s'" unfolding e by (rule block_desc_loop_frame)
  show "ds = map (\<lambda>k. mem_block_desc_size (16 * 2 ^ k)) [0..<7]" using b by blast
  show "queue s' (Free_list (U_block_descs t) k) []" if "k < 7" using b that by simp
  have q: "queue s' l xs" if "\<forall>k. l \<noteq> Free_list (U_block_descs t) k" "queue s l xs" for l xs
    using b that by blast
  then have "lock_free k s'" if "lock_free k s" for k
    using that only_lists_kstate [OF o] by (simp add: lock_free_def)
  then show "pcb_frame t s s'"
    using q only_lists_kstate [OF o] only_lists_eflags [OF o] by (simp add: pcb_frame_def)
qed

lemma disable_mstate [simp]:
  "kernel_pool (snd (intr_disable s)) = kernel_pool s" "kernel_vaddr (snd (intr_disable s)) = kernel_vaddr s"
  "lock_free k (snd (intr_disable s)) = lock_free k s"
  "page_run (snd (intr_disable s)) i f v P n = page_run s i f v P n"
  "run_apart D (snd (intr_disable s)) v P n = run_apart D s v P n"
proof -
  show k: "kernel_pool (snd (intr_disable s)) = kernel_pool s" "kernel_vaddr (snd (intr_disable s)) = kernel_vaddr s"
    by (simp_all add: intr_disable_def)
  show "page_run (snd (intr_disable s)) i f v P n = page_run s i f v P n"
    by (rule page_run_cong) (simp_all add: k)
  show "lock_free k (snd (intr_disable s)) = lock_free k s"
    "run_apart D (snd (intr_disable s)) v P n = run_apart D s v P n"
    by (simp_all add: lock_free_def run_apart_def)
qed

text \<open>The page directory of the new process.\<close>

lemma process_space:
  assumes sh: "spaces_shared phys ts (cr3 s) (pmem s)" and t: "ts t = None" "pgdir p = 0"
    and g: "mem_grows (spaces phys ts) s s4" and ra: "run_apart (spaces phys ts) s4 d F 1"
    and pr: "page_run s4 i f d F 1" and lf: "lock_free Kernel_pool_lock s4"
    and d: "0xc0000000 \<le> d" "d < 0xffc00000"
  shows "\<exists>s5. create_page_dir s4 = Inr (d, s5) \<and> (\<forall>w < 0xc0000000. mmu_walk F (pmem s5) w = None) \<and>
           spaces_shared (phys(d := F)) (ts(t \<mapsto> p\<lparr>pgdir := d\<rparr>)) (cr3 s5) (pmem s5) \<and>
           page_frame s4 s5 \<and> lock_free Kernel_pool_lock s5"
proof -
  have g': "cr3 s4 = cr3 s" "\<And>a. frame_of a \<in> spaces phys ts \<Longrightarrow> pmem s4 a = pmem s a"
    "\<And>w q. mmu_walk (cr3 s) (pmem s) w = Some q \<Longrightarrow> mmu_walk (cr3 s) (pmem s4) w = Some q"
    using g by (simp_all add: mem_grows_def)
  have sh4: "spaces_shared phys (ts(t \<mapsto> p)) (cr3 s4) (pmem s4)"
    unfolding g'(1) by (rule spaces_shared_thread [OF sh t g'(2,3)])
  have e: "spaces phys (ts(t \<mapsto> p)) = spaces phys ts" using t by (simp add: spaces_def space_of_def)
  have ra': "F \<notin> spaces phys (ts(t \<mapsto> p))" "frame_of (pmem s4 (pde_addr (cr3 s4) d)) \<notin> spaces phys (ts(t \<mapsto> p))"
    using ra unfolding e by (simp_all add: run_apart_def)
  have "page_run s4 i f d F (Suc 0)" using pr by simp
  from create_page_dir_spaces [OF lf page_run_next [OF this] d sh4 ra', of t p] t obtain s5 where
    s5: "create_page_dir s4 = Inr (d, s5)" "\<forall>w < 0xc0000000. mmu_walk F (pmem s5) w = None"
    "spaces_shared (phys(d := F)) (ts(t \<mapsto> p, t \<mapsto> p\<lparr>pgdir := d\<rparr>)) (cr3 s4) (pmem s5)"
    "page_frame s4 s5" "lock_free Kernel_pool_lock s5" by auto
  have "cr3 s5 = cr3 s4" using s5(4) by (simp add: page_frame_def)
  with s5 show ?thesis by (intro exI [of _ s5]) simp
qed

text \<open>From the page directory to the lists.\<close>

lemma process_lists:
  assumes q: "queue s Thread_ready_list ys" "queue s Thread_all_list xs"
    and g: "General_tag t \<notin> set ys" "General_tag t \<notin> set xs" and b: "All_list_tag t \<notin> set ys" "All_list_tag t \<notin> set xs"
    and dj: "set ys \<inter> set xs = {}"
  shows "\<exists>ds s1 s2 s3. block_desc_init (U_block_descs t) (set_task t (p\<lparr>pgdir := d\<rparr>) s) = (ds, s1) \<and>
           q_append Thread_ready_list (General_tag t) (set_task t (p\<lparr>pgdir := d, u_block_descs := ds\<rparr>) s1) = Inr s2 \<and>
           q_append Thread_all_list (All_list_tag t) s2 = Inr s3 \<and>
           tasks s3 = (tasks s)(t \<mapsto> p\<lparr>pgdir := d, u_block_descs := map (\<lambda>k. mem_block_desc_size (16 * 2 ^ k)) [0..<7]\<rparr>) \<and>
           queue s3 Thread_ready_list (ys @ [General_tag t]) \<and> queue s3 Thread_all_list (xs @ [All_list_tag t]) \<and>
           (\<forall>k < 7. queue s3 (Free_list (U_block_descs t) k) []) \<and> mstate.more s3 = mstate.more s \<and>
           cr3 s3 = cr3 s \<and> pmem s3 = pmem s \<and> running s3 = running s \<and> idle_thread s3 = idle_thread s \<and>
           eflags s3 = eflags s \<and> (\<forall>k. lock_free k s \<longrightarrow> lock_free k s3)"
proof -
  let ?s0 = "set_task t (p\<lparr>pgdir := d\<rparr>) s"
  obtain ds s1 where bd: "block_desc_init (U_block_descs t) ?s0 = (ds, s1)" by (rule prod.exhaust)
  note bp = block_desc_pcb [OF bd]
  let ?s1 = "set_task t (p\<lparr>pgdir := d, u_block_descs := ds\<rparr>) s1"
  have pf: "pcb_frame t s ?s1"
    by (rule pcb_frame_trans [OF set_task_pcb(1) pcb_frame_trans [OF bp(1) set_task_pcb(1)]])
  have q1: "queue ?s1 Thread_ready_list ys" "queue ?s1 Thread_all_list xs"
    using pf q g b unfolding pcb_frame_def by blast+
  have ne: "General_tag t \<noteq> All_list_tag t" by simp
  from enqueue_both_ok [OF q1 g b ne dj] obtain s2 s3 where
    s3: "q_append Thread_ready_list (General_tag t) ?s1 = Inr s2" "q_append Thread_all_list (All_list_tag t) s2 = Inr s3"
    "queue s3 Thread_ready_list (ys @ [General_tag t])" "queue s3 Thread_all_list (xs @ [All_list_tag t])"
    "only_lists ?s1 s3" "\<forall>k. k \<noteq> Thread_ready_list \<longrightarrow> k \<noteq> Thread_all_list \<longrightarrow> queue ?s1 k [] \<longrightarrow> queue s3 k []"
    by (elim exE conjE) (rule that)
  note o1 = only_lists_kstate [OF bp(2)] only_lists_eflags [OF bp(2)] only_lists_mstate(6) [OF bp(2)]
  note o3 = only_lists_kstate [OF s3(5)] only_lists_eflags [OF s3(5)] only_lists_mstate(6) [OF s3(5)]
  have fr: "queue s3 (Free_list (U_block_descs t) k) []" if "k < 7" for k
    using s3(6) bp(4) [OF that] by simp
  have lf: "lock_free k s3" if "lock_free k s" for k
  proof -
    have "lock_free k ?s1" using pf that by (simp add: pcb_frame_def)
    with s3(6) o3 show ?thesis by (simp add: lock_free_def)
  qed
  have m: "mstate.more (set_task t x u) = mstate.more u" for x and u :: "'a mstate_scheme" by (simp add: set_task_def)
  have "tasks s3 = (tasks s)(t \<mapsto> p\<lparr>pgdir := d, u_block_descs := ds\<rparr>)" using o1(1) o3(1) by simp
  with bd s3(1-4) fr lf o1 o3 show ?thesis
    unfolding bp(3) by (intro exI [of _ ds] exI [of _ s1] exI [of _ s2] exI [of _ s3]) (simp add: m bp(3))
qed

text \<open>All of \<open>process_execute\<close>, up to the interrupt flag it restores.\<close>

lemma process_execute_runs:
  assumes lf: "lock_free Kernel_pool_lock s" "lock_free Pid_lock s"
    and pr: "page_run s i f t P 25" and ra: "run_apart (spaces phys (tasks s)) s t P 25"
    and sh: "spaces_shared phys (tasks s) (cr3 s) (pmem s)"
    and d: "d = nth_page t 24" "F = nth_page P 24" "0xc0000000 \<le> d" "d < 0xffc00000"
    and t: "tasks s t = None" "t \<noteq> main_thread s"
    and q: "queue s Thread_ready_list ys" "queue s Thread_all_list xs"
    and g: "General_tag t \<notin> set ys" "General_tag t \<notin> set xs" and b: "All_list_tag t \<notin> set ys" "All_list_tag t \<notin> set xs"
    and dj: "set ys \<inter> set xs = {}" and nm: "strcpy (Some (replicate 16 0)) (Some name) = Inr nm"
  shows "\<exists>s'. process_execute filename name s = Inr (s'\<lparr>eflags := eflags s\<rparr>) \<and>
           tasks s' = (tasks s)(t \<mapsto> process_task t nm (next_pid s + 1) d) \<and>
           thread_stacks s' (t + PG_SIZE - 4 * 76 - 4 * 32) = Some (first_frame Start_process filename) \<and>
           (\<forall>w < 0xc0000000. mmu_walk F (pmem s') w = None) \<and>
           spaces_shared (phys(d := F)) (tasks s') (cr3 s') (pmem s') \<and>
           queue s' Thread_ready_list (ys @ [General_tag t]) \<and> queue s' Thread_all_list (xs @ [All_list_tag t]) \<and>
           (\<forall>k < 7. queue s' (Free_list (U_block_descs t) k) []) \<and>
           running s' = running s \<and> idle_thread s' = idle_thread s \<and>
           lock_free Kernel_pool_lock s' \<and> lock_free Pid_lock s'"
proof -
  let ?s0 = "snd (intr_disable s)" and ?D = "spaces phys (tasks s)"
  let ?p = "(started_task t nm 31 (next_pid s + 1))
      \<lparr>userprog_vadder := \<lparr>vaddr_bitmap = user_bitmap, vaddr_start = USER_VADDR_START\<rparr>\<rparr>"
  have n1: "24 + 1 = (25 :: nat)" by simp
  have h0: "lock_free Kernel_pool_lock ?s0" "lock_free Pid_lock ?s0" "page_run ?s0 i f t P (24 + 1)"
    "run_apart ?D ?s0 t P (24 + 1)" "t \<noteq> main_thread ?s0" unfolding n1 using lf pr ra t(2) by simp_all
  from process_pcb [OF h0 nm, of Start_process filename] obtain s1 s2 s3 s4 where
    s4: "get_kernel_page 1 ?s0 = Inr (t, s1)" "init_thread t name 31 s1 = Inr s2"
    "create_user_vaddr_bitmap t s2 = Inr s3" "thread_create t Start_process filename s3 = Inr s4"
    "tasks s4 = (tasks ?s0)(t \<mapsto> (started_task t nm 31 (next_pid ?s0 + 1))
      \<lparr>userprog_vadder := \<lparr>vaddr_bitmap = user_bitmap, vaddr_start = USER_VADDR_START\<rparr>\<rparr>)"
    "next_pid s4 = next_pid ?s0 + 1"
    "thread_stacks s4 (t + PG_SIZE - 4 * 76 - 4 * 32) = Some (first_frame Start_process filename)"
    "page_run s4 (i + 24) (f + 24) (nth_page t 24) (nth_page P 24) 1"
    "run_apart ?D s4 (nth_page t 24) (nth_page P 24) 1" "mem_grows ?D ?s0 s4" "pcb_frame t ?s0 s4"
    by (elim exE conjE) (rule that)
  have dis: "tasks ?s0 = tasks s" "next_pid ?s0 = next_pid s" "running ?s0 = running s" "idle_thread ?s0 = idle_thread s"
    by simp_all
  have t4: "tasks s4 = (tasks s)(t \<mapsto> ?p)" using s4(5) dis by simp
  have pf: "running s4 = running s" "idle_thread s4 = idle_thread s" "eflags s4 = eflags ?s0"
    "lock_free Kernel_pool_lock s4" "lock_free Pid_lock s4"
    using s4(11) h0(1,2) dis by (simp_all add: pcb_frame_def)
  let ?ds = "map (\<lambda>k. mem_block_desc_size (16 * 2 ^ k)) [0..<7]"
  let ?q = "?p\<lparr>u_block_descs := ?ds\<rparr>"
  have pd: "pgdir ?q = 0" "?q\<lparr>pgdir := d\<rparr> = process_task t nm (next_pid s + 1) d"
    "?p\<lparr>pgdir := d, u_block_descs := ?ds\<rparr> = process_task t nm (next_pid s + 1) d"
    by (simp_all add: process_task_def started_task_def fresh_task_def zero_task_def)
  have sh0: "spaces_shared phys (tasks s) (cr3 ?s0) (pmem ?s0)" using sh by simp
  from process_space [OF sh0 t(1) pd(1) s4(10) s4(9) s4(8) pf(4), folded d(1,2), OF d(3,4)]
  obtain s5 where s5: "create_page_dir s4 = Inr (d, s5)" "\<forall>w < 0xc0000000. mmu_walk F (pmem s5) w = None"
    "spaces_shared (phys(d := F)) ((tasks s)(t \<mapsto> ?q\<lparr>pgdir := d\<rparr>)) (cr3 s5) (pmem s5)"
    "page_frame s4 s5" "lock_free Kernel_pool_lock s5"
    by (elim exE conjE) (rule that)
  have f5: "tasks s5 t = Some ?p" "tasks s5 = (tasks s)(t \<mapsto> ?p)" "running s5 = running s" "idle_thread s5 = idle_thread s"
    "eflags s5 = eflags ?s0" "mstate.more s5 = mstate.more s4"
    using s5(4) t4 pf by (simp_all add: page_frame_def)
  have l5: "lock_free Pid_lock s5" using page_frame_lock [OF s5(4) _ pf(5)] by simp
  have pf5: "pcb_frame t ?s0 s5" by (rule pcb_frame_trans [OF s4(11) page_frame_pcb [OF s5(4,5)]])
  have q0: "queue ?s0 Thread_ready_list ys" "queue ?s0 Thread_all_list xs" using q by simp_all
  have q5: "queue s5 Thread_ready_list ys" "queue s5 Thread_all_list xs"
    using pf5 q0 g b unfolding pcb_frame_def by blast+
  from process_lists [OF q5 g b dj, where p = ?p and d = d] obtain ds s7 s8 s9 where
    s9: "block_desc_init (U_block_descs t) (set_task t (?p\<lparr>pgdir := d\<rparr>) s5) = (ds, s7)"
    "q_append Thread_ready_list (General_tag t) (set_task t (?p\<lparr>pgdir := d, u_block_descs := ds\<rparr>) s7) = Inr s8"
    "q_append Thread_all_list (All_list_tag t) s8 = Inr s9"
    "tasks s9 = (tasks s5)(t \<mapsto> ?p\<lparr>pgdir := d, u_block_descs := ?ds\<rparr>)"
    "queue s9 Thread_ready_list (ys @ [General_tag t])" "queue s9 Thread_all_list (xs @ [All_list_tag t])"
    "\<forall>k < 7. queue s9 (Free_list (U_block_descs t) k) []" "mstate.more s9 = mstate.more s5"
    "cr3 s9 = cr3 s5" "pmem s9 = pmem s5" "running s9 = running s5" "idle_thread s9 = idle_thread s5"
    "eflags s9 = eflags s5" "\<forall>k. lock_free k s5 \<longrightarrow> lock_free k s9"
    by (elim exE conjE) (rule that)
  have fl: "snd (intr_set_status (fst (intr_disable s)) s9) = s9\<lparr>eflags := eflags s\<rparr>"
    by (rule restore_flags) (use s9(13) f5(5) in simp)
  have ex: "process_execute filename name s = Inr (s9\<lparr>eflags := eflags s\<rparr>)"
    using s4(1-4) s5(1) f5(1) s9(1-3) fl by (simp add: process_execute_def split_beta get_task_def Let_def)
  have t9: "tasks s9 = (tasks s)(t \<mapsto> process_task t nm (next_pid s + 1) d)"
    unfolding s9(4) f5(2) pd(3) by simp
  have sh9: "spaces_shared (phys(d := F)) (tasks s9) (cr3 s9) (pmem s9)"
    unfolding t9 s9(9,10) using s5(3) unfolding pd(2) .
  have ts: "thread_stacks s9 = thread_stacks s4"
    using s9(8) f5(6) by (cases s4; cases s5; cases s9) simp
  show ?thesis
  proof (intro exI [of _ s9] conjI)
    show "process_execute filename name s = Inr (s9\<lparr>eflags := eflags s\<rparr>)" by (rule ex)
  qed (use t9 sh9 ts s4(7) s5(2,5) l5 s9 f5(3,4) in simp_all)
qed

text \<open>C5: \<open>process_execute\<close> refines the addition of a ready thread to the abstract scheduler: of the
  kernel's next 25 pages the first is its PCB, the last its page directory.  Nothing below the
  kernel is mapped in the new address space, all address spaces share the kernel's page tables
  as before, the free lists of its heap are empty, \<open>start_process\<close> is what it will run, and
  interrupts and locks are as they were.\<close>

theorem process_execute_adds_a_ready_process:
  assumes "sched_ok phys s a" and "spaces_shared phys (tasks s) (cr3 s) (pmem s)"
    and "lock_free Kernel_pool_lock s" and "lock_free Pid_lock s"
    and "page_run s i f t P 25" and "run_apart (spaces phys (tasks s)) s t P 25"
    and "d = nth_page t 24" and "F = nth_page P 24" and "0xc0000000 \<le> d" and "d < 0xffc00000"
    and "tasks s t = None" and "t \<noteq> main_thread s"
    and "queue s Thread_all_list xs" and "General_tag t \<notin> set xs" and "All_list_tag t \<notin> set xs"
    and "General_tag ` set (a_ready a) \<inter> set xs = {}"
    and "strcpy (Some (replicate 16 0)) (Some name) = Inr nm"
  shows "\<exists>s'. process_execute filename name s = Inr s' \<and> sched_ok (phys(d := F)) s' (a_start t a) \<and>
           spaces_shared (phys(d := F)) (tasks s') (cr3 s') (pmem s') \<and>
           tasks s' = (tasks s)(t \<mapsto> process_task t nm (next_pid s + 1) d) \<and>
           thread_stacks s' (t + PG_SIZE - 4 * 76 - 4 * 32) = Some (first_frame Start_process filename) \<and>
           (\<forall>w < 0xc0000000. mmu_walk F (pmem s') w = None) \<and>
           (\<forall>k < 7. queue s' (Free_list (U_block_descs t) k) []) \<and>
           queue s' Thread_all_list (xs @ [All_list_tag t]) \<and> eflags s' = eflags s \<and>
           lock_free Kernel_pool_lock s' \<and> lock_free Pid_lock s'"
proof -
  have abs: "sched_abs s a" and inv: "a_inv (idle_thread s) a" using assms(1) by (simp_all add: sched_ok_def)
  have nst: "a_status a t = None" using sched_absD(2) [OF abs, of t] assms(11) by simp
  have "page_run s i f t P (Suc 24)" using assms(5) by simp
  from next_pageD(2) [OF page_run_next [OF this]] have t0: "t \<noteq> 0" .
  have tr: "t \<notin> set (a_ready a)" using inv nst by (auto simp: a_inv_def a_pre_def)
  let ?r = "map General_tag (a_ready a)"
  have tags: "General_tag t \<notin> set ?r" "All_list_tag t \<notin> set ?r" "set ?r \<inter> set xs = {}" using tr assms(16) by auto
  from process_execute_runs [OF assms(3-6,2,7-12) sched_absD(1) [OF abs] assms(13) tags(1) assms(14) tags(2)
      assms(15) tags(3) assms(17), of filename] obtain s9 where
    s9: "process_execute filename name s = Inr (s9\<lparr>eflags := eflags s\<rparr>)"
    "tasks s9 = (tasks s)(t \<mapsto> process_task t nm (next_pid s + 1) d)"
    "thread_stacks s9 (t + PG_SIZE - 4 * 76 - 4 * 32) = Some (first_frame Start_process filename)"
    "\<forall>w < 0xc0000000. mmu_walk F (pmem s9) w = None" "spaces_shared (phys(d := F)) (tasks s9) (cr3 s9) (pmem s9)"
    "queue s9 Thread_ready_list (?r @ [General_tag t])" "queue s9 Thread_all_list (xs @ [All_list_tag t])"
    "\<forall>k < 7. queue s9 (Free_list (U_block_descs t) k) []" "running s9 = running s" "idle_thread s9 = idle_thread s"
    "lock_free Kernel_pool_lock s9" "lock_free Pid_lock s9" by (elim exE conjE) (rule that)
  let ?s' = "s9\<lparr>eflags := eflags s\<rparr>"
  have st: "status (process_task t nm n d) = TASK_READY" for n
    by (simp add: process_task_def started_task_def fresh_task_def)
  have "sched_abs s9 (a_start t a)"
    using s9(6,9) abs st unfolding sched_abs_def s9(2) by (auto simp: a_start_def)
  moreover have "a_inv (idle_thread s9) (a_start t a)" using a_start_inv [OF inv nst t0] s9(10) by simp
  ultimately have ok: "sched_ok (phys(d := F)) ?s' (a_start t a)"
    using spaces_shared_ok [OF s9(5)] unfolding sched_ok_flags by (simp add: sched_ok_def)
  have qe: "queue ?s' l zs = queue s9 l zs" for l zs by (simp add: queue_def dll_def)
  have lk: "lock_free k ?s' = lock_free k s9" for k unfolding lock_free_def qe by simp
  show ?thesis
    by (intro exI [of _ ?s'] conjI s9(1) ok) (use s9(2-5,7,8,11,12) lk qe in simp_all)
qed

text \<open>The state of \<open>demo_pstate\<close> with room for 31 more pages in the kernel's pool and addresses.\<close>

definition demo_room :: pstate where
  "demo_room = demo_pstate\<lparr>
     kernel_pool := \<lparr>pool_bitmap = \<lparr>btmp_bytes_len = 4, bits = [1, 0, 0, 0]\<rparr>, phy_address_start = 0x200000, pool_size = 0x20000\<rparr>,
     kernel_vaddr := \<lparr>vaddr_bitmap = \<lparr>btmp_bytes_len = 4, bits = [1, 0, 0, 0, 0]\<rparr>, vaddr_start = 0xc0100000\<rparr>\<rparr>"

lemma demo_room_simps [simp]:
  "cr3 demo_room = 0x100000" "pmem demo_room = demo_kernel_pm" "running demo_room = 0xc009e000"
  "tasks demo_room = tasks demo_kernel" "main_thread demo_room = 0xc009e000" "idle_thread demo_room = 0xc0100000"
  "queue demo_room l xs = queue demo_pstate l xs" "lock_free k demo_room = lock_free k demo_pstate"
  by (simp_all add: demo_room_def queue_def dll_def lock_free_def)

lemma below_25: "(\<forall>k < (25 :: nat). Q k) \<longleftrightarrow> list_all Q [0..<25]"
  by (auto simp: list_all_iff)

lemma demo_room_page:
  assumes "k < 25"
  shows "pde_addr 0x100000 (nth_page 0xc0101000 k) = 0x100c00"
    and "slot 0x100000 demo_kernel_pm (nth_page 0xc0101000 k) = 0x101404 + 4 * of_nat k"
    and "nth_page 0xc0101000 k \<noteq> 0" and "nth_page 0x201000 k \<noteq> 0" and "nth_page 0x201000 k \<noteq> 0x100000"
    and "frame_of (demo_kernel_pm a) \<noteq> nth_page 0x201000 k"
proof -
  have a: "\<forall>k < 25. pde_addr 0x100000 (nth_page 0xc0101000 k) = 0x100c00 \<and>
      slot 0x100000 demo_kernel_pm (nth_page 0xc0101000 k) = 0x101404 + 4 * of_nat k \<and>
      nth_page 0xc0101000 k \<noteq> 0"
    unfolding below_25
    by (simp add: upt_rec nth_page_def PG_SIZE_def pde_addr_def slot_def pte_addr_def demo_kernel_pm_def frame_of_def)
  have b: "\<forall>k < 25. nth_page 0x201000 k \<noteq> 0 \<and> nth_page 0x201000 k \<noteq> 0x100000 \<and> nth_page 0x201000 k \<noteq> 0x101000"
    unfolding below_25 by (simp add: upt_rec nth_page_def PG_SIZE_def)
  show "pde_addr 0x100000 (nth_page 0xc0101000 k) = 0x100c00"
    and "slot 0x100000 demo_kernel_pm (nth_page 0xc0101000 k) = 0x101404 + 4 * of_nat k"
    and "nth_page 0xc0101000 k \<noteq> 0" using a assms by simp_all
  show "nth_page 0x201000 k \<noteq> 0" "nth_page 0x201000 k \<noteq> 0x100000" using b assms by simp_all
  have "frame_of (demo_kernel_pm a) \<in> {0, 0x100000, 0x101000}" by (simp add: demo_kernel_pm_def frame_of_def)
  then show "frame_of (demo_kernel_pm a) \<noteq> nth_page 0x201000 k" using b assms by force
qed

lemma demo_room_bits:
  assumes "j < 26"
  shows "used \<lparr>btmp_bytes_len = n, bits = [1, 0, 0, 0 :: u8] @ r\<rparr> j \<longleftrightarrow> j = 0"
proof -
  have "j div 8 = 0 \<or> j div 8 = 1 \<or> j div 8 = 2 \<or> j div 8 = 3" using assms by linarith
  moreover have "j div 8 = 0 \<Longrightarrow> j mod 8 = j" by simp
  ultimately show ?thesis by (auto simp: used_def nth_append bit_1_iff numeral_2_eq_2 numeral_3_eq_3)
qed

lemma demo_room_run: "page_run demo_room 1 1 0xc0101000 0x201000 25"
proof -
  have b: "used \<lparr>btmp_bytes_len = 4, bits = [1, 0, 0, 0 :: u8]\<rparr> j \<longleftrightarrow> j = 0"
    "used \<lparr>btmp_bytes_len = 4, bits = [1, 0, 0, 0, 0 :: u8]\<rparr> j \<longleftrightarrow> j = 0" if "j < 26" for j
    using demo_room_bits [OF that, of 4 "[]"] demo_room_bits [OF that, of 4 "[0]"] by simp_all
  have sel: "pool_bitmap (kernel_pool demo_room) = \<lparr>btmp_bytes_len = 4, bits = [1, 0, 0, 0]\<rparr>"
    "phy_address_start (kernel_pool demo_room) = 0x200000"
    "vaddr_bitmap (kernel_vaddr demo_room) = \<lparr>btmp_bytes_len = 4, bits = [1, 0, 0, 0, 0]\<rparr>"
    "vaddr_start (kernel_vaddr demo_room) = 0xc0100000" by (simp_all add: demo_room_def)
  have rec: "recursive_map 0x100000 demo_kernel_pm" "present (demo_kernel_pm 0x100c00)"
    "frame_of (demo_kernel_pm 0x100c00) = 0x101000"
    by (simp_all add: recursive_map_def demo_kernel_pm_def PG_P_def frame_of_def present_def)
  have z: "\<forall>k < 25. demo_kernel_pm (0x101404 + 4 * of_nat k) = 0"
    unfolding below_25 by (simp add: upt_rec demo_kernel_pm_def)
  have np: "\<not> present (demo_kernel_pm (slot 0x100000 demo_kernel_pm (nth_page 0xc0101000 k)))" if "k < 25" for k
    using demo_room_page(2) [OF that] z that not_present_0 by simp
  have tf: "table_free 0x100000 demo_kernel_pm (nth_page 0x201000 k)" if "k < 25" for k
    using demo_room_page(5,6) [OF that] by (simp add: table_free_def)
  have "distinct (map (\<lambda>k. 0x101404 + 4 * of_nat k :: u32) [0..<25])" by (simp add: upt_rec)
  then have "inj_on (\<lambda>k. 0x101404 + 4 * of_nat k :: u32) {..<25}" by (simp add: distinct_map atLeast0LessThan)
  then have "inj_on (\<lambda>k. slot 0x100000 demo_kernel_pm (nth_page 0xc0101000 k)) {..<25}"
    by (rule inj_on_cong [THEN iffD1, rotated]) (use demo_room_page(2) in simp)
  moreover have "bitmap_cap (pool_bitmap (kernel_pool demo_room)) = 32" "bitmap_wf (pool_bitmap (kernel_pool demo_room))"
    "bitmap_cap (vaddr_bitmap (kernel_vaddr demo_room)) = 32"
    unfolding sel by (simp_all add: bitmap_cap_def nbits_def bitmap_wf_def)
  ultimately show ?thesis
    unfolding page_run_def map_run_def sel using b rec np tf demo_room_page
    by (simp add: PG_SIZE_def)
qed

theorem process_execute_adds_a_ready_process_witness:
  "\<exists>s'. process_execute 0xc0001500 idle_name demo_room = Inr s' \<and>
     sched_ok ((\<lambda>_. 0)(0xc0119000 := 0x219000)) s' (a_start 0xc0101000 demo_asched) \<and>
     mmu_walk 0x219000 (pmem s') 0x8048000 = None"
proof -
  have ok: "sched_ok (\<lambda>_. 0) demo_room demo_asched"
    using demo_pstate_sched(1) by (simp add: sched_ok_def sched_abs_def)
  have sh: "spaces_shared (\<lambda>_. 0) (tasks demo_room) (cr3 demo_room) (pmem demo_room)"
    using demo_pstate_shared(1) by simp
  have "spaces (\<lambda>_. 0) (tasks demo_room) = {0x100000}" using demo_pstate_shared(2) by simp
  then have ra: "run_apart (spaces (\<lambda>_. 0) (tasks demo_room)) demo_room 0xc0101000 0x201000 25"
    using demo_room_page(1,5) by (simp add: run_apart_def demo_kernel_pm_def frame_of_def)
  have lk: "lock_free Kernel_pool_lock demo_room" "lock_free Pid_lock demo_room"
    using demo_pstate_locks by simp_all
  have d: "0xc0119000 = nth_page 0xc0101000 24" "0x219000 = nth_page 0x201000 24"
    by (simp_all add: nth_page_def PG_SIZE_def)
  have t: "tasks demo_room 0xc0101000 = None" "0xc0101000 \<noteq> main_thread demo_room"
    "queue demo_room Thread_all_list []"
    using demo_pstate_sched(2) by (simp_all add: demo_kernel_def)
  from process_execute_adds_a_ready_process [where filename = "0xc0001500",
      OF ok sh lk demo_room_run ra d _ _ t _ _ _ idle_name_fits]
  show ?thesis by auto
qed

section \<open>Entering user mode\<close>

text \<open>Frame \<open>f\<close> is the lowest free one of the pool, \<open>F\<close> its address.\<close>

definition next_frame :: "pool_flags \<Rightarrow> 'z mstate_scheme \<Rightarrow> nat \<Rightarrow> u32 \<Rightarrow> bool" where
  "next_frame pf s f F \<longleftrightarrow>
     bitmap_wf (pool_bitmap (get_pool pf s)) \<and> f < bitmap_cap (pool_bitmap (get_pool pf s)) \<and>
     \<not> used (pool_bitmap (get_pool pf s)) f \<and> (\<forall>j < f. used (pool_bitmap (get_pool pf s)) j) \<and>
     F = of_nat f * PG_SIZE + phy_address_start (get_pool pf s) \<and> F \<noteq> 0 \<and> frame_of F = F"

lemma palloc_next:
  assumes "next_frame pf s f F"
  shows "\<exists>b. palloc pf s = Inr (F, set_pool pf ((get_pool pf s)\<lparr>pool_bitmap := b\<rparr>) s) \<and>
           (\<forall>j. used b j \<longleftrightarrow> j = f \<or> used (pool_bitmap (get_pool pf s)) j)"
proof -
  let ?b = "pool_bitmap (get_pool pf s)"
  have a: "bitmap_wf ?b" "f < bitmap_cap ?b" "\<not> used ?b f" "\<forall>j < f. used ?b j"
    "F = of_nat f * PG_SIZE + phy_address_start (get_pool pf s)"
    using assms unfolding next_frame_def by - (elim conjE, assumption)+
  from palloc_ok [OF a(1-3)] obtain i b where
    i: "i \<le> f" "\<not> used ?b i" "palloc pf s = Inr (of_nat i * PG_SIZE + phy_address_start (get_pool pf s),
      set_pool pf ((get_pool pf s)\<lparr>pool_bitmap := b\<rparr>) s)" "\<forall>j. used b j \<longleftrightarrow> j = i \<or> used ?b j" by blast
  have "i = f" using i(1,2) a(4) by (meson le_neq_implies_less)
  with i(3,4) a(5) show ?thesis by blast
qed

text \<open>A page at an address whose page table does not exist yet: the next kernel frame becomes it.\<close>

lemma page_table_add_new:
  assumes rec: "recursive_map (cr3 s) (pmem s)" and nd: "\<not> present (pmem s (pde_addr (cr3 s) v))"
    and v: "pde_addr (cr3 s) v \<noteq> cr3 s + 0xffc" "v AND 0xfff = 0"
    and T: "next_frame POOL_FLAG_KERNEL s f T" "table_free (cr3 s) (pmem s) T" and U: "frame_of U = U"
  shows "\<exists>pm kb ar. page_table_add v U s = Inr (s\<lparr>kernel_pool := (kernel_pool s)\<lparr>pool_bitmap := kb\<rparr>,
             pmem := pm, arenas := ar\<rparr>) \<and>
           (\<forall>j. used kb j \<longleftrightarrow> j = f \<or> used (pool_bitmap (kernel_pool s)) j) \<and>
           mmu_walk (cr3 s) pm v = Some U \<and> recursive_map (cr3 s) pm \<and>
           (\<forall>w q. mmu_walk (cr3 s) (pmem s) w = Some q \<longrightarrow> mmu_walk (cr3 s) pm w = Some q)"
proof -
  have g: "get_pool POOL_FLAG_KERNEL s = kernel_pool s" by (simp add: get_pool_def)
  from palloc_next [OF T(1), unfolded g] obtain kb where
    kb: "palloc POOL_FLAG_KERNEL s = Inr (T, s\<lparr>kernel_pool := (kernel_pool s)\<lparr>pool_bitmap := kb\<rparr>\<rparr>)"
    "\<forall>j. used kb j \<longleftrightarrow> j = f \<or> used (pool_bitmap (kernel_pool s)) j" by (auto simp: set_pool_def)
  have T': "frame_of T = T" "T \<noteq> cr3 s" "\<forall>w. present (pmem s (pde_addr (cr3 s) w)) \<longrightarrow> frame_of (pmem s (pde_addr (cr3 s) w)) \<noteq> T"
    using T unfolding next_frame_def table_free_def by blast+
  note k = table_add_absent_keeps [OF rec nd v(1) T', where p = U]
  show ?thesis
    using page_table_add_absent [OF rec nd v(1) kb(1) _ _ T'(1,2), of U] kb(2) k U v(2)
    by (simp del: fun_upd_apply) blast
qed

lemma next_frame_cong: "get_pool pf s' = get_pool pf s \<Longrightarrow> next_frame pf s' f F = next_frame pf s f F"
  by (simp add: next_frame_def)

text \<open>The bit that \<open>bitmap_set\<close> sets for the page of the stack, 753591 pages above the first.\<close>

lemma stack_bit:
  assumes "246 < length (bits b)"
  shows "\<exists>b'. bitmap_set b 753591 1 = Inr b' \<and> (\<forall>j. used b' j \<longleftrightarrow> j = 1975 \<or> used b j)"
  using bitmap_set_used [of 1 753591 b] assms by auto

lemma get_stack_page:
  assumes lf: "lock_free User_pool_lock s" and rec: "recursive_map (cr3 s) (pmem s)"
    and p: "tasks s (running s) = Some p" "pgdir p \<noteq> 0"
    and u: "userprog_vadder p = \<lparr>vaddr_bitmap = b, vaddr_start = USER_VADDR_START\<rparr>" "246 < length (bits b)"
    and U: "next_frame POOL_FLAG_USER s fu U" and T: "next_frame POOL_FLAG_KERNEL s fk T" "table_free (cr3 s) (pmem s) T"
    and nd: "\<not> present (pmem s (pde_addr (cr3 s) USER_STACK3_VADDR))"
  shows "\<exists>s' b'. get_a_page POOL_FLAG_USER USER_STACK3_VADDR s = Inr (USER_STACK3_VADDR, s') \<and>
           tasks s' = (tasks s)(running s \<mapsto> p\<lparr>userprog_vadder := \<lparr>vaddr_bitmap = b', vaddr_start = USER_VADDR_START\<rparr>\<rparr>) \<and>
           (\<forall>j. used b' j \<longleftrightarrow> j = 1975 \<or> used b j) \<and>
           mmu_walk (cr3 s) (pmem s') USER_STACK3_VADDR = Some U \<and> recursive_map (cr3 s) (pmem s') \<and>
           (\<forall>w q. mmu_walk (cr3 s) (pmem s) w = Some q \<longrightarrow> mmu_walk (cr3 s) (pmem s') w = Some q) \<and>
           cr3 s' = cr3 s \<and> running s' = running s \<and> eflags s' = eflags s \<and> lock_free User_pool_lock s'"
proof -
  let ?L = "User_pool_lock" and ?v = USER_STACK3_VADDR
  have L: "pool_lock POOL_FLAG_USER = ?L" by (simp add: pool_lock_def)
  let ?h = "lock_held ?L s"
  have la: "lock_acquire ?L s = Inr ?h" by (rule lock_acquire_free [OF lf])
  have bi: "(?v - USER_VADDR_START) div PG_SIZE = 753591" "sint (753591 :: u32) = 753591" "unat (753591 :: u32) = 753591"
    by (simp_all add: USER_STACK3_VADDR_def USER_VADDR_START_def PG_SIZE_def)
  from stack_bit [OF u(2)] obtain b' where
    b': "bitmap_set b 753591 1 = Inr b'" "\<forall>j. used b' j \<longleftrightarrow> j = 1975 \<or> used b j" by blast
  let ?p = "p\<lparr>userprog_vadder := \<lparr>vaddr_bitmap = b', vaddr_start = USER_VADDR_START\<rparr>\<rparr>"
  let ?s2 = "set_task (running s) ?p ?h"
  have gp: "get_pool pf ?s2 = get_pool pf s" for pf by (cases pf) (simp_all add: get_pool_def set_task_def)
  from palloc_next [of POOL_FLAG_USER ?s2 fu U] U obtain ub where
    ub: "palloc POOL_FLAG_USER ?s2 = Inr (U, set_pool POOL_FLAG_USER ((get_pool POOL_FLAG_USER s)\<lparr>pool_bitmap := ub\<rparr>) ?s2)"
    unfolding gp next_frame_cong [OF gp] by blast
  let ?s3 = "set_pool POOL_FLAG_USER ((get_pool POOL_FLAG_USER s)\<lparr>pool_bitmap := ub\<rparr>) ?s2"
  have c3: "cr3 ?s3 = cr3 s" "pmem ?s3 = pmem s" by simp_all
  have g3: "get_pool POOL_FLAG_KERNEL ?s3 = get_pool POOL_FLAG_KERNEL s" by (simp add: set_pool_def get_pool_def set_task_def)
  have va: "pde_addr (cr3 s) ?v \<noteq> cr3 s + 0xffc" "?v AND 0xfff = 0"
    by (simp_all add: pde_addr_def USER_STACK3_VADDR_def)
  have Uf: "frame_of U = U" "U \<noteq> 0" using U unfolding next_frame_def by blast+
  have "next_frame POOL_FLAG_KERNEL ?s3 fk T" using T(1) next_frame_cong [OF g3] by simp
  from page_table_add_new [of ?s3 ?v fk T U, unfolded c3, OF rec nd va this T(2) Uf(1)] obtain pm kb ar where
    ad: "page_table_add ?v U ?s3 = Inr (?s3\<lparr>kernel_pool := (kernel_pool ?s3)\<lparr>pool_bitmap := kb\<rparr>, pmem := pm, arenas := ar\<rparr>)"
    "mmu_walk (cr3 s) pm ?v = Some U" "recursive_map (cr3 s) pm"
    "\<forall>w q. mmu_walk (cr3 s) (pmem s) w = Some q \<longrightarrow> mmu_walk (cr3 s) pm w = Some q"
    by (elim exE conjE) (rule that)
  let ?s4 = "?s3\<lparr>kernel_pool := (kernel_pool ?s3)\<lparr>pool_bitmap := kb\<rparr>, pmem := pm, arenas := ar\<rparr>"
  have "lock_release ?L ?s4 = Inr (lock_freed ?L ?s4)"
    by (rule lock_release_last)
      (use lf in \<open>simp_all add: lock_free_def queue_def dll_def lock_held_def set_pool_def set_task_def\<close>)
  moreover have "get_task (running s) ?h = Inr p" using p(1) by (simp add: get_task_def)
  ultimately have "get_a_page POOL_FLAG_USER ?v s = Inr (?v, lock_freed ?L ?s4)"
    unfolding get_a_page_def L la using p(2) u(1) bi b'(1) ub ad(1) Uf(2) by (simp add: Let_def)
  moreover have "lock_free ?L (lock_freed ?L ?s4)"
    using lf by (simp add: lock_free_def queue_def dll_def lock_freed_def lock_held_def set_pool_def set_task_def)
  moreover have "eflags ?s3 = eflags s" by (simp add: set_pool_def set_task_def lock_held_def)
  ultimately show ?thesis
    using b'(2) ad(2-4) by (intro exI [of _ "lock_freed ?L ?s4"] exI [of _ b']) simp
qed

text \<open>C22: \<open>start_process\<close> maps the page below the kernel for the user's stack and leaves the frame with
  which \<open>intr_exit\<close> enters the program: its entry point, the end of that page as stack, code and
  data selectors of privilege level 3, interrupts on and I/O level 0.  Every translation that
  existed is kept and the pool's lock is free again.  In the bitmap of the user's addresses the
  bit that is set is 1975 in place of 753591, the one of the stack's page: the byte index does
  not fit the type \<open>bitmap_set\<close> keeps it in.\<close>

theorem start_process_enters_user_mode:
  assumes "lock_free User_pool_lock s" and "recursive_map (cr3 s) (pmem s)"
    and "tasks s (running s) = Some p" and "pgdir p \<noteq> 0"
    and "userprog_vadder p = \<lparr>vaddr_bitmap = b, vaddr_start = USER_VADDR_START\<rparr>" and "246 < length (bits b)"
    and "next_frame POOL_FLAG_USER s fu U" and "next_frame POOL_FLAG_KERNEL s fk T"
    and "table_free (cr3 s) (pmem s) T" and "\<not> present (pmem s (pde_addr (cr3 s) USER_STACK3_VADDR))"
  shows "\<exists>s' fr q. start_process filename s = Inr (self_kstart p + 128, s') \<and>
           intr_stacks s' (self_kstart p + 128) = Some fr \<and>
           is_eip fr = filename \<and> is_esp fr = 0xc0000000 \<and> is_cs fr = 0x2b \<and> is_ss fr = 0x33 \<and> is_ds fr = 0x33 \<and>
           bit (is_eflags fr) 9 \<and> \<not> bit (is_eflags fr) 12 \<and> \<not> bit (is_eflags fr) 13 \<and>
           mmu_walk (cr3 s) (pmem s') 0xbffff000 = Some U \<and>
           (\<forall>w r. mmu_walk (cr3 s) (pmem s) w = Some r \<longrightarrow> mmu_walk (cr3 s) (pmem s') w = Some r) \<and>
           tasks s' (running s) = Some q \<and>
           (\<forall>j. used (vaddr_bitmap (userprog_vadder q)) j \<longleftrightarrow> j = 1975 \<or> used b j) \<and>
           running s' = running s \<and> eflags s' = eflags s \<and> lock_free User_pool_lock s'"
proof -
  let ?t = "running s" and ?p = "p\<lparr>self_kstart := self_kstart p + 4 * 32\<rparr>"
  let ?s1 = "set_task ?t ?p s"
  have gp: "get_pool pf ?s1 = get_pool pf s" for pf by (cases pf) (simp_all add: get_pool_def set_task_def)
  have h: "lock_free User_pool_lock ?s1" "recursive_map (cr3 ?s1) (pmem ?s1)" "tasks ?s1 (running ?s1) = Some ?p"
    "pgdir ?p \<noteq> 0" "userprog_vadder ?p = \<lparr>vaddr_bitmap = b, vaddr_start = USER_VADDR_START\<rparr>"
    "table_free (cr3 ?s1) (pmem ?s1) T" "\<not> present (pmem ?s1 (pde_addr (cr3 ?s1) USER_STACK3_VADDR))"
    using assms set_task_pcb(1) [of ?t s ?t ?p] by (simp_all add: pcb_frame_def)
  have nf: "next_frame POOL_FLAG_USER ?s1 fu U" "next_frame POOL_FLAG_KERNEL ?s1 fk T"
    using assms(7,8) next_frame_cong [OF gp] by simp_all
  from get_stack_page [OF h(1-5) assms(6) nf h(6,7)] obtain s2 b' where
    s2: "get_a_page POOL_FLAG_USER USER_STACK3_VADDR ?s1 = Inr (USER_STACK3_VADDR, s2)"
    "tasks s2 = (tasks ?s1)(running ?s1 \<mapsto> ?p\<lparr>userprog_vadder := \<lparr>vaddr_bitmap = b', vaddr_start = USER_VADDR_START\<rparr>\<rparr>)"
    "\<forall>j. used b' j \<longleftrightarrow> j = 1975 \<or> used b j"
    "mmu_walk (cr3 ?s1) (pmem s2) USER_STACK3_VADDR = Some U"
    "\<forall>w q. mmu_walk (cr3 ?s1) (pmem ?s1) w = Some q \<longrightarrow> mmu_walk (cr3 ?s1) (pmem s2) w = Some q"
    "running s2 = running ?s1" "eflags s2 = eflags ?s1" "lock_free User_pool_lock s2"
    by (elim exE conjE) (rule that)
  let ?ks = "self_kstart p + 128"
  let ?fr = "\<lparr>is_edi = 0, is_esi = 0, is_ebp = 0, is_esp_dummy = 0, is_ebx = 0, is_edx = 0, is_ecx = 0,
      is_eax = 0, is_gs = SELECTOR_U_DATA, is_fs = SELECTOR_U_DATA, is_es = SELECTOR_U_DATA,
      is_ds = SELECTOR_U_DATA, is_eip = filename, is_cs = SELECTOR_U_CODE,
      is_eflags = 0 OR push_bit 1 1 OR push_bit 9 1, is_esp = USER_STACK3_VADDR + PG_SIZE,
      is_ss = SELECTOR_U_DATA\<rparr>"
  let ?s' = "s2\<lparr>intr_stacks := (intr_stacks s2)(?ks \<mapsto> ?fr)\<rparr>"
  have st: "start_process filename s = Inr (?ks, ?s')"
    using assms(3) s2(1) by (simp add: start_process_def get_task_def Let_def)
  have fl: "bit (is_eflags ?fr) 9" "\<not> bit (is_eflags ?fr) 12" "\<not> bit (is_eflags ?fr) 13"
    by (simp_all add: bit_simps)
  have sel: "is_cs ?fr = 0x2b" "is_ss ?fr = 0x33" "is_ds ?fr = 0x33" "is_esp ?fr = 0xc0000000"
    "USER_STACK3_VADDR = 0xbffff000"
    by (simp_all add: SELECTOR_U_CODE_def SELECTOR_U_DATA_def USER_STACK3_VADDR_def PG_SIZE_def)
  have lk: "lock_free User_pool_lock ?s'" using s2(8) by (simp add: lock_free_def queue_def dll_def)
  show ?thesis
    by (rule exI [of _ ?s'], rule exI [of _ ?fr],
        rule exI [of _ "?p\<lparr>userprog_vadder := \<lparr>vaddr_bitmap = b', vaddr_start = USER_VADDR_START\<rparr>\<rparr>"])
      (use st fl sel lk s2(2-7) in \<open>simp del: bit_or_iff\<close>)
qed

text \<open>The process of a PCB at \<open>0xc009e000\<close>, about to be started.\<close>

definition demo_user :: pstate where
  "demo_user = list_init (klist (Waiters (Lock_sema User_pool_lock)))
     (set_task 0xc009e000 (process_task 0xc009e000 (replicate 16 0) 1 0xc0119000) demo_room)"

theorem start_process_enters_user_mode_witness:
  "\<exists>s' fr. start_process 0xc0001500 demo_user = Inr (0xc009eed0, s') \<and>
     intr_stacks s' 0xc009eed0 = Some fr \<and> is_eip fr = 0xc0001500 \<and> is_esp fr = 0xc0000000 \<and>
     mmu_walk 0x100000 (pmem s') 0xbffff000 = Some 0x210000"
proof -
  let ?p = "process_task 0xc009e000 (replicate 16 0) 1 0xc0119000"
  have sel: "cr3 demo_user = 0x100000" "pmem demo_user = demo_kernel_pm" "running demo_user = 0xc009e000"
    "tasks demo_user 0xc009e000 = Some ?p" by (simp_all add: demo_user_def list_init_def)
  have p: "pgdir ?p \<noteq> 0" "userprog_vadder ?p = \<lparr>vaddr_bitmap = user_bitmap, vaddr_start = USER_VADDR_START\<rparr>"
    "246 < length (bits user_bitmap)" "self_kstart ?p + 128 = 0xc009eed0"
    by (simp_all add: process_task_def started_task_def user_bitmap_def PG_SIZE_def)
  have pools: "kernel_pool demo_user = kernel_pool demo_room" "user_pool demo_user = user_pool demo_mstate"
    by (simp_all add: demo_user_def list_init_def set_task_def demo_room_def demo_pstate_def mstate.defs pstate.defs)
  have k: "next_frame POOL_FLAG_KERNEL demo_user 1 0x201000"
    using demo_room_bits [of _ 4 "[]"]
    by (simp add: next_frame_def get_pool_def pools demo_room_def bitmap_wf_def bitmap_cap_def nbits_def
        PG_SIZE_def frame_of_def)
  have u: "next_frame POOL_FLAG_USER demo_user 0 0x210000"
    by (simp add: next_frame_def get_pool_def pools bitmap_wf_def bitmap_cap_def nbits_def used_def PG_SIZE_def frame_of_def)
  have lf: "lock_free User_pool_lock demo_user"
    by (simp add: lock_free_def sel)
      (simp add: demo_user_def list_init_def demo_room_def demo_pstate_def mstate.defs pstate.defs demo_mstate_def
        kstate.defs demo_locked_def demo_kernel_def queue_def dll_def set_task_def)
  have r: "recursive_map 0x100000 demo_kernel_pm" "\<not> present (demo_kernel_pm (pde_addr 0x100000 USER_STACK3_VADDR))"
    "table_free 0x100000 demo_kernel_pm 0x201000"
    using next_pageD(1,6) [OF demo_pstate_next]
    by (simp_all add: USER_STACK3_VADDR_def pde_addr_def demo_kernel_pm_def not_present_0)
  from start_process_enters_user_mode [where s = demo_user and filename = "0xc0001500", unfolded sel,
      OF lf r(1) refl p(1-3) u k r(3,2)] p(4)
  show ?thesis by auto
qed

end
