(* ===== verification/IOQueue.thy ===== *)
theory IOQueue
  imports Sync "HOL-Library.Signed_Division"
begin

text \<open>
  \<open>device/ioqueue.c\<close>: the ring buffer between the keyboard interrupt and the threads that read
  characters, and \<open>device/console.c\<close>: output under the console lock.  The ring buffer is a record
  beside the kernel state; \<open>NULL\<close> is the thread 0.  \<open>ioq_getchar\<close> and \<open>ioq_putchar\<close> may give the
  processor away at their beginning: they are split there, the part behind the split
  (\<open>ioq_take\<close>, \<open>ioq_put\<close>) also runs when a thread that waited is resumed.
\<close>

section \<open>The ring buffer\<close>

record ioqueue =
  producer :: u32
  consumer :: u32
  buffer :: buf
  ridx :: int
  widx :: int

text \<open>\<open>buffer[i]\<close> with a signed index.\<close>

definition rd_int :: "buf \<Rightarrow> int \<Rightarrow> u8 res" where
  "rd_int b i = (if i < 0 then Inl OutOfBounds else rd b (nat i))"

definition wr_int :: "buf \<Rightarrow> int \<Rightarrow> u8 \<Rightarrow> buf res" where
  "wr_int b i v = (if i < 0 then Inl OutOfBounds else wr b (nat i) v)"

definition ioq_init :: "ioqueue \<Rightarrow> 'z kstate_scheme \<Rightarrow> ioqueue \<times> 'z kstate_scheme" where
  "ioq_init ioq s =
     (ioq\<lparr>consumer := 0, producer := 0, ridx := 0, widx := 0\<rparr>, lock_init Ioq_lock s)"

definition ioq_empty :: "ioqueue \<Rightarrow> bool" where
  "ioq_empty ioq \<longleftrightarrow> widx ioq = ridx ioq"

definition ioq_full :: "ioqueue \<Rightarrow> bool" where
  "ioq_full ioq \<longleftrightarrow> (widx ioq + 1) smod 64 = ridx ioq"

text \<open>\<open>waiter\<close>: the value of \<open>*waiter\<close>; the result begins with the value stored there.\<close>

definition ioq_wait :: "u32 \<Rightarrow> 'z kstate_scheme \<Rightarrow> (u32 \<times> intr_status \<times> 'z kstate_scheme) res" where
  "ioq_wait waiter s =
     bindE (assertE (waiter = 0)) (\<lambda>_.
     bindE (thread_block TASK_BLOCKED s) (\<lambda>(old_intr_status, s1). Inr (running s, old_intr_status, s1)))"

definition wakeup :: "u32 \<Rightarrow> 'z kstate_scheme \<Rightarrow> (u32 \<times> 'z kstate_scheme) res" where
  "wakeup waiter s = bindE (thread_unblock waiter s) (\<lambda>s1. Inr (0, s1))"

text \<open>The first statement: \<open>Some\<close> when the thread gave the processor away.\<close>

definition ioq_getchar_wait :: "ioqueue \<Rightarrow> 'z kstate_scheme \<Rightarrow>
    (intr_status option \<times> ioqueue \<times> 'z kstate_scheme) res" where
  "ioq_getchar_wait ioq s =
     (if ioq_empty ioq
      then bindE (ioq_wait (consumer ioq) s) (\<lambda>(w, old, s1). Inr (Some old, ioq\<lparr>consumer := w\<rparr>, s1))
      else Inr (None, ioq, s))"

definition ioq_take :: "ioqueue \<Rightarrow> 'z kstate_scheme \<Rightarrow> (u8 \<times> ioqueue \<times> 'z kstate_scheme) res" where
  "ioq_take ioq s =
     bindE (lock_acquire Ioq_lock s) (\<lambda>s1.
     bindE (rd_int (buffer ioq) (ridx ioq)) (\<lambda>char_byte.
     let ioq1 = ioq\<lparr>ridx := (ridx ioq + 1) smod 64\<rparr> in
     bindE (if producer ioq1 \<noteq> 0
            then bindE (wakeup (producer ioq1) s1) (\<lambda>(w, s2). Inr (ioq1\<lparr>producer := w\<rparr>, s2))
            else Inr (ioq1, s1)) (\<lambda>(ioq2, s2).
     bindE (lock_release Ioq_lock s2) (\<lambda>s3. Inr (char_byte, ioq2, s3)))))"

definition ioq_getchar :: "ioqueue \<Rightarrow> 'z kstate_scheme \<Rightarrow> (u8 \<times> ioqueue \<times> 'z kstate_scheme) res" where
  "ioq_getchar ioq s =
     bindE (ioq_getchar_wait ioq s) (\<lambda>(w, ioq1, s1).
       case w of None \<Rightarrow> ioq_take ioq1 s1 | Some _ \<Rightarrow> Inl WouldBlock)"

definition ioq_putchar_wait :: "ioqueue \<Rightarrow> 'z kstate_scheme \<Rightarrow>
    (intr_status option \<times> ioqueue \<times> 'z kstate_scheme) res" where
  "ioq_putchar_wait ioq s =
     (if ioq_full ioq
      then bindE (ioq_wait (consumer ioq) s) (\<lambda>(w, old, s1). Inr (Some old, ioq\<lparr>consumer := w\<rparr>, s1))
      else Inr (None, ioq, s))"

definition ioq_put :: "ioqueue \<Rightarrow> u8 \<Rightarrow> 'z kstate_scheme \<Rightarrow> (ioqueue \<times> 'z kstate_scheme) res" where
  "ioq_put ioq char_byte s =
     bindE (lock_acquire Ioq_lock s) (\<lambda>s1.
     bindE (wr_int (buffer ioq) (widx ioq) char_byte) (\<lambda>b.
     let ioq1 = ioq\<lparr>buffer := b, widx := (widx ioq + 1) smod 64\<rparr> in
     bindE (if consumer ioq1 \<noteq> 0
            then bindE (wakeup (consumer ioq1) s1) (\<lambda>(w, s2). Inr (ioq1\<lparr>consumer := w\<rparr>, s2))
            else Inr (ioq1, s1)) (\<lambda>(ioq2, s2).
     bindE (lock_release Ioq_lock s2) (\<lambda>s3. Inr (ioq2, s3)))))"

definition ioq_putchar :: "ioqueue \<Rightarrow> u8 \<Rightarrow> 'z kstate_scheme \<Rightarrow> (ioqueue \<times> 'z kstate_scheme) res" where
  "ioq_putchar ioq char_byte s =
     bindE (ioq_putchar_wait ioq s) (\<lambda>(w, ioq1, s1).
       case w of None \<Rightarrow> ioq_put ioq1 char_byte s1 | Some _ \<Rightarrow> Inl WouldBlock)"

section \<open>The console\<close>

text \<open>
  What reaches the screen is a list of calls of the routines of \<open>print.s\<close>.  \<open>put_str\<close> prints the
  bytes up to the terminating zero.
\<close>

datatype screen_call = Call_put_str buf | Call_put_char u8 | Call_put_int u32

definition screen_text :: "buf \<Rightarrow> buf res" where
  "screen_text b = (if terminated b then Inr (cstr b) else Inl OutOfBounds)"

definition console_init :: "'z kstate_scheme \<Rightarrow> 'z kstate_scheme" where
  "console_init s = lock_init Console_lock s"

definition console_acquire :: "'z kstate_scheme \<Rightarrow> 'z kstate_scheme res" where
  "console_acquire s = lock_acquire Console_lock s"

definition console_release :: "'z kstate_scheme \<Rightarrow> 'z kstate_scheme res" where
  "console_release s = lock_release Console_lock s"

definition console_put_str :: "buf \<Rightarrow> 'z kstate_scheme \<Rightarrow> (screen_call list \<times> 'z kstate_scheme) res" where
  "console_put_str str s =
     bindE (console_acquire s) (\<lambda>s1. bindE (screen_text str) (\<lambda>t.
     bindE (console_release s1) (\<lambda>s2. Inr ([Call_put_str t], s2))))"

definition console_put_char :: "u8 \<Rightarrow> 'z kstate_scheme \<Rightarrow> (screen_call list \<times> 'z kstate_scheme) res" where
  "console_put_char ch_asci s =
     bindE (console_acquire s) (\<lambda>s1. bindE (console_release s1) (\<lambda>s2. Inr ([Call_put_char ch_asci], s2)))"

definition console_put_int :: "u32 \<Rightarrow> 'z kstate_scheme \<Rightarrow> (screen_call list \<times> 'z kstate_scheme) res" where
  "console_put_int num s =
     bindE (console_acquire s) (\<lambda>s1. bindE (console_release s1) (\<lambda>s2. Inr ([Call_put_int num], s2)))"

section \<open>The queue in the ring\<close>

definition ioq_ok :: "ioqueue \<Rightarrow> bool" where
  "ioq_ok ioq \<longleftrightarrow> length (buffer ioq) = 64 \<and> 0 \<le> ridx ioq \<and> ridx ioq < 64 \<and> 0 \<le> widx ioq \<and> widx ioq < 64"

definition ioq_len :: "ioqueue \<Rightarrow> nat" where
  "ioq_len ioq = nat (if ridx ioq \<le> widx ioq then widx ioq - ridx ioq else widx ioq - ridx ioq + 64)"

text \<open>The characters waiting in the ring, the oldest first.\<close>

definition ioq_content :: "ioqueue \<Rightarrow> buf" where
  "ioq_content ioq = take (ioq_len ioq) (rotate (nat (ridx ioq)) (buffer ioq))"

lemma smod_next: "0 \<le> i \<Longrightarrow> i < 64 \<Longrightarrow> (i + 1 :: int) smod 64 = (if i = 63 then 0 else i + 1)"
  by (auto simp: modulo_int_def signed_modulo_int_def)

lemma ioq_empty_len: "ioq_ok q \<Longrightarrow> ioq_empty q \<longleftrightarrow> ioq_len q = 0"
  by (auto simp: ioq_len_def ioq_ok_def ioq_empty_def)

lemma ioq_full_len: "ioq_ok q \<Longrightarrow> ioq_full q \<longleftrightarrow> ioq_len q = 63"
  by (auto simp: ioq_len_def ioq_full_def ioq_ok_def smod_next split: if_splits)

lemma ioq_len_less: "ioq_ok q \<Longrightarrow> ioq_len q < 64"
  by (auto simp: ioq_len_def ioq_ok_def)

lemma mod_64_neq: "(i :: nat) < n \<Longrightarrow> n < 64 \<Longrightarrow> (r + i) mod 64 \<noteq> (r + n) mod 64"
  using mod_eq_dvd_iff_nat [of "r + i" "r + n" 64] by (auto dest: dvd_imp_le)

lemma length_ioq_content: "ioq_ok q \<Longrightarrow> length (ioq_content q) = ioq_len q"
  using ioq_len_less [of q] by (simp add: ioq_content_def) (simp add: ioq_ok_def)

lemma ioq_content_nth:
  assumes "ioq_ok q" and "i < ioq_len q"
  shows "ioq_content q ! i = buffer q ! ((nat (ridx q) + i) mod 64)"
  using assms ioq_len_less [of q] by (simp add: ioq_content_def nth_rotate ioq_ok_def)

lemma ioq_ok_take: "ioq_ok q \<Longrightarrow> ioq_ok (q\<lparr>ridx := (ridx q + 1) smod 64\<rparr>)"
  by (simp add: ioq_ok_def smod_next)

lemma ioq_ok_put: "ioq_ok q \<Longrightarrow> length b = 64 \<Longrightarrow> ioq_ok (q\<lparr>buffer := b, widx := (widx q + 1) smod 64\<rparr>)"
  by (simp add: ioq_ok_def smod_next)

lemma ioq_len_take:
  assumes "ioq_ok q" and "0 < ioq_len q"
  shows "ioq_len (q\<lparr>ridx := (ridx q + 1) smod 64\<rparr>) = ioq_len q - 1"
  using assms by (auto simp: ioq_len_def ioq_ok_def smod_next split: if_splits)

lemma ioq_len_put:
  assumes "ioq_ok q" and "ioq_len q < 63" and "length b = 64"
  shows "ioq_len (q\<lparr>buffer := b, widx := (widx q + 1) smod 64\<rparr>) = ioq_len q + 1"
  using assms by (auto simp: ioq_len_def ioq_ok_def smod_next split: if_splits)

lemma ioq_widx:
  assumes "ioq_ok q"
  shows "nat (widx q) = (nat (ridx q) + ioq_len q) mod 64"
  using assms by (auto simp: ioq_len_def ioq_ok_def nat_diff_distrib le_mod_geq nat_add_distrib)

lemma ioq_content_take:
  assumes ok: "ioq_ok q" and n: "0 < ioq_len q"
  shows "ioq_content q = buffer q ! nat (ridx q) # ioq_content (q\<lparr>ridx := (ridx q + 1) smod 64\<rparr>)"
    (is "_ = _ # ioq_content ?q")
proof (rule nth_equalityI)
  have ok': "ioq_ok ?q" by (rule ioq_ok_take [OF ok])
  note len = ioq_len_take [OF ok n]
  show "length (ioq_content q) = length (buffer q ! nat (ridx q) # ioq_content ?q)"
    using length_ioq_content [OF ok] length_ioq_content [OF ok'] len n by simp
  fix i assume "i < length (ioq_content q)"
  then have i: "i < ioq_len q" using length_ioq_content [OF ok] by simp
  show "ioq_content q ! i = (buffer q ! nat (ridx q) # ioq_content ?q) ! i"
  proof (cases i)
    case 0
    have "nat (ridx q) < 64" using ok by (auto simp: ioq_ok_def)
    with 0 show ?thesis using ioq_content_nth [OF ok i] by simp
  next
    case (Suc j)
    have j: "j < ioq_len ?q" using i Suc len by simp
    have "(nat (if ridx q = 63 then 0 else ridx q + 1) + j) mod 64 = (nat (ridx q) + Suc j) mod 64"
      using ok by (auto simp: ioq_ok_def nat_add_distrib le_mod_geq)
    then show ?thesis
      using ioq_content_nth [OF ok i] ioq_content_nth [OF ok' j] Suc ok
      by (simp add: ioq_ok_def smod_next)
  qed
qed

lemma ioq_content_put:
  assumes ok: "ioq_ok q" and n: "ioq_len q < 63"
  shows "ioq_content (q\<lparr>buffer := (buffer q)[nat (widx q) := c], widx := (widx q + 1) smod 64\<rparr>) = ioq_content q @ [c]"
    (is "ioq_content ?q = _")
proof (rule nth_equalityI)
  have ok': "ioq_ok ?q" by (rule ioq_ok_put [OF ok]) (use ok in \<open>simp add: ioq_ok_def\<close>)
  have len: "ioq_len ?q = ioq_len q + 1"
    using ioq_len_put [OF ok n, of "(buffer q)[nat (widx q) := c]"] ok by (simp add: ioq_ok_def)
  show "length (ioq_content ?q) = length (ioq_content q @ [c])"
    using length_ioq_content [OF ok] length_ioq_content [OF ok'] len by simp
  fix i assume "i < length (ioq_content ?q)"
  then have i: "i < ioq_len ?q" using length_ioq_content [OF ok'] by simp
  note w = ioq_widx [OF ok]
  have "i \<noteq> ioq_len q \<Longrightarrow> (nat (ridx q) + i) mod 64 \<noteq> nat (widx q)"
    using i len n mod_64_neq [of i "ioq_len q" "nat (ridx q)"] unfolding w by simp
  moreover have "(nat (ridx q) + i) mod 64 < length (buffer q)" using ok by (simp add: ioq_ok_def)
  ultimately show "ioq_content ?q ! i = (ioq_content q @ [c]) ! i"
    using ioq_content_nth [OF ok' i] i len w ioq_content_nth [OF ok, of i] length_ioq_content [OF ok]
    by (cases "i = ioq_len q") (simp_all add: nth_append nth_list_update)
qed

section \<open>Bounded queues\<close>

fun put_all :: "('e \<Rightarrow> 'h \<Rightarrow> 'h res) \<Rightarrow> 'e list \<Rightarrow> 'h \<Rightarrow> 'h res" where
  "put_all put [] h = Inr h"
| "put_all put (x # xs) h = bindE (put x h) (put_all put xs)"

fun get_all :: "('h \<Rightarrow> ('e \<times> 'h) res) \<Rightarrow> nat \<Rightarrow> 'h \<Rightarrow> ('e list \<times> 'h) res" where
  "get_all get 0 h = Inr ([], h)"
| "get_all get (Suc n) h = bindE (get h) (\<lambda>(x, h1). bindE (get_all get n h1) (\<lambda>(xs, h2). Inr (x # xs, h2)))"

locale bounded_fifo =
  fixes rep :: "'h \<Rightarrow> 'e list \<Rightarrow> bool" and cap :: nat
    and put :: "'e \<Rightarrow> 'h \<Rightarrow> 'h res" and get :: "'h \<Rightarrow> ('e \<times> 'h) res"
  assumes put_rep: "rep h xs \<Longrightarrow> length xs < cap \<Longrightarrow> \<exists>h'. put x h = Inr h' \<and> rep h' (xs @ [x])"
    and get_rep: "rep h (x # xs) \<Longrightarrow> \<exists>h'. get h = Inr (x, h') \<and> rep h' xs"
begin

lemma put_all_rep:
  "rep h xs \<Longrightarrow> length xs + length ys \<le> cap \<Longrightarrow> \<exists>h'. put_all put ys h = Inr h' \<and> rep h' (xs @ ys)"
proof (induction ys arbitrary: h xs)
  case (Cons y ys)
  then obtain h1 where h1: "put y h = Inr h1" "rep h1 (xs @ [y])" using put_rep [of h xs y] by auto
  with Cons.IH [OF h1(2)] Cons.prems(2) show ?case by auto
qed simp

lemma get_all_rep:
  "rep h (xs @ ys) \<Longrightarrow> \<exists>h'. get_all get (length xs) h = Inr (xs, h') \<and> rep h' ys"
proof (induction xs arbitrary: h)
  case (Cons x xs)
  then obtain h1 where h1: "get h = Inr (x, h1)" "rep h1 (xs @ ys)" using get_rep [of h x "xs @ ys"] by auto
  with Cons.IH [OF h1(2)] show ?case by auto
qed simp

lemma fifo:
  assumes "rep h xs" and "length xs + length ys \<le> cap"
  shows "\<exists>h1 h2. put_all put ys h = Inr h1 \<and> get_all get (length (xs @ ys)) h1 = Inr (xs @ ys, h2) \<and> rep h2 []"
  using put_all_rep [OF assms] get_all_rep [of _ "xs @ ys" "[]"] by fastforce

end

section \<open>The ring buffer is one\<close>

text \<open>Nobody waits and the lock is free.\<close>

definition ioq_rep :: "ioqueue \<times> 'z kstate_scheme \<Rightarrow> buf \<Rightarrow> bool" where
  "ioq_rep h xs \<longleftrightarrow>
     ioq_ok (fst h) \<and> ioq_content (fst h) = xs \<and> producer (fst h) = 0 \<and> consumer (fst h) = 0 \<and>
     lock_free Ioq_lock (snd h)"

definition kput :: "u8 \<Rightarrow> ioqueue \<times> 'z kstate_scheme \<Rightarrow> (ioqueue \<times> 'z kstate_scheme) res" where
  "kput c h = ioq_putchar (fst h) c (snd h)"

definition kget :: "ioqueue \<times> 'z kstate_scheme \<Rightarrow> (u8 \<times> ioqueue \<times> 'z kstate_scheme) res" where
  "kget h = ioq_getchar (fst h) (snd h)"

lemma rd_int_ok: "0 \<le> i \<Longrightarrow> i < int (length b) \<Longrightarrow> rd_int b i = Inr (b ! nat i)"
  by (simp add: rd_int_def nat_less_iff)

lemma wr_int_ok: "0 \<le> i \<Longrightarrow> i < int (length b) \<Longrightarrow> wr_int b i v = Inr (b[nat i := v])"
  by (simp add: wr_int_def nat_less_iff)

lemma ioq_take_ok:
  assumes "ioq_ok q" and "producer q = 0" and "lock_free Ioq_lock s"
  shows "ioq_take q s = Inr (buffer q ! nat (ridx q), q\<lparr>ridx := (ridx q + 1) smod 64\<rparr>, lock_freed Ioq_lock s)"
  using assms lock_acquire_free [OF assms(3)] lock_release_held [OF assms(3)]
  by (simp add: ioq_take_def rd_int_ok ioq_ok_def)

lemma ioq_put_ok:
  assumes "ioq_ok q" and "consumer q = 0" and "lock_free Ioq_lock s"
  shows "ioq_put q c s = Inr (q\<lparr>buffer := (buffer q)[nat (widx q) := c], widx := (widx q + 1) smod 64\<rparr>,
           lock_freed Ioq_lock s)"
  using assms lock_acquire_free [OF assms(3)] lock_release_held [OF assms(3)]
  by (simp add: ioq_put_def wr_int_ok ioq_ok_def)

lemma ioq_putchar_room:
  "ioq_ok q \<Longrightarrow> ioq_len q < 63 \<Longrightarrow> ioq_putchar q c s = ioq_put q c s"
  by (simp add: ioq_putchar_def ioq_putchar_wait_def ioq_full_len)

lemma ioq_getchar_some:
  "ioq_ok q \<Longrightarrow> 0 < ioq_len q \<Longrightarrow> ioq_getchar q s = ioq_take q s"
  by (simp add: ioq_getchar_def ioq_getchar_wait_def ioq_empty_len)

interpretation ioq: bounded_fifo ioq_rep 63 kput kget
proof
  fix h :: "ioqueue \<times> 'z kstate_scheme" and xs x
  assume r: "ioq_rep h xs" and l: "length xs < 63"
  then have ok: "ioq_ok (fst h)" and n: "ioq_len (fst h) < 63" and c: "consumer (fst h) = 0"
    and f: "lock_free Ioq_lock (snd h)"
    by (auto simp: ioq_rep_def length_ioq_content)
  let ?q = "fst h"
  let ?q' = "?q\<lparr>buffer := (buffer ?q)[nat (widx ?q) := x], widx := (widx ?q + 1) smod 64\<rparr>"
  have "kput x h = Inr (?q', lock_freed Ioq_lock (snd h))"
    using ioq_putchar_room [OF ok n, of x "snd h"] ioq_put_ok [OF ok c f, of x] by (simp add: kput_def)
  moreover have "ioq_rep (?q', lock_freed Ioq_lock (snd h)) (xs @ [x])"
    using r ioq_content_put [OF ok n] ioq_ok_put [OF ok, of "(buffer ?q)[nat (widx ?q) := x]"]
      ok [unfolded ioq_ok_def, THEN conjunct1] lock_free_freed [OF f]
    by (simp add: ioq_rep_def)
  ultimately show "\<exists>h'. kput x h = Inr h' \<and> ioq_rep h' (xs @ [x])" by blast
next
  fix h :: "ioqueue \<times> 'z kstate_scheme" and xs x
  assume r: "ioq_rep h (x # xs)"
  then have ok: "ioq_ok (fst h)" and p: "producer (fst h) = 0" and f: "lock_free Ioq_lock (snd h)"
    and n: "0 < ioq_len (fst h)"
    using length_ioq_content [of "fst h"] by (auto simp: ioq_rep_def)
  let ?q = "fst h"
  let ?q' = "?q\<lparr>ridx := (ridx ?q + 1) smod 64\<rparr>"
  have "kget h = Inr (x, ?q', lock_freed Ioq_lock (snd h))"
    using ioq_getchar_some [OF ok n, of "snd h"] ioq_take_ok [OF ok p f] ioq_content_take [OF ok n] r
    by (simp add: kget_def ioq_rep_def)
  moreover have "ioq_rep (?q', lock_freed Ioq_lock (snd h)) xs"
    using r ioq_content_take [OF ok n] ioq_ok_take [OF ok] lock_free_freed [OF f]
    by (simp add: ioq_rep_def)
  ultimately show "\<exists>h'. kget h = Inr (x, h') \<and> ioq_rep h' xs" by blast
qed

section \<open>Properties\<close>

text \<open>C28: the ring buffer is a queue: whatever fits into its 63 places comes out of it in the order
  it was put in, after what was waiting before, and leaves it empty.\<close>

theorem ioqueue_is_fifo:
  assumes "ioq_rep (q, s) xs" and "length xs + length ys \<le> 63"
  shows "\<exists>h1 h2. put_all kput ys (q, s) = Inr h1 \<and>
           get_all kget (length xs + length ys) h1 = Inr (xs @ ys, h2) \<and> ioq_rep h2 []"
  using ioq.fifo [OF assms] by simp

definition demo_ioqueue :: ioqueue where
  "demo_ioqueue = \<lparr>producer = 0, consumer = 0, buffer = replicate 64 0, ridx = 62, widx = 62\<rparr>"

definition demo_ioq_kernel :: kstate where
  "demo_ioq_kernel = list_init (klist (Waiters (Lock_sema Ioq_lock))) demo_kernel"

lemma demo_ioq_lock: "lock_free Ioq_lock demo_ioq_kernel"
  using list_init_dll [of "klist (Waiters (Lock_sema Ioq_lock))" demo_kernel]
  by (simp add: lock_free_def queue_def demo_ioq_kernel_def) (simp add: list_init_def demo_kernel_def)

lemma demo_ioq_sched: "sched_ok (\<lambda>_. 0) demo_ioq_kernel demo_asched"
  using demo_sched_ok
  by (auto simp: demo_ioq_kernel_def sched_ok_def sched_abs_def list_init_def queue_def dll_def demo_asched_def)

lemma demo_ioq_rep: "ioq_rep (demo_ioqueue, demo_ioq_kernel) []"
  using demo_ioq_lock by (simp add: ioq_rep_def ioq_ok_def ioq_content_def ioq_len_def demo_ioqueue_def)

theorem ioqueue_is_fifo_witness:
  "\<exists>h1 h2. put_all kput [1, 2, 3] (demo_ioqueue, demo_ioq_kernel) = Inr h1 \<and>
     get_all kget 3 h1 = Inr ([1, 2, 3], h2) \<and> ioq_rep h2 []"
  using ioqueue_is_fifo [OF demo_ioq_rep, of "[1, 2, 3]"] by (simp add: eval_nat_numeral)

text \<open>A character put while a reader waits makes the reader ready, at the front of the ready
  list, and clears the field that names it; the scheduler's invariant is kept.\<close>

theorem ioq_putchar_wakes_the_reader:
  assumes "sched_ok phys s a" and "lock_free Ioq_lock s" and "ioq_ok q" and "ioq_len q < 63"
    and "consumer q \<noteq> 0" and "tasks s (consumer q) = Some p" and "status p = TASK_BLOCKED"
  shows "\<exists>q' s'. ioq_putchar q c s = Inr (q', s') \<and> ioq_ok q' \<and> ioq_content q' = ioq_content q @ [c] \<and>
           consumer q' = 0 \<and> producer q' = producer q \<and> sched_ok phys s' (a_wake (consumer q) a) \<and>
           running s' = running s \<and> lock_free Ioq_lock s'"
proof -
  let ?h = "lock_held Ioq_lock s" and ?t = "consumer q"
  let ?b = "(buffer q)[nat (widx q) := c]"
  have ok: "sched_ok phys ?h a" using assms(1) by (simp add: lock_held_def)
  have p: "tasks ?h ?t = Some p" "sleeping (status p)" using assms(6,7) by (simp_all add: sleeping_def)
  from thread_unblock_sched_ok [OF ok p] obtain s1 where
    s1: "thread_unblock ?t ?h = Inr s1" "sched_ok phys s1 (a_wake ?t a)" "kframe ?h s1"
    "running s1 = running ?h" "other_queues (insert ?t (set (a_ready a))) ?h s1" by blast
  have "queue ?h (Waiters (Lock_sema Ioq_lock)) []" using assms(2) by (simp add: lock_free_def)
  with s1(5) have w: "queue s1 (Waiters (Lock_sema Ioq_lock)) []" by (simp add: other_queues_def)
  have "sema_value s1 (Lock_sema Ioq_lock) = 0"
    "locks s1 Ioq_lock = \<lparr>holder = running s1, holder_repeat_nr = 1\<rparr>"
    using s1(3,4) by (simp_all add: kframe_def lock_held_def)
  note rel = lock_release_last [OF this(1) w this(2)]
  let ?q = "q\<lparr>buffer := ?b, widx := (widx q + 1) smod 64\<rparr>"
  have "ioq_put q c s = Inr (?q\<lparr>consumer := 0\<rparr>, lock_freed Ioq_lock s1)"
    using lock_acquire_free [OF assms(2)] s1(1) rel assms(3,5)
    by (simp add: ioq_put_def wr_int_ok ioq_ok_def wakeup_def)
  moreover have "ioq_ok (?q\<lparr>consumer := 0\<rparr>)"
    using ioq_ok_put [OF assms(3), of ?b] assms(3) by (simp add: ioq_ok_def)
  moreover have "ioq_content (?q\<lparr>consumer := 0\<rparr>) = ioq_content ?q"
    by (simp add: ioq_content_def ioq_len_def)
  moreover have "sched_ok phys (lock_freed Ioq_lock s1) (a_wake ?t a)"
    using s1(2) by (simp add: lock_freed_def)
  moreover have "lock_free Ioq_lock (lock_freed Ioq_lock s1)"
    using w s1(4) assms(2) by (simp add: lock_free_def) (simp add: lock_freed_def)
  ultimately show ?thesis
    using ioq_putchar_room [OF assms(3,4), of c s] ioq_content_put [OF assms(3,4), of c] s1(4)
    by (intro exI [of _ "?q\<lparr>consumer := 0\<rparr>"] exI [of _ "lock_freed Ioq_lock s1"]) simp
qed

text \<open>A third thread, \<open>0xc0102000\<close>, is blocked.\<close>

definition demo_reader_waits :: kstate where
  "demo_reader_waits = list_init (klist (Waiters (Lock_sema Ioq_lock)))
     (demo_kernel\<lparr>tasks := (tasks demo_kernel)(0xc0102000 \<mapsto> demo_task TASK_BLOCKED)\<rparr>)"

definition demo_reader_sched :: asched where
  "demo_reader_sched = demo_asched\<lparr>a_status := (a_status demo_asched)(0xc0102000 \<mapsto> TASK_BLOCKED)\<rparr>"

theorem ioq_putchar_wakes_the_reader_witness:
  "\<exists>q' s'. ioq_putchar (demo_ioqueue\<lparr>consumer := 0xc0102000\<rparr>) 0x61 demo_reader_waits = Inr (q', s') \<and>
     ioq_content q' = [0x61] \<and> consumer q' = 0"
proof -
  let ?s = demo_reader_waits and ?q = "demo_ioqueue\<lparr>consumer := 0xc0102000\<rparr>"
  note d = demo_reader_waits_def list_init_def demo_kernel_def
  have r: "p \<in> ran (tasks ?s) \<Longrightarrow> pgdir p = 0" for p
    by (auto simp: d ran_def demo_task_def split: if_splits)
  have "spaces_ok (\<lambda>_. 0) (tasks ?s) (cr3 ?s) (pmem ?s)"
    using r by (auto simp: spaces_ok_def demo_reader_waits_def list_init_def demo_kernel_def)
  moreover have "sched_abs ?s demo_reader_sched"
    by (auto simp: sched_abs_def d demo_reader_sched_def demo_asched_def queue_def dll_def demo_task_def fun_eq_iff)
  moreover have "a_inv (idle_thread ?s) demo_reader_sched"
    by (auto simp: a_inv_def a_pre_def d demo_reader_sched_def demo_asched_def)
  ultimately have ok: "sched_ok (\<lambda>_. 0) ?s demo_reader_sched" by (simp add: sched_ok_def)
  have "queue ?s (Waiters (Lock_sema Ioq_lock)) []"
    using list_init_dll [of "klist (Waiters (Lock_sema Ioq_lock))" "demo_kernel\<lparr>tasks := (tasks demo_kernel)(0xc0102000 \<mapsto> demo_task TASK_BLOCKED)\<rparr>"]
    by (simp add: queue_def demo_reader_waits_def)
  then have f: "lock_free Ioq_lock ?s"
    by (simp add: lock_free_def) (simp add: d)
  have q: "ioq_ok ?q" "ioq_len ?q < 63" "ioq_content ?q = []"
    by (simp_all add: ioq_ok_def ioq_len_def ioq_content_def demo_ioqueue_def)
  have t: "tasks ?s (consumer ?q) = Some (demo_task TASK_BLOCKED)"
    by (simp add: d)
  have "status (demo_task TASK_BLOCKED) = TASK_BLOCKED" by (simp add: demo_task_def)
  from ioq_putchar_wakes_the_reader [where c = "0x61", OF ok f q(1,2) _ t this] q(3) show ?thesis
    by (auto simp: demo_ioqueue_def)
qed

text \<open>A writer that finds the ring full enters itself as the waiting \<open>consumer\<close>.  It is blocked
  with \<open>producer\<close> still null: reading never wakes it, and once the ring has been read empty the
  next reader fails the assertion of \<open>ioq_wait\<close>.\<close>

theorem full_ring_loses_the_writer:
  assumes "sched_ok phys s a" and "running s \<noteq> idle_thread s" and "ioq_full q"
    and "consumer q = 0" and "producer q = 0"
  shows "\<exists>old q' s' p. ioq_putchar_wait q s = Inr (Some old, q', s') \<and> tasks s' (running s) = Some p \<and>
           status p = TASK_BLOCKED \<and> consumer q' = running s \<and> producer q' = 0 \<and>
           (\<forall>q2 (s2 :: 'z kstate_scheme). consumer q2 = running s \<longrightarrow> producer q2 = 0 \<longrightarrow> ioq_ok q2 \<longrightarrow> lock_free Ioq_lock s2 \<longrightarrow>
             \<not> ioq_empty q2 \<longrightarrow> (\<exists>ch q3. ioq_getchar q2 s2 = Inr (ch, q3, lock_freed Ioq_lock s2) \<and>
               consumer q3 = running s \<and> producer q3 = 0 \<and> ioq_len q3 = ioq_len q2 - 1)) \<and>
           (\<forall>q2 (s2 :: 'z kstate_scheme). consumer q2 = running s \<longrightarrow> ioq_empty q2 \<longrightarrow> ioq_getchar q2 s2 = Inl Assertion)"
proof -
  let ?r = "running s" and ?b = "a_set (a_running a) TASK_BLOCKED a"
  let ?a' = "a_block (idle_thread s) TASK_BLOCKED a"
  have sl: "sleeping TASK_BLOCKED" by (simp add: sleeping_def)
  note run = sched_ok_running [OF assms(1)]
  from thread_block_sched_ok [OF assms(1) sl] obtain s' where
    s': "thread_block TASK_BLOCKED s = Inr (intr_get_status s, s')" "sched_ok phys s' ?a'" by blast
  have "a_pre (idle_thread s) ?b" using a_block_inv(1) [OF run(7) sl] .
  moreover have "a_status ?b ?r = Some TASK_BLOCKED" using run(1) by (simp add: a_set_def)
  ultimately have "a_status ?a' ?r = Some TASK_BLOCKED"
    using blocked_stay_out(2) [of "idle_thread s" ?b ?r] assms(2) by (simp add: a_block_def)
  then have "map_option status (tasks s' ?r) = Some TASK_BLOCKED"
    using sched_ok_running(5) [OF s'(2)] by (simp add: sched_abs_def)
  then obtain p where "tasks s' ?r = Some p" "status p = TASK_BLOCKED" by auto
  moreover have "ioq_putchar_wait q s = Inr (Some (intr_get_status s), q\<lparr>consumer := ?r\<rparr>, s')"
    using assms(3,4) s'(1) by (simp add: ioq_putchar_wait_def ioq_wait_def)
  moreover have "ioq_getchar q2 s2 = Inr (buffer q2 ! nat (ridx q2), q2\<lparr>ridx := (ridx q2 + 1) smod 64\<rparr>,
      lock_freed Ioq_lock s2) \<and> ioq_len (q2\<lparr>ridx := (ridx q2 + 1) smod 64\<rparr>) = ioq_len q2 - 1"
    if "producer q2 = 0" "ioq_ok q2" "lock_free Ioq_lock s2" "\<not> ioq_empty q2" for q2 and s2 :: "'z kstate_scheme"
    using ioq_getchar_some [of q2 s2] ioq_take_ok [of q2 s2] ioq_len_take [of q2] that
    by (simp add: ioq_empty_len)
  moreover have "ioq_getchar q2 s2 = Inl Assertion"
    if "consumer q2 = ?r" "ioq_empty q2" for q2 and s2 :: "'z kstate_scheme"
    using that run(3) by (simp add: ioq_getchar_def ioq_getchar_wait_def ioq_wait_def)
  ultimately show ?thesis using assms(5)
    by (intro exI [of _ "intr_get_status s"] exI [of _ "q\<lparr>consumer := ?r\<rparr>"] exI [of _ s'] exI [of _ p]) simp
qed

theorem full_ring_loses_the_writer_witness:
  "\<exists>old q' s'. ioq_putchar_wait (demo_ioqueue\<lparr>ridx := 0, widx := 63\<rparr>) demo_ioq_kernel = Inr (Some old, q', s') \<and>
     consumer q' = 0xc009e000 \<and> ioq_getchar (q'\<lparr>ridx := 63, widx := 63\<rparr>) s' = Inl Assertion"
proof -
  have r: "running demo_ioq_kernel = 0xc009e000" "idle_thread demo_ioq_kernel = 0xc0100000"
    by (simp_all add: demo_ioq_kernel_def list_init_def demo_kernel_def)
  have "ioq_full (demo_ioqueue\<lparr>ridx := 0, widx := 63\<rparr>)"
    by (simp add: ioq_full_def demo_ioqueue_def smod_next)
  from full_ring_loses_the_writer [OF demo_ioq_sched _ this] r obtain old q' s' where
    q': "ioq_putchar_wait (demo_ioqueue\<lparr>ridx := 0, widx := 63\<rparr>) demo_ioq_kernel = Inr (Some old, q', s')"
    "consumer q' = 0xc009e000"
    and pan: "\<forall>q2 (s2 :: kstate). consumer q2 = 0xc009e000 \<longrightarrow> ioq_empty q2 \<longrightarrow> ioq_getchar q2 s2 = Inl Assertion"
    by (auto simp: demo_ioqueue_def)
  have "ioq_getchar (q'\<lparr>ridx := 63, widx := 63\<rparr>) s' = Inl Assertion"
    by (rule pan [rule_format]) (simp_all add: q'(2) ioq_empty_def)
  with q' show ?thesis by blast
qed

end
