(* ===== verification/Keyboard.thy ===== *)
theory Keyboard
  imports IOQueue Interrupt
begin

text \<open>
  \<open>device/keyboard.c\<close>: the table of characters and the keyboard interrupt.  The flags the handler
  keeps are a record; what a scan code asks for is the value \<open>kbd_action\<close>, so that decoding
  (\<open>kbd_decode\<close>) can be run apart from the queue the character goes to.
\<close>

section \<open>The table\<close>

text \<open>Columns: without and with shift.  Rows 0 to 0x3a.\<close>

definition keymap :: "(u8 \<times> u8) list" where
  "keymap =
    [(0, 0), (0x1b, 0x1b), (0x31, 0x21), (0x32, 0x40), (0x33, 0x23), (0x34, 0x24), (0x35, 0x25), (0x36, 0x5e),
     (0x37, 0x26), (0x38, 0x2a), (0x39, 0x28), (0x30, 0x29), (0x2d, 0x5f), (0x3d, 0x2b), (0x08, 0x08), (0x09, 0x09),
     (0x71, 0x51), (0x77, 0x57), (0x65, 0x45), (0x72, 0x52), (0x74, 0x54), (0x79, 0x59), (0x75, 0x55), (0x69, 0x49),
     (0x6f, 0x4f), (0x70, 0x50), (0x5b, 0x7b), (0x5d, 0x7d), (0x0d, 0x0d), (0, 0), (0x61, 0x41), (0x73, 0x53),
     (0x64, 0x44), (0x66, 0x46), (0x67, 0x47), (0x68, 0x48), (0x6a, 0x4a), (0x6b, 0x4b), (0x6c, 0x4c), (0x3b, 0x3a),
     (0x27, 0x22), (0x60, 0x7e), (0, 0), (0x5c, 0x7c), (0x7a, 0x5a), (0x78, 0x58), (0x63, 0x43), (0x76, 0x56),
     (0x62, 0x42), (0x6e, 0x4e), (0x6d, 0x4d), (0x2c, 0x3c), (0x2e, 0x3e), (0x2f, 0x3f), (0, 0), (0x2a, 0x2a),
     (0, 0), (0x20, 0x20), (0, 0)]"

definition shift_l_make :: u16 where "shift_l_make = 0x2a"
definition shift_r_make :: u16 where "shift_r_make = 0x36"
definition alt_l_make :: u16 where "alt_l_make = 0x38"
definition alt_r_make :: u16 where "alt_r_make = 0xe038"
definition ctrl_l_make :: u16 where "ctrl_l_make = 0x1d"
definition ctrl_r_make :: u16 where "ctrl_r_make = 0xe01d"
definition caps_lock_make :: u16 where "caps_lock_make = 0x3a"

lemmas key_codes = shift_l_make_def shift_r_make_def alt_l_make_def alt_r_make_def ctrl_l_make_def
  ctrl_r_make_def caps_lock_make_def

section \<open>The interrupt\<close>

record kbd =
  ctrl_status :: bool
  shift_status :: bool
  alt_status :: bool
  caps_lock_status :: bool
  ext_scancode :: bool

datatype kbd_action = Nothing | Put_key u8 | Unknown_key

definition break_key :: "u16 \<Rightarrow> kbd \<Rightarrow> kbd" where
  "break_key scancode k =
     (let make_code = scancode AND 0xff7f in
      if make_code = ctrl_l_make \<or> make_code = ctrl_r_make then k\<lparr>ctrl_status := False\<rparr>
      else if make_code = shift_l_make \<or> make_code = shift_r_make then k\<lparr>shift_status := False\<rparr>
      else if make_code = alt_l_make \<or> make_code = alt_r_make then k\<lparr>alt_status := False\<rparr>
      else k)"

definition is_letter :: "u16 \<Rightarrow> bool" where
  "is_letter scancode \<longleftrightarrow> 0x10 \<le> scancode \<and> scancode \<le> 0x19 \<or> 0x1e \<le> scancode \<and> scancode \<le> 0x26 \<or>
     0x2c \<le> scancode \<and> scancode \<le> 0x32"

definition make_key :: "u16 \<Rightarrow> kbd \<Rightarrow> (kbd \<times> kbd_action) res" where
  "make_key scancode0 k =
     (let shift = if is_letter scancode0 then shift_status k \<or> caps_lock_status k else shift_status k;
          scancode = scancode0 AND 0x00ff;
          index = unat (ucast scancode :: u8) in
      bindE (rd keymap index) (\<lambda>row.
      let cur_char = if shift then snd row else fst row in
      if cur_char \<noteq> 0 then Inr (k, Put_key cur_char)
      else if scancode = ctrl_l_make \<or> scancode = ctrl_r_make then Inr (k\<lparr>ctrl_status := True\<rparr>, Nothing)
      else if scancode = shift_l_make \<or> scancode = shift_r_make then Inr (k\<lparr>shift_status := True\<rparr>, Nothing)
      else if scancode = alt_l_make \<or> scancode = alt_r_make then Inr (k\<lparr>alt_status := True\<rparr>, Nothing)
      else if scancode = caps_lock_make
      then Inr (k\<lparr>caps_lock_status := \<not> caps_lock_status k\<rparr>, Nothing)
      else Inr (k, Nothing)))"

text \<open>\<open>byte\<close>: what the port 0x60 delivers.\<close>

definition kbd_decode :: "u8 \<Rightarrow> kbd \<Rightarrow> (kbd \<times> kbd_action) res" where
  "kbd_decode byte k =
     (if byte = 0xe0 then Inr (k\<lparr>ext_scancode := True\<rparr>, Nothing)
      else
        let scancode = if ext_scancode k then 0xe000 OR ucast byte else (ucast byte :: u16);
            k1 = k\<lparr>ext_scancode := False\<rparr> in
        if scancode AND 0x0080 \<noteq> 0 then Inr (break_key scancode k1, Nothing)
        else if 0 < scancode \<and> scancode < 0x3b \<or> scancode = alt_r_make \<or> scancode = ctrl_r_make
        then make_key scancode k1
        else Inr (k1, Unknown_key))"

definition intr_keyboard_handler :: "u8 \<Rightarrow> kbd \<times> ioqueue \<times> 'z kstate_scheme \<Rightarrow>
    (screen_call list \<times> kbd \<times> ioqueue \<times> 'z kstate_scheme) res" where
  "intr_keyboard_handler byte h =
     (let (k, kdb_buf, s) = h in
      bindE (kbd_decode byte k) (\<lambda>(k1, act).
        case act of
          Nothing \<Rightarrow> Inr ([], k1, kdb_buf, s)
        | Unknown_key \<Rightarrow> Inr ([Call_put_str [0x75, 0x6e, 0x6b, 0x6e, 0x6f, 0x77, 0x6e, 0x20, 0x6b, 0x65, 0x79, 0x0a]],
                              k1, kdb_buf, s)
        | Put_key c \<Rightarrow> bindE (ioq_putchar kdb_buf c s) (\<lambda>(q, s1). Inr ([], k1, q, s1))))"

definition keyboard_init :: "intr_handler list \<Rightarrow> ioqueue \<Rightarrow> 'z kstate_scheme \<Rightarrow>
    (intr_handler list \<times> ioqueue \<times> 'z kstate_scheme) res" where
  "keyboard_init idt_table kdb_buf s =
     (let (q, s1) = ioq_init kdb_buf s in
      bindE (register_handler idt_table 0x21 Intr_keyboard_handler) (\<lambda>t. Inr (t, q, s1)))"

section \<open>What one scan code does\<close>

text \<open>The codes with their prefix, as the handler puts them together.\<close>

fun merge_codes :: "bool \<Rightarrow> u8 list \<Rightarrow> u16 list" where
  "merge_codes ext [] = []"
| "merge_codes ext (b # bs) =
     (if b = 0xe0 then merge_codes True bs
      else (if ext then 0xe000 OR ucast b else ucast b) # merge_codes False bs)"

text \<open>A flag that one set of codes sets and another clears.\<close>

definition flag_step :: "u16 set \<Rightarrow> u16 set \<Rightarrow> bool \<Rightarrow> u16 \<Rightarrow> bool" where
  "flag_step press release f c = (if c \<in> press then True else if c \<in> release then False else f)"

definition key_step :: "u16 \<Rightarrow> kbd \<Rightarrow> kbd" where
  "key_step c k = k\<lparr>ctrl_status := flag_step {0x1d, 0xe01d} {0x9d, 0xe09d} (ctrl_status k) c,
     shift_status := flag_step {0x2a, 0x36} {0xaa, 0xb6} (shift_status k) c,
     alt_status := flag_step {0x38, 0xe038} {0xb8, 0xe0b8} (alt_status k) c,
     caps_lock_status := (caps_lock_status k \<noteq> (c = 0x3a))\<rparr>"

text \<open>The character a code stands for, 0 for none.\<close>

definition key_char :: "u16 \<Rightarrow> kbd \<Rightarrow> u8" where
  "key_char c k =
     (if 0 < c \<and> c < 0x3b
      then (if shift_status k \<or> is_letter c \<and> caps_lock_status k then snd (keymap ! unat c)
            else fst (keymap ! unat c))
      else 0)"

lemma length_keymap: "length keymap = 59"
  by (simp add: keymap_def)

lemma keymap_zero:
  assumes "i < 59"
  shows "fst (keymap ! i) = 0 \<longleftrightarrow> i \<in> {0, 0x1d, 0x2a, 0x36, 0x38, 0x3a}"
    and "snd (keymap ! i) = 0 \<longleftrightarrow> i \<in> {0, 0x1d, 0x2a, 0x36, 0x38, 0x3a}"
    and "fst (keymap ! i) < 0x80" and "snd (keymap ! i) < 0x80"
proof -
  have f: "map (\<lambda>r. fst r = 0) keymap = map (\<lambda>i. i \<in> {0, 0x1d, 0x2a, 0x36, 0x38, 0x3a}) [0..<59]"
    and g: "map (\<lambda>r. snd r = 0) keymap = map (\<lambda>i. i \<in> {0, 0x1d, 0x2a, 0x36, 0x38, 0x3a}) [0..<59]"
    by (simp_all add: keymap_def) code_simp+
  have "\<forall>r \<in> set keymap. fst r < 0x80 \<and> snd r < 0x80" by (simp add: keymap_def)
  moreover have "keymap ! i \<in> set keymap" using assms by (simp add: length_keymap)
  ultimately show "fst (keymap ! i) < 0x80" and "snd (keymap ! i) < 0x80" by blast+
  show "fst (keymap ! i) = 0 \<longleftrightarrow> i \<in> {0, 0x1d, 0x2a, 0x36, 0x38, 0x3a}"
    using arg_cong [OF f, of "\<lambda>xs. xs ! i"] assms by (simp add: length_keymap)
  show "snd (keymap ! i) = 0 \<longleftrightarrow> i \<in> {0, 0x1d, 0x2a, 0x36, 0x38, 0x3a}"
    using arg_cong [OF g, of "\<lambda>xs. xs ! i"] assms by (simp add: length_keymap)
qed

lemma mask_one_bit:
  fixes m k c x :: u16
  assumes "\<forall>n. bit m n \<longleftrightarrow> n = 7" and "\<forall>n. bit k n \<longleftrightarrow> n < 16 \<and> n \<noteq> 7" and "bit c 7" and "\<not> bit x 7"
  shows "(c AND k) OR m = c" and "(x OR m) AND k = x"
  using assms by (auto intro!: bit_word_eqI simp: bit_and_iff bit_or_iff)

lemma break_code_eq:
  assumes "(c :: u16) AND 0x80 \<noteq> 0" and "x AND 0x80 = 0"
  shows "c AND 0xff7f = x \<longleftrightarrow> c = x OR 0x80"
proof -
  have m: "(0x80 :: u16) = 2 ^ 7" "(0xff7f :: u16) = NOT (2 ^ 7)" by simp_all
  have c: "bit c 7" and x: "\<not> bit x 7"
    using assms and_2p [of c 7] and_2p [of x 7] unfolding m(1) by (auto split: if_splits)
  have "bit (2 ^ 7 :: u16) n \<longleftrightarrow> n = 7" for n by (simp only: bit_exp_iff) auto
  then have e: "bit (0x80 :: u16) n \<longleftrightarrow> n = 7" for n by simp
  have "bit (NOT (2 ^ 7) :: u16) n \<longleftrightarrow> n < 16 \<and> n \<noteq> 7" for n by (simp only: bit_not_iff bit_exp_iff) auto
  then have e2: "bit (0xff7f :: u16) n \<longleftrightarrow> n < 16 \<and> n \<noteq> 7" for n by (simp only: m(2))
  have "(c AND 0xff7f) OR 0x80 = c" and "(x OR 0x80) AND 0xff7f = x"
    using mask_one_bit [of "0x80" "0xff7f" c x] e e2 c x by blast+
  then show ?thesis by metis
qed

text \<open>The two kinds of codes.\<close>

lemma break_key_step:
  assumes "c AND 0x80 \<noteq> 0"
  shows "break_key c k = key_step c k"
proof -
  note eq = break_code_eq [OF assms]
  have nz: "(0x3a :: u16) AND 0x80 = 0" "(0x2a :: u16) AND 0x80 = 0" "(0x36 :: u16) AND 0x80 = 0"
    "(0x38 :: u16) AND 0x80 = 0" "(0xe038 :: u16) AND 0x80 = 0" "(0x1d :: u16) AND 0x80 = 0"
    "(0xe01d :: u16) AND 0x80 = 0" by simp_all
  have "c \<notin> {0x1d, 0xe01d, 0x2a, 0x36, 0x38, 0xe038, 0x3a}" using assms by auto
  then show ?thesis
    by (auto simp: break_key_def Let_def key_codes eq [OF nz(2)] eq [OF nz(3)] eq [OF nz(4)]
        eq [OF nz(5)] eq [OF nz(6)] eq [OF nz(7)] key_step_def flag_step_def)
qed

lemma low_code:
  assumes "(c :: u16) < 0x3b"
  shows "c AND 0xff = c" and "unat (ucast c :: u8) = unat c" and "unat c < 59"
proof -
  have u: "unat c < 59" using assms by (simp add: word_less_nat_alt)
  then show "unat c < 59" .
  have m: "(0xff :: u16) = mask 8" by (simp add: mask_eq_exp_minus_1)
  show "c AND 0xff = c"
    unfolding m take_bit_eq_mask [symmetric] using u
    by (simp add: word_unat_eq_iff unsigned_take_bit_eq take_bit_nat_eq_self)
  show "unat (ucast c :: u8) = unat c" using u by (simp add: unsigned_ucast_eq take_bit_nat_eq_self)
qed

lemma make_key_step:
  assumes "0 < c" and "c < 0x3b"
  shows "make_key c k = Inr (key_step c k, if key_char c k \<noteq> 0 then Put_key (key_char c k) else Nothing)"
proof -
  note l = low_code [OF assms(2)]
  have rd: "rd keymap (unat c) = Inr (keymap ! unat c)" using l(3) by (simp add: length_keymap)
  have eqs: "unat c = i \<longleftrightarrow> c = of_nat i" if "i < 59" for i
    using that by (auto simp: unat_of_nat word_unat_eq_iff)
  have z: "key_char c k = 0 \<longleftrightarrow> c \<in> {0x1d, 0x2a, 0x36, 0x38, 0x3a}"
    using keymap_zero(1,2) [OF l(3)] assms by (auto simp: key_char_def eqs)
  have n: "c \<notin> {0xe01d, 0x9d, 0xe09d, 0xaa, 0xb6, 0xe038, 0xb8, 0xe0b8}"
    using assms(2) by auto
  have kc: "(if is_letter c then shift_status k \<or> caps_lock_status k else shift_status k) =
      (shift_status k \<or> is_letter c \<and> caps_lock_status k)" by auto
  show ?thesis
  proof (cases "key_char c k = 0")
    case True
    then have "c \<in> {0x1d, 0x2a, 0x36, 0x38, 0x3a}" using z by blast
    then show ?thesis using True rd l n assms
      by (auto simp: make_key_def Let_def key_char_def key_codes key_step_def flag_step_def kc)
  next
    case False
    then have "c \<notin> {0x1d, 0x2a, 0x36, 0x38, 0x3a}" using z by blast
    then have "key_step c k = k" using n by (simp add: key_step_def flag_step_def)
    then show ?thesis using False rd l assms
      by (auto simp: make_key_def Let_def key_char_def kc split: if_splits)
  qed
qed

definition code_of :: "u8 \<Rightarrow> kbd \<Rightarrow> u16" where
  "code_of b k = (if ext_scancode k then 0xe000 OR ucast b else ucast b)"

definition key_action :: "u16 \<Rightarrow> kbd \<Rightarrow> u8 option" where
  "key_action c k = (if key_char c k \<noteq> 0 then Some (key_char c k) else None)"

definition put_of :: "kbd_action \<Rightarrow> u8 option" where
  "put_of act = (case act of Put_key c \<Rightarrow> Some c | _ \<Rightarrow> None)"

lemma key_irrelevant [simp]:
  "key_char c (k\<lparr>ext_scancode := e\<rparr>) = key_char c k"
  "key_step c (k\<lparr>ext_scancode := e\<rparr>) = (key_step c k)\<lparr>ext_scancode := e\<rparr>"
  by (simp_all add: key_char_def key_step_def)

lemma make_key_ext:
  "make_key 0xe038 k = Inr (k\<lparr>alt_status := True\<rparr>, Nothing)"
  "make_key 0xe01d k = Inr (k\<lparr>ctrl_status := True\<rparr>, Nothing)"
proof -
  have "rd keymap 56 = Inr (0, 0)" "rd keymap 29 = Inr (0, 0)" by (simp_all add: keymap_def rd_def)
  then show "make_key 0xe038 k = Inr (k\<lparr>alt_status := True\<rparr>, Nothing)"
    "make_key 0xe01d k = Inr (k\<lparr>ctrl_status := True\<rparr>, Nothing)"
    by (simp_all add: make_key_def Let_def key_codes)
qed

lemma decode_step:
  assumes "b \<noteq> 0xe0"
  shows "\<exists>act. kbd_decode b k = Inr ((key_step (code_of b k) k)\<lparr>ext_scancode := False\<rparr>, act) \<and>
           put_of act = key_action (code_of b k) k"
proof -
  define c where "c = code_of b k"
  let ?k = "k\<lparr>ext_scancode := False\<rparr>"
  have d: "kbd_decode b k =
      (if c AND 0x80 \<noteq> 0 then Inr (break_key c ?k, Nothing)
       else if 0 < c \<and> c < 0x3b \<or> c = 0xe038 \<or> c = 0xe01d then make_key c ?k else Inr (?k, Unknown_key))"
    using assms by (simp add: kbd_decode_def c_def code_of_def Let_def key_codes)
  consider (brk) "c AND 0x80 \<noteq> 0" | (low) "c AND 0x80 = 0" "0 < c \<and> c < 0x3b"
    | (ext) "c = 0xe038 \<or> c = 0xe01d" | (unk) "c AND 0x80 = 0" "\<not> (0 < c \<and> c < 0x3b)" "c \<noteq> 0xe038" "c \<noteq> 0xe01d"
    by blast
  then have "\<exists>act. kbd_decode b k = Inr ((key_step c k)\<lparr>ext_scancode := False\<rparr>, act) \<and> put_of act = key_action c k"
  proof cases
    case brk
    have m: "(0x80 :: u16) = 2 ^ 7" by simp
    have "\<not> c < 2 ^ 6" using brk bit_less_2p [of c 6 7] unfolding m and_2p by (auto split: if_splits)
    then have "\<not> c < 0x3b" using less_trans [of c "0x3b" "2 ^ 6"] by auto
    then have "key_action c k = None" by (simp add: key_action_def key_char_def)
    with brk show ?thesis unfolding d by (simp add: break_key_step put_of_def)
  next
    case low
    from make_key_step [of c ?k] low(2) show ?thesis
      unfolding d using low by (auto simp: put_of_def key_action_def)
  next
    case ext
    then have "key_char c k = 0" "key_step c ?k = (if c = 0xe038 then ?k\<lparr>alt_status := True\<rparr> else ?k\<lparr>ctrl_status := True\<rparr>)"
      by (auto simp: key_char_def key_step_def flag_step_def)
    then show ?thesis
      using ext make_key_ext [of ?k] unfolding d by (auto simp: put_of_def key_action_def)
  next
    case unk
    then have "c \<notin> {0x3a, 0x1d, 0x2a, 0x36, 0x38, 0x9d, 0xe09d, 0xaa, 0xb6, 0xb8, 0xe0b8}" by auto
    then have "key_step c k = k" using unk(3,4) by (simp add: key_step_def flag_step_def)
    moreover have "key_char c k = 0" using unk by (auto simp: key_char_def)
    ultimately show ?thesis using unk unfolding d by (auto simp: put_of_def key_action_def)
  qed
  then show ?thesis by (simp add: c_def)
qed

lemma decode_prefix: "kbd_decode 0xe0 k = Inr (k\<lparr>ext_scancode := True\<rparr>, Nothing)"
  by (simp add: kbd_decode_def)

section \<open>Sequences of scan codes\<close>

fun kbd_run :: "u8 list \<Rightarrow> kbd \<Rightarrow> (kbd \<times> buf) res" where
  "kbd_run [] k = Inr (k, [])"
| "kbd_run (b # bs) k =
     bindE (kbd_decode b k) (\<lambda>(k1, act). bindE (kbd_run bs k1) (\<lambda>(k2, cs).
       Inr (k2, (case put_of act of Some c \<Rightarrow> c # cs | None \<Rightarrow> cs))))"

fun keys_flags :: "u16 list \<Rightarrow> kbd \<Rightarrow> kbd" where
  "keys_flags [] k = k"
| "keys_flags (c # cs) k = keys_flags cs (key_step c k)"

fun keys_text :: "u16 list \<Rightarrow> kbd \<Rightarrow> buf" where
  "keys_text [] k = []"
| "keys_text (c # cs) k =
     (if key_char c k \<noteq> 0 then [key_char c k] else []) @ keys_text cs (key_step c k)"

lemma keys_irrelevant [simp]:
  "keys_text cs (k\<lparr>ext_scancode := e\<rparr>) = keys_text cs k"
  "keys_flags cs (k\<lparr>ext_scancode := e\<rparr>) = (keys_flags cs k)\<lparr>ext_scancode := e\<rparr>"
  by (induction cs arbitrary: k) simp_all

lemma kbd_run_keys:
  "\<exists>e. kbd_run bs k = Inr ((keys_flags (merge_codes (ext_scancode k) bs) k)\<lparr>ext_scancode := e\<rparr>,
         keys_text (merge_codes (ext_scancode k) bs) k)"
proof (induction bs arbitrary: k)
  case Nil
  show ?case by (rule exI [of _ "ext_scancode k"]) simp
next
  case (Cons b bs)
  show ?case
  proof (cases "b = 0xe0")
    case True
    with Cons.IH [of "k\<lparr>ext_scancode := True\<rparr>"] show ?thesis by (auto simp: decode_prefix put_of_def)
  next
    case False
    let ?k = "(key_step (code_of b k) k)\<lparr>ext_scancode := False\<rparr>"
    obtain act where "kbd_decode b k = Inr (?k, act)" "put_of act = key_action (code_of b k) k"
      using decode_step [OF False] by blast
    with Cons.IH [of ?k] False show ?thesis by (auto simp: code_of_def key_action_def)
  qed
qed

lemma keys_flags_folds:
  "shift_status (keys_flags cs k) = foldl (flag_step {0x2a, 0x36} {0xaa, 0xb6}) (shift_status k) cs"
  "ctrl_status (keys_flags cs k) = foldl (flag_step {0x1d, 0xe01d} {0x9d, 0xe09d}) (ctrl_status k) cs"
  "alt_status (keys_flags cs k) = foldl (flag_step {0x38, 0xe038} {0xb8, 0xe0b8}) (alt_status k) cs"
  "caps_lock_status (keys_flags cs k) = (caps_lock_status k \<noteq> odd (count_list cs 0x3a))"
  by (induction cs arbitrary: k) (auto simp: key_step_def)

lemma keys_text_ascii: "c \<in> set (keys_text cs k) \<Longrightarrow> 0 < c \<and> c < 0x80"
proof (induction cs arbitrary: k)
  case (Cons d cs)
  have "key_char d k < 0x80" if "key_char d k \<noteq> 0"
    using that keymap_zero(3,4) [OF low_code(3)] by (auto simp: key_char_def split: if_splits)
  then show ?case using Cons by (auto simp: word_neq_0_conv split: if_splits)
qed simp

fun kbd_interrupts :: "u8 list \<Rightarrow> kbd \<times> ioqueue \<times> 'z kstate_scheme \<Rightarrow>
    (kbd \<times> ioqueue \<times> 'z kstate_scheme) res" where
  "kbd_interrupts [] h = Inr h"
| "kbd_interrupts (b # bs) h = bindE (intr_keyboard_handler b h) (\<lambda>(out, h1). kbd_interrupts bs h1)"

lemma handler_step:
  assumes "kbd_decode b k = Inr (k1, act)" and "ioq_rep (q, s) xs"
    and "length xs + length (case put_of act of None \<Rightarrow> [] | Some c \<Rightarrow> [c]) \<le> 63"
  shows "\<exists>out q1 s1. intr_keyboard_handler b (k, q, s) = Inr (out, k1, q1, s1) \<and>
           ioq_rep (q1, s1) (xs @ (case put_of act of None \<Rightarrow> [] | Some c \<Rightarrow> [c]))"
proof (cases act)
  case (Put_key c)
  with assms(3) have "length xs < 63" by (simp add: put_of_def)
  from ioq.put_rep [OF assms(2) this, of c] obtain q1 s1 where
    "ioq_putchar q c s = Inr (q1, s1)" "ioq_rep (q1, s1) (xs @ [c])" by (auto simp: kput_def)
  with assms(1) Put_key show ?thesis by (simp add: intr_keyboard_handler_def put_of_def)
qed (use assms in \<open>simp_all add: intr_keyboard_handler_def put_of_def\<close>)

lemma kbd_interrupts_ok:
  assumes "kbd_run bs k = Inr (k', cs)" and "ioq_rep (q, s) xs" and "length xs + length cs \<le> 63"
  shows "\<exists>q' s'. kbd_interrupts bs (k, q, s) = Inr (k', q', s') \<and> ioq_rep (q', s') (xs @ cs)"
  using assms
proof (induction bs arbitrary: k q s xs cs)
  case (Cons b bs)
  from Cons.prems(1) obtain k1 act k2 cs' where d: "kbd_decode b k = Inr (k1, act)"
    "kbd_run bs k1 = Inr (k2, cs')" "k' = k2" "cs = (case put_of act of Some c \<Rightarrow> c # cs' | None \<Rightarrow> cs')"
    by (auto simp: bindE_eq_Inr)
  let ?c = "case put_of act of None \<Rightarrow> [] | Some c \<Rightarrow> [c]"
  have cs: "cs = ?c @ cs'" using d(4) by (simp split: option.splits)
  with Cons.prems(3) have "length xs + length ?c \<le> 63" by simp
  from handler_step [OF d(1) Cons.prems(2) this] obtain out q1 s1 where
    h: "intr_keyboard_handler b (k, q, s) = Inr (out, k1, q1, s1)" "ioq_rep (q1, s1) (xs @ ?c)" by blast
  have "length (xs @ ?c) + length cs' \<le> 63" using Cons.prems(3) cs by simp
  from Cons.IH [OF d(2) [folded d(3)] h(2) this] h(1) d(1) cs show ?case by auto
qed simp

section \<open>Properties\<close>

text \<open>C37: decoding never fails, whatever bytes the keyboard sends: no row outside the table is
  read.  The flags are those of the keys: the last press or release of a shift, control or alt
  key decides, caps lock changes with every press of its key; every character is a non-zero
  ASCII code.\<close>

theorem keyboard_follows_the_keys:
  "\<exists>k'. kbd_run bs k = Inr (k', keys_text (merge_codes (ext_scancode k) bs) k) \<and>
     (let cs = merge_codes (ext_scancode k) bs in
      shift_status k' = foldl (flag_step {0x2a, 0x36} {0xaa, 0xb6}) (shift_status k) cs \<and>
      ctrl_status k' = foldl (flag_step {0x1d, 0xe01d} {0x9d, 0xe09d}) (ctrl_status k) cs \<and>
      alt_status k' = foldl (flag_step {0x38, 0xe038} {0xb8, 0xe0b8}) (alt_status k) cs \<and>
      caps_lock_status k' = (caps_lock_status k \<noteq> odd (count_list cs 0x3a)) \<and>
      (\<forall>c \<in> set (keys_text cs k). 0 < c \<and> c < 0x80))"
  using kbd_run_keys [of bs k] keys_text_ascii by (auto simp: Let_def keys_flags_folds)

definition demo_kbd :: kbd where
  "demo_kbd = \<lparr>ctrl_status = False, shift_status = False, alt_status = False,
     caps_lock_status = False, ext_scancode = False\<rparr>"

text \<open>Shift pressed, the key H, shift released, the key I.\<close>

theorem keyboard_follows_the_keys_witness:
  "\<exists>k'. kbd_run [0x2a, 0x23, 0xa3, 0xaa, 0x17] demo_kbd = Inr (k', [0x48, 0x69]) \<and> \<not> shift_status k'"
proof -
  have "keys_text (merge_codes (ext_scancode demo_kbd) [0x2a, 0x23, 0xa3, 0xaa, 0x17]) demo_kbd = [0x48, 0x69]"
    by (simp add: key_char_def key_step_def flag_step_def demo_kbd_def is_letter_def keymap_def)
  with keyboard_follows_the_keys [of "[0x2a, 0x23, 0xa3, 0xaa, 0x17]" demo_kbd]
  show ?thesis by (auto simp: Let_def demo_kbd_def flag_step_def simp del: kbd_run.simps keys_text.simps)
qed

text \<open>C29: typed text reaches the reader: the characters the keys stand for come out of the keyboard
  queue in the order typed, behind those that were waiting, as long as at most 63 wait.\<close>

theorem typed_text_reaches_the_reader:
  assumes "ioq_rep (q, s) xs" and "length xs + length (keys_text (merge_codes (ext_scancode k) bs) k) \<le> 63"
  shows "\<exists>k' q' s' h. kbd_interrupts bs (k, q, s) = Inr (k', q', s') \<and>
           get_all kget (length (xs @ keys_text (merge_codes (ext_scancode k) bs) k)) (q', s') =
             Inr (xs @ keys_text (merge_codes (ext_scancode k) bs) k, h) \<and> ioq_rep h []"
proof -
  let ?t = "keys_text (merge_codes (ext_scancode k) bs) k"
  obtain k' where "kbd_run bs k = Inr (k', ?t)" using kbd_run_keys [of bs k] by blast
  from kbd_interrupts_ok [OF this assms] obtain q' s' where
    i: "kbd_interrupts bs (k, q, s) = Inr (k', q', s')" "ioq_rep (q', s') (xs @ ?t)" by blast
  with ioq.get_all_rep [of "(q', s')" "xs @ ?t" "[]"] show ?thesis by auto
qed

theorem typed_text_reaches_the_reader_witness:
  "\<exists>k' q' s' h. kbd_interrupts [0x3a, 0xba, 0x23] (demo_kbd, demo_ioqueue, demo_ioq_kernel) = Inr (k', q', s') \<and>
     get_all kget 1 (q', s') = Inr ([0x48], h) \<and> ioq_rep h []"
proof -
  have "keys_text (merge_codes (ext_scancode demo_kbd) [0x3a, 0xba, 0x23]) demo_kbd = [0x48]"
    by (simp add: key_char_def key_step_def flag_step_def demo_kbd_def is_letter_def keymap_def)
  from typed_text_reaches_the_reader [OF demo_ioq_rep, of demo_kbd "[0x3a, 0xba, 0x23]", unfolded this]
  show ?thesis by (auto simp del: kbd_interrupts.simps get_all.simps)
qed

end
