(* ===== verification/Timer.thy ===== *)
theory Timer
  imports Sync Interrupt
begin

text \<open>
  \<open>time.c\<close>: the timer interrupt, the programming of the 8253 timer and sleeping.  The global
  \<open>ticks\<close> is a component beside the kernel state.  A thread that sleeps gives the processor away
  in every round of its loop: \<open>sleep_step\<close> are its steps, \<open>sleep_reach\<close> the runs in which they mix with
  timer interrupts and with what the other threads do to the scheduler.
\<close>

section \<open>The timer interrupt\<close>

text \<open>The result says whether \<open>schedule\<close> was called, that is, whether the interrupted thread lost
  the processor.\<close>

definition intr_time_handle :: "u32 \<times> 'z kstate_scheme \<Rightarrow> (bool \<times> u32 \<times> 'z kstate_scheme) res" where
  "intr_time_handle h =
     (let (global_ticks, s) = h; cur = running s in
      bindE (get_task cur s) (\<lambda>p.
      bindE (assertE (stack_magic p = 0x19980320)) (\<lambda>_.
      let p1 = p\<lparr>elapsed_ticks := elapsed_ticks p + 1\<rparr> in
      if ticks p1 = 0
      then bindE (schedule (set_task cur p1 s)) (\<lambda>s1. Inr (True, global_ticks + 1, s1))
      else Inr (False, global_ticks + 1, set_task cur (p1\<lparr>ticks := ticks p1 - 1\<rparr>) s))))"

section \<open>Programming the timer\<close>

text \<open>
  \<open>COUNTER0_VALUE\<close> is the text \<open>INPUT_FREQUENCY/IRQ0_FREQUENCY\<close> without parentheses: in
  \<open>(uint8_t)COUNTER0_VALUE\<close> the cast applies to \<open>INPUT_FREQUENCY\<close> alone.
\<close>

definition time_init :: "intr_handler list \<Rightarrow> ((u16 \<times> u8) list \<times> intr_handler list) res" where
  "time_init idt_table =
     (let control = word_of_int (push_bit 6 0 OR push_bit 4 2 OR push_bit 1 2 :: int) :: u8;
          low = word_of_int (uint (word_of_int 1193180 :: u8) div 100) :: u8;
          high = word_of_int (drop_bit 8 (1193180 div 100 :: int)) :: u8 in
      bindE (register_handler idt_table 0x20 Intr_time_handle) (\<lambda>t.
        Inr ([(0x43, control), (0x40, low), (0x40, high)], t)))"

section \<open>Sleeping\<close>

definition sleep_done :: "u32 \<Rightarrow> u32 \<Rightarrow> u32 \<Rightarrow> bool" where
  "sleep_done global_ticks start_tick sleep_ticks \<longleftrightarrow> \<not> global_ticks - start_tick < sleep_ticks"

datatype sleep_pc =
    At_while
  | At_yield
  | In_yield intr_status
  | Returned

text \<open>The frame of a call of \<open>ticks_to_sleep\<close>: the thread, the locals, the point it has reached.\<close>

record sleeper =
  s_thread :: u32
  s_start :: u32
  s_ticks :: u32
  s_pc :: sleep_pc

definition ticks_to_sleep :: "u32 \<Rightarrow> u32 \<times> 'z kstate_scheme \<Rightarrow> sleeper" where
  "ticks_to_sleep sleep_ticks h =
     (let (global_ticks, s) = h in
      \<lparr>s_thread = running s, s_start = global_ticks, s_ticks = sleep_ticks, s_pc = At_while\<rparr>)"

definition mtime_sleep :: "u32 \<Rightarrow> u32 \<times> 'z kstate_scheme \<Rightarrow> sleeper" where
  "mtime_sleep m_seconds h = ticks_to_sleep ((m_seconds + 10 - 1) div 10) h"

text \<open>
  The steps of the thread in the loop, when it has the processor: the test of the condition, \<open>thread_yield\<close> up
  to the switch, and the rest of \<open>thread_yield\<close> after the thread was switched to again.
\<close>

inductive sleep_step :: "sleeper \<times> u32 \<times> 'z kstate_scheme \<Rightarrow> sleeper \<times> u32 \<times> 'z kstate_scheme \<Rightarrow> bool" where
  tests: "running s = s_thread l \<Longrightarrow> s_pc l = At_while \<Longrightarrow>
    sleep_step (l, g, s) (l\<lparr>s_pc := if sleep_done g (s_start l) (s_ticks l) then Returned else At_yield\<rparr>, g, s)"
| yields: "running s = s_thread l \<Longrightarrow> s_pc l = At_yield \<Longrightarrow> thread_yield s = Inr (old, s') \<Longrightarrow>
    sleep_step (l, g, s) (l\<lparr>s_pc := In_yield old\<rparr>, g, s')"
| resumes: "running s = s_thread l \<Longrightarrow> s_pc l = In_yield old \<Longrightarrow>
    sleep_step (l, g, s) (l\<lparr>s_pc := At_while\<rparr>, g, thread_yield_resume old s)"

text \<open>
  What can be reached, with the number of timer interrupts on the way; they come at any point.  Unless
  the thread is \<open>alone\<close> with the timer, any other thread that has the processor may do any operation of
  the scheduler.
\<close>

inductive sleep_reach :: "bool \<Rightarrow> sleeper \<times> u32 \<times> 'z kstate_scheme \<Rightarrow> nat \<Rightarrow> sleeper \<times> u32 \<times> 'z kstate_scheme \<Rightarrow> bool"
  for alone c0 where
  entered: "sleep_reach alone c0 0 c0"
| moved: "sleep_reach alone c0 k c \<Longrightarrow> sleep_step c c' \<Longrightarrow> sleep_reach alone c0 k c'"
| ticked: "sleep_reach alone c0 k (l, h) \<Longrightarrow> intr_time_handle h = Inr (switched, h') \<Longrightarrow>
    sleep_reach alone c0 (Suc k) (l, h')"
| others: "sleep_reach alone c0 k (l, g, s) \<Longrightarrow> \<not> alone \<Longrightarrow> running s \<noteq> s_thread l \<Longrightarrow> kstep s s' \<Longrightarrow>
    sleep_reach alone c0 k (l, g, s')"

text \<open>How many steps of its own the thread still has to make once its time is up.\<close>

fun steps_left :: "sleep_pc \<Rightarrow> nat" where
  "steps_left At_yield = 3"
| "steps_left (In_yield old) = 2"
| "steps_left At_while = 1"
| "steps_left Returned = 0"

section \<open>Counting ticks\<close>

lemma timer_divisor_bytes:
  assumes "length idt_table = IDT_DESC_CNT"
  shows "time_init idt_table = Inr ([(0x43, 0x24), (0x40, 2), (0x40, 46)], idt_table[0x20 := Intr_time_handle])"
    and "drop_bit 4 (0x24 :: u8) AND 3 = 2" and "(1193180 div 100 :: nat) = 46 * 256 + 155"
  using assms by (simp_all add: time_init_def register_handler_def IDT_DESC_CNT_def)

lemma sleep_done_after:
  assumes "k < 2 ^ 32"
  shows "sleep_done (start + of_nat k) start n \<longleftrightarrow> unat n \<le> k"
  using assms by (simp add: sleep_done_def word_less_nat_alt unat_of_nat not_less)

lemma sleep_ticks_ceiling:
  assumes "unat m \<le> 2 ^ 32 - 10"
  shows "unat ((m + 10 - 1) div 10 :: u32) = (unat m + 9) div 10"
proof -
  have "unat (9 + m) = unat m + 9"
    using assms by (simp add: unat_word_ariths)
  moreover have "m + 10 - 1 = 9 + m" and "unat (10 :: u32) = 10" by simp_all
  ultimately show ?thesis unfolding unat_div by simp
qed

section \<open>Time slices\<close>

text \<open>Interrupts one after the other until one of them switches.\<close>

fun time_interrupts :: "nat \<Rightarrow> u32 \<times> 'z kstate_scheme \<Rightarrow> (nat \<times> u32 \<times> 'z kstate_scheme) res" where
  "time_interrupts 0 h = Inr (0, h)"
| "time_interrupts (Suc n) h =
     bindE (intr_time_handle h) (\<lambda>(switched, h1).
       if switched then Inr (1, h1) else bindE (time_interrupts n h1) (\<lambda>(k, h2). Inr (Suc k, h2)))"

lemma sched_ok_set_task:
  assumes "sched_ok phys s a" and "tasks s t = Some p" and "status p' = status p" and "pgdir p' = pgdir p"
  shows "sched_ok phys (set_task t p' s) a"
proof -
  have "spaces_ok phys ((tasks s)(t \<mapsto> p')) (cr3 s) (pmem s)"
    by (rule spaces_ok_retask [of "tasks s"]) (use assms in \<open>auto simp: sched_ok_def option.rel_refl\<close>)
  then show ?thesis using assms by (auto simp: sched_ok_def sched_abs_def fun_eq_iff)
qed

text \<open>The PCB after \<open>i\<close> interrupts of the slice.\<close>

definition after_ticks :: "nat \<Rightarrow> task_struct \<Rightarrow> task_struct" where
  "after_ticks i p = p\<lparr>elapsed_ticks := elapsed_ticks p + of_nat i, ticks := ticks p - of_nat i\<rparr>"

lemma time_interrupts_slice:
  assumes "tasks s (running s) = Some p" and "stack_magic p = 0x19980320" and "unat (ticks p) = n"
    and "schedule (set_task (running s) ((after_ticks n p)\<lparr>elapsed_ticks := elapsed_ticks p + of_nat (Suc n)\<rparr>) s) = Inr s'"
  shows "time_interrupts (Suc n) (g, s) = Inr (Suc n, g + of_nat (Suc n), s')"
  using assms
proof (induction n arbitrary: s p g)
  case 0
  then have z: "ticks p = 0" by (simp add: unat_eq_0)
  then have eq: "p\<lparr>ticks := 0, elapsed_ticks := e\<rparr> = p\<lparr>elapsed_ticks := e\<rparr>" for e
    by (cases p) simp
  show ?case using 0 z by (simp add: intr_time_handle_def Let_def after_ticks_def eq)
next
  case (Suc n)
  let ?r = "running s"
  let ?p = "p\<lparr>elapsed_ticks := elapsed_ticks p + 1, ticks := ticks p - 1\<rparr>"
  let ?s = "set_task ?r ?p s"
  have nz: "ticks p \<noteq> 0" using Suc.prems(3) by auto
  then have n: "unat (ticks p - 1) = n" using Suc.prems(3) by (simp add: unat_minus_one)
  have h: "intr_time_handle (g, s) = Inr (False, g + 1, ?s)"
    using Suc.prems(1,2) nz by (simp add: intr_time_handle_def Let_def)
  have eq: "(after_ticks n ?p)\<lparr>elapsed_ticks := elapsed_ticks ?p + of_nat (Suc n)\<rparr> =
      (after_ticks (Suc n) p)\<lparr>elapsed_ticks := elapsed_ticks p + of_nat (Suc (Suc n))\<rparr>"
    by (simp add: after_ticks_def algebra_simps)
  have "set_task ?r x ?s = set_task ?r x s" for x by (simp add: set_task_def)
  then have "time_interrupts (Suc n) (g + 1, ?s) = Inr (Suc n, g + 1 + of_nat (Suc n), s')"
    using Suc.IH [of ?s ?p "g + 1"] Suc.prems(2,4) n eq by simp
  then show ?case using h by (simp add: algebra_simps)
qed

lemma time_slice_switch:
  assumes "sched_ok phys s a" and "tasks s (running s) = Some p" and "stack_magic p = 0x19980320"
    and "n = unat (ticks p)"
  defines "p' \<equiv> (after_ticks n p)\<lparr>elapsed_ticks := elapsed_ticks p + of_nat (Suc n)\<rparr>"
  shows "\<exists>s'. time_interrupts (Suc n) (g, s) = Inr (Suc n, g + of_nat (Suc n), s') \<and>
           sched_ok phys s' (a_schedule (idle_thread s) a) \<and> kframe s s' \<and>
           tasks s' = retask (a_schedule (idle_thread s) a) ((tasks s)(running s \<mapsto> p'\<lparr>ticks := priority p\<rparr>))"
proof -
  let ?s = "set_task (running s) p' s"
  have ok: "sched_ok phys ?s a"
    by (rule sched_ok_set_task [OF assms(1,2)]) (simp_all add: after_ticks_def p'_def)
  note run = sched_ok_running [OF ok]
  from schedule_sched_ok [OF run(5,4,8)] obtain s' where
    s': "schedule ?s = Inr s'" "sched_ok phys s' (a_schedule (idle_thread ?s) a)" "kframe ?s s'"
    "tasks s' = retask (a_schedule (idle_thread ?s) a) (refill ?s)" by blast
  have "status p' = TASK_RUNNING"
    using run(2) sched_absD(2) [OF run(5)] by simp
  then have "refill ?s = (tasks s)(running s \<mapsto> p'\<lparr>ticks := priority p\<rparr>)"
    by (simp add: refill_def fun_eq_iff) (simp add: p'_def after_ticks_def)
  moreover have "time_interrupts (Suc n) (g, s) = Inr (Suc n, g + of_nat (Suc n), s')"
    using time_interrupts_slice [OF assms(2,3) assms(4) [symmetric]] s'(1) unfolding p'_def by blast
  moreover have "kframe s s'" using s'(3) by (simp add: kframe_def)
  ultimately show ?thesis using s' by auto
qed

text \<open>The running thread keeps the processor for as many timer interrupts as its \<open>ticks\<close> say and
  loses it at the next one: that one calls \<open>schedule\<close>, which refills the slice from the priority;
  \<open>elapsed_ticks\<close> and the global \<open>ticks\<close> count every interrupt, and the scheduler's invariant holds.\<close>

theorem time_slice:
  assumes "sched_ok phys s a" and "tasks s (running s) = Some p" and "stack_magic p = 0x19980320"
    and "n = unat (ticks p)"
  shows "\<exists>s' q. time_interrupts (Suc n) (g, s) = Inr (Suc n, g + of_nat (Suc n), s') \<and>
           sched_ok phys s' (a_schedule (idle_thread s) a) \<and> tasks s' (running s) = Some q \<and>
           ticks q = priority p \<and> elapsed_ticks q = elapsed_ticks p + of_nat (Suc n)"
proof -
  from time_slice_switch [OF assms, of g] show ?thesis by (auto simp: retask_def)
qed

theorem time_slice_witness:
  "\<exists>s'. time_interrupts 2 (7, demo_kernel) = Inr (2, 9, s') \<and> running s' = 0xc0100000"
proof -
  have t: "tasks demo_kernel (running demo_kernel) = Some (demo_task TASK_RUNNING)"
    by (simp add: demo_kernel_def)
  have "a_running (a_schedule (idle_thread demo_kernel) demo_asched) = 0xc0100000"
    by (simp add: a_schedule_def a_requeue_def a_idle_def a_dispatch_def demo_asched_def demo_kernel_def)
  with time_slice [OF demo_sched_ok t, of 1 7] show ?thesis
    by (auto simp: demo_task_def eval_nat_numeral sched_ok_def sched_abs_def simp del: time_interrupts.simps)
qed

section \<open>Slices one after the other\<close>

text \<open>Nothing but timer interrupts.\<close>

fun timer_run :: "nat \<Rightarrow> u32 \<times> 'z kstate_scheme \<Rightarrow> (u32 \<times> 'z kstate_scheme) res" where
  "timer_run 0 h = Inr h"
| "timer_run (Suc n) h = bindE (intr_time_handle h) (\<lambda>(switched, h1). timer_run n h1)"

lemma timer_run_add: "timer_run i h = Inr h1 \<Longrightarrow> timer_run (i + j) h = timer_run j h1"
  by (induction i arbitrary: h) (auto simp: res_simps)

lemma timer_run_slice: "time_interrupts n h = Inr (n, h') \<Longrightarrow> timer_run n h = Inr h'"
  by (induction n arbitrary: h) (auto simp: res_simps split: if_splits)

definition stacks_ok :: "'z kstate_scheme \<Rightarrow> bool" where
  "stacks_ok s \<longleftrightarrow> (\<forall>t p. tasks s t = Some p \<longrightarrow> stack_magic p = 0x19980320)"

text \<open>The threads that take turns, the running one first.\<close>

definition a_turns :: "asched \<Rightarrow> u32 list" where
  "a_turns a = a_running a # a_ready a"

lemma a_turns_schedule: "a_inv idle a \<Longrightarrow> a_turns (a_schedule idle a) = rotate1 (a_turns a)"
  by (simp add: a_turns_def a_schedule_def a_requeue_def a_inv_def a_idle_def a_dispatch_def)

lemma slice_turn:
  assumes "sched_ok phys s a" and "stacks_ok s"
  shows "\<exists>j s'. 1 \<le> j \<and> j \<le> 256 \<and> timer_run j (g, s) = Inr (g + of_nat j, s') \<and> stacks_ok s' \<and>
           sched_ok phys s' (a_schedule (idle_thread s) a) \<and> a_turns (a_schedule (idle_thread s) a) = rotate1 (a_turns a)"
proof -
  note run = sched_ok_running [OF assms(1)]
  obtain p where p: "tasks s (running s) = Some p"
    using sched_absD(2) [OF run(5), of "running s"] run(2) by (cases "tasks s (running s)") auto
  then have "stack_magic p = 0x19980320" using assms(2) by (simp add: stacks_ok_def)
  from time_slice_switch [OF assms(1) p this refl, of g] obtain s' where
    s': "time_interrupts (Suc (unat (ticks p))) (g, s) = Inr (Suc (unat (ticks p)), g + of_nat (Suc (unat (ticks p))), s')"
    "sched_ok phys s' (a_schedule (idle_thread s) a)"
    "tasks s' = retask (a_schedule (idle_thread s) a) ((tasks s)(running s \<mapsto>
       (after_ticks (unat (ticks p)) p)\<lparr>elapsed_ticks := elapsed_ticks p + of_nat (Suc (unat (ticks p))), ticks := priority p\<rparr>))"
    by blast
  have "stacks_ok s'"
    using assms(2) p unfolding stacks_ok_def s'(3) by (auto simp: retask_def after_ticks_def)
  moreover have "unat (ticks p) < 256" using unsigned_less [of "ticks p"] by simp
  ultimately show ?thesis
    using timer_run_slice [OF s'(1)] s'(2) a_turns_schedule [OF run(7)]
    by (intro exI [of _ "Suc (unat (ticks p))"] exI [of _ s']) simp
qed

lemma slices_turn:
  "sched_ok phys s a \<Longrightarrow> stacks_ok s \<Longrightarrow>
   \<exists>j s' a'. n \<le> j \<and> j \<le> 256 * n \<and> timer_run j (g, s) = Inr (g + of_nat j, s') \<and> stacks_ok s' \<and>
     sched_ok phys s' a' \<and> a_turns a' = rotate n (a_turns a)"
proof (induction n arbitrary: s a g)
  case (Suc n)
  let ?a = "a_schedule (idle_thread s) a"
  obtain j s1 where
    j: "1 \<le> j" "j \<le> 256" "timer_run j (g, s) = Inr (g + of_nat j, s1)" "stacks_ok s1"
      "sched_ok phys s1 ?a" "a_turns ?a = rotate1 (a_turns a)"
    using slice_turn [OF Suc.prems, of g] by blast
  obtain i s' a' where
    i: "n \<le> i" "i \<le> 256 * n" "timer_run i (g + of_nat j, s1) = Inr (g + of_nat j + of_nat i, s')" "stacks_ok s'"
      "sched_ok phys s' a'" "a_turns a' = rotate n (a_turns ?a)"
    using Suc.IH [OF j(5,4), of "g + of_nat j"] by blast
  have "timer_run (j + i) (g, s) = Inr (g + of_nat (j + i), s')"
    using timer_run_add [OF j(3), of i] i(3) by (simp add: add.assoc)
  then show ?case using i j(1,2,6)
    by (intro exI [of _ "j + i"] exI [of _ s'] exI [of _ a']) (simp add: rotate1_rotate_swap)
qed (intro exI [of _ 0], simp, blast)

text \<open>A thread that takes turns has one after a full round.\<close>

lemma next_turn:
  assumes "sched_ok phys s a" and "stacks_ok s" and "r \<in> set (a_turns a)"
  shows "\<exists>j s' a'. 1 \<le> j \<and> j \<le> 256 * length (a_turns a) \<and> timer_run j (g, s) = Inr (g + of_nat j, s') \<and>
           stacks_ok s' \<and> sched_ok phys s' a' \<and> set (a_turns a') = set (a_turns a) \<and>
           length (a_turns a') = length (a_turns a) \<and> running s' = r"
proof -
  let ?q = "a_turns a"
  obtain i where i: "i < length ?q" "?q ! i = r" using assms(3) by (auto simp: in_set_conv_nth)
  define n where "n = (if i = 0 then length ?q else i)"
  have n: "1 \<le> n" "n \<le> length ?q" "?q ! (n mod length ?q) = r" using i by (auto simp: n_def)
  obtain j s' a' where
    j: "n \<le> j" "j \<le> 256 * n" "timer_run j (g, s) = Inr (g + of_nat j, s')" "stacks_ok s'" "sched_ok phys s' a'"
      "a_turns a' = rotate n ?q" using slices_turn [OF assms(1,2), of n g] by blast
  have "hd (a_turns a') = r" unfolding j(6) using hd_rotate_conv_nth [of ?q n] n(3) by (simp add: a_turns_def)
  then have "running s' = r" using sched_ok_running(1) [OF j(5)] by (simp add: a_turns_def)
  moreover have "j \<le> 256 * length ?q" using j(2) n(2) by linarith
  ultimately show ?thesis using j n(1) by (intro exI [of _ j] exI [of _ s'] exI [of _ a']) auto
qed

lemma turn_in_time:
  "sched_ok phys s a \<Longrightarrow> stacks_ok s \<Longrightarrow> r \<in> set (a_turns a) \<Longrightarrow> length (a_turns a) = n \<Longrightarrow>
   \<exists>j s' a'. d \<le> j \<and> j \<le> d + 256 * n \<and> timer_run j (g, s) = Inr (g + of_nat j, s') \<and>
     sched_ok phys s' a' \<and> stacks_ok s' \<and> running s' = r \<and> set (a_turns a') = set (a_turns a) \<and> length (a_turns a') = n"
proof (induction d arbitrary: s a g rule: less_induct)
  case (less d)
  obtain j s1 a1 where
    j: "1 \<le> j" "j \<le> 256 * n" "timer_run j (g, s) = Inr (g + of_nat j, s1)" "stacks_ok s1" "sched_ok phys s1 a1"
      "set (a_turns a1) = set (a_turns a)" "length (a_turns a1) = n" "running s1 = r"
    using next_turn [OF less.prems(1-3), of g] less.prems(4) by auto
  show ?case
  proof (cases "d \<le> j")
    case True
    then show ?thesis using j by (intro exI [of _ j] exI [of _ s1] exI [of _ a1]) simp
  next
    case False
    have "d - j < d" "r \<in> set (a_turns a1)" using False j(1,6) less.prems(3) by simp_all
    from less.IH [OF this(1) j(5,4) this(2) j(7), of "g + of_nat j"] obtain i s' a' where
      i: "d - j \<le> i" "i \<le> d - j + 256 * n" "timer_run i (g + of_nat j, s1) = Inr (g + of_nat j + of_nat i, s')"
        "sched_ok phys s' a'" "stacks_ok s'" "running s' = r" "set (a_turns a') = set (a_turns a1)" "length (a_turns a') = n" by blast
    have "timer_run (j + i) (g, s) = Inr (g + of_nat (j + i), s')"
      using timer_run_add [OF j(3), of i] i(3) by (simp add: add.assoc)
    moreover have "d \<le> j + i" "j + i \<le> d + 256 * n" using i(1,2) False by linarith+
    ultimately show ?thesis using i(4-8) j(6) by blast
  qed
qed

lemma queue_same_members:
  assumes "queue s l xs" and "queue s l ys"
  shows "set xs = set ys" and "length xs = length ys"
proof -
  show eq: "set xs = set ys" using q_find_ok [OF assms(1)] q_find_ok [OF assms(2)] by auto
  show "length xs = length ys"
    using distinct_card [OF queue_distinct [OF assms(1)]] distinct_card [OF queue_distinct [OF assms(2)]] eq by simp
qed

section \<open>What sleeping keeps\<close>

text \<open>A thread that takes turns keeps taking turns whatever the others do with the scheduler.\<close>

definition takes_turns :: "u32 \<Rightarrow> asched \<Rightarrow> bool" where
  "takes_turns r a \<longleftrightarrow> a_status a r = Some TASK_READY \<or> a_status a r = Some TASK_RUNNING"

lemma takes_turns_schedule: "a_pre idle a \<Longrightarrow> takes_turns r a \<Longrightarrow> takes_turns r (a_schedule idle a)"
  using a_schedule_status [of idle a r] by (auto simp: takes_turns_def)

lemma takes_turns_member:
  assumes "sched_ok phys s a" and "takes_turns r a"
  shows "r \<in> set (a_turns a)"
  using sched_ok_running [OF assms(1)] assms(2) by (auto simp: takes_turns_def a_turns_def a_pre_def)

lemma kstep_takes_turns:
  assumes "kstep s s'" and "sched_ok phys s a" and "running s \<noteq> r" and "takes_turns r a"
  shows "\<exists>a'. sched_ok phys s' a' \<and> takes_turns r a'"
  using assms(1)
proof (cases rule: kstep.cases)
  case preempt
  note run = sched_ok_running [OF assms(2)]
  from schedule_sched_ok [OF run(5,4,8)] preempt takes_turns_schedule [OF run(4) assms(4)]
  show ?thesis by auto
next
  case (yields old)
  from thread_yield_sched_ok [OF assms(2)] yields
    takes_turns_schedule [OF sched_ok_running(4) [OF assms(2)] assms(4)]
  show ?thesis by auto
next
  case (blocks st old)
  note sl = thread_block_Inr [OF blocks] and run = sched_ok_running [OF assms(2)]
  have "takes_turns r (a_set (a_running a) st a)"
    using assms(3,4) run(1) by (simp add: takes_turns_def a_set_def)
  then have "takes_turns r (a_block (idle_thread s) st a)"
    using takes_turns_schedule [OF a_block_inv(1) [OF run(7) sl]] by (simp add: a_block_def)
  with thread_block_sched_ok [OF assms(2) sl] blocks show ?thesis by auto
next
  case (unblocks t)
  from thread_unblock_Inr [OF unblocks] obtain p where "tasks s t = Some p" "sleeping (status p)"
    by blast
  moreover have "takes_turns r (a_wake t a)" using assms(4) by (simp add: takes_turns_def a_wake_def)
  ultimately show ?thesis using thread_unblock_sched_ok [OF assms(2)] unblocks by fastforce
next
  case (resumes st)
  then have "sched_ok phys s' a" using assms(2) set_status_form [of st s] sched_ok_flags by fastforce
  with assms(4) show ?thesis by blast
qed

lemma intr_time_handle_ok:
  assumes "intr_time_handle (g, s) = Inr (switched, g', s')" and "sched_ok phys s a" and "takes_turns r a"
  shows "g' = g + 1 \<and> (\<exists>a'. sched_ok phys s' a' \<and> takes_turns r a')"
proof -
  let ?r = "running s"
  obtain p where p: "tasks s ?r = Some p"
    and h: "if ticks p = 0 then schedule (set_task ?r (p\<lparr>elapsed_ticks := elapsed_ticks p + 1\<rparr>) s) = Inr s'
            else s' = set_task ?r (p\<lparr>elapsed_ticks := elapsed_ticks p + 1, ticks := ticks p - 1\<rparr>) s"
    and g: "g' = g + 1"
    using assms(1) by (auto simp: intr_time_handle_def Let_def res_simps get_task_eq split: if_splits)
  have ok: "sched_ok phys (set_task ?r q s) a" if "status q = status p" "pgdir q = pgdir p" for q
    by (rule sched_ok_set_task [OF assms(2) p that])
  show ?thesis
  proof (cases "ticks p = 0")
    case True
    let ?s = "set_task ?r (p\<lparr>elapsed_ticks := elapsed_ticks p + 1\<rparr>) s"
    have o: "sched_ok phys ?s a" by (rule ok) simp_all
    note run = sched_ok_running [OF o]
    from schedule_sched_ok [OF run(5,4,8)] h True takes_turns_schedule [OF run(4) assms(3)] g
    show ?thesis by auto
  next
    case False
    have "sched_ok phys (set_task ?r (p\<lparr>elapsed_ticks := elapsed_ticks p + 1, ticks := ticks p - 1\<rparr>) s) a"
      by (rule ok) simp_all
    then show ?thesis using h False assms(3) g by auto
  qed
qed

text \<open>What holds on the way: the locals, the count of interrupts in the global \<open>ticks\<close>, the thread taking
  turns until it returns, and that it returns only when its time is up.\<close>

definition sleep_inv :: "(u32 \<Rightarrow> u32) \<Rightarrow> u32 \<Rightarrow> u32 \<Rightarrow> u32 \<Rightarrow> nat \<Rightarrow> sleeper \<times> u32 \<times> 'z kstate_scheme \<Rightarrow> bool" where
  "sleep_inv phys r g0 n k c \<longleftrightarrow>
     (let (l, g, s) = c in
      s_thread l = r \<and> s_start l = g0 \<and> s_ticks l = n \<and> g = g0 + of_nat k \<and>
      (\<exists>a. sched_ok phys s a \<and> takes_turns r a) \<and>
      (s_pc l = Returned \<longrightarrow> (\<exists>i \<le> k. sleep_done (g0 + of_nat i) g0 n)))"

lemma sleep_step_inv:
  assumes "sleep_step c c'"
  shows "sleep_inv phys r g0 n k c \<Longrightarrow> sleep_inv phys r g0 n k c'"
  using assms
proof (induction rule: sleep_step.induct)
  case (tests s l g)
  then show ?case by (auto simp: sleep_inv_def)
next
  case (yields s l old s' g)
  then obtain a where a: "sched_ok phys s a" "takes_turns r a" by (auto simp: sleep_inv_def)
  with thread_yield_sched_ok [OF a(1)] takes_turns_schedule [OF sched_ok_running(4) [OF a(1)] a(2)] yields.hyps(3)
  have "\<exists>a'. sched_ok phys s' a' \<and> takes_turns r a'" by auto
  with yields.prems show ?case by (auto simp: sleep_inv_def)
next
  case (resumes s l old g)
  then show ?case
    using set_status_form [of old s] sched_ok_flags by (fastforce simp: sleep_inv_def thread_yield_resume_def)
qed

lemma sleep_reach_inv:
  "sleep_reach alone c0 k c \<Longrightarrow> sleep_inv phys r g0 n 0 c0 \<Longrightarrow> sleep_inv phys r g0 n k c"
proof (induction rule: sleep_reach.induct)
  case (moved k c c')
  then show ?case using sleep_step_inv by blast
next
  case (ticked k l h switched h')
  obtain g s g' s' where h: "h = (g, s)" "h' = (g', s')" by (metis surj_pair)
  from ticked h have i: "sleep_inv phys r g0 n k (l, g, s)" by simp
  then obtain a where "sched_ok phys s a" "takes_turns r a" by (auto simp: sleep_inv_def)
  from intr_time_handle_ok [OF ticked.hyps(2) [unfolded h] this] i h(2) show ?case
    by (auto simp: sleep_inv_def intro: le_SucI)
next
  case (others k l g s s')
  then show ?case using kstep_takes_turns [of s s'] by (fastforce simp: sleep_inv_def)
qed

lemma sleep_reach_run:
  "timer_run j h = Inr h' \<Longrightarrow> sleep_reach alone c0 k (l, h) \<Longrightarrow> sleep_reach alone c0 (k + j) (l, h')"
proof (induction j arbitrary: h k)
  case (Suc j)
  from Suc.prems(1) obtain sw h1 where h1: "intr_time_handle h = Inr (sw, h1)" "timer_run j h1 = Inr h'"
    by (auto simp: res_simps)
  from Suc.IH [OF h1(2) sleep_reach.ticked [OF Suc.prems(2) h1(1)]] show ?case by simp
qed simp

text \<open>The thread has the processor and its time is up: it returns, at once or after one more round of the others.\<close>

lemma sleep_reach_leaves:
  assumes "sleep_reach alone c0 k (l, g, s)" and "running s = s_thread l" and "s_pc l = At_while \<or> s_pc l = In_yield old"
    and "sleep_done g (s_start l) (s_ticks l)"
  shows "\<exists>s'. sleep_reach alone c0 k (l\<lparr>s_pc := Returned\<rparr>, g, s')"
proof -
  have go: "\<exists>s'. sleep_reach alone c0 k (l'\<lparr>s_pc := Returned\<rparr>, g, s')"
    if "sleep_reach alone c0 k (l', g, s1)" "running s1 = s_thread l'" "s_pc l' = At_while"
      "sleep_done g (s_start l') (s_ticks l')" for l' s1
    using sleep_reach.moved [OF that(1) sleep_step.tests [OF that(2,3)]] that(4) by auto
  from assms(3) show ?thesis
  proof
    assume "s_pc l = At_while"
    then show ?thesis using go [OF assms(1,2)] assms(4) by simp
  next
    assume at: "s_pc l = In_yield old"
    have "sleep_reach alone c0 k (l\<lparr>s_pc := At_while\<rparr>, g, thread_yield_resume old s)"
      by (rule sleep_reach.moved [OF assms(1) sleep_step.resumes [OF assms(2) at]])
    moreover have "running (thread_yield_resume old s) = running s"
      using set_status_form [of old s] by (auto simp: thread_yield_resume_def)
    ultimately show ?thesis using go [of "l\<lparr>s_pc := At_while\<rparr>"] assms(2,4) by simp
  qed
qed

lemma yield_turns:
  assumes "sched_ok phys s a" and "stacks_ok s"
  shows "\<exists>old s' a'. thread_yield s = Inr (old, s') \<and> sched_ok phys s' a' \<and> stacks_ok s' \<and> a_turns a' = rotate1 (a_turns a)"
proof -
  from thread_yield_sched_ok [OF assms(1)] obtain s' where
    s': "thread_yield s = Inr (intr_get_status s, s')" "sched_ok phys s' (a_schedule (idle_thread s) a)"
    "tasks s' = retask (a_schedule (idle_thread s) a) (tasks s)" by blast
  moreover have "stacks_ok s'" using assms(2) unfolding stacks_ok_def s'(3) by (auto simp: retask_def)
  ultimately show ?thesis using a_turns_schedule [OF sched_ok_running(7) [OF assms(1)]] by blast
qed

lemma sleep_reach_returns:
  assumes "sched_ok phys s a" and "stacks_ok s" and "s_thread l \<in> set (a_turns a)" and "length (a_turns a) = n"
    and "s_pc l \<noteq> Returned"
    and "\<forall>j. d \<le> j \<and> j \<le> d + 512 * n \<longrightarrow> sleep_done (g + of_nat j) (s_start l) (s_ticks l)"
  shows "\<exists>j g' s'. sleep_reach alone (l, g, s) j (l\<lparr>s_pc := Returned\<rparr>, g', s') \<and> j \<le> d + 512 * n"
proof -
  obtain j s1 a1 where j: "d \<le> j" "j \<le> d + 256 * n" "timer_run j (g, s) = Inr (g + of_nat j, s1)"
    "sched_ok phys s1 a1" "stacks_ok s1" "running s1 = s_thread l" "set (a_turns a1) = set (a_turns a)" "length (a_turns a1) = n"
    using turn_in_time [OF assms(1-4), of d g] by blast
  have r: "sleep_reach alone (l, g, s) j (l, g + of_nat j, s1)"
    using sleep_reach_run [OF j(3) sleep_reach.entered] by simp
  show ?thesis
  proof (cases "s_pc l = At_yield")
    case False
    then have "s_pc l = At_while \<or> (\<exists>old. s_pc l = In_yield old)" using assms(5) by (cases "s_pc l") auto
    then obtain old where "s_pc l = At_while \<or> s_pc l = In_yield old" by auto
    from sleep_reach_leaves [OF r j(6) this] assms(6) j(1,2) show ?thesis by fastforce
  next
    case True
    obtain old s2 a2 where y: "thread_yield s1 = Inr (old, s2)" "sched_ok phys s2 a2" "stacks_ok s2"
      "a_turns a2 = rotate1 (a_turns a1)" using yield_turns [OF j(4,5)] by blast
    let ?l = "l\<lparr>s_pc := In_yield old\<rparr>"
    have r2: "sleep_reach alone (l, g, s) j (?l, g + of_nat j, s2)"
      by (rule sleep_reach.moved [OF r sleep_step.yields [OF j(6) True y(1)]])
    have "s_thread l \<in> set (a_turns a2)" using y(4) j(7) assms(3) by simp
    from next_turn [OF y(2,3) this, of "g + of_nat j"] obtain i s3 where
      i: "i \<le> 256 * n" "timer_run i (g + of_nat j, s2) = Inr (g + of_nat j + of_nat i, s3)" "running s3 = s_thread l"
      using y(4) j(8) by auto
    have r3: "sleep_reach alone (l, g, s) (j + i) (?l, g + of_nat (j + i), s3)"
      using sleep_reach_run [OF i(2) r2] by (simp add: add.assoc)
    have le: "d \<le> j + i" "j + i \<le> d + 512 * n" using j(1,2) i(1) by linarith+
    have "\<exists>s'. sleep_reach alone (l, g, s) (j + i) (?l\<lparr>s_pc := Returned\<rparr>, g + of_nat (j + i), s')"
      by (rule sleep_reach_leaves [OF r3]) (use i(3) le assms(6) in auto)
    then show ?thesis using le(2) by auto
  qed
qed

section \<open>Properties\<close>

text \<open>C34: \<open>mtime_sleep\<close> returns, and not too early.  Let a thread call it, and let timer interrupts, and
  operations of the scheduler by the other threads while they have the processor, come in any order; \<open>k\<close>
  counts the interrupts.  Then (1) if the call has returned, the time asked for has passed, at ten milliseconds
  per interrupt; (2) until it returns the thread is running or in the ready list, and its next step
  is possible whenever it has the processor: no assertion of \<open>thread_yield\<close> fails; (3) once the time
  has passed, every step of the thread brings the return nearer, so that at most three are left;
  (4) the timer and the thread alone bring the return about, at the latest 512 interrupts per thread that
  takes turns after the time has passed.  The call starts in a state of the scheduler's invariant, no
  stack has lost its magic number, and the wrap-around of \<open>ticks\<close> does not matter as long as fewer than
  \<open>2 ^ 32\<close> interrupts come during the call.\<close>

theorem mtime_sleep_returns:
  assumes "sched_ok phys s0 a0" and "sleep_reach False (mtime_sleep m (g0, s0), g0, s0) k (l, g, s)"
    and "unat m \<le> 2 ^ 32 - 10" and "stacks_ok s" and "queue s Thread_ready_list (map General_tag rs)"
    and "max k ((unat m + 9) div 10) + 512 * Suc (length rs) < 2 ^ 32"
  shows "(s_pc l = Returned \<longrightarrow> unat m \<le> 10 * k) \<and>
         (s_pc l \<noteq> Returned \<longrightarrow> running s0 \<in> set (running s # rs) \<and>
            (running s = running s0 \<longrightarrow> (\<exists>c. sleep_step (l, g, s) c))) \<and>
         (\<forall>l' g' s'. unat m \<le> 10 * k \<and> sleep_step (l, g, s) (l', g', s') \<longrightarrow> steps_left (s_pc l') < steps_left (s_pc l)) \<and>
         (s_pc l \<noteq> Returned \<longrightarrow>
            (\<exists>j g' s'. sleep_reach True (l, g, s) j (l\<lparr>s_pc := Returned\<rparr>, g', s') \<and>
               k + j \<le> max k ((unat m + 9) div 10) + 512 * Suc (length rs)))"
proof -
  let ?n = "(m + 10 - 1) div 10 :: u32" and ?t = "(unat m + 9) div 10" and ?r = "running s0"
  have n: "unat ?n = ?t" by (rule sleep_ticks_ceiling [OF assms(3)])
  have up: "unat m \<le> 10 * i \<longleftrightarrow> ?t \<le> i" for i by arith
  have over: "sleep_done (g0 + of_nat i) g0 ?n \<longleftrightarrow> unat m \<le> 10 * i" if "i < 2 ^ 32" for i
    using sleep_done_after [OF that, of g0 ?n] n up by simp
  have "takes_turns ?r a0" using sched_ok_running(2) [OF assms(1)] by (simp add: takes_turns_def)
  then have "sleep_inv phys ?r g0 ?n 0 (mtime_sleep m (g0, s0), g0, s0)"
    using assms(1) by (auto simp: sleep_inv_def mtime_sleep_def ticks_to_sleep_def)
  from sleep_reach_inv [OF assms(2) this] obtain a where
    l: "s_thread l = ?r" "s_start l = g0" "s_ticks l = ?n" "g = g0 + of_nat k"
    and a: "sched_ok phys s a" "takes_turns ?r a"
    and ret: "s_pc l = Returned \<Longrightarrow> \<exists>i \<le> k. sleep_done (g0 + of_nat i) g0 ?n"
    by (auto simp: sleep_inv_def)
  have k: "i < 2 ^ 32" if "i \<le> k" for i using assms(6) that by simp
  have 1: "unat m \<le> 10 * k" if "s_pc l = Returned"
    using ret [OF that] over k by (meson le_trans mult_le_mono2)
  have 2: "\<exists>c. sleep_step (l, g, s) c" if "running s = ?r" "s_pc l \<noteq> Returned"
    using that thread_yield_sched_ok [OF a(1)] l(1) by (cases "s_pc l") (metis sleep_step.intros)+
  have 3: "steps_left (s_pc l') < steps_left (s_pc l)" if "unat m \<le> 10 * k" "sleep_step (l, g, s) (l', g', s')" for l' g' s'
    using that(2,1) over [OF k [of k]] by (cases rule: sleep_step.cases) (simp_all add: l)
  have q: "queue s Thread_ready_list (map General_tag (a_ready a))"
    using sched_absD(1) [OF sched_ok_running(5) [OF a(1)]] .
  from queue_same_members [OF q assms(5)] have mem: "set (map General_tag (a_ready a)) = set (map General_tag rs)"
    "length (map General_tag (a_ready a)) = length (map General_tag rs)" .
  then have turns: "set (a_turns a) = set (running s # rs)" "length (a_turns a) = Suc (length rs)"
    using sched_ok_running(1) [OF a(1)] inj_image_eq_iff [of General_tag "set (a_ready a)" "set rs"]
    by (simp_all add: a_turns_def inj_on_def)
  note r = takes_turns_member [OF a]
  have over2: "sleep_done (g + of_nat j) (s_start l) (s_ticks l)"
    if "?t - k \<le> j" "j \<le> ?t - k + 512 * Suc (length rs)" for j
  proof -
    have b: "k + j < 2 ^ 32" "?t \<le> k + j" using assms(6) that by linarith+
    from over [OF b(1)] show ?thesis using b(2) up by (simp add: l add.assoc)
  qed
  have 4: "\<exists>j g' s'. sleep_reach True (l, g, s) j (l\<lparr>s_pc := Returned\<rparr>, g', s') \<and>
      k + j \<le> max k ?t + 512 * Suc (length rs)" if pc: "s_pc l \<noteq> Returned"
  proof -
    obtain j g' s' where "sleep_reach True (l, g, s) j (l\<lparr>s_pc := Returned\<rparr>, g', s')" "j \<le> ?t - k + 512 * Suc (length rs)"
      using sleep_reach_returns [OF a(1) assms(4) _ turns(2) pc, of "?t - k" g True] r l(1) over2 by auto
    moreover from this(2) have "k + j \<le> max k ?t + 512 * Suc (length rs)" by linarith
    ultimately show ?thesis by blast
  qed
  from 1 2 3 4 r turns(1) show ?thesis by blast
qed

text \<open>The main thread asks for 15 milliseconds just before \<open>ticks\<close> wraps around; it has found that the time
  is not up and yielded once.\<close>

theorem mtime_sleep_returns_witness:
  "\<exists>old s j l g s'. thread_yield demo_kernel = Inr (old, s) \<and>
     sleep_reach True ((mtime_sleep 15 (0xffffffff, demo_kernel))\<lparr>s_pc := In_yield old\<rparr>, 0xffffffff, s) j (l, g, s') \<and>
     s_pc l = Returned \<and> j \<le> 1026"
proof -
  let ?c = "(mtime_sleep 15 (0xffffffff, demo_kernel), 0xffffffff, demo_kernel)"
  let ?l = "mtime_sleep 15 (0xffffffff, demo_kernel)"
  have "stacks_ok demo_kernel" by (auto simp: stacks_ok_def demo_kernel_def demo_task_def split: if_splits)
  from yield_turns [OF demo_sched_ok this] obtain old s a' where
    y: "thread_yield demo_kernel = Inr (old, s)" "sched_ok (\<lambda>_. 0) s a'" "stacks_ok s" "a_turns a' = rotate1 (a_turns demo_asched)"
    by blast
  have ready: "a_ready a' = [0xc009e000]" using y(4) by (simp add: a_turns_def demo_asched_def)
  have "(15 :: u32) + 10 - 1 = 24" "(24 :: u32) div 10 = 2" by simp_all
  then have l: "\<not> sleep_done 0xffffffff (s_start ?l) (s_ticks ?l)" "s_pc ?l = At_while" "running demo_kernel = s_thread ?l"
    by (simp_all add: mtime_sleep_def ticks_to_sleep_def sleep_done_def)
  have "sleep_reach False ?c 0 (?l\<lparr>s_pc := At_yield\<rparr>, 0xffffffff, demo_kernel)"
    using sleep_reach.moved [OF sleep_reach.entered sleep_step.tests [OF l(3,2), of "0xffffffff"]] unfolding if_not_P [OF l(1)] .
  from sleep_reach.moved [OF this sleep_step.yields [OF _ _ y(1)]] l(3)
  have r: "sleep_reach False ?c 0 (?l\<lparr>s_pc := In_yield old\<rparr>, 0xffffffff, s)" by simp
  have "queue s Thread_ready_list (map General_tag [0xc009e000])"
    using sched_absD(1) [OF sched_ok_running(5) [OF y(2)]] ready by simp
  from mtime_sleep_returns [OF demo_sched_ok r _ y(3) this] y(1) show ?thesis by fastforce
qed

end
