(* ===== verification/Stdio.thy ===== *)
theory Stdio
  imports IOQueue
begin

text \<open>
  \<open>lib/stdio.c\<close> and \<open>lib/kernel/stdio_kernel.c\<close>: formatted output.  The buffer written is a byte
  list, the position in it what \<open>buf_ptr\<close> points to; the arguments behind \<open>format\<close> on the stack
  are a list of words, reading more than there are is out of bounds.  \<open>mem\<close> gives the objects the
  pointers among them point to.
\<close>

section \<open>Numbers\<close>

definition digit_char :: "u32 \<Rightarrow> u8" where
  "digit_char m = (if m < 10 then ucast (m + 0x30) else ucast (m - 10 + 0x61))"

lemma unat_ucast_byte: "unat (ucast (c :: u8) :: u32) = unat c"
proof -
  have "unat c < 2 ^ LENGTH(8)" by (rule unsigned_less)
  then show ?thesis by (simp add: unsigned_ucast_eq take_bit_nat_eq_self)
qed

lemma quotient_decreases:
  assumes "base \<noteq> 0" and "base = 1 \<longrightarrow> val = 0" and "val div ucast base \<noteq> 0"
  shows "unat (val div ucast (base :: u8) :: u32) < unat val"
proof -
  have v: "val \<noteq> 0" using assms(3) by auto
  with assms(1,2) have "unat base \<noteq> 0" "unat base \<noteq> 1" by (auto simp: word_unat_eq_iff)
  then have "1 < unat base" by simp
  then show ?thesis using v by (simp add: unat_div unat_ucast_byte div_less_dividend unat_gt_0)
qed

text \<open>Base 0 is a division by zero; base 1 never gets smaller.\<close>

function itoa :: "u32 \<Rightarrow> buf \<Rightarrow> nat \<Rightarrow> u8 \<Rightarrow> (buf \<times> nat) res" where
  "itoa val b pos base =
     (if base = 0 then Inl OutOfBounds
      else if base = 1 \<and> val \<noteq> 0 then Inl Hang
      else
        let m = val mod ucast base; i = val div ucast base in
        bindE (if i \<noteq> 0 then itoa i b pos base else Inr (b, pos)) (\<lambda>(b1, pos1).
        bindE (wr b1 pos1 (digit_char m)) (\<lambda>b2. Inr (b2, pos1 + 1))))"
  by pat_completeness auto
termination
  by (relation "measure (\<lambda>(val, b, pos, base). unat val)") (auto intro: quotient_decreases)

declare itoa.simps [simp del]

section \<open>Formats\<close>

text \<open>The argument \<open>ap\<close> advances to.\<close>

definition next_arg :: "u32 list \<Rightarrow> (u32 \<times> u32 list) res" where
  "next_arg args = (case args of [] \<Rightarrow> Inl OutOfBounds | a # rest \<Rightarrow> Inr (a, rest))"

definition str_arg :: "(u32 \<Rightarrow> buf option) \<Rightarrow> u32 \<Rightarrow> buf option res" where
  "str_arg mem p = (if p = 0 then Inr None else case mem p of None \<Rightarrow> Inl OutOfBounds | Some s \<Rightarrow> Inr (Some s))"

definition convertible :: "u8 \<Rightarrow> bool" where
  "convertible c \<longleftrightarrow> c = 0x78 \<or> c = 0x73 \<or> c = 0x64 \<or> c = 0x63"

definition convert :: "(u32 \<Rightarrow> buf option) \<Rightarrow> u8 \<Rightarrow> buf \<Rightarrow> nat \<Rightarrow> u32 list \<Rightarrow> (buf \<times> nat \<times> u32 list) res" where
  "convert mem c b pos args =
     bindE (next_arg args) (\<lambda>(arg, rest).
       if c = 0x78 then bindE (itoa arg b pos 16) (\<lambda>(b1, pos1). Inr (b1, pos1, rest))
       else if c = 0x73 then
         bindE (str_arg mem arg) (\<lambda>arg_str.
         bindE (strcpy (Some (drop pos b)) arg_str) (\<lambda>d.
         bindE (strlen arg_str) (\<lambda>n. Inr (take pos b @ d, pos + n, rest))))
       else if c = 0x64 then
         bindE (if sint arg < 0 then bindE (wr b pos 0x2d) (\<lambda>b1. Inr (- arg, b1, pos + 1)) else Inr (arg, b, pos))
           (\<lambda>(arg_int, b1, pos1). bindE (itoa arg_int b1 pos1 10) (\<lambda>(b2, pos2). Inr (b2, pos2, rest)))
       else bindE (wr b pos (ucast arg)) (\<lambda>b1. Inr (b1, pos + 1, rest)))"

text \<open>\<open>i\<close>: the position of \<open>index_char\<close> in the format.\<close>

function vsprintf_loop :: "(u32 \<Rightarrow> buf option) \<Rightarrow> buf \<Rightarrow> nat \<Rightarrow> buf \<Rightarrow> nat \<Rightarrow> u32 list \<Rightarrow> buf res" where
  "vsprintf_loop mem format i b pos args =
     (if i < length format then
        let index_char = format ! i in
        if index_char = 0 then Inr b
        else if index_char \<noteq> 0x25
        then bindE (wr b pos index_char) (\<lambda>b1. vsprintf_loop mem format (i + 1) b1 (pos + 1) args)
        else bindE (rd format (i + 1)) (\<lambda>c.
          if convertible c
          then bindE (convert mem c b pos args) (\<lambda>(b1, pos1, rest). vsprintf_loop mem format (i + 2) b1 pos1 rest)
          else vsprintf_loop mem format (i + 1) b pos args)
      else Inl OutOfBounds)"
  by pat_completeness auto
termination
  by (relation "measure (\<lambda>(mem, format, i, b, pos, args). length format - i)") auto

declare vsprintf_loop.simps [simp del]

definition vsprintf :: "(u32 \<Rightarrow> buf option) \<Rightarrow> buf \<Rightarrow> buf \<Rightarrow> u32 list \<Rightarrow> (u32 \<times> buf) res" where
  "vsprintf mem str format ap =
     bindE (vsprintf_loop mem format 0 str 0 ap) (\<lambda>b.
     bindE (strlen (Some b)) (\<lambda>n. Inr (of_nat n, b)))"

definition sprintf :: "(u32 \<Rightarrow> buf option) \<Rightarrow> buf \<Rightarrow> buf \<Rightarrow> u32 list \<Rightarrow> (u32 \<times> buf) res" where
  "sprintf mem b format args = vsprintf mem b format args"

text \<open>\<open>printf\<close>: the buffer and the length it passes to the system call \<open>write(1, buf, len)\<close>.\<close>

definition printf :: "(u32 \<Rightarrow> buf option) \<Rightarrow> buf \<Rightarrow> u32 list \<Rightarrow> (buf \<times> u32) res" where
  "printf mem format args =
     bindE (vsprintf mem (replicate 1024 0) format args) (\<lambda>(n, b).
     bindE (strlen (Some b)) (\<lambda>len. Inr (b, of_nat len)))"

definition printk :: "(u32 \<Rightarrow> buf option) \<Rightarrow> buf \<Rightarrow> u32 list \<Rightarrow> 'z kstate_scheme \<Rightarrow>
    (screen_call list \<times> 'z kstate_scheme) res" where
  "printk mem format args s =
     bindE (vsprintf mem (replicate 1024 0) format args) (\<lambda>(n, b). console_put_str b s)"

text \<open>A string literal of the code.\<close>

definition c_text :: "string \<Rightarrow> buf" where
  "c_text t = map (\<lambda>c. of_nat (of_char c)) t"

definition c_string :: "string \<Rightarrow> buf" where
  "c_string t = c_text t @ [0]"

text \<open>
  \<open>panic_spin\<close> of \<open>lib/kernel/debug.c\<close>: the calls of the screen and the state in which it then spins for ever.  It
  calls \<open>printk\<close>, which takes the lock of the console.
\<close>

definition panic_spin :: "buf \<Rightarrow> u32 \<Rightarrow> buf \<Rightarrow> buf \<Rightarrow> 'z kstate_scheme \<Rightarrow> (screen_call list \<times> 'z kstate_scheme) res" where
  "panic_spin filename line func condition s =
     (let s1 = snd (intr_disable s); nl = Call_put_str [0x0a] in
      bindE (screen_text filename) (\<lambda>fn.
      bindE (printk (\<lambda>_. None) (c_string (''line : %d'' @ [CHR 0x0A])) [line] s1) (\<lambda>(ln, s2).
      bindE (screen_text func) (\<lambda>fu.
      bindE (screen_text condition) (\<lambda>co.
        Inr ([Call_put_str ([0x0a] @ c_text ''error'' @ [0x0a]), Call_put_str (c_text ''filename:''), Call_put_str fn, nl] @ ln @
             [Call_put_str (c_text ''function:''), Call_put_str fu, nl,
              Call_put_str (c_text ''condition:''), Call_put_str co, nl], s2))))))"

section \<open>Digits\<close>

fun digits :: "nat \<Rightarrow> nat \<Rightarrow> nat list" where
  "digits base n = (if base < 2 \<or> n < base then [n] else digits base (n div base) @ [n mod base])"

declare digits.simps [simp del]

definition number_text :: "nat \<Rightarrow> nat \<Rightarrow> buf" where
  "number_text base n = map (\<lambda>d. digit_char (of_nat d)) (digits base n)"

definition exact :: "buf \<Rightarrow> nat \<Rightarrow> buf \<Rightarrow> buf \<Rightarrow> bool" where
  "exact b pos t b1 \<longleftrightarrow> pos + length t \<le> length b \<and> b1 = take pos b @ t @ drop (pos + length t) b"

lemma exact_wr: "pos < length b \<Longrightarrow> wr b pos c = Inr (b[pos := c]) \<and> exact b pos [c] (b[pos := c])"
  by (simp add: exact_def list_update_split)

lemma exact_trans: "exact b pos t b1 \<Longrightarrow> exact b1 (pos + length t) u b2 \<Longrightarrow> exact b pos (t @ u) b2"
  by (auto simp: exact_def ac_simps)

lemma itoa_ok:
  assumes "2 \<le> unat base" and "pos + length (number_text (unat base) (unat v)) \<le> length b"
  shows "\<exists>b1. itoa v b pos base = Inr (b1, pos + length (number_text (unat base) (unat v))) \<and>
           exact b pos (number_text (unat base) (unat v)) b1"
  using assms
proof (induction v b pos base rule: itoa.induct)
  case (1 v b pos base)
  let ?B = "unat base" and ?n = "unat v"
  have b: "base \<noteq> 0" "base \<noteq> 1" using "1.prems"(1) by auto
  have u: "unat (ucast base :: u32) = ?B" by (rule unat_ucast_byte)
  have d: "unat (v div ucast base) = ?n div ?B" and m: "unat (v mod ucast base) = ?n mod ?B"
    using u by (simp_all add: unat_div unat_mod)
  have mm: "v mod ucast base = of_nat (?n mod ?B)" using m by (metis of_nat_unat ucast_id)
  show ?case
  proof (cases "?n < ?B")
    case True
    then have z: "v div ucast base = 0" using d by (simp add: word_unat_eq_iff)
    have "number_text ?B ?n = [digit_char (of_nat ?n)]"
      using True by (simp add: number_text_def digits.simps [of ?B ?n])
    moreover have "v mod ucast base = of_nat ?n" using mm True by simp
    ultimately show ?thesis
      using z b "1.prems"(2) exact_wr [of pos b] by (subst itoa.simps) (simp add: Let_def)
  next
    case False
    let ?t = "number_text ?B (?n div ?B)"
    have nt: "number_text ?B ?n = ?t @ [digit_char (of_nat (?n mod ?B))]"
      using False "1.prems"(1) by (simp add: number_text_def digits.simps [of ?B ?n])
    have "?n div ?B \<noteq> 0" using False "1.prems"(1) by (simp add: div_eq_0_iff)
    then have nz: "v div ucast base \<noteq> 0" using d by auto
    obtain b1 where b1: "itoa (v div ucast base) b pos base = Inr (b1, pos + length ?t)" "exact b pos ?t b1"
      using "1.IH" [OF _ _ refl refl nz] b "1.prems" nt d by auto
    have "pos + length ?t < length b1" using b1(2) "1.prems"(2) nt by (simp add: exact_def)
    from exact_wr [OF this, of "digit_char (of_nat (?n mod ?B))"]
      exact_trans [OF b1(2)] show ?thesis
      using b1(1) nz b mm nt by (subst itoa.simps) (simp add: Let_def)
  qed
qed

lemma digits_value: "foldl (\<lambda>a d. a * base + d) 0 (digits base n) = n"
  by (induction base n rule: digits.induct) (subst digits.simps, auto)

lemma digits_less: "2 \<le> base \<Longrightarrow> d \<in> set (digits base n) \<Longrightarrow> d < base"
proof (induction base n rule: digits.induct)
  case (1 base n)
  then show ?case by (subst (asm) digits.simps) (auto split: if_splits)
qed

lemma digits_length: "n < base ^ Suc k \<Longrightarrow> 2 \<le> base \<Longrightarrow> length (digits base n) \<le> Suc k"
proof (induction k arbitrary: n)
  case 0
  then show ?case by (simp add: digits.simps)
next
  case (Suc k)
  show ?case
  proof (cases "n < base")
    case False
    have "n div base < base ^ Suc k" using Suc.prems by (simp add: less_mult_imp_div_less mult.commute)
    with Suc.IH [of "n div base"] Suc.prems(2) False show ?thesis by (subst digits.simps) simp
  qed (simp add: digits.simps)
qed

text \<open>Reading a digit back.\<close>

definition digit_value :: "u8 \<Rightarrow> nat" where
  "digit_value c = (if c < 0x3a then unat c - 0x30 else unat c - 0x57)"

lemma digit_value_char:
  assumes "d < 16"
  shows "digit_value (digit_char (of_nat d)) = d"
proof -
  from assms have "d \<in> {0, 1, 2, 3, 4, 5, 6, 7, 8, 9, 10, 11, 12, 13, 14, 15}" by (auto; arith)
  then show ?thesis by (elim insertE emptyE) (simp_all add: digit_value_def digit_char_def)
qed

section \<open>What a format says\<close>

definition decimal :: "u32 \<Rightarrow> buf" where
  "decimal a = (if sint a < 0 then 0x2d # number_text 10 (unat (- a)) else number_text 10 (unat a))"

definition arg_text :: "(u32 \<Rightarrow> buf option) \<Rightarrow> u8 \<Rightarrow> u32 \<Rightarrow> buf option" where
  "arg_text mem c a =
     (if c = 0x78 then Some (number_text 16 (unat a))
      else if c = 0x73 then
        (case mem a of None \<Rightarrow> None | Some t \<Rightarrow> if a \<noteq> 0 \<and> terminated t then Some (cstr t) else None)
      else if c = 0x64 then Some (decimal a)
      else Some [ucast a])"

fun format_text :: "(u32 \<Rightarrow> buf option) \<Rightarrow> buf \<Rightarrow> u32 list \<Rightarrow> buf option" where
  "format_text mem [] args = None"
| "format_text mem (c # fs) args =
     (if c = 0 then Some []
      else if c \<noteq> 0x25 then map_option ((#) c) (format_text mem fs args)
      else (case fs of [] \<Rightarrow> None
            | d # fs' \<Rightarrow>
              if convertible d then
                (case args of [] \<Rightarrow> None
                 | a # rest \<Rightarrow>
                   (case arg_text mem d a of None \<Rightarrow> None
                    | Some t \<Rightarrow> map_option ((@) t) (format_text mem fs' rest)))
              else format_text mem fs args))"

text \<open>\<open>b1\<close> is \<open>b\<close> with \<open>t\<close> written at \<open>pos\<close>; behind it zeros may have been left.\<close>

definition wrote :: "buf \<Rightarrow> nat \<Rightarrow> buf \<Rightarrow> buf \<Rightarrow> bool" where
  "wrote b pos t b1 \<longleftrightarrow>
     length b1 = length b \<and> take (pos + length t) b1 = take pos b @ t \<and>
     (\<forall>j. pos + length t \<le> j \<longrightarrow> j < length b \<longrightarrow> b1 ! j = b ! j \<or> b1 ! j = 0)"

lemma wrote_nil: "wrote b pos [] b"
  by (simp add: wrote_def)

lemma wrote_trans:
  assumes "wrote b pos t b1" and "wrote b1 (pos + length t) u b2"
  shows "wrote b pos (t @ u) b2"
  using assms by (auto simp: wrote_def add.assoc) (metis add.assoc add_leD1)+

lemma exact_wrote: "exact b pos t b1 \<Longrightarrow> wrote b pos t b1"
  by (auto simp: exact_def wrote_def nth_append)

lemma wrote_zero: "wrote b pos t b1 \<Longrightarrow> wrote b pos t (b1[pos + length t := 0])"
  by (auto simp: wrote_def nth_list_update)

lemma convert_ok:
  assumes "convertible c" and "arg_text mem c a = Some t" and "pos + length t < length b"
  shows "\<exists>b1. convert mem c b pos (a # rest) = Inr (b1, pos + length t, rest) \<and> wrote b pos t b1 \<and>
           (c \<noteq> 0x73 \<longrightarrow> exact b pos t b1)"
proof -
  have n10: "unat (10 :: u8) = 10" and n16: "unat (16 :: u8) = 16" by simp_all
  consider (x) "c = 0x78" | (s) "c = 0x73" | (d) "c = 0x64" | (c) "c = 0x63"
    using assms(1) by (auto simp: convertible_def)
  then show ?thesis
  proof cases
    case x
    then have t: "t = number_text 16 (unat a)" using assms(2) by (simp add: arg_text_def)
    show ?thesis
      using itoa_ok [of 16 pos a b] x t assms(3) n16 exact_wrote
      by (auto simp: convert_def next_arg_def)
  next
    case s
    then obtain m where m: "mem a = Some m" "a \<noteq> 0" "terminated m" "t = cstr m"
      using assms(2) by (auto simp: arg_text_def split: option.splits if_splits)
    have "drop (length t + 1) (drop pos b) = drop (pos + length t + 1) b" by (simp add: ac_simps)
    then have "strcpy (Some (drop pos b)) (Some m) = Inr (t @ 0 # drop (pos + length t + 1) b)"
      using strcpy_ok [OF m(3), of "drop pos b"] m(4) assms(3) by simp
    then have "convert mem c b pos (a # rest) =
        Inr (take pos b @ t @ 0 # drop (pos + length t + 1) b, pos + length t, rest)"
      using s m strlen_ok [OF m(3)]
      by (simp add: convert_def next_arg_def str_arg_def)
    moreover have "wrote b pos t (take pos b @ t @ 0 # drop (pos + length t + 1) b)"
    proof -
      let ?k = "pos + length t"
      have "drop ?k b = b ! ?k # drop (?k + 1) b" using assms(3) by (simp add: Cons_nth_drop_Suc)
      then have "(take pos b @ t @ drop ?k b)[?k := 0] = take pos b @ t @ 0 # drop (?k + 1) b"
        using assms(3) by (simp add: list_update_append)
      moreover have "wrote b pos t (take pos b @ t @ drop ?k b)"
        using assms(3) by (intro exact_wrote) (simp add: exact_def)
      ultimately show ?thesis using wrote_zero by metis
    qed
    ultimately show ?thesis using s by blast
  next
    case d
    show ?thesis
    proof (cases "sint a < 0")
      case True
      then have t: "t = 0x2d # number_text 10 (unat (- a))" using d assms(2) by (simp add: arg_text_def decimal_def)
      have w: "pos < length b" using assms(3) by simp
      let ?b = "b[pos := 0x2d]"
      obtain b1 where b1: "itoa (- a) ?b (Suc pos) 10 = Inr (b1, Suc pos + length (number_text 10 (unat (- a))))"
        "exact ?b (Suc pos) (number_text 10 (unat (- a))) b1"
        using itoa_ok [of 10 "Suc pos" "- a" ?b] t assms(3) n10 by auto
      have "exact b pos t b1"
        using exact_trans [of b pos "[0x2d]" ?b] exact_wr [OF w, of "0x2d"] b1(2) t by simp
      then show ?thesis using b1(1) True d w t exact_wrote
        by (auto simp: convert_def next_arg_def)
    next
      case False
      then have t: "t = number_text 10 (unat a)" using d assms(2) by (simp add: arg_text_def decimal_def)
      show ?thesis
        using itoa_ok [of 10 pos a b] False d t assms(3) n10 exact_wrote
        by (auto simp: convert_def next_arg_def)
    qed
  next
    case c
    then have "t = [ucast a]" using assms(2) by (simp add: arg_text_def)
    then show ?thesis using c assms(3) exact_wr [of pos b "ucast a"] exact_wrote
      by (auto simp: convert_def next_arg_def)
  qed
qed

lemma vsprintf_loop_ok:
  assumes "format_text mem (drop i format) args = Some out" and "pos + length out < length b"
  shows "\<exists>b1. vsprintf_loop mem format i b pos args = Inr b1 \<and> wrote b pos out b1 \<and>
           (0x73 \<notin> set format \<longrightarrow> exact b pos out b1)"
  using assms
proof (induction mem format i b pos args arbitrary: out rule: vsprintf_loop.induct)
  case (1 mem format i b pos args)
  have i: "i < length format"
    using "1.prems"(1) by (metis drop_all format_text.simps(1) not_le_imp_less option.distinct(1))
  then have dr: "drop i format = format ! i # drop (Suc i) format" by (simp add: Cons_nth_drop_Suc)
  let ?c = "format ! i"
  consider (nul) "?c = 0" | (lit) "?c \<noteq> 0" "?c \<noteq> 0x25" | (pct) "?c = 0x25" by blast
  then show ?case
  proof cases
    case nul
    then have "out = []" using "1.prems"(1) dr by simp
    then show ?thesis using nul i "1.prems"(2)
      by (subst vsprintf_loop.simps) (simp add: wrote_nil exact_def)
  next
    case lit
    then obtain o' where o': "format_text mem (drop (Suc i) format) args = Some o'" "out = ?c # o'"
      using "1.prems"(1) dr by auto
    have p: "pos < length b" using "1.prems"(2) o'(2) by simp
    let ?b = "b[pos := ?c]"
    have w: "wr b pos ?c = Inr ?b" "exact b pos [?c] ?b" using exact_wr [OF p] by auto
    obtain b1 where b1: "vsprintf_loop mem format (Suc i) ?b (Suc pos) args = Inr b1" "wrote ?b (Suc pos) o' b1"
      "0x73 \<notin> set format \<longrightarrow> exact ?b (Suc pos) o' b1"
      using "1.IH"(1) [OF i refl lit w(1), of o'] o' "1.prems"(2) by auto
    show ?thesis using i lit w b1 o'(2) wrote_trans [OF exact_wrote [OF w(2)]] exact_trans [OF w(2)]
      by (subst vsprintf_loop.simps) (auto simp: Let_def)
  next
    case pct
    then obtain d fs where df: "drop (Suc i) format = d # fs"
      using "1.prems"(1) dr by (cases "drop (Suc i) format") auto
    then have si: "Suc i < length format" by (metis drop_eq_Nil list.distinct(1) not_le_imp_less)
    with df have d: "format ! Suc i = d" "drop (Suc (Suc i)) format = fs"
      by (simp_all add: Cons_nth_drop_Suc [symmetric])
    have rd: "rd format (i + 1) = Inr d" using si d(1) by simp
    show ?thesis
    proof (cases "convertible d")
      case True
      then obtain a rest t o' where a: "args = a # rest" "arg_text mem d a = Some t"
        "format_text mem fs rest = Some o'" "out = t @ o'"
        using "1.prems"(1) dr df pct by (auto split: list.splits option.splits)
      have "pos + length t < length b" using "1.prems"(2) a(4) by simp
      from convert_ok [OF True a(2) this, of rest] obtain b1 where
        b1: "convert mem d b pos args = Inr (b1, pos + length t, rest)" "wrote b pos t b1"
        "d \<noteq> 0x73 \<longrightarrow> exact b pos t b1" using a(1) by blast
      have "pos + length t + length o' < length b1" using "1.prems"(2) a(4) b1(2) by (simp add: wrote_def)
      then obtain b2 where b2: "vsprintf_loop mem format (i + 2) b1 (pos + length t) rest = Inr b2"
        "wrote b1 (pos + length t) o' b2" "0x73 \<notin> set format \<longrightarrow> exact b1 (pos + length t) o' b2"
        using "1.IH"(2) [OF i refl _ _ rd True b1(1) refl refl, of o'] pct a(3) d(2) by auto
      have "0x73 \<notin> set format \<longrightarrow> d \<noteq> 0x73" using d(1) si by (metis nth_mem)
      then show ?thesis
        using i pct si d True b1 b2 a(4) wrote_trans [OF b1(2) b2(2)] exact_trans [of b pos t b1]
        by (subst vsprintf_loop.simps) (auto simp: Let_def)
    next
      case False
      then have "format_text mem (drop (Suc i) format) args = Some out"
        using "1.prems"(1) dr df pct by simp
      then obtain b1 where "vsprintf_loop mem format (Suc i) b pos args = Inr b1" "wrote b pos out b1"
        "0x73 \<notin> set format \<longrightarrow> exact b pos out b1"
        using "1.IH"(3) [OF i refl _ _ rd False, of out] pct "1.prems"(2) by auto
      then show ?thesis using i pct si d False by (subst vsprintf_loop.simps) (auto simp: Let_def)
    qed
  qed
qed

section \<open>Properties\<close>

lemma cstr_zero: "cstr (xs @ 0 # ys) = cstr xs"
  by (induction xs) (simp_all add: cstr_def)

lemma wrote_zeros:
  assumes "wrote (replicate n 0) 0 out b1" and "length out < n"
  shows "b1 = out @ replicate (n - length out) 0"
proof (rule nth_equalityI)
  show "length b1 = length (out @ replicate (n - length out) 0)" using assms by (simp add: wrote_def)
  fix j assume "j < length b1"
  then have j: "j < n" using assms(1) by (simp add: wrote_def)
  show "b1 ! j = (out @ replicate (n - length out) 0) ! j"
  proof (cases "j < length out")
    case True
    then have "b1 ! j = take (length out) b1 ! j" by simp
    with True assms(1) show ?thesis by (simp add: wrote_def nth_append)
  next
    case False
    then have "b1 ! j = replicate n 0 ! j \<or> b1 ! j = 0" using assms(1) j by (simp add: wrote_def)
    with False j show ?thesis by (auto simp: nth_append)
  qed
qed

lemma vsprintf_ok:
  assumes "format_text mem format args = Some out" and "length out < n"
  shows "vsprintf mem (replicate n 0) format args =
           Inr (of_nat (length (cstr out)), out @ replicate (n - length out) 0)"
proof -
  obtain b1 where b1: "vsprintf_loop mem format 0 (replicate n 0) 0 args = Inr b1" "wrote (replicate n 0) 0 out b1"
    using vsprintf_loop_ok [of mem 0 format args out 0 "replicate n 0"] assms by auto
  have e: "b1 = out @ replicate (n - length out) 0" using wrote_zeros [OF b1(2) assms(2)] .
  obtain k where "n - length out = Suc k" using assms(2) by (metis Suc_diff_Suc)
  then have z: "b1 = out @ 0 # replicate k 0" using e by simp
  then have "strlen (Some b1) = Inr (length (cstr out))"
    using strlen_ok [of b1] terminated_append_nul [of out "replicate k 0"] cstr_zero by simp
  with b1(1) e show ?thesis by (simp add: vsprintf_def)
qed

text \<open>C36: formatted output into a cleared buffer that is large enough writes the text the format
  stands for, with the terminating zero behind it, and returns the length of the text up to its
  first zero.\<close>

theorem vsprintf_prints_the_format:
  assumes "format_text mem format args = Some out" and "length out < n"
  shows "vsprintf mem (replicate n 0) format args =
           Inr (of_nat (length (cstr out)), out @ replicate (n - length out) 0)"
  by (rule vsprintf_ok [OF assms])

text \<open>The format \<open>%s%d\<close> for the fifth logical partition of the disk \<open>hdb\<close>.\<close>

theorem vsprintf_prints_the_format_witness:
  "vsprintf (\<lambda>p. if p = 0x1000 then Some [0x68, 0x64, 0x62, 0] else None) (replicate 8 0)
     [0x25, 0x73, 0x25, 0x64, 0] [0x1000, 5] = Inr (4, [0x68, 0x64, 0x62, 0x35, 0, 0, 0, 0])"
proof -
  let ?mem = "\<lambda>p. if p = 0x1000 then Some [0x68, 0x64, 0x62, 0] else None"
  have "number_text 10 5 = [0x35]" by (simp add: number_text_def digits.simps digit_char_def)
  then have "format_text ?mem [0x25, 0x73, 0x25, 0x64, 0] [0x1000, 5] = Some [0x68, 0x64, 0x62, 0x35]"
    by (simp add: convertible_def arg_text_def terminated_def cstr_def decimal_def)
  moreover have "replicate 4 (0 :: u8) = [0, 0, 0, 0]" by code_simp
  ultimately show ?thesis
    using vsprintf_prints_the_format [of ?mem "[0x25, 0x73, 0x25, 0x64, 0]" "[0x1000, 5]" "[0x68, 0x64, 0x62, 0x35]" 8]
    by (simp add: cstr_def)
qed

text \<open>Reading a printed integer back.\<close>

definition read_number :: "nat \<Rightarrow> buf \<Rightarrow> nat" where
  "read_number base t = foldl (\<lambda>a c. a * base + digit_value c) 0 t"

definition read_decimal :: "buf \<Rightarrow> int" where
  "read_decimal t = (case t of c # t' \<Rightarrow> if c = 0x2d then - int (read_number 10 t') else int (read_number 10 t)
     | [] \<Rightarrow> 0)"

lemma read_number_text:
  assumes "2 \<le> base" and "base \<le> 16"
  shows "read_number base (number_text base n) = n"
proof -
  have "foldl (\<lambda>a c. a * base + digit_value c) x (map (\<lambda>d. digit_char (of_nat d)) ds) = foldl (\<lambda>a d. a * base + d) x ds"
    if "\<forall>d \<in> set ds. d < 16" for x ds
    using that by (induction ds arbitrary: x) (auto simp: digit_value_char)
  moreover have "\<forall>d \<in> set (digits base n). d < 16" using digits_less [OF assms(1)] assms(2) by fastforce
  ultimately show ?thesis by (simp add: read_number_def number_text_def digits_value)
qed

lemma number_text_first: "2 \<le> base \<Longrightarrow> base \<le> 10 \<Longrightarrow> number_text base n \<noteq> [] \<and> 0x2d \<notin> set (number_text base n)"
proof -
  assume b: "2 \<le> base" "base \<le> 10"
  have "digits base n \<noteq> []" by (subst digits.simps) simp
  moreover have "digit_char (of_nat d) \<noteq> 0x2d" if "d \<in> set (digits base n)" for d
  proof -
    have "d < 10" using digits_less [OF b(1) that] b(2) by simp
    then have "d \<in> {0, 1, 2, 3, 4, 5, 6, 7, 8, 9}" by (auto; arith)
    then show ?thesis by (elim insertE emptyE) (simp_all add: digit_char_def)
  qed
  ultimately show ?thesis by (auto simp: number_text_def)
qed

lemma uint_of_sint:
  "uint (a :: u32) = (if sint a < 0 then sint a + 2 ^ 32 else sint a)"
  and uint_uminus_neg: "sint (a :: u32) < 0 \<Longrightarrow> uint (- a) = - sint a"
proof -
  have b: "- (2 ^ 31) \<le> sint a" "sint a < 2 ^ 31"
    using sint_greater_eq [of a] sint_less [of a] by simp_all
  have m: "uint (word_of_int x :: u32) = x mod 2 ^ 32" for x
    by (simp add: uint_word_of_int)
  have "uint a = sint a mod 2 ^ 32" using m [of "sint a"] by simp
  then show "uint a = (if sint a < 0 then sint a + 2 ^ 32 else sint a)"
    using b mod_pos_pos_trivial [of "sint a + 2 ^ 32" "2 ^ 32"] by (auto simp: mod_pos_pos_trivial)
  assume "sint a < 0"
  then show "uint (- a) = - sint a"
    using m [of "- sint a"] b by (simp add: mod_pos_pos_trivial)
qed

lemma length_decimal_le: "length (decimal a) \<le> 11"
proof -
  have "length (number_text 10 (unat v)) \<le> 10" for v :: u32
  proof -
    have "unat v < 2 ^ LENGTH(32)" by (rule unsigned_less)
    then show ?thesis using digits_length [of "unat v" 10 9] by (simp add: number_text_def)
  qed
  from this [of a] this [of "- a"] show ?thesis by (simp add: decimal_def)
qed

lemma digit_char_nonzero: "d < 10 \<Longrightarrow> digit_char (of_nat d) \<noteq> 0"
proof -
  assume "d < 10"
  then have "d \<in> {0, 1, 2, 3, 4, 5, 6, 7, 8, 9}" by (simp, arith)
  then show ?thesis by (elim insertE emptyE) (simp_all add: digit_char_def)
qed

lemma decimal_nonzero: "0 \<notin> set (decimal a)"
proof -
  have "0 \<notin> set (number_text 10 n)" for n
    using digits_less [of 10 _ n] digit_char_nonzero by (fastforce simp: number_text_def)
  then show ?thesis by (simp add: decimal_def)
qed

text \<open>What \<open>%d\<close> and \<open>%x\<close> print reads back as the number printed, the smallest integer included;
  it has at most eleven and eight characters.\<close>

theorem printed_numbers_read_back:
  "read_decimal (decimal a) = sint a \<and> length (decimal a) \<le> 11 \<and>
   read_number 16 (number_text 16 (unat a)) = unat a \<and> length (number_text 16 (unat a)) \<le> 8"
proof -
  have l: "unat v < 2 ^ LENGTH(32)" for v :: u32 by (rule unsigned_less)
  have "length (number_text 16 (unat a)) \<le> 8"
    using digits_length [of "unat a" 16 7] l [of a] by (simp add: number_text_def)
  moreover have "read_decimal (decimal a) = sint a"
  proof (cases "sint a < 0")
    case True
    then show ?thesis by (simp add: decimal_def read_decimal_def read_number_text uint_uminus_neg)
  next
    case False
    then have "int (unat a) = sint a" by (simp add: uint_of_sint)
    moreover obtain c t where "number_text 10 (unat a) = c # t" "c \<noteq> 0x2d"
      using number_text_first [of 10 "unat a"] by (cases "number_text 10 (unat a)") auto
    ultimately show ?thesis using False read_number_text [of 10 "unat a"]
      by (simp add: decimal_def read_decimal_def)
  qed
  moreover note length_decimal_le [of a]
  ultimately show ?thesis by (simp add: read_number_text)
qed

text \<open>\<open>vsprintf\<close> writes no terminating zero of its own: with a format without \<open>%s\<close> into a buffer
  that holds no zero behind the text, its closing \<open>strlen\<close> runs out of the buffer.\<close>

theorem vsprintf_leaves_no_terminator:
  assumes "format_text mem format args = Some out" and "length out < length b"
    and "0x73 \<notin> set format" and "0 \<notin> set out" and "0 \<notin> set (drop (length out) b)"
  shows "vsprintf_loop mem format 0 b 0 args = Inr (out @ drop (length out) b) \<and>
           vsprintf mem b format args = Inl OutOfBounds"
proof -
  obtain b1 where b1: "vsprintf_loop mem format 0 b 0 args = Inr b1" "exact b 0 out b1"
    using vsprintf_loop_ok [of mem 0 format args out 0 b] assms(1,2,3) by auto
  then have l: "vsprintf_loop mem format 0 b 0 args = Inr (out @ drop (length out) b)" by (simp add: exact_def)
  have "scan_nul s i = Inl OutOfBounds" if "0 \<notin> set s" for s i
    using that
  proof (induction s i rule: scan_nul.induct)
    case (1 s i)
    then show ?case by (subst scan_nul.simps) (metis add.commute nth_mem)
  qed
  then show ?thesis using l assms(4,5) by (simp add: vsprintf_def strlen_def)
qed

theorem vsprintf_leaves_no_terminator_witness:
  "vsprintf_loop (\<lambda>_. None) [0x25, 0x64, 0] 0 [7, 7, 7] 0 [5] = Inr [0x35, 7, 7] \<and>
   vsprintf (\<lambda>_. None) [7, 7, 7] [0x25, 0x64, 0] [5] = Inl OutOfBounds"
proof -
  have "number_text 10 5 = [0x35]" by (simp add: number_text_def digits.simps digit_char_def)
  then have "format_text (\<lambda>_. None) [0x25, 0x64, 0] [5] = Some [0x35]"
    by (simp add: convertible_def arg_text_def decimal_def)
  from vsprintf_leaves_no_terminator [OF this, of "[7, 7, 7]"] show ?thesis by simp
qed

end
