(* ===== verification/Bytes.thy ===== *)
theory Bytes
  imports CString
begin

text \<open>
  Structures in buffers: blocks of bytes at an offset, and the little-endian words of the
  processor, as the code reads and writes them through pointers into a buffer.
\<close>

definition get_bytes :: "buf \<Rightarrow> nat \<Rightarrow> nat \<Rightarrow> buf res" where
  "get_bytes b off n = (if off + n \<le> length b then Inr (take n (drop off b)) else Inl OutOfBounds)"

definition put_bytes :: "buf \<Rightarrow> nat \<Rightarrow> buf \<Rightarrow> buf res" where
  "put_bytes b off d =
     (if off + length d \<le> length b then Inr (take off b @ d @ drop (off + length d) b) else Inl OutOfBounds)"

definition le32 :: "u32 \<Rightarrow> buf" where
  "le32 w = [ucast w, ucast (drop_bit 8 w), ucast (drop_bit 16 w), ucast (drop_bit 24 w)]"

definition of_le32 :: "buf \<Rightarrow> u32" where
  "of_le32 b = ucast (b ! 0) OR push_bit 8 (ucast (b ! 1)) OR push_bit 16 (ucast (b ! 2)) OR push_bit 24 (ucast (b ! 3))"

definition get32 :: "buf \<Rightarrow> nat \<Rightarrow> u32 res" where
  "get32 b off = bindE (get_bytes b off 4) (\<lambda>d. Inr (of_le32 d))"

definition put32 :: "buf \<Rightarrow> nat \<Rightarrow> u32 \<Rightarrow> buf res" where
  "put32 b off w = put_bytes b off (le32 w)"

text \<open>An array of words.\<close>

fun le32s :: "u32 list \<Rightarrow> buf" where
  "le32s [] = []"
| "le32s (w # ws) = le32 w @ le32s ws"

fun of_le32s :: "nat \<Rightarrow> buf \<Rightarrow> u32 list" where
  "of_le32s 0 b = []"
| "of_le32s (Suc n) b = of_le32 (take 4 b) # of_le32s n (drop 4 b)"

section \<open>Round trips\<close>

lemma length_le32 [simp]: "length (le32 w) = 4"
  by (simp add: le32_def)

lemma length_le32s [simp]: "length (le32s ws) = 4 * length ws"
  by (induction ws) auto

lemma length_of_le32s [simp]: "length (of_le32s n b) = n"
  by (induction n b rule: of_le32s.induct) auto

lemma of_le32_le32 [simp]: "of_le32 (le32 w) = w"
proof (rule bit_word_eqI)
  fix n assume "n < LENGTH(32)"
  then consider "n < 8" | "8 \<le> n" "n < 16" | "16 \<le> n" "n < 24" | "24 \<le> n" "n < 32" by fastforce
  then show "bit (of_le32 (le32 w)) n \<longleftrightarrow> bit w n"
    by cases (auto simp: of_le32_def le32_def bit_simps)
qed

lemma of_le32s_le32s [simp]: "of_le32s (length ws) (le32s ws @ r) = ws"
  by (induction ws) auto

lemma length_put_bytes: "put_bytes b off d = Inr b' \<Longrightarrow> length b' = length b"
  by (auto simp: put_bytes_def split: if_splits)

lemma put_bytes_ok: "off + length d \<le> length b \<Longrightarrow>
  put_bytes b off d = Inr (take off b @ d @ drop (off + length d) b)"
  by (simp add: put_bytes_def)

lemma get_bytes_ok: "off + n \<le> length b \<Longrightarrow> get_bytes b off n = Inr (take n (drop off b))"
  by (simp add: get_bytes_def)

lemma get_put_bytes: "put_bytes b off d = Inr b' \<Longrightarrow> n = length d \<Longrightarrow> get_bytes b' off n = Inr d"
  by (auto simp: put_bytes_def get_bytes_def split: if_splits)

lemma get_put_other:
  assumes "put_bytes b off d = Inr b'" and "i + n \<le> off \<or> off + length d \<le> i"
  shows "get_bytes b' i n = get_bytes b i n"
proof -
  have o: "off + length d \<le> length b" "b' = take off b @ d @ drop (off + length d) b"
    using assms(1) by (auto simp: put_bytes_def split: if_splits)
  have "take n (drop i b') = take n (drop i b)"
    using assms(2) o by (auto simp: take_drop min_def)
  then show ?thesis using o by (simp add: get_bytes_def)
qed

lemma get_put32 [simp]: "put32 b off w = Inr b' \<Longrightarrow> get32 b' off = Inr w"
  using get_put_bytes [of b off "le32 w" b' 4] by (simp add: put32_def get32_def)

end
