(* ===== verification/Ide.thy ===== *)
theory Ide
  imports Stdio Bytes Interrupt
begin

text \<open>
  \<open>device/ide.c\<close>: the disks.  The driver's structures are records; a pointer to a disk is the pair
  of the indices of its channel and of the disk on it.  A partition is named by its disk and its
  index among the four primary and eight logical partitions; its list of open inodes and its tag
  in the partition list are nodes of theory Thread.

  The disk controller is not code: what the driver relies on is its documented behaviour.  The
  registers of a channel keep what was written to them; reading from the data port after a read
  command delivers the sectors the registers name, writing to it after a write command replaces
  them.  \<open>images\<close> holds the sectors of the disks, \<open>identity\<close> what the identify command
  delivers, \<open>status_reads\<close> the values the status register will show, in order.

  A thread that waits for the disk is blocked and woken by the interrupt; the model takes the
  interrupt at the place where the driver waits (\<open>wait_disk\<close>), the switch to another thread
  and back is the subject of theory Sync.  The messages the driver prints are not modelled.

  Of \<open>sys_malloc\<close> (theories Memory and Allocation) the driver and the file system rely on the
  contract only: the request either fails, with \<open>NULL\<close>, or yields a cleared object of its own.
  \<open>malloc_at\<close> gives the address each request will get, in order, 0 when it fails; \<open>live\<close> counts
  the objects not yet given back.  The contents of a buffer are a value of the model.
\<close>

section \<open>Structures\<close>

record super_block =
  magic :: u32
  sb_sec_cnt :: u32
  inode_cnt :: u32
  part_lba_base :: u32
  block_bitmap_lba :: u32
  block_bitmap_sects :: u32
  inode_bitmap_lba :: u32
  inode_bitmap_sects :: u32
  inode_table_lba :: u32
  inode_table_sects :: u32
  data_start_lba :: u32
  root_inode_no :: u32
  dir_entry_size :: u32

type_synonym disk_ptr = "nat \<times> nat"

record partition =
  part_name :: buf
  start_lba :: u32
  sec_cnt :: u32
  my_disk :: "disk_ptr option"
  sb :: "super_block option"
  block_bitmap :: bitmap
  inode_bitmap :: bitmap

record disk =
  disk_name :: buf
  my_channel :: "nat option"
  dev_no :: u8
  prim_parts :: "partition list"
  logic_parts :: "partition list"

record ide_channel =
  channel_name :: buf
  port_base :: u16
  irq_no :: u8
  expecting_intr :: bool
  devices :: "disk list"

text \<open>The registers of a channel.\<close>

record ata =
  r_sect_cnt :: u8
  r_lba_l :: u8
  r_lba_m :: u8
  r_lba_h :: u8
  r_dev :: u8
  r_cmd :: u8

record dstate = kstate +
  channel_cnt :: u8
  channels :: "ide_channel list"
  ext_lba_base :: u32
  p_no :: u8
  l_no :: u8
  atas :: "nat \<Rightarrow> ata"
  images :: "nat \<Rightarrow> nat \<Rightarrow> nat \<Rightarrow> buf"
  identity :: "nat \<Rightarrow> nat \<Rightarrow> buf"
  status_reads :: "nat \<Rightarrow> nat \<Rightarrow> u8"
  status_clock :: "nat \<Rightarrow> nat"
  ide_handlers :: "intr_handler list"
  malloc_at :: "nat \<Rightarrow> u32"
  malloc_no :: nat
  live :: nat

definition get_channel :: "nat \<Rightarrow> 'z dstate_scheme \<Rightarrow> ide_channel res" where
  "get_channel c s = rd (channels s) c"

definition set_channel :: "nat \<Rightarrow> ide_channel \<Rightarrow> 'z dstate_scheme \<Rightarrow> 'z dstate_scheme" where
  "set_channel c ch s = s\<lparr>channels := (channels s)[c := ch]\<rparr>"

definition get_disk :: "disk_ptr \<Rightarrow> 'z dstate_scheme \<Rightarrow> disk res" where
  "get_disk hdd s = bindE (get_channel (fst hdd) s) (\<lambda>ch. rd (devices ch) (snd hdd))"

definition set_disk :: "disk_ptr \<Rightarrow> disk \<Rightarrow> 'z dstate_scheme \<Rightarrow> 'z dstate_scheme res" where
  "set_disk hdd d s =
     bindE (get_channel (fst hdd) s) (\<lambda>ch.
     bindE (wr (devices ch) (snd hdd) d) (\<lambda>ds. Inr (set_channel (fst hdd) (ch\<lparr>devices := ds\<rparr>) s)))"

text \<open>\<open>hd->my_channel\<close>\<close>

definition disk_channel :: "disk_ptr \<Rightarrow> 'z dstate_scheme \<Rightarrow> nat res" where
  "disk_channel hdd s =
     bindE (get_disk hdd s) (\<lambda>d. case my_channel d of None \<Rightarrow> Inl NullPointer | Some c \<Rightarrow> Inr c)"

section \<open>Buffers\<close>

definition new_object :: "'z dstate_scheme \<Rightarrow> u32 \<times> 'z dstate_scheme" where
  "new_object s =
     (let a = malloc_at s (malloc_no s) in
      (a, s\<lparr>malloc_no := Suc (malloc_no s), live := (if a = 0 then live s else Suc (live s))\<rparr>))"

text \<open>A cleared buffer of \<open>n\<close> bytes, \<open>None\<close> for \<open>NULL\<close>.\<close>

definition new_buffer :: "nat \<Rightarrow> 'z dstate_scheme \<Rightarrow> buf option \<times> 'z dstate_scheme" where
  "new_buffer n s = (let (a, s1) = new_object s in (if a = 0 then None else Some (replicate n 0), s1))"

definition free_object :: "'z dstate_scheme \<Rightarrow> 'z dstate_scheme" where
  "free_object s = s\<lparr>live := live s - 1\<rparr>"

text \<open>Access through a buffer pointer.\<close>

definition deref :: "'a option \<Rightarrow> 'a res" where
  "deref p = (case p of None \<Rightarrow> Inl NullPointer | Some b \<Rightarrow> Inr b)"

lemma deref_simps [simp]: "deref None = Inl NullPointer" "deref (Some b) = Inr b"
  by (simp_all add: deref_def)

section \<open>The controller\<close>

text \<open>The channel and the register behind a port, by the addresses the hardware has.\<close>

definition ata_port :: "u16 \<Rightarrow> (nat \<times> nat) option" where
  "ata_port port =
     (if 0x1f0 \<le> port \<and> port \<le> 0x1f7 then Some (0, unat (port - 0x1f0))
      else if 0x170 \<le> port \<and> port \<le> 0x177 then Some (1, unat (port - 0x170)) else None)"

definition ata_write :: "nat \<Rightarrow> u8 \<Rightarrow> ata \<Rightarrow> ata" where
  "ata_write r v a =
     (if r = 2 then a\<lparr>r_sect_cnt := v\<rparr> else if r = 3 then a\<lparr>r_lba_l := v\<rparr>
      else if r = 4 then a\<lparr>r_lba_m := v\<rparr> else if r = 5 then a\<lparr>r_lba_h := v\<rparr>
      else if r = 6 then a\<lparr>r_dev := v\<rparr> else if r = 7 then a\<lparr>r_cmd := v\<rparr> else a)"

definition outb :: "u16 \<Rightarrow> u8 \<Rightarrow> 'z dstate_scheme \<Rightarrow> 'z dstate_scheme" where
  "outb port v s =
     (case ata_port port of None \<Rightarrow> s
      | Some (c, r) \<Rightarrow> s\<lparr>atas := (atas s)(c := ata_write r v (atas s c))\<rparr>)"

text \<open>Only the status register is read by the driver.\<close>

definition inb :: "u16 \<Rightarrow> 'z dstate_scheme \<Rightarrow> u8 \<times> 'z dstate_scheme" where
  "inb port s =
     (case ata_port port of None \<Rightarrow> (0xff, s)
      | Some (c, r) \<Rightarrow> (status_reads s c (status_clock s c), s\<lparr>status_clock := (status_clock s)(c := status_clock s c + 1)\<rparr>))"

text \<open>What the registers name: the sector address (28 bits), the number of sectors (0 is 256), the
  disk of the channel.\<close>

definition ata_lba :: "ata \<Rightarrow> nat" where
  "ata_lba a = unat (r_lba_l a) + 2 ^ 8 * unat (r_lba_m a) + 2 ^ 16 * unat (r_lba_h a) + 2 ^ 24 * unat (r_dev a AND 0x0f)"

definition ata_count :: "ata \<Rightarrow> nat" where
  "ata_count a = (if r_sect_cnt a = 0 then 256 else unat (r_sect_cnt a))"

definition ata_dev :: "ata \<Rightarrow> nat" where
  "ata_dev a = (if r_dev a AND 0x10 = 0 then 0 else 1)"

definition read_image :: "(nat \<Rightarrow> buf) \<Rightarrow> nat \<Rightarrow> nat \<Rightarrow> buf" where
  "read_image im lba n = concat (map im [lba..<lba + n])"

definition write_image :: "(nat \<Rightarrow> buf) \<Rightarrow> nat \<Rightarrow> nat \<Rightarrow> buf \<Rightarrow> nat \<Rightarrow> buf" where
  "write_image im lba n d = (\<lambda>i. if lba \<le> i \<and> i < lba + n then take 512 (drop (512 * (i - lba)) d) else im i)"

text \<open>\<open>n\<close> words from and to the data port.  The driver always moves what the command asked for.\<close>

definition insw :: "u16 \<Rightarrow> nat \<Rightarrow> 'z dstate_scheme \<Rightarrow> buf res" where
  "insw port n s =
     (case ata_port port of None \<Rightarrow> Inl OutOfBounds
      | Some (c, r) \<Rightarrow>
        let a = atas s c; d = ata_dev a in
        if r_cmd a = 0x20 \<and> 2 * n = 512 * ata_count a then Inr (read_image (images s c d) (ata_lba a) (ata_count a))
        else if r_cmd a = 0xec \<and> 2 * n = 512 then Inr (identity s c d)
        else Inl OutOfBounds)"

definition outsw :: "u16 \<Rightarrow> buf \<Rightarrow> nat \<Rightarrow> 'z dstate_scheme \<Rightarrow> 'z dstate_scheme res" where
  "outsw port b n s =
     (case ata_port port of None \<Rightarrow> Inl OutOfBounds
      | Some (c, r) \<Rightarrow>
        let a = atas s c; d = ata_dev a in
        if r_cmd a = 0x30 \<and> 2 * n = 512 * ata_count a then
          if 2 * n \<le> length b then
            Inr (s\<lparr>images := (images s)(c := (images s c)(d := write_image (images s c d) (ata_lba a) (ata_count a) b))\<rparr>)
          else Inl OutOfBounds
        else Inl OutOfBounds)"

section \<open>Commands\<close>

definition select_disk :: "disk_ptr \<Rightarrow> 'z dstate_scheme \<Rightarrow> 'z dstate_scheme res" where
  "select_disk hdd s =
     bindE (get_disk hdd s) (\<lambda>d.
     bindE (disk_channel hdd s) (\<lambda>c.
     bindE (get_channel c s) (\<lambda>ch.
       Inr (outb (port_base ch + 6) (if dev_no d = 1 then 0xa0 OR 0x40 OR 0x10 else 0xa0 OR 0x40) s))))"

definition select_sector :: "disk_ptr \<Rightarrow> u32 \<Rightarrow> u8 \<Rightarrow> 'z dstate_scheme \<Rightarrow> 'z dstate_scheme res" where
  "select_sector hdd lba cnt s =
     bindE (get_disk hdd s) (\<lambda>d.
     bindE (disk_channel hdd s) (\<lambda>c.
     bindE (get_channel c s) (\<lambda>ch.
       let s1 = outb (port_base ch + 2) cnt s;
           s2 = outb (port_base ch + 3) (ucast lba) s1;
           s3 = outb (port_base ch + 4) (ucast (drop_bit 8 lba)) s2;
           s4 = outb (port_base ch + 5) (ucast (drop_bit 16 lba)) s3 in
       Inr (outb (port_base ch + 6)
              (ucast (drop_bit 24 lba OR 0xa0 OR 0x40 OR (if dev_no d = 1 then 0x10 else 0))) s4))))"

definition cmd_out :: "nat \<Rightarrow> u8 \<Rightarrow> 'z dstate_scheme \<Rightarrow> 'z dstate_scheme res" where
  "cmd_out c cmd s =
     bindE (get_channel c s) (\<lambda>ch.
       Inr (outb (port_base ch + 7) cmd (set_channel c (ch\<lparr>expecting_intr := True\<rparr>) s)))"

text \<open>\<open>sec_cnt = 0\<close> stands for 256 sectors.  The data is put into the buffer at \<open>off\<close>.\<close>

definition size_byte :: "u32 \<Rightarrow> u32" where
  "size_byte cnt = (if cnt = 0 then 256 * 512 else cnt * 512)"

definition read_from_sector :: "disk_ptr \<Rightarrow> buf \<Rightarrow> nat \<Rightarrow> u32 \<Rightarrow> 'z dstate_scheme \<Rightarrow> buf res" where
  "read_from_sector hdd b off cnt s =
     bindE (disk_channel hdd s) (\<lambda>c.
     bindE (get_channel c s) (\<lambda>ch.
     bindE (insw (port_base ch) (unat (size_byte cnt div 2)) s) (\<lambda>d. put_bytes b off d)))"

definition write2sector :: "disk_ptr \<Rightarrow> buf \<Rightarrow> nat \<Rightarrow> u32 \<Rightarrow> 'z dstate_scheme \<Rightarrow> 'z dstate_scheme res" where
  "write2sector hdd b off cnt s =
     bindE (disk_channel hdd s) (\<lambda>c.
     bindE (get_channel c s) (\<lambda>ch.
       outsw (port_base ch) (drop off b) (unat (size_byte cnt div 2)) s))"

text \<open>\<open>while (time_limit -= 10)\<close> from 30000: 2999 rounds.  \<open>mtime_sleep\<close> lets the others run.\<close>

fun busy_wait_loop :: "u16 \<Rightarrow> nat \<Rightarrow> 'z dstate_scheme \<Rightarrow> bool \<times> 'z dstate_scheme" where
  "busy_wait_loop port 0 s = (False, s)"
| "busy_wait_loop port (Suc n) s =
     (let (v, s1) = inb port s in
      if v AND 0x80 = 0 then let (w, s2) = inb port s1 in (w AND 0x08 \<noteq> 0, s2)
      else busy_wait_loop port n s1)"

declare busy_wait_loop.simps [simp del]

definition busy_wait :: "disk_ptr \<Rightarrow> 'z dstate_scheme \<Rightarrow> (bool \<times> 'z dstate_scheme) res" where
  "busy_wait hdd s =
     bindE (disk_channel hdd s) (\<lambda>c.
     bindE (get_channel c s) (\<lambda>ch. Inr (busy_wait_loop (port_base ch + 7) 2999 s)))"

definition intr_hd_handler :: "u8 \<Rightarrow> 'z dstate_scheme \<Rightarrow> 'z dstate_scheme res" where
  "intr_hd_handler irq s =
     (let channel_no = unat (irq - 0x2e) in
      bindE (get_channel channel_no s) (\<lambda>ch.
      if expecting_intr ch then
        bindE (sema_up (Disk_done channel_no) (set_channel channel_no (ch\<lparr>expecting_intr := False\<rparr>) s)) (\<lambda>s1.
          Inr (snd (inb (port_base ch + 7) s1)))
      else Inr s))"

text \<open>\<open>sema_down(&hd->my_channel->disk_done)\<close>\<close>

definition wait_disk :: "disk_ptr \<Rightarrow> 'z dstate_scheme \<Rightarrow> 'z dstate_scheme res" where
  "wait_disk hdd s =
     bindE (disk_channel hdd s) (\<lambda>c.
     bindE (get_channel c s) (\<lambda>ch.
     bindE (intr_hd_handler (irq_no ch) s) (\<lambda>s1.
     bindE (sema_down (Disk_done c) s1) (\<lambda>(got, s2). if got then Inr s2 else Inl WouldBlock))))"

section \<open>Reading and writing sectors\<close>

definition per_op :: "u32 \<Rightarrow> u32 \<Rightarrow> u32" where
  "per_op cnt sec_cnt_done = (if cnt - sec_cnt_done \<ge> 256 then 256 else cnt - sec_cnt_done)"

lemma per_op_progress:
  assumes "sec_cnt_done < cnt"
  shows "unat (per_op cnt sec_cnt_done) \<le> unat (cnt - sec_cnt_done)" and "0 < unat (per_op cnt sec_cnt_done)"
    and "unat (cnt - (sec_cnt_done + per_op cnt sec_cnt_done)) < unat (cnt - sec_cnt_done)"
proof -
  let ?d = "cnt - sec_cnt_done" and ?p = "per_op cnt sec_cnt_done"
  have "?d \<noteq> 0" using assms by auto
  then have "?p \<noteq> 0" by (auto simp: per_op_def)
  then show p: "0 < unat ?p" by (simp add: unat_gt_0)
  show le: "unat ?p \<le> unat ?d" by (simp add: per_op_def word_le_nat_alt)
  have eq: "cnt - (sec_cnt_done + ?p) = ?d - ?p" by simp
  have "unat (cnt - (sec_cnt_done + ?p)) = unat ?d - unat ?p"
    unfolding eq using unat_sub [of ?p ?d] le by (simp add: word_le_nat_alt)
  then show "unat (cnt - (sec_cnt_done + ?p)) < unat ?d" using p le by simp
qed

text \<open>One round of the loop of \<open>ide_read\<close>; a disk that is not ready ends in \<open>PANIC\<close>.\<close>

definition read_op :: "disk_ptr \<Rightarrow> u32 \<Rightarrow> buf \<Rightarrow> u32 \<Rightarrow> u32 \<Rightarrow> 'z dstate_scheme \<Rightarrow> (buf \<times> 'z dstate_scheme) res" where
  "read_op hdd lba b sec_cnt_done sec_cnt_per_op s =
     bindE (select_sector hdd (lba + sec_cnt_done) (ucast sec_cnt_per_op) s) (\<lambda>s1.
     bindE (disk_channel hdd s1) (\<lambda>c.
     bindE (cmd_out c 0x20 s1) (\<lambda>s2.
     bindE (wait_disk hdd s2) (\<lambda>s3.
     bindE (busy_wait hdd s3) (\<lambda>(ready, s4).
     if \<not> ready then Inl Panic_call
     else bindE (read_from_sector hdd b (unat (sec_cnt_done * 512)) sec_cnt_per_op s4) (\<lambda>b1. Inr (b1, s4)))))))"

function ide_read_loop :: "disk_ptr \<Rightarrow> u32 \<Rightarrow> u32 \<Rightarrow> buf \<Rightarrow> u32 \<Rightarrow> 'z dstate_scheme \<Rightarrow> (buf \<times> 'z dstate_scheme) res" where
  "ide_read_loop hdd lba cnt b sec_cnt_done s =
     (if sec_cnt_done < cnt then
        let sec_cnt_per_op = per_op cnt sec_cnt_done in
        bindE (read_op hdd lba b sec_cnt_done sec_cnt_per_op s) (\<lambda>(b1, s1).
          ide_read_loop hdd lba cnt b1 (sec_cnt_done + sec_cnt_per_op) s1)
      else Inr (b, s))"
  by pat_completeness auto
termination
  by (relation "measure (\<lambda>(hdd, lba, cnt, b, sec_cnt_done, s). unat (cnt - sec_cnt_done))")
    (auto dest: per_op_progress(3))

declare ide_read_loop.simps [simp del]

definition ide_read :: "disk_ptr \<Rightarrow> u32 \<Rightarrow> buf \<Rightarrow> u32 \<Rightarrow> 'z dstate_scheme \<Rightarrow> (buf \<times> 'z dstate_scheme) res" where
  "ide_read hdd lba b cnt s =
     bindE (disk_channel hdd s) (\<lambda>c.
     bindE (lock_acquire (Channel_lock c) s) (\<lambda>s1.
     bindE (select_sector hdd lba (ucast cnt) s1) (\<lambda>s2.
     bindE (select_disk hdd s2) (\<lambda>s3.
     bindE (ide_read_loop hdd lba cnt b 0 s3) (\<lambda>(b1, s4).
     bindE (lock_release (Channel_lock c) s4) (\<lambda>s5. Inr (b1, s5)))))))"

definition write_op :: "disk_ptr \<Rightarrow> u32 \<Rightarrow> buf \<Rightarrow> u32 \<Rightarrow> u32 \<Rightarrow> 'z dstate_scheme \<Rightarrow> 'z dstate_scheme res" where
  "write_op hdd lba b sec_cnt_done sec_cnt_per_op s =
     bindE (select_sector hdd (lba + sec_cnt_done) (ucast sec_cnt_per_op) s) (\<lambda>s1.
     bindE (disk_channel hdd s1) (\<lambda>c.
     bindE (cmd_out c 0x30 s1) (\<lambda>s2.
     bindE (busy_wait hdd s2) (\<lambda>(ready, s3).
     if \<not> ready then Inl Panic_call
     else
       bindE (write2sector hdd b (unat (sec_cnt_done * 512)) sec_cnt_per_op s3) (\<lambda>s4. wait_disk hdd s4)))))"

function ide_write_loop :: "disk_ptr \<Rightarrow> u32 \<Rightarrow> u32 \<Rightarrow> buf \<Rightarrow> u32 \<Rightarrow> 'z dstate_scheme \<Rightarrow> 'z dstate_scheme res" where
  "ide_write_loop hdd lba cnt b sec_cnt_done s =
     (if sec_cnt_done < cnt then
        let sec_cnt_per_op = per_op cnt sec_cnt_done in
        bindE (write_op hdd lba b sec_cnt_done sec_cnt_per_op s)
          (ide_write_loop hdd lba cnt b (sec_cnt_done + sec_cnt_per_op))
      else Inr s)"
  by pat_completeness auto
termination
  by (relation "measure (\<lambda>(hdd, lba, cnt, b, sec_cnt_done, s). unat (cnt - sec_cnt_done))")
    (auto dest: per_op_progress(3))

declare ide_write_loop.simps [simp del]

definition ide_write :: "disk_ptr \<Rightarrow> u32 \<Rightarrow> buf \<Rightarrow> u32 \<Rightarrow> 'z dstate_scheme \<Rightarrow> 'z dstate_scheme res" where
  "ide_write hdd lba b cnt s =
     bindE (disk_channel hdd s) (\<lambda>c.
     bindE (lock_acquire (Channel_lock c) s) (\<lambda>s1.
     bindE (select_disk hdd s1) (\<lambda>s2.
     bindE (ide_write_loop hdd lba cnt b 0 s2) (lock_release (Channel_lock c)))))"

section \<open>Identification\<close>

text \<open>The texts it prints (serial number, model) and the number of sectors are its result.  The
  channel's lock is acquired and not released.\<close>

definition identify_disk :: "disk_ptr \<Rightarrow> 'z dstate_scheme \<Rightarrow> ((buf \<times> buf \<times> u32) \<times> 'z dstate_scheme) res" where
  "identify_disk hdd s =
     bindE (disk_channel hdd s) (\<lambda>c.
     bindE (lock_acquire (Channel_lock c) s) (\<lambda>s1.
     bindE (select_disk hdd s1) (\<lambda>s2.
     bindE (cmd_out c 0xec s2) (\<lambda>s3.
     bindE (wait_disk hdd s3) (\<lambda>s4.
     bindE (busy_wait hdd s4) (\<lambda>(ready, s5).
     if \<not> ready then Inl Panic_call
     else
       bindE (read_from_sector hdd (replicate 512 0) 0 1 s5) (\<lambda>id_info.
       bindE (swap_pairs_bytes (drop 20 id_info) (replicate 64 0) 20) (\<lambda>sn.
       bindE (memset (Some sn) 0 20) (\<lambda>b0.
       bindE (swap_pairs_bytes (drop 54 id_info) b0 40) (\<lambda>md.
       bindE (get32 id_info 120) (\<lambda>sectors. Inr ((sn, md, sectors), s5))))))))))))"

section \<open>The registers name what the driver means\<close>

lemma unat_ucast_mod: "unat (ucast (w :: u32) :: u8) = unat w mod 256"
  by (simp add: unsigned_ucast_eq take_bit_eq_mod)

lemma unat_drop_bit_div: "unat (drop_bit n (w :: u32)) = unat w div 2 ^ n"
  unfolding unat_drop_bit_eq by (simp add: drop_bit_eq_div)

lemma split_bytes:
  fixes n :: nat
  shows "n mod 256 + 256 * (n div 256 mod 256) + 65536 * (n div 65536 mod 256) + 16777216 * (n div 16777216) = n"
proof -
  define a where "a = n div 256"
  define b where "b = a div 256"
  have e: "n div 65536 = b" "n div 16777216 = b div 256"
    using div_mult2_eq [of n 256 256] div_mult2_eq [of n 65536 256] by (simp_all add: a_def b_def)
  have "n = 256 * a + n mod 256" "a = 256 * b + a mod 256" "b = 256 * (b div 256) + b mod 256"
    by (simp_all add: a_def b_def)
  then show ?thesis unfolding e a_def [symmetric] by linarith
qed

definition device_byte :: "u32 \<Rightarrow> nat \<Rightarrow> u8" where
  "device_byte lba d = ucast (drop_bit 24 lba OR 0xa0 OR 0x40 OR (if d = 1 then 0x10 else 0 :: u32))"

lemma device_byte_bits:
  assumes "lba < 2 ^ 28" and "d < 2"
  shows "unat (device_byte lba d AND 0x0f) = unat lba div 16777216"
    and "(device_byte lba d AND 0x10 = 0) = (d = 0)"
proof -
  have nb: "\<not> bit lba n" if "28 \<le> n" for n using bit_less_2p [OF assms(1) _ that] by simp
  have low: "device_byte lba d AND 0x0f = ucast (drop_bit 24 lba)"
  proof (rule bit_word_eqI)
    fix n assume "n < LENGTH(8)"
    then have "n \<in> {0, 1, 2, 3, 4, 5, 6, 7}" by (auto; arith)
    then show "bit (device_byte lba d AND 0x0f) n = bit (ucast (drop_bit 24 lba) :: u8) n"
      using nb by (elim insertE emptyE) (auto simp: device_byte_def bit_simps)
  qed
  have l: "unat lba div 16777216 < 16" using assms(1) by (simp add: word_less_nat_alt less_mult_imp_div_less)
  then show "unat (device_byte lba d AND 0x0f) = unat lba div 16777216"
    by (simp add: low unat_ucast_mod unat_drop_bit_div)
  have "(0x10 :: u8) = 2 ^ 4" by simp
  then have "(device_byte lba d AND 0x10 = 0) = (\<not> bit (device_byte lba d) 4)"
    by (simp only: and_2p) simp
  also have "\<dots> = (d = 0)" using nb [of 28] assms(2) by (auto simp: device_byte_def bit_simps)
  finally show "(device_byte lba d AND 0x10 = 0) = (d = 0)" .
qed

definition base_port :: "nat \<Rightarrow> u16" where
  "base_port c = (if c = 0 then 0x1f0 else 0x170)"

lemma ata_ports:
  assumes "c < 2"
  shows "ata_port (base_port c) = Some (c, 0)" and "ata_port (base_port c + 2) = Some (c, 2)"
    and "ata_port (base_port c + 3) = Some (c, 3)" and "ata_port (base_port c + 4) = Some (c, 4)"
    and "ata_port (base_port c + 5) = Some (c, 5)" and "ata_port (base_port c + 6) = Some (c, 6)"
    and "ata_port (base_port c + 7) = Some (c, 7)"
  using assms by (cases "c = 0"; simp add: base_port_def ata_port_def)+

section \<open>A working disk\<close>

text \<open>
  What the initialisation sets up and every operation keeps: the structures of the disk, an idle
  channel whose lock is free or already held by the running thread, and a controller that is never
  busy when asked.
\<close>

definition disk_wired :: "nat \<Rightarrow> nat \<Rightarrow> 'z dstate_scheme \<Rightarrow> bool" where
  "disk_wired c d s \<longleftrightarrow>
     c < 2 \<and> d < 2 \<and> c < length (channels s) \<and>
     (let ch = channels s ! c in
      port_base ch = base_port c \<and> irq_no ch = 0x2e + of_nat c \<and> d < length (devices ch) \<and>
      my_channel (devices ch ! d) = Some c \<and> dev_no (devices ch ! d) = of_nat d)"

definition disk_up :: "nat \<Rightarrow> nat \<Rightarrow> 'z dstate_scheme \<Rightarrow> bool" where
  "disk_up c d s \<longleftrightarrow> disk_wired c d s \<and> \<not> expecting_intr (channels s ! c)"

lemma disk_up_wired: "disk_up c d s \<Longrightarrow> disk_wired c d s"
  by (simp add: disk_up_def)

definition controller_ready :: "nat \<Rightarrow> 'z dstate_scheme \<Rightarrow> bool" where
  "controller_ready c s \<longleftrightarrow> (\<forall>n. status_reads s c n AND 0x80 = 0 \<and> status_reads s c n AND 0x08 \<noteq> 0)"

definition channel_lock_ok :: "nat \<Rightarrow> 'z kstate_scheme \<Rightarrow> bool" where
  "channel_lock_ok c s \<longleftrightarrow>
     lock_free (Channel_lock c) s \<and> holder_repeat_nr (locks s (Channel_lock c)) = 0 \<or>
     running s \<noteq> 0 \<and> holder (locks s (Channel_lock c)) = running s \<and> 0 < holder_repeat_nr (locks s (Channel_lock c)) \<and>
     holder_repeat_nr (locks s (Channel_lock c)) < 0xffffffff"

definition ide_up :: "nat \<Rightarrow> nat \<Rightarrow> 'z dstate_scheme \<Rightarrow> bool" where
  "ide_up c d s \<longleftrightarrow>
     disk_up c d s \<and> controller_ready c s \<and> channel_lock_ok c s \<and>
     sema_value s (Disk_done c) = 0 \<and> queue s (Waiters (Disk_done c)) []"

section \<open>Single commands\<close>

definition sector_regs :: "u32 \<Rightarrow> u8 \<Rightarrow> nat \<Rightarrow> ata \<Rightarrow> ata" where
  "sector_regs lba cnt d a =
     a\<lparr>r_sect_cnt := cnt, r_lba_l := ucast lba, r_lba_m := ucast (drop_bit 8 lba),
       r_lba_h := ucast (drop_bit 16 lba), r_dev := device_byte lba d\<rparr>"

lemma sector_regs_name:
  assumes "lba < 2 ^ 28" and "d < 2"
  shows "ata_lba ((sector_regs lba cnt d a)\<lparr>r_cmd := v\<rparr>) = unat lba"
    and "ata_count ((sector_regs lba cnt d a)\<lparr>r_cmd := v\<rparr>) = (if cnt = 0 then 256 else unat cnt)"
    and "ata_dev ((sector_regs lba cnt d a)\<lparr>r_cmd := v\<rparr>) = d"
proof -
  note b = device_byte_bits [OF assms]
  show "ata_lba ((sector_regs lba cnt d a)\<lparr>r_cmd := v\<rparr>) = unat lba"
    using split_bytes [of "unat lba"]
    by (simp add: ata_lba_def sector_regs_def b(1) unat_ucast_mod unat_drop_bit_div)
  show "ata_count ((sector_regs lba cnt d a)\<lparr>r_cmd := v\<rparr>) = (if cnt = 0 then 256 else unat cnt)"
    by (simp add: ata_count_def sector_regs_def)
  show "ata_dev ((sector_regs lba cnt d a)\<lparr>r_cmd := v\<rparr>) = d"
    using b(2) assms(2) by (auto simp: ata_dev_def sector_regs_def)
qed

text \<open>The state with other registers of the channel and a later status clock.\<close>

definition ide_after :: "nat \<Rightarrow> ata \<Rightarrow> nat \<Rightarrow> 'z dstate_scheme \<Rightarrow> 'z dstate_scheme" where
  "ide_after c a k s = s\<lparr>atas := (atas s)(c := a), status_clock := (status_clock s)(c := k)\<rparr>"

lemma ide_after_simps [simp]:
  "atas (ide_after c a k s) = (atas s)(c := a)"
  "status_clock (ide_after c a k s) = (status_clock s)(c := k)"
  "channels (ide_after c a k s) = channels s"
  "images (ide_after c a k s) = images s"
  "status_reads (ide_after c a k s) = status_reads s"
  "sema_value (ide_after c a k s) = sema_value s"
  "locks (ide_after c a k s) = locks s"
  "running (ide_after c a k s) = running s"
  "queue (ide_after c a k s) l xs = queue s l xs"
  "ide_after c a k (ide_after c a' k' s) = ide_after c a k s"
  by (simp_all add: ide_after_def queue_def dll_def)

lemma disk_up_cong:
  "channels s' = channels s \<Longrightarrow> disk_up c d s' = disk_up c d s"
  by (simp add: disk_up_def disk_wired_def)

lemma disk_wired_ptr:
  assumes "disk_wired c d s"
  shows "get_channel c s = Inr (channels s ! c)" and "get_disk (c, d) s = Inr (devices (channels s ! c) ! d)"
    and "disk_channel (c, d) s = Inr c"
  using assms by (auto simp: disk_wired_def Let_def get_channel_def get_disk_def disk_channel_def)

lemmas disk_up_ptr = disk_wired_ptr [OF disk_up_wired]

lemma outb_port: "ata_port port = Some (c, r) \<Longrightarrow>
  outb port v s = s\<lparr>atas := (atas s)(c := ata_write r v (atas s c))\<rparr>"
  by (simp add: outb_def)

lemma select_sector_ok:
  assumes "disk_up c d s"
  shows "select_sector (c, d) lba cnt s =
           Inr (ide_after c (sector_regs lba cnt d (atas s c)) (status_clock s c) s)"
proof -
  have c: "c < 2" "d < 2" and p: "port_base (channels s ! c) = base_port c"
    and dn: "dev_no (devices (channels s ! c) ! d) = of_nat d"
    using assms by (auto simp: disk_up_def disk_wired_def Let_def)
  have "((of_nat d :: u8) = 1) = (d = 1)" using c(2) by (auto simp: less_2_cases_iff)
  then show ?thesis
    using disk_up_ptr [OF assms] p dn
    by (simp add: select_sector_def Let_def outb_port ata_ports [OF c(1)] ata_write_def ide_after_def
        sector_regs_def device_byte_def)
qed

lemma select_disk_ok:
  assumes "disk_up c d s"
  shows "\<exists>a. select_disk (c, d) s = Inr (ide_after c a (status_clock s c) s)"
proof -
  have c: "c < 2" and p: "port_base (channels s ! c) = base_port c"
    using assms by (auto simp: disk_up_def disk_wired_def Let_def)
  show ?thesis
    using disk_up_ptr [OF assms] p
    by (simp add: select_disk_def outb_port ata_ports [OF c] ide_after_def) (metis fun_upd_triv)
qed

definition expecting :: "nat \<Rightarrow> 'z dstate_scheme \<Rightarrow> 'z dstate_scheme" where
  "expecting c s = set_channel c ((channels s ! c)\<lparr>expecting_intr := True\<rparr>) s"

lemma cmd_out_ok:
  assumes "disk_up c d s"
  shows "cmd_out c v s = Inr (expecting c (ide_after c ((atas s c)\<lparr>r_cmd := v\<rparr>) (status_clock s c) s))"
proof -
  have c: "c < 2" and p: "port_base (channels s ! c) = base_port c"
    using assms by (auto simp: disk_up_def disk_wired_def Let_def)
  show ?thesis
    using disk_up_ptr [OF assms] p
    by (simp add: cmd_out_def outb_port ata_ports [OF c] ide_after_def ata_write_def expecting_def set_channel_def)
qed

lemma inb_status:
  assumes "c < 2"
  shows "inb (base_port c + 7) s = (status_reads s c (status_clock s c), ide_after c (atas s c) (Suc (status_clock s c)) s)"
  by (simp add: inb_def ata_ports [OF assms] ide_after_def)

lemma wait_disk_ok:
  assumes "disk_up c d s" and "sema_value s (Disk_done c) = 0" and "queue s (Waiters (Disk_done c)) []"
  shows "wait_disk (c, d) (expecting c s) = Inr (ide_after c (atas s c) (Suc (status_clock s c)) s)"
proof -
  let ?ch = "channels s ! c" and ?e = "expecting c s"
  have c: "c < 2" "c < length (channels s)" and p: "port_base ?ch = base_port c"
    and irq: "irq_no ?ch = 0x2e + of_nat c" and x: "\<not> expecting_intr ?ch"
    using assms(1) by (auto simp: disk_up_def disk_wired_def Let_def)
  have ch: "channels ?e = (channels s)[c := ?ch\<lparr>expecting_intr := True\<rparr>]"
    by (simp add: expecting_def set_channel_def)
  have g: "get_channel c ?e = Inr (?ch\<lparr>expecting_intr := True\<rparr>)"
    using c(2) by (simp add: get_channel_def ch)
  have dc: "disk_channel (c, d) ?e = Inr c"
    using assms(1) by (auto simp: disk_up_def disk_wired_def Let_def disk_channel_def get_disk_def g)
  have same: "?ch\<lparr>expecting_intr := False\<rparr> = ?ch" using x by (cases "?ch") simp
  have undo: "set_channel c (?ch\<lparr>expecting_intr := False\<rparr>) ?e = s"
    using c(2) unfolding same by (simp add: set_channel_def expecting_def)
  have no: "unat (irq_no ?ch - 0x2e) = c" using c(1) irq by (auto simp: less_2_cases_iff)
  let ?u = "s\<lparr>sema_value := (sema_value s)(Disk_done c := 1)\<rparr>"
  let ?v = "ide_after c (atas s c) (Suc (status_clock s c)) ?u"
  have "intr_hd_handler (irq_no ?ch) ?e = Inr ?v"
    using no g undo sema_up_free [OF assms(2,3)] p inb_status [OF c(1), of ?u]
    by (simp add: intr_hd_handler_def)
  moreover have "sema_down (Disk_done c) ?v = Inr (True, ?v\<lparr>sema_value := (sema_value ?v)(Disk_done c := 0)\<rparr>)"
    by (rule sema_down_free) simp
  moreover have "?v\<lparr>sema_value := (sema_value ?v)(Disk_done c := 0)\<rparr> =
      ide_after c (atas s c) (Suc (status_clock s c)) s"
  proof -
    have "(sema_value s)(Disk_done c := 0) = sema_value s" using assms(2) by (metis fun_upd_triv)
    then show ?thesis by (simp add: ide_after_def)
  qed
  ultimately show ?thesis by (simp add: wait_disk_def dc g)
qed

lemma busy_wait_ok:
  assumes "disk_wired c d s" and "controller_ready c s"
  shows "busy_wait (c, d) s = Inr (True, ide_after c (atas s c) (Suc (Suc (status_clock s c))) s)"
proof -
  have c: "c < 2" and p: "port_base (channels s ! c) = base_port c"
    using assms(1) by (auto simp: disk_wired_def Let_def)
  have "busy_wait_loop (base_port c + 7) (Suc n) s =
      (True, ide_after c (atas s c) (Suc (Suc (status_clock s c))) s)" for n
    using assms(2) c by (simp add: inb_status controller_ready_def busy_wait_loop.simps(2))
  from this [of 2998] show ?thesis
    using disk_wired_ptr [OF assms(1)] p by (simp add: busy_wait_def)
qed


section \<open>Reading and writing\<close>

text \<open>The channel's lock taken by the running thread, once more when it has it already.\<close>

definition lock_entered :: "lock_id \<Rightarrow> 'z kstate_scheme \<Rightarrow> 'z kstate_scheme" where
  "lock_entered l s =
     (if holder (locks s l) = running s then set_repeat l (holder_repeat_nr (locks s l) + 1) s else lock_held l s)"

lemma lock_entered_acquire:
  assumes "channel_lock_ok c s"
  shows "lock_acquire (Channel_lock c) s = Inr (lock_entered (Channel_lock c) s)"
  using assms lock_acquire_free [of "Channel_lock c" s]
  by (auto simp: channel_lock_ok_def lock_entered_def lock_free_def lock_acquire_def)

lemma lock_entered_release:
  assumes "channel_lock_ok c s"
  shows "lock_release (Channel_lock c) (lock_entered (Channel_lock c) s) = Inr s"
proof -
  let ?l = "Channel_lock c"
  from assms consider (free) "lock_free ?l s" "holder_repeat_nr (locks s ?l) = 0"
    | (held) "holder (locks s ?l) = running s" "0 < holder_repeat_nr (locks s ?l)"
      "holder_repeat_nr (locks s ?l) < 0xffffffff" by (auto simp: channel_lock_ok_def)
  then show ?thesis
  proof cases
    case free
    have "locks s ?l = \<lparr>holder = 0, holder_repeat_nr = 0\<rparr>"
      using free by (cases "locks s ?l") (simp add: lock_free_def)
    then have "(locks s)(?l := \<lparr>holder = 0, holder_repeat_nr = 0\<rparr>) = locks s"
      by (metis fun_upd_triv)
    moreover have "(sema_value s)(Lock_sema ?l := 1) = sema_value s"
      using free(1) by (metis fun_upd_triv lock_free_def)
    ultimately have "lock_freed ?l s = s" by (simp add: lock_freed_def)
    moreover have "lock_entered ?l s = lock_held ?l s" using free(1) by (simp add: lock_entered_def lock_free_def)
    ultimately show ?thesis using lock_release_held [OF free(1)] by simp
  next
    case held
    have n: "1 < holder_repeat_nr (locks s ?l) + 1"
      using held(2,3) by (simp add: word_less_nat_alt unat_word_ariths)
    have "set_repeat ?l (holder_repeat_nr (locks s ?l)) (set_repeat ?l (holder_repeat_nr (locks s ?l) + 1) s) = s"
      by (simp add: set_repeat_def)
    then show ?thesis using held(1) n by (simp add: lock_entered_def lock_release_def) (simp add: set_repeat_def)
  qed
qed

definition with_image :: "nat \<Rightarrow> nat \<Rightarrow> (nat \<Rightarrow> buf) \<Rightarrow> 'z dstate_scheme \<Rightarrow> 'z dstate_scheme" where
  "with_image c d im s = s\<lparr>images := (images s)(c := (images s c)(d := im))\<rparr>"

lemma lock_entered_simps [simp]:
  "atas (lock_entered l s) = atas s" "status_clock (lock_entered l s) = status_clock s"
  "channels (lock_entered l s) = channels s" "images (lock_entered l s) = images s"
  "status_reads (lock_entered l s) = status_reads s" "queue (lock_entered l s) q xs = queue s q xs"
  "sema_value (lock_entered l s) (Disk_done c) = sema_value s (Disk_done c)"
  by (simp_all add: lock_entered_def set_repeat_def lock_held_def queue_def dll_def)

lemma lock_entered_frame:
  "lock_entered l (ide_after c a k s) = ide_after c a k (lock_entered l s)"
  "lock_entered l (with_image c d im s) = with_image c d im (lock_entered l s)"
  by (simp_all add: lock_entered_def ide_after_def with_image_def set_repeat_def lock_held_def)

lemma with_image_simps [simp]:
  "atas (with_image c d im s) = atas s" "status_clock (with_image c d im s) = status_clock s"
  "channels (with_image c d im s) = channels s"
  "images (with_image c d im s) = (images s)(c := (images s c)(d := im))"
  "status_reads (with_image c d im s) = status_reads s" "sema_value (with_image c d im s) = sema_value s"
  "locks (with_image c d im s) = locks s" "running (with_image c d im s) = running s"
  "queue (with_image c d im s) q xs = queue s q xs"
  "with_image c d im (ide_after e a k s) = ide_after e a k (with_image c d im s)"
  "with_image c d im (with_image c d im' s) = with_image c d im s"
  by (simp_all add: ide_after_def with_image_def queue_def dll_def)

lemma with_image_same [simp]: "with_image c d (images s c d) s = s"
  by (simp add: with_image_def)

text \<open>What the single rounds need: the lock is not looked at.\<close>

definition ide_idle :: "nat \<Rightarrow> nat \<Rightarrow> 'z dstate_scheme \<Rightarrow> bool" where
  "ide_idle c d s \<longleftrightarrow>
     disk_up c d s \<and> controller_ready c s \<and> sema_value s (Disk_done c) = 0 \<and> queue s (Waiters (Disk_done c)) []"

lemma ide_idle_frame [simp]:
  "ide_idle c d (ide_after e a k s) = ide_idle c d s"
  "ide_idle c d (with_image e f im s) = ide_idle c d s"
  "ide_idle c d (lock_entered l s) = ide_idle c d s"
  by (simp_all add: ide_idle_def disk_up_def disk_wired_def controller_ready_def)

lemma channel_lock_ok_frame [simp]:
  "channel_lock_ok c (ide_after e a k s) = channel_lock_ok c s"
  "channel_lock_ok c (with_image e f im s) = channel_lock_ok c s"
  by (simp_all add: channel_lock_ok_def lock_free_def)

lemma ide_up_idle: "ide_up c d s = (ide_idle c d s \<and> channel_lock_ok c s)"
  by (auto simp: ide_up_def ide_idle_def)

lemma ide_up_frame [simp]:
  "ide_up c d (ide_after e a k s) = ide_up c d s"
  "ide_up c d (with_image e f im s) = ide_up c d s"
  by (simp_all add: ide_up_idle)


lemma expecting_frame [simp]:
  "atas (expecting c s) = atas s" "status_clock (expecting c s) = status_clock s"
  "images (expecting c s) = images s" "status_reads (expecting c s) = status_reads s"
  "sema_value (expecting c s) = sema_value s" "queue (expecting c s) q xs = queue s q xs"
  by (simp_all add: expecting_def set_channel_def queue_def dll_def)

lemma expecting_after: "expecting c (ide_after c a k s) = ide_after c a k (expecting c s)"
  by (simp add: expecting_def set_channel_def ide_after_def)

lemma expecting_image: "expecting c (with_image c d im s) = with_image c d im (expecting c s)"
  by (simp add: expecting_def set_channel_def with_image_def)

lemma size_byte_half:
  assumes "0 < unat n" and "unat n \<le> 256"
  shows "unat (size_byte n div 2) = 256 * unat n"
proof -
  have n: "n \<noteq> 0" using assms(1) by auto
  have "unat (n * 512) = unat n * 512" using assms(2) by (simp add: unat_word_ariths)
  then have "unat (n * 512 div 2) = unat n * 512 div 2" by (simp add: unat_div)
  then show ?thesis using n by (simp add: size_byte_def)
qed

lemma sector_count_byte:
  assumes "0 < unat (n :: u32)" and "unat n \<le> 256"
  shows "(if (ucast n :: u8) = 0 then 256 else unat (ucast n :: u8)) = unat n"
proof (cases "unat n = 256")
  case True
  then have "unat (ucast n :: u8) = 0" by (simp add: unat_ucast_mod)
  then show ?thesis using True by (simp add: unat_eq_0)
next
  case False
  then have u: "unat (ucast n :: u8) = unat n" using assms(2) by (simp add: unat_ucast_mod)
  then have "(ucast n :: u8) \<noteq> 0" using assms(1) by (metis neq0_conv unat_0)
  then show ?thesis using u by simp
qed

lemma insw_sectors:
  fixes n :: u32
  assumes "disk_wired c d s" and "lba < 2 ^ 28" and "0 < unat n" and "unat n \<le> 256"
    and "atas s c = (sector_regs lba (ucast n) d a)\<lparr>r_cmd := 0x20\<rparr>"
  shows "insw (base_port c) (256 * unat n) s = Inr (read_image (images s c d) (unat lba) (unat n))"
proof -
  have c: "c < 2" "d < 2" using assms(1) by (auto simp: disk_wired_def)
  note r = sector_regs_name [OF assms(2) c(2)]
  show ?thesis
    using sector_count_byte [OF assms(3,4)]
    by (simp add: insw_def ata_ports [OF c(1)] assms(5) r Let_def)
qed

lemma outsw_sectors:
  fixes n :: u32
  assumes "disk_wired c d s" and "lba < 2 ^ 28" and "0 < unat n" and "unat n \<le> 256"
    and "atas s c = (sector_regs lba (ucast n) d a)\<lparr>r_cmd := 0x30\<rparr>" and "512 * unat n \<le> length b"
  shows "outsw (base_port c) b (256 * unat n) s =
           Inr (with_image c d (write_image (images s c d) (unat lba) (unat n) b) s)"
proof -
  have c: "c < 2" "d < 2" using assms(1) by (auto simp: disk_wired_def)
  note r = sector_regs_name [OF assms(2) c(2)]
  show ?thesis
    using sector_count_byte [OF assms(3,4)] assms(6)
    by (simp add: outsw_def ata_ports [OF c(1)] assms(5) r Let_def with_image_def)
qed

lemma disk_wired_expecting [simp]: "disk_wired c d (expecting c s) = disk_wired c d s"
  by (auto simp: disk_wired_def Let_def expecting_def set_channel_def)

lemma disk_wired_frame [simp]:
  "disk_wired c d (ide_after e a k s) = disk_wired c d s"
  "disk_wired c d (with_image e f im s) = disk_wired c d s"
  by (simp_all add: disk_wired_def)

lemma read_op_ok:
  assumes "ide_idle c d s" and "lba + k < 2 ^ 28" and "0 < unat n" and "unat n \<le> 256"
  shows "\<exists>a j. read_op (c, d) lba b k n s =
           bindE (put_bytes b (unat (k * 512)) (read_image (images s c d) (unat (lba + k)) (unat n)))
             (\<lambda>b1. Inr (b1, ide_after c a j s))"
proof -
  let ?a = "(sector_regs (lba + k) (ucast n) d (atas s c))\<lparr>r_cmd := 0x20\<rparr>"
  let ?s1 = "ide_after c (sector_regs (lba + k) (ucast n) d (atas s c)) (status_clock s c) s"
  let ?s2 = "ide_after c ?a (status_clock s c) s"
  let ?s3 = "ide_after c ?a (Suc (status_clock s c)) s"
  let ?s4 = "ide_after c ?a (Suc (Suc (Suc (status_clock s c)))) s"
  have up: "disk_up c d s" "disk_up c d ?s1" "disk_up c d ?s2" "disk_wired c d ?s3" "disk_wired c d ?s4"
    and idle: "sema_value ?s2 (Disk_done c) = 0" "queue ?s2 (Waiters (Disk_done c)) []"
    and ready: "controller_ready c ?s3"
    using assms(1) by (simp_all add: ide_idle_def disk_up_def controller_ready_def)
  have c: "port_base (channels s ! c) = base_port c" using up(5) by (simp add: disk_wired_def Let_def)
  have "cmd_out c 0x20 ?s1 = Inr (expecting c ?s2)" using cmd_out_ok [OF up(2)] by simp
  moreover have "wait_disk (c, d) (expecting c ?s2) = Inr ?s3" using wait_disk_ok [OF up(3) idle] by simp
  moreover have "busy_wait (c, d) ?s3 = Inr (True, ?s4)" using busy_wait_ok [OF up(4) ready] by simp
  moreover have "read_from_sector (c, d) b (unat (k * 512)) n ?s4 =
      put_bytes b (unat (k * 512)) (read_image (images s c d) (unat (lba + k)) (unat n))"
    using insw_sectors [OF up(5) assms(2-4)] disk_wired_ptr [OF up(5)] c
    by (simp add: read_from_sector_def size_byte_half [OF assms(3,4)])
  ultimately have "read_op (c, d) lba b k n s =
      bindE (put_bytes b (unat (k * 512)) (read_image (images s c d) (unat (lba + k)) (unat n)))
        (\<lambda>b1. Inr (b1, ?s4))"
    using select_sector_ok [OF up(1)] disk_up_ptr(3) [OF up(2)] by (simp add: read_op_def)
  then show ?thesis by blast
qed

lemma write_op_ok:
  assumes "ide_idle c d s" and "lba + k < 2 ^ 28" and "0 < unat n" and "unat n \<le> 256"
    and "512 * unat n \<le> length (drop (unat (k * 512)) b)"
  shows "\<exists>a j. write_op (c, d) lba b k n s =
           Inr (ide_after c a j (with_image c d
             (write_image (images s c d) (unat (lba + k)) (unat n) (drop (unat (k * 512)) b)) s))"
proof -
  let ?a = "(sector_regs (lba + k) (ucast n) d (atas s c))\<lparr>r_cmd := 0x30\<rparr>"
  let ?im = "write_image (images s c d) (unat (lba + k)) (unat n) (drop (unat (k * 512)) b)"
  let ?j = "Suc (Suc (status_clock s c))"
  let ?s1 = "ide_after c (sector_regs (lba + k) (ucast n) d (atas s c)) (status_clock s c) s"
  let ?e = "expecting c s"
  let ?s2 = "ide_after c ?a (status_clock s c) ?e" and ?s3 = "ide_after c ?a ?j ?e"
  let ?s4 = "ide_after c ?a ?j (with_image c d ?im s)"
  have up: "disk_up c d s" "disk_up c d ?s1" "disk_wired c d ?s2" "disk_wired c d ?s3" "disk_up c d ?s4"
    and idle: "sema_value ?s4 (Disk_done c) = 0" "queue ?s4 (Waiters (Disk_done c)) []"
    and ready: "controller_ready c ?s2"
    using assms(1) by (simp_all add: ide_idle_def disk_up_def controller_ready_def)
  have c: "port_base (channels ?s3 ! c) = base_port c" using up(4) by (simp add: disk_wired_def Let_def)
  have "cmd_out c 0x30 ?s1 = Inr ?s2" using cmd_out_ok [OF up(2)] by (simp add: expecting_after)
  moreover have "busy_wait (c, d) ?s2 = Inr (True, ?s3)" using busy_wait_ok [OF up(3) ready] by simp
  moreover have "write2sector (c, d) b (unat (k * 512)) n ?s3 = Inr (expecting c ?s4)"
    using outsw_sectors [OF up(4) assms(2-4) _ assms(5), of "atas s c"] disk_wired_ptr [OF up(4)] c
    by (simp add: write2sector_def size_byte_half [OF assms(3,4)] expecting_after expecting_image)
  moreover have "wait_disk (c, d) (expecting c ?s4) = Inr (ide_after c ?a (Suc ?j) (with_image c d ?im s))"
    using wait_disk_ok [OF up(5) idle] by simp
  ultimately have "write_op (c, d) lba b k n s = Inr (ide_after c ?a (Suc ?j) (with_image c d ?im s))"
    using select_sector_ok [OF up(1)] disk_up_ptr(3) [OF up(2)] by (simp add: write_op_def)
  then show ?thesis by blast
qed


definition sectors :: "(nat \<Rightarrow> buf) \<Rightarrow> bool" where
  "sectors im \<longleftrightarrow> (\<forall>i. length (im i) = 512)"

lemma length_read_image: "sectors im \<Longrightarrow> length (read_image im l n) = 512 * n"
  by (induction n) (simp_all add: read_image_def sectors_def)

lemma read_image_add: "read_image im l (m + n) = read_image im l m @ read_image im (l + m) n"
proof -
  have "[l..<l + (m + n)] = [l..<l + m] @ [l + m..<l + m + n]"
    using upt_add_eq_append [of l "l + m" n] by (simp add: add.assoc)
  then show ?thesis by (simp add: read_image_def)
qed

lemma sectors_write: "sectors im \<Longrightarrow> 512 * n \<le> length b \<Longrightarrow> sectors (write_image im l n b)"
  by (auto simp: sectors_def write_image_def)

lemma write_image_add:
  "write_image im l (m + n) b = write_image (write_image im l m b) (l + m) n (drop (512 * m) b)"
proof (rule ext)
  fix i
  have "512 * (i - (l + m)) + 512 * m = 512 * (i - l)" if "l + m \<le> i"
    using that by (simp add: diff_mult_distrib2)
  then show "write_image im l (m + n) b i =
      write_image (write_image im l m b) (l + m) n (drop (512 * m) b) i"
    by (auto simp: write_image_def)
qed

lemma write_image_0 [simp]: "write_image im l 0 b = im"
  by (rule ext) (auto simp: write_image_def)

lemma read_write_image:
  assumes "512 * n \<le> length b"
  shows "read_image (write_image im l n b) l n = take (512 * n) b"
  using assms
proof (induction n)
  case (Suc n)
  have "write_image im l (Suc n) b (l + n) = take 512 (drop (512 * n) b)" by (simp add: write_image_def)
  moreover have "read_image (write_image im l (Suc n) b) l n = read_image (write_image im l n b) l n"
    unfolding read_image_def by (rule arg_cong [of _ _ concat], rule map_cong) (auto simp: write_image_def)
  moreover have "take (512 * Suc n) b = take (512 * n) b @ take 512 (drop (512 * n) b)"
    using take_add [of "512 * n" 512 b] by (simp add: add.commute)
  ultimately show ?case
    using Suc read_image_add [of "write_image im l (Suc n) b" l n 1] by (simp add: read_image_def)
qed (simp add: read_image_def)

lemma read_write_other:
  assumes "l + n \<le> l' \<or> l' + n' \<le> l"
  shows "read_image (write_image im l n b) l' n' = read_image im l' n'"
  unfolding read_image_def by (rule arg_cong [of _ _ concat], rule map_cong) (use assms in \<open>auto simp: write_image_def\<close>)

text \<open>The arithmetic of a round.\<close>

lemma round_arith:
  assumes "k < cnt" and "unat lba + unat cnt \<le> 2 ^ 28" and "512 * unat cnt < 2 ^ 32"
  defines "n \<equiv> per_op cnt k"
  shows "0 < unat n" and "unat n \<le> 256" and "unat (k + n) = unat k + unat n" and "unat k + unat n \<le> unat cnt"
    and "unat (lba + k) = unat lba + unat k" and "lba + k < 2 ^ 28" and "unat (k * 512) = 512 * unat k"
proof -
  have kc: "unat k < unat cnt" using assms(1) by (simp add: word_less_nat_alt)
  have d: "unat (cnt - k) = unat cnt - unat k" by (rule unat_sub) (use assms(1) in simp)
  have n: "unat n = min 256 (unat cnt - unat k)" using d by (auto simp: n_def per_op_def word_le_nat_alt)
  show "0 < unat n" "unat n \<le> 256" and le: "unat k + unat n \<le> unat cnt" using n kc by auto
  show "unat (k + n) = unat k + unat n" using le assms(3) by (simp add: unat_word_ariths)
  show lk: "unat (lba + k) = unat lba + unat k" using kc assms(2) by (simp add: unat_word_ariths)
  show "lba + k < 2 ^ 28" using lk kc assms(2) by (simp add: word_less_nat_alt)
  show "unat (k * 512) = 512 * unat k" using kc assms(3) by (simp add: unat_word_ariths)
qed

lemma ide_read_loop_ok:
  assumes "ide_idle c d s" and "unat lba + unat cnt \<le> 2 ^ 28" and "512 * unat cnt < 2 ^ 32"
    and "512 * unat cnt \<le> length b" and "sectors (images s c d)" and "k \<le> cnt"
  shows "\<exists>a j. ide_read_loop (c, d) lba cnt b k s =
           Inr (take (512 * unat k) b @ read_image (images s c d) (unat lba + unat k) (unat cnt - unat k) @
                drop (512 * unat cnt) b, ide_after c a j s)"
  using assms(1,4,5,6)
proof (induction "unat cnt - unat k" arbitrary: k b s rule: less_induct)
  case less
  show ?case
  proof (cases "k < cnt")
    case False
    then have "k = cnt" using less.prems(4) by simp
    then show ?thesis
      by (subst ide_read_loop.simps)
        (auto simp: read_image_def intro!: exI [of _ "atas s c"] exI [of _ "status_clock s c"], simp add: ide_after_def)
  next
    case True
    let ?n = "per_op cnt k" and ?im = "images s c d"
    let ?d = "read_image ?im (unat lba + unat k) (unat ?n)"
    note r = round_arith [OF True assms(2,3)]
    have ld: "length ?d = 512 * unat ?n" using length_read_image [OF less.prems(3)] .
    let ?b = "take (512 * unat k) b @ ?d @ drop (512 * unat (k + ?n)) b"
    have fits: "512 * unat k + length ?d \<le> length b" using ld r(4) less.prems(2) by linarith
    have "put_bytes b (512 * unat k) ?d = Inr ?b"
      using put_bytes_ok [OF fits] ld by (simp add: r(3) distrib_left)
    with read_op_ok [OF less.prems(1) r(6,1,2), of b] obtain a j where
      op: "read_op (c, d) lba b k ?n s = Inr (?b, ide_after c a j s)" using r(5,7) by auto
    have lb: "length ?b = length b" using fits ld by (simp add: r(3) distrib_left)
    have t: "take (512 * unat (k + ?n)) ?b = take (512 * unat k) b @ ?d"
      using ld fits by (simp add: r(3) distrib_left)
    have e: "drop (512 * unat cnt) ?b = drop (512 * unat cnt) b"
      using ld fits r(3,4) by (simp add: distrib_left)
    have i: "?d @ read_image ?im (unat lba + unat (k + ?n)) (unat cnt - unat (k + ?n)) =
        read_image ?im (unat lba + unat k) (unat cnt - unat k)"
      using r(3,4) read_image_add [of ?im "unat lba + unat k" "unat ?n" "unat cnt - unat (k + ?n)"]
      by (simp add: add.assoc)
    have "k + ?n \<le> cnt" and less: "unat cnt - unat (k + ?n) < unat cnt - unat k"
      using r(1,3,4) by (simp_all add: word_le_nat_alt)
    then obtain a' j' where rec: "ide_read_loop (c, d) lba cnt ?b (k + ?n) (ide_after c a j s) =
        Inr (take (512 * unat (k + ?n)) ?b @ read_image ?im (unat lba + unat (k + ?n)) (unat cnt - unat (k + ?n)) @
             drop (512 * unat cnt) ?b, ide_after c a' j' s)"
      using less.hyps [OF less, of "ide_after c a j s" ?b] less.prems lb by auto
    have "ide_read_loop (c, d) lba cnt b k s = ide_read_loop (c, d) lba cnt ?b (k + ?n) (ide_after c a j s)"
      by (subst ide_read_loop.simps) (simp only: True op if_True Let_def bindE_simps prod.case)
    then show ?thesis unfolding rec t e i [symmetric] by (intro exI [of _ a'] exI [of _ j']) simp
  qed
qed

lemma ide_write_loop_ok:
  assumes "ide_idle c d s" and "unat lba + unat cnt \<le> 2 ^ 28" and "512 * unat cnt < 2 ^ 32"
    and "512 * unat cnt \<le> length b" and "k \<le> cnt"
  shows "\<exists>a j. ide_write_loop (c, d) lba cnt b k s =
           Inr (ide_after c a j (with_image c d
             (write_image (images s c d) (unat lba + unat k) (unat cnt - unat k) (drop (512 * unat k) b)) s))"
  using assms(1,5)
proof (induction "unat cnt - unat k" arbitrary: k s rule: less_induct)
  case less
  show ?case
  proof (cases "k < cnt")
    case False
    then have "k = cnt" using less.prems(2) by simp
    then show ?thesis
      by (subst ide_write_loop.simps)
        (auto intro!: exI [of _ "atas s c"] exI [of _ "status_clock s c"], simp add: ide_after_def)
  next
    case True
    let ?n = "per_op cnt k" and ?im = "images s c d"
    note r = round_arith [OF True assms(2,3)]
    let ?w = "write_image ?im (unat lba + unat k) (unat ?n) (drop (512 * unat k) b)"
    have "512 * unat ?n \<le> length (drop (unat (k * 512)) b)" using r(4,7) assms(4) by simp
    from write_op_ok [OF less.prems(1) r(6,1,2) this] obtain a j where
      op: "write_op (c, d) lba b k ?n s = Inr (ide_after c a j (with_image c d ?w s))" unfolding r(5,7) by blast
    have i: "write_image ?w (unat lba + unat (k + ?n)) (unat cnt - unat (k + ?n)) (drop (512 * unat (k + ?n)) b) =
        write_image ?im (unat lba + unat k) (unat cnt - unat k) (drop (512 * unat k) b)"
      using r(3,4) write_image_add [of ?im "unat lba + unat k" "unat ?n" "unat cnt - unat (k + ?n)" "drop (512 * unat k) b"]
      by (simp add: distrib_left ac_simps)
    have "k + ?n \<le> cnt" and less: "unat cnt - unat (k + ?n) < unat cnt - unat k"
      using r(1,3,4) by (simp_all add: word_le_nat_alt)
    then obtain a' j' where rec: "ide_write_loop (c, d) lba cnt b (k + ?n) (ide_after c a j (with_image c d ?w s)) =
        Inr (ide_after c a' j' (with_image c d
          (write_image ?w (unat lba + unat (k + ?n)) (unat cnt - unat (k + ?n)) (drop (512 * unat (k + ?n)) b)) s))"
      using less.hyps [OF less, of "ide_after c a j (with_image c d ?w s)"] less.prems by auto
    have "ide_write_loop (c, d) lba cnt b k s =
        ide_write_loop (c, d) lba cnt b (k + ?n) (ide_after c a j (with_image c d ?w s))"
      by (subst ide_write_loop.simps) (simp only: True op if_True Let_def bindE_simps)
    then show ?thesis unfolding rec i by blast
  qed
qed

text \<open>The driver under the conditions above: exactly the bytes of the buffer move, and everything
  but the controller's registers and the disk written to is as before.\<close>

lemma ide_read_ok:
  assumes "ide_up c d s" and "unat lba + unat cnt \<le> 2 ^ 28" and "512 * unat cnt < 2 ^ 32"
    and "512 * unat cnt \<le> length b" and "sectors (images s c d)"
  shows "\<exists>a j. ide_read (c, d) lba b cnt s =
           Inr (read_image (images s c d) (unat lba) (unat cnt) @ drop (512 * unat cnt) b, ide_after c a j s)"
proof -
  let ?l = "Channel_lock c" and ?e = "lock_entered (Channel_lock c) s"
  have idle: "ide_idle c d ?e" and lock: "channel_lock_ok c s" and "ide_idle c d s"
    using assms(1) by (simp_all add: ide_up_idle)
  then have up: "disk_up c d s" "disk_up c d ?e" by (simp_all add: ide_idle_def)
  obtain a1 j1 where s1: "select_sector (c, d) lba (ucast cnt) ?e = Inr (ide_after c a1 j1 ?e)"
    using select_sector_ok [OF up(2)] by blast
  have up2: "disk_up c d (ide_after c a1 j1 ?e)" using up(2) by (simp add: disk_up_def)
  obtain a2 j2 where s2: "select_disk (c, d) (ide_after c a1 j1 ?e) = Inr (ide_after c a2 j2 ?e)"
    using select_disk_ok [OF up2] by auto
  obtain a j where "ide_read_loop (c, d) lba cnt b 0 (ide_after c a2 j2 ?e) =
      Inr (read_image (images s c d) (unat lba) (unat cnt) @ drop (512 * unat cnt) b, ide_after c a j ?e)"
    using ide_read_loop_ok [of c d "ide_after c a2 j2 ?e" lba cnt b 0] idle assms(2-5) by auto
  moreover have "lock_release ?l (ide_after c a j ?e) = Inr (ide_after c a j s)"
    using lock_entered_release [of c "ide_after c a j s"] lock by (simp add: lock_entered_frame)
  ultimately have "ide_read (c, d) lba b cnt s =
      Inr (read_image (images s c d) (unat lba) (unat cnt) @ drop (512 * unat cnt) b, ide_after c a j s)"
    using disk_up_ptr(3) [OF up(1)] lock_entered_acquire [OF lock] s1 s2 by (simp add: ide_read_def)
  then show ?thesis by blast
qed

lemma ide_write_ok:
  assumes "ide_up c d s" and "unat lba + unat cnt \<le> 2 ^ 28" and "512 * unat cnt < 2 ^ 32"
    and "512 * unat cnt \<le> length b"
  shows "\<exists>a j. ide_write (c, d) lba b cnt s =
           Inr (ide_after c a j (with_image c d (write_image (images s c d) (unat lba) (unat cnt) b) s))"
proof -
  let ?l = "Channel_lock c" and ?e = "lock_entered (Channel_lock c) s"
  let ?w = "write_image (images s c d) (unat lba) (unat cnt) b"
  have idle: "ide_idle c d ?e" and lock: "channel_lock_ok c s" and "ide_idle c d s"
    using assms(1) by (simp_all add: ide_up_idle)
  then have up: "disk_up c d s" "disk_up c d ?e" by (simp_all add: ide_idle_def)
  obtain a2 j2 where s2: "select_disk (c, d) ?e = Inr (ide_after c a2 j2 ?e)"
    using select_disk_ok [OF up(2)] by auto
  obtain a j where "ide_write_loop (c, d) lba cnt b 0 (ide_after c a2 j2 ?e) = Inr (ide_after c a j (with_image c d ?w ?e))"
    using ide_write_loop_ok [of c d "ide_after c a2 j2 ?e" lba cnt b 0] idle assms(2-4) by auto
  moreover have "lock_release ?l (ide_after c a j (with_image c d ?w ?e)) = Inr (ide_after c a j (with_image c d ?w s))"
    using lock_entered_release [of c "ide_after c a j (with_image c d ?w s)"] lock by (simp add: lock_entered_frame)
  ultimately have "ide_write (c, d) lba b cnt s = Inr (ide_after c a j (with_image c d ?w s))"
    using disk_up_ptr(3) [OF up(1)] lock_entered_acquire [OF lock] s2 by (simp add: ide_write_def)
  then show ?thesis by blast
qed

text \<open>A buffer that is too short is overrun.\<close>

lemma ide_read_overflow:
  assumes "ide_up c d s" and "unat lba + unat cnt \<le> 2 ^ 28" and "0 < cnt" and "unat cnt \<le> 256"
    and "length b < 512 * unat cnt" and "sectors (images s c d)"
  shows "ide_read (c, d) lba b cnt s = Inl OutOfBounds"
proof -
  let ?l = "Channel_lock c" and ?e = "lock_entered (Channel_lock c) s"
  have idle: "ide_idle c d ?e" and lock: "channel_lock_ok c s" using assms(1) by (simp_all add: ide_up_idle)
  then have up: "disk_up c d s" "disk_up c d ?e" using assms(1) by (simp_all add: ide_idle_def ide_up_def)
  obtain a1 j1 where s1: "select_sector (c, d) lba (ucast cnt) ?e = Inr (ide_after c a1 j1 ?e)"
    using select_sector_ok [OF up(2)] by blast
  have up2: "disk_up c d (ide_after c a1 j1 ?e)" using up(2) by (simp add: disk_up_def)
  obtain a2 j2 where s2: "select_disk (c, d) (ide_after c a1 j1 ?e) = Inr (ide_after c a2 j2 ?e)"
    using select_disk_ok [OF up2] by auto
  let ?s = "ide_after c a2 j2 ?e"
  have "512 * unat cnt < 2 ^ 32" using assms(4) by simp
  note r = round_arith [OF assms(3,2) this]
  have n: "per_op cnt 0 = cnt" using assms(4) by (simp add: per_op_def word_le_nat_alt word_unat_eq_iff)
  have "length (read_image (images s c d) (unat lba) (unat cnt)) = 512 * unat cnt" by (rule length_read_image [OF assms(6)])
  then have "put_bytes b 0 (read_image (images s c d) (unat lba) (unat cnt)) = Inl OutOfBounds"
    using assms(5) by (simp add: put_bytes_def)
  then have "read_op (c, d) lba b 0 cnt ?s = Inl OutOfBounds"
    using read_op_ok [of c d ?s lba 0 cnt b] idle r n assms(4) by auto
  then have "ide_read_loop (c, d) lba cnt b 0 ?s = Inl OutOfBounds"
    using assms(3) n by (subst ide_read_loop.simps) simp
  then show ?thesis
    using disk_up_ptr(3) [OF up(1)] lock_entered_acquire [OF lock] s1 s2 by (simp add: ide_read_def)
qed

section \<open>Identification and the channel's lock\<close>

lemma select_disk_exact:
  assumes "disk_up c d s"
  shows "\<exists>a. select_disk (c, d) s = Inr (ide_after c a (status_clock s c) s) \<and> ata_dev (a\<lparr>r_cmd := v\<rparr>) = d"
proof -
  have c: "c < 2" "d < 2" and p: "port_base (channels s ! c) = base_port c"
    and dn: "dev_no (devices (channels s ! c) ! d) = of_nat d"
    using assms by (auto simp: disk_up_def disk_wired_def Let_def)
  have "d = 0 \<or> d = 1" using c(2) by auto
  then show ?thesis
  proof
    assume "d = 0"
    then show ?thesis using disk_up_ptr [OF assms] p dn
      by (intro exI [of _ "(atas s c)\<lparr>r_dev := 0xe0\<rparr>"])
        (simp add: select_disk_def outb_port ata_ports [OF c(1)] ide_after_def ata_write_def ata_dev_def)
  next
    assume "d = 1"
    then show ?thesis using disk_up_ptr [OF assms] p dn
      by (intro exI [of _ "(atas s c)\<lparr>r_dev := 0xf0\<rparr>"])
        (simp add: select_disk_def outb_port ata_ports [OF c(1)] ide_after_def ata_write_def ata_dev_def)
  qed
qed

lemma swap_pairs_ok:
  assumes "even n" and "n \<le> length src" and "n < length out"
  shows "swap_pairs_bytes src out n = Inr (swap_pairs (take n src) @ 0 # drop (Suc n) out)"
  using swap_loop_ok [where xs = "take n src" and p = "[]" and q = "[]" and out = out and r = "drop n src"] assms by (simp add: swap_pairs_bytes_def)

text \<open>The driver's answer and its state: as after a read, but inside the lock.\<close>

lemma identify_disk_ok:
  assumes "ide_up c d s" and "length (identity s c d) = 512"
  shows "\<exists>sn md a j. identify_disk (c, d) s =
           Inr ((sn, md, of_le32 (take 4 (drop 120 (identity s c d)))), ide_after c a j (lock_entered (Channel_lock c) s))"
proof -
  let ?e = "lock_entered (Channel_lock c) s" and ?id = "identity s c d"
  have idle: "ide_idle c d ?e" and lock: "channel_lock_ok c s" and "ide_idle c d s"
    using assms(1) by (simp_all add: ide_up_idle)
  then have up: "disk_up c d s" "disk_up c d ?e" by (simp_all add: ide_idle_def)
  obtain a where s2: "select_disk (c, d) ?e = Inr (ide_after c a (status_clock s c) ?e)" and dev: "ata_dev (a\<lparr>r_cmd := 0xec\<rparr>) = d"
    using select_disk_exact [where v = "0xec", OF up(2)] by auto
  let ?a = "a\<lparr>r_cmd := 0xec\<rparr>"
  let ?s2 = "ide_after c a (status_clock s c) ?e" and ?s3 = "ide_after c ?a (status_clock s c) ?e"
  let ?s4 = "ide_after c ?a (Suc (status_clock s c)) ?e" and ?s5 = "ide_after c ?a (Suc (Suc (Suc (status_clock s c)))) ?e"
  have u: "disk_up c d ?s2" "disk_up c d ?s3" "disk_wired c d ?s4" "disk_wired c d ?s5" "controller_ready c ?s4"
    and q: "sema_value ?s3 (Disk_done c) = 0" "queue ?s3 (Waiters (Disk_done c)) []"
    using idle up by (simp_all add: ide_idle_def disk_up_def controller_ready_def)
  have c: "c < 2" "port_base (channels s ! c) = base_port c" using u(4) by (simp_all add: disk_wired_def Let_def)
  have "cmd_out c 0xec ?s2 = Inr (expecting c ?s3)" using cmd_out_ok [OF u(1)] by simp
  moreover have "wait_disk (c, d) (expecting c ?s3) = Inr ?s4" using wait_disk_ok [OF u(2) q] by simp
  moreover have "busy_wait (c, d) ?s4 = Inr (True, ?s5)" using busy_wait_ok [OF u(3,5)] by simp
  moreover have "read_from_sector (c, d) (replicate 512 0) 0 1 ?s5 = Inr ?id"
  proof -
    have "identity ?s5 c d = ?id" by (simp add: ide_after_def lock_entered_def set_repeat_def lock_held_def)
    moreover have "unat (size_byte 1 div 2) = 256" by (simp add: size_byte_def)
    ultimately have "insw (base_port c) (unat (size_byte 1 div 2)) ?s5 = Inr ?id"
      using dev by (simp add: insw_def ata_ports [OF c(1)])
    then show ?thesis using disk_wired_ptr [OF u(4)] c assms(2) by (simp add: read_from_sector_def put_bytes_ok)
  qed
  moreover have "swap_pairs_bytes (drop 20 ?id) (replicate 64 0) 20 =
      Inr (swap_pairs (take 20 (drop 20 ?id)) @ 0 # drop (Suc 20) (replicate 64 0))"
    by (rule swap_pairs_ok) (use assms(2) in simp_all)
  moreover have "memset (Some (swap_pairs (take 20 (drop 20 ?id)) @ 0 # drop (Suc 20) (replicate 64 0))) 0 20 =
      Inr (replicate 20 0 @ drop 20 (swap_pairs (take 20 (drop 20 ?id)) @ 0 # drop (Suc 20) (replicate 64 0)))"
    by (rule memset_ok) (use assms(2) in simp)
  moreover have "\<exists>md. swap_pairs_bytes (drop 54 ?id)
      (replicate 20 0 @ drop 20 (swap_pairs (take 20 (drop 20 ?id)) @ 0 # drop (Suc 20) (replicate 64 0))) 40 = Inr md"
    by (intro exI, rule swap_pairs_ok) (use assms(2) in simp_all)
  moreover have "get32 ?id 120 = Inr (of_le32 (take 4 (drop 120 ?id)))" using assms(2) by (simp add: get32_def get_bytes_ok)
  ultimately have "\<exists>sn md. identify_disk (c, d) s = Inr ((sn, md, of_le32 (take 4 (drop 120 ?id))), ?s5)"
    using disk_up_ptr(3) [OF up(1)] lock_entered_acquire [OF lock] s2 by (auto simp: identify_disk_def)
  then show ?thesis by blast
qed

lemma acquire_taken:
  assumes "sema_value s (Lock_sema l) = 0" and "holder (locks s l) \<noteq> running s"
  shows "lock_acquire l s \<noteq> Inr s'"
  using assms by (auto simp: lock_acquire_def sema_down_def sema_down_round_def sema_down_end_def split_beta res_simps)

section \<open>A machine with two channels\<close>

text \<open>
  A concrete state for the examples: idle disks that are always ready, free locks, empty lists.
  \<open>pt\<close> is the first partition of the disk \<open>hdb\<close>, \<open>im\<close> the contents of the disks, \<open>m\<close> what extends
  the state.
\<close>

definition blank_partition :: partition where
  "blank_partition = \<lparr>part_name = replicate 8 0, start_lba = 0, sec_cnt = 0, my_disk = None, sb = None,
     block_bitmap = \<lparr>btmp_bytes_len = 0, bits = []\<rparr>, inode_bitmap = \<lparr>btmp_bytes_len = 0, bits = []\<rparr>\<rparr>"

definition demo_disk :: "nat \<Rightarrow> nat \<Rightarrow> partition \<Rightarrow> disk" where
  "demo_disk c d pt = \<lparr>disk_name = [0x68, 0x64, 0x61 + of_nat (2 * c + d), 0, 0, 0, 0, 0], my_channel = Some c,
     dev_no = of_nat d, prim_parts = pt # replicate 3 blank_partition, logic_parts = replicate 8 blank_partition\<rparr>"

definition demo_channel :: "nat \<Rightarrow> partition \<Rightarrow> ide_channel" where
  "demo_channel c pt = \<lparr>channel_name = replicate 8 0, port_base = base_port c, irq_no = 0x2e + of_nat c,
     expecting_intr = False, devices = [demo_disk c 0 blank_partition, demo_disk c 1 pt]\<rparr>"

definition demo_task :: task_struct where
  "demo_task = \<lparr>self_kstart = 0xc009e000, pid = 1, status = TASK_RUNNING, priority = 31, tname = replicate 16 0,
     ticks = 31, elapsed_ticks = 0, fd_table = [0, 1, 2, -1, -1, -1, -1, -1], pgdir = 0,
     userprog_vadder = \<lparr>vaddr_bitmap = \<lparr>btmp_bytes_len = 0, bits = []\<rparr>, vaddr_start = 0\<rparr>, u_block_descs = [],
     cwd_inode_nr = 0, stack_magic = 0x19980320\<rparr>"

definition demo_machine :: "partition \<Rightarrow> (nat \<Rightarrow> nat \<Rightarrow> nat \<Rightarrow> buf) \<Rightarrow> 'z \<Rightarrow> 'z dstate_scheme" where
  "demo_machine pt im m =
     \<lparr>eflags = 0x202, nprev = (\<lambda>n. case n of Tail l \<Rightarrow> Some (Head l) | _ \<Rightarrow> None),
      nnext = (\<lambda>n. case n of Head l \<Rightarrow> Some (Tail l) | _ \<Rightarrow> None),
      tasks = [0xc009e000 \<mapsto> demo_task], running = 0xc009e000, main_thread = 0xc009e000, idle_thread = 0xc0100000,
      next_pid = 3, sema_value = (\<lambda>x. case x of Lock_sema l \<Rightarrow> 1 | Disk_done c \<Rightarrow> 0),
      locks = (\<lambda>_. \<lparr>holder = 0, holder_repeat_nr = 0\<rparr>), cr3 = 0x100000, ktss = fst (tss_init 0), pmem = (\<lambda>_. 0),
      channel_cnt = 2, channels = [demo_channel 0 pt, demo_channel 1 blank_partition], ext_lba_base = 0,
      p_no = 0, l_no = 0, atas = (\<lambda>_. \<lparr>r_sect_cnt = 0, r_lba_l = 0, r_lba_m = 0, r_lba_h = 0, r_dev = 0, r_cmd = 0\<rparr>),
      images = im, identity = (\<lambda>_ _. replicate 512 0x20), status_reads = (\<lambda>_ _. 0x48), status_clock = (\<lambda>_. 0),
      ide_handlers = replicate 48 General_intr_handler, malloc_at = (\<lambda>n. 0xc0200000 + of_nat n * 512), malloc_no = 0,
      live = 0, \<dots> = m\<rparr>"

lemma demo_machine_queue: "queue (demo_machine pt im m) l []"
  by (simp add: demo_machine_def queue_def dll_def)

lemma demo_machine_up:
  assumes "c < 2" and "d < 2"
  shows "ide_up c d (demo_machine pt im m)"
proof -
  have "disk_up c d (demo_machine pt im m)"
    using assms by (auto simp: disk_up_def disk_wired_def demo_machine_def demo_channel_def demo_disk_def less_2_cases_iff)
  moreover have "controller_ready c (demo_machine pt im m)"
    by (simp add: controller_ready_def demo_machine_def)
  moreover have "channel_lock_ok c (demo_machine pt im m)"
    using demo_machine_queue [of pt im m] by (auto simp: channel_lock_ok_def lock_free_def) (simp_all add: demo_machine_def)
  ultimately show ?thesis
    using demo_machine_queue [of pt im m] by (auto simp: ide_up_def) (simp add: demo_machine_def)
qed

section \<open>Properties\<close>

text \<open>The disk driver.  Whatever the number of sectors, \<open>ide_write\<close> puts the first \<open>512 * cnt\<close> bytes of
  the buffer on the disk, and \<open>ide_read\<close> of the same sectors brings exactly them back; every
  other sector, every other disk, the channel's lock and the threads are as before.  The driver
  splits long transfers into commands of at most 256 sectors.\<close>

theorem ide_write_read_roundtrip:
  assumes "ide_up c d s" and "unat lba + unat cnt \<le> 2 ^ 28" and "512 * unat cnt < 2 ^ 32"
    and "length src = 512 * unat cnt" and "length dst = 512 * unat cnt" and "\<forall>i. length (images s c d i) = 512"
  shows "\<exists>s1 s2. ide_write (c, d) lba src cnt s = Inr s1 \<and> ide_read (c, d) lba dst cnt s1 = Inr (src, s2) \<and>
           (\<forall>c' d' i. (c', d') \<noteq> (c, d) \<or> i < unat lba \<or> unat lba + unat cnt \<le> i \<longrightarrow> images s2 c' d' i = images s c' d' i) \<and>
           locks s2 = locks s \<and> sema_value s2 = sema_value s \<and> tasks s2 = tasks s \<and> running s2 = running s"
proof -
  let ?w = "write_image (images s c d) (unat lba) (unat cnt) src"
  have sec: "sectors (images s c d)" using assms(6) by (simp add: sectors_def)
  obtain a j where w: "ide_write (c, d) lba src cnt s = Inr (ide_after c a j (with_image c d ?w s))"
    using ide_write_ok [OF assms(1-3)] assms(4) by fastforce
  let ?s1 = "ide_after c a j (with_image c d ?w s)"
  have "sectors ?w" using sectors_write [OF sec] assms(4) by simp
  then obtain a' j' where "ide_read (c, d) lba dst cnt ?s1 =
      Inr (read_image ?w (unat lba) (unat cnt) @ drop (512 * unat cnt) dst, ide_after c a' j' ?s1)"
    using ide_read_ok [of c d ?s1 lba cnt dst] assms(1-3,5) by auto
  then have r: "ide_read (c, d) lba dst cnt ?s1 = Inr (src, ide_after c a' j' ?s1)"
    using read_write_image [of "unat cnt" src "images s c d" "unat lba"] assms(4,5) by simp
  have "images (ide_after c a' j' ?s1) c' d' i = images s c' d' i"
    if "(c', d') \<noteq> (c, d) \<or> i < unat lba \<or> unat lba + unat cnt \<le> i" for c' d' i
    using that by (auto simp: write_image_def)
  moreover have "tasks (ide_after c a' j' ?s1) = tasks s" by (simp add: ide_after_def with_image_def)
  ultimately show ?thesis using w r by auto
qed

theorem ide_write_read_roundtrip_witness:
  "\<exists>s1 s2. ide_write (0, 1) 7 (replicate 1024 0x41) 2 (demo_machine blank_partition (\<lambda>_ _ _. replicate 512 0) ()) = Inr s1 \<and>
     ide_read (0, 1) 7 (replicate 1024 0) 2 s1 = Inr (replicate 1024 0x41, s2) \<and> images s2 0 1 9 = replicate 512 0"
  using ide_write_read_roundtrip [of 0 1 "demo_machine blank_partition (\<lambda>_ _ _. replicate 512 0) ()" 7 2
      "replicate 1024 0x41" "replicate 1024 0"] demo_machine_up [of 0 1 blank_partition "\<lambda>_ _ _. replicate 512 0" "()"]
  by (fastforce simp: demo_machine_def)

text \<open>\<open>identify_disk\<close> takes the lock of the channel and never gives it back: it delivers the number of
  sectors of the disk, and from then on no other thread can read or write a disk of the
  channel, whatever happens as long as the lock stays as it is.\<close>

theorem identify_keeps_the_channel:
  assumes "ide_up c d s" and "lock_free (Channel_lock c) s" and "length (identity s c d) = 512"
  shows "\<exists>sn md s1. identify_disk (c, d) s = Inr ((sn, md, of_le32 (take 4 (drop 120 (identity s c d)))), s1) \<and>
           holder (locks s1 (Channel_lock c)) = running s \<and>
           (\<forall>t hdd lba b cnt r. t \<noteq> running s \<longrightarrow> disk_channel hdd s = Inr c \<longrightarrow>
              ide_read hdd lba b cnt (s1\<lparr>running := t\<rparr>) \<noteq> Inr r) \<and>
           (\<forall>t hdd lba b cnt r. t \<noteq> running s \<longrightarrow> disk_channel hdd s = Inr c \<longrightarrow>
              ide_write hdd lba b cnt (s1\<lparr>running := t\<rparr>) \<noteq> Inr r)"
proof -
  let ?l = "Channel_lock c"
  obtain sn md a j where i: "identify_disk (c, d) s =
      Inr ((sn, md, of_le32 (take 4 (drop 120 (identity s c d)))), ide_after c a j (lock_entered ?l s))"
    using identify_disk_ok [OF assms(1,3)] by blast
  let ?s1 = "ide_after c a j (lock_entered ?l s)"
  have h: "lock_entered ?l s = lock_held ?l s" using assms(2) by (auto simp: lock_entered_def lock_free_def)
  then have held: "holder (locks ?s1 ?l) = running s" "sema_value ?s1 (Lock_sema ?l) = 0"
    by (simp_all add: lock_held_def)
  have no: "lock_acquire ?l (?s1\<lparr>running := t\<rparr>) \<noteq> Inr s'" if "t \<noteq> running s" for t s'
    using acquire_taken [of "?s1\<lparr>running := t\<rparr>" ?l s'] held that by simp
  have ch: "disk_channel hdd (?s1\<lparr>running := t\<rparr>) = disk_channel hdd s" for hdd t
    by (simp add: disk_channel_def get_disk_def get_channel_def)
  have "ide_read hdd lba b cnt (?s1\<lparr>running := t\<rparr>) \<noteq> Inr r"
    if "t \<noteq> running s" "disk_channel hdd s = Inr c" for t hdd lba b cnt r
    using no [OF that(1)] that(2) by (auto simp: ide_read_def ch res_simps)
  moreover have "ide_write hdd lba b cnt (?s1\<lparr>running := t\<rparr>) \<noteq> Inr r"
    if "t \<noteq> running s" "disk_channel hdd s = Inr c" for t hdd lba b cnt r
    using no [OF that(1)] that(2) by (auto simp: ide_write_def ch res_simps)
  ultimately show ?thesis using i held(1) by blast
qed

theorem identify_keeps_the_channel_witness:
  "\<exists>x s1. identify_disk (0, 1) (demo_machine blank_partition (\<lambda>_ _ _. replicate 512 0) ()) = Inr (x, s1) \<and>
     holder (locks s1 (Channel_lock 0)) = 0xc009e000 \<and>
     (\<forall>r. ide_read (0, 1) 7 (replicate 512 0) 1 (s1\<lparr>running := 0xc00a0000\<rparr>) \<noteq> Inr r)"
proof -
  let ?s = "demo_machine blank_partition (\<lambda>_ _ _. replicate 512 0) ()"
  have up: "ide_up 0 1 ?s" by (rule demo_machine_up) simp_all
  have "lock_free (Channel_lock 0) ?s"
    using demo_machine_queue [of blank_partition] by (auto simp: lock_free_def) (simp_all add: demo_machine_def)
  moreover have "length (identity ?s 0 1) = 512" "running ?s = 0xc009e000" by (simp_all add: demo_machine_def)
  moreover have "disk_channel (0, 1) ?s = Inr 0"
    by (rule disk_up_ptr(3)) (use up in \<open>simp add: ide_up_def\<close>)
  ultimately show ?thesis using identify_keeps_the_channel [OF up] by fastforce
qed

end
