(* ===== verification/Partition.thy ===== *)
theory Partition
  imports Ide
begin

text \<open>
  The rest of \<open>device/ide.c\<close>: reading the partition tables of a disk and the initialisation of the
  driver.  A partition table has its entries from byte 446 of its sector, 16 bytes each.
\<close>

section \<open>Partitions of a disk\<close>

text \<open>A partition pointer: the disk and the index among the twelve partitions, primary first.\<close>

type_synonym part_ptr = "disk_ptr \<times> nat"

definition get_part :: "part_ptr \<Rightarrow> 'z dstate_scheme \<Rightarrow> partition res" where
  "get_part p s =
     bindE (get_disk (fst p) s) (\<lambda>d.
       if snd p < 4 then rd (prim_parts d) (snd p) else rd (logic_parts d) (snd p - 4))"

definition set_part :: "part_ptr \<Rightarrow> partition \<Rightarrow> 'z dstate_scheme \<Rightarrow> 'z dstate_scheme res" where
  "set_part p x s =
     bindE (get_disk (fst p) s) (\<lambda>d.
       if snd p < 4
       then bindE (wr (prim_parts d) (snd p) x) (\<lambda>ps. set_disk (fst p) (d\<lparr>prim_parts := ps\<rparr>) s)
       else bindE (wr (logic_parts d) (snd p - 4) x) (\<lambda>ps. set_disk (fst p) (d\<lparr>logic_parts := ps\<rparr>) s))"

definition disk_number :: "disk_ptr \<Rightarrow> nat" where
  "disk_number hdd = 2 * fst hdd + snd hdd"

definition part_tag :: "part_ptr \<Rightarrow> ktag" where
  "part_tag p = Part_tag (disk_number (fst p)) (snd p)"

text \<open>\<open>elem2entry(struct partition, part_tag, pelem)\<close>\<close>

definition tag2part :: "ktag \<Rightarrow> part_ptr res" where
  "tag2part t = (case t of Part_tag n i \<Rightarrow> Inr ((n div 2, n mod 2), i) | _ \<Rightarrow> Inl OutOfBounds)"

lemma tag2part_tag: "snd (fst p) < 2 \<Longrightarrow> tag2part (part_tag p) = Inr p"
  by (cases p) (auto simp: tag2part_def part_tag_def disk_number_def)

record part_entry =
  fs_type :: u8
  pe_start_lba :: u32
  pe_sec_cnt :: u32

definition partition_entry :: "buf \<Rightarrow> nat \<Rightarrow> part_entry res" where
  "partition_entry bs i =
     (let off = 446 + 16 * i in
      bindE (rd bs (off + 4)) (\<lambda>t.
      bindE (get32 bs (off + 8)) (\<lambda>l.
      bindE (get32 bs (off + 12)) (\<lambda>n. Inr \<lparr>fs_type = t, pe_start_lba = l, pe_sec_cnt = n\<rparr>))))"

text \<open>\<open>sprintf(name, "%s%d", hd->name, n)\<close> into the eight bytes of a partition's name.\<close>

definition numbered_name :: "buf \<Rightarrow> u32 \<Rightarrow> buf \<Rightarrow> buf res" where
  "numbered_name name n b =
     bindE (sprintf (\<lambda>p. if p = 1 then Some name else None) b [0x25, 0x73, 0x25, 0x64, 0] [1, n]) (\<lambda>(k, b'). Inr b')"

definition record_partition :: "part_ptr \<Rightarrow> u32 \<Rightarrow> u32 \<Rightarrow> u32 \<Rightarrow> 'z dstate_scheme \<Rightarrow> 'z dstate_scheme res" where
  "record_partition p number start cnt s =
     bindE (get_disk (fst p) s) (\<lambda>d.
     bindE (get_part p s) (\<lambda>x.
     bindE (numbered_name (disk_name d) number (part_name x)) (\<lambda>name.
     bindE (set_part p (x\<lparr>part_name := name, start_lba := start, sec_cnt := cnt, my_disk := Some (fst p)\<rparr>) s)
       (q_append Partition_list (part_tag p)))))"

text \<open>
  One entry of a table; \<open>scan\<close> is the recursive call.  The logical partitions of a disk are counted
  in \<open>l_no\<close>, and the assertion that there are at most eight comes after the ninth is written.
\<close>

definition scan_entry ::
    "(u32 \<Rightarrow> 'z dstate_scheme \<Rightarrow> 'z dstate_scheme res) \<Rightarrow> disk_ptr \<Rightarrow> u32 \<Rightarrow> part_entry \<Rightarrow>
     'z dstate_scheme \<Rightarrow> 'z dstate_scheme res" where
  "scan_entry scan hdd ext_lba e s =
     (if fs_type e = 5 then
        if ext_lba_base s \<noteq> 0 then scan (ext_lba_base s + pe_start_lba e) s
        else scan (pe_start_lba e) (s\<lparr>ext_lba_base := pe_start_lba e\<rparr>)
      else if fs_type e \<noteq> 0 then
        if ext_lba = 0 then
          bindE (record_partition (hdd, unat (p_no s)) (ucast (p_no s) + 1) (0 + pe_start_lba e) (pe_sec_cnt e) s)
            (\<lambda>s1. Inr (s1\<lparr>p_no := p_no s1 + 1\<rparr>))
        else
          bindE (record_partition (hdd, 4 + unat (l_no s)) (ucast (l_no s) + 5) (ext_lba + pe_start_lba e) (pe_sec_cnt e) s)
            (\<lambda>s1. let s2 = s1\<lparr>l_no := l_no s1 + 1\<rparr> in bindE (assertE (l_no s2 \<le> 8)) (\<lambda>_. Inr s2))
      else Inr s)"

fun scan_entries ::
    "(u32 \<Rightarrow> 'z dstate_scheme \<Rightarrow> 'z dstate_scheme res) \<Rightarrow> disk_ptr \<Rightarrow> u32 \<Rightarrow> buf \<Rightarrow> nat list \<Rightarrow>
     'z dstate_scheme \<Rightarrow> 'z dstate_scheme res" where
  "scan_entries scan hdd ext_lba bs [] s = Inr s"
| "scan_entries scan hdd ext_lba bs (i # is) s =
     bindE (partition_entry bs i) (\<lambda>e.
     bindE (scan_entry scan hdd ext_lba e s) (scan_entries scan hdd ext_lba bs is))"

text \<open>Tables may refer to each other in a circle: \<open>fuel\<close> bounds the depth of the recursion.\<close>

primrec partition_scan :: "nat \<Rightarrow> disk_ptr \<Rightarrow> u32 \<Rightarrow> 'z dstate_scheme \<Rightarrow> 'z dstate_scheme res" where
  "partition_scan 0 hdd ext_lba s = Inl Hang"
| "partition_scan (Suc fuel) hdd ext_lba s =
     (let (p, s0) = new_buffer 512 s in
      bindE (deref p) (\<lambda>b.
      bindE (ide_read hdd ext_lba b 1 s0) (\<lambda>(bs, s1).
      bindE (scan_entries (partition_scan fuel hdd) hdd ext_lba bs [0, 1, 2, 3] s1) (\<lambda>s2.
        Inr (free_object s2)))))"

text \<open>What \<open>partition_info\<close> prints of a partition.\<close>

definition partition_info :: "ktag \<Rightarrow> 'z dstate_scheme \<Rightarrow> (screen_call list \<times> 'z dstate_scheme) res" where
  "partition_info pelem s =
     bindE (tag2part pelem) (\<lambda>p.
     bindE (get_part p s) (\<lambda>x.
       printk (\<lambda>a. if a = 1 then Some (part_name x) else None)
         (c_string (''    %s start_lba:0x%x,sec_cnt:0x%x'' @ [CHR 0x0A])) [1, start_lba x, sec_cnt x] s))"

section \<open>Initialisation\<close>

text \<open>\<open>sprintf(channel->name, "ide%d", channel_no)\<close> and \<open>sprintf(hd->name, "hd%c", c)\<close>\<close>

definition ide_name :: "u8 \<Rightarrow> buf \<Rightarrow> buf res" where
  "ide_name channel_no b =
     bindE (sprintf Map.empty b [0x69, 0x64, 0x65, 0x25, 0x64, 0] [ucast channel_no]) (\<lambda>(k, b'). Inr b')"

definition hd_name :: "u32 \<Rightarrow> buf \<Rightarrow> buf res" where
  "hd_name c b = bindE (sprintf Map.empty b [0x68, 0x64, 0x25, 0x63, 0] [c]) (\<lambda>(k, b'). Inr b')"

definition init_device :: "nat \<Rightarrow> u8 \<Rightarrow> u8 \<Rightarrow> 'z dstate_scheme \<Rightarrow> 'z dstate_scheme res" where
  "init_device fuel channel_no dn s =
     (let hdd = (unat channel_no, unat dn) in
      bindE (get_disk hdd s) (\<lambda>d.
      bindE (hd_name (0x61 + ucast dn + ucast channel_no * 2) (disk_name d)) (\<lambda>name.
      bindE (set_disk hdd (d\<lparr>disk_name := name, my_channel := Some (unat channel_no), dev_no := dn\<rparr>) s) (\<lambda>s1.
      bindE (identify_disk hdd s1) (\<lambda>(info, s2).
      bindE (if dn \<noteq> 0 then partition_scan fuel hdd 0 s2 else Inr s2) (\<lambda>s3.
        Inr (s3\<lparr>p_no := 0, l_no := 0\<rparr>)))))))"

definition init_channel :: "nat \<Rightarrow> u8 \<Rightarrow> 'z dstate_scheme \<Rightarrow> 'z dstate_scheme res" where
  "init_channel fuel channel_no s =
     (let c = unat channel_no in
      bindE (get_channel c s) (\<lambda>ch.
      bindE (ide_name channel_no (channel_name ch)) (\<lambda>name.
      let ch1 = ch\<lparr>channel_name := name\<rparr>;
          ch2 = (if channel_no = 0 then ch1\<lparr>port_base := 0x1f0, irq_no := 0x20 + 14\<rparr>
                 else if channel_no = 1 then ch1\<lparr>port_base := 0x170, irq_no := 0x20 + 15\<rparr> else ch1);
          s1 = set_channel c (ch2\<lparr>expecting_intr := False\<rparr>) s;
          s2 = sema_init (Disk_done c) 0 (lock_init (Channel_lock c) s1) in
      bindE (register_handler (ide_handlers s2) (irq_no ch2) Intr_hd_handler) (\<lambda>t.
      bindE (init_device fuel channel_no 0 (s2\<lparr>ide_handlers := t\<rparr>)) (init_device fuel channel_no 1)))))"

fun channel_loop :: "nat \<Rightarrow> u8 \<Rightarrow> nat \<Rightarrow> 'z dstate_scheme \<Rightarrow> 'z dstate_scheme res" where
  "channel_loop fuel channel_no 0 s = Inr s"
| "channel_loop fuel channel_no (Suc n) s =
     bindE (init_channel fuel channel_no s) (channel_loop fuel (channel_no + 1) n)"

text \<open>\<open>hd_cnt\<close>: the number of disks the BIOS left at address 0x475.\<close>

definition ide_int :: "nat \<Rightarrow> u8 \<Rightarrow> 'z dstate_scheme \<Rightarrow> 'z dstate_scheme res" where
  "ide_int fuel hd_cnt s =
     (let s1 = s\<lparr>channel_cnt := of_nat ((unat hd_cnt + 2 - 1) div 2)\<rparr> in
      channel_loop fuel 0 (unat (channel_cnt s1)) (list_init (klist Partition_list) s1))"

end
