(* ===== verification/Sectors.thy ===== *)
theory Sectors
  imports Partition
begin

text \<open>
  What the file system needs of the disk driver: a disk that works, the bytes of a region of
  sectors as one sequence, and reading, changing and writing back a part of it.
\<close>

section \<open>A disk and its contents\<close>

definition disk_of :: "disk_ptr \<Rightarrow> 'z dstate_scheme \<Rightarrow> nat \<Rightarrow> buf" where
  "disk_of hdd s = images s (fst hdd) (snd hdd)"

definition disk_ready :: "disk_ptr \<Rightarrow> 'z dstate_scheme \<Rightarrow> bool" where
  "disk_ready hdd s \<longleftrightarrow> ide_up (fst hdd) (snd hdd) s \<and> sectors (disk_of hdd s)"

text \<open>\<open>s'\<close> is \<open>s\<close> after driver operations that left the contents \<open>im\<close> on the disk.\<close>

definition io :: "disk_ptr \<Rightarrow> (nat \<Rightarrow> buf) \<Rightarrow> 'z dstate_scheme \<Rightarrow> 'z dstate_scheme \<Rightarrow> bool" where
  "io hdd im s s' \<longleftrightarrow> (\<exists>a j. s' = ide_after (fst hdd) a j (with_image (fst hdd) (snd hdd) im s))"

lemma io_refl: "io hdd (disk_of hdd s) s s"
  unfolding io_def disk_of_def
  by (rule exI [of _ "atas s (fst hdd)"], rule exI [of _ "status_clock s (fst hdd)"]) (simp add: ide_after_def)

lemma io_trans: "io hdd im s s' \<Longrightarrow> io hdd im' s' s'' \<Longrightarrow> io hdd im' s s''"
  unfolding io_def by (elim exE) (simp, blast)

lemma io_disk: "io hdd im s s' \<Longrightarrow> disk_of hdd s' = im"
  by (auto simp: io_def disk_of_def)

lemma io_ready: "io hdd im s s' \<Longrightarrow> disk_ready hdd s \<Longrightarrow> sectors im \<Longrightarrow> disk_ready hdd s'"
  by (auto simp: io_def disk_of_def disk_ready_def)

lemma io_frame:
  assumes "io hdd im s s'"
  shows "channels s' = channels s" and "channel_cnt s' = channel_cnt s" and "running s' = running s"
    and "tasks s' = tasks s" and "queue s' q xs = queue s q xs" and "malloc_at s' = malloc_at s"
    and "malloc_no s' = malloc_no s" and "live s' = live s" and "dstate.more s' = dstate.more s"
    and "nprev s' = nprev s" and "nnext s' = nnext s" and "locks s' = locks s" and "sema_value s' = sema_value s"
  using assms by (auto simp: io_def ide_after_def with_image_def queue_def dll_def)

lemma io_part: "io hdd im s s' \<Longrightarrow> get_part p s' = get_part p s"
  by (simp add: get_part_def get_disk_def get_channel_def io_frame)

lemma ide_read_io:
  assumes "disk_ready hdd s" and "unat lba + unat cnt \<le> 2 ^ 28" and "512 * unat cnt < 2 ^ 32"
    and "512 * unat cnt \<le> length b"
  shows "\<exists>s'. ide_read hdd lba b cnt s =
           Inr (read_image (disk_of hdd s) (unat lba) (unat cnt) @ drop (512 * unat cnt) b, s') \<and>
           io hdd (disk_of hdd s) s s'"
  using ide_read_ok [of "fst hdd" "snd hdd" s lba cnt b] assms
  by (fastforce simp: disk_ready_def disk_of_def io_def)

lemma ide_write_io:
  assumes "disk_ready hdd s" and "unat lba + unat cnt \<le> 2 ^ 28" and "512 * unat cnt < 2 ^ 32"
    and "512 * unat cnt \<le> length b"
  shows "\<exists>s'. ide_write hdd lba b cnt s = Inr s' \<and>
           io hdd (write_image (disk_of hdd s) (unat lba) (unat cnt) b) s s'"
  using ide_write_ok [of "fst hdd" "snd hdd" s lba cnt b] assms
  by (fastforce simp: disk_ready_def disk_of_def io_def)

text \<open>One more write in a sequence of driver operations.\<close>

lemma io_write:
  assumes "io hdd w s t" and "disk_ready hdd s" and "sectors w" and "unat lba = l" and "unat cnt = k"
    and "l + k \<le> 2 ^ 28" and "512 * k < 2 ^ 32" and "512 * k \<le> length d"
  shows "\<exists>t'. ide_write hdd lba d cnt t = Inr t' \<and> io hdd (write_image w l k d) s t' \<and> sectors (write_image w l k d)"
proof -
  have "disk_ready hdd t" using io_ready [OF assms(1-3)] .
  from ide_write_io [OF this, of lba cnt d] obtain t' where
    "ide_write hdd lba d cnt t = Inr t'" "io hdd (write_image w l k d) t t'"
    using assms(4-8) io_disk [OF assms(1)] by auto
  then show ?thesis using io_trans [OF assms(1)] sectors_write [OF assms(3,8)] by blast
qed

section \<open>Bytes of a region\<close>

definition disk_byte :: "(nat \<Rightarrow> buf) \<Rightarrow> nat \<Rightarrow> nat \<Rightarrow> u8" where
  "disk_byte im l k = im (l + k div 512) ! (k mod 512)"

definition disk_bytes :: "(nat \<Rightarrow> buf) \<Rightarrow> nat \<Rightarrow> nat \<Rightarrow> nat \<Rightarrow> buf" where
  "disk_bytes im l off n = map (disk_byte im l) [off..<off + n]"

lemma length_disk_bytes [simp]: "length (disk_bytes im l off n) = n"
  by (simp add: disk_bytes_def)

lemma disk_byte_shift: "disk_byte im (l + q) k = disk_byte im l (512 * q + k)"
  by (simp add: disk_byte_def add.assoc)

lemma disk_bytes_shift: "disk_bytes im (l + q) off n = disk_bytes im l (512 * q + off) n"
  by (rule nth_equalityI) (simp_all add: disk_bytes_def disk_byte_shift add.assoc)

lemma read_image_nth:
  assumes "sectors im" and "k < 512 * n"
  shows "read_image im l n ! k = disk_byte im l k"
  using assms(2)
proof (induction n)
  case (Suc n)
  have len: "length (read_image im l n) = 512 * n" by (rule length_read_image [OF assms(1)])
  have r: "read_image im l (Suc n) = read_image im l n @ im (l + n)"
    using read_image_add [of im l n 1] by (simp add: read_image_def)
  show ?case
  proof (cases "k < 512 * n")
    case False
    then have "k div 512 = n" "k mod 512 = k - 512 * n" using Suc.prems
      by (simp_all add: div_nat_eqI mod_nat_eqI minus_mod_eq_mult_div [symmetric])
    then show ?thesis using False len r by (simp add: nth_append disk_byte_def)
  qed (use Suc len r in \<open>simp add: nth_append\<close>)
qed simp

lemma take_read_image:
  assumes "sectors im" and "off + n \<le> 512 * m"
  shows "take n (drop off (read_image im l m @ r)) = disk_bytes im l off n"
proof (rule nth_equalityI)
  have len: "length (read_image im l m) = 512 * m" by (rule length_read_image [OF assms(1)])
  show "length (take n (drop off (read_image im l m @ r))) = length (disk_bytes im l off n)"
    using assms(2) len by simp
  fix i assume "i < length (take n (drop off (read_image im l m @ r)))"
  then have "i < n" by simp
  then show "take n (drop off (read_image im l m @ r)) ! i = disk_bytes im l off n ! i"
    using assms len by (simp add: nth_append read_image_nth disk_bytes_def)
qed

lemma disk_byte_write:
  assumes "512 * n \<le> length b"
  shows "disk_byte (write_image im l n b) l k = (if k < 512 * n then b ! k else disk_byte im l k)"
proof -
  have "k div 512 < n \<longleftrightarrow> k < 512 * n" by (simp add: div_less_iff_less_mult mult.commute)
  moreover have "512 * (k div 512) + k mod 512 = k" by simp
  moreover have "take 512 (drop (512 * (k div 512)) b) ! (k mod 512) = b ! k" if "k < 512 * n"
    using that assms by (simp add: min_def)
  ultimately show ?thesis by (auto simp: disk_byte_def write_image_def)
qed

text \<open>Reading, changing and writing back: the bytes put into the buffer are on the disk, all others
  of the region are as before.\<close>

lemma modify_region:
  assumes "sectors im" and "put_bytes (read_image im l m @ r) off d = Inr b" and "off + length d \<le> 512 * m"
  defines "im' \<equiv> write_image im l m b"
  shows "sectors im'" and "disk_bytes im' l off (length d) = d"
    and "off' + n \<le> off \<or> off + length d \<le> off' \<Longrightarrow> disk_bytes im' l off' n = disk_bytes im l off' n"
    and "i < l \<or> l + m \<le> i \<Longrightarrow> im' i = im i"
proof -
  have len: "length (read_image im l m) = 512 * m" by (rule length_read_image [OF assms(1)])
  have lb: "length b = 512 * m + length r" using length_put_bytes [OF assms(2)] len by simp
  then have fits: "512 * m \<le> length b" by simp
  show "sectors im'" unfolding im'_def by (rule sectors_write [OF assms(1) fits])
  have nth: "b ! k = (if off \<le> k \<and> k < off + length d then d ! (k - off) else disk_byte im l k)" if "k < 512 * m" for k
  proof -
    have "b = take off (read_image im l m @ r) @ d @ drop (off + length d) (read_image im l m @ r)"
      using assms(2) by (auto simp: put_bytes_def split: if_splits)
    then show ?thesis
      using that assms(3) len read_image_nth [OF assms(1) that, of l] by (auto simp: nth_append)
  qed
  have byte: "disk_byte im' l k =
      (if off \<le> k \<and> k < off + length d then d ! (k - off) else disk_byte im l k)" for k
    using nth [of k] assms(3) by (simp add: im'_def disk_byte_write [OF fits])
  show "disk_bytes im' l off (length d) = d"
    by (rule nth_equalityI) (simp_all add: disk_bytes_def byte)
  show "disk_bytes im' l off' n = disk_bytes im l off' n" if "off' + n \<le> off \<or> off + length d \<le> off'"
    by (rule nth_equalityI) (use that in \<open>auto simp: disk_bytes_def byte\<close>)
  show "im' i = im i" if "i < l \<or> l + m \<le> i"
    using that by (auto simp: im'_def write_image_def)
qed

section \<open>Changing a partition\<close>

text \<open>Writing a partition's structure changes the channels only, and there nothing the driver uses.\<close>

lemma set_part_ok:
  assumes "get_part p s = Inr x"
  shows "\<exists>cs. set_part p y s = Inr (s\<lparr>channels := cs\<rparr>) \<and> get_part p (s\<lparr>channels := cs\<rparr>) = Inr y \<and>
           (\<forall>q. q \<noteq> p \<longrightarrow> get_part q (s\<lparr>channels := cs\<rparr>) = get_part q s) \<and>
           (\<forall>c d. disk_wired c d s \<longrightarrow> disk_wired c d (s\<lparr>channels := cs\<rparr>)) \<and>
           (\<forall>c. expecting_intr (cs ! c) = expecting_intr (channels s ! c))"
proof -
  obtain c d i where p: "p = ((c, d), i)" by (metis surj_pair)
  let ?ch = "channels s ! c"
  let ?d = "devices ?ch ! d"
  have c: "c < length (channels s)" and d: "d < length (devices ?ch)"
    and x: "(if i < 4 then rd (prim_parts ?d) i else rd (logic_parts ?d) (i - 4)) = Inr x"
    using assms by (auto simp: p get_part_def get_disk_def get_channel_def res_simps)
  define d' where "d' = (if i < 4 then ?d\<lparr>prim_parts := (prim_parts ?d)[i := y]\<rparr>
      else ?d\<lparr>logic_parts := (logic_parts ?d)[i - 4 := y]\<rparr>)"
  define cs where "cs = (channels s)[c := ?ch\<lparr>devices := (devices ?ch)[d := d']\<rparr>]"
  have len: "i < 4 \<longrightarrow> i < length (prim_parts ?d)" "\<not> i < 4 \<longrightarrow> i - 4 < length (logic_parts ?d)"
    using x by (auto simp: rd_eq_Inr split: if_splits)
  have set: "set_part p y s = Inr (s\<lparr>channels := cs\<rparr>)"
    using c d len by (auto simp: p set_part_def get_disk_def get_channel_def set_disk_def set_channel_def cs_def d'_def)
  have gd: "get_disk e (s\<lparr>channels := cs\<rparr>) = (if e = (c, d) then Inr d' else get_disk e s)" for e
    using c d by (cases e) (auto simp: get_disk_def get_channel_def cs_def rd_def nth_list_update)
  have "get_part p (s\<lparr>channels := cs\<rparr>) = Inr y" using len by (auto simp: p get_part_def gd d'_def)
  moreover have "get_part q (s\<lparr>channels := cs\<rparr>) = get_part q s" if "q \<noteq> p" for q
  proof (cases "fst q = (c, d)")
    case True
    then have q: "q = ((c, d), snd q)" "snd q \<noteq> i" using that p by (metis prod.collapse)+
    have g: "get_disk (c, d) s = Inr ?d" using c d by (simp add: get_disk_def get_channel_def)
    show ?thesis
      using q(2) by (subst (1 2) q(1)) (auto simp: get_part_def gd g d'_def rd_def)
  next
    case False
    then show ?thesis by (simp add: get_part_def gd)
  qed
  moreover have "disk_wired e f (s\<lparr>channels := cs\<rparr>)" if "disk_wired e f s" for e f
    using that c d by (auto simp: disk_wired_def Let_def cs_def d'_def nth_list_update)
  moreover have "expecting_intr (cs ! e) = expecting_intr (channels s ! e)" for e
    using c by (cases "e = c") (auto simp: cs_def)
  ultimately show ?thesis using set by blast
qed

text \<open>A partition on a working disk, with its super block in memory.\<close>

definition part_ok :: "part_ptr \<Rightarrow> disk_ptr \<Rightarrow> super_block \<Rightarrow> partition \<Rightarrow> 'z dstate_scheme \<Rightarrow> bool" where
  "part_ok p hdd b x s \<longleftrightarrow>
     get_part p s = Inr x \<and> sb x = Some b \<and> my_disk x = Some hdd \<and> disk_ready hdd s"

lemma part_ok_io: "part_ok p hdd b x s \<Longrightarrow> io hdd im s s' \<Longrightarrow> sectors im \<Longrightarrow> part_ok p hdd b x s'"
  by (simp add: part_ok_def io_part io_ready)

lemma disk_ready_channels:
  assumes "disk_ready hdd s" and "disk_wired (fst hdd) (snd hdd) (s\<lparr>channels := cs\<rparr>)"
    and "expecting_intr (cs ! fst hdd) = expecting_intr (channels s ! fst hdd)"
  shows "disk_ready hdd (s\<lparr>channels := cs\<rparr>)"
  using assms by (auto simp: disk_ready_def ide_up_def disk_up_def controller_ready_def channel_lock_ok_def
      lock_free_def disk_of_def queue_def dll_def)

lemma set_part_ready:
  assumes "get_part p s = Inr x" and "disk_ready hdd s"
  shows "\<exists>cs. set_part p y s = Inr (s\<lparr>channels := cs\<rparr>) \<and> get_part p (s\<lparr>channels := cs\<rparr>) = Inr y \<and>
           disk_ready hdd (s\<lparr>channels := cs\<rparr>)"
proof -
  from set_part_ok [OF assms(1), of y] obtain cs where cs: "set_part p y s = Inr (s\<lparr>channels := cs\<rparr>)"
    "get_part p (s\<lparr>channels := cs\<rparr>) = Inr y" "\<forall>c d. disk_wired c d s \<longrightarrow> disk_wired c d (s\<lparr>channels := cs\<rparr>)"
    "\<forall>c. expecting_intr (cs ! c) = expecting_intr (channels s ! c)" by blast
  have "disk_wired (fst hdd) (snd hdd) s" using assms(2) by (simp add: disk_ready_def ide_up_def disk_up_def)
  then have "disk_ready hdd (s\<lparr>channels := cs\<rparr>)" using disk_ready_channels [OF assms(2)] cs(3,4) by blast
  then show ?thesis using cs(1,2) by blast
qed

lemma part_ok_set:
  assumes "part_ok p hdd b x s" and "sb y = sb x" and "my_disk y = my_disk x"
  shows "\<exists>cs. set_part p y s = Inr (s\<lparr>channels := cs\<rparr>) \<and> part_ok p hdd b y (s\<lparr>channels := cs\<rparr>) \<and>
           (\<forall>q. q \<noteq> p \<longrightarrow> get_part q (s\<lparr>channels := cs\<rparr>) = get_part q s)"
proof -
  have g: "get_part p s = Inr x" and r: "disk_ready hdd s" using assms(1) by (simp_all add: part_ok_def)
  from set_part_ok [OF g, of y] obtain cs where cs: "set_part p y s = Inr (s\<lparr>channels := cs\<rparr>)"
    "get_part p (s\<lparr>channels := cs\<rparr>) = Inr y" "\<forall>q. q \<noteq> p \<longrightarrow> get_part q (s\<lparr>channels := cs\<rparr>) = get_part q s"
    "\<forall>c d. disk_wired c d s \<longrightarrow> disk_wired c d (s\<lparr>channels := cs\<rparr>)"
    "\<forall>c. expecting_intr (cs ! c) = expecting_intr (channels s ! c)" by blast
  have "disk_wired (fst hdd) (snd hdd) s" using r by (simp add: disk_ready_def ide_up_def disk_up_def)
  then have "disk_ready hdd (s\<lparr>channels := cs\<rparr>)" using disk_ready_channels [OF r] cs(4,5) by blast
  then show ?thesis using cs(1-3) assms by (auto simp: part_ok_def)
qed

end
