(* ===== verification/Inode.thy ===== *)
theory Inode
  imports Sectors
begin

text \<open>
  \<open>fs/inode.c\<close>: the inodes of a partition, on disk and open in memory.  An inode has 76 bytes and
  may straddle two sectors of the inode table.  An open inode is an object of the kernel heap,
  named by its address, on the partition's list of open inodes.
\<close>

section \<open>The file system's state\<close>

record inode =
  i_no :: u32
  i_size :: u32
  i_open_cnts :: u32
  write_deny :: u32
  i_sectors :: "u32 list"

record open_file =
  fd_pos :: u32
  fd_flag :: u32
  fd_inode :: u32

record fstate = dstate +
  inodes :: "u32 \<Rightarrow> inode option"
  cur_part :: "part_ptr option"
  root_dir_inode :: u32
  root_dir_pos :: u32
  file_table :: "open_file list"

definition get_inode :: "u32 \<Rightarrow> 'z fstate_scheme \<Rightarrow> inode res" where
  "get_inode a s = deref (inodes s a)"

definition set_inode :: "u32 \<Rightarrow> inode \<Rightarrow> 'z fstate_scheme \<Rightarrow> 'z fstate_scheme" where
  "set_inode a i s = s\<lparr>inodes := (inodes s)(a \<mapsto> i)\<rparr>"

definition open_list :: "part_ptr \<Rightarrow> klid" where
  "open_list p = Open_inodes (12 * disk_number (fst p) + snd p)"

text \<open>\<open>part->sb\<close> and \<open>part->my_disk\<close>\<close>

definition part_sb :: "part_ptr \<Rightarrow> 'z dstate_scheme \<Rightarrow> super_block res" where
  "part_sb p s = bindE (get_part p s) (\<lambda>x. deref (sb x))"

definition part_disk :: "part_ptr \<Rightarrow> 'z dstate_scheme \<Rightarrow> disk_ptr res" where
  "part_disk p s = bindE (get_part p s) (\<lambda>x. deref (my_disk x))"

section \<open>An inode as bytes\<close>

text \<open>The four words, the sector addresses, and the list element as two null pointers.\<close>

definition inode_bytes :: "inode \<Rightarrow> buf" where
  "inode_bytes i = le32s ([i_no i, i_size i, i_open_cnts i, write_deny i] @ i_sectors i @ [0, 0])"

definition inode_of_bytes :: "buf \<Rightarrow> inode" where
  "inode_of_bytes d =
     (let w = of_le32s 19 d in
      \<lparr>i_no = w ! 0, i_size = w ! 1, i_open_cnts = w ! 2, write_deny = w ! 3, i_sectors = take 13 (drop 4 w)\<rparr>)"

lemma length_inode_bytes: "length (i_sectors i) = 13 \<Longrightarrow> length (inode_bytes i) = 76"
  by (simp add: inode_bytes_def)

lemma inode_of_bytes_inverse:
  assumes "length (i_sectors i) = 13"
  shows "inode_of_bytes (inode_bytes i) = i"
proof -
  let ?w = "[i_no i, i_size i, i_open_cnts i, write_deny i] @ i_sectors i @ [0, 0]"
  have "length ?w = 19" using assms by simp
  then have w: "of_le32s 19 (inode_bytes i) = ?w"
    using of_le32s_le32s [of ?w "[]"] by (simp only: inode_bytes_def append_Nil2)
  show ?thesis unfolding inode_of_bytes_def w Let_def using assms by (cases i) simp
qed

section \<open>Operations\<close>

definition INODE_SIZE :: u32 where
  "INODE_SIZE = 76"

text \<open>Whether it straddles two sectors, its sector and its offset in it.\<close>

type_synonym inode_position = "bool \<times> u32 \<times> u32"

definition inode_locate :: "super_block \<Rightarrow> u32 \<Rightarrow> inode_position" where
  "inode_locate b inode_no =
     (let off_byte_size = inode_no * INODE_SIZE;
          sec_lba = inode_table_lba b + off_byte_size div 512;
          off_size = off_byte_size mod 512 in
      (off_size + INODE_SIZE > 512, sec_lba, off_size))"

definition inode_sync :: "part_ptr \<Rightarrow> u32 \<Rightarrow> buf \<Rightarrow> 'z fstate_scheme \<Rightarrow> (buf \<times> 'z fstate_scheme) res" where
  "inode_sync p a io_buf s =
     bindE (get_inode a s) (\<lambda>i.
     bindE (part_sb p s) (\<lambda>b.
     bindE (part_disk p s) (\<lambda>hdd.
     let (two_sec, sec_lba, off_size) = inode_locate b (i_no i);
         pure_inode = i\<lparr>i_open_cnts := 0, write_deny := 0\<rparr>;
         n = (if two_sec then 2 else 1) in
     bindE (ide_read hdd sec_lba io_buf n s) (\<lambda>(b1, s1).
     bindE (put_bytes b1 (unat off_size) (inode_bytes pure_inode)) (\<lambda>b2.
     bindE (ide_write hdd sec_lba b2 n s1) (\<lambda>s2. Inr (b2, s2)))))))"

text \<open>The walk along the open inodes, from the first to the one with the number.\<close>

definition tag2inode :: "ktag \<Rightarrow> u32 res" where
  "tag2inode t = (case t of Inode_tag a \<Rightarrow> Inr a | _ \<Rightarrow> Inl OutOfBounds)"

definition inode_matches ::
    "(u32 \<Rightarrow> inode option) \<Rightarrow> u32 \<Rightarrow> (ktag, klid) node \<Rightarrow> 'h \<Rightarrow> (bool \<times> 'h) res" where
  "inode_matches tab inode_no elem h =
     bindE (elem2entry (Some elem)) (\<lambda>t.
     bindE (tag2inode t) (\<lambda>a.
     bindE (deref (tab a)) (\<lambda>i. Inr (i_no i = inode_no, h))))"

definition find_open :: "part_ptr \<Rightarrow> u32 \<Rightarrow> 'z fstate_scheme \<Rightarrow> u32 option res" where
  "find_open p inode_no s =
     (let l = klist (open_list p) in
      bindE (run_loop (traverse_loop (inode_matches (inodes s) inode_no) (ltail l) (nnext s (lhead l)) s)) (\<lambda>(r, h).
      case r of None \<Rightarrow> Inr None
      | Some n \<Rightarrow> bindE (elem2entry (Some n)) (\<lambda>t. bindE (tag2inode t) (\<lambda>a. Inr (Some a)))))"

text \<open>
  \<open>pgdir\<close> of the running thread is cleared around the first request, so that the inode lies in
  the kernel's heap, and set back.
\<close>

definition inode_open :: "part_ptr \<Rightarrow> u32 \<Rightarrow> 'z fstate_scheme \<Rightarrow> (u32 \<times> 'z fstate_scheme) res" where
  "inode_open p inode_no s =
     bindE (find_open p inode_no s) (\<lambda>found. case found of
       Some a \<Rightarrow> bindE (get_inode a s) (\<lambda>i. Inr (a, set_inode a (i\<lparr>i_open_cnts := i_open_cnts i + 1\<rparr>) s))
     | None \<Rightarrow>
       bindE (part_sb p s) (\<lambda>b.
       bindE (part_disk p s) (\<lambda>hdd.
       let (two_sec, sec_lba, off_size) = inode_locate b inode_no;
           (a, s1) = new_object s;
           (buf, s2) = new_buffer (if two_sec then 2 * 512 else 512) s1 in
       bindE (deref buf) (\<lambda>inode_buf.
       bindE (ide_read hdd sec_lba inode_buf (if two_sec then 2 else 1) s2) (\<lambda>(b1, s3).
       bindE (get_bytes b1 (unat off_size) 76) (\<lambda>d.
       if a = 0 then Inl NullPointer
       else
         let i = inode_of_bytes d in
         bindE (q_push (open_list p) (Inode_tag a) (set_inode a i s3)) (\<lambda>s4.
           Inr (a, free_object (set_inode a (i\<lparr>i_open_cnts := 1\<rparr>) s4)))))))))"

definition inode_close :: "u32 \<Rightarrow> 'z fstate_scheme \<Rightarrow> 'z fstate_scheme res" where
  "inode_close a s =
     (let (old_status, s0) = intr_disable s in
      bindE (get_inode a s0) (\<lambda>i.
      let s1 = set_inode a (i\<lparr>i_open_cnts := i_open_cnts i - 1\<rparr>) s0 in
      bindE (if i_open_cnts i - 1 = 0
             then bindE (q_remove (Inode_tag a) s1) (\<lambda>s2. Inr (free_object (s2\<lparr>inodes := (inodes s2)(a := None)\<rparr>)))
             else Inr s1) (\<lambda>s3.
        Inr (snd (intr_set_status old_status s3)))))"

definition inode_delete :: "part_ptr \<Rightarrow> u32 \<Rightarrow> buf \<Rightarrow> 'z fstate_scheme \<Rightarrow> (buf \<times> 'z fstate_scheme) res" where
  "inode_delete p inode_no io_buf s =
     bindE (part_sb p s) (\<lambda>b.
     bindE (part_disk p s) (\<lambda>hdd.
     let (two_sec, sec_lba, off_size) = inode_locate b inode_no;
         n = (if two_sec then 2 else 1) in
     bindE (ide_read hdd sec_lba io_buf n s) (\<lambda>(b1, s1).
     bindE (put_bytes b1 (unat off_size) (replicate 76 0)) (\<lambda>b2.
     bindE (ide_write hdd sec_lba b2 n s1) (\<lambda>s2. Inr (b2, s2))))))"

text \<open>The list element of the new inode is left as it is.\<close>

definition inode_init :: "u32 \<Rightarrow> inode" where
  "inode_init inode_no =
     \<lparr>i_no = inode_no, i_size = 0, i_open_cnts = 0, write_deny = 0, i_sectors = replicate 13 0\<rparr>"

section \<open>Where an inode lies\<close>

lemma io_fstate:
  assumes "io hdd im s s'"
  shows "inodes s' = inodes s" and "cur_part s' = cur_part s" and "root_dir_inode s' = root_dir_inode s"
    and "file_table s' = file_table s"
  using assms by (auto simp: io_def ide_after_def with_image_def)

definition inode_at :: "(nat \<Rightarrow> buf) \<Rightarrow> super_block \<Rightarrow> nat \<Rightarrow> buf" where
  "inode_at im b n = disk_bytes im (unat (inode_table_lba b)) (76 * n) 76"

text \<open>The table of 4096 inodes has 608 sectors.\<close>

definition table_fits :: "super_block \<Rightarrow> bool" where
  "table_fits b \<longleftrightarrow> unat (inode_table_lba b) + 608 \<le> 2 ^ 28"

lemma inode_locate_ok:
  assumes "unat no < 4096" and "table_fits b"
  defines "q \<equiv> 76 * unat no div 512" and "r \<equiv> 76 * unat no mod 512"
  shows "\<exists>lba off. inode_locate b no = (512 < r + 76, lba, off) \<and> unat lba = unat (inode_table_lba b) + q \<and> unat off = r"
    and "r + 76 \<le> 512 * (if 512 < r + 76 then 2 else 1)" and "q + (if 512 < r + 76 then 2 else 1) \<le> 608"
    and "512 * q + r = 76 * unat no"
proof -
  have m: "unat (no * 76) = 76 * unat no" using assms(1) by (simp add: unat_word_ariths)
  have r: "r < 512" by (simp add: r_def)
  show e: "512 * q + r = 76 * unat no" unfolding q_def r_def by (rule mult_div_mod_eq)
  have off: "unat (no * 76 mod 512) = r" by (simp add: unat_mod m r_def)
  have q: "q \<le> 607" using assms(1) by (simp add: q_def)
  have "unat (no * 76 div 512) = q" by (simp add: unat_div m q_def)
  then have lba: "unat (inode_table_lba b + no * 76 div 512) = unat (inode_table_lba b) + q"
    using q assms(2) by (simp add: table_fits_def unat_word_ariths)
  have "unat (no * 76 mod 512 + 76) = r + 76" using r off by (simp add: unat_word_ariths)
  then have "(no * 76 mod 512 + 76 > 512) = (512 < r + 76)" by (simp add: word_less_nat_alt)
  then show "\<exists>lba off. inode_locate b no = (512 < r + 76, lba, off) \<and> unat lba = unat (inode_table_lba b) + q \<and> unat off = r"
    using lba off by (simp add: inode_locate_def INODE_SIZE_def Let_def)
  show "r + 76 \<le> 512 * (if 512 < r + 76 then 2 else 1)" using r by simp
  show "q + (if 512 < r + 76 then 2 else 1) \<le> 608" using assms(1) e q r by (auto; linarith)
qed

text \<open>Changing 76 bytes in the one or two sectors of an inode, as \<open>inode_sync\<close> and \<open>inode_delete\<close> do.\<close>

definition stored :: "super_block \<Rightarrow> nat \<Rightarrow> buf \<Rightarrow> (nat \<Rightarrow> buf) \<Rightarrow> (nat \<Rightarrow> buf) \<Rightarrow> bool" where
  "stored b no d im im' \<longleftrightarrow>
     sectors im' \<and> inode_at im' b no = d \<and> (\<forall>n. n < 4096 \<longrightarrow> n \<noteq> no \<longrightarrow> inode_at im' b n = inode_at im b n) \<and>
     (\<forall>k. k < unat (inode_table_lba b) \<or> unat (inode_table_lba b) + 608 \<le> k \<longrightarrow> im' k = im k)"

lemma rewrite_inode:
  assumes "disk_ready hdd s" and "table_fits b" and "unat no < 4096" and "length d = 76"
    and "inode_locate b no = (two_sec, lba, off)" and "512 * (if two_sec then 2 else 1) \<le> length io_buf"
  shows "\<exists>b1 s1 b2 s2 im. ide_read hdd lba io_buf (if two_sec then 2 else 1) s = Inr (b1, s1) \<and>
           put_bytes b1 (unat off) d = Inr b2 \<and> ide_write hdd lba b2 (if two_sec then 2 else 1) s1 = Inr s2 \<and>
           io hdd im s s2 \<and> stored b (unat no) d (disk_of hdd s) im \<and> length b2 = length io_buf"
proof -
  let ?T = "unat (inode_table_lba b)" and ?q = "76 * unat no div 512" and ?r = "76 * unat no mod 512"
  let ?n = "if two_sec then 2 else 1 :: u32" and ?m = "if two_sec then 2 else 1 :: nat"
  let ?im = "disk_of hdd s"
  note l = inode_locate_ok [OF assms(3,2)]
  have two: "two_sec = (512 < ?r + 76)" and lba: "unat lba = ?T + ?q" and off: "unat off = ?r"
    using l(1) assms(5) by auto
  have n: "unat ?n = ?m" by simp
  have end': "?q + ?m \<le> 608" using l(3) two by simp
  have bnd: "unat lba + unat ?n \<le> 2 ^ 28" using end' assms(2) lba n by (simp add: table_fits_def)
  have fits: "512 * unat ?n \<le> length io_buf" "512 * unat ?n < 2 ^ 32" using assms(6) n by simp_all
  have sec: "sectors ?im" using assms(1) by (simp add: disk_ready_def)
  obtain s1 where s1: "ide_read hdd lba io_buf ?n s =
      Inr (read_image ?im (unat lba) (unat ?n) @ drop (512 * unat ?n) io_buf, s1)" "io hdd ?im s s1"
    using ide_read_io [OF assms(1) bnd fits(2,1)] by blast
  let ?b1 = "read_image ?im (unat lba) ?m @ drop (512 * ?m) io_buf"
  have lb1: "length ?b1 = length io_buf" using fits(1) n sec by (simp add: length_read_image)
  have "unat off + length d \<le> 512 * ?m" using l(2) two off assms(4) by simp
  then have o: "unat off + length d \<le> length ?b1" using lb1 fits(1) n by linarith
  obtain b2 where b2: "put_bytes ?b1 (unat off) d = Inr b2" using put_bytes_ok [OF o] by blast
  have lb2: "length b2 = length io_buf" using length_put_bytes [OF b2] lb1 by simp
  let ?im' = "write_image ?im (unat lba) ?m b2"
  have r1: "disk_ready hdd s1" using io_ready [OF s1(2) assms(1) sec] .
  obtain s2 where s2: "ide_write hdd lba b2 ?n s1 = Inr s2" "io hdd ?im' s1 s2"
    using ide_write_io [OF r1 bnd fits(2), of b2] fits(1) lb2 unfolding n io_disk [OF s1(2)] by auto
  note m = modify_region [OF sec b2 \<open>unat off + length d \<le> 512 * ?m\<close>]
  have shift: "inode_at im' b k = disk_bytes im' (unat lba) (76 * k - 512 * ?q) 76" if "512 * ?q \<le> 76 * k" for im' k
    using that disk_bytes_shift [of im' ?T ?q "76 * k - 512 * ?q" 76] by (simp add: inode_at_def lba)
  have own: "512 * ?q \<le> 76 * unat no" "76 * unat no - 512 * ?q = unat off" using l(4) off by linarith+
  have "inode_at ?im' b (unat no) = d" using shift [OF own(1)] own(2) m(2) assms(4) by simp
  moreover have "inode_at ?im' b k = inode_at ?im b k" if "k < 4096" "k \<noteq> unat no" for k
  proof (cases "512 * ?q \<le> 76 * k")
    case True
    have "76 * k - 512 * ?q + 76 \<le> unat off \<or> unat off + length d \<le> 76 * k - 512 * ?q"
      using True own that(2) assms(4) by linarith
    then show ?thesis using m(3) shift [OF True] by simp
  next
    case False
    have eq: "disk_byte ?im' ?T i = disk_byte ?im ?T i" if "i < 76 * k + 76" for i
    proof (cases "i < 512 * ?q")
      case True
      then have "i div 512 < ?q" by (simp add: div_less_iff_less_mult mult.commute)
      then show ?thesis using m(4) [of "?T + i div 512"] lba by (simp add: disk_byte_def)
    next
      case i: False
      have "76 * k < 76 * unat no" using False own(1) by linarith
      then have "76 * k + 76 \<le> 76 * unat no" by simp
      then have "i - 512 * ?q < unat off" using i own \<open>i < 76 * k + 76\<close> by linarith
      then have "disk_bytes ?im' (unat lba) (i - 512 * ?q) 1 = disk_bytes ?im (unat lba) (i - 512 * ?q) 1"
        by (intro m(3)) simp
      then show ?thesis using i disk_byte_shift [of _ ?T ?q "i - 512 * ?q"] by (simp add: disk_bytes_def lba)
    qed
    show ?thesis unfolding inode_at_def disk_bytes_def by (rule map_cong) (use eq in auto)
  qed
  moreover have "?im' k = ?im k" if "k < ?T \<or> ?T + 608 \<le> k" for k
    using m(4) [of k] that end' lba by auto
  ultimately have "stored b (unat no) d ?im ?im'" using m(1) by (simp add: stored_def)
  then show ?thesis using s1 b2 s2 io_trans [OF s1(2) s2(2)] lb2 n by auto
qed

text \<open>An inode that lies in two sectors.\<close>

definition straddles :: "nat \<Rightarrow> bool" where
  "straddles no \<longleftrightarrow> 512 < 76 * no mod 512 + 76"

lemma inode_sync_ok:
  assumes "part_ok p hdd b x s" and "table_fits b" and "inodes s a = Some i" and "length (i_sectors i) = 13"
    and "unat (i_no i) < 4096" and "512 * (if straddles (unat (i_no i)) then 2 else 1) \<le> length io_buf"
  shows "\<exists>b' s' im. inode_sync p a io_buf s = Inr (b', s') \<and> io hdd im s s' \<and> length b' = length io_buf \<and>
           stored b (unat (i_no i)) (inode_bytes (i\<lparr>i_open_cnts := 0, write_deny := 0\<rparr>)) (disk_of hdd s) im"
proof -
  obtain two lba off where l: "inode_locate b (i_no i) = (two, lba, off)" by (metis surj_pair)
  let ?d = "inode_bytes (i\<lparr>i_open_cnts := 0, write_deny := 0\<rparr>)"
  have d: "length ?d = 76" by (rule length_inode_bytes) (simp add: assms(4))
  have r: "disk_ready hdd s" using assms(1) by (simp add: part_ok_def)
  have "two = straddles (unat (i_no i))" using inode_locate_ok(1) [OF assms(5,2)] l by (auto simp: straddles_def)
  then have "512 * (if two then 2 else 1) \<le> length io_buf" using assms(6) by simp
  from rewrite_inode [OF r assms(2,5) d l this] obtain b1 s1 b2 s2 im where
    "ide_read hdd lba io_buf (if two then 2 else 1) s = Inr (b1, s1)" "put_bytes b1 (unat off) ?d = Inr b2"
    "ide_write hdd lba b2 (if two then 2 else 1) s1 = Inr s2" "io hdd im s s2"
    "stored b (unat (i_no i)) ?d (disk_of hdd s) im" "length b2 = length io_buf" by blast
  with assms(1,3) l show ?thesis
    by (auto simp: inode_sync_def get_inode_def part_sb_def part_disk_def part_ok_def)
qed

lemma inode_sync_overflow:
  assumes "part_ok p hdd b x s" and "table_fits b" and "inodes s a = Some i"
    and "unat (i_no i) < 4096" and "straddles (unat (i_no i))" and "length io_buf < 1024"
  shows "inode_sync p a io_buf s = Inl OutOfBounds"
proof -
  note l = inode_locate_ok [OF assms(4,2)]
  obtain lba off where lo: "inode_locate b (i_no i) = (True, lba, off)"
    "unat lba = unat (inode_table_lba b) + 76 * unat (i_no i) div 512"
    using l(1) assms(5) by (auto simp: straddles_def)
  have "76 * unat (i_no i) div 512 + 2 \<le> 608" using l(3) assms(5) by (simp add: straddles_def)
  then have bnd: "unat lba + unat (2 :: u32) \<le> 2 ^ 28" using assms(2) lo(2) by (simp add: table_fits_def)
  have r: "ide_up (fst hdd) (snd hdd) s" "sectors (images s (fst hdd) (snd hdd))"
    using assms(1) by (simp_all add: part_ok_def disk_ready_def disk_of_def [abs_def])
  have "ide_read hdd lba io_buf 2 s = Inl OutOfBounds"
    using ide_read_overflow [OF r(1) bnd _ _ _ r(2), of io_buf] assms(6) by simp
  then show ?thesis
    using assms(1,3) lo(1) by (simp add: inode_sync_def get_inode_def part_sb_def part_disk_def part_ok_def)
qed

section \<open>Open inodes\<close>

text \<open>The list of open inodes of a partition and the objects on it.\<close>

definition opened :: "part_ptr \<Rightarrow> u32 list \<Rightarrow> 'z fstate_scheme \<Rightarrow> bool" where
  "opened p as s \<longleftrightarrow> queue s (open_list p) (map Inode_tag as) \<and> (\<forall>a \<in> set as. inodes s a \<noteq> None)"

definition has_number :: "'z fstate_scheme \<Rightarrow> u32 \<Rightarrow> u32 \<Rightarrow> bool" where
  "has_number s no a \<longleftrightarrow> map_option i_no (inodes s a) = Some no"

lemma visit_matches:
  assumes "\<forall>a \<in> set as. tab a \<noteq> None"
  shows "visit (inode_matches tab no) (map Elem (map Inode_tag as)) h =
           Inr (map_option (\<lambda>a. Elem (Inode_tag a)) (find (\<lambda>a. map_option i_no (tab a) = Some no) as), h)"
  using assms
proof (induction as)
  case (Cons a as)
  then obtain i where "tab a = Some i" by auto
  then show ?case using Cons by (simp add: inode_matches_def elem2entry_def tag2inode_def)
qed simp

lemma find_open_ok:
  assumes "opened p as s"
  shows "find_open p no s = Inr (find (has_number s no) as)"
proof -
  let ?l = "klist (open_list p)" and ?f = "inode_matches (inodes s) no"
  let ?xs = "map Elem (map Inode_tag as)"
  have q: "queue s (open_list p) (map Inode_tag as)" and i: "\<forall>a \<in> set as. inodes s a \<noteq> None"
    using assms by (simp_all add: opened_def)
  have keep: "?f x h = Inr (stop, h') \<Longrightarrow> nnext h' = nnext h" for x and h h' :: "'z fstate_scheme" and stop
    by (auto simp: inode_matches_def res_simps)
  have "traverse_loop ?f (ltail ?l) (nnext s (lhead ?l)) s = Some (visit ?f ?xs s)"
    using q by (intro traverse_loop_ok [OF keep, where pv = "nprev s"]) (auto simp: queue_def dll_def)
  then show ?thesis
    using visit_matches [OF i, of no s]
    by (cases "find (has_number s no) as")
      (auto simp: find_open_def run_loop_def has_number_def [abs_def] elem2entry_def tag2inode_def)
qed

lemma new_object_ok:
  "malloc_at s (malloc_no s) = a \<Longrightarrow> a \<noteq> 0 \<Longrightarrow>
   new_object s = (a, s\<lparr>malloc_no := Suc (malloc_no s), live := Suc (live s)\<rparr>)"
  by (simp add: new_object_def Let_def)

lemma new_buffer_ok:
  "malloc_at s (malloc_no s) \<noteq> 0 \<Longrightarrow>
   new_buffer n s = (Some (replicate n 0), s\<lparr>malloc_no := Suc (malloc_no s), live := Suc (live s)\<rparr>)"
  by (simp add: new_buffer_def new_object_def Let_def)

lemma heap_frame [simp]:
  "get_part p (s\<lparr>malloc_no := n, live := m\<rparr>) = get_part p s"
  "disk_of hdd (s\<lparr>malloc_no := n, live := m\<rparr>) = disk_of hdd s"
  "disk_ready hdd (s\<lparr>malloc_no := n, live := m\<rparr>) = disk_ready hdd s"
  "queue (s\<lparr>malloc_no := n, live := m\<rparr>) q xs = queue s q xs"
  by (simp_all add: get_part_def get_disk_def get_channel_def disk_of_def disk_ready_def ide_up_def disk_up_def
      disk_wired_def controller_ready_def channel_lock_ok_def lock_free_def queue_def dll_def)

lemma free_object_frame [simp]:
  "get_part p (free_object s) = get_part p s"
  "disk_of hdd (free_object s) = disk_of hdd s"
  "disk_ready hdd (free_object s) = disk_ready hdd s"
  "queue (free_object s) q xs = queue s q xs"
  using heap_frame [where n = "malloc_no s" and m = "live s - 1" and s = s] by (simp_all add: free_object_def)

text \<open>Opening an inode already open: the same object, counted once more.\<close>

lemma inode_open_shared:
  assumes "opened p as s" and "find (has_number s no) as = Some a" and "inodes s a = Some i"
  shows "inode_open p no s = Inr (a, set_inode a (i\<lparr>i_open_cnts := i_open_cnts i + 1\<rparr>) s)"
  using find_open_ok [OF assms(1), of no] assms(2,3) by (simp add: inode_open_def get_inode_def)

text \<open>Putting an inode on the list of the open ones changes nothing else.\<close>

lemma only_lists_fields:
  assumes "only_lists s s'"
  shows "inodes s' = inodes s" and "live s' = live s" and "channels s' = channels s" and "images s' = images s"
    and "tasks s' = tasks s" and "running s' = running s" and "cur_part s' = cur_part s"
    and "root_dir_inode s' = root_dir_inode s" and "file_table s' = file_table s" and "malloc_at s' = malloc_at s"
    and "malloc_no s' = malloc_no s" and "sema_value s' = sema_value s" and "locks s' = locks s"
    and "status_reads s' = status_reads s"
proof -
  have more: "s' = s\<lparr>nprev := nprev s', nnext := nnext s'\<rparr>" using assms by (simp add: only_lists_def)
  show "inodes s' = inodes s" "live s' = live s" "channels s' = channels s" "images s' = images s"
    "tasks s' = tasks s" "running s' = running s" "cur_part s' = cur_part s" "root_dir_inode s' = root_dir_inode s"
    "file_table s' = file_table s" "malloc_at s' = malloc_at s" "malloc_no s' = malloc_no s"
    "sema_value s' = sema_value s" "locks s' = locks s" "status_reads s' = status_reads s"
    by (subst more; simp)+
qed

text \<open>The locks and semaphores stay as they are, and nobody starts to wait.\<close>

definition sync_frame :: "'z kstate_scheme \<Rightarrow> 'z kstate_scheme \<Rightarrow> bool" where
  "sync_frame s s' \<longleftrightarrow>
     locks s' = locks s \<and> sema_value s' = sema_value s \<and> running s' = running s \<and>
     (\<forall>w. queue s (Waiters w) [] \<longrightarrow> queue s' (Waiters w) [])"

lemma sync_frame_trans [trans]: "sync_frame s s' \<Longrightarrow> sync_frame s' s'' \<Longrightarrow> sync_frame s s''"
  by (simp add: sync_frame_def)

lemma sync_frame_io: "io hdd im s s' \<Longrightarrow> sync_frame s s'"
  by (simp add: sync_frame_def io_frame)

lemma sync_frame_simps [simp]:
  "sync_frame s (s\<lparr>malloc_no := n, live := m\<rparr>) " "sync_frame s (free_object s)"
  "sync_frame t (set_inode a i t)" "sync_frame t (set_task q v t)"
  "sync_frame t (t\<lparr>file_table := ft\<rparr>)"
  by (auto simp: sync_frame_def free_object_def set_inode_def set_task_def queue_def dll_def)

lemma push_inode_ok:
  fixes s :: "'z fstate_scheme"
  assumes "queue s (open_list p) (map Inode_tag as)" and "a \<notin> set as"
  shows "\<exists>s'. q_push (open_list p) (Inode_tag a) s = Inr s' \<and> only_lists s s' \<and>
           queue s' (open_list p) (map Inode_tag (a # as)) \<and> (\<forall>hdd. disk_ready hdd s \<longrightarrow> disk_ready hdd s') \<and> sync_frame s s'"
proof -
  have "Inode_tag a \<notin> set (map Inode_tag as)" using assms(2) by auto
  from q_push_ok [OF assms(1) this] obtain s' where s': "q_push (open_list p) (Inode_tag a) s = Inr s'"
    "queue s' (open_list p) (map Inode_tag (a # as))" "only_lists s s'"
    "\<forall>k ys. k \<noteq> open_list p \<longrightarrow> Inode_tag a \<notin> set ys \<longrightarrow> set (map Inode_tag as) \<inter> set ys = {} \<longrightarrow> queue s k ys \<longrightarrow> queue s' k ys"
    by auto
  have w: "queue s' (Waiters w) []" if "queue s (Waiters w) []" for w
    using s'(4) that by (simp add: open_list_def)
  then have "sync_frame s s'" using only_lists_fields [OF s'(3)] by (simp add: sync_frame_def)
  moreover from w have "disk_ready hdd s \<longrightarrow> disk_ready hdd s'" for hdd
    using only_lists_fields [OF s'(3)]
    by (auto simp: disk_ready_def ide_up_def disk_up_def disk_wired_def controller_ready_def channel_lock_ok_def
        lock_free_def disk_of_def)
  ultimately show ?thesis using s'(1-3) by blast
qed

text \<open>Opening one that is not: read from the table, with room for two objects.\<close>

definition opened_now :: "inode \<Rightarrow> inode" where
  "opened_now i = i\<lparr>i_open_cnts := 1\<rparr>"

lemma inode_open_fresh:
  assumes "part_ok p hdd b x s" and "table_fits b" and "unat no < 4096" and "opened p as s"
    and "find (has_number s no) as = None"
    and "malloc_at s (malloc_no s) = a" and "a \<noteq> 0" and "malloc_at s (Suc (malloc_no s)) \<noteq> 0" and "a \<notin> set as"
  shows "\<exists>s'. inode_open p no s = Inr (a, s') \<and> opened p (a # as) s' \<and> live s' = Suc (live s) \<and>
           inodes s' = (inodes s)(a \<mapsto> opened_now (inode_of_bytes (inode_at (disk_of hdd s) b (unat no)))) \<and>
           disk_of hdd s' = disk_of hdd s \<and> get_part p s' = get_part p s \<and> tasks s' = tasks s \<and>
           cur_part s' = cur_part s \<and> root_dir_inode s' = root_dir_inode s \<and> file_table s' = file_table s \<and>
           part_ok p hdd b x s' \<and> running s' = running s \<and> malloc_at s' = malloc_at s \<and> malloc_no s' = malloc_no s + 2 \<and> sync_frame s s'"
proof -
  have x: "get_part p s = Inr x" "sb x = Some b" "my_disk x = Some hdd" and r: "disk_ready hdd s"
    using assms(1) by (simp_all add: part_ok_def)
  have sec: "sectors (disk_of hdd s)" using r by (simp add: disk_ready_def)
  let ?q = "76 * unat no div 512" and ?r = "76 * unat no mod 512"
  let ?T = "unat (inode_table_lba b)"
  note l = inode_locate_ok [OF assms(3,2)]
  let ?two = "512 < ?r + 76"
  let ?n = "if ?two then 2 else 1 :: u32" and ?m = "if ?two then 2 else 1 :: nat"
  obtain lba off where lo: "inode_locate b no = (?two, lba, off)" "unat lba = ?T + ?q" "unat off = ?r"
    using l(1) by blast
  have n: "unat ?n = ?m" by simp
  let ?s2 = "s\<lparr>malloc_no := Suc (Suc (malloc_no s)), live := Suc (Suc (live s))\<rparr>"
  let ?b0 = "replicate (512 * ?m) 0 :: buf"
  have bnd: "unat lba + unat ?n \<le> 2 ^ 28" "512 * unat ?n < 2 ^ 32" "512 * unat ?n \<le> length ?b0"
  proof -
    show "unat lba + unat ?n \<le> 2 ^ 28" using l(3) assms(2) lo(2) n unfolding table_fits_def by linarith
  qed simp_all
  have "disk_ready hdd ?s2" using r by simp
  from ide_read_io [OF this bnd] obtain s3 where
    s3: "ide_read hdd lba ?b0 ?n ?s2 = Inr (read_image (disk_of hdd s) (unat lba) ?m, s3)" "io hdd (disk_of hdd s) ?s2 s3"
    by auto
  let ?i = "inode_of_bytes (inode_at (disk_of hdd s) b (unat no))"
  have fit: "?r + 76 \<le> 512 * ?m" using l(2) .
  have "take 76 (drop ?r (read_image (disk_of hdd s) (unat lba) ?m)) = inode_at (disk_of hdd s) b (unat no)"
    using take_read_image [OF sec fit, of "unat lba" "[]"] disk_bytes_shift [of "disk_of hdd s" ?T ?q ?r 76] l(4) lo(2)
    by (simp only: append_Nil2 inode_at_def)
  moreover have "?r + 76 \<le> length (read_image (disk_of hdd s) (unat lba) ?m)"
    using fit by (simp only: length_read_image [OF sec])
  ultimately have d: "get_bytes (read_image (disk_of hdd s) (unat lba) ?m) ?r 76 = Inr (inode_at (disk_of hdd s) b (unat no))"
    by (simp only: get_bytes_ok)
  let ?s3 = "set_inode a ?i s3"
  have "queue ?s3 (open_list p) (map Inode_tag as)"
    using assms(4) io_frame(10,11) [OF s3(2)] by (simp add: opened_def set_inode_def queue_def dll_def)
  then obtain s4 where s4: "q_push (open_list p) (Inode_tag a) ?s3 = Inr s4" "only_lists ?s3 s4"
    "queue s4 (open_list p) (map Inode_tag (a # as))" "disk_ready hdd ?s3 \<longrightarrow> disk_ready hdd s4"
    "sync_frame ?s3 s4"
    using push_inode_ok [OF _ assms(9)] by blast
  let ?s' = "free_object (set_inode a (opened_now ?i) s4)"
  note f4 = only_lists_fields [OF s4(2)]
  have bf: "new_buffer (if ?two then 2 * 512 else 512) (s\<lparr>malloc_no := Suc (malloc_no s), live := Suc (live s)\<rparr>) = (Some ?b0, ?s2)"
    using assms(8) by (subst new_buffer_ok) auto
  have "inode_open p no s = Inr (a, ?s')"
    using find_open_ok [OF assms(4), of no] assms(5-7) x lo(1) new_object_ok [OF assms(6,7)] bf s3(1) d s4(1) lo(3)
    by (simp add: inode_open_def part_sb_def part_disk_def Let_def opened_now_def del: replicate.simps)
  moreover have "opened p (a # as) ?s'"
    using s4(3) assms(4) f4(1) io_fstate(1) [OF s3(2)]
    by (auto simp: opened_def set_inode_def free_object_def queue_def dll_def)
  moreover have "inodes ?s' = (inodes s)(a \<mapsto> opened_now ?i)" "live ?s' = Suc (live s)"
    "disk_of hdd ?s' = disk_of hdd s" "tasks ?s' = tasks s" "cur_part ?s' = cur_part s"
    "root_dir_inode ?s' = root_dir_inode s" "file_table ?s' = file_table s"
    using f4 io_fstate [OF s3(2)] io_frame [OF s3(2)] io_disk [OF s3(2)]
    by (simp_all add: set_inode_def free_object_def disk_of_def)
  moreover have gp: "get_part p ?s' = get_part p s"
    using f4(3) io_frame(1) [OF s3(2)] by (simp add: get_part_def get_disk_def get_channel_def set_inode_def free_object_def)
  moreover have "running ?s' = running s" "malloc_at ?s' = malloc_at s" "malloc_no ?s' = malloc_no s + 2"
    using f4 io_frame [OF s3(2)] by (simp_all add: set_inode_def free_object_def)
  moreover have "disk_ready hdd s3" by (rule io_ready [OF s3(2)]) (use r sec in simp_all)
  then have "disk_ready hdd (set_inode a (opened_now ?i) s4)" using s4(4)
    by (simp add: set_inode_def disk_ready_def ide_up_def disk_up_def disk_wired_def controller_ready_def channel_lock_ok_def
        lock_free_def disk_of_def queue_def dll_def)
  then have "part_ok p hdd b x ?s'" using gp x by (simp add: part_ok_def)
  moreover have "sync_frame s ?s'"
  proof -
    have "sync_frame s ?s2" by simp
    also have "sync_frame ?s2 s3" by (rule sync_frame_io [OF s3(2)])
    also have "sync_frame s3 ?s3" by simp
    also note s4(5)
    also have "sync_frame s4 (set_inode a (opened_now ?i) s4)" by simp
    also have "sync_frame (set_inode a (opened_now ?i) s4) ?s'" by simp
    finally show ?thesis .
  qed
  ultimately show ?thesis by blast
qed

section \<open>A file system in memory\<close>

text \<open>A concrete state for the examples: the partition \<open>hdb1\<close> of 5000 sectors, mounted, with the blocks
  0, the root directory's, and 2 in use.\<close>

definition demo_sb :: super_block where
  "demo_sb = \<lparr>magic = 0x19980320, sb_sec_cnt = 5000, inode_cnt = 4096, part_lba_base = 63, block_bitmap_lba = 65,
     block_bitmap_sects = 2, inode_bitmap_lba = 67, inode_bitmap_sects = 1, inode_table_lba = 68,
     inode_table_sects = 608, data_start_lba = 676, root_inode_no = 0, dir_entry_size = 24\<rparr>"

definition demo_part :: partition where
  "demo_part = blank_partition\<lparr>part_name := [0x68, 0x64, 0x62, 0x31, 0, 0, 0, 0], start_lba := 63, sec_cnt := 5000,
     my_disk := Some (0, 1), sb := Some demo_sb,
     block_bitmap := \<lparr>btmp_bytes_len = 1024, bits = 5 # replicate 1023 0\<rparr>,
     inode_bitmap := \<lparr>btmp_bytes_len = 512, bits = 3 # replicate 511 0\<rparr>\<rparr>"

definition demo_fs :: "(nat \<Rightarrow> nat \<Rightarrow> nat \<Rightarrow> buf) \<Rightarrow> (u32 \<Rightarrow> inode option) \<Rightarrow> fstate" where
  "demo_fs im tab = demo_machine demo_part im
     (fstate.fields tab (Some ((0, 1), 0)) 0 0 (replicate 32 \<lparr>fd_pos = 0, fd_flag = 0, fd_inode = 0\<rparr>))"

lemma demo_fs_simps [simp]:
  "inodes (demo_fs im tab) = tab" "cur_part (demo_fs im tab) = Some ((0, 1), 0)"
  "file_table (demo_fs im tab) = replicate 32 \<lparr>fd_pos = 0, fd_flag = 0, fd_inode = 0\<rparr>"
  "malloc_at (demo_fs im tab) n = 0xc0200000 + of_nat n * 512" "malloc_no (demo_fs im tab) = 0"
  "disk_of (c, d) (demo_fs im tab) = im c d" "running (demo_fs im tab) = 0xc009e000"
  "tasks (demo_fs im tab) = [0xc009e000 \<mapsto> demo_task]" "root_dir_inode (demo_fs im tab) = 0"
  "get_part ((0, 1), 0) (demo_fs im tab) = Inr demo_part" "live (demo_fs im tab) = 0"
  by (simp_all add: demo_fs_def demo_machine_def fstate.defs disk_of_def get_part_def get_disk_def get_channel_def
      demo_channel_def demo_disk_def)

lemma demo_fs_part [simp]:
  "get_part ((0, Suc 0), 0) (demo_fs im tab) = Inr demo_part" "disk_of (c, Suc d) (demo_fs im tab) = im c (Suc d)"
  using demo_fs_simps(10) by simp_all

lemma demo_fs_ok:
  assumes "\<forall>i. length (im 0 1 i) = 512"
  shows "part_ok ((0, 1), 0) (0, 1) demo_sb demo_part (demo_fs im tab)" and "opened ((0, 1), 0) [] (demo_fs im tab)"
proof -
  have "ide_up 0 1 (demo_fs im tab)" unfolding demo_fs_def by (rule demo_machine_up) simp_all
  then have "disk_ready (0, 1) (demo_fs im tab)" using assms by (simp add: disk_ready_def sectors_def)
  then show "part_ok ((0, 1), 0) (0, 1) demo_sb demo_part (demo_fs im tab)" by (simp add: part_ok_def) (simp add: demo_part_def)
  show "opened ((0, 1), 0) [] (demo_fs im tab)"
    using demo_machine_queue by (simp add: opened_def demo_fs_def)
qed

lemma demo_sb_fits: "table_fits demo_sb"
  by (simp add: table_fits_def demo_sb_def)

section \<open>Properties\<close>

lemma inode_at_io: "sectors im \<Longrightarrow> stored b n d im im' \<Longrightarrow> sectors im'"
  by (simp add: stored_def)

text \<open>C19: what is synchronised is what is opened.  After \<open>inode_sync\<close> of an inode, opening its number anew
  yields an object with the same number, size and sector addresses, counted once and free for
  writing; the other 4095 inodes of the partition keep their bytes, also those that share
  a sector with it, and so does everything outside the inode table.\<close>

theorem inode_sync_open_roundtrip:
  assumes "part_ok p hdd b x s" and "table_fits b" and "inodes s a = Some i" and "length (i_sectors i) = 13"
    and "unat (i_no i) < 4096" and "1024 \<le> length io_buf"
    and "opened p as s" and "find (has_number s (i_no i)) as = None"
    and "malloc_at s (malloc_no s) = c" and "c \<noteq> 0" and "malloc_at s (Suc (malloc_no s)) \<noteq> 0" and "c \<notin> set as"
  shows "\<exists>b' s1 s2. inode_sync p a io_buf s = Inr (b', s1) \<and> inode_open p (i_no i) s1 = Inr (c, s2) \<and>
           inodes s2 c = Some (i\<lparr>i_open_cnts := 1, write_deny := 0\<rparr>) \<and> opened p (c # as) s2 \<and>
           (\<forall>n < 4096. n \<noteq> unat (i_no i) \<longrightarrow> inode_at (disk_of hdd s2) b n = inode_at (disk_of hdd s) b n) \<and>
           (\<forall>k. k < unat (inode_table_lba b) \<or> unat (inode_table_lba b) + 608 \<le> k \<longrightarrow> disk_of hdd s2 k = disk_of hdd s k)"
proof -
  let ?i = "i\<lparr>i_open_cnts := 0, write_deny := 0\<rparr>"
  have room: "512 * (if straddles (unat (i_no i)) then 2 else 1) \<le> length io_buf" using assms(6) by simp
  obtain b' s1 im where s1: "inode_sync p a io_buf s = Inr (b', s1)" "io hdd im s s1"
    "stored b (unat (i_no i)) (inode_bytes ?i) (disk_of hdd s) im"
    using inode_sync_ok [OF assms(1-5) room] by blast
  have ok: "part_ok p hdd b x s1" using part_ok_io [OF assms(1) s1(2)] s1(3) by (simp add: stored_def)
  have op: "opened p as s1" using assms(7) io_fstate(1) [OF s1(2)] io_frame(5) [OF s1(2)] by (simp add: opened_def)
  have none: "find (has_number s1 (i_no i)) as = None"
    using assms(8) io_fstate(1) [OF s1(2)] by (simp add: has_number_def [abs_def])
  have heap: "malloc_at s1 (malloc_no s1) = c" "malloc_at s1 (Suc (malloc_no s1)) \<noteq> 0"
    using assms(9,11) io_frame(6,7) [OF s1(2)] by simp_all
  have im: "disk_of hdd s1 = im" using io_disk [OF s1(2)] .
  obtain s2 where s2: "inode_open p (i_no i) s1 = Inr (c, s2)" "opened p (c # as) s2"
    "inodes s2 = (inodes s1)(c \<mapsto> opened_now (inode_of_bytes (inode_at im b (unat (i_no i)))))" "disk_of hdd s2 = im"
    using inode_open_fresh [OF ok assms(2,5) op none heap(1) assms(10) heap(2) assms(12)] im by auto
  have "inode_of_bytes (inode_bytes ?i) = ?i" by (rule inode_of_bytes_inverse) (simp add: assms(4))
  then have "inodes s2 c = Some (i\<lparr>i_open_cnts := 1, write_deny := 0\<rparr>)"
    using s2(3) s1(3) by (simp add: stored_def opened_now_def)
  then show ?thesis using s1 s2 by (auto simp: stored_def)
qed

text \<open>Inode 6, the first that straddles two sectors.\<close>

theorem inode_sync_open_roundtrip_witness:
  "\<exists>b' s1 s2. inode_sync ((0, 1), 0) 0x1000 (replicate 1024 0)
       (demo_fs (\<lambda>_ _ _. replicate 512 0) [0x1000 \<mapsto> \<lparr>i_no = 6, i_size = 9, i_open_cnts = 2, write_deny = 1, i_sectors = replicate 13 5\<rparr>])
       = Inr (b', s1) \<and>
     inode_open ((0, 1), 0) 6 s1 = Inr (0xc0200000, s2) \<and>
     inodes s2 0xc0200000 = Some \<lparr>i_no = 6, i_size = 9, i_open_cnts = 1, write_deny = 0, i_sectors = replicate 13 5\<rparr>"
  using inode_sync_open_roundtrip [where a = "0x1000" and io_buf = "replicate 1024 0" and as = "[]" and c = "0xc0200000",
      OF demo_fs_ok(1) demo_sb_fits _ _ _ _ demo_fs_ok(2), of "\<lambda>_ _ _. replicate 512 0"
        "[0x1000 \<mapsto> \<lparr>i_no = 6, i_size = 9, i_open_cnts = 2, write_deny = 1, i_sectors = replicate 13 5\<rparr>]"
        "\<lparr>i_no = 6, i_size = 9, i_open_cnts = 2, write_deny = 1, i_sectors = replicate 13 5\<rparr>"]
  by fastforce

end
