(* ===== verification/File.thy ===== *)
theory File
  imports Inode
begin

text \<open>
  \<open>fs/file.c\<close>: the system's table of open files and the tasks' descriptors, the allocation of
  inodes and blocks, and reading and writing files.  A pointer to an entry of \<open>file_table\<close> is its
  index.  The first 12 blocks of a file are named by its inode, up to 128 more by the block table
  whose address is the inode's thirteenth word; \<open>all_blocks\<close> collects their addresses.

  Results of type \<open>int32_t\<close> are words, the failure -1 among them.  The messages are not modelled.
\<close>

section \<open>Descriptors\<close>

function slot_from :: "open_file list \<Rightarrow> nat \<Rightarrow> u32 res" where
  "slot_from table fd_idx =
     (if fd_idx < 32 then
        bindE (rd table fd_idx) (\<lambda>f. if fd_inode f = 0 then Inr (of_nat fd_idx) else slot_from table (fd_idx + 1))
      else Inr (-1))"
  by pat_completeness auto
termination
  by (relation "measure (\<lambda>(table, fd_idx). 32 - fd_idx)") auto

declare slot_from.simps [simp del]

definition get_free_slot_in_global :: "'z fstate_scheme \<Rightarrow> u32 res" where
  "get_free_slot_in_global s = slot_from (file_table s) 3"

function install_from :: "u32 list \<Rightarrow> u32 \<Rightarrow> nat \<Rightarrow> (u32 list \<times> u32) res" where
  "install_from fds globa_fd_idx local_fd_idx =
     (if local_fd_idx < 8 then
        bindE (rd fds local_fd_idx) (\<lambda>g.
          if g = -1 then Inr (fds[local_fd_idx := globa_fd_idx], of_nat local_fd_idx)
          else install_from fds globa_fd_idx (local_fd_idx + 1))
      else Inr (fds, -1))"
  by pat_completeness auto
termination
  by (relation "measure (\<lambda>(fds, globa_fd_idx, local_fd_idx). 8 - local_fd_idx)") auto

declare install_from.simps [simp del]

definition pcb_fd_install :: "u32 \<Rightarrow> 'z kstate_scheme \<Rightarrow> (u32 \<times> 'z kstate_scheme) res" where
  "pcb_fd_install globa_fd_idx s =
     bindE (get_task (running s) s) (\<lambda>cur.
     bindE (install_from (fd_table cur) globa_fd_idx 3) (\<lambda>(fds, local_fd).
       Inr (local_fd, set_task (running s) (cur\<lparr>fd_table := fds\<rparr>) s)))"

definition fd_local2global :: "u32 \<Rightarrow> 'z kstate_scheme \<Rightarrow> u32 res" where
  "fd_local2global local_fd s =
     bindE (get_task (running s) s) (\<lambda>cur.
     bindE (rd (fd_table cur) (unat local_fd)) (\<lambda>global_fd.
     bindE (assertE (0 \<le> sint global_fd \<and> sint global_fd < 32)) (\<lambda>_. Inr global_fd)))"

definition get_file :: "nat \<Rightarrow> 'z fstate_scheme \<Rightarrow> open_file res" where
  "get_file fd s = rd (file_table s) fd"

definition set_file :: "nat \<Rightarrow> open_file \<Rightarrow> 'z fstate_scheme \<Rightarrow> 'z fstate_scheme" where
  "set_file fd f s = s\<lparr>file_table := (file_table s)[fd := f]\<rparr>"

section \<open>Bitmaps\<close>

definition inode_bitmap_alloc :: "part_ptr \<Rightarrow> 'z dstate_scheme \<Rightarrow> (u32 \<times> 'z dstate_scheme) res" where
  "inode_bitmap_alloc p s =
     bindE (get_part p s) (\<lambda>x.
     bindE (bitmap_scan (inode_bitmap x) 1) (\<lambda>bit_idx.
     if bit_idx = -1 then Inr (-1, s)
     else
       bindE (bitmap_set (inode_bitmap x) (nat bit_idx) 1) (\<lambda>b.
       bindE (set_part p (x\<lparr>inode_bitmap := b\<rparr>) s) (\<lambda>s1. Inr (word_of_int bit_idx, s1)))))"

definition block_bitmap_alloc :: "part_ptr \<Rightarrow> 'z dstate_scheme \<Rightarrow> (u32 \<times> 'z dstate_scheme) res" where
  "block_bitmap_alloc p s =
     bindE (get_part p s) (\<lambda>x.
     bindE (bitmap_scan (block_bitmap x) 1) (\<lambda>bit_idx.
     if bit_idx = -1 then Inr (-1, s)
     else
       bindE (bitmap_set (block_bitmap x) (nat bit_idx) 1) (\<lambda>b.
       bindE (set_part p (x\<lparr>block_bitmap := b\<rparr>) s) (\<lambda>s1.
       bindE (deref (sb x)) (\<lambda>sbk. Inr (data_start_lba sbk + word_of_int bit_idx, s1))))))"

datatype bitmap_type = INODE_BITMAP | BLOCK_BITMAP

definition bitmap_sync :: "part_ptr \<Rightarrow> u32 \<Rightarrow> bitmap_type \<Rightarrow> 'z dstate_scheme \<Rightarrow> 'z dstate_scheme res" where
  "bitmap_sync p bit_idx btmp_type s =
     (let off_sec = bit_idx div 4096; off_size = off_sec * 512 in
      bindE (get_part p s) (\<lambda>x.
      bindE (deref (sb x)) (\<lambda>sbk.
      bindE (deref (my_disk x)) (\<lambda>hdd.
      let (sec_lba, bitmap_off) =
        (case btmp_type of
           INODE_BITMAP \<Rightarrow> (inode_bitmap_lba sbk + off_sec, drop (unat off_size) (bits (inode_bitmap x)))
         | BLOCK_BITMAP \<Rightarrow> (block_bitmap_lba sbk + off_sec, drop (unat off_size) (bits (block_bitmap x)))) in
      ide_write hdd sec_lba bitmap_off 1 s))))"

section \<open>Opening and closing\<close>

definition file_open :: "u32 \<Rightarrow> u8 \<Rightarrow> 'z fstate_scheme \<Rightarrow> (u32 \<times> 'z fstate_scheme) res" where
  "file_open inode_no flag s =
     bindE (get_free_slot_in_global s) (\<lambda>fd_idx.
     if fd_idx = -1 then Inr (-1, s)
     else
       bindE (deref (cur_part s)) (\<lambda>p.
       bindE (inode_open p inode_no s) (\<lambda>(a, s1).
       let s2 = set_file (unat fd_idx) \<lparr>fd_pos = 0, fd_flag = ucast flag, fd_inode = a\<rparr> s1 in
       if flag = 1 \<or> flag = 2 then
         let (old_status, s3) = intr_disable s2 in
         bindE (get_inode a s3) (\<lambda>i.
         if write_deny i = 0 then
           pcb_fd_install fd_idx (snd (intr_set_status old_status (set_inode a (i\<lparr>write_deny := 1\<rparr>) s3)))
         else Inr (-1, snd (intr_set_status old_status s3)))
       else pcb_fd_install fd_idx s2)))"

definition file_close :: "nat option \<Rightarrow> 'z fstate_scheme \<Rightarrow> (u32 \<times> 'z fstate_scheme) res" where
  "file_close fd s =
     (case fd of None \<Rightarrow> Inr (-1, s)
      | Some n \<Rightarrow>
        bindE (get_file n s) (\<lambda>f.
        bindE (get_inode (fd_inode f) s) (\<lambda>i.
        bindE (inode_close (fd_inode f) (set_inode (fd_inode f) (i\<lparr>write_deny := 0\<rparr>) s)) (\<lambda>s1.
          Inr (0, set_file n (f\<lparr>fd_inode := 0\<rparr>) s1)))))"

section \<open>The blocks of a file\<close>

text \<open>Reading the block table behind the twelve direct addresses, and writing it back.\<close>

definition read_table :: "disk_ptr \<Rightarrow> u32 \<Rightarrow> u32 list \<Rightarrow> 'z dstate_scheme \<Rightarrow> (u32 list \<times> 'z dstate_scheme) res" where
  "read_table hdd lba all_blocks s =
     bindE (ide_read hdd lba (le32s (drop 12 all_blocks)) 1 s) (\<lambda>(b, s1).
       Inr (take 12 all_blocks @ of_le32s 128 b, s1))"

definition write_table :: "disk_ptr \<Rightarrow> u32 \<Rightarrow> u32 list \<Rightarrow> 'z dstate_scheme \<Rightarrow> 'z dstate_scheme res" where
  "write_table hdd lba all_blocks s = ide_write hdd lba (le32s (drop 12 all_blocks)) 1 s"

text \<open>\<open>all_blocks[block_idx] = inode->i_sectors[block_idx]\<close>\<close>

definition copy_block :: "u32 \<Rightarrow> nat \<Rightarrow> u32 list \<Rightarrow> 'z fstate_scheme \<Rightarrow> u32 list res" where
  "copy_block a block_idx all_blocks s =
     bindE (get_inode a s) (\<lambda>i. bindE (rd (i_sectors i) block_idx) (\<lambda>l. wr all_blocks block_idx l))"

text \<open>
  The loops that allocate the blocks from \<open>block_idx\<close> up: direct ones go into the inode, which must
  not have them yet, and every change of the bitmap is written at once.  \<open>None\<close> is the early
  return with -1.
\<close>

function new_blocks :: "part_ptr \<Rightarrow> u32 \<Rightarrow> nat \<Rightarrow> u32 list \<Rightarrow> nat \<Rightarrow> 'z fstate_scheme \<Rightarrow>
    (u32 list option \<times> 'z fstate_scheme) res" where
  "new_blocks p a will_use all_blocks block_idx s =
     (if block_idx < will_use then
        bindE (block_bitmap_alloc p s) (\<lambda>(block_lba, s1).
        if block_lba = -1 then Inr (None, s1)
        else
          bindE (if block_idx < 12 then
                   bindE (get_inode a s1) (\<lambda>i.
                   bindE (rd (i_sectors i) block_idx) (\<lambda>l.
                   bindE (assertE (l = 0)) (\<lambda>_.
                     Inr (set_inode a (i\<lparr>i_sectors := (i_sectors i)[block_idx := block_lba]\<rparr>) s1))))
                 else Inr s1) (\<lambda>s2.
          bindE (wr all_blocks block_idx block_lba) (\<lambda>all_blocks1.
          bindE (part_sb p s2) (\<lambda>b.
          bindE (bitmap_sync p (block_lba - data_start_lba b) BLOCK_BITMAP s2)
            (new_blocks p a will_use all_blocks1 (block_idx + 1))))))
      else Inr (Some all_blocks, s))"
  by pat_completeness auto
termination
  by (relation "measure (\<lambda>(p, a, will_use, all_blocks, block_idx, s). will_use - block_idx)") auto

declare new_blocks.simps [simp del]

text \<open>The block of a file that has none.\<close>

definition first_block :: "part_ptr \<Rightarrow> u32 \<Rightarrow> 'z fstate_scheme \<Rightarrow> (bool \<times> 'z fstate_scheme) res" where
  "first_block p a s =
     bindE (get_inode a s) (\<lambda>i.
     bindE (rd (i_sectors i) 0) (\<lambda>l.
     if l = 0 then
       bindE (block_bitmap_alloc p s) (\<lambda>(block_lba, s1).
       if block_lba = -1 then Inr (False, s1)
       else
         let s2 = set_inode a (i\<lparr>i_sectors := (i_sectors i)[0 := block_lba]\<rparr>) s1 in
         bindE (part_sb p s2) (\<lambda>b.
         let block_bitmap_idx = block_lba - data_start_lba b in
         bindE (assertE (block_bitmap_idx \<noteq> 0)) (\<lambda>_.
         bindE (bitmap_sync p block_bitmap_idx BLOCK_BITMAP s2) (\<lambda>s3. Inr (True, s3)))))
     else Inr (True, s)))"

text \<open>Collecting the addresses a write needs, in the four cases of the code.\<close>

definition gather_blocks :: "part_ptr \<Rightarrow> disk_ptr \<Rightarrow> u32 \<Rightarrow> u32 \<Rightarrow> u32 \<Rightarrow> 'z fstate_scheme \<Rightarrow>
    (u32 list option \<times> 'z fstate_scheme) res" where
  "gather_blocks p hdd a has_used will_use s =
     (let all_blocks = replicate 140 0; last_used = unat (has_used - 1) in
      bindE (get_inode a s) (\<lambda>i.
      bindE (rd (i_sectors i) 12) (\<lambda>indirect.
      if will_use - has_used = 0 then
        if has_used \<le> 12 then bindE (copy_block a last_used all_blocks s) (\<lambda>bl. Inr (Some bl, s))
        else
          bindE (assertE (indirect \<noteq> 0)) (\<lambda>_.
          bindE (read_table hdd indirect all_blocks s) (\<lambda>(bl, s1). Inr (Some bl, s1)))
      else if will_use \<le> 12 then
        bindE (rd (i_sectors i) last_used) (\<lambda>l.
        bindE (assertE (l \<noteq> 0)) (\<lambda>_.
        bindE (copy_block a last_used all_blocks s) (\<lambda>bl. new_blocks p a (unat will_use) bl (unat has_used) s)))
      else if has_used \<le> 12 then
        bindE (copy_block a last_used all_blocks s) (\<lambda>bl.
        bindE (block_bitmap_alloc p s) (\<lambda>(block_lba, s1).
        if block_lba = -1 then Inr (None, s1)
        else
          bindE (assertE (indirect = 0)) (\<lambda>_.
          bindE (new_blocks p a (unat will_use) bl (unat has_used)
                   (set_inode a (i\<lparr>i_sectors := (i_sectors i)[12 := block_lba]\<rparr>) s1)) (\<lambda>(r, s2).
          case r of None \<Rightarrow> Inr (None, s2)
          | Some bl1 \<Rightarrow> bindE (write_table hdd block_lba bl1 s2) (\<lambda>s3. Inr (Some bl1, s3))))))
      else
        bindE (assertE (indirect \<noteq> 0)) (\<lambda>_.
        bindE (read_table hdd indirect all_blocks s) (\<lambda>(bl, s1).
        bindE (new_blocks p a (unat will_use) bl (unat has_used) s1) (\<lambda>(r, s2).
        case r of None \<Rightarrow> Inr (None, s2)
        | Some bl1 \<Rightarrow> bindE (write_table hdd indirect bl1 s2) (\<lambda>s3. Inr (Some bl1, s3))))))))"

section \<open>Writing\<close>

definition chunk :: "u32 \<Rightarrow> u32 \<Rightarrow> u32" where
  "chunk size_left sec_off_bytes =
     (let sec_left_bytes = 512 - sec_off_bytes in if size_left < sec_left_bytes then size_left else sec_left_bytes)"

lemma chunk_bounds:
  assumes "0 < size_left" and "off < 512"
  shows "0 < unat (chunk size_left off)" and "unat (chunk size_left off) \<le> unat size_left"
    and "unat off + unat (chunk size_left off) \<le> 512"
proof -
  have "unat (512 - off) = 512 - unat off"
    using unat_sub [of off 512] assms(2) by (simp add: order_less_imp_le)
  moreover have "unat off < 512" "0 < unat size_left"
    using assms by (simp_all add: word_less_nat_alt unat_gt_0)
  ultimately show "0 < unat (chunk size_left off)" "unat (chunk size_left off) \<le> unat size_left"
    "unat off + unat (chunk size_left off) \<le> 512"
    by (auto simp: chunk_def Let_def word_less_nat_alt)
qed

lemma chunk_progress:
  assumes "done < count" and "off < 512"
  shows "unat (count - (done + chunk (count - done) off)) < unat (count - done)"
proof -
  have d: "0 < count - done" using assms(1) by (auto simp: word_gt_0)
  note c = chunk_bounds [OF d assms(2)]
  have "count - (done + chunk (count - done) off) = (count - done) - chunk (count - done) off" by simp
  also have "unat \<dots> = unat (count - done) - unat (chunk (count - done) off)"
    by (rule unat_sub) (use c(2) in \<open>simp add: word_le_nat_alt\<close>)
  finally show ?thesis using c(1,2) by simp
qed

lemma mod_512_less: "(x :: u32) mod 512 < 512"
  by (rule word_mod_less_divisor) simp

text \<open>One sector.  Only the first one is read before it is changed; the others are new.\<close>

definition write_sector :: "disk_ptr \<Rightarrow> nat \<Rightarrow> u32 list \<Rightarrow> buf \<Rightarrow> bool \<Rightarrow> u32 \<Rightarrow> u32 \<Rightarrow> u32 \<Rightarrow> buf \<Rightarrow>
    'z fstate_scheme \<Rightarrow> (buf \<times> 'z fstate_scheme) res" where
  "write_sector hdd fd all_blocks src first_write_block i_siz chunk_size bytes_written io_buf s =
     bindE (memset (Some io_buf) 0 512) (\<lambda>b0.
     bindE (rd all_blocks (unat (i_siz div 512))) (\<lambda>sec_lba.
     bindE (if first_write_block then ide_read hdd sec_lba b0 1 s else Inr (b0, s)) (\<lambda>(b1, s1).
     bindE (get_bytes src (unat bytes_written) (unat chunk_size)) (\<lambda>d.
     bindE (put_bytes b1 (unat (i_siz mod 512)) d) (\<lambda>b2.
     bindE (ide_write hdd sec_lba b2 1 s1) (\<lambda>s2.
     bindE (get_file fd s2) (\<lambda>f.
     bindE (get_inode (fd_inode f) s2) (\<lambda>i.
       Inr (b2, set_file fd (f\<lparr>fd_pos := fd_pos f + chunk_size\<rparr>)
                  (set_inode (fd_inode f) (i\<lparr>i_size := i_size i + chunk_size\<rparr>) s2))))))))))"

function write_loop :: "disk_ptr \<Rightarrow> nat \<Rightarrow> u32 list \<Rightarrow> buf \<Rightarrow> u32 \<Rightarrow> bool \<Rightarrow> u32 \<Rightarrow> buf \<Rightarrow>
    'z fstate_scheme \<Rightarrow> ((buf \<times> u32) \<times> 'z fstate_scheme) res" where
  "write_loop hdd fd all_blocks src count first_write_block bytes_written io_buf s =
     (if bytes_written < count then
        bindE (get_file fd s) (\<lambda>f.
        bindE (get_inode (fd_inode f) s) (\<lambda>i.
        let chunk_size = chunk (count - bytes_written) (i_size i mod 512) in
        bindE (write_sector hdd fd all_blocks src first_write_block (i_size i) chunk_size bytes_written io_buf s) (\<lambda>(b, s1).
          write_loop hdd fd all_blocks src count False (bytes_written + chunk_size) b s1)))
      else Inr ((io_buf, bytes_written), s))"
  by pat_completeness auto
termination
  by (relation "measure (\<lambda>(hdd, fd, all_blocks, src, count, first_write_block, bytes_written, io_buf, s). unat (count - bytes_written))")
    (auto intro: chunk_progress mod_512_less)

declare write_loop.simps [simp del]

definition file_write :: "nat \<Rightarrow> buf \<Rightarrow> u32 \<Rightarrow> 'z fstate_scheme \<Rightarrow> (u32 \<times> 'z fstate_scheme) res" where
  "file_write fd src count s =
     bindE (get_file fd s) (\<lambda>f.
     let a = fd_inode f in
     bindE (get_inode a s) (\<lambda>i.
     if i_size i + count > 512 * 140 then Inr (-1, s)
     else
       let (io_buf0, s1) = new_buffer 512 s in
       case io_buf0 of None \<Rightarrow> Inr (-1, s1)
       | Some io_buf \<Rightarrow>
       let (all_blocks0, s2) = new_buffer (512 + 48) s1 in
       case all_blocks0 of None \<Rightarrow> Inr (-1, s2)
       | Some _ \<Rightarrow>
       bindE (deref (cur_part s2)) (\<lambda>p.
       bindE (part_disk p s2) (\<lambda>hdd.
       bindE (first_block p a s2) (\<lambda>(got, s3).
       if \<not> got then Inr (-1, s3)
       else
         let has_used = i_size i div 512 + 1; will_use = (i_size i + count) div 512 + 1 in
         bindE (assertE (will_use \<le> 140)) (\<lambda>_.
         bindE (gather_blocks p hdd a has_used will_use s3) (\<lambda>(r, s4).
         case r of None \<Rightarrow> Inr (-1, s4)
         | Some all_blocks \<Rightarrow>
           bindE (write_loop hdd fd all_blocks src count True 0 io_buf
                    (set_file fd (f\<lparr>fd_pos := i_size i - 1\<rparr>) s4)) (\<lambda>((b, done), s5).
           bindE (inode_sync p a b s5) (\<lambda>(b1, s6).
             Inr (done, free_object (free_object s6)))))))))))"

section \<open>Reading\<close>

text \<open>\<open>all_blocks[k] = inode->i_sectors[k]\<close> for \<open>k\<close> from \<open>block_idx\<close> up to the last index.\<close>

fun copy_blocks :: "u32 \<Rightarrow> nat list \<Rightarrow> u32 list \<Rightarrow> 'z fstate_scheme \<Rightarrow> u32 list res" where
  "copy_blocks a [] all_blocks s = Inr all_blocks"
| "copy_blocks a (k # ks) all_blocks s = bindE (copy_block a k all_blocks s) (\<lambda>bl. copy_blocks a ks bl s)"

definition blocks_to_read :: "disk_ptr \<Rightarrow> u32 \<Rightarrow> u32 \<Rightarrow> u32 \<Rightarrow> 'z fstate_scheme \<Rightarrow> (u32 list \<times> 'z fstate_scheme) res" where
  "blocks_to_read hdd a start_idx end_idx s =
     (let all_blocks = replicate 140 0 in
      bindE (get_inode a s) (\<lambda>i.
      bindE (rd (i_sectors i) 12) (\<lambda>indirect.
      if start_idx - end_idx = 0 then
        if end_idx < 12 then bindE (copy_block a (unat end_idx) all_blocks s) (\<lambda>bl. Inr (bl, s))
        else read_table hdd indirect all_blocks s
      else if end_idx < 12 then
        bindE (copy_blocks a [unat start_idx..<unat end_idx + 1] all_blocks s) (\<lambda>bl. Inr (bl, s))
      else if start_idx < 12 then
        bindE (copy_blocks a [unat start_idx..<12] all_blocks s) (\<lambda>bl.
        bindE (assertE (indirect \<noteq> 0)) (\<lambda>_. read_table hdd indirect bl s))
      else bindE (assertE (indirect \<noteq> 0)) (\<lambda>_. read_table hdd indirect all_blocks s))))"

function read_loop :: "disk_ptr \<Rightarrow> nat \<Rightarrow> u32 list \<Rightarrow> buf option \<Rightarrow> buf \<Rightarrow> u32 \<Rightarrow> u32 \<Rightarrow>
    'z fstate_scheme \<Rightarrow> ((buf \<times> u32) \<times> 'z fstate_scheme) res" where
  "read_loop hdd fd all_blocks io_buf dst siz bytes_read s =
     (if bytes_read < siz then
        bindE (get_file fd s) (\<lambda>f.
        bindE (rd all_blocks (unat (fd_pos f div 512))) (\<lambda>sec_lba.
        let sec_off_bytes = fd_pos f mod 512; chunk_size = chunk (siz - bytes_read) sec_off_bytes in
        bindE (memset io_buf 0 512) (\<lambda>b0.
        bindE (ide_read hdd sec_lba b0 1 s) (\<lambda>(b1, s1).
        bindE (get_bytes b1 (unat sec_off_bytes) (unat chunk_size)) (\<lambda>d.
        bindE (put_bytes dst (unat bytes_read) d) (\<lambda>dst1.
          read_loop hdd fd all_blocks (Some b1) dst1 siz (bytes_read + chunk_size)
            (set_file fd (f\<lparr>fd_pos := fd_pos f + chunk_size\<rparr>) s1)))))))
      else Inr ((dst, bytes_read), s))"
  by pat_completeness auto
termination
  by (relation "measure (\<lambda>(hdd, fd, all_blocks, io_buf, dst, siz, bytes_read, s). unat (siz - bytes_read))")
    (auto intro: chunk_progress mod_512_less)

declare read_loop.simps [simp del]

text \<open>The function as it would go on behind the assertion at its beginning.\<close>

definition file_read_rest :: "nat \<Rightarrow> buf \<Rightarrow> u32 \<Rightarrow> 'z fstate_scheme \<Rightarrow> ((buf \<times> u32) \<times> 'z fstate_scheme) res" where
  "file_read_rest fd dst count s =
     bindE (get_file fd s) (\<lambda>f.
     let a = fd_inode f in
     bindE (get_inode a s) (\<lambda>i.
     let siz = (if fd_pos f + count > i_size i then i_size i - fd_pos f else count) in
     if fd_pos f + count > i_size i \<and> siz = 0 then Inr ((dst, -1), s)
     else
       let (io_buf, s1) = new_buffer 512 s;
           (all_blocks0, s2) = new_buffer (512 + 48) s1 in
       case all_blocks0 of None \<Rightarrow> Inr ((dst, -1), s2)
       | Some _ \<Rightarrow>
         let start_idx = fd_pos f div 512; end_idx = (fd_pos f + siz) div 512 in
         bindE (assertE (start_idx < 139 \<and> end_idx < 139)) (\<lambda>_.
         bindE (deref (cur_part s2)) (\<lambda>p.
         bindE (part_disk p s2) (\<lambda>hdd.
         bindE (blocks_to_read hdd a start_idx end_idx s2) (\<lambda>(all_blocks, s3).
         bindE (read_loop hdd fd all_blocks io_buf dst siz 0 s3) (\<lambda>(r, s4).
           Inr (r, free_object (free_object s4)))))))))"

definition file_read :: "nat \<Rightarrow> buf \<Rightarrow> u32 \<Rightarrow> 'z fstate_scheme \<Rightarrow> ((buf \<times> u32) \<times> 'z fstate_scheme) res" where
  "file_read fd dst count s =
     bindE (get_file fd s) (\<lambda>f. bindE (assertE False) (\<lambda>_. file_read_rest fd dst count s))"

end
