(* ===== verification/Dir.thy ===== *)
theory Dir
  imports File
begin

text \<open>
  \<open>fs/dir.c\<close>: the root directory.  A directory entry has 24 bytes: 16 of the name, the number of
  the inode and the type, 0 for an entry not in use.
\<close>

definition open_root_dir :: "part_ptr \<Rightarrow> 'z fstate_scheme \<Rightarrow> 'z fstate_scheme res" where
  "open_root_dir p s =
     bindE (part_sb p s) (\<lambda>b.
     bindE (inode_open p (root_inode_no b) s) (\<lambda>(a, s1). Inr (s1\<lparr>root_dir_inode := a, root_dir_pos := 0\<rparr>)))"

text \<open>Filling the 24 bytes of an entry.  The name is copied without its terminator.\<close>

definition create_dir_entry :: "buf \<Rightarrow> u32 \<Rightarrow> u8 \<Rightarrow> buf \<Rightarrow> buf res" where
  "create_dir_entry filename inode_no file_types p_de =
     bindE (strlen (Some filename)) (\<lambda>n.
     bindE (memcpy (Some p_de) (Some filename) n) (\<lambda>b1.
     bindE (put32 b1 16 inode_no) (\<lambda>b2. put32 b2 20 (ucast file_types))))"

text \<open>\<open>dir_inode->i_size += dir_entry_size\<close>\<close>

definition grow_dir :: "u32 \<Rightarrow> 'z fstate_scheme \<Rightarrow> 'z fstate_scheme res" where
  "grow_dir n s =
     bindE (get_inode (root_dir_inode s) s) (\<lambda>i.
       Inr (set_inode (root_dir_inode s) (i\<lparr>i_size := i_size i + n\<rparr>) s))"

text \<open>An entry of the sector in \<open>io_buf\<close> that is not in use, from the \<open>k\<close>-th on.\<close>

fun free_entry :: "buf \<Rightarrow> nat \<Rightarrow> nat \<Rightarrow> nat option res" where
  "free_entry io_buf k 0 = Inr None"
| "free_entry io_buf k (Suc n) =
     bindE (get32 io_buf (24 * k + 20)) (\<lambda>t. if t = 0 then Inr (Some k) else free_entry io_buf (k + 1) n)"

text \<open>
  A block that is missing is allocated.  Only the address of a direct block is kept: for the
  others the branch of the code is empty and \<open>all_blocks[block_idx]\<close> stays 0.
\<close>

definition add_block :: "part_ptr \<Rightarrow> disk_ptr \<Rightarrow> u32 \<Rightarrow> buf \<Rightarrow> buf \<Rightarrow> nat \<Rightarrow> u32 \<Rightarrow> 'z fstate_scheme \<Rightarrow>
    (bool \<times> 'z fstate_scheme) res" where
  "add_block p hdd dir_size p_de io_buf block_idx old s =
     bindE (block_bitmap_alloc p s) (\<lambda>(block_lba, s1).
     if block_lba = -1 then Inr (False, s1)
     else
       bindE (part_sb p s1) (\<lambda>b.
       bindE (bitmap_sync p (block_lba - data_start_lba b) BLOCK_BITMAP s1) (\<lambda>s2.
       bindE (if block_idx < 12 then
                bindE (get_inode (root_dir_inode s2) s2) (\<lambda>i.
                  Inr (set_inode (root_dir_inode s2) (i\<lparr>i_sectors := (i_sectors i)[block_idx := block_lba]\<rparr>) s2))
              else Inr s2) (\<lambda>s3.
       let lba = (if block_idx < 12 then block_lba else old) in
       bindE (memset (Some io_buf) 0 512) (\<lambda>b0.
       bindE (memcpy (Some b0) (Some p_de) (unat dir_size)) (\<lambda>b1.
       bindE (ide_write hdd lba b1 1 s3) (\<lambda>s4.
       bindE (grow_dir dir_size s4) (\<lambda>s5. Inr (True, s5)))))))))"

fun sync_blocks :: "part_ptr \<Rightarrow> disk_ptr \<Rightarrow> u32 \<Rightarrow> buf \<Rightarrow> nat \<Rightarrow> u32 list \<Rightarrow> buf \<Rightarrow> 'z fstate_scheme \<Rightarrow>
    (bool \<times> 'z fstate_scheme) res" where
  "sync_blocks p hdd dir_size p_de block_idx [] io_buf s = Inr (False, s)"
| "sync_blocks p hdd dir_size p_de block_idx (l # ls) io_buf s =
     (if l = 0 then add_block p hdd dir_size p_de io_buf block_idx l s
      else
        bindE (ide_read hdd l io_buf 1 s) (\<lambda>(b1, s1).
        bindE (free_entry b1 0 (unat (512 div dir_size))) (\<lambda>r.
        case r of
          Some k \<Rightarrow>
            bindE (get_bytes p_de 0 (unat dir_size)) (\<lambda>d.
            bindE (put_bytes b1 (24 * k) d) (\<lambda>b2.
            bindE (ide_write hdd l b2 1 s1) (\<lambda>s2.
            bindE (grow_dir dir_size s2) (\<lambda>s3. Inr (True, s3)))))
        | None \<Rightarrow> sync_blocks p hdd dir_size p_de (block_idx + 1) ls b1 s1)))"

definition sync_dir_entry :: "buf \<Rightarrow> buf \<Rightarrow> 'z fstate_scheme \<Rightarrow> (bool \<times> 'z fstate_scheme) res" where
  "sync_dir_entry p_de io_buf s =
     bindE (get_inode (root_dir_inode s) s) (\<lambda>i.
     bindE (deref (cur_part s)) (\<lambda>p.
     bindE (part_sb p s) (\<lambda>b.
     bindE (part_disk p s) (\<lambda>hdd.
       sync_blocks p hdd (dir_entry_size b) p_de 0 (take 12 (i_sectors i) @ replicate 128 0) io_buf s))))"

end
