(* ===== verification/Fs.thy ===== *)
theory Fs
  imports Dir IOQueue
begin

text \<open>
  \<open>fs/fs.c\<close>: formatting and mounting partitions, looking up and creating files in the root
  directory, and the system calls on files.
\<close>

section \<open>The super block as bytes\<close>

definition sb_words :: "super_block \<Rightarrow> u32 list" where
  "sb_words b =
     [magic b, sb_sec_cnt b, inode_cnt b, part_lba_base b, block_bitmap_lba b, block_bitmap_sects b,
      inode_bitmap_lba b, inode_bitmap_sects b, inode_table_lba b, inode_table_sects b, data_start_lba b,
      root_inode_no b, dir_entry_size b]"

definition sb_of_words :: "u32 list \<Rightarrow> super_block" where
  "sb_of_words w =
     \<lparr>magic = w ! 0, sb_sec_cnt = w ! 1, inode_cnt = w ! 2, part_lba_base = w ! 3, block_bitmap_lba = w ! 4,
      block_bitmap_sects = w ! 5, inode_bitmap_lba = w ! 6, inode_bitmap_sects = w ! 7, inode_table_lba = w ! 8,
      inode_table_sects = w ! 9, data_start_lba = w ! 10, root_inode_no = w ! 11, dir_entry_size = w ! 12\<rparr>"

text \<open>\<open>pad\<close>: the last 460 bytes of the structure, which the code does not set.\<close>

definition sb_bytes :: "super_block \<Rightarrow> buf \<Rightarrow> buf" where
  "sb_bytes b pad = le32s (sb_words b) @ pad"

definition sb_of_bytes :: "buf \<Rightarrow> super_block" where
  "sb_of_bytes d = sb_of_words (of_le32s 13 d)"

section \<open>Mounting\<close>

text \<open>A buffer the code cannot do without.\<close>

definition must_have :: "'a option \<Rightarrow> 'a res" where
  "must_have p = (case p of None \<Rightarrow> Inl Panic_call | Some b \<Rightarrow> Inr b)"

definition mount_bitmap :: "disk_ptr \<Rightarrow> u32 \<Rightarrow> u32 \<Rightarrow> 'z fstate_scheme \<Rightarrow> (bitmap \<times> 'z fstate_scheme) res" where
  "mount_bitmap hdd lba sects s =
     (let (p, s1) = new_buffer (unat (sects * 512)) s in
      bindE (must_have p) (\<lambda>b.
      bindE (ide_read hdd lba b sects s1) (\<lambda>(b1, s2).
        Inr (\<lparr>btmp_bytes_len = unat (sects * 512), bits = b1\<rparr>, s2))))"

definition mount_partition :: "buf \<Rightarrow> part_ptr \<Rightarrow> 'z fstate_scheme \<Rightarrow> (bool \<times> 'z fstate_scheme) res" where
  "mount_partition name p s =
     bindE (get_part p s) (\<lambda>x.
     bindE (strcmp (Some (part_name x)) (Some name)) (\<lambda>c.
     if c = 0 then
       let s1 = s\<lparr>cur_part := Some p\<rparr> in
       bindE (deref (my_disk x)) (\<lambda>hdd.
       let (sb_buf0, s2) = new_buffer 512 s1 in
       bindE (must_have sb_buf0) (\<lambda>sb_buf.
       let (sb0, s3) = new_buffer 512 s2 in
       bindE (must_have sb0) (\<lambda>_.
       bindE (memset (Some sb_buf) 0 512) (\<lambda>b0.
       bindE (ide_read hdd (start_lba x + 1) b0 1 s3) (\<lambda>(b1, s4).
       let b = sb_of_bytes b1 in
       bindE (set_part p (x\<lparr>sb := Some b\<rparr>) s4) (\<lambda>s5.
       bindE (mount_bitmap hdd (block_bitmap_lba b) (block_bitmap_sects b) s5) (\<lambda>(bb, s6).
       bindE (set_part p (x\<lparr>sb := Some b, block_bitmap := bb\<rparr>) s6) (\<lambda>s7.
       bindE (mount_bitmap hdd (inode_bitmap_lba b) (inode_bitmap_sects b) s7) (\<lambda>(ib, s8).
       bindE (set_part p (x\<lparr>sb := Some b, block_bitmap := bb, inode_bitmap := ib\<rparr>) s8) (\<lambda>s9.
         Inr (True, list_init (klist (open_list p)) s9)))))))))))
     else Inr (False, s)))"

section \<open>Formatting\<close>

definition DIV_ROUND_UP :: "u32 \<Rightarrow> u32 \<Rightarrow> u32" where
  "DIV_ROUND_UP x step = (x + step - 1) div step"

definition format_layout :: "partition \<Rightarrow> super_block \<times> u32" where
  "format_layout x =
     (let bitmap_sects = DIV_ROUND_UP 4096 4096;
          table_sects = DIV_ROUND_UP (76 * 4096) 512;
          used_sects = 1 + 1 + bitmap_sects + table_sects;
          free_sects = sec_cnt x - used_sects;
          bb_sects = DIV_ROUND_UP free_sects (4096 + 1);
          bb_lba = start_lba x + 2;
          ib_lba = bb_lba + bb_sects;
          it_lba = ib_lba + bitmap_sects in
      (\<lparr>magic = 0x19980320, sb_sec_cnt = sec_cnt x, inode_cnt = 4096, part_lba_base = start_lba x,
        block_bitmap_lba = bb_lba, block_bitmap_sects = bb_sects,
        inode_bitmap_lba = ib_lba, inode_bitmap_sects = bitmap_sects,
        inode_table_lba = it_lba, inode_table_sects = table_sects,
        data_start_lba = it_lba + table_sects, root_inode_no = 0, dir_entry_size = 24\<rparr>,
       free_sects - bb_sects))"

text \<open>\<open>while (bit_idx <= block_bitmap_last_bit) buf[block_bitmap_last_byte] &= ~(1 << bit_idx++)\<close>\<close>

fun clear_bits :: "nat \<Rightarrow> nat \<Rightarrow> u8 \<Rightarrow> u8" where
  "clear_bits bit_idx 0 v = v"
| "clear_bits bit_idx (Suc n) v = clear_bits (Suc bit_idx) n (v AND NOT (push_bit bit_idx 1))"

definition mark_first :: "buf \<Rightarrow> buf res" where
  "mark_first b = bindE (rd b 0) (\<lambda>v. wr b 0 (v OR 1))"

definition init_block_bitmap :: "u32 \<Rightarrow> buf \<Rightarrow> buf res" where
  "init_block_bitmap bit_len b =
     bindE (mark_first b) (\<lambda>b0.
     let last_byte = unat (bit_len div 8); last_bit = unat (bit_len mod 8);
         remain_byte = 512 - last_byte mod 512 in
     bindE (put_bytes b0 last_byte (replicate remain_byte 0xff)) (\<lambda>b1.
     bindE (rd b1 last_byte) (\<lambda>v. wr b1 last_byte (clear_bits 0 (last_bit + 1) v))))"

definition root_inode :: "super_block \<Rightarrow> inode" where
  "root_inode b =
     \<lparr>i_no = 0, i_size = dir_entry_size b * 2, i_open_cnts = 0, write_deny = 0,
      i_sectors = data_start_lba b # replicate 12 0\<rparr>"

definition root_entries :: "buf \<Rightarrow> buf res" where
  "root_entries b =
     bindE (put_bytes b 0 [0x2e]) (\<lambda>b1. bindE (put32 b1 16 0) (\<lambda>b2. bindE (put32 b2 20 2) (\<lambda>b3.
     bindE (put_bytes b3 24 [0x2e, 0x2e]) (\<lambda>b4. bindE (put32 b4 40 0) (\<lambda>b5. put32 b5 44 2)))))"

text \<open>The largest of the three regions, in sectors.\<close>

definition format_buf_sects :: "super_block \<Rightarrow> u32" where
  "format_buf_sects b =
     (let m = (if block_bitmap_sects b \<ge> inode_bitmap_sects b then block_bitmap_sects b else inode_bitmap_sects b) in
      if m \<ge> inode_table_sects b then m else inode_table_sects b)"

definition partition_format :: "buf \<Rightarrow> part_ptr \<Rightarrow> 'z fstate_scheme \<Rightarrow> 'z fstate_scheme res" where
  "partition_format pad p s =
     bindE (get_part p s) (\<lambda>x.
     let (b, bit_len) = format_layout x in
     bindE (deref (my_disk x)) (\<lambda>hdd.
     bindE (ide_write hdd (start_lba x + 1) (sb_bytes b pad) 1 s) (\<lambda>s1.
     let buf_size = format_buf_sects b * 512;
         (buf0, s2) = new_buffer (unat buf_size) s1 in
     bindE (deref buf0) (\<lambda>bf.
     bindE (init_block_bitmap bit_len bf) (\<lambda>b1.
     bindE (ide_write hdd (block_bitmap_lba b) b1 (block_bitmap_sects b) s2) (\<lambda>s3.
     bindE (memset (Some b1) 0 (unat buf_size)) (\<lambda>b2.
     bindE (mark_first b2) (\<lambda>b3.
     bindE (ide_write hdd (inode_bitmap_lba b) b3 (inode_bitmap_sects b) s3) (\<lambda>s4.
     bindE (memset (Some b3) 0 (unat buf_size)) (\<lambda>b4.
     bindE (put_bytes b4 0 (inode_bytes (root_inode b))) (\<lambda>b5.
     bindE (ide_write hdd (inode_table_lba b) b5 (inode_table_sects b) s4) (\<lambda>s5.
     bindE (memset (Some b5) 0 (unat buf_size)) (\<lambda>b6.
     bindE (root_entries b6) (\<lambda>b7.
     bindE (ide_write hdd (data_start_lba b) b7 1 s5) (\<lambda>s6. Inr (free_object s6))))))))))))))))"

section \<open>Looking up and creating files\<close>

text \<open>The entries of the sector in \<open>buf\<close>, from the \<open>k\<close>-th on: the inode of the name.\<close>

fun match_entry :: "buf \<Rightarrow> buf \<Rightarrow> nat \<Rightarrow> nat \<Rightarrow> u32 option res" where
  "match_entry b name k 0 = Inr None"
| "match_entry b name k (Suc n) =
     bindE (strcmp (Some (drop (24 * k) b)) (Some name)) (\<lambda>c.
     if c = 0 then bindE (get32 b (24 * k + 16)) (\<lambda>no. Inr (Some no)) else match_entry b name (k + 1) n)"

fun search_blocks :: "disk_ptr \<Rightarrow> buf \<Rightarrow> nat \<Rightarrow> u32 list \<Rightarrow> buf option \<Rightarrow> 'z dstate_scheme \<Rightarrow>
    (u32 option \<times> 'z dstate_scheme) res" where
  "search_blocks hdd name n [] b s = Inr (None, s)"
| "search_blocks hdd name n (l # ls) b s =
     (if l = 0 then search_blocks hdd name n ls b s
      else
        bindE (deref b) (\<lambda>b0.
        bindE (ide_read hdd l b0 1 s) (\<lambda>(b1, s1).
        bindE (match_entry b1 name 0 n) (\<lambda>r.
        case r of Some no \<Rightarrow> Inr (Some no, s1)
        | None \<Rightarrow> bindE (memset (Some b1) 0 24) (\<lambda>b2. search_blocks hdd name n ls (Some b2) s1)))))"

text \<open>The buffers are given back only when nothing is found.\<close>

definition search_file :: "buf \<Rightarrow> 'z fstate_scheme \<Rightarrow> (u32 \<times> 'z fstate_scheme) res" where
  "search_file pathname s =
     bindE (strlen (Some pathname)) (\<lambda>n.
     let path_len = (of_nat n :: u8) in
     bindE (rd pathname 0) (\<lambda>c.
     bindE (assertE (c = 0x2f \<and> 1 < path_len \<and> unat path_len < 512)) (\<lambda>_.
     let name = drop 1 pathname; (all_blocks0, s1) = new_buffer (48 + 512) s in
     bindE (must_have all_blocks0) (\<lambda>_.
     bindE (get_inode (root_dir_inode s1) s1) (\<lambda>i.
     bindE (deref (cur_part s1)) (\<lambda>p.
     bindE (part_disk p s1) (\<lambda>hdd.
     bindE (rd (i_sectors i) 12) (\<lambda>table.
     let blocks = take 12 (i_sectors i) @ replicate 128 0 in
     bindE (if table \<noteq> 0 then read_table hdd table blocks s1 else Inr (blocks, s1)) (\<lambda>(all_blocks, s2).
     let (buf0, s3) = new_buffer 1024 s2 in
     bindE (part_sb p s3) (\<lambda>b.
     bindE (search_blocks hdd name (unat (512 div dir_entry_size b)) all_blocks buf0 s3) (\<lambda>(r, s4).
       case r of Some no \<Rightarrow> Inr (no, s4)
       | None \<Rightarrow> Inr (-1, free_object (free_object s4)))))))))))))"

definition file_create :: "buf \<Rightarrow> u8 \<Rightarrow> 'z fstate_scheme \<Rightarrow> (u32 \<times> 'z fstate_scheme) res" where
  "file_create filename flags s =
     bindE (deref (cur_part s)) (\<lambda>p.
     bindE (inode_bitmap_alloc p s) (\<lambda>(inode_no, s1).
     let (a, s2) = new_object s1 in
     if a = 0 then Inr (-1, s2)
     else
       let s3 = set_inode a (inode_init inode_no) s2 in
       bindE (get_free_slot_in_global s3) (\<lambda>fd_idx.
       if fd_idx = -1 then Inr (-1, s3)
       else
         let s4 = set_file (unat fd_idx) \<lparr>fd_pos = 0, fd_flag = ucast flags, fd_inode = a\<rparr> s3 in
         bindE (create_dir_entry (drop 1 filename) inode_no 1 (replicate 24 0)) (\<lambda>e.
         let (io_buf0, s5) = new_buffer 1024 s4 in
         case io_buf0 of None \<Rightarrow> Inr (-1, s5)
         | Some io_buf \<Rightarrow>
           bindE (sync_dir_entry e io_buf s5) (\<lambda>(done, s6).
           if \<not> done then Inr (-1, s6)
           else
             bindE (inode_sync p a io_buf s6) (\<lambda>(b1, s7).
             bindE (bitmap_sync p inode_no INODE_BITMAP s7) (\<lambda>s8.
             bindE (q_push (open_list p) (Inode_tag a) s8) (\<lambda>s9.
             bindE (get_inode a s9) (\<lambda>i.
               pcb_fd_install fd_idx (free_object (set_inode a (i\<lparr>i_open_cnts := 1\<rparr>) s9)))))))))))"

section \<open>System calls\<close>

definition O_CREAT :: u8 where
  "O_CREAT = 4"

definition sys_open :: "buf \<Rightarrow> u8 \<Rightarrow> 'z fstate_scheme \<Rightarrow> (u32 \<times> 'z fstate_scheme) res" where
  "sys_open pathname flags s =
     bindE (search_file pathname s) (\<lambda>(inode_no, s1).
     let found = (inode_no \<noteq> -1); create = (O_CREAT AND flags \<noteq> 0) in
     if found \<and> create then Inr (-1, s1)
     else if \<not> found \<and> create then file_create pathname flags s1
     else file_open inode_no flags s1)"

text \<open>The calls of the console are the first part of the result.\<close>

definition not_allowed :: buf where
  "not_allowed =
     map (\<lambda>c. of_nat (of_char c)) (''sys_write: not allowed to write file without flag O_RDWR or O_WRONLY'' @ [CHR 0x0A, CHR 0x00])"

definition sys_write :: "u32 \<Rightarrow> buf \<Rightarrow> u32 \<Rightarrow> 'z fstate_scheme \<Rightarrow> ((screen_call list \<times> u32) \<times> 'z fstate_scheme) res" where
  "sys_write fd src count s =
     (if sint fd < 0 then Inr (([], -1), s)
      else if fd = 1 then
        bindE (memcpy (Some (replicate 1024 0)) (Some src) (unat count)) (\<lambda>tmp_buf.
        bindE (console_put_str tmp_buf s) (\<lambda>(calls, s1). Inr ((calls, count), s1)))
      else
        bindE (fd_local2global fd s) (\<lambda>g.
        bindE (get_file (unat g) s) (\<lambda>wr_file.
        if fd_flag wr_file AND 1 \<noteq> 0 \<or> fd_flag wr_file AND 2 \<noteq> 0 then
          bindE (file_write (unat g) src count s) (\<lambda>(n, s1). Inr (([], n), s1))
        else
          bindE (console_put_str not_allowed s) (\<lambda>(calls, s1). Inr ((calls, -1), s1)))))"

definition sys_read :: "u32 \<Rightarrow> buf option \<Rightarrow> u32 \<Rightarrow> 'z fstate_scheme \<Rightarrow> ((buf option \<times> u32) \<times> 'z fstate_scheme) res" where
  "sys_read fd dst count s =
     (if sint fd < 0 then Inr ((dst, -1), s)
      else
        bindE (assertE (dst \<noteq> None)) (\<lambda>_.
        bindE (deref dst) (\<lambda>b.
        bindE (fd_local2global fd s) (\<lambda>g.
        bindE (file_read (unat g) b count s) (\<lambda>((b1, n), s1). Inr ((Some b1, n), s1))))))"

section \<open>Initialisation\<close>

text \<open>The partitions of a disk, from \<open>part_idx\<close> on: those without a file system are formatted.\<close>

function check_partitions :: "buf \<Rightarrow> disk_ptr \<Rightarrow> nat \<Rightarrow> buf \<Rightarrow> 'z fstate_scheme \<Rightarrow> (buf \<times> 'z fstate_scheme) res" where
  "check_partitions pad hdd part_idx sb_buf s =
     (if part_idx < 12 then
        bindE (get_part (hdd, part_idx) s) (\<lambda>x.
        bindE (if sec_cnt x \<noteq> 0 then
                 bindE (memset (Some sb_buf) 0 512) (\<lambda>b0.
                 bindE (ide_read hdd (start_lba x + 1) b0 1 s) (\<lambda>(b1, s1).
                 if magic (sb_of_bytes b1) = 0x19980320 then Inr (b1, s1)
                 else bindE (partition_format pad (hdd, part_idx) s1) (\<lambda>s2. Inr (b1, s2))))
               else Inr (sb_buf, s)) (\<lambda>(b2, s3).
          check_partitions pad hdd (part_idx + 1) b2 s3))
      else Inr (sb_buf, s))"
  by pat_completeness auto
termination
  by (relation "measure (\<lambda>(pad, hdd, part_idx, sb_buf, s). 12 - part_idx)") auto

declare check_partitions.simps [simp del]

text \<open>\<open>part_idx\<close> is set to 0 once, in front of the loop over the channels.\<close>

fun check_channels :: "buf \<Rightarrow> nat \<Rightarrow> nat \<Rightarrow> nat \<Rightarrow> buf \<Rightarrow> 'z fstate_scheme \<Rightarrow> 'z fstate_scheme res" where
  "check_channels pad channel_no 0 part_idx sb_buf s = Inr s"
| "check_channels pad channel_no (Suc n) part_idx sb_buf s =
     bindE (check_partitions pad (channel_no, 1) part_idx sb_buf s) (\<lambda>(b, s1).
       check_channels pad (channel_no + 1) n (max part_idx 12) b s1)"

definition mount_elem :: "buf \<Rightarrow> (ktag, klid) node \<Rightarrow> 'z fstate_scheme \<Rightarrow> (bool \<times> 'z fstate_scheme) res" where
  "mount_elem name pelem s =
     bindE (elem2entry (Some pelem)) (\<lambda>t. bindE (tag2part t) (\<lambda>p. mount_partition name p s))"

definition filesys_init :: "buf \<Rightarrow> 'z fstate_scheme \<Rightarrow> 'z fstate_scheme res" where
  "filesys_init pad s =
     (let (sb_buf0, s1) = new_buffer 512 s in
      bindE (must_have sb_buf0) (\<lambda>sb_buf.
      bindE (check_channels pad 0 (unat (channel_cnt s1)) 0 sb_buf s1) (\<lambda>s2.
      bindE (list_traversal (klist Partition_list) (mount_elem [0x68, 0x64, 0x62, 0x31, 0, 0, 0, 0]) (free_object s2)) (\<lambda>(r, s3).
      bindE (deref (cur_part s3)) (\<lambda>p.
      bindE (open_root_dir p s3) (\<lambda>s4.
        Inr (s4\<lparr>file_table := map (\<lambda>f. f\<lparr>fd_inode := 0\<rparr>) (file_table s4)\<rparr>)))))))"

end
