(* ===== verification/Format.thy ===== *)
theory Format
  imports Fs
begin

text \<open>
  What formatting a partition leaves on the disk, and that mounting it brings it back: the
  layout of the regions, the bitmaps, the inode and the entries of the root directory.
\<close>

section \<open>The layout\<close>

definition free_sects :: "nat \<Rightarrow> nat" where
  "free_sects n = n - 611"

definition bitmap_sects :: "nat \<Rightarrow> nat" where
  "bitmap_sects n = (free_sects n + 4096) div 4097"

definition data_blocks :: "nat \<Rightarrow> nat" where
  "data_blocks n = free_sects n - bitmap_sects n"

lemma bitmap_sects_bounds:
  assumes "620 \<le> n" and "n < 2 ^ 21"
  shows "1 \<le> bitmap_sects n" and "bitmap_sects n \<le> 512" and "data_blocks n \<le> 4096 * bitmap_sects n"
    and "4096 * (bitmap_sects n - 1) \<le> data_blocks n" and "8 \<le> data_blocks n"
    and "data_blocks n + bitmap_sects n + 611 = n"
proof -
  define F where "F = free_sects n"
  define B where "B = bitmap_sects n"
  have F: "9 \<le> F" "F < 2097152" "F + 611 = n" using assms by (simp_all add: F_def free_sects_def)
  have B: "B = (F + 4096) div 4097" by (simp add: B_def bitmap_sects_def F_def)
  have "4097 * B \<le> F + 4096" "F + 4096 < 4097 * B + 4097"
    using mult_div_mod_eq [of 4097 "F + 4096"] mod_less_divisor [of 4097 "F + 4096"] unfolding B by linarith+
  then show "1 \<le> bitmap_sects n" "bitmap_sects n \<le> 512" "data_blocks n \<le> 4096 * bitmap_sects n"
    "4096 * (bitmap_sects n - 1) \<le> data_blocks n" "8 \<le> data_blocks n" "data_blocks n + bitmap_sects n + 611 = n"
    using F unfolding data_blocks_def F_def [symmetric] B_def [symmetric] by linarith+
qed

lemma format_layout_ok:
  assumes "620 \<le> unat (sec_cnt x)" and "unat (sec_cnt x) < 2 ^ 21" and "unat (start_lba x) + unat (sec_cnt x) \<le> 2 ^ 28"
  defines "n \<equiv> unat (sec_cnt x)" and "st \<equiv> unat (start_lba x)"
  shows "\<exists>b len. format_layout x = (b, len) \<and> unat (block_bitmap_lba b) = st + 2 \<and>
           unat (block_bitmap_sects b) = bitmap_sects n \<and> unat (inode_bitmap_lba b) = st + 2 + bitmap_sects n \<and>
           inode_bitmap_sects b = 1 \<and> unat (inode_table_lba b) = st + 3 + bitmap_sects n \<and> inode_table_sects b = 608 \<and>
           unat (data_start_lba b) = st + 611 + bitmap_sects n \<and> unat len = data_blocks n \<and>
           magic b = 0x19980320 \<and> root_inode_no b = 0 \<and> dir_entry_size b = 24"
proof -
  note bb = bitmap_sects_bounds [OF assms(1,2)]
  have f: "unat (sec_cnt x - 611) = free_sects n"
    unfolding free_sects_def n_def by (subst unat_sub) (use assms(1) in \<open>simp_all add: word_le_nat_alt\<close>)
  have "free_sects n < 2 ^ 21" using assms(2) by (simp add: free_sects_def n_def)
  then have up: "unat (w + 4096) = free_sects n + 4096" if "unat w = free_sects n" for w :: u32
    using that by (simp add: unat_word_ariths)
  have "DIV_ROUND_UP w 4097 = (w + 4096) div 4097" for w by (simp add: DIV_ROUND_UP_def add.commute)
  then have b: "unat (DIV_ROUND_UP (sec_cnt x - 611) 4097) = bitmap_sects n"
    using up [OF f] by (simp only: unat_div bitmap_sects_def) simp
  have st: "unat (start_lba x + 2) = st + 2"
    using assms(1,3) by (simp add: unat_word_ariths st_def)
  have ib: "unat (start_lba x + 2 + DIV_ROUND_UP (sec_cnt x - 611) 4097) = st + 2 + bitmap_sects n"
    by (subst unat_word_ariths, subst st, subst b) (use assms(3) bb(6) in \<open>simp add: n_def st_def\<close>)
  have it: "unat (start_lba x + 2 + DIV_ROUND_UP (sec_cnt x - 611) 4097 + 1) = st + 3 + bitmap_sects n"
    by (subst unat_word_ariths, subst ib) (use assms(3) bb(6) in \<open>simp add: n_def st_def\<close>)
  have ds: "unat (start_lba x + 2 + DIV_ROUND_UP (sec_cnt x - 611) 4097 + 1 + 608) = st + 611 + bitmap_sects n"
    by (subst unat_word_ariths, subst it) (use assms(3) bb(6) in \<open>simp add: n_def st_def\<close>)
  have le: "DIV_ROUND_UP (sec_cnt x - 611) 4097 \<le> sec_cnt x - 611"
    using b f bb(6) assms(1) by (simp add: word_le_nat_alt free_sects_def n_def)
  have len: "unat (sec_cnt x - 611 - DIV_ROUND_UP (sec_cnt x - 611) 4097) = data_blocks n"
    using unat_sub [OF le] f b by (simp add: data_blocks_def)
  have c: "DIV_ROUND_UP 4096 4096 = 1" "DIV_ROUND_UP 311296 512 = 608" by (simp_all add: DIV_ROUND_UP_def)
  show ?thesis
    unfolding format_layout_def Let_def using st ib it ds len b by (simp add: c)
qed

section \<open>The block bitmap\<close>

lemma clear_bits_bit: "bit (clear_bits k n v) j \<longleftrightarrow> bit v j \<and> \<not> (k \<le> j \<and> j < k + n)"
  by (induction k n v rule: clear_bits.induct) (auto simp: bit_simps not_less_eq_eq dest: bit_imp_le_length)

lemma init_block_bitmap_ok:
  assumes "unat bit_len = len" and "8 \<le> len" and "512 * (len div 4096 + 1) \<le> m"
  shows "\<exists>bm. init_block_bitmap bit_len (replicate m 0) = Inr bm \<and> length bm = m \<and>
           (\<forall>i < 4096 * (len div 4096 + 1). bit (bm ! (i div 8)) (i mod 8) = (i = 0 \<or> len < i))"
proof -
  define lb where "lb = len div 8"
  define lt where "lt = len mod 8"
  define rem where "rem = 512 - lb mod 512"
  have u: "unat (bit_len div 8) = lb" "unat (bit_len mod 8) = lt"
    using assms(1) by (simp_all add: unat_div unat_mod lb_def lt_def)
  have lbd: "lb div 512 = len div 4096" by (simp add: lb_def flip: div_mult2_eq)
  have "lb mod 512 < 512" by simp
  then have "lb mod 512 + rem = 512" unfolding rem_def by linarith
  moreover have "512 * (len div 4096) + lb mod 512 = lb" using mult_div_mod_eq [of 512 lb] unfolding lbd .
  moreover have "t + rem = 512 \<Longrightarrow> t < 512 \<Longrightarrow> 512 * q + t = lb \<Longrightarrow> 0 < rem \<and> lb + rem = 512 * (q + 1)" for t q by auto
  ultimately have r: "0 < rem" "lb + rem = 512 * (len div 4096 + 1)" using \<open>lb mod 512 < 512\<close> by blast+
  have lb0: "0 < lb" using assms(2) by (simp add: lb_def div_greater_zero_iff)
  have m: "0 < m" "lb + rem \<le> m" using assms(3) r by linarith+
  let ?b0 = "(replicate m (0 :: u8))[0 := 1]"
  let ?b1 = "take lb ?b0 @ replicate rem 0xff @ drop (lb + rem) ?b0"
  have len1: "length ?b1 = m" using m(2) by simp
  have b0: "mark_first (replicate m 0) = Inr ?b0" using m(1) by (simp add: mark_first_def)
  have b1: "put_bytes ?b0 lb (replicate rem 0xff) = Inr ?b1" using m(2) by (simp add: put_bytes_ok)
  have lbm: "lb < m" using m(2) r(1) by linarith
  have n1: "?b1 ! k = (if k < lb then ?b0 ! k else 0xff)" if "k < lb + rem" for k
    using that m(2) by (auto simp: nth_append)
  let ?bm = "?b1[lb := clear_bits 0 (lt + 1) 0xff]"
  have "init_block_bitmap bit_len (replicate m 0) = Inr ?bm"
    using b0 b1 lbm len1 n1 [of lb] r(1) by (simp add: init_block_bitmap_def u rem_def [symmetric] Let_def)
  moreover have "bit (?bm ! (i div 8)) (i mod 8) = (i = 0 \<or> len < i)" if "i < 4096 * (len div 4096 + 1)" for i
  proof -
    let ?k = "i div 8" and ?j = "i mod 8"
    have k: "?k < lb + rem" using that r(2) by (simp add: div_less_iff_less_mult)
    have i: "i = 8 * ?k + ?j" "?j < 8" and l: "len = 8 * lb + lt" "lt < 8" by (simp_all add: lb_def lt_def)
    have ff: "bit (0xff :: u8) ?j" using byte_full_iff [of 255] i(2) by simp
    consider "?k = lb" | "?k < lb" | "lb < ?k" by linarith
    then show ?thesis
    proof cases
      case 1
      then have "bit (?bm ! ?k) ?j = (lt < ?j)" using lbm len1 ff by (simp add: clear_bits_bit not_less not_le del: clear_bits.simps) auto
      then show ?thesis using 1 i l lb0 by linarith
    next
      case 2
      then have "?bm ! ?k = (if ?k = 0 then 1 else 0)" using n1 [OF k] lbm by (simp add: nth_list_update)
      then have "bit (?bm ! ?k) ?j = (?k = 0 \<and> ?j = 0)" by (auto simp: bit_1_iff)
      then show ?thesis using 2 i l by (auto; linarith)
    next
      case 3
      then have "?bm ! ?k = 0xff" using n1 [OF k] by simp
      then have "bit (?bm ! ?k) ?j" using ff by simp
      then show ?thesis using 3 i l by linarith
    qed
  qed
  ultimately show ?thesis using len1 by auto
qed

section \<open>The root directory\<close>

text \<open>The first 48 bytes of the root directory's sector: the entries \<open>.\<close> and \<open>..\<close>.\<close>

definition root_dir_bytes :: buf where
  "root_dir_bytes = [0x2e] @ replicate 15 0 @ le32 0 @ le32 2 @ [0x2e, 0x2e] @ replicate 14 0 @ le32 0 @ le32 2"

lemma put_bytes_append:
  assumes "put_bytes a off d = Inr a'"
  shows "put_bytes (a @ r) off d = Inr (a' @ r)"
  using assms by (auto simp: put_bytes_def split: if_splits)

lemma put32_append: "put32 a off w = Inr a' \<Longrightarrow> put32 (a @ r) off w = Inr (a' @ r)"
  by (simp add: put32_def put_bytes_append)

lemma root_entries_append:
  assumes "root_entries a = Inr a'"
  shows "root_entries (a @ r) = Inr (a' @ r)"
proof -
  obtain b1 b2 b3 b4 b5 where b: "put_bytes a 0 [0x2e] = Inr b1" "put32 b1 16 0 = Inr b2" "put32 b2 20 2 = Inr b3"
    "put_bytes b3 24 [0x2e, 0x2e] = Inr b4" "put32 b4 40 0 = Inr b5" "put32 b5 44 2 = Inr a'"
    using assms by (auto simp: root_entries_def res_simps)
  show ?thesis
    by (simp add: root_entries_def put_bytes_append [OF b(1)] put32_append [OF b(2)] put32_append [OF b(3)]
        put_bytes_append [OF b(4)] put32_append [OF b(5)] put32_append [OF b(6)])
qed

lemma root_entries_ok:
  assumes "48 \<le> m"
  shows "root_entries (replicate m 0) = Inr (root_dir_bytes @ replicate (m - 48) 0)"
proof -
  have "root_entries (replicate 48 0) = Inr root_dir_bytes" by code_simp
  moreover have "replicate m (0 :: u8) = replicate 48 0 @ replicate (m - 48) 0"
    using assms by (simp flip: replicate_add)
  ultimately show ?thesis using root_entries_append by simp
qed

section \<open>Formatting\<close>

definition fresh_table :: "super_block \<Rightarrow> nat \<Rightarrow> buf" where
  "fresh_table b m = inode_bytes (root_inode b) @ replicate (m - 76) 0"

definition formatted :: "super_block \<Rightarrow> nat \<Rightarrow> nat \<Rightarrow> buf \<Rightarrow> buf \<Rightarrow> (nat \<Rightarrow> buf) \<Rightarrow> (nat \<Rightarrow> buf)" where
  "formatted b st B pad bm im =
     write_image (write_image (write_image (write_image (write_image im (st + 1) 1 (sb_bytes b pad))
       (st + 2) B bm) (st + 2 + B) 1 ((replicate 311296 0)[0 := 1])) (st + 3 + B) 608 (fresh_table b 311296))
       (st + 611 + B) 1 (root_dir_bytes @ replicate 311248 0)"

lemma io_heap:
  assumes "io hdd im s s'"
  shows "io hdd im (s\<lparr>malloc_no := n, live := m\<rparr>) (s'\<lparr>malloc_no := n, live := m\<rparr>)"
proof -
  obtain a j where "s' = ide_after (fst hdd) a j (with_image (fst hdd) (snd hdd) im s)" using assms by (auto simp: io_def)
  then have "s'\<lparr>malloc_no := n, live := m\<rparr> =
      ide_after (fst hdd) a j (with_image (fst hdd) (snd hdd) im (s\<lparr>malloc_no := n, live := m\<rparr>))"
    by (simp add: ide_after_def with_image_def)
  then show ?thesis unfolding io_def by blast
qed

lemma length_sb_bytes: "length (sb_bytes b pad) = 52 + length pad"
  by (simp add: sb_bytes_def sb_words_def)

lemma partition_format_ok:
  assumes "get_part p s = Inr x" and "my_disk x = Some hdd" and "disk_ready hdd s" and "length pad = 460"
    and "620 \<le> unat (sec_cnt x)" and "unat (sec_cnt x) < 2 ^ 21" and "unat (start_lba x) + unat (sec_cnt x) \<le> 2 ^ 28"
    and "malloc_at s (malloc_no s) \<noteq> 0" and "format_layout x = (b, len)"
  defines "st \<equiv> unat (start_lba x)" and "B \<equiv> bitmap_sects (unat (sec_cnt x))"
  shows "\<exists>s6 bm. partition_format pad p s = Inr (free_object s6) \<and> length bm = 311296 \<and>
           (\<forall>i < 4096 * B. bit (bm ! (i div 8)) (i mod 8) = (i = 0 \<or> unat len < i)) \<and>
           io hdd (formatted b st B pad bm (disk_of hdd s)) (s\<lparr>malloc_no := Suc (malloc_no s), live := Suc (live s)\<rparr>) s6 \<and>
           sectors (formatted b st B pad bm (disk_of hdd s))"
proof -
  note bb = bitmap_sects_bounds [OF assms(5,6), folded B_def]
  obtain f: "unat (block_bitmap_lba b) = st + 2" "unat (block_bitmap_sects b) = B"
    "unat (inode_bitmap_lba b) = st + 2 + B" "inode_bitmap_sects b = 1" "unat (inode_table_lba b) = st + 3 + B"
    "inode_table_sects b = 608" "unat (data_start_lba b) = st + 611 + B" "unat len = data_blocks (unat (sec_cnt x))"
    using format_layout_ok [OF assms(5-7)] assms(9) unfolding st_def B_def by auto
  have top: "st + 612 + B \<le> 2 ^ 28" using bb(5,6) assms(7) unfolding st_def by linarith
  let ?m = "311296 :: nat" and ?n = "unat len"
  have len: "8 \<le> ?n" "?n \<le> 4096 * B" "4096 * (B - 1) \<le> ?n" using bb f(8) by simp_all
  have "?n div 4096 \<le> B" using len(2) by (metis div_le_mono nonzero_mult_div_cancel_left zero_neq_numeral)
  then have "512 * (?n div 4096 + 1) \<le> ?m" using bb(2) by simp
  from init_block_bitmap_ok [OF refl len(1) this] obtain bm where bm: "init_block_bitmap len (replicate ?m 0) = Inr bm"
    "length bm = ?m" "\<forall>i < 4096 * (?n div 4096 + 1). bit (bm ! (i div 8)) (i mod 8) = (i = 0 \<or> ?n < i)" by blast
  have "B - 1 \<le> ?n div 4096" using len(3) by (metis div_le_mono nonzero_mult_div_cancel_left zero_neq_numeral)
  then have bits: "\<forall>i < 4096 * B. bit (bm ! (i div 8)) (i mod 8) = (i = 0 \<or> ?n < i)" using bm(3) by auto
  let ?im = "disk_of hdd s"
  have sec0: "sectors ?im" using assms(3) by (simp add: disk_ready_def)
  have st1: "unat (start_lba x + 1) = st + 1" using top by (simp add: st_def unat_word_ariths)
  let ?h = "\<lambda>t. t\<lparr>malloc_no := Suc (malloc_no s), live := Suc (live s)\<rparr>"
  have l1: "512 * 1 \<le> length (sb_bytes b pad)" using assms(4) by (simp add: length_sb_bytes)
  obtain s1 w1 where w1: "w1 = write_image ?im (st + 1) 1 (sb_bytes b pad)"
    and s1: "ide_write hdd (start_lba x + 1) (sb_bytes b pad) 1 s = Inr s1" "io hdd w1 s s1" "sectors w1"
    using io_write [OF io_refl assms(3) sec0 st1 _ _ _ l1, of 1] top by auto
  have io1: "io hdd w1 (?h s) (?h s1)" by (rule io_heap [OF s1(2)])
  have ready: "disk_ready hdd (?h s)" using assms(3) by simp
  have lb: "512 * B \<le> length bm" using bm(2) bb(2) by simp
  obtain s3 w2 where w2: "w2 = write_image w1 (st + 2) B bm"
    and s3: "ide_write hdd (block_bitmap_lba b) bm (block_bitmap_sects b) (?h s1) = Inr s3" "io hdd w2 (?h s) s3" "sectors w2"
    using io_write [OF io1 ready s1(3) f(1,2) _ _ lb] top bb(2) by auto
  let ?ib = "(replicate ?m 0)[0 := 1 :: u8]"
  have l3: "512 * 1 \<le> length ?ib" by simp
  obtain s4 w3 where w3: "w3 = write_image w2 (st + 2 + B) 1 ?ib"
    and s4: "ide_write hdd (inode_bitmap_lba b) ?ib 1 s3 = Inr s4" "io hdd w3 (?h s) s4" "sectors w3"
    using io_write [OF s3(2) ready s3(3) f(3) _ _ _ l3, of 1] top by auto
  have lr: "length (inode_bytes (root_inode b)) = 76" by (rule length_inode_bytes) (simp add: root_inode_def)
  have l4: "512 * 608 \<le> length (fresh_table b ?m)" using lr by (simp add: fresh_table_def)
  obtain s5 w4 where w4: "w4 = write_image w3 (st + 3 + B) 608 (fresh_table b ?m)"
    and s5: "ide_write hdd (inode_table_lba b) (fresh_table b ?m) 608 s4 = Inr s5" "io hdd w4 (?h s) s5" "sectors w4"
    using io_write [OF s4(2) ready s4(3) f(5) _ _ _ l4, of 608] top by auto
  let ?rd = "root_dir_bytes @ replicate 311248 0"
  have l5: "512 * 1 \<le> length ?rd" by simp
  obtain s6 w5 where w5: "w5 = write_image w4 (st + 611 + B) 1 ?rd"
    and s6: "ide_write hdd (data_start_lba b) ?rd 1 s5 = Inr s6" "io hdd w5 (?h s) s6" "sectors w5"
    using io_write [OF s5(2) ready s5(3) f(7) _ _ _ l5, of 1] top by auto
  have "formatted b st B pad bm ?im = w5" unfolding formatted_def w1 w2 w3 w4 w5 ..
  moreover have "partition_format pad p s = Inr (free_object s6)"
  proof -
    have mx: "format_buf_sects b = 608"
      using bb(1,2) f(2,4,6) by (auto simp: format_buf_sects_def word_le_nat_alt)
    have nb: "new_buffer ?m s1 = (Some (replicate ?m 0), ?h s1)"
      using assms(8) io_frame(6,7,8) [OF s1(2)] by (subst new_buffer_ok) simp_all
    have mem: "memset (Some c) 0 ?m = Inr (replicate ?m 0)" if "length c = ?m" for c :: buf
      by (rule memset_whole) (simp add: that)
    have put: "put_bytes (replicate ?m 0) 0 (inode_bytes (root_inode b)) = Inr (fresh_table b ?m)"
      using lr by (simp add: put_bytes_ok fresh_table_def)
    have "length (fresh_table b ?m) = ?m" using lr by (simp add: fresh_table_def)
    then show ?thesis
      using s1(1) s3(1) s4(1) s5(1) s6(1) f(4,6) nb bm(1) mem [OF bm(2)] mem [of ?ib] mem put root_entries_ok [of ?m]
      by (simp add: partition_format_def assms(1,2,9) mx mark_first_def)
  qed
  ultimately show ?thesis using bm(2) bits s6 by blast
qed

section \<open>Reading it back\<close>

lemma sb_of_bytes_sb_bytes: "sb_of_bytes (sb_bytes b pad) = b"
proof -
  have "length (sb_words b) = 13" by (simp add: sb_words_def)
  then have "of_le32s 13 (le32s (sb_words b) @ pad) = sb_words b" using of_le32s_le32s [of "sb_words b" pad] by simp
  then show ?thesis by (cases b) (simp add: sb_of_bytes_def sb_bytes_def sb_of_words_def sb_words_def)
qed

lemma write_image_out: "i < l \<or> l + n \<le> i \<Longrightarrow> write_image im l n d i = im i"
  by (auto simp: write_image_def)

lemma formatted_regions:
  fixes im :: "nat \<Rightarrow> buf"
  assumes "length pad = 460" and "length bm = 311296" and "1 \<le> B" and "B \<le> 512" and "unat (inode_table_lba b) = st + 3 + B"
  defines "F \<equiv> formatted b st B pad bm im"
  shows "F (st + 1) = sb_bytes b pad" and "read_image F (st + 2) B = take (512 * B) bm"
    and "read_image F (st + 2 + B) 1 = (replicate 512 0)[0 := 1]" and "inode_at F b 0 = inode_bytes (root_inode b)"
    and "F (st + 611 + B) = root_dir_bytes @ replicate 464 0" and "i \<le> st \<or> st + 612 + B \<le> i \<Longrightarrow> F i = im i"
    and "0 < n \<Longrightarrow> n < 4096 \<Longrightarrow> inode_at F b n = replicate 76 0"
proof -
  have rl: "write_image im' l 1 d l = take 512 d" for im' l d by (simp add: write_image_def)
  show "F (st + 1) = sb_bytes b pad"
    using assms(1,3) by (simp add: F_def formatted_def write_image_out rl [simplified] length_sb_bytes)
  have "512 * B \<le> length bm" using assms(2,4) by simp
  then show "read_image F (st + 2) B = take (512 * B) bm"
    by (simp add: F_def formatted_def read_write_other read_write_image)
  have "take 512 ((replicate 311296 (0 :: u8))[0 := 1]) = (replicate 512 0)[0 := 1]"
    by (simp only: take_update_swap take_replicate) simp
  then show "read_image F (st + 2 + B) 1 = (replicate 512 0)[0 := 1]"
    using read_write_image [of 1 "(replicate 311296 (0 :: u8))[0 := 1]"]
    by (simp add: F_def formatted_def read_write_other)
  have lr: "length (inode_bytes (root_inode b)) = 76" by (rule length_inode_bytes) (simp add: root_inode_def)
  have lt: "512 * 608 \<le> length (fresh_table b 311296)" using lr by (simp add: fresh_table_def)
  have byte: "disk_byte F (st + 3 + B) k = fresh_table b 311296 ! k" if "k < 311296" for k
  proof -
    have "k div 512 < 608" using that by (simp add: div_less_iff_less_mult)
    then have "disk_byte F (st + 3 + B) k = disk_byte (write_image im0 (st + 3 + B) 608 (fresh_table b 311296)) (st + 3 + B) k"
      if "F = write_image (write_image im0 (st + 3 + B) 608 (fresh_table b 311296)) (st + 611 + B) 1 d" for im0 d
      unfolding that by (simp add: disk_byte_def write_image_out)
    then show ?thesis using that by (simp add: F_def formatted_def disk_byte_write [OF lt])
  qed
  then show "inode_at F b 0 = inode_bytes (root_inode b)"
    using lr by (intro nth_equalityI) (auto simp: inode_at_def assms(5) disk_bytes_def fresh_table_def nth_append)
  show "inode_at F b n = replicate 76 0" if "0 < n" "n < 4096"
  proof (rule nth_equalityI)
    fix k assume "k < length (inode_at F b n)"
    then have k: "k < 76" by (simp add: inode_at_def disk_bytes_def)
    have "76 * n + k < 311296" "76 \<le> 76 * n + k" using that k by linarith+
    with byte [of "76 * n + k"] lr k show "inode_at F b n ! k = replicate 76 0 ! k"
      by (simp add: inode_at_def assms(5) disk_bytes_def fresh_table_def nth_append)
  qed (simp add: inode_at_def disk_bytes_def)
  have rdl: "length root_dir_bytes = 48" by (simp add: root_dir_bytes_def)
  have "F (st + 611 + B) = take 512 (root_dir_bytes @ replicate 311248 0)"
    unfolding F_def formatted_def by (simp add: rl [simplified])
  then show "F (st + 611 + B) = root_dir_bytes @ replicate 464 0" using rdl by simp
  show "F i = im i" if "i \<le> st \<or> st + 612 + B \<le> i"
    using that assms(3,4) by (auto simp: F_def formatted_def write_image_out)
qed

text \<open>The inode bitmap of a new file system: the root directory's inode is in use.\<close>

lemma fresh_inode_bit:
  assumes "i < 4096"
  shows "bit (((replicate 512 (0 :: u8))[0 := 1]) ! (i div 8)) (i mod 8) = (i = 0)"
proof -
  have "i div 8 < 512" using assms by (simp add: div_less_iff_less_mult)
  then have "((replicate 512 (0 :: u8))[0 := 1]) ! (i div 8) = (if i div 8 = 0 then 1 else 0)" by (simp add: nth_list_update)
  then show ?thesis by (auto simp: bit_1_iff)
qed

section \<open>Mounting\<close>

lemma mount_bitmap_ok:
  assumes "disk_ready hdd s" and "unat lba + unat sects \<le> 2 ^ 28" and "unat sects \<le> 512"
    and "malloc_at s (malloc_no s) \<noteq> 0"
  shows "\<exists>s'. mount_bitmap hdd lba sects s =
           Inr (\<lparr>btmp_bytes_len = 512 * unat sects, bits = read_image (disk_of hdd s) (unat lba) (unat sects)\<rparr>, s') \<and>
           io hdd (disk_of hdd s) (s\<lparr>malloc_no := Suc (malloc_no s), live := Suc (live s)\<rparr>) s'"
proof -
  let ?h = "s\<lparr>malloc_no := Suc (malloc_no s), live := Suc (live s)\<rparr>"
  have n: "unat (sects * 512) = 512 * unat sects" using assms(3) by (simp add: unat_word_ariths)
  have "disk_ready hdd ?h" using assms(1) by simp
  from ide_read_io [OF this assms(2), of "replicate (512 * unat sects) 0"] assms(3) obtain s' where
    "ide_read hdd lba (replicate (512 * unat sects) 0) sects ?h = Inr (read_image (disk_of hdd s) (unat lba) (unat sects), s')"
    "io hdd (disk_of hdd s) ?h s'" by auto
  then show ?thesis using new_buffer_ok [OF assms(4)] by (simp add: mount_bitmap_def n must_have_def)
qed

lemma disk_of_channels [simp]: "disk_of hdd (s\<lparr>channels := cs\<rparr>) = disk_of hdd s"
  by (simp add: disk_of_def)

lemma list_init_ready:
  assumes "disk_ready hdd s"
  shows "disk_ready hdd (list_init (klist (open_list p)) s)"
proof -
  have "queue (list_init (klist (open_list p)) s) (Waiters q) xs = queue s (Waiters q) xs" for q xs
    by (rule list_init_other) (simp add: open_list_def)
  then show ?thesis using assms
    by (auto simp: disk_ready_def ide_up_def disk_up_def disk_wired_def controller_ready_def channel_lock_ok_def
        lock_free_def disk_of_def list_init_def)
qed

text \<open>Mounting a partition whose super block is on the disk.\<close>

lemma mount_partition_ok:
  assumes "get_part p s = Inr x" and "my_disk x = Some hdd" and "disk_ready hdd s"
    and "terminated (part_name x)" and "terminated name" and "cstr (part_name x) = cstr name"
    and "unat (start_lba x) + 2 \<le> 2 ^ 28" and "sb_of_bytes (disk_of hdd s (unat (start_lba x) + 1)) = b"
    and "unat (block_bitmap_lba b) + unat (block_bitmap_sects b) \<le> 2 ^ 28" and "unat (block_bitmap_sects b) \<le> 512"
    and "unat (inode_bitmap_lba b) + unat (inode_bitmap_sects b) \<le> 2 ^ 28" and "unat (inode_bitmap_sects b) \<le> 512"
    and "\<forall>k < 4. malloc_at s (malloc_no s + k) \<noteq> 0"
  shows "\<exists>s'. mount_partition name p s = Inr (True, s') \<and> cur_part s' = Some p \<and> opened p [] s' \<and> live s' = live s + 4 \<and>
           disk_of hdd s' = disk_of hdd s \<and>
           part_ok p hdd b (x\<lparr>sb := Some b,
             block_bitmap := \<lparr>btmp_bytes_len = 512 * unat (block_bitmap_sects b),
               bits = read_image (disk_of hdd s) (unat (block_bitmap_lba b)) (unat (block_bitmap_sects b))\<rparr>,
             inode_bitmap := \<lparr>btmp_bytes_len = 512 * unat (inode_bitmap_sects b),
               bits = read_image (disk_of hdd s) (unat (inode_bitmap_lba b)) (unat (inode_bitmap_sects b))\<rparr>\<rparr>) s' \<and>
           tasks s' = tasks s \<and> running s' = running s \<and> file_table s' = file_table s \<and> inodes s' = inodes s \<and>
           malloc_at s' = malloc_at s \<and> malloc_no s' = malloc_no s + 4 \<and> sync_frame s s'"
proof -
  let ?im = "disk_of hdd s"
  let ?m = "malloc_no s" and ?k = "live s"
  have heap: "malloc_at s ?m \<noteq> 0" "malloc_at s (Suc ?m) \<noteq> 0" "malloc_at s (Suc (Suc ?m)) \<noteq> 0"
    "malloc_at s (Suc (Suc (Suc ?m))) \<noteq> 0"
    using assms(13) [rule_format, of 0] assms(13) [rule_format, of 1] assms(13) [rule_format, of 2]
      assms(13) [rule_format, of 3] by (simp_all add: numeral_eq_Suc)
  have sec: "sectors ?im" using assms(3) by (simp add: disk_ready_def)
  have eq: "strcmp (Some (part_name x)) (Some name) = Inr 0"
    using strcmp_ok [OF assms(4,5)] assms(6) by (simp add: scompare_zero_iff)
  let ?s1 = "s\<lparr>cur_part := Some p\<rparr>"
  let ?s3 = "?s1\<lparr>malloc_no := Suc (Suc ?m), live := Suc (Suc ?k)\<rparr>"
  have r1: "disk_ready hdd ?s1" "get_part p ?s1 = Inr x" "disk_of hdd ?s1 = ?im"
    using assms(1,3) by (simp_all add: disk_ready_def ide_up_def disk_up_def disk_wired_def controller_ready_def
        channel_lock_ok_def lock_free_def queue_def dll_def disk_of_def get_part_def get_disk_def get_channel_def)
  then have r3: "disk_ready hdd ?s3" "get_part p ?s3 = Inr x" "disk_of hdd ?s3 = ?im" by simp_all
  have b1: "new_buffer 512 ?s1 = (Some (replicate 512 0), ?s1\<lparr>malloc_no := Suc ?m, live := Suc ?k\<rparr>)"
    using new_buffer_ok [of ?s1 512] heap(1) by simp
  have b2: "new_buffer 512 (?s1\<lparr>malloc_no := Suc ?m, live := Suc ?k\<rparr>) = (Some (replicate 512 0), ?s3)"
    using new_buffer_ok [of "?s1\<lparr>malloc_no := Suc ?m, live := Suc ?k\<rparr>" 512] heap(2) by simp
  have st: "unat (start_lba x + 1) = unat (start_lba x) + 1" using assms(7) by (simp add: unat_word_ariths)
  obtain s4 where s4: "ide_read hdd (start_lba x + 1) (replicate 512 0) 1 ?s3 = Inr (?im (unat (start_lba x) + 1), s4)"
    "io hdd ?im ?s3 s4"
    using ide_read_io [OF r3(1), of "start_lba x + 1" 1 "replicate 512 0"] assms(7) r3(3)
    by (auto simp: st read_image_def)
  have r4: "disk_ready hdd s4" "get_part p s4 = Inr x" "disk_of hdd s4 = ?im"
    using io_ready [OF s4(2) r3(1) sec] io_part [OF s4(2)] r3(2) io_disk [OF s4(2)] by simp_all
  let ?x5 = "x\<lparr>sb := Some b\<rparr>"
  obtain c5 where s5: "set_part p ?x5 s4 = Inr (s4\<lparr>channels := c5\<rparr>)" "get_part p (s4\<lparr>channels := c5\<rparr>) = Inr ?x5"
    "disk_ready hdd (s4\<lparr>channels := c5\<rparr>)"
    using set_part_ready [OF r4(2,1)] by blast
  let ?s5 = "s4\<lparr>channels := c5\<rparr>"
  let ?bb = "\<lparr>btmp_bytes_len = 512 * unat (block_bitmap_sects b), bits = read_image ?im (unat (block_bitmap_lba b)) (unat (block_bitmap_sects b))\<rparr>"
  have h5: "malloc_at ?s5 (malloc_no ?s5) \<noteq> 0" using heap(3) io_frame(6,7) [OF s4(2)] by simp
  obtain s6 where s6: "mount_bitmap hdd (block_bitmap_lba b) (block_bitmap_sects b) ?s5 = Inr (?bb, s6)"
    "io hdd ?im (?s5\<lparr>malloc_no := Suc (malloc_no ?s5), live := Suc (live ?s5)\<rparr>) s6"
    using mount_bitmap_ok [OF s5(3) assms(9,10) h5] r4(3) by auto
  have r6: "disk_ready hdd s6" "get_part p s6 = Inr ?x5" "disk_of hdd s6 = ?im"
    using io_ready [OF s6(2) _ sec] s5(2,3) io_part [OF s6(2)] io_disk [OF s6(2)] by simp_all
  let ?x7 = "x\<lparr>sb := Some b, block_bitmap := ?bb\<rparr>"
  obtain c7 where s7: "set_part p ?x7 s6 = Inr (s6\<lparr>channels := c7\<rparr>)" "get_part p (s6\<lparr>channels := c7\<rparr>) = Inr ?x7"
    "disk_ready hdd (s6\<lparr>channels := c7\<rparr>)"
    using set_part_ready [OF r6(2,1)] by blast
  let ?s7 = "s6\<lparr>channels := c7\<rparr>"
  let ?ib = "\<lparr>btmp_bytes_len = 512 * unat (inode_bitmap_sects b), bits = read_image ?im (unat (inode_bitmap_lba b)) (unat (inode_bitmap_sects b))\<rparr>"
  have h7: "malloc_at ?s7 (malloc_no ?s7) \<noteq> 0" using heap(4) io_frame(6,7) [OF s4(2)] io_frame(6,7) [OF s6(2)] by simp
  obtain s8 where s8: "mount_bitmap hdd (inode_bitmap_lba b) (inode_bitmap_sects b) ?s7 = Inr (?ib, s8)"
    "io hdd ?im (?s7\<lparr>malloc_no := Suc (malloc_no ?s7), live := Suc (live ?s7)\<rparr>) s8"
    using mount_bitmap_ok [OF s7(3) assms(11,12) h7] r6(3) by auto
  have r8: "disk_ready hdd s8" "get_part p s8 = Inr ?x7" "disk_of hdd s8 = ?im"
    using io_ready [OF s8(2) _ sec] s7(2,3) io_part [OF s8(2)] io_disk [OF s8(2)] by simp_all
  let ?x9 = "x\<lparr>sb := Some b, block_bitmap := ?bb, inode_bitmap := ?ib\<rparr>"
  obtain c9 where s9: "set_part p ?x9 s8 = Inr (s8\<lparr>channels := c9\<rparr>)" "get_part p (s8\<lparr>channels := c9\<rparr>) = Inr ?x9"
    "disk_ready hdd (s8\<lparr>channels := c9\<rparr>)"
    using set_part_ready [OF r8(2,1)] by blast
  let ?s9 = "s8\<lparr>channels := c9\<rparr>"
  let ?s' = "list_init (klist (open_list p)) ?s9"
  have more: "cur_part s4 = Some p" "live s4 = Suc (Suc ?k)" "live s6 = Suc (Suc (Suc ?k))" "live s8 = ?k + 4"
    "cur_part s6 = cur_part s4" "cur_part s8 = cur_part s6"
    using io_fstate [OF s4(2)] io_fstate [OF s6(2)] io_fstate [OF s8(2)] io_frame(8) [OF s4(2)] io_frame(8) [OF s6(2)]
      io_frame(8) [OF s8(2)] by simp_all
  have h8: "tasks s8 = tasks s" "running s8 = running s" "file_table s8 = file_table s" "inodes s8 = inodes s"
    "malloc_at s8 = malloc_at s" "malloc_no s8 = malloc_no s + 4" "locks s8 = locks s" "sema_value s8 = sema_value s"
    using io_fstate [OF s4(2)] io_fstate [OF s6(2)] io_fstate [OF s8(2)] io_frame(3,4,6,7,12,13) [OF s4(2)]
      io_frame(3,4,6,7,12,13) [OF s6(2)] io_frame(3,4,6,7,12,13) [OF s8(2)] by simp_all
  have q8: "queue s8 k [] \<longleftrightarrow> queue s k []" for k
    using io_frame(5) [OF s4(2), of k "[]"] io_frame(5) [OF s6(2), of k "[]"] io_frame(5) [OF s8(2), of k "[]"] by (simp add: queue_def dll_def)
  have "queue ?s' (Waiters w) [] = queue ?s9 (Waiters w) []" for w by (rule list_init_other) (simp add: open_list_def)
  then have frame: "tasks ?s' = tasks s" "running ?s' = running s" "file_table ?s' = file_table s" "inodes ?s' = inodes s"
    "malloc_at ?s' = malloc_at s" "malloc_no ?s' = malloc_no s + 4" "sync_frame s ?s'"
    using h8 q8 by (simp_all add: list_init_def sync_frame_def queue_def dll_def)
  have "mount_partition name p s = Inr (True, ?s')"
    using assms(1,2) eq b1 b2 s4(1) assms(8) s5(1) s6(1) s7(1) s8(1) s9(1) memset_whole [of 512 "replicate 512 0" 0]
    by (simp add: mount_partition_def must_have_def)
  moreover have "cur_part ?s' = Some p" "live ?s' = live s + 4" "disk_of hdd ?s' = ?im"
    using more r8(3) by (simp_all add: list_init_def disk_of_def)
  moreover have "opened p [] ?s'" by (simp add: opened_def queue_def list_init_dll)
  moreover have "part_ok p hdd b ?x9 ?s'"
    using s9(2,3) assms(2) list_init_ready [OF s9(3)]
    by (simp add: part_ok_def get_part_def get_disk_def get_channel_def list_init_def)
  ultimately show ?thesis using frame by blast
qed

section \<open>Properties\<close>

text \<open>C14: formatting a partition of 620 to \<open>2 ^ 21 - 1\<close> sectors.  The regions \<open>partition_format\<close> lays out tile the partition up to its end: boot
  sector, super block, block bitmap with a bit for every data block, inode bitmap, inode table, data
  blocks.  The super block on disk is the one computed; the inode bitmap marks inode 0 and no other of
  the 4096; inode 0 is the root directory and every other inode of the table is zero; the sector of
  the root directory holds the entries \<open>.\<close> and \<open>..\<close> and otherwise zeros; nothing outside the partition
  changes and the buffer is given back.  The block bitmap marks block 0 and the blocks behind the
  end, but, one bit too late: the block with the number of data blocks is free, and its sector is the
  first behind the partition.\<close>

theorem partition_format_makes_a_file_system:
  assumes "get_part p s = Inr x" and "my_disk x = Some hdd" and "disk_ready hdd s" and "length pad = 460"
    and "620 \<le> unat (sec_cnt x)" and "unat (sec_cnt x) < 2 ^ 21" and "unat (start_lba x) + unat (sec_cnt x) \<le> 2 ^ 28"
    and "malloc_at s (malloc_no s) \<noteq> 0"
  shows "\<exists>s' b len. partition_format pad p s = Inr s' \<and> format_layout x = (b, len) \<and>
           unat (block_bitmap_lba b) = unat (start_lba x) + 2 \<and>
           unat (inode_bitmap_lba b) = unat (block_bitmap_lba b) + unat (block_bitmap_sects b) \<and>
           unat (inode_table_lba b) = unat (inode_bitmap_lba b) + 1 \<and>
           unat (data_start_lba b) = unat (inode_table_lba b) + 608 \<and>
           unat (data_start_lba b) + unat len = unat (start_lba x) + unat (sec_cnt x) \<and>
           unat len \<le> 4096 * unat (block_bitmap_sects b) \<and>
           sb_of_bytes (disk_of hdd s' (unat (start_lba x) + 1)) = b \<and>
           (\<forall>i < 4096. bit (disk_of hdd s' (unat (inode_bitmap_lba b)) ! (i div 8)) (i mod 8) = (i = 0)) \<and>
           inode_of_bytes (inode_at (disk_of hdd s') b 0) = root_inode b \<and>
           (\<forall>n. 0 < n \<and> n < 4096 \<longrightarrow> inode_at (disk_of hdd s') b n = replicate 76 0) \<and>
           disk_of hdd s' (unat (data_start_lba b)) = root_dir_bytes @ replicate 464 0 \<and>
           (\<forall>i < 4096 * unat (block_bitmap_sects b).
              bit (read_image (disk_of hdd s') (unat (block_bitmap_lba b)) (unat (block_bitmap_sects b)) ! (i div 8)) (i mod 8)
              = (i = 0 \<or> unat len < i)) \<and>
           (\<forall>i. i < unat (start_lba x) \<or> unat (start_lba x) + unat (sec_cnt x) \<le> i \<longrightarrow> disk_of hdd s' i = disk_of hdd s i) \<and>
           live s' = live s"
proof -
  let ?st = "unat (start_lba x)" and ?n = "unat (sec_cnt x)"
  let ?B = "bitmap_sects ?n"
  note bb = bitmap_sects_bounds [OF assms(5,6)]
  obtain b len where lay: "format_layout x = (b, len)" "unat (block_bitmap_lba b) = ?st + 2"
    "unat (block_bitmap_sects b) = ?B" "unat (inode_table_lba b) = ?st + 3 + ?B" "unat (data_start_lba b) = ?st + 611 + ?B"
    "unat len = data_blocks ?n" and ib: "unat (inode_bitmap_lba b) = ?st + 2 + ?B"
    using format_layout_ok [OF assms(5-7)] by auto
  obtain s6 bm where f: "partition_format pad p s = Inr (free_object s6)" "length bm = 311296"
    "\<forall>i < 4096 * ?B. bit (bm ! (i div 8)) (i mod 8) = (i = 0 \<or> unat len < i)"
    "io hdd (formatted b ?st ?B pad bm (disk_of hdd s)) (s\<lparr>malloc_no := Suc (malloc_no s), live := Suc (live s)\<rparr>) s6"
    using partition_format_ok [OF assms lay(1)] by blast
  let ?F = "formatted b ?st ?B pad bm (disk_of hdd s)"
  note r = formatted_regions [where im = "disk_of hdd s", OF assms(4) f(2) bb(1,2) lay(4)]
  have d: "disk_of hdd (free_object s6) = ?F" using io_disk [OF f(4)] by (simp add: free_object_def disk_of_def)
  have l: "live (free_object s6) = live s" using io_frame(8) [OF f(4)] by (simp add: free_object_def)
  have root: "inode_of_bytes (inode_at ?F b 0) = root_inode b"
    unfolding r(4) by (rule inode_of_bytes_inverse) (simp add: root_inode_def)
  have "bit (read_image ?F (?st + 2) ?B ! (i div 8)) (i mod 8) = (i = 0 \<or> unat len < i)" if "i < 4096 * ?B" for i
  proof -
    have "i div 8 < 512 * ?B" using that by (simp add: div_less_iff_less_mult)
    then show ?thesis using f(3) that unfolding r(2) by simp
  qed
  moreover have "?F (?st + 2 + ?B) = (replicate 512 0)[0 := 1]" using r(3) by (simp add: read_image_def)
  then have "bit (?F (?st + 2 + ?B) ! (i div 8)) (i mod 8) = (i = 0)" if "i < 4096" for i
    using fresh_inode_bit [OF that] by simp
  moreover have "?F i = disk_of hdd s i" if "i < ?st \<or> ?st + ?n \<le> i" for i
    by (rule r(6)) (use that bb(5,6) in linarith)
  ultimately show ?thesis
    using f(1) lay ib bb(3,6) d l root r(1,5,7) sb_of_bytes_sb_bytes
    by (intro exI [of _ "free_object s6"] exI [of _ b] exI [of _ len]) (simp add: add_ac)
qed

theorem partition_format_makes_a_file_system_witness:
  "\<exists>s'. partition_format (replicate 460 0) ((0, 1), 0) (demo_fs (\<lambda>_ _ _. replicate 512 0xaa) Map.empty) = Inr s' \<and>
     inode_of_bytes (inode_at (disk_of (0, 1) s') (fst (format_layout demo_part)) 0) = root_inode (fst (format_layout demo_part)) \<and>
     disk_of (0, 1) s' 5063 = replicate 512 0xaa"
proof -
  let ?s = "demo_fs (\<lambda>_ _ _. replicate 512 0xaa) Map.empty"
  have x: "my_disk demo_part = Some (0, 1)" "sec_cnt demo_part = 5000" "start_lba demo_part = 63" by (simp_all add: demo_part_def)
  have "part_ok ((0, 1), 0) (0, 1) demo_sb demo_part ?s" by (rule demo_fs_ok) simp
  then have g: "get_part ((0, 1), 0) ?s = Inr demo_part" "disk_ready (0, 1) ?s" by (simp_all add: part_ok_def)
  show ?thesis using partition_format_makes_a_file_system [OF g(1) x(1) g(2), of "replicate 460 0"] x(2,3) by fastforce
qed

text \<open>C15: mounting reads what formatting wrote, for a partition of 620 to \<open>2 ^ 21 - 1\<close> sectors.  After \<open>partition_format\<close>, \<open>mount_partition\<close> with the
  partition's name makes it the current one, with the super block computed, a block bitmap of the whole
  region, which has a bit for every data block and in which block 0 and the blocks behind the
  number of data blocks are in use, an inode bitmap of 4096 bits with inode 0 in use and no inode open.  Of the four objects it takes from the heap, three are needed
  later: the buffer of the super block is never given back.\<close>

theorem mount_after_format:
  assumes "get_part p s = Inr x" and "my_disk x = Some hdd" and "disk_ready hdd s" and "length pad = 460"
    and "620 \<le> unat (sec_cnt x)" and "unat (sec_cnt x) < 2 ^ 21" and "unat (start_lba x) + unat (sec_cnt x) \<le> 2 ^ 28"
    and "terminated (part_name x)" and "terminated name" and "cstr (part_name x) = cstr name"
    and "\<forall>k < 5. malloc_at s (malloc_no s + k) \<noteq> 0"
  shows "\<exists>s1 s2 y. partition_format pad p s = Inr s1 \<and> mount_partition name p s1 = Inr (True, s2) \<and>
           cur_part s2 = Some p \<and> opened p [] s2 \<and> part_ok p hdd (fst (format_layout x)) y s2 \<and>
           nbits (block_bitmap y) = 4096 * unat (block_bitmap_sects (fst (format_layout x))) \<and>
           bitmap_wf (block_bitmap y) \<and> unat (snd (format_layout x)) \<le> nbits (block_bitmap y) \<and>
           (\<forall>i < nbits (block_bitmap y). used (block_bitmap y) i = (i = 0 \<or> unat (snd (format_layout x)) < i)) \<and>
           nbits (inode_bitmap y) = 4096 \<and> bitmap_wf (inode_bitmap y) \<and>
           (\<forall>i < 4096. used (inode_bitmap y) i = (i = 0)) \<and> live s2 = live s + 4"
proof -
  let ?st = "unat (start_lba x)" and ?n = "unat (sec_cnt x)"
  let ?B = "bitmap_sects ?n"
  note bb = bitmap_sects_bounds [OF assms(5,6)]
  obtain b len where lay: "format_layout x = (b, len)" "unat (block_bitmap_lba b) = ?st + 2"
    "unat (block_bitmap_sects b) = ?B" "unat (inode_bitmap_lba b) = ?st + 2 + ?B" "inode_bitmap_sects b = 1"
    "unat (inode_table_lba b) = ?st + 3 + ?B" and len: "unat len = data_blocks ?n"
    using format_layout_ok [OF assms(5-7)] by auto
  have heap: "malloc_at s (malloc_no s) \<noteq> 0" "\<forall>k < 4. malloc_at s (Suc (malloc_no s) + k) \<noteq> 0"
    using assms(11) [rule_format, of 0] assms(11) [rule_format, of "Suc _"] by auto
  obtain s6 bm where f: "partition_format pad p s = Inr (free_object s6)" "length bm = 311296"
    "\<forall>i < 4096 * ?B. bit (bm ! (i div 8)) (i mod 8) = (i = 0 \<or> unat len < i)"
    "io hdd (formatted b ?st ?B pad bm (disk_of hdd s)) (s\<lparr>malloc_no := Suc (malloc_no s), live := Suc (live s)\<rparr>) s6"
    "sectors (formatted b ?st ?B pad bm (disk_of hdd s))"
    using partition_format_ok [OF assms(1-7) heap(1) lay(1)] by blast
  let ?F = "formatted b ?st ?B pad bm (disk_of hdd s)" and ?s1 = "free_object s6"
  note r = formatted_regions [where im = "disk_of hdd s", OF assms(4) f(2) bb(1,2) lay(6)]
  have d: "disk_of hdd ?s1 = ?F" using io_disk [OF f(4)] by (simp add: free_object_def disk_of_def)
  have ready: "disk_ready hdd s6" by (rule io_ready [OF f(4) _ f(5)]) (simp add: assms(3))
  have r1: "disk_ready hdd ?s1" "get_part p ?s1 = Inr x"
    using ready io_part [OF f(4)] assms(1) by simp_all
  have h1: "malloc_at ?s1 = malloc_at s" "malloc_no ?s1 = Suc (malloc_no s)" "live ?s1 = live s"
    using io_frame(6,7,8) [OF f(4)] by (simp_all add: free_object_def)
  have sbb: "sb_of_bytes (disk_of hdd ?s1 (?st + 1)) = b" unfolding d r(1) by (rule sb_of_bytes_sb_bytes)
  have bnd: "unat (start_lba x) + 2 \<le> 2 ^ 28" "unat (block_bitmap_lba b) + unat (block_bitmap_sects b) \<le> 2 ^ 28"
    "unat (inode_bitmap_lba b) + unat (inode_bitmap_sects b) \<le> 2 ^ 28" "unat (block_bitmap_sects b) \<le> 512"
    "unat (inode_bitmap_sects b) \<le> 512"
    using assms(7) bb lay by simp_all
  have heap1: "\<forall>k < 4. malloc_at ?s1 (malloc_no ?s1 + k) \<noteq> 0" unfolding h1 by (rule heap(2))
  obtain s2 where m: "mount_partition name p ?s1 = Inr (True, s2)" "cur_part s2 = Some p" "opened p [] s2" "live s2 = live ?s1 + 4"
    and ok: "part_ok p hdd b (x\<lparr>sb := Some b,
             block_bitmap := \<lparr>btmp_bytes_len = 512 * ?B, bits = take (512 * ?B) bm\<rparr>,
             inode_bitmap := \<lparr>btmp_bytes_len = 512, bits = (replicate 512 0)[0 := 1]\<rparr>\<rparr>) s2"
    using mount_partition_ok [OF r1(2) assms(2) r1(1) assms(8-10) bnd(1) sbb bnd(2,4,3,5) heap1]
    unfolding d lay(2-5) unsigned_1 r(2,3) by auto
  let ?y = "x\<lparr>sb := Some b, block_bitmap := \<lparr>btmp_bytes_len = 512 * ?B, bits = take (512 * ?B) bm\<rparr>,
             inode_bitmap := \<lparr>btmp_bytes_len = 512, bits = (replicate 512 0)[0 := 1]\<rparr>\<rparr>"
  have "used (block_bitmap ?y) i = (i = 0 \<or> unat len < i)" if "i < nbits (block_bitmap ?y)" for i
  proof -
    have i: "i < 4096 * ?B" using that by (simp add: nbits_def)
    then have "i div 8 < 512 * ?B" by (simp add: div_less_iff_less_mult)
    then show ?thesis using f(3) i by (simp add: used_def)
  qed
  moreover have "used (inode_bitmap ?y) i = (i = 0)" if "i < 4096" for i
    using fresh_inode_bit [OF that] by (simp add: used_def)
  moreover have "nbits (block_bitmap ?y) = 4096 * unat (block_bitmap_sects b)" "unat len \<le> nbits (block_bitmap ?y)"
    "nbits (inode_bitmap ?y) = 4096" "bitmap_wf (inode_bitmap ?y)"
    using lay(3) len bb(3) by (simp_all add: nbits_def bitmap_wf_def)
  moreover have "bitmap_wf (block_bitmap ?y)" using f(2) bb(2) by (simp add: bitmap_wf_def)
  ultimately show ?thesis unfolding lay(1) fst_conv snd_conv
    using f(1) m ok h1(3) by (intro exI [of _ ?s1] exI [of _ s2] exI [of _ ?y]) simp
qed

theorem mount_after_format_witness:
  "\<exists>s1 s2. partition_format (replicate 460 0) ((0, 1), 0) (demo_fs (\<lambda>_ _ _. replicate 512 0xaa) Map.empty) = Inr s1 \<and>
     mount_partition [0x68, 0x64, 0x62, 0x31, 0] ((0, 1), 0) s1 = Inr (True, s2) \<and> cur_part s2 = Some ((0, 1), 0)"
proof -
  let ?s = "demo_fs (\<lambda>_ _ _. replicate 512 0xaa) Map.empty"
  have x: "my_disk demo_part = Some (0, 1)" "sec_cnt demo_part = 5000" "start_lba demo_part = 63"
    "terminated (part_name demo_part)" "cstr (part_name demo_part) = cstr [0x68, 0x64, 0x62, 0x31, 0]"
    by (simp_all add: demo_part_def terminated_def cstr_def)
  have "part_ok ((0, 1), 0) (0, 1) demo_sb demo_part ?s" by (rule demo_fs_ok) simp
  then have g: "get_part ((0, 1), 0) ?s = Inr demo_part" "disk_ready (0, 1) ?s" by (simp_all add: part_ok_def)
  have "malloc_at ?s (malloc_no ?s + k) \<noteq> 0" if "k < 5" for k
  proof -
    have "k \<in> {0, 1, 2, 3, 4}" using that by auto
    then show ?thesis by (elim insertE emptyE) simp_all
  qed
  moreover have "terminated [0x68, 0x64, 0x62, 0x31, 0]" by (simp add: terminated_def)
  ultimately show ?thesis
    using mount_after_format [OF g(1) x(1) g(2) _ _ _ _ x(4) _ x(5), of "replicate 460 0"] x(2,3) by fastforce
qed

end
