(* ===== verification/Blocks.thy ===== *)
theory Blocks
  imports File
begin

text \<open>
  The allocation of data blocks: the lowest free bit of the block bitmap in memory, and the
  synchronisation of its sector, as \<open>file_write\<close> and the root directory use them.
\<close>

section \<open>Layout\<close>

text \<open>Bitmap, inode table and data in this order; the bitmap in memory is the one on disk in size.\<close>

definition layout_ok :: "super_block \<Rightarrow> partition \<Rightarrow> bool" where
  "layout_ok b x \<longleftrightarrow>
     unat (block_bitmap_lba b) + unat (block_bitmap_sects b) \<le> unat (inode_table_lba b) \<and>
     unat (inode_table_lba b) + 608 \<le> unat (data_start_lba b) \<and> unat (data_start_lba b) + 2048 \<le> 2 ^ 28 \<and>
     btmp_bytes_len (block_bitmap x) = 512 * unat (block_bitmap_sects b) \<and>
     length (bits (block_bitmap x)) = 512 * unat (block_bitmap_sects b)"

definition free_blocks :: "partition \<Rightarrow> nat set" where
  "free_blocks x = {k. k < 2048 \<and> k < nbits (block_bitmap x) \<and> \<not> used (block_bitmap x) k}"

lemma finite_free_blocks [simp]: "finite (free_blocks x)"
  by (rule finite_subset [of _ "{..<2048}"]) (auto simp: free_blocks_def)

lemma layout_table_fits: "layout_ok b x \<Longrightarrow> table_fits b"
  by (simp add: layout_ok_def table_fits_def)

text \<open>The sector of a block.\<close>

definition block_lba :: "super_block \<Rightarrow> nat \<Rightarrow> u32" where
  "block_lba b j = data_start_lba b + of_nat j"

lemma unat_block_lba:
  assumes "layout_ok b x" and "j < 2048"
  shows "unat (block_lba b j) = unat (data_start_lba b) + j"
  using assms by (simp add: layout_ok_def block_lba_def unat_word_ariths unat_small)

section \<open>Allocation\<close>

text \<open>One bit of either bitmap: the lowest that is free.\<close>

lemma bitmap_take_ok:
  assumes "bitmap_wf m" and "first_unused m j" and "j < 2048" and "j < nbits m"
  shows "\<exists>bm. bitmap_scan m 1 = Inr (int j) \<and> bitmap_set m j 1 = Inr bm \<and> btmp_bytes_len bm = btmp_bytes_len m \<and>
           length (bits bm) = length (bits m) \<and> (\<forall>i. used bm i \<longleftrightarrow> i = j \<or> used m i)"
proof -
  have "bitmap_scan m 1 = Inr (int j)" using bitmap_scan_start [OF assms(1,2), of 1] assms(4) by simp
  moreover have "j div 8 < btmp_bytes_len m" using assms(4) by (simp add: nbits_def less_mult_imp_div_less mult.commute)
  then have "(j div 8) mod 256 < length (bits m)" using assms(1) by (metis bitmap_wf_def le_less_trans mod_less_eq_dividend less_le_trans)
  from bitmap_set_used [of 1 j m] this assms(3) obtain bm where "bitmap_set m j 1 = Inr bm" "btmp_bytes_len bm = btmp_bytes_len m"
    "length (bits bm) = length (bits m)" "\<forall>i. used bm i \<longleftrightarrow> i = j \<or> used m i" by auto
  ultimately show ?thesis by blast
qed

lemma block_bitmap_alloc_ok:
  assumes "part_ok p hdd b x s" and "layout_ok b x" and "free_blocks x \<noteq> {}"
  shows "\<exists>j bm cs. block_bitmap_alloc p s = Inr (block_lba b j, s\<lparr>channels := cs\<rparr>) \<and>
           part_ok p hdd b (x\<lparr>block_bitmap := bm\<rparr>) (s\<lparr>channels := cs\<rparr>) \<and> layout_ok b (x\<lparr>block_bitmap := bm\<rparr>) \<and>
           j \<in> free_blocks x \<and> (\<forall>i < j. used (block_bitmap x) i) \<and>
           (\<forall>i. used bm i \<longleftrightarrow> i = j \<or> used (block_bitmap x) i) \<and>
           btmp_bytes_len bm = btmp_bytes_len (block_bitmap x) \<and> free_blocks (x\<lparr>block_bitmap := bm\<rparr>) = free_blocks x - {j}"
proof -
  let ?m = "block_bitmap x"
  have wf: "bitmap_wf ?m" using assms(2) by (simp add: layout_ok_def bitmap_wf_def)
  obtain k where k: "k < 2048" "k < nbits ?m" "\<not> used ?m k" using assms(3) by (auto simp: free_blocks_def)
  obtain j where j: "first_unused ?m j" using first_unused_ex [OF k(2,3)] by blast
  have jk: "j \<le> k" using j k(3) by (meson first_unused_def not_less)
  then have j': "j < 2048" "j < nbits ?m" "\<not> used ?m j" "\<forall>i < j. used ?m i"
    using j k(1) by (auto simp: first_unused_def)
  obtain bm where bm: "bitmap_scan ?m 1 = Inr (int j)" "bitmap_set ?m j 1 = Inr bm" "btmp_bytes_len bm = btmp_bytes_len ?m"
    "length (bits bm) = length (bits ?m)" "\<forall>i. used bm i \<longleftrightarrow> i = j \<or> used ?m i"
    using bitmap_take_ok [OF wf j j'(1,2)] by blast
  let ?y = "x\<lparr>block_bitmap := bm\<rparr>"
  from part_ok_set [OF assms(1), of ?y] obtain cs where
    cs: "set_part p ?y s = Inr (s\<lparr>channels := cs\<rparr>)" "part_ok p hdd b ?y (s\<lparr>channels := cs\<rparr>)" by auto
  have "block_bitmap_alloc p s = Inr (block_lba b j, s\<lparr>channels := cs\<rparr>)"
    using assms(1) bm(1,2) cs(1) by (simp add: block_bitmap_alloc_def part_ok_def block_lba_def)
  moreover have "layout_ok b ?y" using assms(2) bm(3,4) by (simp add: layout_ok_def)
  moreover have "free_blocks ?y = free_blocks x - {j}" using bm(3,5) by (auto simp: free_blocks_def nbits_def)
  moreover have "j \<in> free_blocks x" using j' by (simp add: free_blocks_def)
  ultimately show ?thesis using cs(2) j'(4) bm(3,5) by blast
qed

lemma bitmap_sync_ok:
  assumes "part_ok p hdd b x s" and "layout_ok b x" and "j < 2048" and "j < nbits (block_bitmap x)"
  shows "\<exists>s'. bitmap_sync p (of_nat j) BLOCK_BITMAP s = Inr s' \<and>
           io hdd (write_image (disk_of hdd s) (unat (block_bitmap_lba b)) 1 (bits (block_bitmap x))) s s'"
proof -
  have "unat (of_nat j div 4096 :: u32) = 0" using assms(3) by (simp add: unat_div unat_small)
  then have z: "of_nat j div 4096 = (0 :: u32)" by (simp add: unat_eq_0)
  have "1 \<le> unat (block_bitmap_sects b)" using assms(2,4) by (cases "unat (block_bitmap_sects b)") (auto simp: layout_ok_def nbits_def)
  then have l: "512 * 1 \<le> length (bits (block_bitmap x))" "unat (block_bitmap_lba b) + 1 \<le> 2 ^ 28"
    using assms(2) by (auto simp: layout_ok_def)
  have r: "disk_ready hdd s" using assms(1) by (simp add: part_ok_def)
  then have sec: "sectors (disk_of hdd s)" by (simp add: disk_ready_def)
  obtain s' where "ide_write hdd (block_bitmap_lba b) (bits (block_bitmap x)) 1 s = Inr s'"
    "io hdd (write_image (disk_of hdd s) (unat (block_bitmap_lba b)) 1 (bits (block_bitmap x))) s s'"
    using io_write [OF io_refl r sec refl _ l(2) _ l(1), of 1] by auto
  then show ?thesis using assms(1) by (auto simp: bitmap_sync_def part_ok_def z)
qed

text \<open>What allocating blocks leaves alone.\<close>

definition fs_frame :: "'z fstate_scheme \<Rightarrow> 'z fstate_scheme \<Rightarrow> bool" where
  "fs_frame s s' \<longleftrightarrow>
     file_table s' = file_table s \<and> cur_part s' = cur_part s \<and> root_dir_inode s' = root_dir_inode s \<and>
     live s' = live s \<and> malloc_no s' = malloc_no s \<and> malloc_at s' = malloc_at s \<and> running s' = running s \<and>
     tasks s' = tasks s \<and> nprev s' = nprev s \<and> nnext s' = nnext s \<and>
     locks s' = locks s \<and> sema_value s' = sema_value s"

lemma fs_frame_trans: "fs_frame s s' \<Longrightarrow> fs_frame s' s'' \<Longrightarrow> fs_frame s s''"
  by (simp add: fs_frame_def)

lemma fs_frame_sync: "fs_frame s s' \<Longrightarrow> sync_frame s s'"
  by (simp add: fs_frame_def sync_frame_def queue_def dll_def)

lemma fs_frame_simps [simp]:
  "fs_frame s s" "fs_frame s (s\<lparr>channels := cs\<rparr>)" "fs_frame s (set_inode a i s)"
  by (simp_all add: fs_frame_def set_inode_def)

lemma fs_frame_io: "io hdd im s s' \<Longrightarrow> fs_frame s s'"
  by (simp add: fs_frame_def io_frame io_fstate)

lemma set_inode_ready [simp]:
  "get_part p (set_inode a i s) = get_part p s"
  "disk_of hdd (set_inode a i s) = disk_of hdd s"
  "disk_ready hdd (set_inode a i s) = disk_ready hdd s"
  "part_ok p hdd b x (set_inode a i s) = part_ok p hdd b x s"
  by (simp_all add: set_inode_def part_ok_def get_part_def get_disk_def get_channel_def disk_of_def disk_ready_def
      ide_up_def disk_up_def disk_wired_def controller_ready_def channel_lock_ok_def lock_free_def queue_def dll_def)

lemma set_inode_simps [simp]:
  "inodes (set_inode a i s) = (inodes s)(a \<mapsto> i)" "set_inode a i (set_inode a j s) = set_inode a i s"
  by (simp_all add: set_inode_def)

lemma block_lba_valid: "layout_ok b x \<Longrightarrow> j < 2048 \<Longrightarrow> block_lba b j \<noteq> -1 \<and> block_lba b j \<noteq> 0"
proof -
  assume a: "layout_ok b x" "j < 2048"
  have "unat (-1 :: u32) = 4294967295" by (simp add: unsigned_minus_1_eq_mask mask_eq_exp_minus_1)
  then show ?thesis using unat_block_lba [OF a] a by (auto simp: layout_ok_def)
qed

section \<open>The blocks a write needs\<close>

definition place :: "super_block \<Rightarrow> nat \<Rightarrow> nat list \<Rightarrow> u32 list \<Rightarrow> u32 list" where
  "place b k js ws = take k ws @ map (block_lba b) js @ drop (k + length js) ws"

lemma place_Nil [simp]: "place b k [] ws = ws"
  by (simp add: place_def)

lemma place_Cons:
  assumes "k < length ws"
  shows "place b (Suc k) js (ws[k := block_lba b j]) = place b k (j # js) ws"
  using assms by (simp add: place_def take_Suc_conv_app_nth)

lemma length_place: "k + length js \<le> length ws \<Longrightarrow> length (place b k js ws) = length ws"
  by (simp add: place_def)

lemma nth_place:
  assumes "k + length js \<le> length ws" and "n < length ws"
  shows "place b k js ws ! n = (if k \<le> n \<and> n < k + length js then block_lba b (js ! (n - k)) else ws ! n)"
  using assms by (auto simp: place_def nth_append min_def)

definition bitmap_region :: "super_block \<Rightarrow> nat set" where
  "bitmap_region b = {unat (block_bitmap_lba b)..<unat (block_bitmap_lba b) + unat (block_bitmap_sects b)}"

lemma new_blocks_ok:
  assumes "part_ok p hdd b x s" and "layout_ok b x" and "inodes s a = Some i" and "length (i_sectors i) = 13"
    and "length bl = 140" and "will \<le> 12" and "k \<le> will" and "\<forall>n. k \<le> n \<longrightarrow> n < will \<longrightarrow> i_sectors i ! n = 0"
    and "will - k \<le> card (free_blocks x)"
  shows "\<exists>js x' s'. new_blocks p a will bl k s = Inr (Some (place b k js bl), s') \<and> part_ok p hdd b x' s' \<and> layout_ok b x' \<and>
           length js = will - k \<and> distinct js \<and> set js \<subseteq> free_blocks x \<and>
           (\<forall>n. used (block_bitmap x') n \<longleftrightarrow> n \<in> set js \<or> used (block_bitmap x) n) \<and> free_blocks x' = free_blocks x - set js \<and>
           inodes s' = (inodes s)(a \<mapsto> i\<lparr>i_sectors := place b k js (i_sectors i)\<rparr>) \<and>
           (\<forall>n. n \<notin> bitmap_region b \<longrightarrow> disk_of hdd s' n = disk_of hdd s n) \<and> fs_frame s s'"
  using assms
proof (induction "will - k" arbitrary: k bl x s i)
  case 0
  then have "k = will" by simp
  then show ?case using "0.prems" by (subst new_blocks.simps) (auto intro!: exI [of _ "[]"] exI [of _ x] exI [of _ s])
next
  case (Suc m)
  have k: "k < will" using Suc.hyps(2) by simp
  have ne: "free_blocks x \<noteq> {}" using Suc.prems(9) Suc.hyps(2) by auto
  obtain j bm cs where al: "block_bitmap_alloc p s = Inr (block_lba b j, s\<lparr>channels := cs\<rparr>)"
    "part_ok p hdd b (x\<lparr>block_bitmap := bm\<rparr>) (s\<lparr>channels := cs\<rparr>)" "layout_ok b (x\<lparr>block_bitmap := bm\<rparr>)" "j \<in> free_blocks x"
    "\<forall>i. used bm i \<longleftrightarrow> i = j \<or> used (block_bitmap x) i" "btmp_bytes_len bm = btmp_bytes_len (block_bitmap x)"
    "free_blocks (x\<lparr>block_bitmap := bm\<rparr>) = free_blocks x - {j}"
    using block_bitmap_alloc_ok [OF Suc.prems(1,2) ne] by blast
  let ?x1 = "x\<lparr>block_bitmap := bm\<rparr>" and ?s1 = "s\<lparr>channels := cs\<rparr>" and ?l = "block_lba b j"
  let ?i = "i\<lparr>i_sectors := (i_sectors i)[k := ?l]\<rparr>"
  let ?s2 = "set_inode a ?i ?s1"
  have j: "j < 2048" "j < nbits (block_bitmap ?x1)" using al(4,6) by (simp_all add: free_blocks_def nbits_def)
  have ok2: "part_ok p hdd b ?x1 ?s2" using al(2) by simp
  have sub: "?l - data_start_lba b = of_nat j" by (simp add: block_lba_def)
  have im: "disk_of hdd ?s2 = disk_of hdd s" by (simp add: disk_of_def set_inode_def)
  obtain s3 where s3: "bitmap_sync p (of_nat j) BLOCK_BITMAP ?s2 = Inr s3"
    "io hdd (write_image (disk_of hdd s) (unat (block_bitmap_lba b)) 1 (bits bm)) ?s2 s3"
    using bitmap_sync_ok [OF ok2 al(3) j] unfolding im by auto
  have S: "1 \<le> unat (block_bitmap_sects b)" using al(3) j(2) by (cases "unat (block_bitmap_sects b)") (auto simp: layout_ok_def nbits_def)
  have bl: "512 * 1 \<le> length (bits bm)" using al(3) S by (simp add: layout_ok_def)
  have sec: "sectors (write_image (disk_of hdd s) (unat (block_bitmap_lba b)) 1 (bits bm))"
    using sectors_write [OF _ bl] Suc.prems(1) by (simp add: part_ok_def disk_ready_def)
  have ok3: "part_ok p hdd b ?x1 s3" by (rule part_ok_io [OF ok2 s3(2) sec])
  have in3: "inodes s3 = (inodes s)(a \<mapsto> ?i)" using io_fstate(1) [OF s3(2)] by simp
  have card: "will - Suc k \<le> card (free_blocks ?x1)" using Suc.prems(9) al(4,7) by simp
  have "\<exists>js x' s'. new_blocks p a will (bl[k := ?l]) (Suc k) s3 = Inr (Some (place b (Suc k) js (bl[k := ?l])), s') \<and>
           part_ok p hdd b x' s' \<and> layout_ok b x' \<and>
           length js = will - Suc k \<and> distinct js \<and> set js \<subseteq> free_blocks ?x1 \<and>
           (\<forall>n. used (block_bitmap x') n \<longleftrightarrow> n \<in> set js \<or> used (block_bitmap ?x1) n) \<and> free_blocks x' = free_blocks ?x1 - set js \<and>
           inodes s' = (inodes s3)(a \<mapsto> ?i\<lparr>i_sectors := place b (Suc k) js (i_sectors ?i)\<rparr>) \<and>
           (\<forall>n. n \<notin> bitmap_region b \<longrightarrow> disk_of hdd s' n = disk_of hdd s3 n) \<and> fs_frame s3 s'"
    by (rule Suc.hyps(1)) (use Suc.hyps(2) Suc.prems k ok3 al(3) in3 card in \<open>auto simp: nth_list_update\<close>)
  then obtain js x' s' where r: "new_blocks p a will (bl[k := ?l]) (Suc k) s3 = Inr (Some (place b (Suc k) js (bl[k := ?l])), s')"
    "part_ok p hdd b x' s'" "layout_ok b x'" "length js = will - Suc k" "distinct js" "set js \<subseteq> free_blocks ?x1"
    "\<forall>n. used (block_bitmap x') n \<longleftrightarrow> n \<in> set js \<or> used bm n" "free_blocks x' = free_blocks ?x1 - set js"
    "inodes s' = (inodes s3)(a \<mapsto> ?i\<lparr>i_sectors := place b (Suc k) js (i_sectors ?i)\<rparr>)"
    "\<forall>n. n \<notin> bitmap_region b \<longrightarrow> disk_of hdd s' n = disk_of hdd s3 n" "fs_frame s3 s'" by auto
  have pl: "place b (Suc k) js (bl[k := ?l]) = place b k (j # js) bl"
    "place b (Suc k) js ((i_sectors i)[k := ?l]) = place b k (j # js) (i_sectors i)"
    using Suc.prems(4,5,6) k by (simp_all add: place_Cons)
  have "new_blocks p a will bl k s = new_blocks p a will (bl[k := ?l]) (Suc k) s3"
    using k al(1) block_lba_valid [OF Suc.prems(2) j(1)] Suc.prems(3-6,8) ok2 s3(1) sub
    by (subst new_blocks.simps) (simp add: get_inode_def part_sb_def part_ok_def)
  moreover have "disk_of hdd s3 n = disk_of hdd s n" if "n \<notin> bitmap_region b" for n
    using io_disk [OF s3(2)] that S by (auto simp: write_image_def bitmap_region_def)
  moreover have "fs_frame s s3" using fs_frame_trans [OF _ fs_frame_io [OF s3(2)]] by (simp add: fs_frame_def set_inode_def)
  ultimately show ?case
    using r al(4,5,7) in3 pl Suc.hyps(2) fs_frame_trans
    by (intro exI [of _ "j # js"] exI [of _ x'] exI [of _ s']) auto
qed

end
