(* ===== verification/Writing.thy ===== *)
theory Writing
  imports Blocks
begin

text \<open>
  Writing a file: the sectors the loop of \<open>file_write\<close> changes, and the content of the file
  after it.
\<close>

section \<open>One sector\<close>

definition patched :: "buf \<Rightarrow> nat \<Rightarrow> buf \<Rightarrow> buf" where
  "patched old r d = take r old @ d @ drop (r + length d) old"

lemma set_file_ready [simp]:
  "part_ok p hdd b x (set_file fd f s) = part_ok p hdd b x s"
  "disk_of hdd (set_file fd f s) = disk_of hdd s" "inodes (set_file fd f s) = inodes s"
  "file_table (set_file fd f s) = (file_table s)[fd := f]" "file_table (set_inode a i s) = file_table s"
  by (simp_all add: set_file_def set_inode_def part_ok_def get_part_def get_disk_def get_channel_def disk_of_def
      disk_ready_def ide_up_def disk_up_def disk_wired_def controller_ready_def channel_lock_ok_def lock_free_def
      queue_def dll_def)

lemma write_sector_ok:
  fixes first :: bool
  assumes "part_ok p hdd b x s" and "fd < length (file_table s)" and "file_table s ! fd = f" and "fd_inode f = a"
    and "inodes s a = Some i" and "length io_buf = 512" and "unat (z div 512) < length bl"
    and "unat (bl ! unat (z div 512)) + 1 \<le> 2 ^ 28" and "unat done + unat c \<le> length src"
    and "unat (z mod 512) + unat c \<le> 512"
  defines "l \<equiv> unat (bl ! unat (z div 512))" and "old \<equiv> (if first then disk_of hdd s (unat (bl ! unat (z div 512))) else replicate 512 0)"
  defines "new \<equiv> patched old (unat (z mod 512)) (take (unat c) (drop (unat done) src))"
  shows "\<exists>s2. write_sector hdd fd bl src first z c done io_buf s =
           Inr (new, set_file fd (f\<lparr>fd_pos := fd_pos f + c\<rparr>) (set_inode a (i\<lparr>i_size := i_size i + c\<rparr>) s2)) \<and>
           io hdd ((disk_of hdd s)(l := new)) s s2 \<and> sectors ((disk_of hdd s)(l := new)) \<and> length new = 512"
proof -
  let ?im = "disk_of hdd s" and ?d = "take (unat c) (drop (unat done) src)"
  have r: "disk_ready hdd s" using assms(1) by (simp add: part_ok_def)
  then have sec: "sectors ?im" by (simp add: disk_ready_def)
  have lo: "length old = 512" using sec by (simp add: old_def sectors_def)
  have ld: "length ?d = unat c" using assms(9) by simp
  have ln: "length new = 512" using lo ld assms(10) by (simp add: new_def patched_def)
  have l28: "l + 1 \<le> 2 ^ 28" using assms(8) by (simp add: l_def)
  obtain s1 where s1: "(if first then ide_read hdd (bl ! unat (z div 512)) (replicate 512 0) 1 s else Inr (replicate 512 0, s)) = Inr (old, s1)"
    "io hdd ?im s s1"
  proof (cases first)
    case True
    then show ?thesis
      using that ide_read_io [OF r, of "bl ! unat (z div 512)" 1 "replicate 512 0"] assms(8)
      by (auto simp: old_def read_image_def)
  next
    case False
    then show ?thesis using that io_refl [of hdd s] by (simp add: old_def)
  qed
  have g: "get_bytes src (unat done) (unat c) = Inr ?d" using get_bytes_ok [OF assms(9)] .
  have pb: "put_bytes old (unat (z mod 512)) ?d = Inr new"
    using put_bytes_ok [of "unat (z mod 512)" ?d old] lo ld assms(10) by (simp add: new_def patched_def)
  obtain s2 where s2: "ide_write hdd (bl ! unat (z div 512)) new 1 s1 = Inr s2" "io hdd (write_image ?im l 1 new) s s2"
    "sectors (write_image ?im l 1 new)"
    using io_write [OF s1(2) r sec, of "bl ! unat (z div 512)" l 1 1 new] l28 ln by (auto simp: l_def)
  have w: "write_image ?im l 1 new = ?im(l := new)" using ln by (auto simp: write_image_def)
  have fi: "file_table s2 = file_table s" "inodes s2 = inodes s" using io_fstate [OF s2(2)] by simp_all
  have "memset (Some io_buf) 0 512 = Inr (replicate 512 0)" by (rule memset_whole) (simp add: assms(6))
  then have "write_sector hdd fd bl src first z c done io_buf s =
      Inr (new, set_file fd (f\<lparr>fd_pos := fd_pos f + c\<rparr>) (set_inode a (i\<lparr>i_size := i_size i + c\<rparr>) s2))"
    using s1(1) g pb s2(1) assms(2-5,7) fi by (simp add: write_sector_def get_file_def get_inode_def)
  then show ?thesis using s2(2,3) w ln by auto
qed

section \<open>The loop\<close>

definition block_span :: "nat \<Rightarrow> nat \<Rightarrow> nat set" where
  "block_span z left = {n. 0 < left \<and> z div 512 \<le> n \<and> 512 * n < z + left}"

lemma block_span_step:
  assumes "c = min left (512 - z mod 512)" and "0 < left"
  shows "block_span z left = insert (z div 512) (block_span (z + c) (left - c))"
    and "z div 512 \<notin> block_span (z + c) (left - c)"
    and "c < left \<Longrightarrow> (z + c) div 512 = Suc (z div 512) \<and> (z + c) mod 512 = 0"
    and "n < c \<Longrightarrow> (z + n) div 512 = z div 512 \<and> (z + n) mod 512 = z mod 512 + n"
proof -
  have m: "z = 512 * (z div 512) + z mod 512" "z mod 512 < 512" by simp_all
  have full: "(z + c) div 512 = Suc (z div 512) \<and> (z + c) mod 512 = 0" if "c < left"
  proof -
    have "c = 512 - z mod 512" using assms(1) that by simp
    then have "z + c = 512 * (z div 512) + 512" using m by linarith
    then have "z + c = 512 * Suc (z div 512)" by simp
    then show ?thesis by simp
  qed
  then show "c < left \<Longrightarrow> (z + c) div 512 = Suc (z div 512) \<and> (z + c) mod 512 = 0" .
  show "(z + n) div 512 = z div 512 \<and> (z + n) mod 512 = z mod 512 + n" if "n < c"
  proof -
    have "z mod 512 + n < 512" using that assms(1) by linarith
    moreover have "z + n = 512 * (z div 512) + (z mod 512 + n)" using m(1) by linarith
    ultimately show ?thesis by (metis div_mult_self4 div_less mod_less mod_mult_self4 add.right_neutral zero_neq_numeral)
  qed
  have pos: "512 * (z div 512) < z + left" using m(1) assms(2) by linarith
  show "z div 512 \<notin> block_span (z + c) (left - c)"
  proof (cases "c < left")
    case True
    then show ?thesis using full by (auto simp: block_span_def)
  next
    case False
    then show ?thesis using assms(1) by (auto simp: block_span_def)
  qed
  show "block_span z left = insert (z div 512) (block_span (z + c) (left - c))"
  proof (cases "c < left")
    case True
    then show ?thesis using full [OF True] pos unfolding block_span_def by auto
  next
    case False
    then have c: "c = left" "left \<le> 512 - z mod 512" using assms by simp_all
    have "n = z div 512" if "z div 512 \<le> n" "512 * n < z + left" for n
    proof -
      have "512 * n < 512 * (z div 512) + 512" using that(2) c(2) m by linarith
      then show ?thesis using that(1) by simp
    qed
    then have "block_span z left = {z div 512}" using pos assms(2) by (auto simp: block_span_def)
    moreover have "block_span (z + c) (left - c) = {}" using c(1) by (simp add: block_span_def)
    ultimately show ?thesis by simp
  qed
qed

text \<open>What writing leaves alone.\<close>

definition but_table :: "'z fstate_scheme \<Rightarrow> 'z fstate_scheme \<Rightarrow> bool" where
  "but_table s s' \<longleftrightarrow> fs_frame (s\<lparr>file_table := file_table s'\<rparr>) s'"

lemma but_table_trans: "but_table s s' \<Longrightarrow> but_table s' s'' \<Longrightarrow> but_table s s''"
  by (simp add: but_table_def fs_frame_def)

lemma but_table_set:
  "fs_frame s s' \<Longrightarrow> but_table s (set_file fd f (set_inode a i s'))"
  by (simp add: but_table_def fs_frame_def set_file_def set_inode_def)

lemma unat_chunk:
  "unat (chunk left off) = (if unat left < unat (512 - off) then unat left else unat (512 - off))"
  by (simp add: chunk_def Let_def word_less_nat_alt)

lemma write_loop_ok:
  assumes "part_ok p hdd b x s" and "fd < length (file_table s)" and "file_table s ! fd = f" and "fd_inode f = a"
    and "inodes s a = Some i" and "length io_buf = 512" and "length bl = 140" and "done \<le> count"
    and "unat count \<le> length src" and "unat (i_size i) + (unat count - unat done) \<le> 71680"
    and "done < count \<longrightarrow> first \<or> unat (i_size i) mod 512 = 0"
    and "inj_on (\<lambda>n. unat (bl ! n)) (block_span (unat (i_size i)) (unat count - unat done))"
    and "\<forall>n \<in> block_span (unat (i_size i)) (unat count - unat done). unat (bl ! n) + 1 \<le> 2 ^ 28"
  shows "\<exists>b' f' s' im. write_loop hdd fd bl src count first done io_buf s = Inr ((b', count), s') \<and>
           part_ok p hdd b x s' \<and> disk_of hdd s' = im \<and> length b' = 512 \<and> fd_inode f' = a \<and>
           file_table s' = (file_table s)[fd := f'] \<and>
           inodes s' = (inodes s)(a \<mapsto> i\<lparr>i_size := i_size i + (count - done)\<rparr>) \<and> but_table s s' \<and>
           (\<forall>n < unat count - unat done. im (unat (bl ! ((unat (i_size i) + n) div 512))) ! ((unat (i_size i) + n) mod 512) = src ! (unat done + n)) \<and>
           (first \<longrightarrow> done < count \<longrightarrow> (\<forall>r < unat (i_size i) mod 512.
              im (unat (bl ! (unat (i_size i) div 512))) ! r = disk_of hdd s (unat (bl ! (unat (i_size i) div 512))) ! r)) \<and>
           (\<forall>l. l \<notin> (\<lambda>n. unat (bl ! n)) ` block_span (unat (i_size i)) (unat count - unat done) \<longrightarrow> im l = disk_of hdd s l)"
  using assms
proof (induction "unat count - unat done" arbitrary: "done" first f i io_buf s rule: less_induct)
  case less
  show ?case
  proof (cases "done < count")
    case False
    then have "done = count" using less.prems(8) by simp
    moreover have "but_table s s" by (simp add: but_table_def)
    moreover have "(inodes s)(a \<mapsto> i) = inodes s" using less.prems(5) by auto
    ultimately show ?thesis using less.prems(1-6) by (subst write_loop.simps) (auto intro!: exI [of _ f])
  next
    case True
    let ?z = "unat (i_size i)" and ?left = "unat count - unat done" and ?L = "\<lambda>n. unat (bl ! n)"
    let ?c = "chunk (count - done) (i_size i mod 512)"
    define c where "c = unat ?c"
    have left: "unat (count - done) = ?left" "0 < ?left"
      using True less.prems(8) by (simp_all add: unat_sub word_less_nat_alt)
    have m: "unat (i_size i mod 512) = ?z mod 512" "unat (i_size i div 512) = ?z div 512" "?z mod 512 < 512"
      by (simp_all add: unat_mod unat_div)
    have "unat (512 - i_size i mod 512) = 512 - ?z mod 512"
      using unat_sub [of "i_size i mod 512" 512] m by (simp add: word_le_nat_alt order_less_imp_le)
    then have c: "c = min ?left (512 - ?z mod 512)" unfolding c_def unat_chunk left(1) by auto
    have cpos: "0 < c" "c \<le> ?left" "?z mod 512 + c \<le> 512" using c left(2) m(3) by simp_all
    note sp = block_span_step [OF c left(2)]
    have q: "?z div 512 \<in> block_span ?z ?left" using sp(1) by simp
    have q140: "?z div 512 < 140" using less.prems(10) left(2) by linarith
    have c': "unat done + unat ?c \<le> length src" using cpos(2) less.prems(8,9) left by (simp add: c_def [symmetric] word_le_nat_alt)
    let ?im = "disk_of hdd s" and ?l = "?L (?z div 512)"
    define new where "new = patched (if first then ?im ?l else replicate 512 0) (?z mod 512) (take c (drop (unat done) src))"
    define f1 where "f1 = f\<lparr>fd_pos := fd_pos f + ?c\<rparr>"
    define i1 where "i1 = i\<lparr>i_size := i_size i + ?c\<rparr>"
    obtain s2 where s2: "write_sector hdd fd bl src first (i_size i) ?c done io_buf s = Inr (new, set_file fd f1 (set_inode a i1 s2))"
      "io hdd (?im(?l := new)) s s2" "sectors (?im(?l := new))" "length new = 512"
      using write_sector_ok [OF less.prems(1-6), of "i_size i" bl "done" ?c src first] q140 less.prems(7,13) c' cpos(3) q
      unfolding m c_def [symmetric] new_def f1_def i1_def by auto
    define s1 where "s1 = set_file fd f1 (set_inode a i1 s2)"
    have fr: "file_table s2 = file_table s" "inodes s2 = inodes s" using io_fstate [OF s2(2)] by simp_all
    have ok1: "part_ok p hdd b x s1" using part_ok_io [OF less.prems(1) s2(2,3)] by (simp add: s1_def)
    have t1: "file_table s1 = (file_table s)[fd := f1]" "inodes s1 = (inodes s)(a \<mapsto> i1)" "disk_of hdd s1 = ?im(?l := new)"
      by (simp_all add: s1_def fr io_disk [OF s2(2)])
    have b1: "but_table s s1" unfolding s1_def by (rule but_table_set [OF fs_frame_io [OF s2(2)]])
    have le: "unat done + c \<le> unat count" using cpos(2) left by linarith
    then have d1: "unat (done + ?c) = unat done + c"
      using unsigned_less [of count, where 'a = nat] by (simp add: unat_word_ariths c_def)
    have z1: "unat (i_size i1) = ?z + c"
      using less.prems(10) cpos(2) by (simp add: i1_def unat_word_ariths c_def [symmetric])
    have left1: "unat count - (unat done + c) = ?left - c" by simp
    have cnt: "done + ?c < count \<longleftrightarrow> c < ?left" using d1 le by (auto simp: word_less_nat_alt)
    have sub: "block_span (?z + c) (?left - c) \<subseteq> block_span ?z ?left" using sp(1) by blast
    have "\<exists>b' f' s' im. write_loop hdd fd bl src count False (done + ?c) new s1 = Inr ((b', count), s') \<and>
           part_ok p hdd b x s' \<and> disk_of hdd s' = im \<and> length b' = 512 \<and> fd_inode f' = a \<and>
           file_table s' = (file_table s1)[fd := f'] \<and>
           inodes s' = (inodes s1)(a \<mapsto> i1\<lparr>i_size := i_size i1 + (count - (done + ?c))\<rparr>) \<and> but_table s1 s' \<and>
           (\<forall>n < ?left - c. im (?L ((?z + c + n) div 512)) ! ((?z + c + n) mod 512) = src ! (unat done + c + n)) \<and>
           (\<forall>l. l \<notin> ?L ` block_span (?z + c) (?left - c) \<longrightarrow> im l = disk_of hdd s1 l)"
    proof -
      have p: "?left - c < ?left" "fd < length (file_table s1)" "file_table s1 ! fd = f1" "fd_inode f1 = a" "inodes s1 a = Some i1"
        "done + ?c \<le> count" "?z + c + (?left - c) \<le> 71680"
        "done + ?c < count \<longrightarrow> False \<or> (?z + c) mod 512 = 0"
        "\<forall>n \<in> block_span (?z + c) (?left - c). ?L n + 1 \<le> 2 ^ 28"
        using cpos left t1 less.prems(2,4,10,13) le sp(3) cnt sub by (auto simp: f1_def word_le_nat_alt d1)
      show ?thesis
        using less.hyps [of "done + ?c" s1 f1 i1 new False, unfolded d1 left1 z1,
          OF p(1) ok1 p(2-5) s2(4) less.prems(7) p(6) less.prems(9) p(7,8) inj_on_subset [OF less.prems(12) sub] p(9)]
        by blast
    qed
    then obtain b' f' s' im where r: "write_loop hdd fd bl src count False (done + ?c) new s1 = Inr ((b', count), s')"
      "part_ok p hdd b x s'" "disk_of hdd s' = im" "length b' = 512" "fd_inode f' = a"
      "file_table s' = (file_table s1)[fd := f']"
      "inodes s' = (inodes s1)(a \<mapsto> i1\<lparr>i_size := i_size i1 + (count - (done + ?c))\<rparr>)" "but_table s1 s'"
      "\<forall>n < ?left - c. im (?L ((?z + c + n) div 512)) ! ((?z + c + n) mod 512) = src ! (unat done + c + n)"
      "\<forall>l. l \<notin> ?L ` block_span (?z + c) (?left - c) \<longrightarrow> im l = disk_of hdd s1 l" by blast
    have run: "write_loop hdd fd bl src count first done io_buf s = Inr ((b', count), s')"
      using True less.prems(2-5) s2(1) r(1)
      by (subst write_loop.simps) (simp add: get_file_def get_inode_def Let_def s1_def)
    have out: "?l \<notin> ?L ` block_span (?z + c) (?left - c)"
      using sp(2) inj_onD [OF less.prems(12) _ q] sub by blast
    then have iml: "im ?l = new" using r(10) t1(3) by simp
    have lo: "length (if first then ?im ?l else replicate 512 0) = 512"
      using less.prems(1) by (simp add: part_ok_def disk_ready_def sectors_def)
    have data: "im (?L ((?z + n) div 512)) ! ((?z + n) mod 512) = src ! (unat done + n)" if "n < ?left" for n
    proof (cases "n < c")
      case True
      then show ?thesis
        using sp(4) [OF True] iml c' cpos lo by (simp add: new_def patched_def nth_append c_def [symmetric])
    next
      case False
      then have "n - c < ?left - c" using that by simp
      then show ?thesis using r(9) False by (auto dest!: spec [of _ "n - c"])
    qed
    have old: "im ?l ! k = ?im ?l ! k" if "first" "k < ?z mod 512" for k
      using that iml lo by (simp add: new_def patched_def nth_append)
    have rest: "im l = ?im l" if "l \<notin> ?L ` block_span ?z ?left" for l
      using that r(10) t1(3) sp(1) q by auto
    have ft: "file_table s' = (file_table s)[fd := f']" using r(6) t1(1) by simp
    have ino: "inodes s' = (inodes s)(a \<mapsto> i\<lparr>i_size := i_size i + (count - done)\<rparr>)"
      using r(7) t1(2) by (simp add: i1_def)
    have "but_table s s'" by (rule but_table_trans [OF b1 r(8)])
    then show ?thesis using run r(2-5) ft ino data old rest by blast
  qed
qed

end
