(* ===== verification/Append.thy ===== *)
theory Append
  imports Writing
begin

text \<open>
  What \<open>file_write\<close> does to a file that lies in its direct blocks: the blocks it allocates, and
  the content of the file before and after.
\<close>

section \<open>Growing a file\<close>

text \<open>The inode at \<open>a\<close> gets the free blocks \<open>ns\<close> from its slot \<open>k\<close> on.\<close>

definition grown ::
  "part_ptr \<Rightarrow> disk_ptr \<Rightarrow> super_block \<Rightarrow> u32 \<Rightarrow> nat \<Rightarrow> nat list \<Rightarrow> partition \<times> inode \<times> 'z fstate_scheme \<Rightarrow>
    partition \<times> inode \<times> 'z fstate_scheme \<Rightarrow> bool" where
  "grown p hdd b a k ns = (\<lambda>(x, i, s) (x', i', s').
     part_ok p hdd b x' s' \<and> layout_ok b x' \<and> distinct ns \<and> set ns \<subseteq> free_blocks x \<and>
     (\<forall>n. used (block_bitmap x') n \<longleftrightarrow> n \<in> set ns \<or> used (block_bitmap x) n) \<and>
     nbits (block_bitmap x') = nbits (block_bitmap x) \<and> free_blocks x' = free_blocks x - set ns \<and>
     i' = i\<lparr>i_sectors := place b k ns (i_sectors i)\<rparr> \<and> inodes s' = (inodes s)(a \<mapsto> i') \<and>
     (\<forall>n. n \<notin> bitmap_region b \<longrightarrow> disk_of hdd s' n = disk_of hdd s n) \<and> fs_frame s s')"

lemma grown_refl:
  assumes "part_ok p hdd b x s" and "layout_ok b x" and "inodes s a = Some i"
  shows "grown p hdd b a k [] (x, i, s) (x, i, s)"
  using assms by (auto simp: grown_def)

lemma place_append:
  assumes "k + length ns + length ms \<le> length ws"
  shows "place b (k + length ns) ms (place b k ns ws) = place b k (ns @ ms) ws"
proof (rule nth_equalityI)
  have l: "k + length ns \<le> length ws" "k + length ns + length ms \<le> length (place b k ns ws)" "k + length (ns @ ms) \<le> length ws"
    using assms by (simp_all add: length_place)
  show "length (place b (k + length ns) ms (place b k ns ws)) = length (place b k (ns @ ms) ws)"
    using l by (simp add: length_place)
  fix n assume "n < length (place b (k + length ns) ms (place b k ns ws))"
  then have n: "n < length (place b k ns ws)" "n < length ws" using l by (simp_all add: length_place)
  show "place b (k + length ns) ms (place b k ns ws) ! n = place b k (ns @ ms) ws ! n"
    unfolding nth_place [OF l(2) n(1)] nth_place [OF l(1) n(2)] nth_place [OF l(3) n(2)]
    by (auto simp: nth_append)
qed

lemma grown_trans:
  assumes "grown p hdd b a k ns (x, i, s) (x1, i1, s1)" and "grown p hdd b a (k + length ns) ms (x1, i1, s1) (x2, i2, s2)"
    and "k + length ns + length ms \<le> length (i_sectors i)"
  shows "grown p hdd b a k (ns @ ms) (x, i, s) (x2, i2, s2)"
  using assms fs_frame_trans [of s s1 s2] place_append [OF assms(3)] by (auto simp: grown_def)

lemma grown_sectors: "grown p hdd b a k ns (x, i, s) (x', i', s') \<Longrightarrow> k + length ns \<le> length (i_sectors i) \<Longrightarrow>
    length (i_sectors i') = length (i_sectors i)"
  by (simp add: grown_def length_place)

lemma layout_nbits: "layout_ok b x \<Longrightarrow> layout_ok b x' \<Longrightarrow> nbits (block_bitmap x') = nbits (block_bitmap x)"
  by (simp add: layout_ok_def nbits_def)

lemma new_blocks_grown:
  assumes "part_ok p hdd b x s" and "layout_ok b x" and "inodes s a = Some i" and "length (i_sectors i) = 13"
    and "length bl = 140" and "will \<le> 12" and "k \<le> will" and "\<forall>n. k \<le> n \<longrightarrow> n < will \<longrightarrow> i_sectors i ! n = 0"
    and "will - k \<le> card (free_blocks x)"
  shows "\<exists>ns x' i' s'. new_blocks p a will bl k s = Inr (Some (place b k ns bl), s') \<and> length ns = will - k \<and>
           grown p hdd b a k ns (x, i, s) (x', i', s')"
proof -
  from new_blocks_ok [OF assms] obtain js x' s' where
    "new_blocks p a will bl k s = Inr (Some (place b k js bl), s')" "length js = will - k"
    and g: "part_ok p hdd b x' s'" "layout_ok b x'" "distinct js" "set js \<subseteq> free_blocks x"
    "\<forall>n. used (block_bitmap x') n \<longleftrightarrow> n \<in> set js \<or> used (block_bitmap x) n" "free_blocks x' = free_blocks x - set js"
    "inodes s' = (inodes s)(a \<mapsto> i\<lparr>i_sectors := place b k js (i_sectors i)\<rparr>)"
    "\<forall>n. n \<notin> bitmap_region b \<longrightarrow> disk_of hdd s' n = disk_of hdd s n" "fs_frame s s'" by blast
  moreover have "grown p hdd b a k js (x, i, s) (x', i\<lparr>i_sectors := place b k js (i_sectors i)\<rparr>, s')"
    using g layout_nbits [OF assms(2) g(2)] by (simp add: grown_def)
  ultimately show ?thesis by blast
qed

section \<open>The blocks of a file\<close>

definition has_blocks :: "super_block \<Rightarrow> partition \<Rightarrow> inode \<Rightarrow> nat list \<Rightarrow> bool" where
  "has_blocks b x i js \<longleftrightarrow>
     length (i_sectors i) = 13 \<and> length js \<le> 12 \<and> distinct js \<and>
     (\<forall>j \<in> set js. j < 2048 \<and> j < nbits (block_bitmap x) \<and> used (block_bitmap x) j) \<and>
     (\<forall>n < 12. i_sectors i ! n = (if n < length js then block_lba b (js ! n) else 0))"

lemma has_blocks_grown:
  assumes "grown p hdd b a (length js) ns (x, i, s) (x', i', s')" and "has_blocks b x i js" and "length js + length ns \<le> 12"
  shows "has_blocks b x' i' (js @ ns)"
proof -
  have l: "length js + length ns \<le> length (i_sectors i)" using assms(2,3) by (simp add: has_blocks_def)
  have "i_sectors i' ! n = (if n < length (js @ ns) then block_lba b ((js @ ns) ! n) else 0)" if "n < 12" for n
    using that assms(1,2) nth_place [OF l, of n b] by (auto simp: grown_def has_blocks_def nth_append)
  moreover have "set js \<inter> set ns = {}" using assms(1,2) by (auto simp: grown_def has_blocks_def free_blocks_def)
  ultimately show ?thesis using assms l
    by (auto simp: has_blocks_def grown_def length_place free_blocks_def)
qed

text \<open>A file of the given size has one block more than it has full ones; an empty file may have none.\<close>

definition file_blocks :: "super_block \<Rightarrow> partition \<Rightarrow> inode \<Rightarrow> nat list \<Rightarrow> bool" where
  "file_blocks b x i js \<longleftrightarrow>
     has_blocks b x i js \<and> (length js = unat (i_size i) div 512 + 1 \<or> js = [] \<and> i_size i = 0)"

lemma set_disk_inodes: "set_disk hdd d s = Inr s' \<Longrightarrow> inodes s' = inodes s"
  unfolding set_disk_def set_channel_def bindE_eq_Inr by (elim exE conjE) (drule sym, simp)

lemma set_part_inodes:
  assumes "set_part p y s = Inr s'"
  shows "inodes s' = inodes s"
proof -
  from assms obtain d where "(if snd p < 4
       then bindE (wr (prim_parts d) (snd p) y) (\<lambda>ps. set_disk (fst p) (d\<lparr>prim_parts := ps\<rparr>) s)
       else bindE (wr (logic_parts d) (snd p - 4) y) (\<lambda>ps. set_disk (fst p) (d\<lparr>logic_parts := ps\<rparr>) s)) = Inr s'"
    unfolding set_part_def bindE_eq_Inr by (elim exE conjE)
  then show ?thesis
    by (cases "snd p < 4") (simp_all only: if_True if_False bindE_eq_Inr, (elim exE conjE, erule set_disk_inodes)+)
qed

lemma block_bitmap_alloc_inodes: "block_bitmap_alloc p s = Inr (l, s1) \<Longrightarrow> inodes s1 = inodes s"
  unfolding block_bitmap_alloc_def bindE_eq_Inr by (auto simp: bindE_eq_Inr set_part_inodes split: if_splits)

lemma first_block_new:
  assumes "new_blocks p a 1 (replicate 140 0) 0 s = Inr (Some bl, s')" and "inodes s a = Some i"
    and "length (i_sectors i) = 13" and "i_sectors i ! 0 = 0"
    and "block_bitmap_alloc p s = Inr (l, s1)" and "part_sb p s1 = Inr b" and "l \<noteq> -1"
    and "l - data_start_lba b \<noteq> 0"
  shows "first_block p a s = Inr (True, s')"
proof -
  have stop: "new_blocks p a (Suc 0) bl (Suc 0) s = Inr (Some bl, s)" for bl s
    by (subst new_blocks.simps) simp
  let ?s2 = "set_inode a (i\<lparr>i_sectors := (i_sectors i)[0 := l]\<rparr>) s1"
  have sb: "part_sb p ?s2 = Inr b" using assms(6) by (simp add: part_sb_def)
  have "inodes s1 a = Some i" using block_bitmap_alloc_inodes [OF assms(5)] assms(2) by simp
  then have "bitmap_sync p (l - data_start_lba b) BLOCK_BITMAP ?s2 = Inr s'"
    using assms(1) assms(3-5,7) sb
    by (simp add: new_blocks.simps [of p a "Suc 0" "replicate 140 0" 0 s] get_inode_def)
      (auto simp: res_simps stop)
  then show ?thesis using assms(2-5,7,8) sb by (simp add: first_block_def get_inode_def Let_def)
qed

lemma first_block_ok:
  assumes "part_ok p hdd b x s" and "layout_ok b x" and "inodes s a = Some i" and "file_blocks b x i js"
    and "used (block_bitmap x) 0" and "js = [] \<longrightarrow> free_blocks x \<noteq> {}"
  shows "\<exists>ns x' i' s'. first_block p a s = Inr (True, s') \<and> length ns = (if js = [] then 1 else 0) \<and>
           grown p hdd b a (length js) ns (x, i, s) (x', i', s')"
proof (cases "js = []")
  case True
  have i: "length (i_sectors i) = 13" "i_sectors i ! 0 = 0"
    using assms(4) True by (auto simp: file_blocks_def has_blocks_def)
  have "1 - 0 \<le> card (free_blocks x)" using assms(6) True by (simp add: Suc_le_eq card_gt_0_iff)
  from new_blocks_grown [OF assms(1-3) i(1), of "replicate 140 0" 1 0, OF _ _ _ _ this] obtain ns x' i' s' where
    n: "new_blocks p a 1 (replicate 140 0) 0 s = Inr (Some (place b 0 ns (replicate 140 0)), s')" "length ns = 1"
    "grown p hdd b a 0 ns (x, i, s) (x', i', s')" using i(2) by auto
  obtain j1 bm cs where al: "block_bitmap_alloc p s = Inr (block_lba b j1, s\<lparr>channels := cs\<rparr>)"
    "part_ok p hdd b (x\<lparr>block_bitmap := bm\<rparr>) (s\<lparr>channels := cs\<rparr>)" "j1 \<in> free_blocks x"
    using block_bitmap_alloc_ok [OF assms(1,2)] assms(6) True by blast
  have j': "j1 \<noteq> 0" "j1 < 2048" using al(3) assms(5) by (auto simp: free_blocks_def intro: ccontr)
  have off: "block_lba b j1 - data_start_lba b = of_nat j1" by (simp add: block_lba_def)
  have nz: "(of_nat j1 :: u32) \<noteq> 0"
  proof
    assume "(of_nat j1 :: u32) = 0"
    then have "unat (of_nat j1 :: u32) = 0" by simp
    then show False using j' unat_small [of j1] by simp
  qed
  have "part_sb p (s\<lparr>channels := cs\<rparr>) = Inr b" using al(2) by (simp add: part_sb_def part_ok_def)
  note psb = this
  have "block_lba b j1 - data_start_lba b \<noteq> 0" using nz unfolding off .
  then have "first_block p a s = Inr (True, s')"
    using first_block_new [OF n(1) assms(3) i al(1) psb] block_lba_valid [OF assms(2) j'(2)] by blast
  then show ?thesis using n True by auto
next
  case False
  then have "i_sectors i ! 0 = block_lba b (js ! 0)" "js ! 0 \<in> set js" "length (i_sectors i) = 13"
    using assms(4) by (auto simp: file_blocks_def has_blocks_def)
  moreover have "js ! 0 < 2048" using calculation(2) assms(4) by (auto simp: file_blocks_def has_blocks_def)
  ultimately have "first_block p a s = Inr (True, s)"
    using assms(3) block_lba_valid [OF assms(2)] by (simp add: first_block_def get_inode_def)
  then show ?thesis using False grown_refl [OF assms(1-3)] by fastforce
qed

lemma gather_blocks_ok:
  assumes "part_ok p hdd b x s" and "layout_ok b x" and "inodes s a = Some i" and "has_blocks b x i js"
    and "unat has_used = length js" and "0 < length js" and "length js \<le> unat will_use" and "unat will_use \<le> 12"
    and "unat will_use - length js \<le> card (free_blocks x)"
  shows "\<exists>bl ns x' i' s'. gather_blocks p hdd a has_used will_use s = Inr (Some bl, s') \<and>
           length ns = unat will_use - length js \<and> grown p hdd b a (length js) ns (x, i, s) (x', i', s') \<and> length bl = 140 \<and>
           (\<forall>n. length js \<le> n + 1 \<longrightarrow> n < unat will_use \<longrightarrow> bl ! n = block_lba b ((js @ ns) ! n))"
proof -
  let ?k = "length js" and ?bl = "(replicate 140 0)[length js - 1 := block_lba b (js ! (length js - 1))]"
  have i: "length (i_sectors i) = 13" "?k \<le> 12" "\<forall>n < 12. i_sectors i ! n = (if n < ?k then block_lba b (js ! n) else 0)"
    and used: "\<forall>j \<in> set js. j < 2048" using assms(4) by (auto simp: has_blocks_def)
  have "1 \<le> has_used" using assms(5,6) by (simp add: word_le_nat_alt Suc_le_eq)
  then have last: "unat (has_used - 1) = ?k - 1" using unat_sub [of 1 has_used] assms(5) by simp
  have lk: "i_sectors i ! (?k - 1) = block_lba b (js ! (?k - 1))" using i(2,3) assms(6) by simp
  have copy: "copy_block a (?k - 1) (replicate 140 0) s = Inr ?bl"
    using i(1,2) assms(3,6) lk by (simp add: copy_block_def get_inode_def)
  have same: "will_use - has_used = 0 \<longleftrightarrow> unat will_use = ?k" 
    unfolding right_minus_eq using assms(5) by (simp add: word_unat_eq_iff)
  have has12: "has_used \<le> 12" "will_use \<le> 12" using i(2) assms(5,8) by (simp_all add: word_le_nat_alt)
  show ?thesis
  proof (cases "unat will_use = ?k")
    case True
    have "gather_blocks p hdd a has_used will_use s = Inr (Some ?bl, s)"
      using True same has12(1) copy i(1) assms(3) by (simp add: gather_blocks_def get_inode_def last)
    moreover have "?bl ! n = block_lba b ((js @ []) ! n)" if "?k \<le> n + 1" "n < unat will_use" for n
    proof -
      have "n = ?k - 1" using that True by linarith
      then show ?thesis using i(2) assms(6) by simp
    qed
    ultimately show ?thesis using True grown_refl [OF assms(1-3)] by fastforce
  next
    case False
    have "js ! (?k - 1) < 2048" using used assms(6) nth_mem [of "?k - 1" js] by auto
    then have nz: "block_lba b (js ! (?k - 1)) \<noteq> 0" using block_lba_valid [OF assms(2)] by blast
    have zero: "\<forall>n. ?k \<le> n \<longrightarrow> n < unat will_use \<longrightarrow> i_sectors i ! n = 0" using i(3) assms(8) by simp
    from new_blocks_grown [OF assms(1-3) i(1) _ assms(8,7) zero assms(9), of ?bl] obtain ns x' i' s' where
      n: "new_blocks p a (unat will_use) ?bl ?k s = Inr (Some (place b ?k ns ?bl), s')" "length ns = unat will_use - ?k"
      "grown p hdd b a ?k ns (x, i, s) (x', i', s')" by auto
    have "gather_blocks p hdd a has_used will_use s = Inr (Some (place b ?k ns ?bl), s')"
      using False same has12 copy i(1,2) assms(3,5,6) n(1) lk nz by (simp add: gather_blocks_def get_inode_def last)
    moreover have f: "?k + length ns \<le> length ?bl" using n(2) assms(7,8) by simp
    moreover have "place b ?k ns ?bl ! m = block_lba b ((js @ ns) ! m)" if "?k \<le> m + 1" "m < unat will_use" for m
    proof -
      have "m < length ?bl" using that assms(8) by simp
      note pl = nth_place [OF f this, of b]
      show ?thesis
      proof (cases "?k \<le> m")
        case True
        then show ?thesis using pl that(2) n(2) assms(7) by (simp add: nth_append)
      next
        case F: False
        then have m: "m = ?k - 1" "m < ?k" using that(1) by linarith+
        have "?bl ! m = block_lba b (js ! m)" using m(1) i(2) assms(6) by simp
        then show ?thesis using pl F m(2) by (simp add: nth_append)
      qed
    qed
    ultimately show ?thesis using n(2,3) length_place [OF f] by fastforce
  qed
qed

section \<open>The content of a file\<close>

definition file_content :: "super_block \<Rightarrow> (nat \<Rightarrow> buf) \<Rightarrow> nat list \<Rightarrow> nat \<Rightarrow> buf" where
  "file_content b im js n = map (\<lambda>k. im (unat (data_start_lba b) + js ! (k div 512)) ! (k mod 512)) [0..<n]"

lemma file_content_cong:
  assumes "n \<le> 512 * length js" and "\<forall>j \<in> set js. im (unat (data_start_lba b) + j) = im' (unat (data_start_lba b) + j)"
  shows "file_content b im js n = file_content b im' js n"
  unfolding file_content_def
proof (rule map_cong)
  fix k assume "k \<in> set [0..<n]"
  then have "k div 512 < length js" using assms(1) by (simp add: div_less_iff_less_mult mult.commute)
  then show "im (unat (data_start_lba b) + js ! (k div 512)) ! (k mod 512) = im' (unat (data_start_lba b) + js ! (k div 512)) ! (k mod 512)"
    using assms(2) by simp
qed simp

lemma file_content_prefix:
  "n \<le> 512 * length js \<Longrightarrow> file_content b im (js @ ns) n = file_content b im js n"
  unfolding file_content_def by (rule map_cong) (auto simp: nth_append div_less_iff_less_mult mult.commute)

lemma appended_content:
  fixes z c :: nat
  assumes "distinct js" and "z + c \<le> 512 * length js" and "0 < c" and "c \<le> length src"
    and "\<forall>n < c. im (unat (data_start_lba b) + js ! ((z + n) div 512)) ! ((z + n) mod 512) = src ! n"
    and "\<forall>r < z mod 512. im (unat (data_start_lba b) + js ! (z div 512)) ! r = im0 (unat (data_start_lba b) + js ! (z div 512)) ! r"
    and "\<forall>l. l \<notin> (\<lambda>n. unat (data_start_lba b) + js ! n) ` block_span z c \<longrightarrow> im l = im0 l"
  shows "file_content b im js (z + c) = file_content b im0 js z @ take c src"
proof (rule nth_equalityI)
  let ?D = "unat (data_start_lba b)"
  show "length (file_content b im js (z + c)) = length (file_content b im0 js z @ take c src)"
    using assms(4) by (simp add: file_content_def)
  fix k assume "k < length (file_content b im js (z + c))"
  then have k: "k < z + c" by (simp add: file_content_def)
  have at: "file_content b im js (z + c) ! k = im (?D + js ! (k div 512)) ! (k mod 512)"
    using k by (simp add: file_content_def)
  show "file_content b im js (z + c) ! k = (file_content b im0 js z @ take c src) ! k"
  proof (cases "k < z")
    case True
    have "im (?D + js ! (k div 512)) ! (k mod 512) = im0 (?D + js ! (k div 512)) ! (k mod 512)"
    proof (cases "k div 512 = z div 512")
      case same: True
      have "k mod 512 < z mod 512"
        using True same mult_div_mod_eq [of 512 k] mult_div_mod_eq [of 512 z] by linarith
      then show ?thesis using assms(6) same by simp
    next
      case False
      then have lt: "k div 512 < z div 512" using True div_le_mono [of k z 512] by simp
      have "?D + js ! (k div 512) \<noteq> ?D + js ! n" if "n \<in> block_span z c" for n
      proof -
        have n: "z div 512 \<le> n" "512 * n < z + c" using that by (simp_all add: block_span_def)
        then have "n < length js" using assms(2) by linarith
        then show ?thesis using lt n(1) assms(1) by (simp add: nth_eq_iff_index_eq)
      qed
      then have "?D + js ! (k div 512) \<notin> (\<lambda>n. ?D + js ! n) ` block_span z c" by auto
      then show ?thesis using assms(7) by simp
    qed
    then show ?thesis using True at by (simp add: file_content_def nth_append)
  next
    case False
    then have "k - z < c" using k by linarith
    then show ?thesis using False at assms(4,5) by (auto simp: file_content_def nth_append dest!: spec [of _ "k - z"])
  qed
qed

lemma blocks_for_write:
  assumes "part_ok p hdd b x s" and "layout_ok b x" and "inodes s a = Some i" and "file_blocks b x i js"
    and "used (block_bitmap x) 0" and "unat (i_size i) + unat count < 6144"
    and "0 < count" and "(unat (i_size i) + unat count) div 512 + 1 - length js \<le> card (free_blocks x)"
  shows "\<exists>s3 bl ns x' i' s'. first_block p a s = Inr (True, s3) \<and>
           gather_blocks p hdd a (i_size i div 512 + 1) ((i_size i + count) div 512 + 1) s3 = Inr (Some bl, s') \<and>
           grown p hdd b a (length js) ns (x, i, s) (x', i', s') \<and> has_blocks b x' i' (js @ ns) \<and>
           length (js @ ns) = (unat (i_size i) + unat count) div 512 + 1 \<and> length bl = 140 \<and>
           (\<forall>n \<in> block_span (unat (i_size i)) (unat count). n < length (js @ ns) \<and> bl ! n = block_lba b ((js @ ns) ! n))"
proof -
  let ?z = "unat (i_size i)" and ?c = "unat count"
  define w where "w = (?z + ?c) div 512 + 1"
  let ?has = "i_size i div 512 + 1" and ?will = "(i_size i + count) div 512 + 1"
  have c: "0 < ?c" using assms(7) by (simp add: unat_gt_0)
  have sum: "unat (i_size i + count) = ?z + ?c" using assms(6) by (simp add: unat_word_ariths)
  have zc: "(?z + ?c) div 512 < 12" "?z div 512 \<le> (?z + ?c) div 512" using assms(6) by (simp_all add: less_mult_imp_div_less div_le_mono)
  have has: "unat ?has = ?z div 512 + 1" and will: "unat ?will = w"
    using zc sum by (simp_all add: unat_word_ariths unat_div w_def)
  have js: "js \<noteq> [] \<Longrightarrow> length js = ?z div 512 + 1" "js = [] \<Longrightarrow> ?z = 0" and hb: "has_blocks b x i js"
    using assms(4) by (auto simp: file_blocks_def)
  have "js = [] \<longrightarrow> free_blocks x \<noteq> {}" using assms(8) by auto
  from first_block_ok [OF assms(1-5) this] obtain n1 x1 i1 s3 where
    f1: "first_block p a s = Inr (True, s3)" "length n1 = (if js = [] then 1 else 0)"
    "grown p hdd b a (length js) n1 (x, i, s) (x1, i1, s3)" by blast
  have len1: "length (js @ n1) = ?z div 512 + 1" using f1(2) js by auto
  have hb1: "has_blocks b x1 i1 (js @ n1)"
    using has_blocks_grown [OF f1(3) hb] len1 zc by simp
  have g1: "part_ok p hdd b x1 s3" "layout_ok b x1" "inodes s3 a = Some i1" "distinct n1" "set n1 \<subseteq> free_blocks x"
    "free_blocks x1 = free_blocks x - set n1" using f1(3) by (auto simp: grown_def)
  have card: "unat ?will - length (js @ n1) \<le> card (free_blocks x1)"
    using assms(8) g1(4-6) by (simp add: will w_def card_Diff_subset distinct_card)
  have bnd: "0 < length (js @ n1)" "length (js @ n1) \<le> unat ?will" "unat ?will \<le> 12"
    unfolding len1 will w_def using zc by simp_all
  have eq1: "unat ?has = length (js @ n1)" unfolding len1 has ..
  from gather_blocks_ok [OF g1(1-3) hb1 eq1 bnd card] obtain bl n2 x2 i2 s4 where
    f2: "gather_blocks p hdd a ?has ?will s3 = Inr (Some bl, s4)" "length n2 = unat ?will - length (js @ n1)"
    "grown p hdd b a (length (js @ n1)) n2 (x1, i1, s3) (x2, i2, s4)" "length bl = 140"
    "\<forall>n. length (js @ n1) \<le> n + 1 \<longrightarrow> n < unat ?will \<longrightarrow> bl ! n = block_lba b (((js @ n1) @ n2) ! n)" by blast
  have len2: "length (js @ (n1 @ n2)) = w" using f2(2) bnd(2) will by simp
  have "length js + length n1 + length n2 \<le> length (i_sectors i)"
    using len2 bnd(3) will hb by (simp add: has_blocks_def)
  then have "grown p hdd b a (length js) (n1 @ n2) (x, i, s) (x2, i2, s4)"
    using grown_trans [OF f1(3)] f2(3) by simp
  moreover have "has_blocks b x2 i2 (js @ (n1 @ n2))"
    using has_blocks_grown [OF f2(3) hb1] len2 bnd(3) will by simp
  moreover have "n < w \<and> bl ! n = block_lba b ((js @ (n1 @ n2)) ! n)" if "n \<in> block_span ?z ?c" for n
  proof -
    have n: "?z div 512 \<le> n" "512 * n < ?z + ?c" using that by (simp_all add: block_span_def)
    have "n < w" using n(2) div_le_mono [of "512 * n" "?z + ?c" 512] by (simp add: w_def)
    then show ?thesis using f2(5) n(1) len1 will by simp
  qed
  ultimately show ?thesis using f1(1) f2(1,4) len2 unfolding w_def by (intro exI conjI ballI) auto
qed

lemma write_contents:
  assumes "part_ok p hdd b x s" and "layout_ok b x" and "fd < length (file_table s)" and "file_table s ! fd = f" and "fd_inode f = a"
    and "inodes s a = Some i" and "has_blocks b x i js" and "length js = (unat (i_size i) + unat count) div 512 + 1"
    and "length io_buf = 512" and "length bl = 140" and "0 < count" and "unat count \<le> length src"
    and "unat (i_size i) + unat count < 6144"
    and "\<forall>n \<in> block_span (unat (i_size i)) (unat count). n < length js \<and> bl ! n = block_lba b (js ! n)"
  shows "\<exists>b' f' s'. write_loop hdd fd bl src count True 0 io_buf s = Inr ((b', count), s') \<and>
           part_ok p hdd b x s' \<and> length b' = 512 \<and> fd_inode f' = a \<and> file_table s' = (file_table s)[fd := f'] \<and>
           inodes s' = (inodes s)(a \<mapsto> i\<lparr>i_size := i_size i + count\<rparr>) \<and> but_table s s' \<and>
           file_content b (disk_of hdd s') js (unat (i_size i) + unat count) =
             file_content b (disk_of hdd s) js (unat (i_size i)) @ take (unat count) src \<and>
           (\<forall>l. l \<notin> (\<lambda>j. unat (data_start_lba b) + j) ` set js \<longrightarrow> disk_of hdd s' l = disk_of hdd s l)"
proof -
  let ?z = "unat (i_size i)" and ?c = "unat count" and ?D = "unat (data_start_lba b)"
  let ?span = "block_span ?z ?c"
  have c: "0 < ?c" using assms(11) by (simp add: unat_gt_0)
  have d: "distinct js" "\<forall>j \<in> set js. j < 2048" using assms(7) by (auto simp: has_blocks_def)
  have L: "unat (bl ! n) = ?D + js ! n" "n < length js" "js ! n < 2048" if "n \<in> ?span" for n
  proof -
    show n: "n < length js" using assms(14) that by blast
    then show "js ! n < 2048" using d(2) by simp
    then show "unat (bl ! n) = ?D + js ! n" using assms(14) that unat_block_lba [OF assms(2)] by simp
  qed
  have inj: "inj_on (\<lambda>n. unat (bl ! n)) ?span" using L d(1) by (auto intro!: inj_onI simp: nth_eq_iff_index_eq)
  have bnd: "\<forall>n \<in> ?span. unat (bl ! n) + 1 \<le> 2 ^ 28"
  proof
    fix n assume "n \<in> ?span"
    then show "unat (bl ! n) + 1 \<le> 2 ^ 28" using L(1,3) [of n] assms(2) unfolding layout_ok_def by linarith
  qed
  have img: "(\<lambda>n. unat (bl ! n)) ` ?span = (\<lambda>n. ?D + js ! n) ` ?span" by (rule image_cong) (use L in auto)
  have left: "?c - unat 0 = ?c" by simp
  have "0 \<le> count" "?z + (?c - unat 0) \<le> 71680" using assms(13) by simp_all
  from write_loop_ok [where first = True, OF assms(1,3-6,9,10) this(1) assms(12) this(2), unfolded left, OF _ inj bnd] obtain b' f' s' im where
    w: "write_loop hdd fd bl src count True 0 io_buf s = Inr ((b', count), s')" "part_ok p hdd b x s'" "disk_of hdd s' = im"
    "length b' = 512" "fd_inode f' = a" "file_table s' = (file_table s)[fd := f']"
    "inodes s' = (inodes s)(a \<mapsto> i\<lparr>i_size := i_size i + (count - 0)\<rparr>)" "but_table s s'"
    "\<forall>n < ?c. im (unat (bl ! ((?z + n) div 512))) ! ((?z + n) mod 512) = src ! (unat (0 :: u32) + n)"
    "True \<longrightarrow> 0 < count \<longrightarrow> (\<forall>r < ?z mod 512. im (unat (bl ! (?z div 512))) ! r = disk_of hdd s (unat (bl ! (?z div 512))) ! r)"
    "\<forall>l. l \<notin> (\<lambda>n. unat (bl ! n)) ` ?span \<longrightarrow> im l = disk_of hdd s l" by blast
  have span: "(?z + n) div 512 \<in> ?span" if "n < ?c" for n
  proof -
    have "512 * ((?z + n) div 512) \<le> ?z + n" by simp
    then show ?thesis using that div_le_mono [of ?z "?z + n" 512] by (simp add: block_span_def)
  qed
  have fit: "?z + ?c \<le> 512 * length js" unfolding assms(8) by (simp add: dividend_less_times_div less_imp_le)
  have p: "\<forall>n < ?c. im (?D + js ! ((?z + n) div 512)) ! ((?z + n) mod 512) = src ! n"
    using w(9) L(1) [OF span] by simp
  have q: "\<forall>r < ?z mod 512. im (?D + js ! (?z div 512)) ! r = disk_of hdd s (?D + js ! (?z div 512)) ! r"
    using w(10) assms(11) L(1) [OF span [OF c]] by simp
  have r: "\<forall>l. l \<notin> (\<lambda>n. ?D + js ! n) ` ?span \<longrightarrow> im l = disk_of hdd s l" using w(11) unfolding img .
  have "\<forall>l. l \<notin> (\<lambda>j. ?D + j) ` set js \<longrightarrow> im l = disk_of hdd s l" using r L(2) by (auto simp: image_iff)
  then have rest: "\<forall>l. l \<notin> (\<lambda>j. ?D + j) ` set js \<longrightarrow> disk_of hdd s' l = disk_of hdd s l" using w(3) by simp
  have content: "file_content b (disk_of hdd s') js (?z + ?c) = file_content b (disk_of hdd s) js ?z @ take ?c src"
    using appended_content [OF d(1) fit c assms(12) p q r] w(3) by simp
  have "inodes s' = (inodes s)(a \<mapsto> i\<lparr>i_size := i_size i + count\<rparr>)" using w(7) by simp
  then show ?thesis using w(1,2,4-6,8) content rest by blast
qed

lemma inode_at_cong:
  assumes "\<forall>k \<in> {unat (inode_table_lba b)..<unat (inode_table_lba b) + 608}. im k = im' k" and "n < 4096"
  shows "inode_at im b n = inode_at im' b n"
  unfolding inode_at_def disk_bytes_def
proof (rule map_cong)
  fix k assume "k \<in> set [76 * n..<76 * n + 76]"
  then have "k < 512 * 608" using assms(2) by simp
  then have "k div 512 < 608" by (simp add: div_less_iff_less_mult)
  then show "disk_byte im (unat (inode_table_lba b)) k = disk_byte im' (unat (inode_table_lba b)) k"
    using assms(1) by (simp add: disk_byte_def)
qed simp

section \<open>Appending to a file\<close>

text \<open>A file of the mounted partition, open at the entry \<open>fd\<close> of the system's table, with the
  blocks \<open>js\<close>.  The first block of the partition is the root directory's.\<close>

definition open_file_ok :: "part_ptr \<Rightarrow> disk_ptr \<Rightarrow> super_block \<Rightarrow> partition \<Rightarrow> nat \<Rightarrow> u32 \<Rightarrow> inode \<Rightarrow> nat list \<Rightarrow>
    'z fstate_scheme \<Rightarrow> bool" where
  "open_file_ok p hdd b x fd a i js s \<longleftrightarrow>
     part_ok p hdd b x s \<and> layout_ok b x \<and> cur_part s = Some p \<and> used (block_bitmap x) 0 \<and>
     fd < length (file_table s) \<and> fd_inode (file_table s ! fd) = a \<and> inodes s a = Some i \<and> unat (i_no i) < 4096 \<and>
     file_blocks b x i js"


text \<open>The run of \<open>file_write\<close> up to the synchronisation of the inode: blocks, then data.\<close>

lemma file_write_to_sync:
  assumes "open_file_ok p hdd b x fd a i js s"
    and "0 < count" and "unat count \<le> length src" and "unat (i_size i) + unat count < 6144"
    and "(unat (i_size i) + unat count) div 512 + 1 - length js \<le> card (free_blocks x)"
    and "malloc_at s (malloc_no s) \<noteq> 0" and "malloc_at s (Suc (malloc_no s)) \<noteq> 0"
  shows "\<exists>x' i1 i' ns s4 s5 b'.
           file_write fd src count s = bindE (inode_sync p a b' s5) (\<lambda>(b1, s6). Inr (count, free_object (free_object s6))) \<and>
           length b' = 512 \<and> open_file_ok p hdd b x' fd a i' (js @ ns) s5 \<and>
           i' = i1\<lparr>i_size := i_size i + count\<rparr> \<and> unat (i_size i') = unat (i_size i) + unat count \<and> i_no i' = i_no i \<and>
           length (js @ ns) = (unat (i_size i) + unat count) div 512 + 1 \<and>
           grown p hdd b a (length js) ns (x, i, s\<lparr>malloc_no := Suc (Suc (malloc_no s)), live := Suc (Suc (live s))\<rparr>) (x', i1, s4) \<and>
           file_content b (disk_of hdd s5) (js @ ns) (unat (i_size i')) =
             file_content b (disk_of hdd s4) (js @ ns) (unat (i_size i)) @ take (unat count) src \<and>
           (\<forall>l. l \<notin> (\<lambda>j. unat (data_start_lba b) + j) ` set (js @ ns) \<longrightarrow> disk_of hdd s5 l = disk_of hdd s4 l) \<and>
           inodes s5 = (inodes s)(a \<mapsto> i') \<and> live s5 = Suc (Suc (live s)) \<and> sync_frame s s5 \<and> tasks s5 = tasks s"
proof -
  let ?z = "unat (i_size i)" and ?c = "unat count" and ?D = "unat (data_start_lba b)" and ?no = "unat (i_no i)"
  define f where "f = file_table s ! fd"
  have o: "part_ok p hdd b x s" "layout_ok b x" "cur_part s = Some p" "used (block_bitmap x) 0"
    "fd < length (file_table s)" "fd_inode f = a" "inodes s a = Some i" "?no < 4096" "file_blocks b x i js"
    using assms(1) by (simp_all add: open_file_ok_def f_def)
  let ?s1 = "s\<lparr>malloc_no := Suc (malloc_no s), live := Suc (live s)\<rparr>"
  let ?s2 = "s\<lparr>malloc_no := Suc (Suc (malloc_no s)), live := Suc (Suc (live s))\<rparr>"
  have bufs: "new_buffer 512 s = (Some (replicate 512 0), ?s1)" "new_buffer (512 + 48) ?s1 = (Some (replicate (512 + 48) 0), ?s2)"
    using new_buffer_ok [OF assms(6), of 512] new_buffer_ok [of ?s1 "512 + 48"] assms(7) by simp_all
  have ok2: "part_ok p hdd b x ?s2" using o(1) by (simp add: part_ok_def)
  have i2: "inodes ?s2 a = Some i" using o(7) by simp
  obtain s3 bl ns x' i' s4 where
    g: "first_block p a ?s2 = Inr (True, s3)"
    "gather_blocks p hdd a (i_size i div 512 + 1) ((i_size i + count) div 512 + 1) s3 = Inr (Some bl, s4)"
    "grown p hdd b a (length js) ns (x, i, ?s2) (x', i', s4)" "has_blocks b x' i' (js @ ns)"
    "length (js @ ns) = (?z + ?c) div 512 + 1" "length bl = 140"
    "\<forall>n \<in> block_span ?z ?c. n < length (js @ ns) \<and> bl ! n = block_lba b ((js @ ns) ! n)"
    using blocks_for_write [OF ok2 o(2) i2 o(9,4) assms(4,2,5)] by blast
  have g': "part_ok p hdd b x' s4" "layout_ok b x'" "set ns \<subseteq> free_blocks x" "free_blocks x' = free_blocks x - set ns"
    "used (block_bitmap x') 0" "i_size i' = i_size i" "i_no i' = i_no i" "inodes s4 = (inodes s)(a \<mapsto> i')"
    "\<forall>n. n \<notin> bitmap_region b \<longrightarrow> disk_of hdd s4 n = disk_of hdd s n" "fs_frame ?s2 s4"
    using g(3) o(4) by (simp_all add: grown_def)
  have fr: "file_table s4 = file_table s" "cur_part s4 = cur_part s" "live s4 = Suc (Suc (live s))"
    using g'(10) by (simp_all add: fs_frame_def)
  define f1 where "f1 = f\<lparr>fd_pos := i_size i - 1\<rparr>"
  let ?t = "set_file fd f1 s4"
  have t: "part_ok p hdd b x' ?t" "fd < length (file_table ?t)" "file_table ?t ! fd = f1" "fd_inode f1 = a" "inodes ?t a = Some i'"
    using g'(1,8) fr o(5,6) by (simp_all add: f1_def)
  obtain b' f' s5 where w: "write_loop hdd fd bl src count True 0 (replicate 512 0) ?t = Inr ((b', count), s5)"
    "part_ok p hdd b x' s5" "length b' = 512" "fd_inode f' = a" "file_table s5 = (file_table s)[fd := f']"
    "inodes s5 = (inodes s)(a \<mapsto> i'\<lparr>i_size := i_size i + count\<rparr>)" "but_table ?t s5"
    "file_content b (disk_of hdd s5) (js @ ns) (?z + ?c) = file_content b (disk_of hdd s4) (js @ ns) ?z @ take ?c src"
    "\<forall>l. l \<notin> (\<lambda>j. ?D + j) ` set (js @ ns) \<longrightarrow> disk_of hdd s5 l = disk_of hdd s4 l"
    using write_contents [OF t(1) g'(2) t(2-5) g(4) _ _ g(6) assms(2,3), of "replicate 512 0"] g(5,7) assms(4) g'(6,8) fr(1)
    by auto
  define i6 where "i6 = i'\<lparr>i_size := i_size i + count\<rparr>"
  have i6: "unat (i_size i6) = ?z + ?c" "i_no i6 = i_no i" "inodes s5 a = Some i6" "has_blocks b x' i6 (js @ ns)" "length (i_sectors i6) = 13"
    using assms(4) g'(7) w(6) g(4) by (simp_all add: i6_def unat_word_ariths has_blocks_def)
  have "i_size i + count \<le> 512 * 140" "(i_size i + count) div 512 + 1 \<le> 140"
    using assms(4) by (simp_all add: word_le_nat_alt unat_word_ariths unat_div)
  then have run: "file_write fd src count s = bindE (inode_sync p a b' s5) (\<lambda>(b1, s6). Inr (count, free_object (free_object s6)))"
    using o(1,3,5,6,7) bufs g(1,2) w(1) f_def
    by (simp add: file_write_def get_file_def get_inode_def part_disk_def part_ok_def Let_def f1_def not_less [symmetric])
  have fin: "inodes s5 = (inodes s)(a \<mapsto> i6)" "live s5 = Suc (Suc (live s))" "cur_part s5 = Some p"
    using w(6,7) fr o(3) by (simp_all add: i6_def but_table_def fs_frame_def set_file_def)
  have "open_file_ok p hdd b x' fd a i6 (js @ ns) s5"
    using w(2,4,5) g'(2,5) fin o(5,8) i6 g(5) by (simp add: open_file_ok_def file_blocks_def)
  moreover have "file_content b (disk_of hdd s5) (js @ ns) (unat (i_size i6)) = file_content b (disk_of hdd s4) (js @ ns) ?z @ take ?c src"
    using w(8) i6(1) by simp
  moreover have "sync_frame s s5"
  proof -
    have "sync_frame s ?s2" by simp
    also have "sync_frame ?s2 s4" by (rule fs_frame_sync [OF g'(10)])
    also have "sync_frame s4 ?t" by (simp add: set_file_def)
    also have "sync_frame ?t (?t\<lparr>file_table := file_table s5\<rparr>)" by simp
    also have "sync_frame (?t\<lparr>file_table := file_table s5\<rparr>) s5"
      using w(7) unfolding but_table_def by (rule fs_frame_sync)
    finally show ?thesis .
  qed
  moreover have "tasks s5 = tasks s" using w(7) g'(10) by (simp add: but_table_def fs_frame_def set_file_def)
  ultimately show ?thesis using run g(3,5) i6_def i6(1,2) w(3,9) fin(1,2)
    by (intro exI [of _ x'] exI [of _ i'] exI [of _ i6] exI [of _ ns] exI [of _ s4] exI [of _ s5] exI [of _ b'] conjI) assumption+
qed

text \<open>The whole run, for an inode that lies in one sector.\<close>

lemma file_write_run:
  assumes "open_file_ok p hdd b x fd a i js s" and "\<not> straddles (unat (i_no i))"
    and "0 < count" and "unat count \<le> length src" and "unat (i_size i) + unat count < 6144"
    and "(unat (i_size i) + unat count) div 512 + 1 - length js \<le> card (free_blocks x)"
    and "malloc_at s (malloc_no s) \<noteq> 0" and "malloc_at s (Suc (malloc_no s)) \<noteq> 0"
  shows "\<exists>x' i1 i' ns s4 im5 s'. file_write fd src count s = Inr (count, s') \<and> open_file_ok p hdd b x' fd a i' (js @ ns) s' \<and>
           i' = i1\<lparr>i_size := i_size i + count\<rparr> \<and> unat (i_size i') = unat (i_size i) + unat count \<and> i_no i' = i_no i \<and>
           length (js @ ns) = (unat (i_size i) + unat count) div 512 + 1 \<and>
           grown p hdd b a (length js) ns (x, i, s\<lparr>malloc_no := Suc (Suc (malloc_no s)), live := Suc (Suc (live s))\<rparr>) (x', i1, s4) \<and>
           file_content b im5 (js @ ns) (unat (i_size i')) =
             file_content b (disk_of hdd s4) (js @ ns) (unat (i_size i)) @ take (unat count) src \<and>
           (\<forall>l. l \<notin> (\<lambda>j. unat (data_start_lba b) + j) ` set (js @ ns) \<longrightarrow> im5 l = disk_of hdd s4 l) \<and>
           stored b (unat (i_no i)) (inode_bytes (i'\<lparr>i_open_cnts := 0, write_deny := 0\<rparr>)) im5 (disk_of hdd s') \<and>
           inodes s' = (inodes s)(a \<mapsto> i') \<and> live s' = live s \<and> sync_frame s s' \<and> tasks s' = tasks s"
proof -
  let ?z = "unat (i_size i)" and ?no = "unat (i_no i)"
  obtain x' i1 i' ns s4 s5 b' where w:
    "file_write fd src count s = bindE (inode_sync p a b' s5) (\<lambda>(b1, s6). Inr (count, free_object (free_object s6)))"
    "length b' = 512" "open_file_ok p hdd b x' fd a i' (js @ ns) s5"
    "i' = i1\<lparr>i_size := i_size i + count\<rparr>" "unat (i_size i') = ?z + unat count" "i_no i' = i_no i"
    "length (js @ ns) = (?z + unat count) div 512 + 1"
    "grown p hdd b a (length js) ns (x, i, s\<lparr>malloc_no := Suc (Suc (malloc_no s)), live := Suc (Suc (live s))\<rparr>) (x', i1, s4)"
    "file_content b (disk_of hdd s5) (js @ ns) (unat (i_size i')) = file_content b (disk_of hdd s4) (js @ ns) ?z @ take (unat count) src"
    "\<forall>l. l \<notin> (\<lambda>j. unat (data_start_lba b) + j) ` set (js @ ns) \<longrightarrow> disk_of hdd s5 l = disk_of hdd s4 l"
    "inodes s5 = (inodes s)(a \<mapsto> i')" "live s5 = Suc (Suc (live s))" "sync_frame s s5" "tasks s5 = tasks s"
    using file_write_to_sync [OF assms(1,3-8)] by blast
  have o: "part_ok p hdd b x' s5" "layout_ok b x'" "inodes s5 a = Some i'" "length (i_sectors i') = 13" "unat (i_no i') < 4096"
    using w(3) by (simp_all add: open_file_ok_def file_blocks_def has_blocks_def)
  have room: "512 * (if straddles (unat (i_no i')) then 2 else 1) \<le> length b'" using assms(2) w(2,6) by simp
  obtain b6 s6 im where y: "inode_sync p a b' s5 = Inr (b6, s6)" "io hdd im s5 s6"
    "stored b ?no (inode_bytes (i'\<lparr>i_open_cnts := 0, write_deny := 0\<rparr>)) (disk_of hdd s5) im"
    using inode_sync_ok [OF o(1) layout_table_fits [OF o(2)] o(3-5) room] unfolding w(6) by blast
  let ?s = "free_object (free_object s6)"
  have disk: "disk_of hdd ?s = im" using io_disk [OF y(2)] by simp
  have "part_ok p hdd b x' s6" using part_ok_io [OF o(1) y(2)] y(3) by (simp add: stored_def)
  then have "open_file_ok p hdd b x' fd a i' (js @ ns) ?s"
    using w(3) io_fstate [OF y(2)] by (simp add: open_file_ok_def part_ok_def) (simp add: free_object_def)
  moreover have "stored b ?no (inode_bytes (i'\<lparr>i_open_cnts := 0, write_deny := 0\<rparr>)) (disk_of hdd s5) (disk_of hdd ?s)"
    using y(3) disk by simp
  moreover have "inodes ?s = (inodes s)(a \<mapsto> i')" "live ?s = live s" "tasks ?s = tasks s"
    using w(11,12,14) io_fstate(1) [OF y(2)] io_frame(4,8) [OF y(2)] by (simp_all add: free_object_def)
  moreover have "file_write fd src count s = Inr (count, ?s)" using w(1) y(1) by simp
  moreover have "sync_frame s ?s"
  proof -
    have "sync_frame s s6" by (rule sync_frame_trans [OF w(13) sync_frame_io [OF y(2)]])
    also have "sync_frame s6 (free_object s6)" by simp
    also have "sync_frame (free_object s6) ?s" by simp
    finally show ?thesis .
  qed
  ultimately show ?thesis using w(4-10)
    by (intro exI [of _ x'] exI [of _ i1] exI [of _ i'] exI [of _ ns] exI [of _ s4] exI [of _ "disk_of hdd s5"] exI [of _ ?s] conjI) assumption+
qed

text \<open>A file of 510 bytes in block 2, with the given inode number, open at the entry 3.\<close>

definition demo_inode :: "u32 \<Rightarrow> inode" where
  "demo_inode no = \<lparr>i_no = no, i_size = 510, i_open_cnts = 1, write_deny = 1, i_sectors = 678 # replicate 12 0\<rparr>"

definition demo_open :: "u32 \<Rightarrow> fstate" where
  "demo_open no = set_file 3 \<lparr>fd_pos = 0, fd_flag = 2, fd_inode = 0x1000\<rparr>
     (demo_fs (\<lambda>_ _ _. replicate 512 0xaa) [0x1000 \<mapsto> demo_inode no])"

lemma demo_open_ok:
  assumes "unat no < 4096"
  shows "open_file_ok ((0, 1), 0) (0, 1) demo_sb demo_part 3 0x1000 (demo_inode no) [2] (demo_open no)"
proof -
  have "part_ok ((0, 1), 0) (0, 1) demo_sb demo_part (demo_fs (\<lambda>_ _ _. replicate 512 0xaa) [0x1000 \<mapsto> demo_inode no])"
    by (rule demo_fs_ok) simp
  moreover have "layout_ok demo_sb demo_part" by (simp add: layout_ok_def demo_sb_def demo_part_def)
  moreover have "used (block_bitmap demo_part) 0" "used (block_bitmap demo_part) 2" "nbits (block_bitmap demo_part) = 8192"
    by (simp_all add: used_def nbits_def demo_part_def)
  moreover have "file_blocks demo_sb demo_part (demo_inode no) [2]"
    using calculation(4,5) by (simp add: file_blocks_def has_blocks_def block_lba_def demo_sb_def demo_inode_def nth_Cons')
  moreover have "unat (i_no (demo_inode no)) < 4096" using assms by (simp add: demo_inode_def)
  ultimately show ?thesis by (simp add: open_file_ok_def demo_open_def) (simp add: set_file_def)
qed

lemma demo_write_room:
  "(0 :: u32) < 4" "unat (4 :: u32) \<le> length [1, 2, 3, 4 :: u8]"
  "unat (i_size (demo_inode no)) + unat (4 :: u32) < 6144"
  "(unat (i_size (demo_inode no)) + unat (4 :: u32)) div 512 + 1 - length [2 :: nat] \<le> card (free_blocks demo_part)"
  "malloc_at (demo_open no) (malloc_no (demo_open no)) \<noteq> 0" "malloc_at (demo_open no) (Suc (malloc_no (demo_open no))) \<noteq> 0"
proof -
  have "1 \<in> free_blocks demo_part" by (simp add: free_blocks_def used_def nbits_def demo_part_def)
  then have "1 \<le> card (free_blocks demo_part)" using card_gt_0_iff [of "free_blocks demo_part"] by auto
  then show "(unat (i_size (demo_inode no)) + unat (4 :: u32)) div 512 + 1 - length [2 :: nat] \<le> card (free_blocks demo_part)"
    by (simp add: demo_inode_def)
qed (simp_all add: demo_inode_def demo_open_def set_file_def)

lemma file_write_ok:
  assumes "open_file_ok p hdd b x fd a i js s" and "\<not> straddles (unat (i_no i))"
    and "0 < count" and "unat count \<le> length src" and "unat (i_size i) + unat count < 6144"
    and "(unat (i_size i) + unat count) div 512 + 1 - length js \<le> card (free_blocks x)"
    and "malloc_at s (malloc_no s) \<noteq> 0" and "malloc_at s (Suc (malloc_no s)) \<noteq> 0"
  shows "\<exists>x' i' ns s'. file_write fd src count s = Inr (count, s') \<and> open_file_ok p hdd b x' fd a i' (js @ ns) s' \<and>
           unat (i_size i') = unat (i_size i) + unat count \<and> i_no i' = i_no i \<and>
           file_content b (disk_of hdd s') (js @ ns) (unat (i_size i')) =
             file_content b (disk_of hdd s) js (unat (i_size i)) @ take (unat count) src \<and>
           set ns \<subseteq> free_blocks x \<and> free_blocks x' = free_blocks x - set ns \<and>
           inode_at (disk_of hdd s') b (unat (i_no i)) = inode_bytes (i'\<lparr>i_open_cnts := 0, write_deny := 0\<rparr>) \<and>
           (\<forall>n < 4096. n \<noteq> unat (i_no i) \<longrightarrow> inode_at (disk_of hdd s') b n = inode_at (disk_of hdd s) b n) \<and>
           (\<forall>j. j \<notin> set (js @ ns) \<longrightarrow> disk_of hdd s' (unat (data_start_lba b) + j) = disk_of hdd s (unat (data_start_lba b) + j)) \<and>
           inodes s' = (inodes s)(a \<mapsto> i') \<and> live s' = live s \<and> sync_frame s s' \<and> tasks s' = tasks s"
proof -
  let ?z = "unat (i_size i)" and ?c = "unat count" and ?D = "unat (data_start_lba b)" and ?no = "unat (i_no i)"
  let ?I = "{unat (inode_table_lba b)..<unat (inode_table_lba b) + 608}"
  have o: "layout_ok b x" "file_blocks b x i js" using assms(1) by (simp_all add: open_file_ok_def)
  obtain x' i1 i' ns s4 im5 s' where r: "file_write fd src count s = Inr (count, s')" "open_file_ok p hdd b x' fd a i' (js @ ns) s'"
    "unat (i_size i') = ?z + ?c" "i_no i' = i_no i" "length (js @ ns) = (?z + ?c) div 512 + 1"
    "grown p hdd b a (length js) ns (x, i, s\<lparr>malloc_no := Suc (Suc (malloc_no s)), live := Suc (Suc (live s))\<rparr>) (x', i1, s4)"
    "file_content b im5 (js @ ns) (unat (i_size i')) = file_content b (disk_of hdd s4) (js @ ns) ?z @ take ?c src"
    "\<forall>l. l \<notin> (\<lambda>j. ?D + j) ` set (js @ ns) \<longrightarrow> im5 l = disk_of hdd s4 l"
    "stored b ?no (inode_bytes (i'\<lparr>i_open_cnts := 0, write_deny := 0\<rparr>)) im5 (disk_of hdd s')"
    "inodes s' = (inodes s)(a \<mapsto> i')" "live s' = live s" "sync_frame s s'" "tasks s' = tasks s"
    using file_write_run [OF assms] by blast
  have g: "\<forall>n. n \<notin> bitmap_region b \<longrightarrow> disk_of hdd s4 n = disk_of hdd s n" "set ns \<subseteq> free_blocks x" "free_blocks x' = free_blocks x - set ns"
    using r(6) by (simp_all add: grown_def)
  have lay: "?D + j \<notin> ?I" "?D + j \<notin> bitmap_region b" "k \<in> ?I \<Longrightarrow> k \<notin> bitmap_region b \<and> k \<noteq> ?D + j" for j k
    using o(1) by (auto simp: layout_ok_def bitmap_region_def)
  have data: "disk_of hdd s' (?D + j) = im5 (?D + j)" "disk_of hdd s4 (?D + j) = disk_of hdd s (?D + j)" for j
  proof -
    have "unat (inode_table_lba b) + 608 \<le> ?D + j" using o(1) by (simp add: layout_ok_def)
    then show "disk_of hdd s' (?D + j) = im5 (?D + j)" using r(9) unfolding stored_def by blast
  qed (use lay(2) g(1) in blast)
  have size: "?z \<le> 512 * length js"
    using o(2) by (auto simp: file_blocks_def dividend_less_times_div less_imp_le)
  have "?z + ?c \<le> 512 * length (js @ ns)" unfolding r(5) by (simp add: dividend_less_times_div less_imp_le)
  then have "file_content b (disk_of hdd s') (js @ ns) (?z + ?c) = file_content b im5 (js @ ns) (?z + ?c)"
    using data(1) by (intro file_content_cong) auto
  also have "\<dots> = file_content b (disk_of hdd s4) js ?z @ take ?c src"
    unfolding r(7) [unfolded r(3)] file_content_prefix [OF size] ..
  also have "file_content b (disk_of hdd s4) js ?z = file_content b (disk_of hdd s) js ?z"
    using data(2) size by (intro file_content_cong) auto
  finally have content: "file_content b (disk_of hdd s') (js @ ns) (unat (i_size i')) = file_content b (disk_of hdd s) js ?z @ take ?c src"
    unfolding r(3) .
  have ino: "inode_at (disk_of hdd s') b n = inode_at (disk_of hdd s) b n" if "n < 4096" "n \<noteq> ?no" for n
  proof -
    have "\<forall>k \<in> ?I. im5 k = disk_of hdd s k" using r(8) g(1) lay(3) by fastforce
    then have "inode_at im5 b n = inode_at (disk_of hdd s) b n" by (rule inode_at_cong [OF _ that(1)])
    then show ?thesis using r(9) that by (simp add: stored_def)
  qed
  have other: "disk_of hdd s' (?D + j) = disk_of hdd s (?D + j)" if "j \<notin> set (js @ ns)" for j
  proof -
    have "?D + j \<notin> (\<lambda>j. ?D + j) ` set (js @ ns)" using that by auto
    then have "im5 (?D + j) = disk_of hdd s4 (?D + j)" using r(8) by blast
    then show ?thesis using data [of j] by simp
  qed
  have "inode_at (disk_of hdd s') b ?no = inode_bytes (i'\<lparr>i_open_cnts := 0, write_deny := 0\<rparr>)"
    using r(9) by (simp add: stored_def)
  then show ?thesis using r(1-4,10-13) content g(2,3) ino other by blast
qed

text \<open>C7: writing appends.  On a file that is open, whose inode does not straddle two sectors of the
  inode table (\<open>\<not> straddles\<close>: all but 18 of every 128 inode numbers; the others are the subject of
  the overrun proved below) and that stays within its twelve direct blocks, with
  enough free blocks and room for the two buffers, \<open>file_write\<close> returns the number of bytes asked for,
  and the bytes of the file on the disk are those it had followed by those of the source.  The
  blocks it adds were free and are marked; the inode on the disk is the one in memory; no
  other inode and no block of another file changes, and the buffers are given back.\<close>

theorem file_write_appends:
  assumes "open_file_ok p hdd b x fd a i js s" and "\<not> straddles (unat (i_no i))"
    and "0 < count" and "unat count \<le> length src" and "unat (i_size i) + unat count < 6144"
    and "(unat (i_size i) + unat count) div 512 + 1 - length js \<le> card (free_blocks x)"
    and "malloc_at s (malloc_no s) \<noteq> 0" and "malloc_at s (Suc (malloc_no s)) \<noteq> 0"
  shows "\<exists>x' i' ns s'. file_write fd src count s = Inr (count, s') \<and> open_file_ok p hdd b x' fd a i' (js @ ns) s' \<and>
           unat (i_size i') = unat (i_size i) + unat count \<and> i_no i' = i_no i \<and>
           file_content b (disk_of hdd s') (js @ ns) (unat (i_size i')) =
             file_content b (disk_of hdd s) js (unat (i_size i)) @ take (unat count) src \<and>
           set ns \<subseteq> free_blocks x \<and> free_blocks x' = free_blocks x - set ns \<and>
           inode_at (disk_of hdd s') b (unat (i_no i)) = inode_bytes (i'\<lparr>i_open_cnts := 0, write_deny := 0\<rparr>) \<and>
           (\<forall>n < 4096. n \<noteq> unat (i_no i) \<longrightarrow> inode_at (disk_of hdd s') b n = inode_at (disk_of hdd s) b n) \<and>
           (\<forall>j. j \<notin> set (js @ ns) \<longrightarrow> disk_of hdd s' (unat (data_start_lba b) + j) = disk_of hdd s (unat (data_start_lba b) + j)) \<and>
           inodes s' = (inodes s)(a \<mapsto> i') \<and> live s' = live s"
  using file_write_ok [OF assms] by blast

text \<open>Four bytes appended to 510: two fit into block 2, the others go into the free block 1.\<close>

theorem file_write_appends_witness:
  "\<exists>s' ns. file_write 3 [1, 2, 3, 4] 4 (demo_open 1) = Inr (4, s') \<and>
     file_content demo_sb (disk_of (0, 1) s') ([2] @ ns) 514 = replicate 510 0xaa @ [1, 2, 3, 4]"
proof -
  have p: "unat (1 :: u32) < 4096" "\<not> straddles (unat (i_no (demo_inode 1)))" by (simp_all add: straddles_def demo_inode_def)
  obtain i' ns s' where r: "file_write 3 [1, 2, 3, 4] 4 (demo_open 1) = Inr (4, s')"
    "unat (i_size (i' :: inode)) = unat (i_size (demo_inode 1)) + unat (4 :: u32)"
    "file_content demo_sb (disk_of (0, 1) s') ([2] @ ns) (unat (i_size i')) =
       file_content demo_sb (disk_of (0, 1) (demo_open 1)) [2] (unat (i_size (demo_inode 1))) @ take (unat (4 :: u32)) [1, 2, 3, 4]"
    using file_write_appends [OF demo_open_ok [OF p(1)] p(2) demo_write_room] by blast
  have "file_content demo_sb (\<lambda>_. replicate 512 0xaa) [2] 510 = replicate 510 0xaa"
    by (rule nth_equalityI) (simp_all add: file_content_def)
  then show ?thesis using r by (auto simp: demo_inode_def demo_open_def)
qed

text \<open>C38: the sector buffer of \<open>file_write\<close> has 512 bytes, and \<open>inode_sync\<close> reads the inode's sectors into
  it: for an inode that straddles two sectors (the numbers 6, 13, 20, 26, ...) the write overruns the
  heap object by 512 bytes, after the data are on the disk.\<close>

theorem file_write_overruns_its_buffer:
  assumes "open_file_ok p hdd b x fd a i js s" and "straddles (unat (i_no i))"
    and "0 < count" and "unat count \<le> length src" and "unat (i_size i) + unat count < 6144"
    and "(unat (i_size i) + unat count) div 512 + 1 - length js \<le> card (free_blocks x)"
    and "malloc_at s (malloc_no s) \<noteq> 0" and "malloc_at s (Suc (malloc_no s)) \<noteq> 0"
  shows "file_write fd src count s = Inl OutOfBounds"
proof -
  obtain x' i' ns s5 b' where w:
    "file_write fd src count s = bindE (inode_sync p a b' s5) (\<lambda>(b1, s6). Inr (count, free_object (free_object s6)))"
    "length b' = 512" "open_file_ok p hdd b x' fd a i' (js @ ns) s5" "i_no (i' :: inode) = i_no i"
    using file_write_to_sync [OF assms(1,3-8)] by blast
  have o: "part_ok p hdd b x' s5" "layout_ok b x'" "inodes s5 a = Some i'" "unat (i_no i') < 4096"
    using w(3) by (simp_all add: open_file_ok_def)
  have "inode_sync p a b' s5 = Inl OutOfBounds"
    by (rule inode_sync_overflow [OF o(1) layout_table_fits [OF o(2)] o(3,4)]) (use assms(2) w(2,4) in simp_all)
  then show ?thesis using w(1) by simp
qed

theorem file_write_overruns_its_buffer_witness:
  "file_write 3 [1, 2, 3, 4] 4 (demo_open 6) = Inl OutOfBounds"
proof (rule file_write_overruns_its_buffer [OF demo_open_ok _ demo_write_room])
  show "unat (6 :: u32) < 4096" "straddles (unat (i_no (demo_inode 6)))" by (simp_all add: straddles_def demo_inode_def)
qed

end
