(* ===== verification/Directory.thy ===== *)
theory Directory
  imports Fs Writing
begin

text \<open>
  The root directory: what \<open>sync_dir_entry\<close> writes and \<open>search_file\<close> finds, entry by entry and
  block by block.
\<close>

section \<open>The entries of a block\<close>

definition entry_text :: "buf \<Rightarrow> nat \<Rightarrow> buf" where
  "entry_text d k = take 16 (drop (24 * k) d)"

definition entry_inode :: "buf \<Rightarrow> nat \<Rightarrow> u32" where
  "entry_inode d k = of_le32 (take 4 (drop (24 * k + 16) d))"

definition entry_type :: "buf \<Rightarrow> nat \<Rightarrow> u32" where
  "entry_type d k = of_le32 (take 4 (drop (24 * k + 20) d))"

text \<open>The entries before the \<open>n\<close>-th are all in use; none of them has the name.\<close>

definition in_use :: "buf \<Rightarrow> nat \<Rightarrow> bool" where
  "in_use d n \<longleftrightarrow> (\<forall>k < n. entry_type d k \<noteq> 0)"

definition not_named :: "buf \<Rightarrow> buf \<Rightarrow> nat \<Rightarrow> bool" where
  "not_named name d n \<longleftrightarrow> (\<forall>k < n. terminated (entry_text d k) \<and> cstr (entry_text d k) \<noteq> name)"

lemma terminated_prefix:
  assumes "terminated (take n xs)"
  shows "terminated xs" and "cstr xs = cstr (take n xs)"
proof -
  have "take n xs = cstr (take n xs) @ 0 # drop (Suc (length (cstr (take n xs)))) (take n xs)"
    by (rule terminated_split [OF assms])
  then have xs: "xs = cstr (take n xs) @ 0 # (drop (Suc (length (cstr (take n xs)))) (take n xs) @ drop n xs)"
    by (metis append_Cons append_assoc append_take_drop_id)
  show "terminated xs" by (subst xs) (rule terminated_append_nul)
  show "cstr xs = cstr (take n xs)" by (subst xs) (rule cstr_append_nul [OF cstr_nonzero])
qed

lemma drop_take_append: "k + n \<le> length d \<Longrightarrow> take n (drop k (d @ r)) = take n (drop k d)"
  by simp

lemma strcmp_entry:
  assumes "length d = 512" and "k < 21" and "terminated (entry_text d k)" and "terminated name"
  shows "strcmp (Some (drop (24 * k) (d @ r))) (Some name) = Inr (scompare (cstr (entry_text d k)) (cstr name))"
proof -
  have e: "take 16 (drop (24 * k) (d @ r)) = entry_text d k"
    using assms(1,2) by (simp add: entry_text_def)
  have "terminated (take 16 (drop (24 * k) (d @ r)))" using assms(3) unfolding e .
  note t = terminated_prefix [OF this]
  show ?thesis using strcmp_ok [OF t(1) assms(4)] unfolding t(2) e .
qed

lemma get32_entry:
  assumes "length d = 512" and "k < 21"
  shows "get32 (d @ r) (24 * k + 16) = Inr (entry_inode d k)" and "get32 (d @ r) (24 * k + 20) = Inr (entry_type d k)"
  using assms by (simp_all add: get32_def get_bytes_def entry_inode_def entry_type_def)

lemma match_entry_none:
  assumes "length d = 512" and "terminated name" and "not_named (cstr name) d (k + n)" and "k + n \<le> 21"
  shows "match_entry (d @ r) name k n = Inr None"
  using assms(3,4)
proof (induction n arbitrary: k)
  case (Suc n)
  then have "terminated (entry_text d k)" "cstr (entry_text d k) \<noteq> cstr name" "k < 21" by (auto simp: not_named_def)
  then show ?case
    using Suc strcmp_entry [OF assms(1) _ _ assms(2), of k r] by (simp add: scompare_zero_iff)
qed simp

lemma match_entry_hit:
  assumes "length d = 512" and "terminated name" and "not_named (cstr name) d m" and "k \<le> m" and "m < k + n" and "k + n \<le> 21"
    and "terminated (entry_text d m)" and "cstr (entry_text d m) = cstr name"
  shows "match_entry (d @ r) name k n = Inr (Some (entry_inode d m))"
  using assms(4-6)
proof (induction n arbitrary: k)
  case (Suc n)
  show ?case
  proof (cases "k = m")
    case True
    then show ?thesis
      using Suc.prems strcmp_entry [OF assms(1) _ assms(7,2), of r] get32_entry(1) [OF assms(1), of m r] assms(8)
      by (simp add: scompare_zero_iff)
  next
    case False
    then have "terminated (entry_text d k)" "cstr (entry_text d k) \<noteq> cstr name" "k < 21"
      using Suc.prems assms(3) by (auto simp: not_named_def)
    then show ?thesis
      using False Suc strcmp_entry [OF assms(1) _ _ assms(2), of k r] by (simp add: scompare_zero_iff)
  qed
qed simp

lemma free_entry_none:
  assumes "length d = 512" and "in_use d (k + n)" and "k + n \<le> 21"
  shows "free_entry (d @ r) k n = Inr None"
  using assms(2,3)
proof (induction n arbitrary: k)
  case (Suc n)
  then show ?case using get32_entry(2) [OF assms(1), of k r] by (simp add: in_use_def)
qed simp

lemma free_entry_hit:
  assumes "length d = 512" and "in_use d m" and "entry_type d m = 0" and "k \<le> m" and "m < k + n" and "k + n \<le> 21"
  shows "free_entry (d @ r) k n = Inr (Some m)"
  using assms(4-6)
proof (induction n arbitrary: k)
  case (Suc n)
  then show ?case
    using get32_entry(2) [OF assms(1), of k r] assms(2,3) by (cases "k = m") (auto simp: in_use_def)
qed simp

section \<open>The blocks of the directory\<close>

definition on_disk :: "u32 \<Rightarrow> bool" where
  "on_disk l \<longleftrightarrow> l \<noteq> 0 \<and> unat l + 1 \<le> 2 ^ 28"

lemma read_one:
  assumes "disk_ready hdd s" and "on_disk l" and "512 \<le> length io_buf"
  shows "\<exists>s'. ide_read hdd l io_buf 1 s = Inr (disk_of hdd s (unat l) @ drop 512 io_buf, s') \<and> io hdd (disk_of hdd s) s s'"
  using ide_read_io [OF assms(1), of l 1 io_buf] assms(2,3) by (auto simp: on_disk_def read_image_def)

lemma write_one:
  assumes "disk_ready hdd s" and "unat l + 1 \<le> 2 ^ 28" and "512 \<le> length d"
  shows "\<exists>s'. ide_write hdd l d 1 s = Inr s' \<and> io hdd ((disk_of hdd s)(unat l := take 512 d)) s s'"
proof -
  have "write_image (disk_of hdd s) (unat l) 1 d = (disk_of hdd s)(unat l := take 512 d)" by (auto simp: write_image_def)
  then show ?thesis using ide_write_io [OF assms(1), of l 1 d] assms(2,3) by auto
qed

text \<open>Full blocks are passed over.\<close>

lemma sync_blocks_skip:
  assumes "disk_ready hdd s" and "512 \<le> length io_buf" and "\<forall>l \<in> set ls. on_disk l \<and> in_use (disk_of hdd s (unat l)) 21"
  shows "\<exists>b' s'. sync_blocks p hdd 24 e k (ls @ ls') io_buf s = sync_blocks p hdd 24 e (k + length ls) ls' b' s' \<and>
           length b' = length io_buf \<and> io hdd (disk_of hdd s) s s'"
  using assms
proof (induction ls arbitrary: k io_buf s)
  case Nil
  then show ?case using io_refl by fastforce
next
  case (Cons l ls)
  have sec: "sectors (disk_of hdd s)" using Cons.prems(1) by (simp add: disk_ready_def)
  obtain s1 where s1: "ide_read hdd l io_buf 1 s = Inr (disk_of hdd s (unat l) @ drop 512 io_buf, s1)" "io hdd (disk_of hdd s) s s1"
    using read_one [OF Cons.prems(1) _ Cons.prems(2)] Cons.prems(3) by auto
  let ?b = "disk_of hdd s (unat l) @ drop 512 io_buf"
  have l: "length (disk_of hdd s (unat l)) = 512" using sec by (simp add: sectors_def)
  have lb: "length ?b = length io_buf" using l Cons.prems(2) by simp
  have "free_entry ?b 0 21 = Inr None" by (rule free_entry_none [OF l]) (use Cons.prems(3) in simp_all)
  then have step: "sync_blocks p hdd 24 e k ((l # ls) @ ls') io_buf s = sync_blocks p hdd 24 e (Suc k) (ls @ ls') ?b s1"
    using s1(1) Cons.prems(3) by (simp add: on_disk_def)
  have d: "disk_of hdd s1 = disk_of hdd s" using io_disk [OF s1(2)] .
  have "disk_ready hdd s1" using io_ready [OF s1(2) Cons.prems(1) sec] .
  from Cons.IH [OF this, of ?b "Suc k"] Cons.prems(2,3) lb obtain b' s' where
    "sync_blocks p hdd 24 e (Suc k) (ls @ ls') ?b s1 = sync_blocks p hdd 24 e (Suc k + length ls) ls' b' s'"
    "length b' = length io_buf" "io hdd (disk_of hdd s) s1 s'" unfolding d by auto
  then show ?case using step io_trans [OF s1(2)] by fastforce
qed

text \<open>The entry goes into the first slot not in use.\<close>

lemma sync_blocks_hit:
  assumes "disk_ready hdd s" and "512 \<le> length io_buf" and "\<forall>l \<in> set ls. on_disk l \<and> in_use (disk_of hdd s (unat l)) 21"
    and "on_disk l" and "in_use (disk_of hdd s (unat l)) k" and "entry_type (disk_of hdd s (unat l)) k = 0" and "k < 21"
    and "length e = 24" and "inodes s (root_dir_inode s) = Some i"
  shows "\<exists>s'. sync_blocks p hdd 24 e n (ls @ l # ls') io_buf s =
             Inr (True, set_inode (root_dir_inode s) (i\<lparr>i_size := i_size i + 24\<rparr>) s') \<and>
           io hdd ((disk_of hdd s)(unat l := patched (disk_of hdd s (unat l)) (24 * k) e)) s s'"
proof -
  let ?im = "disk_of hdd s"
  let ?d = "?im (unat l)"
  have sec: "sectors ?im" using assms(1) by (simp add: disk_ready_def)
  then have ld: "length ?d = 512" by (simp add: sectors_def)
  obtain b1 s1 where s1: "sync_blocks p hdd 24 e n (ls @ l # ls') io_buf s = sync_blocks p hdd 24 e (n + length ls) (l # ls') b1 s1"
    "length b1 = length io_buf" "io hdd ?im s s1"
    using sync_blocks_skip [OF assms(1-3)] by blast
  have r1: "disk_ready hdd s1" using io_ready [OF s1(3) assms(1) sec] .
  have lb1: "512 \<le> length b1" using s1(2) assms(2) by simp
  obtain s2 where s2: "ide_read hdd l b1 1 s1 = Inr (?d @ drop 512 b1, s2)" "io hdd ?im s1 s2"
    using read_one [OF r1 assms(4) lb1] unfolding io_disk [OF s1(3)] by blast
  have r2: "disk_ready hdd s2" using io_ready [OF s2(2) r1 sec] .
  have fe: "free_entry (?d @ drop 512 b1) 0 21 = Inr (Some k)"
    by (rule free_entry_hit [OF ld assms(5,6)]) (use assms(7) in simp_all)
  have pb: "put_bytes (?d @ drop 512 b1) (24 * k) e = Inr (patched ?d (24 * k) e @ drop 512 b1)"
    using put_bytes_ok [of "24 * k" e "?d @ drop 512 b1"] ld assms(7,8) by (simp add: patched_def)
  have lp: "length (patched ?d (24 * k) e) = 512" using ld assms(7,8) by (simp add: patched_def)
  obtain s3 where s3: "ide_write hdd l (patched ?d (24 * k) e @ drop 512 b1) 1 s2 = Inr s3"
    "io hdd (?im(unat l := patched ?d (24 * k) e)) s2 s3"
    using write_one [OF r2, of l "patched ?d (24 * k) e @ drop 512 b1"] assms(4) lp io_disk [OF s2(2)] by (auto simp: on_disk_def)
  have all: "io hdd (?im(unat l := patched ?d (24 * k) e)) s s3" using io_trans [OF s1(3) io_trans [OF s2(2) s3(2)]] .
  have fr: "root_dir_inode s3 = root_dir_inode s" "inodes s3 = inodes s" using io_fstate [OF all] by simp_all
  have "sync_blocks p hdd 24 e (n + length ls) (l # ls') b1 s1 =
      Inr (True, set_inode (root_dir_inode s) (i\<lparr>i_size := i_size i + 24\<rparr>) s3)"
    using s2(1) fe pb s3(1) assms(4,8,9) fr by (simp add: on_disk_def get_bytes_def grow_dir_def get_inode_def)
  then show ?thesis using s1(1) all by auto
qed

text \<open>A search passes over a block without the name.\<close>

lemma search_blocks_pass:
  assumes "disk_ready hdd s" and "512 \<le> length io_buf" and "terminated name" and "on_disk m"
    and "not_named (cstr name) (disk_of hdd s (unat m)) 21"
  shows "\<exists>b' s'. search_blocks hdd name 21 (m # ls) (Some io_buf) s = search_blocks hdd name 21 ls (Some b') s' \<and>
           length b' = length io_buf \<and> io hdd (disk_of hdd s) s s'"
proof -
  have ld: "length (disk_of hdd s (unat m)) = 512" using assms(1) by (simp add: disk_ready_def sectors_def)
  let ?b = "disk_of hdd s (unat m) @ drop 512 io_buf"
  obtain s1 where s1: "ide_read hdd m io_buf 1 s = Inr (?b, s1)" "io hdd (disk_of hdd s) s s1"
    using read_one [OF assms(1,4,2)] by blast
  have "match_entry ?b name 0 21 = Inr None" by (rule match_entry_none [OF ld assms(3)]) (use assms(5) in simp_all)
  moreover have lb: "length ?b = length io_buf" using ld assms(2) by simp
  moreover have "memset (Some ?b) 0 24 = Inr (replicate 24 0 @ drop 24 ?b)"
    using memset_ok [of 24 ?b 0] lb assms(2) by simp
  ultimately have "search_blocks hdd name 21 (m # ls) (Some io_buf) s =
      search_blocks hdd name 21 ls (Some (replicate 24 0 @ drop 24 ?b)) s1"
    using s1(1) assms(4) by (simp add: on_disk_def)
  moreover have "length (replicate 24 0 @ drop 24 ?b) = length io_buf" using lb assms(2) by simp
  ultimately show ?thesis using s1(2) by blast
qed

text \<open>A search reads the blocks in order up to the first that has the name.\<close>

lemma search_blocks_hit:
  assumes "disk_ready hdd s" and "512 \<le> length io_buf" and "terminated name"
    and "\<forall>l \<in> set ls. l = 0 \<or> on_disk l \<and> not_named (cstr name) (disk_of hdd s (unat l)) 21"
    and "on_disk l" and "not_named (cstr name) (disk_of hdd s (unat l)) k" and "k < 21"
    and "terminated (entry_text (disk_of hdd s (unat l)) k)" and "cstr (entry_text (disk_of hdd s (unat l)) k) = cstr name"
  shows "\<exists>s'. search_blocks hdd name 21 (ls @ l # ls') (Some io_buf) s =
             Inr (Some (entry_inode (disk_of hdd s (unat l)) k), s') \<and> io hdd (disk_of hdd s) s s'"
  using assms
proof (induction ls arbitrary: io_buf s)
  case Nil
  have ld: "length (disk_of hdd s (unat l)) = 512" using Nil.prems(1) by (simp add: disk_ready_def sectors_def)
  obtain s1 where s1: "ide_read hdd l io_buf 1 s = Inr (disk_of hdd s (unat l) @ drop 512 io_buf, s1)" "io hdd (disk_of hdd s) s s1"
    using read_one [OF Nil.prems(1,5,2)] by blast
  have "match_entry (disk_of hdd s (unat l) @ drop 512 io_buf) name 0 21 = Inr (Some (entry_inode (disk_of hdd s (unat l)) k))"
    by (rule match_entry_hit [OF ld Nil.prems(3,6) _ _ _ Nil.prems(8,9)]) (use Nil.prems(7) in simp_all)
  then show ?case using s1 Nil.prems(5) by (simp add: on_disk_def)
next
  case (Cons m ls)
  show ?case
  proof (cases "m = 0")
    case True
    then show ?thesis using Cons by simp
  next
    case False
    then have m: "on_disk m" "not_named (cstr name) (disk_of hdd s (unat m)) 21" using Cons.prems(4) by auto
    have sec: "sectors (disk_of hdd s)" using Cons.prems(1) by (simp add: disk_ready_def)
    obtain b' s1 where step: "search_blocks hdd name 21 ((m # ls) @ l # ls') (Some io_buf) s =
        search_blocks hdd name 21 (ls @ l # ls') (Some b') s1" "length b' = length io_buf" "io hdd (disk_of hdd s) s s1"
      using search_blocks_pass [OF Cons.prems(1-3) m] by (metis append_Cons)
    have d: "disk_of hdd s1 = disk_of hdd s" using io_disk [OF step(3)] .
    have r1: "disk_ready hdd s1" using io_ready [OF step(3) Cons.prems(1) sec] .
    have "512 \<le> length b'" using step(2) Cons.prems(2) by simp
    from Cons.IH [OF r1 this Cons.prems(3), unfolded d, OF _ Cons.prems(5-9)] Cons.prems(4) obtain s' where
      "search_blocks hdd name 21 (ls @ l # ls') (Some b') s1 =
         Inr (Some (entry_inode (disk_of hdd s (unat l)) k), s')" "io hdd (disk_of hdd s) s1 s'" by auto
    then show ?thesis using step(1) io_trans [OF step(3)] by auto
  qed
qed

section \<open>A new entry\<close>

definition dir_entry :: "buf \<Rightarrow> u32 \<Rightarrow> u8 \<Rightarrow> buf" where
  "dir_entry name no t = name @ replicate (16 - length name) 0 @ le32 no @ le32 (ucast t)"

lemma take_cstr: "terminated s \<Longrightarrow> take (length (cstr s)) s = cstr s"
  by (subst (2) terminated_split) simp_all

lemma create_dir_entry_ok:
  assumes "terminated fn" and "length (cstr fn) < 16"
  shows "create_dir_entry fn no t (replicate 24 0) = Inr (dir_entry (cstr fn) no t)"
proof -
  let ?n = "length (cstr fn)"
  have "memcpy (Some (replicate 24 0)) (Some fn) ?n = Inr (cstr fn @ replicate (24 - ?n) 0)"
    using memcpy_ok [of ?n "replicate 24 0" fn] assms terminated_length [OF assms(1)] take_cstr [OF assms(1)] by simp
  moreover have "put32 (cstr fn @ replicate (24 - ?n) 0) 16 no = Inr (cstr fn @ replicate (16 - ?n) 0 @ le32 no @ replicate 4 0)"
    using assms(2) put_bytes_ok [of 16 "le32 no" "cstr fn @ replicate (24 - ?n) 0"] by (simp add: put32_def min_def)
  moreover have "put32 (cstr fn @ replicate (16 - ?n) 0 @ le32 no @ replicate 4 0) 20 (ucast t) = Inr (dir_entry (cstr fn) no t)"
    using assms(2) put_bytes_ok [of 20 "le32 (ucast t)" "cstr fn @ replicate (16 - ?n) 0 @ le32 no @ replicate 4 0"]
    by (simp add: put32_def dir_entry_def)
  ultimately show ?thesis using strlen_ok [OF assms(1)] by (simp add: create_dir_entry_def)
qed

lemma patched_entry:
  assumes "length d = 512" and "k < 21" and "length e = 24"
  shows "j < 21 \<Longrightarrow> take 24 (drop (24 * j) (patched d (24 * k) e)) = (if j = k then e else take 24 (drop (24 * j) d))"
proof -
  assume j: "j < 21"
  have "j < k \<or> j = k \<or> k < j" by auto
  then show ?thesis
  proof (elim disjE)
    assume "j < k"
    then have "24 * j + 24 \<le> 24 * k" by simp
    then show ?thesis using assms j \<open>j < k\<close> by (simp add: patched_def take_drop min_def)
  next
    assume "j = k"
    then show ?thesis using assms by (simp add: patched_def)
  next
    assume "k < j"
    then have "24 * k + 24 \<le> 24 * j" by simp
    then show ?thesis using assms j \<open>k < j\<close> by (simp add: patched_def drop_append)
  qed
qed

lemma entry_parts:
  "entry_text d k = take 16 (take 24 (drop (24 * k) d))"
  "entry_inode d k = of_le32 (take 4 (drop 16 (take 24 (drop (24 * k) d))))"
  "entry_type d k = of_le32 (take 4 (drop 20 (take 24 (drop (24 * k) d))))"
  by (simp_all add: entry_text_def entry_inode_def entry_type_def drop_take add.commute)

lemma new_entry_parts:
  fixes no :: u32 and t :: u8
  assumes "length d = 512" and "k < 21" and "length name < 16" and "0 \<notin> set name"
  defines "d' \<equiv> patched d (24 * k) (dir_entry name no t)"
  shows "terminated (entry_text d' k)" and "cstr (entry_text d' k) = name" and "entry_inode d' k = no"
    and "not_named nm d k \<Longrightarrow> not_named nm d' k"
proof -
  have e: "length (dir_entry name no t) = 24" using assms(3) by (simp add: dir_entry_def)
  note p = patched_entry [OF assms(1,2) e, folded d'_def]
  have "16 - length name = Suc (15 - length name)" using assms(3) by simp
  then have t: "entry_text d' k = name @ 0 # replicate (15 - length name) 0"
    unfolding entry_parts(1) using p [of k] assms(2) by (simp add: dir_entry_def)
  show "terminated (entry_text d' k)" "cstr (entry_text d' k) = name"
    unfolding t by (rule terminated_append_nul, rule cstr_append_nul [OF assms(4)])
  show "entry_inode d' k = no" unfolding entry_parts(2) using p [of k] assms(2,3) by (simp add: dir_entry_def)
  show "not_named nm d' k" if "not_named nm d k"
    using that p assms(2) unfolding not_named_def entry_parts(1) by auto
qed

section \<open>Looking up what was entered\<close>

text \<open>The first entry not in use is the \<open>k\<close>-th of the \<open>n\<close>-th block, and none before it has the name.\<close>

definition dir_slot :: "(nat \<Rightarrow> buf) \<Rightarrow> inode \<Rightarrow> buf \<Rightarrow> nat \<Rightarrow> nat \<Rightarrow> bool" where
  "dir_slot im i name n k \<longleftrightarrow>
     length (i_sectors i) = 13 \<and> i_sectors i ! 12 = 0 \<and> n < 12 \<and> k < 21 \<and> (\<forall>m \<le> n. on_disk (i_sectors i ! m)) \<and>
     (\<forall>m < n. i_sectors i ! m \<noteq> i_sectors i ! n \<and> in_use (im (unat (i_sectors i ! m))) 21 \<and>
        not_named name (im (unat (i_sectors i ! m))) 21) \<and>
     in_use (im (unat (i_sectors i ! n))) k \<and> entry_type (im (unat (i_sectors i ! n))) k = 0 \<and>
     not_named name (im (unat (i_sectors i ! n))) k"

lemma split_sectors:
  assumes "length ws = 13" and "n < 12"
  shows "take 12 ws @ r = take n ws @ ws ! n # (drop (Suc n) (take 12 ws) @ r)"
proof -
  have "take 12 ws = take n (take 12 ws) @ take 12 ws ! n # drop (Suc n) (take 12 ws)"
    by (rule id_take_nth_drop) (use assms in simp)
  then show ?thesis using assms(2) by (simp add: min_def)
qed

lemma sync_dir_entry_ok:
  assumes "part_ok p hdd b x s" and "cur_part s = Some p" and "dir_entry_size b = 24"
    and "inodes s (root_dir_inode s) = Some i" and "dir_slot (disk_of hdd s) i name n k" and "length e = 24" and "512 \<le> length io_buf"
  defines "l \<equiv> unat (i_sectors i ! n)"
  shows "\<exists>s'. sync_dir_entry e io_buf s = Inr (True, set_inode (root_dir_inode s) (i\<lparr>i_size := i_size i + 24\<rparr>) s') \<and>
           io hdd ((disk_of hdd s)(l := patched (disk_of hdd s l) (24 * k) e)) s s'"
proof -
  have d: "length (i_sectors i) = 13" "n < 12" "k < 21" and r: "disk_ready hdd s"
    using assms(1,5) by (simp_all add: dir_slot_def part_ok_def)
  have "\<forall>m \<in> set (take n (i_sectors i)). on_disk m \<and> in_use (disk_of hdd s (unat m)) 21"
    using assms(5) by (auto simp: dir_slot_def in_set_conv_nth)
  note pre = this
  have l: "on_disk (i_sectors i ! n)" "in_use (disk_of hdd s (unat (i_sectors i ! n))) k"
    "entry_type (disk_of hdd s (unat (i_sectors i ! n))) k = 0" using assms(5) by (simp_all add: dir_slot_def)
  have "sync_dir_entry e io_buf s = sync_blocks p hdd 24 e 0 (take 12 (i_sectors i) @ replicate 128 0) io_buf s"
    using assms(1-4) by (simp add: sync_dir_entry_def get_inode_def part_sb_def part_disk_def part_ok_def)
  then show ?thesis
    using sync_blocks_hit [OF r assms(7) pre l d(3) assms(6,4)] unfolding l_def split_sectors [OF d(1,2)] by simp
qed

lemma path_length:
  assumes "terminated fn" and "cstr fn \<noteq> []" and "length (cstr fn) < 16"
  shows "strlen (Some (0x2f # fn)) = Inr (Suc (length (cstr fn)))"
    and "1 < (of_nat (Suc (length (cstr fn))) :: u8)" and "unat (of_nat (Suc (length (cstr fn))) :: u8) < 512"
proof -
  have path: "0x2f # fn = (0x2f # cstr fn) @ 0 # drop (Suc (length (cstr fn))) fn" using terminated_split [OF assms(1)] by simp
  have "terminated (0x2f # fn)" by (subst path) (rule terminated_append_nul)
  moreover have "cstr (0x2f # fn) = 0x2f # cstr fn" by (subst path) (rule cstr_append_nul, simp add: cstr_nonzero)
  ultimately show "strlen (Some (0x2f # fn)) = Inr (Suc (length (cstr fn)))" using strlen_ok by fastforce
  have "unat (of_nat (Suc (length (cstr fn))) :: u8) = Suc (length (cstr fn))" "0 < length (cstr fn)"
    using assms(2,3) by (simp_all add: unsigned_of_nat take_bit_nat_eq_self del: of_nat_Suc)
  then show "1 < (of_nat (Suc (length (cstr fn))) :: u8)" "unat (of_nat (Suc (length (cstr fn))) :: u8) < 512"
    using assms(3) by (simp_all add: word_less_nat_alt del: of_nat_Suc)
qed

lemma search_file_ok:
  assumes "part_ok p hdd b x s" and "cur_part s = Some p" and "dir_entry_size b = 24"
    and "inodes s (root_dir_inode s) = Some i" and "length (i_sectors i) = 13" and "i_sectors i ! 12 = 0" and "n < 12" and "k < 21"
    and "terminated fn" and "cstr fn \<noteq> []" and "length (cstr fn) < 16"
    and "\<forall>m < n. i_sectors i ! m = 0 \<or> on_disk (i_sectors i ! m) \<and> not_named (cstr fn) (disk_of hdd s (unat (i_sectors i ! m))) 21"
    and "on_disk (i_sectors i ! n)" and "not_named (cstr fn) (disk_of hdd s (unat (i_sectors i ! n))) k"
    and "terminated (entry_text (disk_of hdd s (unat (i_sectors i ! n))) k)"
    and "cstr (entry_text (disk_of hdd s (unat (i_sectors i ! n))) k) = cstr fn"
    and "malloc_at s (malloc_no s) \<noteq> 0" and "malloc_at s (Suc (malloc_no s)) \<noteq> 0"
  shows "\<exists>s'. search_file (0x2f # fn) s = Inr (entry_inode (disk_of hdd s (unat (i_sectors i ! n))) k, s') \<and>
           io hdd (disk_of hdd s) (s\<lparr>malloc_no := Suc (Suc (malloc_no s)), live := Suc (Suc (live s))\<rparr>) s'"
proof -
  let ?s1 = "s\<lparr>malloc_no := Suc (malloc_no s), live := Suc (live s)\<rparr>"
  let ?s2 = "s\<lparr>malloc_no := Suc (Suc (malloc_no s)), live := Suc (Suc (live s))\<rparr>"
  have bufs: "new_buffer (48 + 512) s = (Some (replicate (48 + 512) 0), ?s1)" "new_buffer 1024 ?s1 = (Some (replicate 1024 0), ?s2)"
    using new_buffer_ok [OF assms(17), of "48 + 512"] new_buffer_ok [of ?s1 1024] assms(18) by simp_all
  have r2: "disk_ready hdd ?s2" using assms(1) by (simp add: part_ok_def)
  then have sec: "sectors (disk_of hdd s)" by (simp add: disk_ready_def)
  have pre: "\<forall>m \<in> set (take n (i_sectors i)). m = 0 \<or> on_disk m \<and> not_named (cstr fn) (disk_of hdd ?s2 (unat m)) 21"
  proof
    fix m assume "m \<in> set (take n (i_sectors i))"
    then obtain q where "q < n" "m = i_sectors i ! q" by (auto simp: in_set_conv_nth)
    then show "m = 0 \<or> on_disk m \<and> not_named (cstr fn) (disk_of hdd ?s2 (unat m)) 21" using assms(12) by simp
  qed
  obtain s3 where s3: "search_blocks hdd fn 21 (take 12 (i_sectors i) @ replicate 128 0) (Some (replicate 1024 0)) ?s2 =
      Inr (Some (entry_inode (disk_of hdd s (unat (i_sectors i ! n))) k), s3)" "io hdd (disk_of hdd s) ?s2 s3"
    using search_blocks_hit [OF r2 _ assms(9) pre assms(13) _ assms(8), of "replicate 1024 0" "drop (Suc n) (take 12 (i_sectors i)) @ replicate 128 0"]
      assms(14-16) unfolding split_sectors [OF assms(5,7)] by auto
  have "search_file (0x2f # fn) s = Inr (entry_inode (disk_of hdd s (unat (i_sectors i ! n))) k, s3)"
    using path_length [OF assms(9-11)] bufs assms(1-6) s3(1)
    by (simp add: search_file_def Let_def get_inode_def part_disk_def part_sb_def part_ok_def must_have_def del: of_nat_Suc)
  then show ?thesis using s3(2) by blast
qed

text \<open>C9: a new entry is found.  \<open>create_dir_entry\<close> and \<open>sync_dir_entry\<close> put the entry into the first slot of
  the root directory that is not in use, in a block it has, and keep the others; a search for
  the path then answers the entry's inode number.  The two buffers of the search are not given back.\<close>

theorem created_entry_is_found:
  assumes "part_ok p hdd b x s" and "cur_part s = Some p" and "dir_entry_size b = 24"
    and "inodes s (root_dir_inode s) = Some i" and "dir_slot (disk_of hdd s) i (cstr fn) n k" and "512 \<le> length io_buf"
    and "terminated fn" and "cstr fn \<noteq> []" and "length (cstr fn) < 16"
    and "malloc_at s (malloc_no s) \<noteq> 0" and "malloc_at s (Suc (malloc_no s)) \<noteq> 0"
  shows "\<exists>e s1 s2. create_dir_entry fn no t (replicate 24 0) = Inr e \<and> sync_dir_entry e io_buf s = Inr (True, s1) \<and>
           search_file (0x2f # fn) s1 = Inr (no, s2) \<and>
           inodes s1 = (inodes s)(root_dir_inode s \<mapsto> i\<lparr>i_size := i_size i + 24\<rparr>) \<and>
           (\<forall>l. l \<noteq> unat (i_sectors i ! n) \<longrightarrow> disk_of hdd s2 l = disk_of hdd s l) \<and>
           (\<forall>j < 21. take 24 (drop (24 * j) (disk_of hdd s2 (unat (i_sectors i ! n)))) =
              (if j = k then e else take 24 (drop (24 * j) (disk_of hdd s (unat (i_sectors i ! n)))))) \<and>
           live s2 = live s + 2"
proof -
  let ?L = "\<lambda>m. unat (i_sectors i ! m)" and ?e = "dir_entry (cstr fn) no t" and ?i = "i\<lparr>i_size := i_size i + 24\<rparr>"
  let ?d = "disk_of hdd s (?L n)"
  let ?d' = "patched ?d (24 * k) ?e"
  have sl: "length (i_sectors i) = 13" "i_sectors i ! 12 = 0" "n < 12" "k < 21" "on_disk (i_sectors i ! n)"
    "\<forall>m < n. on_disk (i_sectors i ! m) \<and> i_sectors i ! m \<noteq> i_sectors i ! n \<and> not_named (cstr fn) (disk_of hdd s (?L m)) 21"
    "not_named (cstr fn) ?d k" using assms(5) by (simp_all add: dir_slot_def)
  have e: "length ?e = 24" using assms(9) by (simp add: dir_entry_def)
  have sec: "sectors (disk_of hdd s)" using assms(1) by (simp add: part_ok_def disk_ready_def)
  then have ld: "length ?d = 512" by (simp add: sectors_def)
  obtain s0 where s0: "sync_dir_entry ?e io_buf s = Inr (True, set_inode (root_dir_inode s) ?i s0)"
    "io hdd ((disk_of hdd s)(?L n := ?d')) s s0"
    using sync_dir_entry_ok [OF assms(1-5) e assms(6)] by blast
  let ?s1 = "set_inode (root_dir_inode s) ?i s0"
  have "sectors ((disk_of hdd s)(?L n := ?d'))" using sec ld e sl(4) by (simp add: sectors_def patched_def)
  then have ok1: "part_ok p hdd b x ?s1" using part_ok_io [OF assms(1) s0(2)] by simp
  note im = io_disk [OF s0(2)]
  have fr: "cur_part ?s1 = Some p" "inodes ?s1 (root_dir_inode ?s1) = Some ?i" "malloc_at ?s1 (malloc_no ?s1) \<noteq> 0"
    "malloc_at ?s1 (Suc (malloc_no ?s1)) \<noteq> 0" "live ?s1 = live s"
    "inodes ?s1 = (inodes s)(root_dir_inode s \<mapsto> ?i)"
    using assms(2,10,11) io_fstate [OF s0(2)] io_frame(6-8) [OF s0(2)] by (simp_all add: set_inode_def)
  note ne = new_entry_parts [OF ld sl(4) assms(9) cstr_nonzero, where no = no and t = t]
  have new: "disk_of hdd ?s1 (?L n) = ?d'" by (simp add: im)
  have old: "\<forall>m < n. i_sectors i ! m = 0 \<or> on_disk (i_sectors i ! m) \<and> not_named (cstr fn) (disk_of hdd ?s1 (?L m)) 21"
  proof (intro allI impI disjI2)
    fix m assume "m < n"
    then have m: "on_disk (i_sectors i ! m)" "i_sectors i ! m \<noteq> i_sectors i ! n" "not_named (cstr fn) (disk_of hdd s (?L m)) 21"
      using sl(6) by auto
    then have "?L m \<noteq> ?L n" by (metis word_unat_eq_iff)
    then show "on_disk (i_sectors i ! m) \<and> not_named (cstr fn) (disk_of hdd ?s1 (?L m)) 21" using m by (simp add: im)
  qed
  obtain s2 where s2': "search_file (0x2f # fn) ?s1 = Inr (entry_inode ?d' k, s2)"
    "io hdd (disk_of hdd ?s1) (?s1\<lparr>malloc_no := Suc (Suc (malloc_no ?s1)), live := Suc (Suc (live ?s1))\<rparr>) s2"
    using search_file_ok [OF ok1 fr(1) assms(3) fr(2) _ _ sl(3,4) assms(7-9)] sl(1,2,5,7) old ne fr(3,4) new by auto
  have s2: "search_file (0x2f # fn) ?s1 = Inr (entry_inode ?d' k, s2)" "disk_of hdd s2 = disk_of hdd ?s1" "live s2 = live ?s1 + 2"
    using s2'(1) io_disk [OF s2'(2)] io_frame(8) [OF s2'(2)] by simp_all
  show ?thesis
    using create_dir_entry_ok [OF assms(7,9)] s0(1) s2 ne(3) fr(5,6) patched_entry [OF ld sl(4) e]
    by (intro exI [of _ ?e] exI [of _ ?s1] exI [of _ s2]) (simp add: im)
qed

text \<open>The entry \<open>a\<close> next to the \<open>.\<close> of the root directory.\<close>

lemma demo_dir_slot:
  "dir_slot (\<lambda>l. if l = 676 then dir_entry [0x2e] 0 2 @ replicate 488 0 else replicate 512 0)
     \<lparr>i_no = 0, i_size = 24, i_open_cnts = 1, write_deny = 0, i_sectors = 676 # replicate 12 0\<rparr> [0x61] 0 1"
proof -
  let ?d = "dir_entry [0x2e] 0 2 @ replicate 488 0"
  have t: "entry_text ?d 0 = [0x2e] @ 0 # replicate 14 0"
    by (simp add: entry_text_def dir_entry_def) (simp add: numeral_eq_Suc)
  have "terminated (entry_text ?d 0)" unfolding t by (rule terminated_append_nul)
  moreover have "cstr (entry_text ?d 0) = [0x2e]" unfolding t by (rule cstr_append_nul) simp
  moreover have "entry_type ?d 0 = 2" "entry_type ?d 1 = 0"
    by (simp_all add: entry_type_def dir_entry_def le32_def of_le32_def)
  ultimately show ?thesis by (simp add: dir_slot_def on_disk_def in_use_def not_named_def)
qed

theorem created_entry_is_found_witness:
  "\<exists>e s1 s2. create_dir_entry [0x61, 0] 5 1 (replicate 24 0) = Inr e \<and>
     sync_dir_entry e (replicate 1024 0)
       (demo_fs (\<lambda>_ _ l. if l = 676 then dir_entry [0x2e] 0 2 @ replicate 488 0 else replicate 512 0)
         [0 \<mapsto> \<lparr>i_no = 0, i_size = 24, i_open_cnts = 1, write_deny = 0, i_sectors = 676 # replicate 12 0\<rparr>]) = Inr (True, s1) \<and>
     search_file [0x2f, 0x61, 0] s1 = Inr (5, s2)"
proof -
  let ?im = "\<lambda>(_ :: nat) (_ :: nat) l. if l = 676 then dir_entry [0x2e] 0 2 @ replicate 488 0 else replicate 512 0"
  let ?i = "\<lparr>i_no = 0, i_size = 24, i_open_cnts = 1, write_deny = 0, i_sectors = 676 # replicate 12 0\<rparr> :: inode"
  let ?s = "demo_fs ?im [0 \<mapsto> ?i]"
  have ok: "part_ok ((0, 1), 0) (0, 1) demo_sb demo_part ?s" by (rule demo_fs_ok) (simp add: dir_entry_def)
  have c: "terminated [0x61, 0]" "cstr [0x61, 0] = [0x61]" by (simp_all add: terminated_def cstr_def)
  have slot: "dir_slot (disk_of (0, 1) ?s) ?i (cstr [0x61, 0]) 0 1" unfolding c(2) using demo_dir_slot by simp
  show ?thesis
    using created_entry_is_found [OF ok _ _ _ slot _ c(1), of "replicate 1024 0" 5 1] unfolding c(2)
    by (fastforce simp: demo_sb_def)
qed

section \<open>A directory with twelve full blocks\<close>

text \<open>C39: a thirteenth block goes wrong.  When the twelve direct blocks of the root directory are full, a new block is
  allocated but its address is kept nowhere: the entry is written to sector 0 of the disk, over the
  boot sector and the partition table, and success is reported.\<close>

theorem thirteenth_block_hits_sector_0:
  assumes "part_ok p hdd b x s" and "layout_ok b x" and "cur_part s = Some p" and "dir_entry_size b = 24"
    and "inodes s (root_dir_inode s) = Some i" and "length (i_sectors i) = 13"
    and "\<forall>m < 12. on_disk (i_sectors i ! m) \<and> in_use (disk_of hdd s (unat (i_sectors i ! m))) 21"
    and "free_blocks x \<noteq> {}" and "length e = 24" and "512 \<le> length io_buf"
  shows "\<exists>s'. sync_dir_entry e io_buf s = Inr (True, s') \<and> disk_of hdd s' 0 = e @ replicate 488 0 \<and>
           inodes s' = (inodes s)(root_dir_inode s \<mapsto> i\<lparr>i_size := i_size i + 24\<rparr>)"
proof -
  let ?im = "disk_of hdd s"
  have r: "disk_ready hdd s" using assms(1) by (simp add: part_ok_def)
  then have sec: "sectors ?im" by (simp add: disk_ready_def)
  have pre: "\<forall>l \<in> set (take 12 (i_sectors i)). on_disk l \<and> in_use (?im (unat l)) 21"
    using assms(6,7) by (auto simp: in_set_conv_nth)
  obtain b1 s1 where s1: "sync_blocks p hdd 24 e 0 (take 12 (i_sectors i) @ replicate 128 0) io_buf s =
      sync_blocks p hdd 24 e 12 (replicate 128 0) b1 s1" "length b1 = length io_buf" "io hdd ?im s s1"
    using sync_blocks_skip [OF r assms(10) pre, of p e 0 "replicate 128 0"] assms(6) by auto
  have ok1: "part_ok p hdd b x s1" by (rule part_ok_io [OF assms(1) s1(3) sec])
  obtain j bm cs where al: "block_bitmap_alloc p s1 = Inr (block_lba b j, s1\<lparr>channels := cs\<rparr>)"
    "part_ok p hdd b (x\<lparr>block_bitmap := bm\<rparr>) (s1\<lparr>channels := cs\<rparr>)" "layout_ok b (x\<lparr>block_bitmap := bm\<rparr>)" "j \<in> free_blocks x"
    "btmp_bytes_len bm = btmp_bytes_len (block_bitmap x)"
    using block_bitmap_alloc_ok [OF ok1 assms(2,8)] by blast
  let ?s2 = "s1\<lparr>channels := cs\<rparr>"
  have j: "j < 2048" "j < nbits (block_bitmap (x\<lparr>block_bitmap := bm\<rparr>))" using al(4,5) by (simp_all add: free_blocks_def nbits_def)
  obtain s3 where s3: "bitmap_sync p (of_nat j) BLOCK_BITMAP ?s2 = Inr s3"
    "io hdd (write_image (disk_of hdd ?s2) (unat (block_bitmap_lba b)) 1 (bits bm)) ?s2 s3"
    using bitmap_sync_ok [OF al(2,3) j] by auto
  have "1 \<le> unat (block_bitmap_sects b)" using al(3) j(2) by (cases "unat (block_bitmap_sects b)") (auto simp: layout_ok_def nbits_def)
  then have lb: "512 * 1 \<le> length (bits bm)" using al(3) by (simp add: layout_ok_def)
  have r2: "disk_ready hdd ?s2" using al(2) by (simp add: part_ok_def)
  then have "sectors (write_image (disk_of hdd ?s2) (unat (block_bitmap_lba b)) 1 (bits bm))"
    by (intro sectors_write [OF _ lb]) (simp add: disk_ready_def)
  then have r3: "disk_ready hdd s3" by (rule io_ready [OF s3(2) r2])
  let ?d = "e @ replicate 488 0 @ drop 512 b1"
  have buf: "memset (Some b1) 0 512 = Inr (replicate 512 0 @ drop 512 b1)"
    "memcpy (Some (replicate 512 0 @ drop 512 b1)) (Some e) 24 = Inr ?d"
    using memset_ok [of 512 b1 0] memcpy_ok [of 24 "replicate 512 0 @ drop 512 b1" e] s1(2) assms(9,10) by simp_all
  obtain s4 where s4: "ide_write hdd 0 ?d 1 s3 = Inr s4" "io hdd ((disk_of hdd s3)(0 := e @ replicate 488 0)) s3 s4"
    using write_one [OF r3, of 0 ?d] assms(9) by auto
  have fr: "inodes s4 = inodes s" "root_dir_inode s4 = root_dir_inode s"
    using io_fstate [OF s4(2)] io_fstate [OF s3(2)] io_fstate [OF s1(3)] by simp_all
  let ?s5 = "set_inode (root_dir_inode s) (i\<lparr>i_size := i_size i + 24\<rparr>) s4"
  have lba: "block_lba b j \<noteq> -1" "block_lba b j - data_start_lba b = of_nat j"
    using block_lba_valid [OF assms(2) j(1)] by (simp_all add: block_lba_def)
  have "add_block p hdd 24 e b1 12 0 s1 = Inr (True, ?s5)"
    using al(1,2) lba s3(1) buf s4(1) fr assms(5)
    by (simp add: add_block_def part_sb_def part_ok_def grow_dir_def get_inode_def)
  moreover have "replicate 128 (0 :: u32) = 0 # replicate 127 0" using replicate_Suc [of 127 "0 :: u32"] by simp
  ultimately have "sync_blocks p hdd 24 e 12 (replicate 128 0) b1 s1 = Inr (True, ?s5)" by simp
  then have "sync_dir_entry e io_buf s = Inr (True, ?s5)"
    using s1(1) assms(1,3-5) by (simp add: sync_dir_entry_def get_inode_def part_sb_def part_disk_def part_ok_def)
  then show ?thesis using io_disk [OF s4(2)] fr by simp
qed

theorem thirteenth_block_hits_sector_0_witness:
  "\<exists>s'. sync_dir_entry (dir_entry [0x61] 5 1) (replicate 1024 0)
       (demo_fs (\<lambda>_ _ _. replicate 512 1)
         [0 \<mapsto> \<lparr>i_no = 0, i_size = 6048, i_open_cnts = 1, write_deny = 0, i_sectors = replicate 12 676 @ [0]\<rparr>]) = Inr (True, s') \<and>
     disk_of (0, 1) s' 0 = dir_entry [0x61] 5 1 @ replicate 488 0"
proof -
  let ?i = "\<lparr>i_no = 0, i_size = 6048, i_open_cnts = 1, write_deny = 0, i_sectors = replicate 12 676 @ [0]\<rparr> :: inode"
  let ?s = "demo_fs (\<lambda>_ _ _. replicate 512 1) [0 \<mapsto> ?i]"
  have ok: "part_ok ((0, 1), 0) (0, 1) demo_sb demo_part ?s" by (rule demo_fs_ok) simp
  have lay: "layout_ok demo_sb demo_part" by (simp add: layout_ok_def demo_sb_def demo_part_def)
  have "of_le32 [1, 1, 1, 1] \<noteq> 0" by (simp add: of_le32_def)
  moreover have "replicate 4 (1 :: u8) = [1, 1, 1, 1]" by (simp add: numeral_eq_Suc)
  ultimately have full: "in_use (replicate 512 1) 21" by (auto simp: in_use_def entry_type_def)
  have "1 \<in> free_blocks demo_part" by (simp add: free_blocks_def used_def nbits_def demo_part_def)
  then have free: "free_blocks demo_part \<noteq> {}" by blast
  have blocks: "\<forall>m < 12. on_disk (i_sectors ?i ! m) \<and> in_use (disk_of (0, 1) ?s (unat (i_sectors ?i ! m))) 21"
    using full by (simp add: nth_append on_disk_def)
  show ?thesis
    using thirteenth_block_hits_sector_0 [OF ok lay _ _ _ _ blocks free, of "dir_entry [0x61] 5 1" "replicate 1024 0"]
    by (simp add: demo_sb_def dir_entry_def) blast
qed

end
