(* ===== verification/Syscalls.thy ===== *)
theory Syscalls
  imports Append Directory
begin

text \<open>
  The system calls on files put together: creating a file in the root directory, opening one that
  is there, and writing to it through a descriptor of the running task.
\<close>

section \<open>Slots and descriptors\<close>

lemma slot_from_ok:
  assumes "length table = 32" and "k \<le> g" and "g < 32" and "fd_inode (table ! g) = 0"
    and "\<forall>m. k \<le> m \<longrightarrow> m < g \<longrightarrow> fd_inode (table ! m) \<noteq> 0"
  shows "slot_from table k = Inr (of_nat g)"
  using assms(2,5)
proof (induction "g - k" arbitrary: k)
  case 0
  then show ?case using assms(1,3,4) by (subst slot_from.simps) simp
next
  case (Suc n)
  then have "slot_from table (k + 1) = Inr (of_nat g)" by (intro Suc.hyps(1)) auto
  then show ?case using Suc.hyps(2) Suc.prems assms(1,3) by (subst slot_from.simps) simp
qed

lemma install_from_ok:
  assumes "length fds = 8" and "k \<le> l" and "l < 8" and "fds ! l = -1" and "\<forall>m. k \<le> m \<longrightarrow> m < l \<longrightarrow> fds ! m \<noteq> -1"
  shows "install_from fds g k = Inr (fds[l := g], of_nat l)"
  using assms(2,5)
proof (induction "l - k" arbitrary: k)
  case 0
  then show ?case using assms(1,3,4) by (subst install_from.simps) simp
next
  case (Suc n)
  then have "install_from fds g (k + 1) = Inr (fds[l := g], of_nat l)" by (intro Suc.hyps(1)) auto
  then show ?case using Suc.hyps(2) Suc.prems assms(1,3) by (subst install_from.simps) simp
qed

text \<open>The next entry of the system's table and the next descriptor of the running task.\<close>

definition free_slots :: "nat \<Rightarrow> nat \<Rightarrow> task_struct \<Rightarrow> 'z fstate_scheme \<Rightarrow> bool" where
  "free_slots g l t s \<longleftrightarrow>
     length (file_table s) = 32 \<and> 3 \<le> g \<and> g < 32 \<and> fd_inode (file_table s ! g) = 0 \<and>
     (\<forall>m. 3 \<le> m \<longrightarrow> m < g \<longrightarrow> fd_inode (file_table s ! m) \<noteq> 0) \<and>
     tasks s (running s) = Some t \<and> length (fd_table t) = 8 \<and> 3 \<le> l \<and> l < 8 \<and> fd_table t ! l = -1 \<and>
     (\<forall>m. 3 \<le> m \<longrightarrow> m < l \<longrightarrow> fd_table t ! m \<noteq> -1)"

lemma get_free_slot_ok: "free_slots g l t s \<Longrightarrow> get_free_slot_in_global s = Inr (of_nat g)"
  using slot_from_ok [of "file_table s" 3 g] by (simp add: free_slots_def get_free_slot_in_global_def)

lemma small_word:
  assumes "n < 32"
  shows "unat (of_nat n :: u32) = n" and "(of_nat n :: u32) \<noteq> -1" and "sint (of_nat n :: u32) = int n"
proof -
  show u: "unat (of_nat n :: u32) = n" using assms by (simp add: unat_small)
  have "unat (-1 :: u32) = 4294967295" by (simp add: unsigned_minus_1_eq_mask mask_eq_exp_minus_1)
  then show "(of_nat n :: u32) \<noteq> -1" using u assms by auto
  show "sint (of_nat n :: u32) = int n"
    using assms by (simp add: signed_of_nat signed_take_bit_int_eq_self)
qed

lemma pcb_fd_install_ok:
  assumes "tasks s (running s) = Some t" and "length (fd_table t) = 8" and "3 \<le> l" and "l < 8" and "fd_table t ! l = -1"
    and "\<forall>m. 3 \<le> m \<longrightarrow> m < l \<longrightarrow> fd_table t ! m \<noteq> -1"
  shows "pcb_fd_install g s = Inr (of_nat l, set_task (running s) (t\<lparr>fd_table := (fd_table t)[l := g]\<rparr>) s)"
  using install_from_ok [OF assms(2-6), of g] assms(1) by (simp add: pcb_fd_install_def get_task_def)

section \<open>A name that is not there\<close>

lemma search_blocks_miss:
  assumes "disk_ready hdd s" and "512 \<le> length io_buf" and "terminated name"
    and "\<forall>l \<in> set ls. l = 0 \<or> on_disk l \<and> not_named (cstr name) (disk_of hdd s (unat l)) 21"
  shows "\<exists>s'. search_blocks hdd name 21 ls (Some io_buf) s = Inr (None, s') \<and> io hdd (disk_of hdd s) s s'"
  using assms
proof (induction ls arbitrary: io_buf s)
  case Nil
  then show ?case using io_refl [of hdd s] by auto
next
  case (Cons m ls)
  show ?case
  proof (cases "m = 0")
    case True
    then show ?thesis using Cons by simp
  next
    case False
    then have m: "on_disk m" "not_named (cstr name) (disk_of hdd s (unat m)) 21" using Cons.prems(4) by auto
    have sec: "sectors (disk_of hdd s)" using Cons.prems(1) by (simp add: disk_ready_def)
    obtain b' s1 where step: "search_blocks hdd name 21 (m # ls) (Some io_buf) s = search_blocks hdd name 21 ls (Some b') s1"
      "length b' = length io_buf" "io hdd (disk_of hdd s) s s1"
      using search_blocks_pass [OF Cons.prems(1-3) m] by blast
    have d: "disk_of hdd s1 = disk_of hdd s" using io_disk [OF step(3)] .
    have r1: "disk_ready hdd s1" using io_ready [OF step(3) Cons.prems(1) sec] .
    have "512 \<le> length b'" using step(2) Cons.prems(2) by simp
    from Cons.IH [OF r1 this Cons.prems(3), unfolded d] Cons.prems(4) obtain s' where
      "search_blocks hdd name 21 ls (Some b') s1 = Inr (None, s')" "io hdd (disk_of hdd s) s1 s'" by auto
    then show ?thesis using step(1) io_trans [OF step(3)] by auto
  qed
qed

text \<open>The root directory's direct blocks, none of whose entries has the name.\<close>

definition no_entry :: "(nat \<Rightarrow> buf) \<Rightarrow> inode \<Rightarrow> buf \<Rightarrow> bool" where
  "no_entry im i name \<longleftrightarrow> length (i_sectors i) = 13 \<and> i_sectors i ! 12 = 0 \<and>
     (\<forall>m < 12. i_sectors i ! m = 0 \<or> on_disk (i_sectors i ! m) \<and> not_named name (im (unat (i_sectors i ! m))) 21)"

lemma io_free:
  assumes "io hdd im (s\<lparr>malloc_no := n, live := Suc (Suc (live s))\<rparr>) t"
  shows "io hdd im (s\<lparr>malloc_no := n\<rparr>) (free_object (free_object t))"
  using assms by (auto simp: io_def ide_after_def with_image_def free_object_def) blast

lemma search_file_miss:
  assumes "part_ok p hdd b x s" and "cur_part s = Some p" and "dir_entry_size b = 24"
    and "inodes s (root_dir_inode s) = Some i" and "no_entry (disk_of hdd s) i (cstr fn)"
    and "terminated fn" and "cstr fn \<noteq> []" and "length (cstr fn) < 16"
    and "malloc_at s (malloc_no s) \<noteq> 0" and "malloc_at s (Suc (malloc_no s)) \<noteq> 0"
  shows "\<exists>s'. search_file (0x2f # fn) s = Inr (-1, s') \<and> io hdd (disk_of hdd s) (s\<lparr>malloc_no := Suc (Suc (malloc_no s))\<rparr>) s'"
proof -
  let ?s1 = "s\<lparr>malloc_no := Suc (malloc_no s), live := Suc (live s)\<rparr>"
  let ?s2 = "s\<lparr>malloc_no := Suc (Suc (malloc_no s)), live := Suc (Suc (live s))\<rparr>"
  have bufs: "new_buffer (48 + 512) s = (Some (replicate (48 + 512) 0), ?s1)" "new_buffer 1024 ?s1 = (Some (replicate 1024 0), ?s2)"
    using new_buffer_ok [OF assms(9), of "48 + 512"] new_buffer_ok [of ?s1 1024] assms(10) by simp_all
  have r2: "disk_ready hdd ?s2" using assms(1) by (simp add: part_ok_def)
  have pre: "\<forall>m \<in> set (take 12 (i_sectors i) @ replicate 128 0).
      m = 0 \<or> on_disk m \<and> not_named (cstr fn) (disk_of hdd ?s2 (unat m)) 21"
  proof
    fix m assume "m \<in> set (take 12 (i_sectors i) @ replicate 128 0)"
    then have "m = 0 \<or> (\<exists>q < 12. m = i_sectors i ! q)" by (auto simp: in_set_conv_nth)
    then show "m = 0 \<or> on_disk m \<and> not_named (cstr fn) (disk_of hdd ?s2 (unat m)) 21"
      using assms(5) unfolding no_entry_def by auto
  qed
  obtain s3 where s3: "search_blocks hdd fn 21 (take 12 (i_sectors i) @ replicate 128 0) (Some (replicate 1024 0)) ?s2 = Inr (None, s3)"
    "io hdd (disk_of hdd s) ?s2 s3"
    using search_blocks_miss [OF r2 _ assms(6) pre, of "replicate 1024 0"] by auto
  have "search_file (0x2f # fn) s = Inr (-1, free_object (free_object s3))"
    using path_length [OF assms(6-8)] bufs assms(1-5) s3(1)
    by (simp add: search_file_def Let_def get_inode_def part_disk_def part_sb_def part_ok_def must_have_def no_entry_def del: of_nat_Suc)
  then show ?thesis using io_free [OF s3(2)] by blast
qed

section \<open>A new inode\<close>

text \<open>The inode bitmap has one sector, between the block bitmap and the inode table.\<close>

definition inode_map_ok :: "super_block \<Rightarrow> partition \<Rightarrow> bool" where
  "inode_map_ok b x \<longleftrightarrow> btmp_bytes_len (inode_bitmap x) = 512 \<and> length (bits (inode_bitmap x)) = 512 \<and>
     unat (block_bitmap_lba b) + unat (block_bitmap_sects b) \<le> unat (inode_bitmap_lba b) \<and>
     unat (inode_bitmap_lba b) + 1 \<le> unat (inode_table_lba b)"

lemma inode_bitmap_alloc_ok:
  assumes "part_ok p hdd b x s" and "inode_map_ok b x" and "first_unused (inode_bitmap x) j" and "j < 2048"
  shows "\<exists>bm cs. inode_bitmap_alloc p s = Inr (of_nat j, s\<lparr>channels := cs\<rparr>) \<and>
           part_ok p hdd b (x\<lparr>inode_bitmap := bm\<rparr>) (s\<lparr>channels := cs\<rparr>) \<and> inode_map_ok b (x\<lparr>inode_bitmap := bm\<rparr>) \<and>
           (\<forall>i. used bm i \<longleftrightarrow> i = j \<or> used (inode_bitmap x) i)"
proof -
  let ?m = "inode_bitmap x"
  have wf: "bitmap_wf ?m" "j < nbits ?m" using assms(2,4) by (simp_all add: inode_map_ok_def bitmap_wf_def nbits_def)
  obtain bm where bm: "bitmap_scan ?m 1 = Inr (int j)" "bitmap_set ?m j 1 = Inr bm" "btmp_bytes_len bm = btmp_bytes_len ?m"
    "length (bits bm) = length (bits ?m)" "\<forall>i. used bm i \<longleftrightarrow> i = j \<or> used ?m i"
    using bitmap_take_ok [OF wf(1) assms(3,4) wf(2)] by blast
  from part_ok_set [OF assms(1), of "x\<lparr>inode_bitmap := bm\<rparr>"] obtain cs where
    cs: "set_part p (x\<lparr>inode_bitmap := bm\<rparr>) s = Inr (s\<lparr>channels := cs\<rparr>)" "part_ok p hdd b (x\<lparr>inode_bitmap := bm\<rparr>) (s\<lparr>channels := cs\<rparr>)"
    by auto
  have "inode_bitmap_alloc p s = Inr (of_nat j, s\<lparr>channels := cs\<rparr>)"
    using assms(1) bm(1,2) cs(1) by (simp add: inode_bitmap_alloc_def part_ok_def)
  moreover have "inode_map_ok b (x\<lparr>inode_bitmap := bm\<rparr>)" using assms(2) bm(3,4) by (simp add: inode_map_ok_def)
  ultimately show ?thesis using cs(2) bm(5) by blast
qed

lemma inode_bitmap_sync_ok:
  assumes "part_ok p hdd b x s" and "layout_ok b x" and "inode_map_ok b x" and "j < 2048"
  shows "\<exists>s'. bitmap_sync p (of_nat j) INODE_BITMAP s = Inr s' \<and>
           io hdd ((disk_of hdd s)(unat (inode_bitmap_lba b) := bits (inode_bitmap x))) s s'"
proof -
  have "unat (of_nat j div 4096 :: u32) = 0" using assms(4) by (simp add: unat_div unat_small)
  then have z: "of_nat j div 4096 = (0 :: u32)" by (simp add: unat_eq_0)
  have l: "length (bits (inode_bitmap x)) = 512" "unat (inode_bitmap_lba b) + 1 \<le> 2 ^ 28"
    using assms(2,3) by (auto simp: layout_ok_def inode_map_ok_def)
  have r: "disk_ready hdd s" using assms(1) by (simp add: part_ok_def)
  obtain s' where "ide_write hdd (inode_bitmap_lba b) (bits (inode_bitmap x)) 1 s = Inr s'"
    "io hdd ((disk_of hdd s)(unat (inode_bitmap_lba b) := bits (inode_bitmap x))) s s'"
    using write_one [OF r l(2), of "bits (inode_bitmap x)"] l(1) by auto
  then show ?thesis using assms(1) by (auto simp: bitmap_sync_def part_ok_def z)
qed

text \<open>Changes of the state beside the disk.\<close>

lemma part_ok_frame [simp]:
  "part_ok p hdd b x (s\<lparr>malloc_no := n, live := m\<rparr>) = part_ok p hdd b x s"
  "part_ok p hdd b x (free_object s) = part_ok p hdd b x s"
  "disk_ready hdd (set_file g f s) = disk_ready hdd s"
  by (simp_all add: part_ok_def)
    (simp add: set_file_def disk_ready_def ide_up_def disk_up_def disk_wired_def controller_ready_def channel_lock_ok_def
      lock_free_def disk_of_def queue_def dll_def)

lemma queue_frame [simp]:
  "queue (set_file g f s) q xs = queue s q xs" "queue (set_inode a i s) q xs = queue s q xs"
  "queue (s\<lparr>channels := cs\<rparr>) q xs = queue s q xs" "queue (set_task u v s) q xs = queue s q xs"
  by (simp_all add: set_file_def set_inode_def set_task_def queue_def dll_def)

lemma set_task_ready [simp]:
  "disk_ready hdd (set_task q t s) = disk_ready hdd s" "disk_of hdd (set_task q t s) = disk_of hdd s"
  "get_part p (set_task q t s) = get_part p s" "part_ok p hdd b x (set_task q t s) = part_ok p hdd b x s"
  by (simp_all add: set_task_def part_ok_def get_part_def get_disk_def get_channel_def disk_of_def disk_ready_def
      ide_up_def disk_up_def disk_wired_def controller_ready_def channel_lock_ok_def lock_free_def queue_def dll_def)

lemma only_lists_part:
  fixes s :: "'z fstate_scheme"
  shows "only_lists s s' \<Longrightarrow> get_part p s' = get_part p s \<and> disk_of hdd s' = disk_of hdd s"
  using only_lists_fields [of s s'] by (simp add: get_part_def get_disk_def get_channel_def disk_of_def)

section \<open>Creating a file\<close>

definition new_inode :: "nat \<Rightarrow> inode" where
  "new_inode j = (inode_init (of_nat j))\<lparr>i_open_cnts := 1\<rparr>"

text \<open>The disk after the three writes: the entry, the inode, the bitmap.\<close>

definition created :: "super_block \<Rightarrow> nat \<Rightarrow> nat \<Rightarrow> buf \<Rightarrow> nat \<Rightarrow> bitmap \<Rightarrow> (nat \<Rightarrow> buf) \<Rightarrow> (nat \<Rightarrow> buf) \<Rightarrow> bool" where
  "created b l k e j bm im im' \<longleftrightarrow>
     (\<exists>im1. stored b j (inode_bytes (inode_init (of_nat j))) (im(l := patched (im l) (24 * k) e)) im1 \<and>
        im' = im1(unat (inode_bitmap_lba b) := bits bm))"

lemma file_create_ok:
  assumes "part_ok p hdd b x s" and "layout_ok b x" and "inode_map_ok b x" and "cur_part s = Some p"
    and "dir_entry_size b = 24" and "inodes s (root_dir_inode s) = Some i" and "dir_slot (disk_of hdd s) i (cstr fn) n k"
    and "terminated fn" and "length (cstr fn) < 16" and "opened p as s" and "first_unused (inode_bitmap x) j" and "j < 2048"
    and "free_slots g l t s" and "malloc_at s (malloc_no s) = a" and "a \<noteq> 0" and "malloc_at s (Suc (malloc_no s)) \<noteq> 0"
    and "a \<notin> set as" and "a \<noteq> root_dir_inode s"
  shows "\<exists>bm s'. file_create (0x2f # fn) flags s = Inr (of_nat l, s') \<and> part_ok p hdd b (x\<lparr>inode_bitmap := bm\<rparr>) s' \<and>
           inode_map_ok b (x\<lparr>inode_bitmap := bm\<rparr>) \<and> (\<forall>i. used bm i \<longleftrightarrow> i = j \<or> used (inode_bitmap x) i) \<and> opened p (a # as) s' \<and>
           created b (unat (i_sectors i ! n)) k (dir_entry (cstr fn) (of_nat j) 1) j bm (disk_of hdd s) (disk_of hdd s') \<and>
           inodes s' = (inodes s)(root_dir_inode s \<mapsto> i\<lparr>i_size := i_size i + 24\<rparr>, a \<mapsto> new_inode j) \<and>
           file_table s' = (file_table s)[g := \<lparr>fd_pos = 0, fd_flag = ucast flags, fd_inode = a\<rparr>] \<and>
           tasks s' = (tasks s)(running s \<mapsto> t\<lparr>fd_table := (fd_table t)[l := of_nat g]\<rparr>) \<and> running s' = running s \<and>
           cur_part s' = cur_part s \<and> root_dir_inode s' = root_dir_inode s \<and> malloc_at s' = malloc_at s \<and>
           malloc_no s' = malloc_no s + 2 \<and> live s' = live s + 1"
proof -
  let ?f = "\<lparr>fd_pos = 0, fd_flag = ucast flags, fd_inode = a\<rparr>" and ?r = "root_dir_inode s"
  let ?e = "dir_entry (cstr fn) (of_nat j) 1" and ?i = "i\<lparr>i_size := i_size i + 24\<rparr>" and ?I = "inode_init (of_nat j)"
  obtain bm cs where al: "inode_bitmap_alloc p s = Inr (of_nat j, s\<lparr>channels := cs\<rparr>)"
    "part_ok p hdd b (x\<lparr>inode_bitmap := bm\<rparr>) (s\<lparr>channels := cs\<rparr>)" "inode_map_ok b (x\<lparr>inode_bitmap := bm\<rparr>)"
    "\<forall>i. used bm i \<longleftrightarrow> i = j \<or> used (inode_bitmap x) i"
    using inode_bitmap_alloc_ok [OF assms(1,3,11,12)] by blast
  let ?x = "x\<lparr>inode_bitmap := bm\<rparr>" and ?s1 = "s\<lparr>channels := cs\<rparr>"
  let ?s2 = "?s1\<lparr>malloc_no := Suc (malloc_no s), live := Suc (live s)\<rparr>"
  let ?s4 = "set_file g ?f (set_inode a ?I ?s2)"
  let ?s5 = "?s4\<lparr>malloc_no := Suc (Suc (malloc_no s)), live := Suc (Suc (live s))\<rparr>"
  have obj: "new_object ?s1 = (a, ?s2)" using new_object_ok [of ?s1 a] assms(14,15) by simp
  have g: "g < 32" "free_slots g l t (set_inode a ?I ?s2)"
    using assms(13) by (auto simp: free_slots_def set_inode_def)
  note slot = get_free_slot_ok [OF g(2)] small_word [OF g(1)]
  have buf: "new_buffer 1024 ?s4 = (Some (replicate 1024 0), ?s5)"
    using new_buffer_ok [of ?s4 1024] assms(16) by (simp add: set_file_def set_inode_def)
  have im5: "disk_of hdd ?s5 = disk_of hdd s" by (simp add: disk_of_def set_file_def set_inode_def)
  have ok5: "part_ok p hdd b ?x ?s5" using al(2) by simp
  have e: "create_dir_entry (drop 1 (0x2f # fn)) (of_nat j) 1 (replicate 24 0) = Inr ?e" "length ?e = 24"
    using create_dir_entry_ok [OF assms(8,9)] assms(9) by (simp_all add: dir_entry_def)
  have in5: "inodes ?s5 (root_dir_inode ?s5) = Some i" "cur_part ?s5 = Some p" "root_dir_inode ?s5 = ?r"
    using assms(4,6,18) by (simp_all add: set_file_def set_inode_def)
  obtain s6 where s6: "sync_dir_entry ?e (replicate 1024 0) ?s5 = Inr (True, set_inode ?r ?i s6)"
    "io hdd ((disk_of hdd s)(unat (i_sectors i ! n) := patched (disk_of hdd s (unat (i_sectors i ! n))) (24 * k) ?e)) ?s5 s6"
    using sync_dir_entry_ok [OF ok5 in5(2) assms(5) in5(1) _ e(2), of "cstr fn" n k "replicate 1024 0"] assms(7) im5 in5(3) by auto
  let ?l = "unat (i_sectors i ! n)"
  let ?im = "(disk_of hdd s)(?l := patched (disk_of hdd s ?l) (24 * k) ?e)" and ?t6 = "set_inode ?r ?i s6"
  have "sectors (disk_of hdd s)" using assms(1) by (simp add: part_ok_def disk_ready_def)
  then have sec: "sectors ?im" using e(2) assms(7) by (simp add: sectors_def patched_def dir_slot_def)
  have ok6: "part_ok p hdd b ?x ?t6" using part_ok_io [OF ok5 s6(2) sec] by simp
  have in6: "inodes ?t6 = (inodes s)(a \<mapsto> ?I, ?r \<mapsto> ?i)"
    using io_fstate(1) [OF s6(2)] by (simp add: set_file_def set_inode_def)
  then have ia: "inodes ?t6 a = Some ?I" using assms(18) by simp
  have no: "i_no ?I = of_nat j" "unat (i_no ?I) = j" "length (i_sectors ?I) = 13" "?I\<lparr>i_open_cnts := 0, write_deny := 0\<rparr> = ?I"
    using assms(12) by (simp_all add: inode_init_def unat_small)
  have no4: "unat (i_no ?I) < 4096" using no(2) assms(12) by simp
  have room: "512 * (if straddles (unat (i_no ?I)) then 2 else 1) \<le> length (replicate 1024 (0 :: u8))" by simp
  obtain b7 s7 im1 where s7: "inode_sync p a (replicate 1024 0) ?t6 = Inr (b7, s7)" "io hdd im1 ?t6 s7"
    "stored b j (inode_bytes ?I) ?im im1"
    using inode_sync_ok [OF ok6 layout_table_fits [OF assms(2)] ia no(3) no4 room] io_disk [OF s6(2)] unfolding no(2,4) by auto
  have ok7: "part_ok p hdd b ?x s7" using part_ok_io [OF ok6 s7(2)] s7(3) by (simp add: stored_def)
  have lay: "layout_ok b ?x" using assms(2) by (simp add: layout_ok_def)
  let ?im' = "im1(unat (inode_bitmap_lba b) := bits bm)"
  obtain s8 where s8: "bitmap_sync p (of_nat j) INODE_BITMAP s7 = Inr s8" "io hdd ?im' s7 s8"
    using inode_bitmap_sync_ok [OF ok7 lay al(3) assms(12)] io_disk [OF s7(2)] by auto
  have "sectors ?im'" using s7(3) al(3) by (simp add: stored_def sectors_def inode_map_ok_def)
  then have ok8: "part_ok p hdd b ?x s8" by (rule part_ok_io [OF ok7 s8(2)])
  have f7: "inodes s7 = inodes ?t6" "file_table s7 = file_table s6" "cur_part s7 = cur_part s6" "root_dir_inode s7 = root_dir_inode s6"
    "tasks s7 = tasks s6" "running s7 = running s6" "malloc_at s7 = malloc_at s6" "malloc_no s7 = malloc_no s6" "live s7 = live s6"
    "queue s7 q xs = queue s6 q xs" for q xs
    using io_fstate [OF s7(2)] io_frame(3-8) [OF s7(2)] by (simp_all add: set_inode_def queue_def dll_def)
  have f6: "file_table s6 = (file_table s)[g := ?f]" "cur_part s6 = cur_part s" "root_dir_inode s6 = ?r" "tasks s6 = tasks s"
    "running s6 = running s" "malloc_at s6 = malloc_at s" "malloc_no s6 = malloc_no s + 2" "live s6 = Suc (Suc (live s))"
    "queue s6 q xs = queue s q xs" for q xs
    using io_fstate(2-4) [OF s6(2)] io_frame(3-8) [OF s6(2)] by (simp_all add: set_file_def set_inode_def queue_def dll_def)
  have f8: "inodes s8 = (inodes s)(a \<mapsto> ?I, ?r \<mapsto> ?i)" "file_table s8 = (file_table s)[g := ?f]" "cur_part s8 = cur_part s"
    "root_dir_inode s8 = ?r" "tasks s8 = tasks s" "running s8 = running s" "malloc_at s8 = malloc_at s"
    "malloc_no s8 = malloc_no s + 2" "live s8 = Suc (Suc (live s))" "queue s8 q xs = queue s q xs" for q xs
    using in6 f7 f6 io_fstate [OF s8(2)] io_frame(3-8) [OF s8(2)] by simp_all
  have "queue s8 (open_list p) (map Inode_tag as)" using assms(10) f8(10) by (simp add: opened_def)
  from push_inode_ok [OF this assms(17)] obtain s9 where s9: "q_push (open_list p) (Inode_tag a) s8 = Inr s9" "only_lists s8 s9"
    "queue s9 (open_list p) (map Inode_tag (a # as))" "disk_ready hdd s8 \<longrightarrow> disk_ready hdd s9" by blast
  note f9 = only_lists_fields [OF s9(2)]
  let ?sA = "free_object (set_inode a (new_inode j) s9)"
  let ?sB = "set_task (running s) (t\<lparr>fd_table := (fd_table t)[l := of_nat g]\<rparr>) ?sA"
  have fs: "tasks ?sA (running ?sA) = Some t" "length (fd_table t) = 8" "3 \<le> l" "l < 8" "fd_table t ! l = -1"
    "\<forall>m. 3 \<le> m \<longrightarrow> m < l \<longrightarrow> fd_table t ! m \<noteq> -1" "running ?sA = running s"
    using assms(13) f9 f8 by (simp_all add: free_slots_def free_object_def set_inode_def)
  have "inodes s9 a = Some ?I" using f9(1) f8(1) assms(18) by simp
  then have run: "file_create (0x2f # fn) flags s = Inr (of_nat l, ?sB)"
    using assms(4,15) al(1) obj slot e(1) buf s6(1) s7(1) s8(1) s9(1) pcb_fd_install_ok [OF fs(1-6), of "of_nat g"] fs(7)
    by (simp add: file_create_def Let_def get_inode_def new_inode_def)
  have okB: "part_ok p hdd b ?x ?sB"
    using ok8 s9(4) only_lists_part [OF s9(2)] by (simp add: part_ok_def)
  have imB: "disk_of hdd ?sB = ?im'" using only_lists_part [OF s9(2)] io_disk [OF s8(2)] by simp
  have made: "created b ?l k ?e j bm (disk_of hdd s) (disk_of hdd ?sB)"
    unfolding created_def imB using s7(3) by blast
  have inB: "inodes ?sB = (inodes s)(?r \<mapsto> ?i, a \<mapsto> new_inode j)"
    using f9(1) f8(1) assms(18) by (auto simp: set_task_def free_object_def set_inode_def fun_upd_twist)
  then have opB: "opened p (a # as) ?sB"
    using s9(3) assms(10) by (auto simp: opened_def free_object_def queue_def dll_def set_task_def set_inode_def)
  have frB: "file_table ?sB = (file_table s)[g := ?f]" "tasks ?sB = (tasks s)(running s \<mapsto> t\<lparr>fd_table := (fd_table t)[l := of_nat g]\<rparr>)"
    "running ?sB = running s" "cur_part ?sB = cur_part s" "root_dir_inode ?sB = ?r" "malloc_at ?sB = malloc_at s"
    "malloc_no ?sB = malloc_no s + 2" "live ?sB = live s + 1"
    using f8 f9 by (simp_all add: set_task_def free_object_def set_inode_def)
  show ?thesis
    by (intro exI [of _ bm] exI [of _ ?sB] conjI run okB al(3,4) opB made inB frB)
qed

text \<open>What the disk holds then, by its parts.\<close>

lemma inode_at_elsewhere:
  assumes "n < 4096" and "k < unat (inode_table_lba b) \<or> unat (inode_table_lba b) + 608 \<le> k"
  shows "inode_at (im(k := d)) b n = inode_at im b n"
  by (rule inode_at_cong [OF _ assms(1)]) (use assms(2) in auto)

lemma created_parts:
  assumes "created b l k e j bm im im'" and "layout_ok b x" and "inode_map_ok b x" and "j < 2048"
    and "unat (data_start_lba b) \<le> l" and "sectors im" and "k < 21" and "length e = 24"
  shows "inode_at im' b j = inode_bytes (inode_init (of_nat j))"
    and "n < 4096 \<Longrightarrow> n \<noteq> j \<Longrightarrow> inode_at im' b n = inode_at im b n"
    and "im' (unat (inode_bitmap_lba b)) = bits bm"
    and "m < 21 \<Longrightarrow> take 24 (drop (24 * m) (im' l)) = (if m = k then e else take 24 (drop (24 * m) (im l)))"
    and "unat (data_start_lba b) \<le> r \<Longrightarrow> r \<noteq> l \<Longrightarrow> im' r = im r"
proof -
  let ?d = "im(l := patched (im l) (24 * k) e)" and ?B = "unat (inode_bitmap_lba b)"
  have lay: "?B < unat (inode_table_lba b)" "unat (inode_table_lba b) + 608 \<le> unat (data_start_lba b)"
    using assms(2,3) by (simp_all add: layout_ok_def inode_map_ok_def)
  obtain im1 where im1: "stored b j (inode_bytes (inode_init (of_nat j))) ?d im1" "im' = im1(?B := bits bm)"
    using assms(1) unfolding created_def by blast
  have tab: "inode_at im' b n = inode_at im1 b n" if "n < 4096" for n
    unfolding im1(2) by (rule inode_at_elsewhere [OF that]) (use lay in simp)
  show "inode_at im' b j = inode_bytes (inode_init (of_nat j))"
    using tab [of j] im1(1) assms(4) by (simp add: stored_def)
  show "inode_at im' b n = inode_at im b n" if n: "n < 4096" "n \<noteq> j"
  proof -
    have "inode_at im1 b n = inode_at ?d b n" using im1(1) n by (simp add: stored_def)
    also have "\<dots> = inode_at im b n" by (rule inode_at_elsewhere [OF n(1)]) (use lay assms(5) in simp)
    finally show ?thesis using tab [OF n(1)] by simp
  qed
  show "im' ?B = bits bm" by (simp add: im1(2))
  have data: "im' q = ?d q" if "unat (data_start_lba b) \<le> q" for q
    using im1 lay that by (auto simp: stored_def)
  show "im' r = im r" if "unat (data_start_lba b) \<le> r" "r \<noteq> l" using data [OF that(1)] that(2) by simp
  have "length (im l) = 512" using assms(6) by (simp add: sectors_def)
  from patched_entry [OF this assms(7,8)]
  show "m < 21 \<Longrightarrow> take 24 (drop (24 * m) (im' l)) = (if m = k then e else take 24 (drop (24 * m) (im l)))"
    using data [OF assms(5)] by simp
qed

section \<open>A state in which a file can be created\<close>

text \<open>The name is nowhere in the root directory; the first free entry is the \<open>k\<close>-th of its \<open>n\<close>-th block,
  the first free inode number \<open>j\<close>, the first free entries of the tables \<open>g\<close> and \<open>l\<close>; the next four
  requests to the allocator are met, and the third returns \<open>a\<close>.\<close>

definition can_create :: "part_ptr \<Rightarrow> disk_ptr \<Rightarrow> super_block \<Rightarrow> partition \<Rightarrow> inode \<Rightarrow> buf \<Rightarrow> nat \<Rightarrow> nat \<Rightarrow> nat \<Rightarrow> nat \<Rightarrow> nat \<Rightarrow>
    u32 \<Rightarrow> 'z fstate_scheme \<Rightarrow> bool" where
  "can_create p hdd b x i name n k j g l a s \<longleftrightarrow>
     part_ok p hdd b x s \<and> layout_ok b x \<and> inode_map_ok b x \<and> cur_part s = Some p \<and> dir_entry_size b = 24 \<and>
     used (block_bitmap x) 0 \<and> inodes s (root_dir_inode s) = Some i \<and> a \<noteq> root_dir_inode s \<and>
     dir_slot (disk_of hdd s) i name n k \<and> no_entry (disk_of hdd s) i name \<and>
     unat (data_start_lba b) \<le> unat (i_sectors i ! n) \<and> first_unused (inode_bitmap x) j \<and> j < 2048 \<and>
     (\<exists>as t. opened p as s \<and> a \<notin> set as \<and> free_slots g l t s) \<and>
     (\<forall>q < 4. malloc_at s (malloc_no s + q) \<noteq> 0) \<and> malloc_at s (malloc_no s + 2) = a"

lemma fd_local2global_ok:
  assumes "tasks s (running s) = Some t" and "l < length (fd_table t)" and "fd_table t ! l = of_nat g" and "l < 32" and "g < 32"
  shows "fd_local2global (of_nat l) s = Inr (of_nat g)"
  using assms small_word(1) [OF assms(4)] small_word(3) [OF assms(5)]
  by (simp add: fd_local2global_def get_task_def)

text \<open>The root directory has its \<open>.\<close> only; the file \<open>a\<close> is created as inode 2 at descriptor 3.\<close>

definition demo_root :: inode where
  "demo_root = \<lparr>i_no = 0, i_size = 24, i_open_cnts = 1, write_deny = 0, i_sectors = 676 # replicate 12 0\<rparr>"

definition demo_dir_fs :: fstate where
  "demo_dir_fs = demo_fs (\<lambda>_ _ l. if l = 676 then dir_entry [0x2e] 0 2 @ replicate 488 0 else replicate 512 0) [0 \<mapsto> demo_root]"

lemma demo_dir_texts:
  assumes "k < 21"
  shows "terminated (entry_text (dir_entry [0x2e] 0 2 @ replicate 488 0) k)"
    and "cstr (entry_text (dir_entry [0x2e] 0 2 @ replicate 488 0) k) = (if k = 0 then [0x2e] else [])"
proof -
  let ?d = "dir_entry [0x2e] 0 2 @ replicate 488 0"
  have "entry_text ?d k = (if k = 0 then [0x2e] @ 0 # replicate 14 0 else [] @ 0 # replicate 15 0)"
  proof (cases "k = 0")
    case True
    then show ?thesis by (simp add: entry_text_def dir_entry_def) (simp add: numeral_eq_Suc)
  next
    case False
    have "length (dir_entry [0x2e] 0 2) = 24" by (simp add: dir_entry_def)
    with False assms have "entry_text ?d k = replicate 16 0" by (simp add: entry_text_def min_def)
    also have "replicate 16 0 = [] @ 0 # replicate 15 (0 :: u8)" by (simp add: numeral_eq_Suc)
    finally show ?thesis using False by simp
  qed
  then have t: "entry_text ?d k = (if k = 0 then [0x2e] else []) @ 0 # replicate (if k = 0 then 14 else 15) 0" by simp
  show "terminated (entry_text ?d k)" unfolding t by (rule terminated_append_nul)
  show "cstr (entry_text ?d k) = (if k = 0 then [0x2e] else [])" unfolding t by (rule cstr_append_nul) simp
qed

lemma demo_can_create: "can_create ((0, 1), 0) (0, 1) demo_sb demo_part demo_root [0x61] 0 1 2 3 3 0xc0200400 demo_dir_fs"
proof -
  let ?d = "dir_entry [0x2e] 0 2 @ replicate 488 0"
  have "part_ok ((0, 1), 0) (0, 1) demo_sb demo_part demo_dir_fs" "opened ((0, 1), 0) [] demo_dir_fs"
    unfolding demo_dir_fs_def by (rule demo_fs_ok, simp add: dir_entry_def)+
  moreover have "layout_ok demo_sb demo_part" "inode_map_ok demo_sb demo_part"
    by (simp_all add: layout_ok_def inode_map_ok_def demo_sb_def demo_part_def)
  moreover have "used (block_bitmap demo_part) 0" "first_unused (inode_bitmap demo_part) 2"
    by (auto simp: used_def first_unused_def demo_part_def nbits_def less_Suc_eq numeral_2_eq_2)
  moreover have "dir_slot (disk_of (0, 1) demo_dir_fs) demo_root [0x61] 0 1"
    using demo_dir_slot by (simp add: demo_dir_fs_def demo_root_def)
  moreover have "free_slots 3 3 demo_task demo_dir_fs" by (simp add: free_slots_def demo_dir_fs_def demo_task_def)
  moreover have "no_entry (disk_of (0, 1) demo_dir_fs) demo_root [0x61]"
    using demo_dir_texts by (auto simp: no_entry_def not_named_def demo_dir_fs_def demo_root_def on_disk_def nth_Cons')
  moreover have "\<forall>q < 4. malloc_at demo_dir_fs (malloc_no demo_dir_fs + q) \<noteq> 0"
  proof (intro allI impI)
    fix q :: nat assume "q < 4"
    then have "q \<in> {0, 1, 2, 3}" by auto
    then show "malloc_at demo_dir_fs (malloc_no demo_dir_fs + q) \<noteq> 0" by (auto simp: demo_dir_fs_def)
  qed
  moreover have "cur_part demo_dir_fs = Some ((0, 1), 0)" "inodes demo_dir_fs (root_dir_inode demo_dir_fs) = Some demo_root"
    "root_dir_inode demo_dir_fs = 0" "malloc_at demo_dir_fs (malloc_no demo_dir_fs + 2) = 0xc0200400"
    by (simp_all add: demo_dir_fs_def)
  moreover have "dir_entry_size demo_sb = 24" "unat (data_start_lba demo_sb) \<le> unat (i_sectors demo_root ! 0)"
    by (simp_all add: demo_sb_def demo_root_def)
  ultimately show ?thesis unfolding can_create_def by fastforce
qed

lemma sys_open_ok:
  assumes "can_create p hdd b x i (cstr fn) n k j g l a s" and "O_CREAT AND flags \<noteq> 0"
    and "terminated fn" and "cstr fn \<noteq> []" and "length (cstr fn) < 16"
  shows "\<exists>bm s'. sys_open (0x2f # fn) flags s = Inr (of_nat l, s') \<and> fd_local2global (of_nat l) s' = Inr (of_nat g) \<and>
           get_file g s' = Inr \<lparr>fd_pos = 0, fd_flag = ucast flags, fd_inode = a\<rparr> \<and>
           open_file_ok p hdd b (x\<lparr>inode_bitmap := bm\<rparr>) g a (new_inode j) [] s' \<and>
           inode_at (disk_of hdd s') b j = inode_bytes (inode_init (of_nat j)) \<and>
           (\<forall>m < 4096. m \<noteq> j \<longrightarrow> inode_at (disk_of hdd s') b m = inode_at (disk_of hdd s) b m) \<and>
           disk_of hdd s' (unat (inode_bitmap_lba b)) = bits bm \<and> (\<forall>m. used bm m \<longleftrightarrow> m = j \<or> used (inode_bitmap x) m) \<and>
           (\<forall>m < 21. take 24 (drop (24 * m) (disk_of hdd s' (unat (i_sectors i ! n)))) =
              (if m = k then dir_entry (cstr fn) (of_nat j) 1
               else take 24 (drop (24 * m) (disk_of hdd s (unat (i_sectors i ! n)))))) \<and>
           (\<forall>r \<ge> unat (data_start_lba b). r \<noteq> unat (i_sectors i ! n) \<longrightarrow> disk_of hdd s' r = disk_of hdd s r) \<and>
           inodes s' = (inodes s)(root_dir_inode s \<mapsto> i\<lparr>i_size := i_size i + 24\<rparr>, a \<mapsto> new_inode j) \<and>
           malloc_at s' = malloc_at s \<and> malloc_no s' = malloc_no s + 4 \<and> live s' = live s + 1"
proof -
  obtain as t where c: "part_ok p hdd b x s" "layout_ok b x" "inode_map_ok b x" "cur_part s = Some p" "dir_entry_size b = 24"
    "used (block_bitmap x) 0" "inodes s (root_dir_inode s) = Some i" "a \<noteq> root_dir_inode s" "dir_slot (disk_of hdd s) i (cstr fn) n k"
    "no_entry (disk_of hdd s) i (cstr fn)" "unat (data_start_lba b) \<le> unat (i_sectors i ! n)" "first_unused (inode_bitmap x) j"
    "j < 2048" "opened p as s" "a \<notin> set as" "free_slots g l t s" "malloc_at s (malloc_no s + 2) = a"
    using assms(1) unfolding can_create_def by blast
  have m: "malloc_at s (malloc_no s + q) \<noteq> 0" if "q < 4" for q using assms(1) that unfolding can_create_def by blast
  have m4: "malloc_at s (malloc_no s) \<noteq> 0" "malloc_at s (Suc (malloc_no s)) \<noteq> 0" "a \<noteq> 0" "malloc_at s (malloc_no s + 3) \<noteq> 0"
    using m [of 0] m [of 1] m [of 2] m [of 3] c(17) by simp_all
  let ?s0 = "s\<lparr>malloc_no := Suc (Suc (malloc_no s))\<rparr>"
  obtain s1 where s1: "search_file (0x2f # fn) s = Inr (-1, s1)" "io hdd (disk_of hdd s) ?s0 s1"
    using search_file_miss [OF c(1,4,5,7,10) assms(3-5) m4(1,2)] by blast
  have sec: "sectors (disk_of hdd s)" using c(1) by (simp add: part_ok_def disk_ready_def)
  have d0: "disk_of hdd ?s0 = disk_of hdd s" by (simp add: disk_of_def)
  have q0: "queue ?s0 q xs = queue s q xs" for q xs by (simp add: queue_def dll_def)
  have "?s0 = s\<lparr>malloc_no := Suc (Suc (malloc_no s)), live := live s\<rparr>" by simp
  then have ok0: "part_ok p hdd b x ?s0" using c(1) part_ok_frame(1) by metis
  have ok1: "part_ok p hdd b x s1" by (rule part_ok_io [OF ok0 s1(2) sec])
  have fs1: "inodes s1 = inodes s" "cur_part s1 = cur_part s" "root_dir_inode s1 = root_dir_inode s" "file_table s1 = file_table s"
    "tasks s1 = tasks s" "running s1 = running s" "malloc_at s1 = malloc_at s" "malloc_no s1 = malloc_no s + 2" "live s1 = live s"
    "disk_of hdd s1 = disk_of hdd s" "queue s1 q xs = queue s q xs" for q xs
    using io_fstate [OF s1(2)] io_frame [OF s1(2)] io_disk [OF s1(2)] q0 by (simp_all add: queue_def dll_def)
  have pre: "opened p as s1" "free_slots g l t s1" "malloc_at s1 (malloc_no s1) = a" "malloc_at s1 (Suc (malloc_no s1)) \<noteq> 0"
    using c(14,16,17) m4(4) fs1 by (simp_all add: opened_def free_slots_def numeral_3_eq_3)
  obtain bm s2 where r: "file_create (0x2f # fn) flags s1 = Inr (of_nat l, s2)" "part_ok p hdd b (x\<lparr>inode_bitmap := bm\<rparr>) s2"
    "\<forall>i. used bm i \<longleftrightarrow> i = j \<or> used (inode_bitmap x) i"
    "created b (unat (i_sectors i ! n)) k (dir_entry (cstr fn) (of_nat j) 1) j bm (disk_of hdd s) (disk_of hdd s2)"
    "inodes s2 = (inodes s)(root_dir_inode s \<mapsto> i\<lparr>i_size := i_size i + 24\<rparr>, a \<mapsto> new_inode j)"
    "file_table s2 = (file_table s)[g := \<lparr>fd_pos = 0, fd_flag = ucast flags, fd_inode = a\<rparr>]"
    "tasks s2 = (tasks s)(running s \<mapsto> t\<lparr>fd_table := (fd_table t)[l := of_nat g]\<rparr>)" "running s2 = running s"
    "cur_part s2 = cur_part s" "malloc_at s2 = malloc_at s" "malloc_no s2 = malloc_no s1 + 2" "live s2 = live s + 1"
    using file_create_ok [OF ok1 c(2,3) _ c(5) _ _ assms(3,5) pre(1) c(12,13) pre(2,3) m4(3) pre(4) c(15)] c(4,7-9)
    unfolding fs1 by blast
  have run: "sys_open (0x2f # fn) flags s = Inr (of_nat l, s2)" using s1(1) r(1) assms(2) by (simp add: sys_open_def Let_def)
  have gl: "g < 32" "l < 8" "length (file_table s) = 32" "length (fd_table t) = 8" using c(16) by (simp_all add: free_slots_def)
  have fd: "fd_local2global (of_nat l) s2 = Inr (of_nat g)"
    by (rule fd_local2global_ok [where t = "t\<lparr>fd_table := (fd_table t)[l := of_nat g]\<rparr>"]) (use r(7,8) gl in simp_all)
  have gf: "get_file g s2 = Inr \<lparr>fd_pos = 0, fd_flag = ucast flags, fd_inode = a\<rparr>" using r(6) gl by (simp add: get_file_def)
  have "file_blocks b x' (new_inode j) []" for x' by (simp add: file_blocks_def has_blocks_def new_inode_def inode_init_def)
  then have op: "open_file_ok p hdd b (x\<lparr>inode_bitmap := bm\<rparr>) g a (new_inode j) [] s2"
    using r(2,5,6,9) c(2,4,6,13) gl
    by (simp add: open_file_ok_def layout_ok_def unat_small) (simp add: new_inode_def inode_init_def unat_small)
  have k: "k < 21" "length (dir_entry (cstr fn) (of_nat j) 1) = 24" using c(9) assms(5) by (simp_all add: dir_slot_def dir_entry_def)
  note parts = created_parts [OF r(4) c(2,3,13,11) sec k]
  show ?thesis
    by (intro exI [of _ bm] exI [of _ s2] conjI run fd gf op parts(1,3) r(3,5,10,12) allI impI parts(2,4,5))
      (use r(11) fs1(8) in simp_all)
qed



section \<open>Writing to the new file\<close>

lemma free_blocks_inode_bitmap [simp]: "free_blocks (x\<lparr>inode_bitmap := bm\<rparr>) = free_blocks x"
  by (simp add: free_blocks_def)

lemma sys_write_file:
  assumes "fd_local2global fd s = Inr (of_nat g)" and "g < 32" and "get_file g s = Inr f" and "fd_flag f AND 1 \<noteq> 0 \<or> fd_flag f AND 2 \<noteq> 0"
    and "fd = of_nat l" and "2 \<le> l" and "l < 32" and "file_write g src count s = Inr (n, s')"
  shows "sys_write fd src count s = Inr (([], n), s')"
proof -
  have "fd \<noteq> 1" using small_word(1) [OF assms(7)] assms(5,6) by auto
  moreover have "\<not> sint fd < 0" using small_word(3) [OF assms(7)] assms(5) by simp
  ultimately show ?thesis
    using assms(1,3,4,8) small_word(1) [OF assms(2)] by (auto simp: sys_write_def)
qed

lemma new_file_ok:
  assumes "can_create p hdd b x i (cstr fn) n k j g l a s" and "O_CREAT AND flags \<noteq> 0"
    and "(ucast flags :: u32) AND 1 \<noteq> 0 \<or> (ucast flags :: u32) AND 2 \<noteq> 0"
    and "terminated fn" and "cstr fn \<noteq> []" and "length (cstr fn) < 16" and "\<not> straddles j"
    and "0 < count" and "unat count \<le> length src" and "unat count < 6144" and "unat count div 512 + 1 \<le> card (free_blocks x)"
    and "malloc_at s (malloc_no s + 4) \<noteq> 0" and "malloc_at s (malloc_no s + 5) \<noteq> 0"
    and "\<forall>q. unat (i_sectors i ! n) = unat (data_start_lba b) + q \<longrightarrow> q \<notin> free_blocks x"
  shows "\<exists>s1 s2 i' ns. sys_open (0x2f # fn) flags s = Inr (of_nat l, s1) \<and>
           sys_write (of_nat l) src count s1 = Inr (([], count), s2) \<and>
           file_content b (disk_of hdd s2) ns (unat count) = take (unat count) src \<and>
           inode_at (disk_of hdd s2) b j = inode_bytes i' \<and> i_no i' = of_nat j \<and> i_size i' = count \<and>
           (\<forall>m < length ns. i_sectors i' ! m = block_lba b (ns ! m)) \<and> set ns \<subseteq> free_blocks x \<and>
           take 24 (drop (24 * k) (disk_of hdd s2 (unat (i_sectors i ! n)))) = dir_entry (cstr fn) (of_nat j) 1 \<and>
           live s2 = live s + 1"
proof -
  have c: "part_ok p hdd b x s" "free_slots g l t s \<Longrightarrow> 3 \<le> l \<and> l < 8 \<and> g < 32" "k < 21" "j < 2048"
    "unat (data_start_lba b) \<le> unat (i_sectors i ! n)" "\<exists>t. free_slots g l t s" for t
    using assms(1) unfolding can_create_def by (auto simp: free_slots_def dir_slot_def)
  then have gl: "2 \<le> l" "l < 32" "g < 32" by fastforce+
  have no: "unat (of_nat j :: u32) = j" using c(4) by (simp add: unat_small)
  have ni: "i_size (new_inode j) = 0" "i_no (new_inode j) = of_nat j" by (simp_all add: new_inode_def inode_init_def)
  obtain bm s1 where o: "sys_open (0x2f # fn) flags s = Inr (of_nat l, s1)" "fd_local2global (of_nat l) s1 = Inr (of_nat g)"
    "get_file g s1 = Inr \<lparr>fd_pos = 0, fd_flag = ucast flags, fd_inode = a\<rparr>"
    "open_file_ok p hdd b (x\<lparr>inode_bitmap := bm\<rparr>) g a (new_inode j) [] s1"
    "\<forall>m < 21. take 24 (drop (24 * m) (disk_of hdd s1 (unat (i_sectors i ! n)))) =
       (if m = k then dir_entry (cstr fn) (of_nat j) 1 else take 24 (drop (24 * m) (disk_of hdd s (unat (i_sectors i ! n)))))"
    "malloc_at s1 = malloc_at s" "malloc_no s1 = malloc_no s + 4" "live s1 = live s + 1"
    using sys_open_ok [OF assms(1,2,4-6)] by blast
  have e: "\<not> straddles (unat (i_no (new_inode j)))" "unat (i_size (new_inode j)) + unat count < 6144"
    "(unat (i_size (new_inode j)) + unat count) div 512 + 1 - length [] \<le> card (free_blocks (x\<lparr>inode_bitmap := bm\<rparr>))"
    "malloc_at s1 (malloc_no s1) \<noteq> 0" "malloc_at s1 (Suc (malloc_no s1)) \<noteq> 0"
    using assms(7,10-13) o(6,7) no by (simp_all add: ni add.commute [of 5])
  obtain x' i' ns s2 where w: "file_write g src count s1 = Inr (count, s2)" "open_file_ok p hdd b x' g a i' ([] @ ns) s2"
    "unat (i_size i') = unat (i_size (new_inode j)) + unat count" "i_no i' = i_no (new_inode j)"
    "file_content b (disk_of hdd s2) ([] @ ns) (unat (i_size i')) =
       file_content b (disk_of hdd s1) [] (unat (i_size (new_inode j))) @ take (unat count) src"
    "set ns \<subseteq> free_blocks (x\<lparr>inode_bitmap := bm\<rparr>)"
    "inode_at (disk_of hdd s2) b (unat (i_no (new_inode j))) = inode_bytes (i'\<lparr>i_open_cnts := 0, write_deny := 0\<rparr>)"
    "\<forall>j. j \<notin> set ([] @ ns) \<longrightarrow> disk_of hdd s2 (unat (data_start_lba b) + j) = disk_of hdd s1 (unat (data_start_lba b) + j)"
    "live s2 = live s1"
    using file_write_ok [OF o(4) e(1) assms(8,9) e(2-5)] by blast
  have size: "unat (i_size i') = unat count" using w(3) by (simp add: ni)
  then have size2: "i_size i' = count" by (rule unsigned_word_eqI)
  have content: "file_content b (disk_of hdd s2) ns (unat count) = take (unat count) src"
    using w(5) unfolding size by (simp add: ni file_content_def)
  have "has_blocks b x' i' ns" using w(2) by (simp add: open_file_ok_def file_blocks_def)
  then have sect: "\<forall>m < length ns. i_sectors i' ! m = block_lba b (ns ! m)" by (auto simp: has_blocks_def)
  obtain q where q: "unat (i_sectors i ! n) = unat (data_start_lba b) + q" using c(5) le_Suc_ex by blast
  then have "q \<notin> set ns" using assms(14) w(6) by auto
  then have "disk_of hdd s2 (unat (i_sectors i ! n)) = disk_of hdd s1 (unat (i_sectors i ! n))" using w(8) q by simp
  then have entry: "take 24 (drop (24 * k) (disk_of hdd s2 (unat (i_sectors i ! n)))) = dir_entry (cstr fn) (of_nat j) 1"
    using o(5) c(3) by simp
  have run: "sys_write (of_nat l) src count s1 = Inr (([], count), s2)"
    by (rule sys_write_file [OF o(2) gl(3) o(3) _ refl gl(1,2) w(1)]) (use assms(3) in simp)
  show ?thesis
    by (intro exI [of _ s1] exI [of _ s2] exI [of _ "i'\<lparr>i_open_cnts := 0, write_deny := 0\<rparr>"] exI [of _ ns] conjI o(1) run content entry)
      (use w(4,6,7,9) o(8) sect size2 in \<open>simp_all add: ni no\<close>)
qed

text \<open>C6: What is written to a new file is on the disk.  After \<open>sys_open\<close> with \<open>O_CREAT\<close> and a flag for writing,
  \<open>sys_write\<close> through the descriptor it returned takes the bytes: the file's content on the disk is those
  bytes, the inode on the disk has their number as its size, and the entry of the directory leads to it.
  This holds when the inode the file gets does not straddle two sectors of the inode table (\<open>\<not> straddles j\<close>;
  18 of every 128 numbers do, and for those \<open>file_write\<close> overruns its sector buffer), the name has fewer than 16
  characters, the bytes fit into the direct blocks and the free blocks suffice.\<close>

theorem new_file_holds_what_is_written:
  assumes "can_create p hdd b x i (cstr fn) n k j g l a s" and "O_CREAT AND flags \<noteq> 0"
    and "(ucast flags :: u32) AND 1 \<noteq> 0 \<or> (ucast flags :: u32) AND 2 \<noteq> 0"
    and "terminated fn" and "cstr fn \<noteq> []" and "length (cstr fn) < 16" and "\<not> straddles j"
    and "0 < count" and "unat count \<le> length src" and "unat count < 6144" and "unat count div 512 + 1 \<le> card (free_blocks x)"
    and "malloc_at s (malloc_no s + 4) \<noteq> 0" and "malloc_at s (malloc_no s + 5) \<noteq> 0"
    and "\<forall>q. unat (i_sectors i ! n) = unat (data_start_lba b) + q \<longrightarrow> q \<notin> free_blocks x"
  shows "\<exists>s1 s2 i' ns. sys_open (0x2f # fn) flags s = Inr (of_nat l, s1) \<and>
           sys_write (of_nat l) src count s1 = Inr (([], count), s2) \<and>
           file_content b (disk_of hdd s2) ns (unat count) = take (unat count) src \<and>
           inode_at (disk_of hdd s2) b j = inode_bytes i' \<and> i_no i' = of_nat j \<and> i_size i' = count \<and>
           (\<forall>m < length ns. i_sectors i' ! m = block_lba b (ns ! m)) \<and> set ns \<subseteq> free_blocks x \<and>
           take 24 (drop (24 * k) (disk_of hdd s2 (unat (i_sectors i ! n)))) = dir_entry (cstr fn) (of_nat j) 1 \<and>
           live s2 = live s + 1"
  using new_file_ok [OF assms] by blast

theorem new_file_holds_what_is_written_witness:
  "\<exists>s1 s2 ns. sys_open [0x2f, 0x61, 0] 6 demo_dir_fs = Inr (3, s1) \<and>
     sys_write 3 [0x68, 0x69] 2 s1 = Inr (([], 2), s2) \<and> file_content demo_sb (disk_of (0, 1) s2) ns 2 = [0x68, 0x69]"
proof -
  have c: "terminated [0x61, 0]" "cstr [0x61, 0] = [0x61]" by (simp_all add: terminated_def cstr_def)
  have f: "O_CREAT AND 6 \<noteq> 0" "(ucast (6 :: u8) :: u32) AND 1 \<noteq> 0 \<or> (ucast (6 :: u8) :: u32) AND 2 \<noteq> 0" by (simp_all add: O_CREAT_def)
  have "1 \<in> free_blocks demo_part" by (simp add: free_blocks_def used_def nbits_def demo_part_def)
  then have "1 \<le> card (free_blocks demo_part)" using card_gt_0_iff [of "free_blocks demo_part"] by auto
  moreover have "\<forall>q. unat (i_sectors demo_root ! 0) = unat (data_start_lba demo_sb) + q \<longrightarrow> q \<notin> free_blocks demo_part"
    by (auto simp: demo_root_def demo_sb_def free_blocks_def used_def demo_part_def)
  moreover have "\<not> straddles 2" "(0 :: u32) < 2" "unat (2 :: u32) \<le> length [0x68, 0x69 :: u8]" "unat (2 :: u32) < 6144"
    "malloc_at demo_dir_fs (malloc_no demo_dir_fs + 4) \<noteq> 0" "malloc_at demo_dir_fs (malloc_no demo_dir_fs + 5) \<noteq> 0"
    by (simp_all add: straddles_def demo_dir_fs_def)
  moreover have "unat (2 :: u32) div 512 + 1 = 1" by simp
  ultimately obtain s1 s2 ns where "sys_open (0x2f # [0x61, 0]) 6 demo_dir_fs = Inr (of_nat 3, s1)"
    "sys_write (of_nat 3) [0x68, 0x69] 2 s1 = Inr (([], 2), s2)"
    "file_content demo_sb (disk_of (0, 1) s2) ns (unat (2 :: u32)) = take (unat (2 :: u32)) [0x68, 0x69]"
    using new_file_holds_what_is_written [OF demo_can_create [folded c(2)] f c(1), of 2 "[0x68, 0x69]"]
    unfolding c(2) by auto
  then show ?thesis by auto
qed

section \<open>Opening a file that is there\<close>

text \<open>The bracket with interrupts off, around a change of the inode only.\<close>

lemma critical_section:
  fixes s :: "'z fstate_scheme"
  shows "inodes (snd (intr_disable s)) = inodes s"
    and "snd (intr_set_status (fst (intr_disable s)) (set_inode a i (snd (intr_disable s)))) = set_inode a i s"
    and "snd (intr_set_status (fst (intr_disable s)) (snd (intr_disable s))) = s"
proof -
  show "inodes (snd (intr_disable s)) = inodes s" by (simp add: intr_disable_def)
  have on: "bit (eflags s) 9 \<Longrightarrow> (eflags s AND NOT EFLAGS_IF) OR EFLAGS_IF = eflags s" by (rule flag_clear_set)
  show "snd (intr_set_status (fst (intr_disable s)) (set_inode a i (snd (intr_disable s)))) = set_inode a i s"
    "snd (intr_set_status (fst (intr_disable s)) (snd (intr_disable s))) = s"
    by (auto simp: intr_set_status_def intr_disable_def intr_enable_def set_inode_def get_status_bit bit_EFLAGS_IF bit_simps on)
qed

lemma file_open_writer:
  assumes "get_free_slot_in_global s = Inr (of_nat g)" and "g < 32" and "cur_part s = Some p" and "inode_open p no s = Inr (a, s1)"
    and "inodes s1 a = Some i" and "flags = 1 \<or> flags = 2"
  defines "t \<equiv> set_file g \<lparr>fd_pos = 0, fd_flag = ucast flags, fd_inode = a\<rparr> s1"
  shows "file_open no flags s =
    (if write_deny i = 0 then pcb_fd_install (of_nat g) (set_inode a (i\<lparr>write_deny := 1\<rparr>) t) else Inr (-1, t))"
proof -
  have "inodes t a = Some i" using assms(5) by (simp add: t_def set_file_def)
  then show ?thesis
    using assms(1,3,4,6) small_word [OF assms(2)] critical_section [of t]
    by (auto simp: file_open_def Let_def get_inode_def case_prod_beta simp flip: t_def)
qed

lemma file_open_ok:
  assumes "part_ok p hdd b x s" and "layout_ok b x" and "cur_part s = Some p" and "opened p as s"
    and "find (has_number s no) as = None" and "unat no < 4096" and "free_slots g l t s" and "flags = 1 \<or> flags = 2"
    and "malloc_at s (malloc_no s) = a" and "a \<noteq> 0" and "malloc_at s (Suc (malloc_no s)) \<noteq> 0" and "a \<notin> set as"
  defines "i \<equiv> inode_of_bytes (inode_at (disk_of hdd s) b (unat no))"
  assumes "write_deny i = 0"
  shows "\<exists>s'. file_open no flags s = Inr (of_nat l, s') \<and> part_ok p hdd b x s' \<and> opened p (a # as) s' \<and>
           disk_of hdd s' = disk_of hdd s \<and> inodes s' = (inodes s)(a \<mapsto> i\<lparr>i_open_cnts := 1, write_deny := 1\<rparr>) \<and>
           file_table s' = (file_table s)[g := \<lparr>fd_pos = 0, fd_flag = ucast flags, fd_inode = a\<rparr>] \<and>
           tasks s' = (tasks s)(running s \<mapsto> t\<lparr>fd_table := (fd_table t)[l := of_nat g]\<rparr>) \<and> running s' = running s \<and>
           cur_part s' = cur_part s \<and> malloc_at s' = malloc_at s \<and> malloc_no s' = malloc_no s + 2 \<and> live s' = live s + 1 \<and>
           sync_frame s s'"
proof -
  let ?f = "\<lparr>fd_pos = 0, fd_flag = ucast flags, fd_inode = a\<rparr>"
  obtain s1 where s1: "inode_open p no s = Inr (a, s1)" "opened p (a # as) s1" "live s1 = Suc (live s)"
    "inodes s1 = (inodes s)(a \<mapsto> opened_now i)" "disk_of hdd s1 = disk_of hdd s" "tasks s1 = tasks s" "cur_part s1 = cur_part s"
    "file_table s1 = file_table s" "part_ok p hdd b x s1" "running s1 = running s" "malloc_at s1 = malloc_at s" "malloc_no s1 = malloc_no s + 2"
    "sync_frame s s1"
    using inode_open_fresh [OF assms(1) layout_table_fits [OF assms(2)] assms(6,4,5,9-12)] unfolding i_def by blast
  let ?s2 = "set_inode a ((opened_now i)\<lparr>write_deny := 1\<rparr>) (set_file g ?f s1)"
  let ?s' = "set_task (running s) (t\<lparr>fd_table := (fd_table t)[l := of_nat g]\<rparr>) ?s2"
  have fs: "tasks ?s2 (running ?s2) = Some t" "length (fd_table t) = 8" "3 \<le> l" "l < 8" "fd_table t ! l = -1"
    "\<forall>m. 3 \<le> m \<longrightarrow> m < l \<longrightarrow> fd_table t ! m \<noteq> -1" "running ?s2 = running s" "g < 32"
    using assms(7) s1(6,10) by (simp_all add: free_slots_def set_inode_def set_file_def)
  have "inodes s1 a = Some (opened_now i)" "write_deny (opened_now i) = 0" using s1(4) assms(14) by (simp_all add: opened_now_def)
  then have run: "file_open no flags s = Inr (of_nat l, ?s')"
    using file_open_writer [OF get_free_slot_ok [OF assms(7)] fs(8) assms(3) s1(1) _ assms(8)]
      pcb_fd_install_ok [OF fs(1-6), of "of_nat g"] fs(7) by simp
  have "part_ok p hdd b x (set_file g ?f s1)" using s1(9) by simp
  then have ok: "part_ok p hdd b x ?s'" by simp
  have op: "opened p (a # as) ?s'" using s1(2,4) by (auto simp: opened_def set_task_def set_inode_def set_file_def queue_def dll_def)
  have "disk_of hdd ?s' = disk_of hdd s" using s1(5) by (simp add: disk_of_def set_task_def set_inode_def set_file_def)
  moreover have "inodes ?s' = (inodes s)(a \<mapsto> i\<lparr>i_open_cnts := 1, write_deny := 1\<rparr>)"
    using s1(4) by (simp add: set_task_def set_inode_def set_file_def opened_now_def)
  moreover have "file_table ?s' = (file_table s)[g := ?f]" "tasks ?s' = (tasks s)(running s \<mapsto> t\<lparr>fd_table := (fd_table t)[l := of_nat g]\<rparr>)"
    "running ?s' = running s" "cur_part ?s' = cur_part s" "malloc_at ?s' = malloc_at s" "malloc_no ?s' = malloc_no s + 2" "live ?s' = live s + 1"
    using s1 by (simp_all add: set_task_def set_inode_def set_file_def)
  moreover have "sync_frame s ?s'"
  proof -
    note s1(13)
    also have "sync_frame s1 (set_file g ?f s1)" by (simp add: set_file_def)
    also have "sync_frame (set_file g ?f s1) ?s2" by simp
    also have "sync_frame ?s2 ?s'" by simp
    finally show ?thesis .
  qed
  ultimately show ?thesis using run ok op by blast
qed

text \<open>The name is the \<open>k\<close>-th entry of the \<open>n\<close>-th block of the root directory, its inode \<open>no\<close> is on the disk, with the
  blocks \<open>js\<close>, and not open; there are free entries \<open>g\<close> and \<open>l\<close>, and the next six requests are met.\<close>

definition entry_of :: "(nat \<Rightarrow> buf) \<Rightarrow> inode \<Rightarrow> buf \<Rightarrow> u32 \<Rightarrow> nat \<Rightarrow> nat \<Rightarrow> bool" where
  "entry_of im i name no n k \<longleftrightarrow>
     length (i_sectors i) = 13 \<and> i_sectors i ! 12 = 0 \<and> n < 12 \<and> k < 21 \<and> on_disk (i_sectors i ! n) \<and>
     (\<forall>m < n. i_sectors i ! m = 0 \<or> on_disk (i_sectors i ! m) \<and> not_named name (im (unat (i_sectors i ! m))) 21) \<and>
     not_named name (im (unat (i_sectors i ! n))) k \<and> terminated (entry_text (im (unat (i_sectors i ! n))) k) \<and>
     cstr (entry_text (im (unat (i_sectors i ! n))) k) = name \<and> entry_inode (im (unat (i_sectors i ! n))) k = no"

definition can_open :: "part_ptr \<Rightarrow> disk_ptr \<Rightarrow> super_block \<Rightarrow> partition \<Rightarrow> inode \<Rightarrow> buf \<Rightarrow> u32 \<Rightarrow> inode \<Rightarrow> nat list \<Rightarrow> nat \<Rightarrow> nat \<Rightarrow>
    'z fstate_scheme \<Rightarrow> bool" where
  "can_open p hdd b x r name no i js g l s \<longleftrightarrow>
     part_ok p hdd b x s \<and> layout_ok b x \<and> cur_part s = Some p \<and> dir_entry_size b = 24 \<and> used (block_bitmap x) 0 \<and>
     inodes s (root_dir_inode s) = Some r \<and> (\<exists>n k. entry_of (disk_of hdd s) r name no n k) \<and>
     unat no < 4096 \<and> i = inode_of_bytes (inode_at (disk_of hdd s) b (unat no)) \<and> i_no i = no \<and> write_deny i = 0 \<and>
     file_blocks b x i js \<and>
     (\<exists>as t. opened p as s \<and> find (has_number s no) as = None \<and> malloc_at s (malloc_no s + 2) \<notin> set as \<and> free_slots g l t s) \<and>
     (\<forall>q < 6. malloc_at s (malloc_no s + q) \<noteq> 0)"

lemma file_blocks_fields:
  "file_blocks b x i js \<Longrightarrow> file_blocks b x (i\<lparr>i_open_cnts := c, write_deny := d\<rparr>) js"
  by (simp add: file_blocks_def has_blocks_def)

lemma sys_open_existing:
  assumes "can_open p hdd b x r (cstr fn) no i js g l s" and "flags = 1 \<or> flags = 2"
    and "terminated fn" and "cstr fn \<noteq> []" and "length (cstr fn) < 16"
  defines "a \<equiv> malloc_at s (malloc_no s + 2)"
  shows "\<exists>s'. sys_open (0x2f # fn) flags s = Inr (of_nat l, s') \<and> fd_local2global (of_nat l) s' = Inr (of_nat g) \<and>
           get_file g s' = Inr \<lparr>fd_pos = 0, fd_flag = ucast flags, fd_inode = a\<rparr> \<and>
           open_file_ok p hdd b x g a (i\<lparr>i_open_cnts := 1, write_deny := 1\<rparr>) js s' \<and> disk_of hdd s' = disk_of hdd s \<and>
           inodes s' = (inodes s)(a \<mapsto> i\<lparr>i_open_cnts := 1, write_deny := 1\<rparr>) \<and> (\<exists>as. opened p (a # as) s') \<and>
           malloc_at s' = malloc_at s \<and> malloc_no s' = malloc_no s + 4 \<and> live s' = live s + 3 \<and> sync_frame s s'"
proof -
  obtain as t n k where c: "part_ok p hdd b x s" "layout_ok b x" "cur_part s = Some p" "dir_entry_size b = 24"
    "used (block_bitmap x) 0" "inodes s (root_dir_inode s) = Some r" "entry_of (disk_of hdd s) r (cstr fn) no n k"
    "unat no < 4096" "i = inode_of_bytes (inode_at (disk_of hdd s) b (unat no))" "i_no i = no" "write_deny i = 0" "file_blocks b x i js"
    "opened p as s" "find (has_number s no) as = None" "a \<notin> set as" "free_slots g l t s"
    using assms(1) unfolding can_open_def a_def by blast
  have m: "malloc_at s (malloc_no s + q) \<noteq> 0" if "q < 6" for q using assms(1) that unfolding can_open_def by blast
  have m4: "malloc_at s (malloc_no s) \<noteq> 0" "malloc_at s (Suc (malloc_no s)) \<noteq> 0" "a \<noteq> 0" "malloc_at s (malloc_no s + 3) \<noteq> 0"
    using m [of 0] m [of 1] m [of 2] m [of 3] by (simp_all add: a_def)
  let ?s0 = "s\<lparr>malloc_no := Suc (Suc (malloc_no s)), live := Suc (Suc (live s))\<rparr>"
  obtain s1 where s1: "search_file (0x2f # fn) s = Inr (no, s1)" "io hdd (disk_of hdd s) ?s0 s1"
    using search_file_ok [OF c(1,3,4,6) _ _ _ _ assms(3-5) _ _ _ _ _ m4(1,2)] c(7) unfolding entry_of_def by blast
  have sec: "sectors (disk_of hdd s)" using c(1) by (simp add: part_ok_def disk_ready_def)
  have "part_ok p hdd b x ?s0" using c(1) by simp
  then have ok1: "part_ok p hdd b x s1" by (rule part_ok_io [OF _ s1(2) sec])
  have fs1: "inodes s1 = inodes s" "cur_part s1 = cur_part s" "root_dir_inode s1 = root_dir_inode s" "file_table s1 = file_table s"
    "tasks s1 = tasks s" "running s1 = running s" "malloc_at s1 = malloc_at s" "malloc_no s1 = malloc_no s + 2" "live s1 = live s + 2"
    "disk_of hdd s1 = disk_of hdd s" "queue s1 q xs = queue s q xs" for q xs
    using io_fstate [OF s1(2)] io_frame [OF s1(2)] io_disk [OF s1(2)] by (simp_all add: queue_def dll_def)
  have pre: "cur_part s1 = Some p" "opened p as s1" "find (has_number s1 no) as = None" "free_slots g l t s1"
    "malloc_at s1 (malloc_no s1) = a" "malloc_at s1 (Suc (malloc_no s1)) \<noteq> 0"
    "write_deny (inode_of_bytes (inode_at (disk_of hdd s1) b (unat no))) = 0"
    using c(3,9,11,13,14,16) m4(4) fs1
    by (simp_all add: opened_def free_slots_def numeral_3_eq_3 a_def has_number_def [abs_def])
  obtain s2 where r: "file_open no flags s1 = Inr (of_nat l, s2)" "part_ok p hdd b x s2" "opened p (a # as) s2"
    "disk_of hdd s2 = disk_of hdd s" "inodes s2 = (inodes s)(a \<mapsto> i\<lparr>i_open_cnts := 1, write_deny := 1\<rparr>)"
    "file_table s2 = (file_table s)[g := \<lparr>fd_pos = 0, fd_flag = ucast flags, fd_inode = a\<rparr>]"
    "tasks s2 = (tasks s)(running s \<mapsto> t\<lparr>fd_table := (fd_table t)[l := of_nat g]\<rparr>)" "running s2 = running s"
    "cur_part s2 = cur_part s" "malloc_at s2 = malloc_at s" "malloc_no s2 = malloc_no s + 4" "live s2 = live s + 3"
    "sync_frame s1 s2"
    using file_open_ok [OF ok1 c(2) pre(1-3) c(8) pre(4) assms(2) pre(5) m4(3) pre(6) c(15) pre(7)]
    unfolding fs1 c(9) [symmetric] by auto
  have "no \<noteq> -1" using c(8) by (auto simp: unsigned_minus_1_eq_mask mask_eq_exp_minus_1)
  moreover have "O_CREAT AND flags = 0" using assms(2) by (auto simp: O_CREAT_def)
  ultimately have run: "sys_open (0x2f # fn) flags s = Inr (of_nat l, s2)" using s1(1) r(1) by (simp add: sys_open_def Let_def)
  have gl: "g < 32" "l < 8" "length (file_table s) = 32" "length (fd_table t) = 8" using c(16) by (simp_all add: free_slots_def)
  have fd: "fd_local2global (of_nat l) s2 = Inr (of_nat g)"
    by (rule fd_local2global_ok [where t = "t\<lparr>fd_table := (fd_table t)[l := of_nat g]\<rparr>"]) (use r(7,8) gl in simp_all)
  have gf: "get_file g s2 = Inr \<lparr>fd_pos = 0, fd_flag = ucast flags, fd_inode = a\<rparr>" using r(6) gl by (simp add: get_file_def)
  have "open_file_ok p hdd b x g a (i\<lparr>i_open_cnts := 1, write_deny := 1\<rparr>) js s2"
    using r(2,5,6,9) c(2,3,5,8,10) file_blocks_fields [OF c(12)] gl by (simp add: open_file_ok_def)
  moreover have "sync_frame s s2"
  proof -
    have "sync_frame s ?s0" by simp
    also have "sync_frame ?s0 s1" by (rule sync_frame_io [OF s1(2)])
    also note r(13)
    finally show ?thesis .
  qed
  ultimately show ?thesis using run fd gf r(3-5,10-12) by blast
qed

lemma open_then_write:
  assumes "can_open p hdd b x r (cstr fn) no i js g l s" and "flags = 1 \<or> flags = 2"
    and "terminated fn" and "cstr fn \<noteq> []" and "length (cstr fn) < 16" and "\<not> straddles (unat no)"
    and "0 < count" and "unat count \<le> length src" and "unat (i_size i) + unat count < 6144"
    and "(unat (i_size i) + unat count) div 512 + 1 - length js \<le> card (free_blocks x)"
  shows "\<exists>s1 s2 i' ns. sys_open (0x2f # fn) flags s = Inr (of_nat l, s1) \<and>
           sys_write (of_nat l) src count s1 = Inr (([], count), s2) \<and>
           file_content b (disk_of hdd s2) (js @ ns) (unat (i_size i) + unat count) =
             file_content b (disk_of hdd s) js (unat (i_size i)) @ take (unat count) src \<and> set ns \<subseteq> free_blocks x \<and>
           inode_at (disk_of hdd s2) b (unat no) = inode_bytes i' \<and> i_no i' = no \<and> unat (i_size i') = unat (i_size i) + unat count \<and>
           (\<forall>m < length (js @ ns). i_sectors i' ! m = block_lba b ((js @ ns) ! m)) \<and>
           (\<forall>m < 4096. m \<noteq> unat no \<longrightarrow> inode_at (disk_of hdd s2) b m = inode_at (disk_of hdd s) b m) \<and>
           (\<forall>m. m \<notin> set (js @ ns) \<longrightarrow> disk_of hdd s2 (unat (data_start_lba b) + m) = disk_of hdd s (unat (data_start_lba b) + m)) \<and>
           live s2 = live s + 3 \<and> fd_local2global (of_nat l) s2 = Inr (of_nat g) \<and> g < length (file_table s2) \<and> g < 32 \<and> l < 32 \<and>
           sync_frame s s1 \<and> sync_frame s1 s2"
proof -
  let ?a = "malloc_at s (malloc_no s + 2)" and ?i = "i\<lparr>i_open_cnts := 1, write_deny := 1\<rparr>"
  have c: "i_no i = no" "\<exists>t. free_slots g l t s" and m: "\<And>q. q < 6 \<Longrightarrow> malloc_at s (malloc_no s + q) \<noteq> 0"
    using assms(1) unfolding can_open_def by blast+
  then have gl: "2 \<le> l" "l < 32" "g < 32" by (auto simp: free_slots_def)
  obtain s1 where o: "sys_open (0x2f # fn) flags s = Inr (of_nat l, s1)" "fd_local2global (of_nat l) s1 = Inr (of_nat g)"
    "get_file g s1 = Inr \<lparr>fd_pos = 0, fd_flag = ucast flags, fd_inode = ?a\<rparr>"
    "open_file_ok p hdd b x g ?a ?i js s1" "disk_of hdd s1 = disk_of hdd s"
    "malloc_at s1 = malloc_at s" "malloc_no s1 = malloc_no s + 4" "live s1 = live s + 3"
    "sync_frame s s1"
    using sys_open_existing [OF assms(1-5)] by blast
  have e: "\<not> straddles (unat (i_no ?i))" "unat (i_size ?i) + unat count < 6144"
    "(unat (i_size ?i) + unat count) div 512 + 1 - length js \<le> card (free_blocks x)"
    "malloc_at s1 (malloc_no s1) \<noteq> 0" "malloc_at s1 (Suc (malloc_no s1)) \<noteq> 0"
    using assms(6,9,10) c(1) m [of 4] m [of 5] o(6,7) by (simp_all add: add.commute [of 5])
  obtain x' i' ns s2 where w: "file_write g src count s1 = Inr (count, s2)" "open_file_ok p hdd b x' g ?a i' (js @ ns) s2"
    "unat (i_size i') = unat (i_size ?i) + unat count" "i_no i' = i_no ?i"
    "file_content b (disk_of hdd s2) (js @ ns) (unat (i_size i')) =
       file_content b (disk_of hdd s1) js (unat (i_size ?i)) @ take (unat count) src" "set ns \<subseteq> free_blocks x"
    "inode_at (disk_of hdd s2) b (unat (i_no ?i)) = inode_bytes (i'\<lparr>i_open_cnts := 0, write_deny := 0\<rparr>)"
    "\<forall>m < 4096. m \<noteq> unat (i_no ?i) \<longrightarrow> inode_at (disk_of hdd s2) b m = inode_at (disk_of hdd s1) b m"
    "\<forall>m. m \<notin> set (js @ ns) \<longrightarrow> disk_of hdd s2 (unat (data_start_lba b) + m) = disk_of hdd s1 (unat (data_start_lba b) + m)"
    "live s2 = live s1" "sync_frame s1 s2" "tasks s2 = tasks s1"
    using file_write_ok [OF o(4) e(1) assms(7,8) e(2-5)] by blast
  have "has_blocks b x' i' (js @ ns)" using w(2) by (simp add: open_file_ok_def file_blocks_def)
  then have sect: "\<forall>m < length (js @ ns). i_sectors i' ! m = block_lba b ((js @ ns) ! m)" by (auto simp: has_blocks_def)
  have "(ucast flags :: u32) AND 1 \<noteq> 0 \<or> (ucast flags :: u32) AND 2 \<noteq> 0" using assms(2) by auto
  then have "sys_write (of_nat l) src count s1 = Inr (([], count), s2)"
    by (intro sys_write_file [OF o(2) gl(3) o(3) _ refl gl(1,2) w(1)]) simp
  moreover have "fd_local2global (of_nat l) s2 = Inr (of_nat g)"
    using o(2) w(11,12) by (simp add: fd_local2global_def get_task_def sync_frame_def)
  moreover have "g < length (file_table s2)" using w(2) by (simp add: open_file_ok_def)
  ultimately show ?thesis
    using o(1,5,8,9) w(3-11) sect c(1) gl
    by (intro exI [of _ s1] exI [of _ s2] exI [of _ "i'\<lparr>i_open_cnts := 0, write_deny := 0\<rparr>"] exI [of _ ns] conjI) simp_all
qed

section \<open>One writer at a time\<close>

lemma slot_from_free: "slot_from tab k = Inr (of_nat g) \<Longrightarrow> g < 32 \<Longrightarrow> length tab = 32 \<Longrightarrow> fd_inode (tab ! g) = 0"
proof (induction tab k rule: slot_from.induct)
  case (1 tab k)
  have g: "unat (of_nat g :: u32) = g" "(of_nat g :: u32) \<noteq> -1" using small_word [OF 1(3)] by simp_all
  show ?case
  proof (cases "k < 32 \<and> fd_inode (tab ! k) = 0")
    case True
    then have "(of_nat k :: u32) = of_nat g" using 1(2,4) slot_from.simps [of tab k] by simp
    then have "k = g" using True g(1) by (metis small_word(1))
    then show ?thesis using True by simp
  next
    case False
    have k: "k < 32" using 1(2) g(2) slot_from.simps [of tab k] by (auto split: if_splits)
    then have "slot_from tab (k + 1) = Inr (of_nat g)" using False 1(2,4) slot_from.simps [of tab k] by simp
    then show ?thesis using 1(1) [of "tab ! k"] False k 1(3,4) by simp
  qed
qed

text \<open>C13: A second writer is refused.  Opening for writing an inode that is open and denied to writers gives -1, no
  descriptor, and leaves the disk alone.  But the refused attempt keeps what it took: the inode is counted
  once more, and the entry of the system's table it took stays in use.\<close>

theorem second_writer_is_refused:
  assumes "free_slots g l t s" and "cur_part s = Some p" and "opened p as s" and "find (has_number s no) as = Some a"
    and "inodes s a = Some i" and "write_deny i \<noteq> 0" and "flags = 1 \<or> flags = 2" and "a \<noteq> 0"
  shows "\<exists>s'. file_open no flags s = Inr (-1, s') \<and> tasks s' = tasks s \<and> disk_of hdd s' = disk_of hdd s \<and>
           inodes s' = (inodes s)(a \<mapsto> i\<lparr>i_open_cnts := i_open_cnts i + 1\<rparr>) \<and>
           fd_inode (file_table s ! g) = 0 \<and> fd_inode (file_table s' ! g) = a \<and> get_free_slot_in_global s' \<noteq> Inr (of_nat g)"
proof -
  let ?i = "i\<lparr>i_open_cnts := i_open_cnts i + 1\<rparr>"
  let ?s' = "set_file g \<lparr>fd_pos = 0, fd_flag = ucast flags, fd_inode = a\<rparr> (set_inode a ?i s)"
  have g: "g < 32" "length (file_table s) = 32" "fd_inode (file_table s ! g) = 0" using assms(1) by (simp_all add: free_slots_def)
  have "inodes (set_inode a ?i s) a = Some ?i" by simp
  then have run: "file_open no flags s = Inr (-1, ?s')"
    using file_open_writer [OF get_free_slot_ok [OF assms(1)] g(1) assms(2) inode_open_shared [OF assms(3-5)] _ assms(7)] assms(6)
    by simp
  have slot: "fd_inode (file_table ?s' ! g) = a" using g(1,2) by (simp add: set_file_def set_inode_def)
  then have "get_free_slot_in_global ?s' \<noteq> Inr (of_nat g)"
    using slot_from_free [of "file_table ?s'" 3 g] g(1,2) assms(8) by (auto simp: get_free_slot_in_global_def set_file_def set_inode_def)
  moreover have "tasks ?s' = tasks s" "disk_of hdd ?s' = disk_of hdd s" "inodes ?s' = (inodes s)(a \<mapsto> ?i)"
    by (simp_all add: set_file_def set_inode_def disk_of_def)
  ultimately show ?thesis using run g(3) slot by blast
qed

section \<open>A disk with a file\<close>

text \<open>The root directory has \<open>.\<close> and \<open>file1\<close>, inode 1, 510 bytes long in block 2.\<close>

definition file1_name :: buf where
  "file1_name = [0x66, 0x69, 0x6c, 0x65, 0x31]"

definition file1_inode :: inode where
  "file1_inode = (demo_inode 1)\<lparr>i_open_cnts := 0, write_deny := 0\<rparr>"

definition file1_dir :: buf where
  "file1_dir = dir_entry [0x2e] 0 2 @ dir_entry file1_name 1 1 @ replicate 464 0"

definition file1_disk :: "nat \<Rightarrow> buf" where
  "file1_disk l =
     (if l = 676 then file1_dir else if l = 68 then replicate 76 0 @ inode_bytes file1_inode @ replicate 360 0 else replicate 512 0xaa)"

definition file1_fs :: fstate where
  "file1_fs = demo_fs (\<lambda>_ _. file1_disk) [0 \<mapsto> demo_root]"

lemma length_file1_disk: "length (file1_disk l) = 512"
  by (simp add: file1_disk_def file1_dir_def dir_entry_def file1_name_def length_inode_bytes file1_inode_def demo_inode_def)

lemma file1_entry: "entry_of file1_disk demo_root file1_name 1 0 1"
proof -
  have d: "file1_disk 676 = file1_dir" by (simp add: file1_disk_def)
  have len: "length (dir_entry [0x2e] 0 2) = 24" "length (dir_entry file1_name 1 1) = 24" by (simp_all add: dir_entry_def file1_name_def)
  have t: "entry_text file1_dir 0 = [0x2e] @ 0 # replicate 14 0" "entry_text file1_dir 1 = file1_name @ 0 # replicate 10 0"
    by (simp_all add: entry_text_def file1_dir_def len del: replicate.simps)
      (simp_all add: dir_entry_def file1_name_def, simp_all add: numeral_eq_Suc)
  have "entry_inode file1_dir 1 = 1"
    by (simp add: entry_inode_def file1_dir_def len) (simp add: dir_entry_def file1_name_def le32_def of_le32_def)
  moreover have "terminated (entry_text file1_dir 0)" "cstr (entry_text file1_dir 0) = [0x2e]"
    unfolding t(1) by (rule terminated_append_nul, rule cstr_append_nul, simp)
  moreover have "terminated (entry_text file1_dir 1)" "cstr (entry_text file1_dir 1) = file1_name"
    unfolding t(2) by (rule terminated_append_nul, rule cstr_append_nul, simp add: file1_name_def)
  ultimately show ?thesis
    using d by (simp add: entry_of_def demo_root_def on_disk_def not_named_def) (simp add: file1_name_def)
qed

lemma file1_inode_at: "inode_at file1_disk demo_sb 1 = inode_bytes file1_inode"
proof (rule nth_equalityI)
  have l: "length (inode_bytes file1_inode) = 76" by (rule length_inode_bytes) (simp add: file1_inode_def demo_inode_def)
  then show "length (inode_at file1_disk demo_sb 1) = length (inode_bytes file1_inode)" by (simp add: inode_at_def)
  fix k assume "k < length (inode_at file1_disk demo_sb 1)"
  then have k: "k < 76" by (simp add: inode_at_def)
  then have "inode_at file1_disk demo_sb 1 ! k = file1_disk 68 ! (76 + k)"
    by (simp add: inode_at_def disk_bytes_def disk_byte_def demo_sb_def del: upt_rec_numeral)
  then show "inode_at file1_disk demo_sb 1 ! k = inode_bytes file1_inode ! k"
    using k l by (simp add: file1_disk_def nth_append)
qed

lemma file1_can_open:
  "can_open ((0, 1), 0) (0, 1) demo_sb demo_part demo_root file1_name 1 file1_inode [2] 3 3 file1_fs"
proof -
  have "part_ok ((0, 1), 0) (0, 1) demo_sb demo_part file1_fs" "opened ((0, 1), 0) [] file1_fs"
    unfolding file1_fs_def by (rule demo_fs_ok, simp add: length_file1_disk)+
  moreover have o: "open_file_ok ((0, 1), 0) (0, 1) demo_sb demo_part 3 0x1000 (demo_inode 1) [2] (demo_open 1)"
    by (rule demo_open_ok) simp
  then have "layout_ok demo_sb demo_part" "used (block_bitmap demo_part) 0" "file_blocks demo_sb demo_part (demo_inode 1) [2]"
    by (simp_all add: open_file_ok_def)
  moreover from calculation(5) have "file_blocks demo_sb demo_part file1_inode [2]" unfolding file1_inode_def by (rule file_blocks_fields)
  moreover have "free_slots 3 3 demo_task file1_fs" by (simp add: free_slots_def file1_fs_def demo_task_def)
  moreover have d: "disk_of (0, 1) file1_fs = file1_disk" by (simp add: file1_fs_def)
  moreover have inv: "inode_of_bytes (inode_bytes file1_inode) = file1_inode"
    by (rule inode_of_bytes_inverse) (simp_all add: file1_inode_def demo_inode_def)
  moreover have "inode_of_bytes (inode_at (disk_of (0, 1) file1_fs) demo_sb (unat (1 :: u32))) = file1_inode"
    unfolding d unsigned_1 file1_inode_at by (rule inv)
  moreover have "\<forall>q < 6. malloc_at file1_fs (malloc_no file1_fs + q) \<noteq> 0"
  proof (intro allI impI)
    fix q :: nat assume "q < 6"
    then have "q \<in> {0, 1, 2, 3, 4, 5}" by auto
    then show "malloc_at file1_fs (malloc_no file1_fs + q) \<noteq> 0" by (auto simp: file1_fs_def)
  qed
  moreover have "cur_part file1_fs = Some ((0, 1), 0)" "inodes file1_fs (root_dir_inode file1_fs) = Some demo_root"
    by (simp_all add: file1_fs_def)
  moreover have "dir_entry_size demo_sb = 24" "i_no file1_inode = 1" "write_deny file1_inode = 0"
    by (simp_all add: demo_sb_def file1_inode_def demo_inode_def)
  ultimately show ?thesis unfolding can_open_def using file1_entry
    by (intro conjI exI [of _ 0] exI [of _ 1] exI [of _ "[]"] exI [of _ demo_task]) simp_all
qed

text \<open>C8: Writing to an existing file appends.  \<open>sys_open\<close> finds the name, reads the inode from the disk and
  installs a descriptor; \<open>sys_write\<close> through it puts the bytes behind those the file has: on the disk the content is the
  old one followed by the bytes written, the inode has the new size and the addresses of the blocks, and no other
  inode and no other block changes.  Three heap objects stay: the inode and the two buffers of the search.
  The file is opened for writing only or for both; as for a new file the inode must not straddle two sectors
  (\<open>\<not> straddles (unat no)\<close>), the file stays within its direct blocks and the free blocks suffice.\<close>

theorem existing_file_is_appended:
  assumes "can_open p hdd b x r (cstr fn) no i js g l s" and "flags = 1 \<or> flags = 2"
    and "terminated fn" and "cstr fn \<noteq> []" and "length (cstr fn) < 16" and "\<not> straddles (unat no)"
    and "0 < count" and "unat count \<le> length src" and "unat (i_size i) + unat count < 6144"
    and "(unat (i_size i) + unat count) div 512 + 1 - length js \<le> card (free_blocks x)"
  shows "\<exists>s1 s2 i' ns. sys_open (0x2f # fn) flags s = Inr (of_nat l, s1) \<and>
           sys_write (of_nat l) src count s1 = Inr (([], count), s2) \<and>
           file_content b (disk_of hdd s2) (js @ ns) (unat (i_size i) + unat count) =
             file_content b (disk_of hdd s) js (unat (i_size i)) @ take (unat count) src \<and> set ns \<subseteq> free_blocks x \<and>
           inode_at (disk_of hdd s2) b (unat no) = inode_bytes i' \<and> i_no i' = no \<and> unat (i_size i') = unat (i_size i) + unat count \<and>
           (\<forall>m < length (js @ ns). i_sectors i' ! m = block_lba b ((js @ ns) ! m)) \<and>
           (\<forall>m < 4096. m \<noteq> unat no \<longrightarrow> inode_at (disk_of hdd s2) b m = inode_at (disk_of hdd s) b m) \<and>
           (\<forall>m. m \<notin> set (js @ ns) \<longrightarrow> disk_of hdd s2 (unat (data_start_lba b) + m) = disk_of hdd s (unat (data_start_lba b) + m)) \<and>
           live s2 = live s + 3"
  using open_then_write [OF assms] by blast

lemma file1_text: "terminated (file1_name @ [0])" "cstr (file1_name @ [0]) = file1_name" "file1_name \<noteq> []" "length file1_name < 16"
  by (rule terminated_append_nul, rule cstr_append_nul) (simp_all add: file1_name_def)

lemma file1_room: "(unat (i_size file1_inode) + 6) div 512 + 1 - length [2 :: nat] \<le> card (free_blocks demo_part)"
  using demo_write_room(4) by (simp add: file1_inode_def demo_inode_def)

lemma file1_content: "file_content demo_sb (disk_of (0, 1) file1_fs) [2] 510 = replicate 510 0xaa"
  by (rule nth_equalityI) (simp_all add: file_content_def file1_fs_def file1_disk_def demo_sb_def)

theorem existing_file_is_appended_witness:
  "\<exists>s1 s2 ns. sys_open (0x2f # file1_name @ [0]) 2 file1_fs = Inr (3, s1) \<and>
     sys_write 3 [1, 2, 3, 4, 5, 6] 6 s1 = Inr (([], 6), s2) \<and>
     file_content demo_sb (disk_of (0, 1) s2) ([2] @ ns) 516 = replicate 510 0xaa @ [1, 2, 3, 4, 5, 6]"
proof -
  have p: "\<not> straddles (unat (1 :: u32))" "(0 :: u32) < 6" "unat (6 :: u32) \<le> length [1, 2, 3, 4, 5, 6 :: u8]"
    "unat (i_size file1_inode) + unat (6 :: u32) < 6144" "unat (i_size file1_inode) = 510" "unat (6 :: u32) = 6"
    "(2 :: u8) = 1 \<or> (2 :: u8) = 2"
    by (simp_all add: straddles_def file1_inode_def demo_inode_def)
  have co: "can_open ((0, 1), 0) (0, 1) demo_sb demo_part demo_root (cstr (file1_name @ [0])) 1 file1_inode [2] 3 3 file1_fs"
    using file1_can_open by (simp only: file1_text(2))
  obtain s1 s2 ns where "sys_open (0x2f # file1_name @ [0]) 2 file1_fs = Inr (of_nat 3, s1)"
    "sys_write (of_nat 3) [1, 2, 3, 4, 5, 6] 6 s1 = Inr (([], 6), s2)"
    "file_content demo_sb (disk_of (0, 1) s2) ([2] @ ns) (510 + 6) =
       file_content demo_sb (disk_of (0, 1) file1_fs) [2] 510 @ take 6 [1, 2, 3, 4, 5, 6]"
    using existing_file_is_appended [OF co p(7) file1_text(1) _ _ p(1-4)] file1_text(2-4) file1_room unfolding p(5,6) by auto
  then show ?thesis unfolding file1_content by auto
qed

theorem second_writer_is_refused_witness:
  "\<exists>s1 s2. file_open 1 2 file1_fs = Inr (3, s1) \<and> file_open 1 2 s1 = Inr (-1, s2) \<and> fd_inode (file_table s2 ! 4) \<noteq> 0"
proof -
  let ?p = "((0, 1), 0)" and ?a = "malloc_at file1_fs (malloc_no file1_fs)"
  let ?f = "\<lparr>fd_pos = 0, fd_flag = ucast (2 :: u8), fd_inode = ?a\<rparr>"
  have c: "part_ok ?p (0, 1) demo_sb demo_part file1_fs" "layout_ok demo_sb demo_part" "cur_part file1_fs = Some ?p"
    "file1_inode = inode_of_bytes (inode_at (disk_of (0, 1) file1_fs) demo_sb (unat (1 :: u32)))" "write_deny file1_inode = 0" "i_no file1_inode = 1"
    using file1_can_open by (auto simp only: can_open_def)
  have o: "opened ?p [] file1_fs" unfolding file1_fs_def by (rule demo_fs_ok) (simp add: length_file1_disk)
  have sl: "free_slots 3 3 demo_task file1_fs" by (simp add: free_slots_def file1_fs_def demo_task_def)
  have m: "?a \<noteq> 0" "malloc_at file1_fs (Suc (malloc_no file1_fs)) \<noteq> 0" by (simp_all add: file1_fs_def)
  have h: "find (has_number file1_fs 1) [] = None" "unat (1 :: u32) < 4096" "(2 :: u8) = 1 \<or> (2 :: u8) = 2" "?a \<notin> set []" by simp_all
  obtain s1 where r: "file_open 1 2 file1_fs = Inr (of_nat 3, s1)" "opened ?p [?a] s1"
    "inodes s1 = (inodes file1_fs)(?a \<mapsto> file1_inode\<lparr>i_open_cnts := 1, write_deny := 1\<rparr>)"
    "file_table s1 = (file_table file1_fs)[3 := ?f]" "running s1 = running file1_fs" "cur_part s1 = cur_part file1_fs"
    "tasks s1 = (tasks file1_fs)(running file1_fs \<mapsto> demo_task\<lparr>fd_table := (fd_table demo_task)[3 := of_nat 3]\<rparr>)"
    using file_open_ok [OF c(1-3) o h(1,2) sl h(3) refl m h(4) c(5) [unfolded c(4)]] unfolding c(4) [symmetric] by (elim exE conjE) blast
  have g: "m = 3" if "3 \<le> m" "m < 4" for m :: nat using that by simp
  have s4: "free_slots 4 4 (demo_task\<lparr>fd_table := (fd_table demo_task)[3 := of_nat 3]\<rparr>) s1"
    using r(4,5,7) m(1) by (auto simp: free_slots_def file1_fs_def demo_task_def dest!: g)
  have i1: "inodes s1 ?a = Some (file1_inode\<lparr>i_open_cnts := 1, write_deny := 1\<rparr>)" using r(3) by simp
  then have f: "find (has_number s1 1) [?a] = Some ?a" using c(6) by (simp add: has_number_def)
  show ?thesis
    using second_writer_is_refused [OF s4 _ r(2) f i1 _ h(3) m(1)] r(1,6) c(3) m(1) by fastforce
qed

end
