(* ===== verification/Printing.thy ===== *)
theory Printing
  imports Inode
begin

text \<open>
  Printing from the kernel: what \<open>printk\<close> does when nobody holds the console, and \<open>panic_spin\<close> of \<open>lib/kernel/debug.c\<close>, which
  prints on its way to the stop.
\<close>

section \<open>The console\<close>

definition console_free :: "'z kstate_scheme \<Rightarrow> bool" where
  "console_free s \<longleftrightarrow> lock_free Console_lock s \<and> holder_repeat_nr (locks s Console_lock) = 0"

lemma console_free_frame: "console_free s \<Longrightarrow> sync_frame s s' \<Longrightarrow> console_free s'"
  by (simp add: console_free_def sync_frame_def lock_free_def)

text \<open>A call of the console takes the lock and gives it back.\<close>

lemma console_put_str_ok:
  assumes "console_free s" and "terminated t"
  shows "console_put_str t s = Inr ([Call_put_str (cstr t)], s)"
proof -
  have f: "lock_free Console_lock s" "locks s Console_lock = \<lparr>holder = 0, holder_repeat_nr = 0\<rparr>" "sema_value s (Lock_sema Console_lock) = 1"
    using assms(1) by (simp_all add: console_free_def lock_free_def)
  have "lock_freed Console_lock s = s" unfolding lock_freed_def by (simp add: fun_upd_idem f(2,3))
  then show ?thesis
    using lock_acquire_free [OF f(1)] lock_release_held [OF f(1)] assms(2)
    by (simp add: console_put_str_def console_acquire_def console_release_def screen_text_def)
qed

lemma printk_ok:
  assumes "console_free s" and "format_text mem format args = Some out" and "length out < 1024"
  shows "printk mem format args s = Inr ([Call_put_str (cstr out)], s)"
proof -
  obtain k where "1024 - length out = Suc k" using assms(3) by (metis Suc_diff_Suc)
  then have z: "replicate (1024 - length out) 0 = 0 # replicate k (0 :: u8)" by simp
  have "terminated (out @ replicate (1024 - length out) 0)" unfolding z by (rule terminated_append_nul)
  from console_put_str_ok [OF assms(1) this] show ?thesis
    using vsprintf_ok [OF assms(2,3)] by (simp add: printk_def z cstr_zero)
qed

text \<open>The console held by another thread, the running thread is a thread of its own and not the idle one.\<close>

definition console_busy :: "(u32 \<Rightarrow> u32) \<Rightarrow> asched \<Rightarrow> u32 list \<Rightarrow> 'z kstate_scheme \<Rightarrow> bool" where
  "console_busy phys a ws s \<longleftrightarrow>
     sched_ok phys s a \<and> queue s (Waiters (Lock_sema Console_lock)) (map General_tag ws) \<and>
     (\<forall>t \<in> set ws. a_status a t = Some TASK_BLOCKED) \<and> idle_thread s \<notin> set ws \<and> running s \<noteq> idle_thread s \<and>
     sema_value s (Lock_sema Console_lock) = 0 \<and> holder (locks s Console_lock) \<noteq> running s"

lemma console_disabled:
  "console_free s \<Longrightarrow> console_free (snd (intr_disable s))"
  "console_busy phys a ws s \<Longrightarrow> console_busy phys a ws (snd (intr_disable s))"
proof -
  let ?d = "snd (intr_disable s)"
  show "console_free ?d" if "console_free s" using that by (simp add: console_free_def lock_free_def)
  show "console_busy phys a ws ?d" if "console_busy phys a ws s"
    using that sched_ok_same [of phys s a ?d] by (simp add: console_busy_def fun_eq_iff)
qed

lemma console_put_str_busy: "console_busy phys a ws s \<Longrightarrow> console_put_str t s = Inl WouldBlock"
  using lock_busy [of phys s a Console_lock ws] by (simp add: console_busy_def console_put_str_def console_acquire_def)

lemma panic_line:
  "format_text (\<lambda>_. None) (c_string (''line : %d'' @ [CHR 0x0A])) [line] = Some (c_text ''line : '' @ decimal line @ [0x0a])"
  by (simp add: c_string_def c_text_def convertible_def arg_text_def of_char_def)

lemma panic_line_fits: "length (c_text ''line : '' @ decimal line @ [0x0a]) < 1024"
  using length_decimal_le [of line] by (simp add: c_text_def)

lemma cstr_all: "0 \<notin> set t \<Longrightarrow> cstr t = t"
  unfolding cstr_def by (rule takeWhile_eq_all_conv [THEN iffD2]) auto

lemma panic_line_cstr: "cstr (c_text ''line : '' @ decimal line @ [0x0a]) = c_text ''line : '' @ decimal line @ [0x0a]"
  using decimal_nonzero [of line] by (intro cstr_all) (auto simp: c_text_def of_char_def)

section \<open>Properties\<close>

text \<open>C35: A panic needs the console.  When nobody holds it, \<open>panic_spin\<close> prints file, line, function and condition and stops with
  interrupts off.  But when another thread holds it, \<open>printk\<close> puts the panicking thread to sleep: the other
  threads run on.\<close>

theorem panic_needs_the_console:
  assumes "terminated filename" and "terminated func" and "terminated condition"
  shows "(console_free s \<longrightarrow>
           panic_spin filename line func condition s =
             Inr ([Call_put_str ([0x0a] @ c_text ''error'' @ [0x0a]), Call_put_str (c_text ''filename:''), Call_put_str (cstr filename),
                   Call_put_str [0x0a], Call_put_str (c_text ''line : '' @ decimal line @ [0x0a]),
                   Call_put_str (c_text ''function:''), Call_put_str (cstr func), Call_put_str [0x0a],
                   Call_put_str (c_text ''condition:''), Call_put_str (cstr condition), Call_put_str [0x0a]], snd (intr_disable s))) \<and>
         (console_busy phys a ws s \<longrightarrow> panic_spin filename line func condition s = Inl WouldBlock)"
proof (intro conjI impI)
  let ?d = "snd (intr_disable s)"
  have t: "screen_text filename = Inr (cstr filename)" "screen_text func = Inr (cstr func)" "screen_text condition = Inr (cstr condition)"
    using assms by (simp_all add: screen_text_def)
  assume "console_free s"
  from printk_ok [OF console_disabled(1) [OF this] panic_line panic_line_fits] show
    "panic_spin filename line func condition s =
       Inr ([Call_put_str ([0x0a] @ c_text ''error'' @ [0x0a]), Call_put_str (c_text ''filename:''), Call_put_str (cstr filename),
             Call_put_str [0x0a], Call_put_str (c_text ''line : '' @ decimal line @ [0x0a]),
             Call_put_str (c_text ''function:''), Call_put_str (cstr func), Call_put_str [0x0a],
             Call_put_str (c_text ''condition:''), Call_put_str (cstr condition), Call_put_str [0x0a]], ?d)"
    by (simp add: panic_spin_def Let_def t panic_line_cstr)
next
  assume b: "console_busy phys a ws s"
  have "printk (\<lambda>_. None) (c_string (''line : %d'' @ [CHR 0x0A])) [line] (snd (intr_disable s)) = Inl WouldBlock"
    using vsprintf_ok [OF panic_line panic_line_fits] console_put_str_busy [OF console_disabled(2) [OF b]]
    by (simp add: printk_def)
  then show "panic_spin filename line func condition s = Inl WouldBlock"
    using assms by (simp add: panic_spin_def Let_def screen_text_def)
qed

definition demo_held :: kstate where
  "demo_held = demo_locked\<lparr>sema_value := (sema_value demo_locked)(Lock_sema Console_lock := 0),
     locks := (locks demo_locked)(Console_lock := \<lparr>holder = 0xc0101000, holder_repeat_nr = 1\<rparr>)\<rparr>"

text \<open>The same panic with the console free and with the console held.\<close>

theorem panic_needs_the_console_witness:
  "(\<exists>cs. panic_spin [0x61, 0] 7 [0x66, 0] [0x30, 0] demo_locked = Inr (cs, snd (intr_disable demo_locked))) \<and>
   panic_spin [0x61, 0] 7 [0x66, 0] [0x30, 0] demo_held = Inl WouldBlock"
proof -
  have t: "terminated [0x61, 0]" "terminated [0x66, 0]" "terminated [0x30, 0]" by (simp_all add: terminated_def)
  obtain a where a: "sched_ok (\<lambda>_. 0) demo_locked a" and f: "lock_free Console_lock demo_locked"
    using demo_locked_start by (auto simp: lock_start_def)
  then have "console_free demo_locked" by (simp add: console_free_def demo_locked_run)
  moreover have "sched_ok (\<lambda>_. 0) demo_held a" using sched_ok_same [OF a, of demo_held] by (simp add: demo_held_def fun_eq_iff)
  then have "console_busy (\<lambda>_. 0) a [] demo_held"
    using f by (simp add: console_busy_def demo_held_def demo_locked_run lock_free_def)
  ultimately show ?thesis
    using panic_needs_the_console [OF t, of demo_locked 7] panic_needs_the_console [OF t, of demo_held 7] by blast
qed

end
