(* ===== verification/Kernel_main.thy ===== *)
theory Kernel_main
  imports Syscalls Printing
begin

text \<open>
  \<open>main\<close> of \<open>kernel/main.c\<close> behind \<open>init_all\<close>: it opens \<open>/file1\<close>, appends a line, and reads.
\<close>

text \<open>\<open>buf_at\<close>: the address of the local array \<open>buf\<close>.  The screen calls are collected; \<open>main\<close> never returns.\<close>

definition main :: "u32 \<Rightarrow> 'z fstate_scheme \<Rightarrow> (screen_call list \<times> 'z fstate_scheme) res" where
  "main buf_at s =
     bindE (printk (\<lambda>_. None) (c_string (''-----helloooooooo'' @ [CHR 0x0A])) [] s) (\<lambda>(c1, s1).
     bindE (sys_open (c_string ''/file1'') 2 s1) (\<lambda>(fd, s2).
     bindE (sys_write fd (c_string (''hello'' @ [CHR 0x0A])) 6 s2) (\<lambda>((c2, n), s3).
     bindE (printk (\<lambda>_. None) (c_string (''finsh!'' @ [CHR 0x0A])) [] s3) (\<lambda>(c3, s4).
     let buf0 = replicate 64 0 in
     bindE (printk (\<lambda>_. None) (c_string (''%d'' @ [CHR 0x0A])) [fd] s4) (\<lambda>(c4, s5).
     bindE (sys_read fd (Some buf0) 6 s5) (\<lambda>((b, m), s6).
     bindE (printk (\<lambda>a. if a = buf_at then b else None) (c_string (''%s '' @ [CHR 0x0A])) [buf_at] s6) (\<lambda>(c5, s7).
       Inl Hang)))))))"

section \<open>Running it\<close>

lemma main_texts:
  "format_text mem (c_string (''-----helloooooooo'' @ [CHR 0x0A])) [] = Some (map (\<lambda>c. of_nat (of_char c)) (''-----helloooooooo'' @ [CHR 0x0A]))"
  "format_text mem (c_string (''finsh!'' @ [CHR 0x0A])) [] = Some (map (\<lambda>c. of_nat (of_char c)) (''finsh!'' @ [CHR 0x0A]))"
  "format_text mem (c_string (''%d'' @ [CHR 0x0A])) [fd] = Some (decimal fd @ [10])"
  "c_string ''/file1'' = 0x2f # file1_name @ [0]"
  by (simp_all add: c_string_def c_text_def convertible_def arg_text_def file1_name_def of_char_def)

lemma length_decimal: "l < 10 \<Longrightarrow> length (decimal (of_nat l)) = 1"
  using small_word [of l] by (simp add: decimal_def number_text_def digits.simps)

text \<open>C18: What \<open>main\<close> does.  On a disk with a file \<open>/file1\<close> whose inode does not straddle two sectors of the inode table
  (\<open>\<not> straddles (unat no)\<close>; on a straddling one \<open>file_write\<close> overruns its buffer), the line \<open>hello\<close> is appended to it,
  on the disk, when direct blocks and free blocks suffice and the console is free; the kernel then stops in the assertion that was left in
  \<open>file_read\<close>: nothing is read back.\<close>

theorem main_appends_and_stops:
  assumes "can_open p hdd b x r file1_name no i js g l s" and "console_free s" and "l < 8" and "\<not> straddles (unat no)"
    and "unat (i_size i) + 6 < 6144" and "(unat (i_size i) + 6) div 512 + 1 - length js \<le> card (free_blocks x)"
  shows "\<exists>s1 s2 ns. sys_open (c_string ''/file1'') 2 s = Inr (of_nat l, s1) \<and>
           sys_write (of_nat l) (c_string (''hello'' @ [CHR 0x0A])) 6 s1 = Inr (([], 6), s2) \<and>
           file_content b (disk_of hdd s2) (js @ ns) (unat (i_size i) + 6) =
             file_content b (disk_of hdd s) js (unat (i_size i)) @ [0x68, 0x65, 0x6c, 0x6c, 0x6f, 0x0a] \<and>
           main buf_at s = Inl Assertion"
proof -
  let ?hello = "c_string (''hello'' @ [CHR 0x0A])"
  have hello: "?hello = [0x68, 0x65, 0x6c, 0x6c, 0x6f, 0x0a, 0]" by (simp add: c_string_def c_text_def of_char_def)
  have co: "can_open p hdd b x r (cstr (file1_name @ [0])) no i js g l s" using assms(1) by (simp only: file1_text(2))
  have h: "(2 :: u8) = 1 \<or> (2 :: u8) = 2" "(0 :: u32) < 6" "unat (6 :: u32) \<le> length ?hello" "unat (6 :: u32) = 6"
    unfolding hello by simp_all
  have ft: "cstr (file1_name @ [0]) \<noteq> []" "length (cstr (file1_name @ [0])) < 16" unfolding file1_text(2) using file1_text(3,4) by auto
  obtain s1 s2 ns where r: "sys_open (c_string ''/file1'') 2 s = Inr (of_nat l, s1)" "sys_write (of_nat l) ?hello 6 s1 = Inr (([], 6), s2)"
    "file_content b (disk_of hdd s2) (js @ ns) (unat (i_size i) + 6) = file_content b (disk_of hdd s) js (unat (i_size i)) @ take 6 ?hello"
    "fd_local2global (of_nat l) s2 = Inr (of_nat g)" "g < length (file_table s2)" "g < 32" "sync_frame s s1" "sync_frame s1 s2"
    using open_then_write [OF co h(1) file1_text(1) ft assms(4) h(2,3), unfolded h(4), OF assms(5,6)] unfolding main_texts(4) by blast
  have cf: "console_free s2" using console_free_frame [OF assms(2) sync_frame_trans [OF r(7,8)]] .
  have l: "\<not> sint (of_nat l :: u32) < 0" using small_word(3) [of l] assms(3) by simp
  have read: "sys_read (of_nat l) (Some (replicate 64 0)) 6 s2 = Inl Assertion"
    using l r(4,5) small_word(1) [OF r(6)] by (simp add: sys_read_def file_read_def get_file_def)
  obtain c1 c2 c3 where pk: "printk (\<lambda>_. None) (c_string (''-----helloooooooo'' @ [CHR 0x0A])) [] s = Inr (c1, s)"
    "printk (\<lambda>_. None) (c_string (''finsh!'' @ [CHR 0x0A])) [] s2 = Inr (c2, s2)"
    "printk (\<lambda>_. None) (c_string (''%d'' @ [CHR 0x0A])) [of_nat l] s2 = Inr (c3, s2)"
    using printk_ok [OF assms(2) main_texts(1)] printk_ok [OF cf main_texts(2)] printk_ok [OF cf main_texts(3)]
      length_decimal [of l] assms(3) by auto
  have "main buf_at s = Inl Assertion" using r(1,2) read pk by (simp add: main_def Let_def)
  moreover have "take 6 ?hello = [0x68, 0x65, 0x6c, 0x6c, 0x6f, 0x0a]" unfolding hello by simp
  ultimately show ?thesis using r(1-3) by metis
qed

theorem main_appends_and_stops_witness:
  "main 0xc009ef00 file1_fs = Inl Assertion"
proof -
  have "queue file1_fs q []" for q by (simp add: file1_fs_def demo_fs_def demo_machine_queue)
  then have "console_free file1_fs"
    by (simp add: console_free_def lock_free_def) (simp add: file1_fs_def demo_fs_def demo_machine_def)
  moreover have "\<not> straddles (unat (1 :: u32))" "unat (i_size file1_inode) + 6 < 6144"
    by (simp_all add: straddles_def file1_inode_def demo_inode_def)
  ultimately show ?thesis using main_appends_and_stops [OF file1_can_open _ _ _ _ file1_room] by auto
qed

end
