(* ===== verification/Returning.thy ===== *)
theory Returning
  imports IOQueue
begin

text \<open>
  What holds whenever an operation returns: a calculus over results, and what the kernel's operations
  leave alone on every one of their paths, the early returns among them.
\<close>

section \<open>Results that satisfy a predicate\<close>

definition ensures :: "('a \<Rightarrow> bool) \<Rightarrow> 'a res \<Rightarrow> bool" where
  "ensures Q m \<longleftrightarrow> (case m of Inl e \<Rightarrow> True | Inr v \<Rightarrow> Q v)"

named_theorems keeps \<open>what an operation ensures, as a rule for goals about it\<close>

lemma ensures_simps [simp]:
  "ensures Q (Inl e)" "ensures Q (Inr v) = Q v" "ensures Q (bindE m f) = ensures (\<lambda>v. ensures Q (f v)) m"
  "ensures Q' (assertE b) = (b \<longrightarrow> Q' ())"
  by (simp_all add: ensures_def bindE_def assertE_def split: sum.split)

lemma ensures_access [simp]:
  "ensures Q (rd xs k) = (k < length xs \<longrightarrow> Q (xs ! k))" "ensures Q' (wr xs k v) = (k < length xs \<longrightarrow> Q' (xs[k := v]))"
  by (simp_all add: ensures_def rd_def wr_def)

lemma ensures_Inr: "m = Inr v \<Longrightarrow> ensures Q m \<Longrightarrow> Q v"
  by (simp add: ensures_def)

lemma ensures_cons: "ensures R m \<Longrightarrow> (\<And>v. R v \<Longrightarrow> Q v) \<Longrightarrow> ensures Q m"
  by (simp add: ensures_def split: sum.splits)

lemma ensures_any: "(\<And>v. Q v) \<Longrightarrow> ensures Q m"
  by (simp add: ensures_def split: sum.splits)

lemma ensures_run_loop [simp]: "ensures Q (run_loop m) = (\<forall>r. m = Some r \<longrightarrow> ensures Q r)"
  by (auto simp: run_loop_def split: option.split)

lemmas elem2entry_any = ensures_any [of _ "elem2entry n" for n]

section \<open>Links\<close>

lemma intr_more [simp]:
  "lheap.more (snd (intr_disable h)) = lheap.more (h :: ('a, 'z) lheap_scheme)"
  "lheap.more (snd (intr_set_status st h)) = lheap.more h"
  by (simp_all add: intr_set_status_def intr_disable_def intr_enable_def)

lemma list_insert_before_more: "ensures (\<lambda>h'. lheap.more h' = lheap.more h) (list_insert_before b e h)"
  by (simp add: list_insert_before_def Let_def case_prod_beta split: option.split)

lemma list_remove_more: "ensures (\<lambda>h'. lheap.more h' = lheap.more h) (list_remove e h)"
  by (simp add: list_remove_def Let_def case_prod_beta split: option.split)

lemma q_more [keeps]:
  "(\<And>h'. lheap.more h' = lheap.more h \<Longrightarrow> Q h') \<Longrightarrow> ensures Q (q_append l e h)"
  "(\<And>h'. lheap.more h' = lheap.more h \<Longrightarrow> Q h') \<Longrightarrow> ensures Q (q_push l e h)"
  "(\<And>h'. lheap.more h' = lheap.more h \<Longrightarrow> Q h') \<Longrightarrow> ensures Q (q_remove e h)"
  "(\<And>e h'. lheap.more h' = lheap.more h \<Longrightarrow> P (e, h')) \<Longrightarrow> ensures P (q_pop l h)"
proof -
  show "(\<And>h'. lheap.more h' = lheap.more h \<Longrightarrow> Q h') \<Longrightarrow> ensures Q (q_append l e h)"
    "(\<And>h'. lheap.more h' = lheap.more h \<Longrightarrow> Q h') \<Longrightarrow> ensures Q (q_push l e h)"
    unfolding q_append_def q_push_def list_append_def list_push_def by (rule ensures_cons [OF list_insert_before_more]; simp)+
  show "(\<And>h'. lheap.more h' = lheap.more h \<Longrightarrow> Q h') \<Longrightarrow> ensures Q (q_remove e h)"
    unfolding q_remove_def by (rule ensures_cons [OF list_remove_more]; simp)
  show "(\<And>e h'. lheap.more h' = lheap.more h \<Longrightarrow> P (e, h')) \<Longrightarrow> ensures P (q_pop l h)"
    by (simp add: q_pop_def list_pop_def Let_def) (auto intro!: ensures_cons [OF list_remove_more] elem2entry_any)
qed

section \<open>Threads\<close>

text \<open>The descriptors of the tasks, and all that is not the kernel's own state.\<close>

definition kview :: "'z kstate_scheme \<Rightarrow> (u32 \<Rightarrow> u32 list option) \<times> 'z" where
  "kview s = (\<lambda>t. map_option fd_table (tasks s t), kstate.more s)"

lemma kview_more:
  fixes s :: "'z kstate_scheme"
  shows "lheap.more s' = lheap.more s \<Longrightarrow> kview s' = kview s \<and> tasks s' = tasks s"
  by (cases s; cases s') (simp add: kview_def)

lemma kview_intr [simp]:
  fixes s :: "'z kstate_scheme"
  shows "kview (snd (intr_disable s)) = kview s" "kview (snd (intr_set_status st s)) = kview s"
  using kview_more [of "snd (intr_disable s)" s] kview_more [of "snd (intr_set_status st s)" s] by simp_all

lemma kview_set_task: "tasks s t = Some p \<Longrightarrow> fd_table q = fd_table p \<Longrightarrow> kview (set_task t q s) = kview s"
  by (auto simp: kview_def set_task_def)

lemma get_task_ensures [simp]: "ensures Q (get_task t s) = (\<forall>p. tasks s t = Some p \<longrightarrow> Q p)"
  by (simp add: get_task_def split: option.split)

lemmas stateless [keeps] =
  ensures_any [of _ "q_find l e h" for l e h] ensures_any [of _ "tag2task g" for g] ensures_any [of _ "addr_v2p c m v" for c m v]
  elem2entry_any

lemma kview_fields [simp]:
  "kview (s\<lparr>cr3 := c\<rparr>) = kview s" "kview (s\<lparr>ktss := k\<rparr>) = kview s" "kview (s\<lparr>running := r\<rparr>) = kview s"
  "kview (s\<lparr>sema_value := v\<rparr>) = kview s" "kview (s\<lparr>locks := l\<rparr>) = kview s"
  by (simp_all add: kview_def)

lemma thread_unblock_kept [keeps]: "(\<And>s'. kview s' = kview s \<Longrightarrow> Q s') \<Longrightarrow> ensures Q (thread_unblock t s)"
  by (auto simp: thread_unblock_def Let_def case_prod_beta kview_set_task dest!: kview_more intro!: keeps)

lemma process_activate_kept [keeps]: "(\<And>s'. kview s' = kview s \<Longrightarrow> Q s') \<Longrightarrow> ensures Q (process_activate t s)"
  by (auto simp: process_activate_def page_dir_activate_def intro!: keeps)

lemma schedule_kept [keeps]: "(\<And>s'. kview s' = kview s \<Longrightarrow> Q s') \<Longrightarrow> ensures Q (schedule s)"
  by (auto simp: schedule_def Let_def kview_set_task switch_to_def dest!: kview_more intro!: keeps)

lemma thread_block_kept [keeps]: "(\<And>r s'. kview s' = kview s \<Longrightarrow> Q (r, s')) \<Longrightarrow> ensures Q (thread_block st s)"
  by (auto simp: thread_block_def Let_def case_prod_beta kview_set_task intro!: keeps)

section \<open>Semaphores and locks\<close>

lemma sema_down_kept [keeps]: "(\<And>r s'. kview s' = kview s \<Longrightarrow> Q (r, s')) \<Longrightarrow> ensures Q (sema_down psema s)"
  by (auto simp: sema_down_def sema_down_round_def sema_down_end_def Let_def case_prod_beta dest!: kview_more intro!: keeps)

lemma sema_up_kept [keeps]: "(\<And>s'. kview s' = kview s \<Longrightarrow> Q s') \<Longrightarrow> ensures Q (sema_up psema s)"
  by (auto simp: sema_up_def Let_def case_prod_beta dest!: kview_more intro!: keeps)

lemma lock_kept [keeps]:
  "(\<And>s'. kview s' = kview s \<Longrightarrow> Q s') \<Longrightarrow> ensures Q (lock_acquire plock s)"
  "(\<And>s'. kview s' = kview s \<Longrightarrow> Q s') \<Longrightarrow> ensures Q (lock_release plock s)"
  by (auto simp: lock_acquire_def lock_release_def set_holder_def set_repeat_def Let_def intro!: keeps)

lemma console_put_str_kept [keeps]: "(\<And>r s'. kview s' = kview s \<Longrightarrow> Q (r, s')) \<Longrightarrow> ensures Q (console_put_str t s)"
  by (auto simp: console_put_str_def console_acquire_def console_release_def screen_text_def intro!: keeps)

end
