(* ===== verification/Typing.thy ===== *)
theory Typing
  imports Returning Syscalls
begin

text \<open>
  The types of the file system's state: every descriptor of a task leads to an entry of the system's
  table, every entry in use to an inode, every inode has its thirteen addresses.  The operations keep that on
  every path on which they return.
\<close>

section \<open>The disk driver\<close>

definition dview :: "'z dstate_scheme \<Rightarrow> (u32 \<Rightarrow> u32 list option) \<times> 'z" where
  "dview s = (\<lambda>t. map_option fd_table (tasks s t), dstate.more s)"

lemma dview_kview:
  fixes s :: "'z dstate_scheme"
  shows "kview s' = kview s \<Longrightarrow> dview s' = dview s \<and> channels s' = channels s"
  by (cases s; cases s') (simp add: kview_def dview_def)

lemma dview_more:
  fixes s :: "'z dstate_scheme"
  shows "lheap.more s' = lheap.more s \<Longrightarrow> dview s' = dview s"
  using kview_more dview_kview by blast

lemma dview_fields [simp]:
  "dview (s\<lparr>atas := a\<rparr>) = dview s" "dview (s\<lparr>status_clock := c\<rparr>) = dview s" "dview (s\<lparr>images := i\<rparr>) = dview s"
  "dview (s\<lparr>channels := cs\<rparr>) = dview s" "dview (s\<lparr>malloc_no := n, live := m\<rparr>) = dview s" "dview (s\<lparr>live := m\<rparr>) = dview s"
  by (simp_all add: dview_def)

lemma dview_ports [simp]: "dview (outb p v s) = dview s" "dview (snd (inb p s)) = dview s" "dview (set_channel c ch s) = dview s"
  by (simp_all add: outb_def inb_def set_channel_def split: option.split)

lemmas disk_stateless [keeps] =
  ensures_any [of _ "get_disk hdd s" for hdd s] ensures_any [of _ "disk_channel hdd s" for hdd s] ensures_any [of _ "get_channel c s" for c s]
  ensures_any [of _ "insw p n s" for p n s] ensures_any [of _ "put_bytes b n d" for b n d]
  ensures_any [of _ "read_from_sector hdd b off cnt s" for hdd b off cnt s]

lemma dview_wait [simp]: "dview (snd (busy_wait_loop p n s)) = dview s"
  by (induction n arbitrary: s) (simp_all add: busy_wait_loop.simps Let_def case_prod_beta)

lemma wait_disk_kept [keeps]: "(\<And>s'. dview s' = dview s \<Longrightarrow> Q s') \<Longrightarrow> ensures Q (wait_disk hdd s)"
  by (auto simp: wait_disk_def intr_hd_handler_def Let_def dest!: dview_kview intro!: keeps)

lemma write2sector_kept [keeps]: "(\<And>s'. dview s' = dview s \<Longrightarrow> Q s') \<Longrightarrow> ensures Q (write2sector hdd b off cnt s)"
  by (auto simp: write2sector_def outsw_def Let_def intro!: keeps split: option.split)

lemma command_kept [keeps]:
  "(\<And>s'. dview s' = dview s \<Longrightarrow> Q s') \<Longrightarrow> ensures Q (select_disk hdd s)"
  "(\<And>s'. dview s' = dview s \<Longrightarrow> Q s') \<Longrightarrow> ensures Q (select_sector hdd lba cnt s)"
  "(\<And>s'. dview s' = dview s \<Longrightarrow> Q s') \<Longrightarrow> ensures Q (cmd_out c cmd s)"
  by (auto simp: select_disk_def select_sector_def cmd_out_def Let_def intro!: keeps)

lemma busy_wait_kept [keeps]: "(\<And>r s'. dview s' = dview s \<Longrightarrow> P (r, s')) \<Longrightarrow> ensures P (busy_wait hdd s)"
  by (auto simp: busy_wait_def intro!: keeps) (metis dview_wait prod.collapse)

lemma op_kept [keeps]:
  "(\<And>r s'. dview s' = dview s \<Longrightarrow> P (r, s')) \<Longrightarrow> ensures P (read_op hdd lba b n m s)"
  "(\<And>s'. dview s' = dview s \<Longrightarrow> Q s') \<Longrightarrow> ensures Q (write_op hdd lba b n m s)"
  by (auto simp: read_op_def write_op_def intro!: keeps)

lemma ide_loop_kept [keeps]:
  "(\<And>r s'. dview s' = dview s \<Longrightarrow> P (r, s')) \<Longrightarrow> ensures P (ide_read_loop hdd lba cnt b n s)"
  "(\<And>s'. dview s' = dview s \<Longrightarrow> Q s') \<Longrightarrow> ensures Q (ide_write_loop hdd lba cnt b n s)"
proof -
  have "ensures (\<lambda>(r, s'). dview s' = dview s) (ide_read_loop hdd lba cnt b n s)"
  proof (induction "unat (cnt - n)" arbitrary: b n s rule: less_induct)
    case less
    show ?case
      by (subst ide_read_loop.simps) (auto simp: Let_def intro!: keeps ensures_cons [OF less] per_op_progress(3))
  qed
  then show "(\<And>r s'. dview s' = dview s \<Longrightarrow> P (r, s')) \<Longrightarrow> ensures P (ide_read_loop hdd lba cnt b n s)"
    by (rule ensures_cons) auto
  have "ensures (\<lambda>s'. dview s' = dview s) (ide_write_loop hdd lba cnt b n s)"
  proof (induction "unat (cnt - n)" arbitrary: b n s rule: less_induct)
    case less
    show ?case
      by (subst ide_write_loop.simps) (auto simp: Let_def intro!: keeps ensures_cons [OF less] per_op_progress(3))
  qed
  then show "(\<And>s'. dview s' = dview s \<Longrightarrow> Q s') \<Longrightarrow> ensures Q (ide_write_loop hdd lba cnt b n s)"
    by (rule ensures_cons) auto
qed

lemma ide_kept [keeps]:
  "(\<And>r s'. dview s' = dview s \<Longrightarrow> P (r, s')) \<Longrightarrow> ensures P (ide_read hdd lba b cnt s)"
  "(\<And>s'. dview s' = dview s \<Longrightarrow> Q s') \<Longrightarrow> ensures Q (ide_write hdd lba b cnt s)"
  by (auto simp: ide_read_def ide_write_def dest!: dview_kview intro!: keeps)

lemma set_part_kept [keeps]: "(\<And>s'. dview s' = dview s \<Longrightarrow> Q s') \<Longrightarrow> ensures Q (set_part p x s)"
  by (auto simp: set_part_def set_disk_def intro!: keeps)

lemmas part_stateless [keeps] =
  ensures_any [of _ "get_part p s" for p s] ensures_any [of _ "part_sb p s" for p s] ensures_any [of _ "part_disk p s" for p s]
  ensures_any [of _ "bitmap_scan m n" for m n] ensures_any [of _ "bitmap_set m n v" for m n v]

lemma deref_ensures [simp]: "ensures Q (deref p) = (\<forall>x. p = Some x \<longrightarrow> Q x)"
  by (cases p) simp_all

lemma bitmap_kept [keeps]:
  "(\<And>r s'. dview s' = dview s \<Longrightarrow> P (r, s')) \<Longrightarrow> ensures P (inode_bitmap_alloc p s)"
  "(\<And>r s'. dview s' = dview s \<Longrightarrow> P (r, s')) \<Longrightarrow> ensures P (block_bitmap_alloc p s)"
  "(\<And>s'. dview s' = dview s \<Longrightarrow> Q s') \<Longrightarrow> ensures Q (bitmap_sync p i t s)"
  by (auto simp: inode_bitmap_alloc_def block_bitmap_alloc_def bitmap_sync_def Let_def case_prod_beta intro!: keeps)

lemma dview_heap [simp]:
  "dview (snd (new_object s)) = dview s" "dview (snd (new_buffer n s)) = dview s" "dview (free_object s) = dview s"
  by (simp_all add: new_object_def new_buffer_def free_object_def Let_def case_prod_beta dview_def)

section \<open>Well-typed states\<close>

definition fs_typed :: "'z fstate_scheme \<Rightarrow> bool" where
  "fs_typed s \<longleftrightarrow>
     length (file_table s) = 32 \<and> (\<forall>f \<in> set (file_table s). fd_inode f \<noteq> 0 \<longrightarrow> inodes s (fd_inode f) \<noteq> None) \<and>
     (\<forall>a i. inodes s a = Some i \<longrightarrow> length (i_sectors i) = 13) \<and>
     (\<forall>t p. tasks s t = Some p \<longrightarrow> length (fd_table p) = 8 \<and> (\<forall>g \<in> set (fd_table p). g = -1 \<or> unat g < 32))"

text \<open>A typed state in which the inodes are still there.\<close>

definition fs_later :: "'z fstate_scheme \<Rightarrow> 'z fstate_scheme \<Rightarrow> bool" where
  "fs_later s s' \<longleftrightarrow> fs_typed s' \<and> (\<forall>a. inodes s a \<noteq> None \<longrightarrow> inodes s' a \<noteq> None)"

lemma fs_later_refl [simp]: "fs_later s s \<longleftrightarrow> fs_typed s"
  by (simp add: fs_later_def)

lemma dview_fs:
  fixes s :: "'z fstate_scheme"
  assumes "dview s' = dview s"
  shows "inodes s' = inodes s" and "file_table s' = file_table s" and "cur_part s' = cur_part s" and "root_dir_inode s' = root_dir_inode s"
    and "fs_typed s' = fs_typed s"
proof -
  have "dstate.more s' = dstate.more s" and fds: "(\<lambda>t. map_option fd_table (tasks s' t)) = (\<lambda>t. map_option fd_table (tasks s t))"
    using assms by (simp_all add: dview_def)
  then show f: "inodes s' = inodes s" "file_table s' = file_table s" "cur_part s' = cur_part s" "root_dir_inode s' = root_dir_inode s"
    by (cases s; cases s'; simp)+
  have "(\<forall>p. tasks s' t = Some p \<longrightarrow> P (fd_table p)) = (\<forall>p. tasks s t = Some p \<longrightarrow> P (fd_table p))" for t P
    using fun_cong [OF fds, of t] by (cases "tasks s' t"; cases "tasks s t") auto
  from this [where P = "\<lambda>l. length l = 8 \<and> (\<forall>g \<in> set l. g = -1 \<or> unat g < 32)"]
  show "fs_typed s' = fs_typed s" unfolding fs_typed_def f by simp
qed

lemma dview_later:
  fixes s :: "'z fstate_scheme"
  assumes "dview s' = dview s"
  shows "inodes s' = inodes s \<and> file_table s' = file_table s \<and> cur_part s' = cur_part s \<and> root_dir_inode s' = root_dir_inode s \<and>
    fs_typed s' = fs_typed s \<and> (\<forall>r. fs_later r s' = fs_later r s)"
  using dview_fs [OF assms] by (simp add: fs_later_def)

lemma fs_heap [simp]:
  fixes s :: "'z fstate_scheme"
  shows "inodes (snd (new_object s)) = inodes s" "inodes (snd (new_buffer n s)) = inodes s" "inodes (free_object s) = inodes s"
    "fs_later r (snd (new_object s)) = fs_later r s" "fs_later r (snd (new_buffer n s)) = fs_later r s" "fs_later r (free_object s) = fs_later r s"
    "file_table (snd (new_object s)) = file_table s" "file_table (snd (new_buffer n s)) = file_table s" "file_table (free_object s) = file_table s"
    "fs_typed (snd (new_object s)) = fs_typed s" "fs_typed (snd (new_buffer n s)) = fs_typed s" "fs_typed (free_object s) = fs_typed s"
  using dview_later [OF dview_heap(1), of s] dview_later [OF dview_heap(2), of n s] dview_later [OF dview_heap(3), of s] by simp_all

lemma fs_later_trans: "fs_later r s \<Longrightarrow> fs_later s t \<Longrightarrow> fs_later r t"
  by (simp add: fs_later_def)

lemma set_inode_later [simp]:
  "length (i_sectors i) = 13 \<Longrightarrow> fs_typed s \<Longrightarrow> fs_typed (set_inode a i s)"
  "length (i_sectors i) = 13 \<Longrightarrow> fs_later r s \<Longrightarrow> fs_later r (set_inode a i s)"
  by (simp_all add: fs_later_def fs_typed_def set_inode_def)

lemma set_file_later [simp]:
  assumes "fs_later r s" and "inodes s (fd_inode f) \<noteq> None"
  shows "fs_later r (set_file g f s)"
proof -
  have "h = f \<or> h \<in> set (file_table s)" if "h \<in> set ((file_table s)[g := f])" for h
    using that set_update_subset_insert by fast
  then show ?thesis using assms unfolding fs_later_def fs_typed_def set_file_def by fastforce
qed

lemma set_file_typed [simp]: "fs_typed s \<Longrightarrow> inodes s (fd_inode f) \<noteq> None \<Longrightarrow> fs_typed (set_file g f s)"
  using set_file_later [of s s f g] by (simp add: fs_later_def)

lemma later_sectors: "fs_later r s \<Longrightarrow> inodes s a = Some i \<Longrightarrow> length (i_sectors i) = 13"
  by (auto simp: fs_later_def fs_typed_def)

lemma typed_sectors: "fs_typed s \<Longrightarrow> inodes s a = Some i \<Longrightarrow> length (i_sectors i) = 13"
  by (auto simp: fs_typed_def)

lemma fs_laterD: "fs_later r s \<Longrightarrow> fs_typed s"
  by (simp add: fs_later_def)

lemma set_file_inodes [simp]: "inodes (set_file g f s) = inodes s"
  by (simp add: set_file_def)

lemma later_rule:
  assumes "ensures (\<lambda>(r, s'). fs_later s s' \<and> R r s') m"
    and "\<And>r s'. fs_typed s' \<Longrightarrow> R r s' \<Longrightarrow> (\<And>t. fs_later t s \<Longrightarrow> fs_later t s') \<Longrightarrow>
      (\<And>a i. inodes s a = Some i \<Longrightarrow> \<exists>i'. inodes s' a = Some i') \<Longrightarrow> Q (r, s')"
  shows "ensures Q m"
proof (rule ensures_cons [OF assms(1)])
  fix v assume "case v of (r, s') \<Rightarrow> fs_later s s' \<and> R r s'"
  then obtain r s' where v: "v = (r, s')" "fs_later s s'" "R r s'" by (cases v) auto
  then have "fs_typed s'" "\<exists>i'. inodes s' a = Some i'" if "inodes s a = Some i" for a i
    using that by (auto simp: fs_later_def)
  then show "Q v" using v fs_later_trans fs_laterD assms(2) by blast
qed

lemma later_rule1:
  assumes "ensures (fs_later s) m"
    and "\<And>s'. fs_typed s' \<Longrightarrow> (\<And>t. fs_later t s \<Longrightarrow> fs_later t s') \<Longrightarrow>
      (\<And>a i. inodes s a = Some i \<Longrightarrow> \<exists>i'. inodes s' a = Some i') \<Longrightarrow> Q s'"
  shows "ensures Q m"
proof -
  have "ensures (\<lambda>(r, s'). fs_later s s' \<and> True) (bindE m (\<lambda>s'. Inr ((), s')))" using assms(1) by simp
  then have "ensures (\<lambda>(r, s'). Q s') (bindE m (\<lambda>s'. Inr ((), s')))"
    by (rule later_rule) (use assms(2) in auto)
  then show ?thesis by simp
qed

lemma typed_disable [simp]:
  fixes s :: "'z fstate_scheme"
  shows "fs_typed (snd (intr_disable s)) = fs_typed s"
  using dview_later dview_kview kview_intr(1) by blast

lemma get_bytes_kept [keeps]: "(\<And>d. length d = n \<Longrightarrow> Q d) \<Longrightarrow> ensures Q (get_bytes b off n)"
  by (simp add: get_bytes_def)

lemma get_inode_typed [keeps]:
  "fs_typed s \<Longrightarrow> (\<And>i. inodes s a = Some i \<Longrightarrow> length (i_sectors i) = 13 \<Longrightarrow> Q i) \<Longrightarrow> ensures Q (get_inode a s)"
  by (simp add: get_inode_def typed_sectors)

lemma get_file_ensures [simp]: "ensures Q (get_file g s) = (g < length (file_table s) \<longrightarrow> Q (file_table s ! g))"
  by (simp add: get_file_def)

lemma length_inode_of_bytes [simp]: "length (i_sectors (inode_of_bytes d)) = 13"
  by (simp add: inode_of_bytes_def Let_def)

section \<open>The operations on inodes\<close>

lemmas fs_stateless [keeps] =
  ensures_any [of _ "find_open p no s" for p no s] ensures_any [of _ "memset b v n" for b v n] ensures_any [of _ "memcpy d b n" for d b n]
  ensures_any [of _ "strlen b" for b] ensures_any [of _ "put32 b n w" for b n w] ensures_any [of _ "free_entry b k n" for b k n]
  ensures_any [of _ "create_dir_entry n i t d" for n i t d] ensures_any [of _ "match_entry b n k m" for b n k m]
  ensures_any [of _ "copy_block a k bl s" for a k bl s] ensures_any [of _ "fd_local2global fd s" for fd s]

lemma inode_sync_kept [keeps]: "(\<And>r s'. dview s' = dview s \<Longrightarrow> Q (r, s')) \<Longrightarrow> ensures Q (inode_sync p a b s)"
  by (auto simp: inode_sync_def get_inode_def Let_def case_prod_beta intro!: keeps)

lemma inode_open_typed: "fs_typed s \<Longrightarrow> ensures (\<lambda>(a, s'). fs_later s s' \<and> inodes s' a \<noteq> None) (inode_open p no s)"
  unfolding inode_open_def Let_def case_prod_beta
  by (auto intro!: keeps split: option.split dest!: dview_more dview_later)

lemmas inode_open_later [keeps] = later_rule [OF inode_open_typed]

section \<open>Descriptors\<close>

lemma slot_from_range: "ensures (\<lambda>w. w = -1 \<or> unat w < 32) (slot_from tab k)"
proof (induction tab k rule: slot_from.induct)
  case (1 tab k)
  then show ?case using small_word(1) [of k] by (subst slot_from.simps) auto
qed

lemma get_free_slot_range [keeps]:
  "(\<And>w. w = -1 \<or> unat w < 32 \<Longrightarrow> Q w) \<Longrightarrow> ensures Q (get_free_slot_in_global s)"
  unfolding get_free_slot_in_global_def by (rule ensures_cons [OF slot_from_range])

lemma install_from_range:
  "length fds = 8 \<Longrightarrow> ensures (\<lambda>(fds', l). length fds' = 8 \<and> set fds' \<subseteq> insert g (set fds)) (install_from fds g k)"
proof (induction fds g k rule: install_from.induct)
  case (1 fds g k)
  then show ?case
    using set_update_subset_insert [of fds k g] by (subst install_from.simps) auto
qed

lemma pcb_fd_install_later [keeps]:
  assumes "fs_later r s" and "unat g < 32" and "\<And>l s'. fs_later r s' \<Longrightarrow> Q (l, s')"
  shows "ensures Q (pcb_fd_install g s)"
proof -
  have "fs_later r (set_task (running s) (p\<lparr>fd_table := fds\<rparr>) s)"
    if "tasks s (running s) = Some p" "length fds = 8" "set fds \<subseteq> insert g (set (fd_table p))" for p fds
  proof -
    have "\<forall>h \<in> set (fd_table p). h = -1 \<or> unat h < 32" using that(1) assms(1) unfolding fs_later_def fs_typed_def by blast
    then have "\<forall>h \<in> set fds. h = -1 \<or> unat h < 32" using that(3) assms(2) by blast
    then show ?thesis using assms(1) that(2) by (auto simp: fs_later_def fs_typed_def set_task_def)
  qed
  moreover have "length (fd_table p) = 8" if "tasks s (running s) = Some p" for p
    using that assms(1) by (auto simp: fs_later_def fs_typed_def)
  ultimately show ?thesis
    by (auto simp: pcb_fd_install_def intro!: assms(3) ensures_cons [OF install_from_range])
qed

lemma file_open_typed: "fs_typed s \<Longrightarrow> ensures (\<lambda>(l, s'). fs_later s s' \<and> True) (file_open no flags s)"
  unfolding file_open_def Let_def case_prod_beta
  by (auto simp: critical_section intro!: keeps dest!: dview_later)

lemmas file_open_later [keeps] = later_rule [OF file_open_typed]

section \<open>Writing\<close>

lemma table_kept [keeps]:
  "(\<And>r s'. dview s' = dview s \<Longrightarrow> Q (r, s')) \<Longrightarrow> ensures Q (read_table hdd l bl s)"
  "(\<And>s'. dview s' = dview s \<Longrightarrow> P s') \<Longrightarrow> ensures P (write_table hdd l bl s)"
  by (auto simp: read_table_def write_table_def intro!: keeps)

lemma new_blocks_typed: "fs_typed s \<Longrightarrow> ensures (\<lambda>(r, s'). fs_later s s' \<and> True) (new_blocks p a will bl k s)"
proof (induction "will - k" arbitrary: bl k s rule: less_induct)
  case less
  have step: "ensures (\<lambda>(r, s'). fs_later s s') (new_blocks p a will bl' (Suc k) t)" if "fs_typed t" "fs_later s t" "k < will" for bl' t
    by (rule ensures_cons [OF less(1)]) (use that in \<open>auto intro: fs_later_trans\<close>)
  show ?case
    using less(2) by (subst new_blocks.simps) (auto intro!: keeps step dest!: dview_later)
qed

lemmas new_blocks_later [keeps] = later_rule [OF new_blocks_typed]

lemma first_block_typed: "fs_typed s \<Longrightarrow> ensures (\<lambda>(r, s'). fs_later s s' \<and> True) (first_block p a s)"
  unfolding first_block_def Let_def by (auto intro!: keeps dest!: dview_later)

lemmas first_block_later [keeps] = later_rule [OF first_block_typed]

lemma gather_blocks_typed: "fs_typed s \<Longrightarrow> ensures (\<lambda>(r, s'). fs_later s s' \<and> True) (gather_blocks p hdd a n m s)"
  unfolding gather_blocks_def Let_def by (auto intro!: keeps dest!: dview_later split: option.split)

lemmas gather_blocks_later [keeps] = later_rule [OF gather_blocks_typed]

lemma write_sector_typed:
  "fs_typed s \<Longrightarrow> ensures (\<lambda>(r, s'). fs_later s s' \<and> True) (write_sector hdd fd bl src first i c n b s)"
  unfolding write_sector_def by (auto intro!: keeps dest!: dview_later)

lemmas write_sector_later [keeps] = later_rule [OF write_sector_typed]

lemma write_loop_typed: "fs_typed s \<Longrightarrow> ensures (\<lambda>(r, s'). fs_later s s' \<and> True) (write_loop hdd fd bl src count first n b s)"
proof (induction "unat (count - n)" arbitrary: first n b s rule: less_induct)
  case less
  have step: "ensures (\<lambda>(r, s'). fs_later s s') (write_loop hdd fd bl src count False (n + chunk (count - n) (z mod 512)) b' t)"
    if "fs_typed t" "fs_later s t" "n < count" for b' t z
    by (rule ensures_cons [OF less(1)]) (use that in \<open>auto intro: fs_later_trans chunk_progress mod_512_less\<close>)
  show ?case
    using less(2) by (subst write_loop.simps) (auto simp: Let_def intro!: keeps step)
qed

lemmas write_loop_later [keeps] = later_rule [OF write_loop_typed]

lemma file_write_typed: "fs_typed s \<Longrightarrow> ensures (\<lambda>(r, s'). fs_later s s' \<and> True) (file_write fd src count s)"
  unfolding file_write_def Let_def case_prod_beta
  by (auto intro!: keeps dest!: dview_later split: option.split)

lemmas file_write_later [keeps] = later_rule [OF file_write_typed]

section \<open>Looking up and creating\<close>

lemma search_blocks_kept [keeps]:
  "(\<And>r s'. dview s' = dview s \<Longrightarrow> Q (r, s')) \<Longrightarrow> ensures Q (search_blocks hdd name n ls b s)"
proof -
  have "ensures (\<lambda>(r, s'). dview s' = dview s) (search_blocks hdd name n ls b s)"
  proof (induction ls arbitrary: b s)
    case (Cons l ls)
    have step: "ensures (\<lambda>(r, s'). dview s' = dview s) (search_blocks hdd name n ls b' t)" if "dview t = dview s" for b' t
      by (rule ensures_cons [OF Cons]) (use that in auto)
    show ?case by (auto intro!: keeps step Cons split: option.split)
  qed simp
  then show "(\<And>r s'. dview s' = dview s \<Longrightarrow> Q (r, s')) \<Longrightarrow> ensures Q (search_blocks hdd name n ls b s)"
    by (rule ensures_cons) auto
qed

lemma must_have_ensures [simp]: "ensures Q (must_have p) = (\<forall>x. p = Some x \<longrightarrow> Q x)"
  by (simp add: must_have_def split: option.split)

lemma search_file_typed: "fs_typed s \<Longrightarrow> ensures (\<lambda>(r, s'). fs_later s s' \<and> True) (search_file path s)"
  unfolding search_file_def Let_def case_prod_beta
  by (auto intro!: keeps dest!: dview_later split: option.split)

lemmas search_file_later [keeps] = later_rule [OF search_file_typed]

lemma grow_dir_typed: "fs_typed s \<Longrightarrow> ensures (fs_later s) (grow_dir n s)"
  unfolding grow_dir_def by (auto intro!: keeps)

lemmas grow_dir_later [keeps] = later_rule1 [OF grow_dir_typed]

lemma add_block_typed: "fs_typed s \<Longrightarrow> ensures (\<lambda>(r, s'). fs_later s s' \<and> True) (add_block p hdd n e b k old s)"
  unfolding add_block_def Let_def by (auto intro!: keeps dest!: dview_later)

lemmas add_block_later [keeps] = later_rule [OF add_block_typed]

lemma sync_blocks_typed: "fs_typed s \<Longrightarrow> ensures (\<lambda>(r, s'). fs_later s s' \<and> True) (sync_blocks p hdd n e k ls b s)"
proof (induction ls arbitrary: k b s)
  case (Cons l ls)
  have step: "ensures (\<lambda>(r, s'). fs_later s s') (sync_blocks p hdd n e k' ls b' t)" if "fs_typed t" "fs_later s t" for b' k' t
    by (rule ensures_cons [OF Cons(1)]) (use that in \<open>auto intro: fs_later_trans\<close>)
  show ?case using Cons(2) by (auto intro!: keeps step dest!: dview_later split: option.split)
qed simp

lemmas sync_blocks_later [keeps] = later_rule [OF sync_blocks_typed]

lemma sync_dir_entry_typed: "fs_typed s \<Longrightarrow> ensures (\<lambda>(r, s'). fs_later s s' \<and> True) (sync_dir_entry e b s)"
  unfolding sync_dir_entry_def by (auto intro!: keeps)

lemmas sync_dir_entry_later [keeps] = later_rule [OF sync_dir_entry_typed]

lemma inode_init_sectors [simp]: "length (i_sectors (inode_init no)) = 13"
  by (simp add: inode_init_def)

lemma file_create_typed: "fs_typed s \<Longrightarrow> ensures (\<lambda>(r, s'). fs_later s s' \<and> True) (file_create path flags s)"
  unfolding file_create_def Let_def case_prod_beta
  by (auto intro!: keeps dest!: dview_more dview_later split: option.split)

lemmas file_create_later [keeps] = later_rule [OF file_create_typed]

section \<open>System calls\<close>

lemma sys_open_typed: "fs_typed s \<Longrightarrow> ensures (\<lambda>(r, s'). fs_later s s' \<and> True) (sys_open path flags s)"
  unfolding sys_open_def Let_def by (auto intro!: keeps)

lemma sys_write_typed: "fs_typed s \<Longrightarrow> ensures (\<lambda>(r, s'). fs_later s s' \<and> True) (sys_write fd src count s)"
  unfolding sys_write_def by (auto intro!: keeps dest!: dview_kview dview_later)

lemma sys_read_typed: "fs_typed s \<Longrightarrow> ensures (\<lambda>(r, s'). fs_later s s' \<and> True) (sys_read fd dst count s)"
  unfolding sys_read_def file_read_def by (auto intro!: keeps)

lemma schedule_typed: "fs_typed s \<Longrightarrow> ensures (fs_later s) (schedule s)"
  by (rule schedule_kept) (drule dview_kview [THEN conjunct1], drule dview_later, simp)

section \<open>Initialisation\<close>

lemmas format_stateless [keeps] =
  ensures_any [of _ "init_block_bitmap n b" for n b] ensures_any [of _ "mark_first b" for b] ensures_any [of _ "root_entries b" for b]
  ensures_any [of _ "strcmp a b" for a b] ensures_any [of _ "tag2part t" for t]

lemma partition_format_kept [keeps]:
  "(\<And>s'. dview s' = dview s \<Longrightarrow> Q s') \<Longrightarrow> ensures Q (partition_format pad p s)"
  unfolding partition_format_def Let_def case_prod_beta
  by (auto intro!: keeps)

lemma list_traversal_ensures:
  assumes "\<And>a h. P h \<Longrightarrow> ensures (\<lambda>(stop, h'). P h') (f a h)" and "P h"
  shows "ensures (\<lambda>(r, h'). P h') (list_traversal l f h)"
proof -
  let ?I = "\<lambda>g (tp :: 'a) (e :: 'a option) h r. (\<forall>a h. P h \<longrightarrow> ensures (\<lambda>(stop, h'). P h') (g a h)) \<longrightarrow> P h \<longrightarrow> ensures (\<lambda>(r, h'). P h') r"
  have "?I f (ltail l) (nnext h (lhead l)) h res" if "traverse_loop f (ltail l) (nnext h (lhead l)) h = Some res" for res
    using that
  proof (rule traverse_loop.raw_induct [rotated])
    fix loop g tp e h r
    assume IH: "\<And>g tp e h r. loop g tp e h = Some r \<Longrightarrow> ?I g tp e h r"
      and body: "(if e = Some tp then Some (Inr (None, h)) else case e of None \<Rightarrow> Some (Inl NullPointer)
           | Some a \<Rightarrow> (case g a h of Inl e \<Rightarrow> Some (Inl e)
              | Inr (stop, h') \<Rightarrow> if stop then Some (Inr (Some a, h')) else loop g tp (nnext h' a) h')) = Some r"
    show "?I g tp e h r"
    proof (intro impI)
      assume g: "\<forall>a h. P h \<longrightarrow> ensures (\<lambda>(stop, h'). P h') (g a h)" and h: "P h"
      have step: "P h'" if "g a h = Inr (stop, h')" for a stop h'
        using ensures_Inr [OF that] g [rule_format, OF h, of a] by auto
      have rest: "P h2" if "loop g tp e h1 = Some (Inr (x, h2))" "P h1" for tp e h1 x h2
        using IH [OF that(1)] g that(2) by auto
      show "ensures (\<lambda>(r, h'). P h') r"
        using body h by (auto split: if_splits option.splits sum.splits prod.splits dest: step rest) (auto simp: ensures_def dest: step rest split: sum.split)
    qed
  qed
  then have loop: "ensures (\<lambda>(r, h'). P h') res" if "traverse_loop f (ltail l) (nnext h (lhead l)) h = Some res" for res
    using that assms by blast
  show ?thesis
    using loop assms(2) by (auto simp: list_traversal_def intro!: ensures_any [of _ "list_len l h"])
qed

lemma mount_bitmap_kept [keeps]: "(\<And>r s'. dview s' = dview s \<Longrightarrow> Q (r, s')) \<Longrightarrow> ensures Q (mount_bitmap hdd l n s)"
  unfolding mount_bitmap_def Let_def case_prod_beta by (auto intro!: keeps)

lemma dview_list_init [simp]: "dview (list_init l s) = dview s"
  by (rule dview_more) (simp add: list_init_def)

lemma mount_partition_kept:
  "ensures (\<lambda>(r, s'). s' = s \<or> dview s' = dview (s\<lparr>cur_part := Some p\<rparr>)) (mount_partition name p s)"
  unfolding mount_partition_def Let_def case_prod_beta by (auto intro!: keeps)

lemma mount_partition_typed: "fs_typed s \<Longrightarrow> ensures (\<lambda>(r, s'). fs_later s s' \<and> True) (mount_partition name p s)"
proof -
  assume t: "fs_typed s"
  then have "fs_later s (s\<lparr>cur_part := Some p\<rparr>)" by (simp add: fs_later_def fs_typed_def)
  with t show ?thesis
    by (intro ensures_cons [OF mount_partition_kept]) (auto simp: fs_later_def dest!: dview_later)
qed

lemma check_partitions_kept [keeps]:
  "(\<And>r s'. dview s' = dview s \<Longrightarrow> Q (r, s')) \<Longrightarrow> ensures Q (check_partitions pad hdd k b s)"
proof -
  have "ensures (\<lambda>(r, s'). dview s' = dview s) (check_partitions pad hdd k b s)"
  proof (induction "12 - k" arbitrary: k b s rule: less_induct)
    case less
    have step: "ensures (\<lambda>(r, s'). dview s' = dview s) (check_partitions pad hdd (Suc k) b' t)" if "dview t = dview s" "k < 12" for b' t
      by (rule ensures_cons [OF less]) (use that in auto)
    show ?case by (subst check_partitions.simps) (auto intro!: keeps step)
  qed
  then show "(\<And>r s'. dview s' = dview s \<Longrightarrow> Q (r, s')) \<Longrightarrow> ensures Q (check_partitions pad hdd k b s)"
    by (rule ensures_cons) auto
qed

lemma check_channels_kept: "ensures (\<lambda>s'. dview s' = dview s) (check_channels pad c n k b s)"
proof (induction n arbitrary: c k b s)
  case (Suc n)
  have step: "ensures (\<lambda>s'. dview s' = dview s) (check_channels pad c' n k' b' t)" if "dview t = dview s" for c' k' b' t
    by (rule ensures_cons [OF Suc]) (use that in auto)
  show ?case by (auto intro!: keeps step)
qed simp

lemma open_root_dir_typed: "fs_typed s \<Longrightarrow> ensures fs_typed (open_root_dir p s)"
  unfolding open_root_dir_def by (auto intro!: keeps) (simp add: fs_typed_def)

lemma mount_elem_typed: "fs_typed s \<Longrightarrow> ensures (\<lambda>(stop, s'). fs_typed s') (mount_elem name e s)"
  unfolding mount_elem_def by (auto intro!: keeps ensures_cons [OF mount_partition_typed] dest: fs_laterD)

lemma filesys_init_typed: "fs_typed s \<Longrightarrow> ensures fs_typed (filesys_init pad s)"
proof -
  assume s: "fs_typed s"
  have walk: "ensures (\<lambda>(r, s'). fs_typed s') (list_traversal l (mount_elem name) t)" if "fs_typed t" for l name and t :: "'a fstate_scheme"
    using list_traversal_ensures [where P = fs_typed, OF mount_elem_typed that] .
  show ?thesis
    unfolding filesys_init_def Let_def case_prod_beta using s
    by (auto intro!: ensures_cons [OF check_channels_kept] ensures_cons [OF walk] ensures_cons [OF open_root_dir_typed] dest!: dview_later)
      (auto simp: fs_typed_def)
qed

section \<open>All runs\<close>

text \<open>What the tasks do to the file system, one after the other: its initialisation, the system calls on files and the
  switch to another task.  A call that faults stops the kernel and has no successor.\<close>

inductive fs_step :: "'z fstate_scheme \<Rightarrow> 'z fstate_scheme \<Rightarrow> bool" where
  initialise: "filesys_init pad s = Inr s' \<Longrightarrow> fs_step s s'"
| open_call: "sys_open path flags s = Inr (fd, s') \<Longrightarrow> fs_step s s'"
| write_call: "sys_write fd src count s = Inr (r, s') \<Longrightarrow> fs_step s s'"
| read_call: "sys_read fd dst count s = Inr (r, s') \<Longrightarrow> fs_step s s'"
| switch_task: "schedule s = Inr s' \<Longrightarrow> fs_step s s'"

inductive_cases fs_stepE: "fs_step s s'"

lemma fs_step_typed: "fs_step s s' \<Longrightarrow> fs_typed s \<Longrightarrow> fs_typed s'"
  by (erule fs_stepE)
    (auto dest!: ensures_Inr [OF _ filesys_init_typed] ensures_Inr [OF _ sys_open_typed] ensures_Inr [OF _ sys_write_typed]
      ensures_Inr [OF _ sys_read_typed] ensures_Inr [OF _ schedule_typed] fs_laterD)

lemma fs_steps_typed: "fs_step\<^sup>*\<^sup>* s s' \<Longrightarrow> fs_typed s \<Longrightarrow> fs_typed s'"
  by (induction rule: rtranclp_induct) (auto intro: fs_step_typed)

section \<open>Properties\<close>

text \<open>C11: Types are kept.  In every state that initialisation, any system calls on files with any arguments and any switches of
  tasks lead to, a descriptor that a task has in use leads to an entry of the system's table, and that
  entry, when it is in use, to an inode in memory with its thirteen addresses.\<close>

theorem system_calls_keep_types:
  assumes "fs_step\<^sup>*\<^sup>* s s'" and "fs_typed s"
    and "tasks s' (running s') = Some p" and "d < 8" and "fd_table p ! d \<noteq> -1"
  shows "\<exists>g f. fd_local2global (of_nat d) s' = Inr g \<and> unat g < 32 \<and> get_file (unat g) s' = Inr f \<and>
           (fd_inode f = 0 \<or> (\<exists>i. get_inode (fd_inode f) s' = Inr i \<and> length (i_sectors i) = 13))"
proof -
  have t: "fs_typed s'" by (rule fs_steps_typed [OF assms(1,2)])
  let ?g = "fd_table p ! d"
  have p: "length (fd_table p) = 8" "\<forall>g \<in> set (fd_table p). g = -1 \<or> unat g < 32"
    using t assms(3) unfolding fs_typed_def by blast+
  then have g: "unat ?g < 32" using assms(4,5) nth_mem [of d "fd_table p"] by auto
  then have "?g = of_nat (unat ?g)" by simp
  with g have "fd_table p ! d = of_nat (unat ?g)" by simp
  from fd_local2global_ok [OF assms(3) _ this] have fd: "fd_local2global (of_nat d) s' = Inr ?g"
    using p(1) assms(4) g by simp
  let ?f = "file_table s' ! unat ?g"
  have l: "length (file_table s') = 32" using t by (simp add: fs_typed_def)
  have f: "get_file (unat ?g) s' = Inr ?f" using g l by (simp add: get_file_def)
  have "?f \<in> set (file_table s')" using g l by simp
  then have "fd_inode ?f = 0 \<or> (\<exists>i. inodes s' (fd_inode ?f) = Some i)" using t unfolding fs_typed_def by blast
  then show ?thesis using fd g f typed_sectors [OF t] by (auto simp: get_inode_def)
qed

text \<open>Opening \<open>/file1\<close>: the descriptor leads to its inode.\<close>

theorem system_calls_keep_types_witness:
  "\<exists>s1 g f. sys_open (0x2f # file1_name @ [0]) 2 file1_fs = Inr (3, s1) \<and>
     fd_local2global 3 s1 = Inr g \<and> unat g < 32 \<and> get_file (unat g) s1 = Inr f"
proof -
  have t: "fs_typed file1_fs" by (simp add: fs_typed_def file1_fs_def demo_root_def demo_task_def)
  have co: "can_open ((0, 1), 0) (0, 1) demo_sb demo_part demo_root (cstr (file1_name @ [0])) 1 file1_inode [2] 3 3 file1_fs"
    using file1_can_open by (simp only: file1_text(2))
  have fl: "(2 :: u8) = 1 \<or> (2 :: u8) = 2" by simp
  have ft: "cstr (file1_name @ [0]) \<noteq> []" "length (cstr (file1_name @ [0])) < 16" unfolding file1_text(2) using file1_text(3,4) by auto
  obtain s1 where s1: "sys_open (0x2f # file1_name @ [0]) 2 file1_fs = Inr (of_nat 3, s1)" "fd_local2global (of_nat 3) s1 = Inr (of_nat 3)"
    using sys_open_existing [OF co fl file1_text(1) ft] by blast
  then obtain p where p: "tasks s1 (running s1) = Some p" "fd_table p ! 3 = 3"
    by (auto simp: fd_local2global_def get_task_def res_simps split: option.splits)
  have "fs_step\<^sup>*\<^sup>* file1_fs s1" using s1(1) by (intro r_into_rtranclp open_call)
  then show ?thesis using system_calls_keep_types [OF _ t p(1), of 3] p(2) s1(1) by auto
qed

end
