(* ===== verification/Store.thy ===== *)
theory Store
  imports Sectors
begin

text \<open>
  The disks as a store of sectors: the contract of \<open>ide_read\<close> and \<open>ide_write\<close> that the file system relies on, as a
  locale, and what follows for sequences of requests to several disks.
\<close>

section \<open>Requests\<close>

datatype 'd request = Read 'd nat nat | Write 'd nat nat buf

text \<open>What a store answers: a map from disks and sector numbers to sectors.\<close>

fun serve :: "'d request list \<Rightarrow> ('d \<Rightarrow> nat \<Rightarrow> buf) \<Rightarrow> buf list \<times> ('d \<Rightarrow> nat \<Rightarrow> buf)" where
  "serve [] m = ([], m)"
| "serve (Read d l n # rs) m = (let (bs, m') = serve rs m in (read_image (m d) l n # bs, m'))"
| "serve (Write d l n b # rs) m = serve rs (m(d := write_image (m d) l n b))"

text \<open>The requests carried out in order; a read gets a buffer of its own.\<close>

fun run_requests :: "('d \<Rightarrow> nat \<Rightarrow> buf \<Rightarrow> nat \<Rightarrow> 's \<Rightarrow> (buf \<times> 's) res) \<Rightarrow> ('d \<Rightarrow> nat \<Rightarrow> buf \<Rightarrow> nat \<Rightarrow> 's \<Rightarrow> 's res) \<Rightarrow>
    'd request list \<Rightarrow> 's \<Rightarrow> (buf list \<times> 's) res" where
  "run_requests readf writef [] s = Inr ([], s)"
| "run_requests readf writef (Read d l n # rs) s =
     bindE (readf d l (replicate (512 * n) 0) n s) (\<lambda>(b, s1).
     bindE (run_requests readf writef rs s1) (\<lambda>(bs, s2). Inr (b # bs, s2)))"
| "run_requests readf writef (Write d l n b # rs) s = bindE (writef d l b n s) (run_requests readf writef rs)"

text \<open>28 bits of address, a length the driver can count in bytes, and as much data as is to be written.\<close>

fun request_fits :: "'d set \<Rightarrow> 'd request \<Rightarrow> bool" where
  "request_fits D (Read d l n) \<longleftrightarrow> d \<in> D \<and> l + n \<le> 2 ^ 28 \<and> 512 * n < 2 ^ 32"
| "request_fits D (Write d l n b) \<longleftrightarrow> d \<in> D \<and> l + n \<le> 2 ^ 28 \<and> 512 * n < 2 ^ 32 \<and> 512 * n \<le> length b"

section \<open>The contract\<close>

locale sector_store =
  fixes disks :: "'d set"
    and ready :: "'s \<Rightarrow> bool"
    and content :: "'s \<Rightarrow> 'd \<Rightarrow> nat \<Rightarrow> buf"
    and rd_op :: "'d \<Rightarrow> nat \<Rightarrow> buf \<Rightarrow> nat \<Rightarrow> 's \<Rightarrow> (buf \<times> 's) res"
    and wr_op :: "'d \<Rightarrow> nat \<Rightarrow> buf \<Rightarrow> nat \<Rightarrow> 's \<Rightarrow> 's res"
  assumes read_law: "ready s \<Longrightarrow> request_fits disks (Read d l n) \<Longrightarrow> length b = 512 * n \<Longrightarrow>
      \<exists>s'. rd_op d l b n s = Inr (read_image (content s d) l n, s') \<and> ready s' \<and> content s' = content s"
    and write_law: "ready s \<Longrightarrow> request_fits disks (Write d l n b) \<Longrightarrow>
      \<exists>s'. wr_op d l b n s = Inr s' \<and> ready s' \<and> content s' = (content s)(d := write_image (content s d) l n b)"
begin

lemma run_ok:
  "ready s \<Longrightarrow> list_all (request_fits disks) rs \<Longrightarrow>
   \<exists>s'. run_requests rd_op wr_op rs s = Inr (fst (serve rs (content s)), s') \<and> ready s' \<and> content s' = snd (serve rs (content s))"
proof (induction rs arbitrary: s)
  case (Cons r rs)
  show ?case
  proof (cases r)
    case (Read d l n)
    obtain s1 where s1: "rd_op d l (replicate (512 * n) 0) n s = Inr (read_image (content s d) l n, s1)" "ready s1" "content s1 = content s"
      using read_law [of s d l n "replicate (512 * n) 0"] Cons.prems Read by auto
    obtain s2 where "run_requests rd_op wr_op rs s1 = Inr (fst (serve rs (content s)), s2)" "ready s2" "content s2 = snd (serve rs (content s))"
      using Cons.IH [OF s1(2)] Cons.prems(2) s1(3) by auto
    then show ?thesis using Read s1(1) by (simp add: case_prod_beta Let_def)
  next
    case (Write d l n b)
    obtain s1 where s1: "wr_op d l b n s = Inr s1" "ready s1" "content s1 = (content s)(d := write_image (content s d) l n b)"
      using write_law [of s d l n b] Cons.prems Write by auto
    obtain s2 where "run_requests rd_op wr_op rs s1 = Inr (fst (serve rs (content s1)), s2)" "ready s2" "content s2 = snd (serve rs (content s1))"
      using Cons.IH [OF s1(2)] Cons.prems(2) by auto
    then show ?thesis using Write s1(1,3) by simp
  qed
qed simp

end

section \<open>The driver meets it\<close>

definition driver_read :: "disk_ptr \<Rightarrow> nat \<Rightarrow> buf \<Rightarrow> nat \<Rightarrow> 'z dstate_scheme \<Rightarrow> (buf \<times> 'z dstate_scheme) res" where
  "driver_read hdd l b n s = ide_read hdd (of_nat l) b (of_nat n) s"

definition driver_write :: "disk_ptr \<Rightarrow> nat \<Rightarrow> buf \<Rightarrow> nat \<Rightarrow> 'z dstate_scheme \<Rightarrow> 'z dstate_scheme res" where
  "driver_write hdd l b n s = ide_write hdd (of_nat l) b (of_nat n) s"

lemma io_other_disk:
  assumes "io hdd im s s'"
  shows "(\<lambda>h. disk_of h s') = (\<lambda>h. disk_of h s)(hdd := im)"
    and "disk_ready h s \<Longrightarrow> sectors im \<Longrightarrow> disk_ready h s'"
proof -
  obtain a j where s': "s' = ide_after (fst hdd) a j (with_image (fst hdd) (snd hdd) im s)" using assms by (auto simp: io_def)
  show d: "(\<lambda>h. disk_of h s') = (\<lambda>h. disk_of h s)(hdd := im)"
    unfolding s' by (rule ext) (auto simp: disk_of_def ide_after_def with_image_def prod_eq_iff)
  assume h: "disk_ready h s" "sectors im"
  have "disk_of h s' = (if h = hdd then im else disk_of h s)" using fun_cong [OF d, of h] by simp
  then have "sectors (disk_of h s')" using h by (simp add: disk_ready_def)
  moreover have "ide_up (fst h) (snd h) s'" using h(1) unfolding s' by (simp add: disk_ready_def)
  ultimately show "disk_ready h s'" by (simp add: disk_ready_def)
qed

lemma small_counts:
  "l + n \<le> 2 ^ 28 \<Longrightarrow> unat (of_nat l :: u32) = l \<and> unat (of_nat n :: u32) = n"
  by (simp add: unat_small)

interpretation driver: sector_store D "\<lambda>s. \<forall>h \<in> D. disk_ready h s" "\<lambda>s h. disk_of h s" driver_read driver_write for D
proof
  fix s :: "'a dstate_scheme" and hdd l n and b :: buf
  assume r: "\<forall>h \<in> D. disk_ready h s" and f: "request_fits D (Read hdd l n)" and b: "length b = 512 * n"
  then have w: "unat (of_nat l :: u32) = l" "unat (of_nat n :: u32) = n" "disk_ready hdd s" using small_counts [of l n] by auto
  then have sec: "sectors (disk_of hdd s)" by (simp add: disk_ready_def)
  obtain s' where s': "driver_read hdd l b n s = Inr (read_image (disk_of hdd s) l n, s')" "io hdd (disk_of hdd s) s s'"
    using ide_read_io [OF w(3), of "of_nat l" "of_nat n" b] f b w(1,2) unfolding driver_read_def by auto
  then show "\<exists>s'. driver_read hdd l b n s = Inr (read_image (disk_of hdd s) l n, s') \<and> (\<forall>h \<in> D. disk_ready h s') \<and>
      (\<lambda>h. disk_of h s') = (\<lambda>h. disk_of h s)"
    using io_other_disk [OF s'(2)] sec r by (intro exI [of _ s']) (auto simp: fun_upd_triv)
next
  fix s :: "'a dstate_scheme" and hdd l n and b :: buf
  assume r: "\<forall>h \<in> D. disk_ready h s" and f: "request_fits D (Write hdd l n b)"
  then have w: "unat (of_nat l :: u32) = l" "unat (of_nat n :: u32) = n" "disk_ready hdd s" using small_counts [of l n] by auto
  then have sec: "sectors (write_image (disk_of hdd s) l n b)" using sectors_write f by (auto simp: disk_ready_def)
  obtain s' where s': "driver_write hdd l b n s = Inr s'" "io hdd (write_image (disk_of hdd s) l n b) s s'"
    using ide_write_io [OF w(3), of "of_nat l" "of_nat n" b] f w(1,2) unfolding driver_write_def by auto
  then show "\<exists>s'. driver_write hdd l b n s = Inr s' \<and> (\<forall>h \<in> D. disk_ready h s') \<and>
      (\<lambda>h. disk_of h s') = (\<lambda>h. disk_of h s)(hdd := write_image (disk_of hdd s) l n b)"
    using io_other_disk [OF s'(2)] sec r by (intro exI [of _ s']) auto
qed

section \<open>Properties\<close>

text \<open>C12: The disks are a store.  Any sequence of reads and writes, to any of the disks that are ready and of any lengths, is answered
  by the driver as by a map from disks and sector numbers to sectors, and leaves on the disks what that map holds then.\<close>

theorem driver_refines_store:
  assumes "\<forall>h \<in> D. disk_ready h s" and "list_all (request_fits D) rs"
  shows "\<exists>s'. run_requests driver_read driver_write rs s = Inr (fst (serve rs (\<lambda>h. disk_of h s)), s') \<and>
           (\<lambda>h. disk_of h s') = snd (serve rs (\<lambda>h. disk_of h s)) \<and> (\<forall>h \<in> D. disk_ready h s')"
  using driver.run_ok [OF assms] by blast

text \<open>Two disks of one channel: what is written to one is not read from the other.\<close>

theorem driver_refines_store_witness:
  "\<exists>s'. run_requests driver_read driver_write [Write (0, 0) 5 1 (replicate 512 7), Read (0, 1) 5 1, Read (0, 0) 5 1]
      (demo_machine blank_partition (\<lambda>_ _ _. replicate 512 0) ()) = Inr ([replicate 512 0, replicate 512 7], s')"
proof -
  let ?s = "demo_machine blank_partition (\<lambda>_ _ _. replicate 512 0) ()"
  have d: "disk_of h ?s = (\<lambda>_. replicate 512 0)" for h by (simp add: disk_of_def demo_machine_def fun_eq_iff)
  then have "\<forall>h \<in> {(0, 0), (0, 1)}. disk_ready h ?s" using demo_machine_up [of 0 0] demo_machine_up [of 0 1] by (auto simp: disk_ready_def sectors_def)
  from driver_refines_store [OF this, of "[Write (0, 0) 5 1 (replicate 512 7), Read (0, 1) 5 1, Read (0, 0) 5 1]"]
  show ?thesis by (auto simp: d read_image_def write_image_def)
qed

end
