(* ===== verification/Scan.thy ===== *)
theory Scan
  imports Inode
begin

text \<open>
  What \<open>partition_scan\<close> of \<open>device/ide.c\<close> finds on a disk.  The format is that of the partition tables on disks: four
  entries in sector 0, at most one of them an extended partition, and in that a chain of sectors that hold the entry of a
  logical partition and a link to the next.
\<close>

section \<open>The tables on a disk\<close>

definition entry_of :: "buf \<Rightarrow> nat \<Rightarrow> part_entry" where
  "entry_of bs k =
     \<lparr>fs_type = bs ! (446 + 16 * k + 4), pe_start_lba = of_le32 (take 4 (drop (446 + 16 * k + 8) bs)),
      pe_sec_cnt = of_le32 (take 4 (drop (446 + 16 * k + 12) bs))\<rparr>"

lemma partition_entry_ok: "length bs = 512 \<Longrightarrow> k < 4 \<Longrightarrow> partition_entry bs k = Inr (entry_of bs k)"
  by (simp add: partition_entry_def entry_of_def Let_def get32_def get_bytes_def rd_def)

definition primary :: "part_entry \<Rightarrow> bool" where
  "primary e \<longleftrightarrow> fs_type e \<noteq> 0 \<and> fs_type e \<noteq> 5"

text \<open>The chain of an extended partition at \<open>base\<close>, from the sector \<open>lba\<close> on, with the start and the length of each logical partition.\<close>

inductive logicals :: "(nat \<Rightarrow> buf) \<Rightarrow> u32 \<Rightarrow> u32 \<Rightarrow> (u32 \<times> u32) list \<Rightarrow> bool" for im base where
  last_one: "\<lbrakk>lba \<noteq> 0; lba < 2 ^ 28; e = entry_of (im (unat lba)); primary (e 0); \<forall>k \<in> {1, 2, 3}. fs_type (e k) = 0\<rbrakk> \<Longrightarrow>
    logicals im base lba [(lba + pe_start_lba (e 0), pe_sec_cnt (e 0))]"
| one_more: "\<lbrakk>lba \<noteq> 0; lba < 2 ^ 28; e = entry_of (im (unat lba)); primary (e 0); fs_type (e 1) = 5; \<forall>k \<in> {2, 3}. fs_type (e k) = 0;
    logicals im base (base + pe_start_lba (e 1)) ls\<rbrakk> \<Longrightarrow>
    logicals im base lba ((lba + pe_start_lba (e 0), pe_sec_cnt (e 0)) # ls)"

definition primaries :: "(nat \<Rightarrow> buf) \<Rightarrow> nat list \<Rightarrow> (u32 \<times> u32) list" where
  "primaries im ks = map (\<lambda>e. (pe_start_lba e, pe_sec_cnt e)) (filter primary (map (entry_of (im 0)) ks))"

lemma primaries_Cons:
  "primaries im (k # ks) =
     (let e = entry_of (im 0) k in if primary e then (pe_start_lba e, pe_sec_cnt e) # primaries im ks else primaries im ks)"
  by (simp add: primaries_def Let_def)

section \<open>Recording a partition\<close>

definition part_text :: "buf \<Rightarrow> nat \<Rightarrow> buf" where
  "part_text nm i = (let t = cstr nm @ decimal (of_nat (i + 1)) in t @ replicate (8 - length t) 0)"

definition recorded :: "disk_ptr \<Rightarrow> buf \<Rightarrow> nat \<Rightarrow> u32 \<times> u32 \<Rightarrow> partition \<Rightarrow> partition" where
  "recorded hdd nm i e x = x\<lparr>part_name := part_text nm i, start_lba := fst e, sec_cnt := snd e, my_disk := Some hdd\<rparr>"

lemma length_decimal_small: "i < 12 \<Longrightarrow> length (decimal (of_nat (i + 1))) \<le> 2"
proof -
  assume i: "i < 12"
  then have "i \<in> {0, 1, 2, 3, 4, 5, 6, 7, 8, 9, 10, 11}" by (simp, arith)
  then show ?thesis by (elim insertE emptyE) (simp_all add: decimal_def number_text_def digits.simps)
qed

lemma numbered_name_ok:
  assumes "terminated nm" and "length (cstr nm) < 6" and "i < 12" and "n = of_nat (i + 1)"
  shows "numbered_name nm n (replicate 8 0) = Inr (part_text nm i)"
proof -
  let ?mem = "\<lambda>p. if p = 1 then Some nm else None"
  have "format_text ?mem [0x25, 0x73, 0x25, 0x64, 0] [1, n] = Some (cstr nm @ decimal n)"
    using assms(1) by (simp add: convertible_def arg_text_def)
  from vsprintf_ok [OF this, of 8] length_decimal_small [OF assms(3)] assms(2,4) show ?thesis
    by (simp add: numbered_name_def sprintf_def part_text_def Let_def)
qed

lemma set_part_name:
  assumes "set_part p y s = Inr s'" and "get_disk h s = Inr d"
  shows "\<exists>d'. get_disk h s' = Inr d' \<and> disk_name d' = disk_name d"
  using assms
  by (cases h; cases "fst p")
    (auto simp: set_part_def set_disk_def get_disk_def get_channel_def set_channel_def bindE_eq_Inr rd_def wr_def nth_list_update
      split: if_splits)

lemma only_lists_disk:
  fixes s :: "'z dstate_scheme"
  assumes "only_lists s s'"
  shows "channels s' = channels s" and "images s' = images s" and "ext_lba_base s' = ext_lba_base s" and "p_no s' = p_no s"
    and "l_no s' = l_no s" and "malloc_at s' = malloc_at s" and "malloc_no s' = malloc_no s" and "live s' = live s"
    and "locks s' = locks s" and "running s' = running s" and "sema_value s' = sema_value s" and "status_reads s' = status_reads s"
    and "tasks s' = tasks s"
proof -
  have more: "s' = s\<lparr>nprev := nprev s', nnext := nnext s'\<rparr>" using assms by (simp add: only_lists_def)
  show "channels s' = channels s" "images s' = images s" "ext_lba_base s' = ext_lba_base s" "p_no s' = p_no s" "l_no s' = l_no s"
    "malloc_at s' = malloc_at s" "malloc_no s' = malloc_no s" "live s' = live s" "locks s' = locks s" "running s' = running s"
    "sema_value s' = sema_value s" "status_reads s' = status_reads s" "tasks s' = tasks s"
    by (subst more; simp)+
qed

lemma append_partition_ok:
  fixes s :: "'z dstate_scheme"
  assumes "queue s Partition_list (map part_tag ps)" and "part_tag p \<notin> set (map part_tag ps)"
  shows "\<exists>s'. q_append Partition_list (part_tag p) s = Inr s' \<and> only_lists s s' \<and>
           queue s' Partition_list (map part_tag (ps @ [p])) \<and> (\<forall>hdd. disk_ready hdd s \<longrightarrow> disk_ready hdd s')"
proof -
  from q_append_ok [OF assms] obtain s' where s': "q_append Partition_list (part_tag p) s = Inr s'"
    "queue s' Partition_list (map part_tag (ps @ [p]))" "only_lists s s'"
    "\<forall>k ys. k \<noteq> Partition_list \<longrightarrow> part_tag p \<notin> set ys \<longrightarrow> set (map part_tag ps) \<inter> set ys = {} \<longrightarrow> queue s k ys \<longrightarrow> queue s' k ys"
    by auto
  have "queue s' (Waiters w) []" if "queue s (Waiters w) []" for w using s'(4) that by simp
  then have "disk_ready hdd s \<longrightarrow> disk_ready hdd s'" for hdd
    using only_lists_disk [OF s'(3)]
    by (auto simp: disk_ready_def ide_up_def disk_up_def disk_wired_def controller_ready_def channel_lock_ok_def
        lock_free_def disk_of_def)
  with s'(1-3) show ?thesis by blast
qed

section \<open>The scan\<close>

text \<open>The state during the scan of the disk \<open>hdd\<close>: its name, its contents, its partitions \<open>x0\<close> and the list of partitions
  \<open>qs\<close> before the scan; the primary and logical partitions recorded since, and the order of their entry into the list.\<close>

definition scanned :: "disk_ptr \<Rightarrow> buf \<Rightarrow> (nat \<Rightarrow> buf) \<Rightarrow> (nat \<Rightarrow> partition) \<Rightarrow> part_ptr list \<Rightarrow>
    (u32 \<times> u32) list \<Rightarrow> (u32 \<times> u32) list \<Rightarrow> nat list \<Rightarrow> 'z dstate_scheme \<Rightarrow> bool" where
  "scanned hdd nm im x0 qs ps ls ord s \<longleftrightarrow>
     disk_ready hdd s \<and> disk_of hdd s = im \<and> (\<exists>d. get_disk hdd s = Inr d \<and> disk_name d = nm) \<and>
     length ps \<le> 4 \<and> length ls \<le> 8 \<and> p_no s = of_nat (length ps) \<and> l_no s = of_nat (length ls) \<and>
     (\<forall>i < 4. get_part (hdd, i) s = Inr (if i < length ps then recorded hdd nm i (ps ! i) (x0 i) else x0 i)) \<and>
     (\<forall>i < 8. get_part (hdd, 4 + i) s = Inr (if i < length ls then recorded hdd nm (4 + i) (ls ! i) (x0 (4 + i)) else x0 (4 + i))) \<and>
     queue s Partition_list (map part_tag (qs @ map (Pair hdd) ord)) \<and>
     distinct ord \<and> set ord = {..<length ps} \<union> (+) 4 ` {..<length ls} \<and> (\<forall>n \<ge> malloc_no s. malloc_at s n \<noteq> 0)"

definition scannable :: "disk_ptr \<Rightarrow> buf \<Rightarrow> (nat \<Rightarrow> buf) \<Rightarrow> (nat \<Rightarrow> partition) \<Rightarrow> part_ptr list \<Rightarrow> bool" where
  "scannable hdd nm im x0 qs \<longleftrightarrow>
     terminated nm \<and> length (cstr nm) < 6 \<and> sectors im \<and> (\<forall>i < 12. part_name (x0 i) = replicate 8 0) \<and>
     (\<forall>i < 12. part_tag (hdd, i) \<notin> set (map part_tag qs))"

lemma record_partition_ok:
  fixes s :: "'z dstate_scheme"
  assumes "scannable hdd nm im x0 qs" and "i < 12" and "get_part (hdd, i) s = Inr (x0 i)" and "disk_ready hdd s"
    and "get_disk hdd s = Inr d" and "disk_name d = nm" and "n = of_nat (i + 1)"
    and "queue s Partition_list (map part_tag (qs @ map (Pair hdd) ord))" and "i \<notin> set ord"
  shows "\<exists>s'. record_partition (hdd, i) n st cnt s = Inr s' \<and> disk_ready hdd s' \<and> disk_of hdd s' = disk_of hdd s \<and>
           (\<exists>d. get_disk hdd s' = Inr d \<and> disk_name d = nm) \<and> get_part (hdd, i) s' = Inr (recorded hdd nm i (st, cnt) (x0 i)) \<and>
           (\<forall>q. q \<noteq> (hdd, i) \<longrightarrow> get_part q s' = get_part q s) \<and>
           queue s' Partition_list (map part_tag (qs @ map (Pair hdd) (ord @ [i]))) \<and>
           p_no s' = p_no s \<and> l_no s' = l_no s \<and> ext_lba_base s' = ext_lba_base s \<and> malloc_at s' = malloc_at s \<and>
           malloc_no s' = malloc_no s \<and> live s' = live s"
proof -
  let ?y = "recorded hdd nm i (st, cnt) (x0 i)"
  have name: "numbered_name nm n (part_name (x0 i)) = Inr (part_text nm i)"
    using numbered_name_ok [OF _ _ assms(2,7)] assms(1,2) by (simp add: scannable_def)
  from set_part_ok [OF assms(3), of ?y] obtain cs where cs: "set_part (hdd, i) ?y s = Inr (s\<lparr>channels := cs\<rparr>)"
    "get_part (hdd, i) (s\<lparr>channels := cs\<rparr>) = Inr ?y" "\<forall>q. q \<noteq> (hdd, i) \<longrightarrow> get_part q (s\<lparr>channels := cs\<rparr>) = get_part q s"
    "\<forall>c d. disk_wired c d s \<longrightarrow> disk_wired c d (s\<lparr>channels := cs\<rparr>)"
    "\<forall>c. expecting_intr (cs ! c) = expecting_intr (channels s ! c)" by blast
  let ?s1 = "s\<lparr>channels := cs\<rparr>"
  have "disk_wired (fst hdd) (snd hdd) s" using assms(4) by (simp add: disk_ready_def ide_up_def disk_up_def)
  then have r1: "disk_ready hdd ?s1" using disk_ready_channels [OF assms(4)] cs(4,5) by blast
  obtain d1 where d1: "get_disk hdd ?s1 = Inr d1" "disk_name d1 = nm" using set_part_name [OF cs(1) assms(5)] assms(6) by auto
  have q1: "queue ?s1 Partition_list (map part_tag (qs @ map (Pair hdd) ord))" using assms(8) by (simp add: queue_def dll_def)
  have "part_tag (hdd, i) \<notin> set (map part_tag (qs @ map (Pair hdd) ord))"
    using assms(1,2,9) by (auto simp: scannable_def part_tag_def)
  from append_partition_ok [OF q1 this] obtain s' where s': "q_append Partition_list (part_tag (hdd, i)) ?s1 = Inr s'"
    "only_lists ?s1 s'" "queue s' Partition_list (map part_tag (qs @ map (Pair hdd) (ord @ [i])))" "disk_ready hdd s'"
    using r1 by (metis append.assoc list.map(1,2) map_append)
  have y: "x0 i\<lparr>part_name := part_text nm i, start_lba := st, sec_cnt := cnt, my_disk := Some hdd\<rparr> = ?y" by (simp add: recorded_def)
  have "record_partition (hdd, i) n st cnt s = Inr s'"
    using assms(3,5) name cs(1) s'(1) by (simp add: record_partition_def assms(6) y)
  moreover note f = only_lists_disk [OF s'(2)]
  have "get_disk h s' = get_disk h ?s1" "get_part q s' = get_part q ?s1" for h q
    using f(1) by (simp_all add: get_part_def get_disk_def get_channel_def)
  moreover have "disk_of hdd s' = disk_of hdd s" using f(2) by (simp add: disk_of_def)
  ultimately show ?thesis using s'(3,4) cs(2,3) d1 f by auto
qed

lemma small_byte:
  assumes "n < 256"
  shows "unat (of_nat n :: u8) = n" and "(ucast (of_nat n :: u8) :: u32) = of_nat n"
proof -
  show n: "unat (of_nat n :: u8) = n" using assms by (simp add: unsigned_of_nat take_bit_nat_eq_self)
  have "(ucast (of_nat n :: u8) :: u32) = of_nat (unat (of_nat n :: u8))" by (simp add: unat_ucast_byte word_unat_eq_iff)
  then show "(ucast (of_nat n :: u8) :: u32) = of_nat n" unfolding n .
qed

lemma scanned_primary:
  fixes s :: "'z dstate_scheme"
  assumes "scannable hdd nm im x0 qs" and "scanned hdd nm im x0 qs ps ls ord s" and "length ps < 4"
  shows "\<exists>s'. record_partition (hdd, unat (p_no s)) (ucast (p_no s) + 1) st cnt s = Inr s' \<and> ext_lba_base s' = ext_lba_base s \<and>
           live s' = live s \<and> scanned hdd nm im x0 qs (ps @ [(st, cnt)]) ls (ord @ [length ps]) (s'\<lparr>p_no := p_no s' + 1\<rparr>)"
proof -
  let ?n = "length ps"
  have c: "disk_ready hdd s" "disk_of hdd s = im" "length ls \<le> 8" "p_no s = of_nat ?n" "l_no s = of_nat (length ls)"
    "\<forall>i < 4. get_part (hdd, i) s = Inr (if i < ?n then recorded hdd nm i (ps ! i) (x0 i) else x0 i)"
    "\<forall>i < 8. get_part (hdd, 4 + i) s = Inr (if i < length ls then recorded hdd nm (4 + i) (ls ! i) (x0 (4 + i)) else x0 (4 + i))"
    "queue s Partition_list (map part_tag (qs @ map (Pair hdd) ord))" "distinct ord" "set ord = {..<?n} \<union> (+) 4 ` {..<length ls}"
    "\<forall>n \<ge> malloc_no s. malloc_at s n \<noteq> 0"
    using assms(2) unfolding scanned_def by blast+
  obtain d where d: "get_disk hdd s = Inr d" "disk_name d = nm" using assms(2) unfolding scanned_def by blast
  have l: "unat (p_no s) = ?n" using c(4) assms(3) small_byte(1) [of ?n] by simp
  have n: "ucast (p_no s) + 1 = (of_nat (?n + 1) :: u32)" using c(4) assms(3) small_byte(2) [of ?n] by simp
  have new: "?n \<notin> set ord" using assms(3) c(10) by auto
  have g: "get_part (hdd, ?n) s = Inr (x0 ?n)" using c(6) assms(3) by simp
  from record_partition_ok [OF assms(1) _ g c(1) d n c(8) new, of st cnt] assms(3) obtain s' where
    s': "record_partition (hdd, ?n) (ucast (p_no s) + 1) st cnt s = Inr s'" "disk_ready hdd s'" "disk_of hdd s' = disk_of hdd s"
    "\<exists>d. get_disk hdd s' = Inr d \<and> disk_name d = nm" "get_part (hdd, ?n) s' = Inr (recorded hdd nm ?n (st, cnt) (x0 ?n))"
    "\<forall>q. q \<noteq> (hdd, ?n) \<longrightarrow> get_part q s' = get_part q s"
    "queue s' Partition_list (map part_tag (qs @ map (Pair hdd) (ord @ [?n])))" "p_no s' = p_no s" "l_no s' = l_no s"
    "ext_lba_base s' = ext_lba_base s" "malloc_at s' = malloc_at s" "malloc_no s' = malloc_no s" "live s' = live s"
    by auto
  let ?t = "s'\<lparr>p_no := p_no s' + 1\<rparr>"
  have t: "get_part q ?t = get_part q s'" "get_disk h ?t = get_disk h s'" "disk_of hdd ?t = disk_of hdd s'" "disk_ready hdd ?t = disk_ready hdd s'"
    "queue ?t k xs = queue s' k xs" for q h k xs
    by (simp_all add: get_part_def get_disk_def get_channel_def disk_of_def disk_ready_def ide_up_def disk_up_def
        disk_wired_def controller_ready_def channel_lock_ok_def lock_free_def queue_def dll_def)
  have oth: "get_part (hdd, i) s' = get_part (hdd, i) s" if "i \<noteq> ?n" for i using s'(6) that by blast
  have g4: "get_part (hdd, i) s' = Inr (if i < length (ps @ [(st, cnt)]) then recorded hdd nm i ((ps @ [(st, cnt)]) ! i) (x0 i) else x0 i)"
    if "i < 4" for i
    using s'(5) oth [of i] c(6) that by (cases "i = ?n") (auto simp: nth_append)
  have g8: "\<forall>i < 8. get_part (hdd, 4 + i) s' = Inr (if i < length ls then recorded hdd nm (4 + i) (ls ! i) (x0 (4 + i)) else x0 (4 + i))"
    using oth c(7) assms(3) by simp
  have o: "distinct (ord @ [?n])" "set (ord @ [?n]) = {..<length (ps @ [(st, cnt)])} \<union> (+) 4 ` {..<length ls}"
    using c(9,10) new by (auto simp: less_Suc_eq)
  have "scanned hdd nm im x0 qs (ps @ [(st, cnt)]) ls (ord @ [?n]) ?t"
    unfolding scanned_def t using s'(2-4,7-13) c(2-5,11) assms(3) g4 g8 o by simp
  then show ?thesis using s'(1,10,13) l by auto
qed

lemma scanned_logical:
  fixes s :: "'z dstate_scheme"
  assumes "scannable hdd nm im x0 qs" and "scanned hdd nm im x0 qs ps ls ord s" and "length ls < 8"
  shows "\<exists>s'. record_partition (hdd, 4 + unat (l_no s)) (ucast (l_no s) + 5) st cnt s = Inr s' \<and> ext_lba_base s' = ext_lba_base s \<and>
           live s' = live s \<and> scanned hdd nm im x0 qs ps (ls @ [(st, cnt)]) (ord @ [4 + length ls]) (s'\<lparr>l_no := l_no s' + 1\<rparr>)"
proof -
  let ?n = "length ls"
  have c: "disk_ready hdd s" "disk_of hdd s = im" "length ps \<le> 4" "p_no s = of_nat (length ps)" "l_no s = of_nat ?n"
    "\<forall>i < 4. get_part (hdd, i) s = Inr (if i < length ps then recorded hdd nm i (ps ! i) (x0 i) else x0 i)"
    "\<forall>i < 8. get_part (hdd, 4 + i) s = Inr (if i < ?n then recorded hdd nm (4 + i) (ls ! i) (x0 (4 + i)) else x0 (4 + i))"
    "queue s Partition_list (map part_tag (qs @ map (Pair hdd) ord))" "distinct ord" "set ord = {..<length ps} \<union> (+) 4 ` {..<?n}"
    "\<forall>n \<ge> malloc_no s. malloc_at s n \<noteq> 0"
    using assms(2) unfolding scanned_def by blast+
  obtain d where d: "get_disk hdd s = Inr d" "disk_name d = nm" using assms(2) unfolding scanned_def by blast
  have l: "unat (l_no s) = ?n" using c(5) assms(3) small_byte(1) [of ?n] by simp
  have n: "ucast (l_no s) + 5 = (of_nat (4 + ?n + 1) :: u32)" using c(5) assms(3) small_byte(2) [of ?n] by simp
  have new: "4 + ?n \<notin> set ord" using c(3,10) by auto
  have g: "get_part (hdd, 4 + ?n) s = Inr (x0 (4 + ?n))" using c(7) assms(3) by simp
  from record_partition_ok [OF assms(1) _ g c(1) d n c(8) new, of st cnt] assms(3) obtain s' where
    s': "record_partition (hdd, 4 + ?n) (ucast (l_no s) + 5) st cnt s = Inr s'" "disk_ready hdd s'" "disk_of hdd s' = disk_of hdd s"
    "\<exists>d. get_disk hdd s' = Inr d \<and> disk_name d = nm" "get_part (hdd, 4 + ?n) s' = Inr (recorded hdd nm (4 + ?n) (st, cnt) (x0 (4 + ?n)))"
    "\<forall>q. q \<noteq> (hdd, 4 + ?n) \<longrightarrow> get_part q s' = get_part q s"
    "queue s' Partition_list (map part_tag (qs @ map (Pair hdd) (ord @ [4 + ?n])))" "p_no s' = p_no s" "l_no s' = l_no s"
    "ext_lba_base s' = ext_lba_base s" "malloc_at s' = malloc_at s" "malloc_no s' = malloc_no s" "live s' = live s"
    by auto
  let ?t = "s'\<lparr>l_no := l_no s' + 1\<rparr>"
  have t: "get_part q ?t = get_part q s'" "get_disk h ?t = get_disk h s'" "disk_of hdd ?t = disk_of hdd s'" "disk_ready hdd ?t = disk_ready hdd s'"
    "queue ?t k xs = queue s' k xs" for q h k xs
    by (simp_all add: get_part_def get_disk_def get_channel_def disk_of_def disk_ready_def ide_up_def disk_up_def
        disk_wired_def controller_ready_def channel_lock_ok_def lock_free_def queue_def dll_def)
  have oth: "get_part (hdd, i) s' = get_part (hdd, i) s" if "i \<noteq> 4 + ?n" for i using s'(6) that by blast
  have g4: "\<forall>i < 4. get_part (hdd, i) s' = Inr (if i < length ps then recorded hdd nm i (ps ! i) (x0 i) else x0 i)" using oth c(6) by simp
  have g8: "get_part (hdd, 4 + i) s' = Inr (if i < length (ls @ [(st, cnt)]) then recorded hdd nm (4 + i) ((ls @ [(st, cnt)]) ! i) (x0 (4 + i))
      else x0 (4 + i))" if "i < 8" for i
    using s'(5) oth [of "4 + i"] c(7) that by (cases "i = ?n") (auto simp: nth_append)
  have o: "distinct (ord @ [4 + ?n])" "set (ord @ [4 + ?n]) = {..<length ps} \<union> (+) 4 ` {..<length (ls @ [(st, cnt)])}"
    using c(9,10) new by (auto simp: less_Suc_eq)
  have "scanned hdd nm im x0 qs ps (ls @ [(st, cnt)]) (ord @ [4 + ?n]) ?t"
    unfolding scanned_def t using s'(2-4,7-13) c(2-5,11) assms(3) g4 g8 o by simp
  then show ?thesis using s'(1,10,13) l by auto
qed

lemma scanned_heap:
  assumes "scanned hdd nm im x0 qs ps ls ord s" and "malloc_no s \<le> n"
  shows "scanned hdd nm im x0 qs ps ls ord (s\<lparr>malloc_no := n, live := m\<rparr>)"
proof -
  have "get_disk h (s\<lparr>malloc_no := n, live := m\<rparr>) = get_disk h s" for h by (simp add: get_disk_def get_channel_def)
  then show ?thesis using assms unfolding scanned_def heap_frame by simp
qed

lemma scanned_free: "scanned hdd nm im x0 qs ps ls ord s \<Longrightarrow> scanned hdd nm im x0 qs ps ls ord (free_object s)"
  using scanned_heap [of hdd nm im x0 qs ps ls ord s "malloc_no s" "live s - 1"] by (simp add: free_object_def)

lemma scanned_base:
  assumes "scanned hdd nm im x0 qs ps ls ord s"
  shows "scanned hdd nm im x0 qs ps ls ord (s\<lparr>ext_lba_base := w\<rparr>)"
proof -
  let ?t = "s\<lparr>ext_lba_base := w\<rparr>"
  have t: "get_part q ?t = get_part q s" "get_disk h ?t = get_disk h s" "disk_of hdd ?t = disk_of hdd s" "disk_ready hdd ?t = disk_ready hdd s"
    "queue ?t k xs = queue s k xs" for q h k xs
    by (simp_all add: get_part_def get_disk_def get_channel_def disk_of_def disk_ready_def ide_up_def disk_up_def
        disk_wired_def controller_ready_def channel_lock_ok_def lock_free_def queue_def dll_def)
  show ?thesis using assms unfolding scanned_def t by simp
qed

text \<open>Reading one table.\<close>

lemma scan_sector:
  fixes s :: "'z dstate_scheme"
  assumes "scannable hdd nm im x0 qs" and "scanned hdd nm im x0 qs ps ls ord s" and "lba < 2 ^ 28"
  shows "\<exists>s1. scanned hdd nm im x0 qs ps ls ord s1 \<and> ext_lba_base s1 = ext_lba_base s \<and> live s1 = Suc (live s) \<and>
           partition_scan (Suc fuel) hdd lba s =
             bindE (scan_entries (partition_scan fuel hdd) hdd lba (im (unat lba)) [0, 1, 2, 3] s1) (\<lambda>s2. Inr (free_object s2))"
proof -
  let ?s0 = "s\<lparr>malloc_no := Suc (malloc_no s), live := Suc (live s)\<rparr>"
  have c: "disk_ready hdd ?s0" "disk_of hdd ?s0 = im" and m: "malloc_at s (malloc_no s) \<noteq> 0"
    using assms(2) unfolding scanned_def by simp_all
  have l: "unat lba < 2 ^ 28" using assms(3) by (simp add: word_less_nat_alt)
  obtain s1 where s1: "ide_read hdd lba (replicate 512 0) 1 ?s0 = Inr (im (unat lba), s1)" "io hdd im ?s0 s1"
    using ide_read_io [OF c(1), of lba 1 "replicate 512 0"] l c(2) by (auto simp: read_image_def)
  note f = io_frame [OF s1(2)]
  have b: "ext_lba_base s1 = ext_lba_base s \<and> p_no s1 = p_no s \<and> l_no s1 = l_no s"
    using s1(2) by (auto simp: io_def ide_after_def with_image_def)
  have r: "disk_ready hdd s1" using io_ready [OF s1(2) c(1)] assms(1) by (simp add: scannable_def)
  have g: "get_disk h s1 = get_disk h ?s0" for h using f(1) by (simp add: get_disk_def get_channel_def)
  have "scanned hdd nm im x0 qs ps ls ord ?s0" by (rule scanned_heap [OF assms(2)]) simp
  then have "scanned hdd nm im x0 qs ps ls ord s1"
    unfolding scanned_def using r io_disk [OF s1(2)] b f(5-7) io_part [OF s1(2)] g by simp
  moreover have "live s1 = Suc (live s)" using f(8) by simp
  moreover have "partition_scan (Suc fuel) hdd lba s =
      bindE (scan_entries (partition_scan fuel hdd) hdd lba (im (unat lba)) [0, 1, 2, 3] s1) (\<lambda>s2. Inr (free_object s2))"
    using new_buffer_ok [OF m, of 512] s1(1) by simp
  ultimately show ?thesis using b by blast
qed

lemma scan_logical:
  fixes s :: "'z dstate_scheme"
  assumes "scannable hdd nm im x0 qs" and "scanned hdd nm im x0 qs ps ls ord s" and "length ls < 8"
    and "lba \<noteq> 0" and "primary e"
  shows "\<exists>s' o'. scan_entry rec hdd lba e s = Inr s' \<and> ext_lba_base s' = ext_lba_base s \<and> live s' = live s \<and>
           scanned hdd nm im x0 qs ps (ls @ [(lba + pe_start_lba e, pe_sec_cnt e)]) o' s'"
proof -
  obtain s' where s': "record_partition (hdd, 4 + unat (l_no s)) (ucast (l_no s) + 5) (lba + pe_start_lba e) (pe_sec_cnt e) s = Inr s'"
    "ext_lba_base s' = ext_lba_base s" "live s' = live s"
    "scanned hdd nm im x0 qs ps (ls @ [(lba + pe_start_lba e, pe_sec_cnt e)]) (ord @ [4 + length ls]) (s'\<lparr>l_no := l_no s' + 1\<rparr>)"
    using scanned_logical [OF assms(1-3)] by blast
  have "l_no s' + 1 = of_nat (Suc (length ls))" using s'(4) unfolding scanned_def by simp
  then have "unat (l_no s' + 1) = Suc (length ls)" using assms(3) small_byte(1) [of "Suc (length ls)"] by (simp only:)
  then have "unat (l_no s' + 1) \<le> 8" using assms(3) by simp
  then have "l_no s' + 1 \<le> 8" by (simp add: word_le_nat_alt)
  then show ?thesis
    using s' assms(4,5) by (intro exI [of _ "s'\<lparr>l_no := l_no s' + 1\<rparr>"] exI) (auto simp: scan_entry_def primary_def Let_def)
qed

lemma scan_empty: "fs_type e = 0 \<Longrightarrow> scan_entry rec hdd lba e s = Inr s"
  by (simp add: scan_entry_def)

lemma scan_chain:
  fixes s :: "'z dstate_scheme"
  assumes "logicals im base lba new" and "scannable hdd nm im x0 qs" and "scanned hdd nm im x0 qs ps ls ord s"
    and "length ls + length new \<le> 8" and "length new \<le> fuel" and "base \<noteq> 0" and "ext_lba_base s = base"
  shows "\<exists>s' o'. partition_scan fuel hdd lba s = Inr s' \<and> scanned hdd nm im x0 qs ps (ls @ new) o' s' \<and>
           ext_lba_base s' = base \<and> live s' = live s"
  using assms(1,3-5,7)
proof (induction arbitrary: ls ord s fuel rule: logicals.induct)
  case (last_one lba e)
  then obtain f where f: "fuel = Suc f" by (cases fuel) auto
  obtain s1 where s1: "scanned hdd nm im x0 qs ps ls ord s1" "ext_lba_base s1 = base" "live s1 = Suc (live s)"
    "partition_scan fuel hdd lba s = bindE (scan_entries (partition_scan f hdd) hdd lba (im (unat lba)) [0, 1, 2, 3] s1) (\<lambda>s2. Inr (free_object s2))"
    using scan_sector [OF assms(2) last_one.prems(1) last_one.hyps(2), of f] last_one.prems(4) f by auto
  have len: "length (im (unat lba)) = 512" using assms(2) by (simp add: scannable_def sectors_def)
  obtain s2 o' where s2: "scan_entry (partition_scan f hdd) hdd lba (e 0) s1 = Inr s2" "ext_lba_base s2 = base" "live s2 = Suc (live s)"
    "scanned hdd nm im x0 qs ps (ls @ [(lba + pe_start_lba (e 0), pe_sec_cnt (e 0))]) o' s2"
    using scan_logical [OF assms(2) s1(1) _ last_one.hyps(1,4)] last_one.prems(2) s1(2,3) by fastforce
  have "scan_entries (partition_scan f hdd) hdd lba (im (unat lba)) [0, 1, 2, 3] s1 = Inr s2"
    using s2(1) last_one.hyps(3,5) len by (simp add: partition_entry_ok scan_empty)
  then show ?case using s1(4) scanned_free [OF s2(4)] s2(2,3) by (auto simp: free_object_def)
next
  case (one_more lba e new)
  then obtain f where f: "fuel = Suc f" "length new \<le> f" by (cases fuel) auto
  obtain s1 where s1: "scanned hdd nm im x0 qs ps ls ord s1" "ext_lba_base s1 = base" "live s1 = Suc (live s)"
    "partition_scan fuel hdd lba s = bindE (scan_entries (partition_scan f hdd) hdd lba (im (unat lba)) [0, 1, 2, 3] s1) (\<lambda>s2. Inr (free_object s2))"
    using scan_sector [OF assms(2) one_more.prems(1) one_more.hyps(2), of f] one_more.prems(4) f by auto
  have len: "length (im (unat lba)) = 512" using assms(2) by (simp add: scannable_def sectors_def)
  let ?l = "(lba + pe_start_lba (e 0), pe_sec_cnt (e 0))"
  obtain s2 o' where s2: "scan_entry (partition_scan f hdd) hdd lba (e 0) s1 = Inr s2" "ext_lba_base s2 = base" "live s2 = Suc (live s)"
    "scanned hdd nm im x0 qs ps (ls @ [?l]) o' s2"
    using scan_logical [OF assms(2) s1(1) _ one_more.hyps(1,4)] one_more.prems(2) s1(2,3) by fastforce
  obtain s3 o3 where s3: "partition_scan f hdd (base + pe_start_lba (e 1)) s2 = Inr s3"
    "scanned hdd nm im x0 qs ps ((ls @ [?l]) @ new) o3 s3" "ext_lba_base s3 = base" "live s3 = Suc (live s)"
    using one_more.IH [OF s2(4) _ f(2) s2(2)] one_more.prems(2) s2(3) by auto
  have "scan_entry (partition_scan f hdd) hdd lba (e 1) s2 = Inr s3"
    using s3(1) one_more.hyps(5) s2(2) assms(6) by (simp add: scan_entry_def)
  then have "scan_entries (partition_scan f hdd) hdd lba (im (unat lba)) [0, 1, 2, 3] s1 = Inr s3"
    using s2(1) one_more.hyps(3,6) len by (simp add: partition_entry_ok scan_empty)
  then show ?case using s1(4) scanned_free [OF s3(2)] s3(3,4) by (auto simp: free_object_def)
qed

lemma scan_entries_append:
  "scan_entries rec hdd lba bs (is @ js) s = bindE (scan_entries rec hdd lba bs is s) (scan_entries rec hdd lba bs js)"
  by (induction "is" arbitrary: s) (auto simp: bindE_def split: sum.splits)

lemma scan_primaries:
  fixes s :: "'z dstate_scheme"
  assumes "scannable hdd nm im x0 qs" and "scanned hdd nm im x0 qs ps ls ord s" and "length ps + length ks \<le> 4"
    and "\<forall>k \<in> set ks. k < 4 \<and> fs_type (entry_of (im 0) k) \<noteq> 5"
  shows "\<exists>s' o'. scan_entries rec hdd 0 (im 0) ks s = Inr s' \<and> ext_lba_base s' = ext_lba_base s \<and> live s' = live s \<and>
           scanned hdd nm im x0 qs (ps @ primaries im ks) ls o' s'"
  using assms(2-4)
proof (induction ks arbitrary: ps ord s)
  case Nil
  then show ?case by (auto simp: primaries_def)
next
  case (Cons k ks)
  let ?e = "entry_of (im 0) k"
  have "length (im 0) = 512" using assms(1) by (simp add: scannable_def sectors_def)
  then have pe: "partition_entry (im 0) k = Inr ?e" using Cons.prems(3) by (simp add: partition_entry_ok)
  show ?case
  proof (cases "primary ?e")
    case True
    obtain s' where s': "record_partition (hdd, unat (p_no s)) (ucast (p_no s) + 1) (pe_start_lba ?e) (pe_sec_cnt ?e) s = Inr s'"
      "ext_lba_base s' = ext_lba_base s" "live s' = live s"
      "scanned hdd nm im x0 qs (ps @ [(pe_start_lba ?e, pe_sec_cnt ?e)]) ls (ord @ [length ps]) (s'\<lparr>p_no := p_no s' + 1\<rparr>)"
      using scanned_primary [OF assms(1) Cons.prems(1)] Cons.prems(2) by fastforce
    have "scan_entry rec hdd 0 ?e s = Inr (s'\<lparr>p_no := p_no s' + 1\<rparr>)" using s'(1) True by (simp add: scan_entry_def primary_def)
    then show ?thesis using Cons.IH [OF s'(4)] Cons.prems(2,3) pe True s'(2,3) by (auto simp: primaries_Cons Let_def)
  next
    case False
    then have "scan_entry rec hdd 0 ?e s = Inr s" using Cons.prems(3) by (simp add: scan_empty primary_def)
    then show ?thesis using Cons.IH [OF Cons.prems(1)] Cons.prems(2,3) pe False by (auto simp: primaries_Cons Let_def)
  qed
qed

text \<open>The tables of a disk: its primary partitions and the logical ones.\<close>

definition tables :: "(nat \<Rightarrow> buf) \<Rightarrow> (u32 \<times> u32) list \<Rightarrow> (u32 \<times> u32) list \<Rightarrow> bool" where
  "tables im ps ls \<longleftrightarrow>
     ps = primaries im [0, 1, 2, 3] \<and>
     ((\<forall>k < 4. fs_type (entry_of (im 0) k) \<noteq> 5) \<and> ls = [] \<or>
      (\<exists>k < 4. fs_type (entry_of (im 0) k) = 5 \<and> (\<forall>j < 4. j \<noteq> k \<longrightarrow> fs_type (entry_of (im 0) j) \<noteq> 5) \<and>
        logicals im (pe_start_lba (entry_of (im 0) k)) (pe_start_lba (entry_of (im 0) k)) ls))"

lemma logicals_base: "logicals im base lba ls \<Longrightarrow> lba \<noteq> 0"
  by (cases rule: logicals.cases) auto

lemma split_entries:
  assumes "k < (4 :: nat)"
  shows "\<exists>is js. [0, 1, 2, 3] = is @ k # js \<and> (\<forall>j \<in> set is \<union> set js. j < 4 \<and> j \<noteq> k) \<and> length is + length js = 3"
proof -
  consider "k = 0" | "k = 1" | "k = 2" | "k = 3" using assms by linarith
  then show ?thesis
  proof cases
    case 1 then show ?thesis by (intro exI [of _ "[]"] exI [of _ "[1, 2, 3]"]) simp
  next
    case 2 then show ?thesis by (intro exI [of _ "[0]"] exI [of _ "[2, 3]"]) simp
  next
    case 3 then show ?thesis by (intro exI [of _ "[0, 1]"] exI [of _ "[3]"]) simp
  next
    case 4 then show ?thesis by (intro exI [of _ "[0, 1, 2]"] exI [of _ "[]"]) simp
  qed
qed

lemma partition_scan_ok:
  fixes s :: "'z dstate_scheme"
  assumes "scannable hdd nm im x0 qs" and "scanned hdd nm im x0 qs [] [] [] s" and "ext_lba_base s = 0"
    and "tables im ps ls" and "length ls \<le> 8" and "length ls < fuel"
  shows "\<exists>s' o'. partition_scan fuel hdd 0 s = Inr s' \<and> scanned hdd nm im x0 qs ps ls o' s' \<and> live s' = live s"
proof -
  obtain f where f: "fuel = Suc f" "length ls \<le> f" using assms(6) by (cases fuel) auto
  let ?rec = "partition_scan f hdd"
  let ?e = "entry_of (im 0)"
  obtain s1 where s1: "scanned hdd nm im x0 qs [] [] [] s1" "ext_lba_base s1 = 0" "live s1 = Suc (live s)"
    "partition_scan fuel hdd 0 s = bindE (scan_entries ?rec hdd 0 (im 0) [0, 1, 2, 3] s1) (\<lambda>s2. Inr (free_object s2))"
    using scan_sector [OF assms(1,2), of 0 f] assms(3) f by auto
  have len: "length (im 0) = 512" using assms(1) by (simp add: scannable_def sectors_def)
  have "\<exists>s2 o'. scan_entries ?rec hdd 0 (im 0) [0, 1, 2, 3] s1 = Inr s2 \<and> scanned hdd nm im x0 qs ps ls o' s2 \<and> live s2 = live s1"
  proof (cases "\<forall>k < 4. fs_type (?e k) \<noteq> 5")
    case True
    then have "ls = []" "ps = primaries im [0, 1, 2, 3]" using assms(4) by (auto simp: tables_def)
    then show ?thesis using scan_primaries [OF assms(1) s1(1), of "[0, 1, 2, 3]" ?rec] True by auto
  next
    case False
    then obtain k where k: "k < 4" "fs_type (?e k) = 5" "\<forall>j < 4. j \<noteq> k \<longrightarrow> fs_type (?e j) \<noteq> 5"
      "logicals im (pe_start_lba (?e k)) (pe_start_lba (?e k)) ls" and ps: "ps = primaries im [0, 1, 2, 3]"
      using assms(4) unfolding tables_def by blast
    let ?b = "pe_start_lba (?e k)"
    obtain "is" js where d: "[0, 1, 2, 3] = is @ k # js" "\<forall>j \<in> set is \<union> set js. j < 4 \<and> j \<noteq> k" "length is + length js = 3"
      using split_entries [OF k(1)] by blast
    have np: "\<forall>j \<in> set is. j < 4 \<and> fs_type (?e j) \<noteq> 5" "\<forall>j \<in> set js. j < 4 \<and> fs_type (?e j) \<noteq> 5"
      using d(2) k(3) by blast+
    obtain s2 o2 where s2: "scan_entries ?rec hdd 0 (im 0) is s1 = Inr s2" "ext_lba_base s2 = 0" "live s2 = live s1"
      "scanned hdd nm im x0 qs (primaries im is) [] o2 s2"
      using scan_primaries [OF assms(1) s1(1) _ np(1), of ?rec] d(3) s1(2) by auto
    obtain s3 o3 where s3: "partition_scan f hdd ?b (s2\<lparr>ext_lba_base := ?b\<rparr>) = Inr s3" "scanned hdd nm im x0 qs (primaries im is) ls o3 s3"
      "live s3 = live s1"
      using scan_chain [OF k(4) assms(1) scanned_base [OF s2(4)] _ f(2) logicals_base [OF k(4)]] assms(5) s2(3) by auto
    have ln: "length (primaries im is) \<le> length is" by (simp add: primaries_def)
    obtain s4 o4 where s4: "scan_entries ?rec hdd 0 (im 0) js s3 = Inr s4" "live s4 = live s1"
      "scanned hdd nm im x0 qs (primaries im is @ primaries im js) ls o4 s4"
      using scan_primaries [OF assms(1) s3(2) _ np(2), of ?rec] d(3) ln s3(3) by auto
    have "\<not> primary (?e k)" using k(2) by (simp add: primary_def)
    then have "ps = primaries im is @ primaries im js" unfolding ps d(1) by (simp add: primaries_def)
    moreover have "scan_entry ?rec hdd 0 (?e k) s2 = Inr s3" using k(2) s2(2) s3(1) by (simp add: scan_entry_def)
    then have "scan_entries ?rec hdd 0 (im 0) (is @ k # js) s1 = Inr s4"
      unfolding scan_entries_append using s2(1) s4(1) k(1) len by (simp add: partition_entry_ok)
    ultimately show ?thesis using s4(2,3) d(1) by auto
  qed
  then show ?thesis using s1(3,4) scanned_free by (fastforce simp: free_object_def)
qed

section \<open>Properties\<close>

text \<open>C17: The scan finds the partitions of the first disk.  Called with both counters 0 and \<open>ext_lba_base\<close> still 0, as for
  the first disk \<open>ide_init\<close> scans (nothing resets \<open>ext_lba_base\<close> afterwards: a disk scanned after one with an extended
  partition is not covered), and on a disk with up to four entries in its table, at most one of them extended, and
  up to eight logical partitions in the chain, \<open>partition_scan\<close> records the primary partitions in the order of the
  table and the logical ones in the order of the chain, each with its name, start and length, and enters each into the list of
  partitions once.  The disk is as before and the buffers are given back.\<close>

theorem partition_scan_finds_the_partitions:
  assumes "scannable hdd nm im x0 qs" and "scanned hdd nm im x0 qs [] [] [] s" and "ext_lba_base s = 0"
    and "tables im ps ls" and "length ls \<le> 8" and "length ls < fuel"
  shows "\<exists>s' ord. partition_scan fuel hdd 0 s = Inr s' \<and> disk_of hdd s' = im \<and> live s' = live s \<and>
           (\<forall>i < length ps. get_part (hdd, i) s' = Inr (recorded hdd nm i (ps ! i) (x0 i))) \<and>
           (\<forall>i < length ls. get_part (hdd, 4 + i) s' = Inr (recorded hdd nm (4 + i) (ls ! i) (x0 (4 + i)))) \<and>
           queue s' Partition_list (map part_tag (qs @ map (Pair hdd) ord)) \<and>
           distinct ord \<and> set ord = {..<length ps} \<union> (+) 4 ` {..<length ls}"
proof -
  obtain s' o' where s': "partition_scan fuel hdd 0 s = Inr s'" "scanned hdd nm im x0 qs ps ls o' s'" "live s' = live s"
    using partition_scan_ok [OF assms] by blast
  have "length ps \<le> 4" "length ls \<le> 8" using s'(2) by (simp_all add: scanned_def)
  then show ?thesis using s' unfolding scanned_def by (intro exI [of _ s'] exI [of _ o']) auto
qed

definition pentry :: "u8 \<Rightarrow> u32 \<Rightarrow> u32 \<Rightarrow> buf" where
  "pentry t l n = [0, 0, 0, 0, t, 0, 0, 0] @ le32 l @ le32 n"

definition table_sector :: "buf \<Rightarrow> buf \<Rightarrow> buf" where
  "table_sector e0 e1 = replicate 446 0 @ e0 @ e1 @ replicate 32 0 @ [0x55, 0xaa]"

lemma entry_of_table_sector:
  "entry_of (table_sector (pentry t l n) (pentry u k m)) 0 = \<lparr>fs_type = t, pe_start_lba = l, pe_sec_cnt = n\<rparr>"
  "entry_of (table_sector (pentry t l n) (pentry u k m)) (Suc 0) = \<lparr>fs_type = u, pe_start_lba = k, pe_sec_cnt = m\<rparr>"
  "j \<in> {2, 3} \<Longrightarrow> fs_type (entry_of (table_sector (pentry t l n) (pentry u k m)) j) = 0"
  by (auto simp: entry_of_def table_sector_def pentry_def nth_append)

text \<open>A disk with one primary partition and two logical ones.\<close>

definition demo_tables :: "nat \<Rightarrow> buf" where
  "demo_tables = (\<lambda>_. replicate 512 0)
     (0 := table_sector (pentry 0x83 2048 900) (pentry 5 4000 500),
      4000 := table_sector (pentry 0x83 1 59) (pentry 5 60 41),
      4060 := table_sector (pentry 0x83 1 40) (pentry 0 0 0))"

lemma demo_sectors:
  "demo_tables 0 = table_sector (pentry 0x83 2048 900) (pentry 5 4000 500)"
  "demo_tables 4000 = table_sector (pentry 0x83 1 59) (pentry 5 60 41)"
  "demo_tables 4060 = table_sector (pentry 0x83 1 40) (pentry 0 0 0)"
  by (simp_all add: demo_tables_def)

lemma demo_tables_ok:
  "tables demo_tables [(2048, 900)] [(4001, 59), (4061, 40)]" "sectors demo_tables"
proof -
  note e = demo_sectors entry_of_table_sector primary_def
  have "logicals demo_tables 4000 4060 [(4061, 40)]"
    using logicals.last_one [OF _ _ refl, of 4060 demo_tables 4000] by (simp add: e)
  then have l: "logicals demo_tables 4000 4000 [(4001, 59), (4061, 40)]"
    using logicals.one_more [OF _ _ refl, of 4000 demo_tables 4000 "[(4061, 40)]"] by (simp add: e)
  have t: "fs_type (entry_of (demo_tables 0) j) = (if j = 0 then 0x83 else if j = 1 then 5 else 0)" if "j < 4" for j
  proof -
    have "j = 0 \<or> j = 1 \<or> j \<in> {2, 3}" using that by auto
    then show ?thesis by (auto simp: e)
  qed
  have "primaries demo_tables [0, 1, 2, 3] = [(2048, 900)]" by (simp add: primaries_def e)
  moreover have base: "pe_start_lba (entry_of (demo_tables 0) (Suc 0)) = 4000" by (simp add: e)
  have "\<exists>k < 4. fs_type (entry_of (demo_tables 0) k) = 5 \<and> (\<forall>j < 4. j \<noteq> k \<longrightarrow> fs_type (entry_of (demo_tables 0) j) \<noteq> 5) \<and>
      logicals demo_tables (pe_start_lba (entry_of (demo_tables 0) k)) (pe_start_lba (entry_of (demo_tables 0) k)) [(4001, 59), (4061, 40)]"
    using l t base by (intro exI [of _ "Suc 0"]) simp
  ultimately show "tables demo_tables [(2048, 900)] [(4001, 59), (4061, 40)]" unfolding tables_def by simp
  show "sectors demo_tables" by (auto simp: sectors_def demo_tables_def table_sector_def pentry_def)
qed

definition demo_scan :: "(nat \<Rightarrow> buf) \<Rightarrow> unit dstate_scheme" where
  "demo_scan im = demo_machine blank_partition (\<lambda>_ _. im) ()\<lparr>malloc_at := \<lambda>_. 0xc0200000\<rparr>"

lemma demo_scan_ok:
  assumes "sectors im"
  shows
  "scanned (0, 1) [0x68, 0x64, 0x62, 0, 0, 0, 0, 0] im (\<lambda>_. blank_partition) [] [] [] [] (demo_scan im)"
  "scannable (0, 1) [0x68, 0x64, 0x62, 0, 0, 0, 0, 0] im (\<lambda>_. blank_partition) []" "ext_lba_base (demo_scan im) = 0"
proof -
  let ?m = "demo_machine blank_partition (\<lambda>_ _. im) ()"
  have "ide_up 0 1 ?m" by (rule demo_machine_up) simp_all
  then have u: "ide_up 0 1 (demo_scan im)"
    by (simp add: demo_scan_def ide_up_def disk_up_def disk_wired_def controller_ready_def channel_lock_ok_def lock_free_def queue_def dll_def)
  have d: "disk_of (0, 1) (demo_scan im) = im" by (simp add: disk_of_def demo_scan_def demo_machine_def)
  have q: "queue (demo_scan im) Partition_list []" using demo_machine_queue [of blank_partition _ _ Partition_list] by (simp add: demo_scan_def queue_def dll_def)
  have g: "get_disk (0, 1) (demo_scan im) = Inr (demo_disk 0 1 blank_partition)"
    by (simp add: get_disk_def get_channel_def demo_scan_def demo_machine_def demo_channel_def rd_def)
  have "get_part ((0, 1), i) (demo_scan im) = Inr blank_partition" if "i < 12" for i
    using g that by (auto simp: get_part_def demo_disk_def rd_def nth_Cons split: nat.splits)
  then show "scanned (0, 1) [0x68, 0x64, 0x62, 0, 0, 0, 0, 0] im (\<lambda>_. blank_partition) [] [] [] [] (demo_scan im)"
    unfolding scanned_def disk_ready_def d using u q g assms
    by (simp add: demo_disk_def) (simp add: demo_scan_def demo_machine_def)
  show "scannable (0, 1) [0x68, 0x64, 0x62, 0, 0, 0, 0, 0] im (\<lambda>_. blank_partition) []"
    using assms by (simp add: scannable_def terminated_def cstr_def blank_partition_def)
  show "ext_lba_base (demo_scan im) = 0" by (simp add: demo_scan_def demo_machine_def)
qed

theorem partition_scan_finds_the_partitions_witness:
  "\<exists>s'. partition_scan 3 (0, 1) 0 (demo_scan demo_tables) = Inr s' \<and>
     (\<exists>x. get_part ((0, 1), 0) s' = Inr x \<and> cstr (part_name x) = [0x68, 0x64, 0x62, 0x31] \<and> start_lba x = 2048) \<and>
     (\<exists>x. get_part ((0, 1), 5) s' = Inr x \<and> cstr (part_name x) = [0x68, 0x64, 0x62, 0x36] \<and> start_lba x = 4061)"
proof -
  let ?nm = "[0x68, 0x64, 0x62, 0, 0, 0, 0, 0] :: buf"
  obtain s' where s': "partition_scan 3 (0, 1) 0 (demo_scan demo_tables) = Inr s'"
    "get_part ((0, 1), 0) s' = Inr (recorded (0, 1) ?nm 0 (2048, 900) blank_partition)"
    "\<forall>i < 2. get_part ((0, 1), 4 + i) s' = Inr (recorded (0, 1) ?nm (4 + i) ([(4001, 59), (4061, 40)] ! i) blank_partition)"
    using partition_scan_finds_the_partitions [OF demo_scan_ok(2,1,3) [OF demo_tables_ok(2)] demo_tables_ok(1), of 3] by auto
  from s'(3) have "get_part ((0, 1), 5) s' = Inr (recorded (0, 1) ?nm 5 (4061, 40) blank_partition)" by (auto dest: spec [of _ 1])
  moreover have d: "decimal 1 = [0x31]" "decimal 6 = [0x36]"
    by (simp_all add: decimal_def number_text_def digits.simps digit_char_def)
  have "cstr (part_text ?nm 0) = [0x68, 0x64, 0x62, 0x31]" "cstr (part_text ?nm 5) = [0x68, 0x64, 0x62, 0x36]"
    using d by (simp_all add: part_text_def Let_def cstr_def)
  ultimately show ?thesis using s'(1,2) by (simp add: recorded_def)
qed

lemma scan_circle:
  fixes s :: "'z dstate_scheme"
  assumes "scannable hdd nm im x0 qs" and "lba \<noteq> 0" and "lba < 2 ^ 28" and "fs_type (entry_of (im (unat lba)) 0) = 5"
    and "pe_start_lba (entry_of (im (unat lba)) 0) = 0"
  shows "scanned hdd nm im x0 qs ps ls ord s \<Longrightarrow> ext_lba_base s = lba \<Longrightarrow> partition_scan fuel hdd lba s = Inl Hang"
proof (induction fuel arbitrary: s)
  case (Suc fuel)
  have len: "length (im (unat lba)) = 512" using assms(1) by (simp add: scannable_def sectors_def)
  obtain s1 where s1: "scanned hdd nm im x0 qs ps ls ord s1" "ext_lba_base s1 = lba"
    "partition_scan (Suc fuel) hdd lba s =
       bindE (scan_entries (partition_scan fuel hdd) hdd lba (im (unat lba)) [0, 1, 2, 3] s1) (\<lambda>s2. Inr (free_object s2))"
    using scan_sector [OF assms(1) Suc.prems(1) assms(3), of fuel] Suc.prems(2) by auto
  have "scan_entry (partition_scan fuel hdd) hdd lba (entry_of (im (unat lba)) 0) s1 = Inl Hang"
    using Suc.IH [OF s1(1,2)] assms(2,4,5) s1(2) by (simp add: scan_entry_def)
  then show ?case using s1(3) len by (simp add: partition_entry_ok del: partition_scan.simps)
qed simp

text \<open>Nothing bounds the recursion.  When the first entry of a table in the chain points back to the chain's start, the scan
  does not end at any depth: the kernel's stack overflows while the disks are initialised.\<close>

theorem circular_tables_are_never_left:
  assumes "scannable hdd nm im x0 qs" and "scanned hdd nm im x0 qs ps ls ord s" and "ext_lba_base s = 0"
    and "fs_type (entry_of (im 0) 0) = 5" and "pe_start_lba (entry_of (im 0) 0) = lba" and "lba \<noteq> 0" and "lba < 2 ^ 28"
    and "fs_type (entry_of (im (unat lba)) 0) = 5" and "pe_start_lba (entry_of (im (unat lba)) 0) = 0"
  shows "partition_scan fuel hdd 0 s = Inl Hang"
proof (cases fuel)
  case (Suc f)
  have len: "length (im 0) = 512" using assms(1) by (simp add: scannable_def sectors_def)
  obtain s1 where s1: "scanned hdd nm im x0 qs ps ls ord s1" "ext_lba_base s1 = 0"
    "partition_scan (Suc f) hdd 0 s =
       bindE (scan_entries (partition_scan f hdd) hdd 0 (im 0) [0, 1, 2, 3] s1) (\<lambda>s2. Inr (free_object s2))"
    using scan_sector [OF assms(1,2), of 0 f] assms(3) by auto
  have "partition_scan f hdd lba (s1\<lparr>ext_lba_base := lba\<rparr>) = Inl Hang"
    by (rule scan_circle [OF assms(1,6-9) scanned_base [OF s1(1)]]) simp
  then have "scan_entry (partition_scan f hdd) hdd 0 (entry_of (im 0) 0) s1 = Inl Hang"
    using assms(4,5) s1(2) by (simp add: scan_entry_def)
  then show ?thesis using Suc s1(3) len by (simp add: partition_entry_ok del: partition_scan.simps)
qed simp

definition demo_circle :: "nat \<Rightarrow> buf" where
  "demo_circle = (\<lambda>_. replicate 512 0)
     (0 := table_sector (pentry 5 4000 500) (pentry 0 0 0), 4000 := table_sector (pentry 5 0 500) (pentry 0 0 0))"

lemma demo_circle_sectors:
  "demo_circle 0 = table_sector (pentry 5 4000 500) (pentry 0 0 0)" "demo_circle 4000 = table_sector (pentry 5 0 500) (pentry 0 0 0)"
  "sectors demo_circle"
  by (auto simp: demo_circle_def sectors_def table_sector_def pentry_def)

theorem circular_tables_are_never_left_witness:
  "\<forall>fuel. partition_scan fuel (0, 1) 0 (demo_scan demo_circle) = Inl Hang"
  using circular_tables_are_never_left [OF demo_scan_ok(2,1,3) [OF demo_circle_sectors(3)], of 4000]
  by (simp add: demo_circle_sectors(1,2) entry_of_table_sector)

end
