(* ===== verification/Boot.thy ===== *)
theory Boot
  imports Format Syscalls
begin

text \<open>
  From a blank disk to the first file: \<open>filesys_init\<close> formats the partition, mounts it and opens its root directory, and
  what it leaves is the state the theorems about the system calls start from.
\<close>

section \<open>A blank disk\<close>

text \<open>The second disk of the first channel works and has one partition, \<open>hdb1\<close>, without a file system; the heap has room; the running
  task has its fourth descriptor free.\<close>

definition blank_disk :: "partition \<Rightarrow> task_struct \<Rightarrow> 'z fstate_scheme \<Rightarrow> bool" where
  "blank_disk x t s \<longleftrightarrow>
     disk_ready (0, 1) s \<and> get_part ((0, 1), 0) s = Inr x \<and> my_disk x = Some (0, 1) \<and>
     (\<forall>i. 0 < i \<longrightarrow> i < 12 \<longrightarrow> (\<exists>y. get_part ((0, 1), i) s = Inr y \<and> sec_cnt y = 0)) \<and>
     640 \<le> unat (sec_cnt x) \<and> unat (sec_cnt x) < 2 ^ 21 \<and> unat (start_lba x) + unat (sec_cnt x) + 2048 \<le> 2 ^ 28 \<and>
     terminated (part_name x) \<and> cstr (part_name x) = [0x68, 0x64, 0x62, 0x31] \<and>
     magic (sb_of_bytes (disk_of (0, 1) s (unat (start_lba x) + 1))) \<noteq> 0x19980320 \<and>
     channel_cnt s \<noteq> 0 \<and> (\<exists>ts. queue s Partition_list (part_tag ((0, 1), 0) # ts)) \<and>
     (\<forall>k < 14. malloc_at s (malloc_no s + k) \<noteq> 0) \<and> malloc_at s (malloc_no s + 6) \<noteq> malloc_at s (malloc_no s + 10) \<and>
     length (file_table s) = 32 \<and> tasks s (running s) = Some t \<and> length (fd_table t) = 8 \<and> fd_table t ! 3 = -1"

section \<open>The steps of the initialisation\<close>

lemma check_partitions_rest:
  assumes "\<forall>i. n \<le> i \<longrightarrow> i < 12 \<longrightarrow> (\<exists>y. get_part (hdd, i) s = Inr y \<and> sec_cnt y = 0)"
  shows "check_partitions pad hdd n b s = Inr (b, s)"
  using assms
proof (induction "12 - n" arbitrary: n)
  case 0
  then show ?case by (subst check_partitions.simps) simp
next
  case (Suc m)
  then obtain y where "get_part (hdd, n) s = Inr y" "sec_cnt y = 0" by (metis le_refl zero_less_Suc zero_less_diff)
  moreover have "check_partitions pad hdd (n + 1) b s = Inr (b, s)" using Suc by (intro Suc.hyps(1)) auto
  ultimately show ?case by (subst check_partitions.simps) simp
qed

lemma check_channels_rest: "check_channels pad c n 12 b s = Inr s"
proof (induction n arbitrary: c)
  case (Suc n)
  have "check_partitions pad (c, 1) 12 b s = Inr (b, s)" by (subst check_partitions.simps) simp
  then show ?case using Suc by simp
qed simp

lemma list_traversal_first:
  assumes "queue h l (e # es)" and "func (Elem e) h = Inr (True, h')"
  shows "list_traversal (klist l) func h = Inr (Some (Elem e), h')"
proof -
  have d: "dll h (klist l) (Elem e # map Elem es)" using assms(1) by (simp add: queue_def)
  then have "nnext h (Head l) = Some (Elem e)" by (simp add: dll_def)
  moreover have "traverse_loop func (Tail l) (Some (Elem e)) h = Some (Inr (Some (Elem e), h'))"
    using assms(2) by (subst traverse_loop.simps) simp
  ultimately show ?thesis using list_len_ok [OF d] by (simp add: list_traversal_def run_loop_def)
qed

text \<open>The partition is formatted.\<close>

lemma check_channels_formats:
  fixes s :: "'z fstate_scheme"
  assumes "blank_disk x t s" and "format_layout x = (b, len)" and "length pad = 460"
  defines "st \<equiv> unat (start_lba x)" and "B \<equiv> bitmap_sects (unat (sec_cnt x))"
  shows "\<exists>s' bm. check_channels pad 0 (unat (channel_cnt s)) 0 (replicate 512 0) (s\<lparr>malloc_no := Suc (malloc_no s), live := Suc (live s)\<rparr>) =
             Inr s' \<and> length bm = 311296 \<and>
           (\<forall>i < 4096 * B. bit (bm ! (i div 8)) (i mod 8) = (i = 0 \<or> unat len < i)) \<and>
           (let F = formatted b st B pad bm (disk_of (0, 1) s) in
            sectors F \<and> io (0, 1) F (s\<lparr>malloc_no := malloc_no s + 2, live := live s + 1\<rparr>) s')"
proof -
  let ?hdd = "(0, 1) :: disk_ptr" and ?p = "((0, 1), 0) :: part_ptr"
  let ?s0 = "s\<lparr>malloc_no := Suc (malloc_no s), live := Suc (live s)\<rparr>"
  have k: "disk_ready ?hdd s" "get_part ?p s = Inr x" "my_disk x = Some ?hdd"
    "\<forall>i. 0 < i \<longrightarrow> i < 12 \<longrightarrow> (\<exists>y. get_part (?hdd, i) s = Inr y \<and> sec_cnt y = 0)"
    "640 \<le> unat (sec_cnt x)" "unat (sec_cnt x) < 2 ^ 21" "unat (start_lba x) + unat (sec_cnt x) + 2048 \<le> 2 ^ 28"
    "magic (sb_of_bytes (disk_of ?hdd s (st + 1))) \<noteq> 0x19980320" "channel_cnt s \<noteq> 0"
    "\<forall>k < 14. malloc_at s (malloc_no s + k) \<noteq> 0"
    using assms(1) unfolding blank_disk_def st_def by blast+
  have bnd: "620 \<le> unat (sec_cnt x)" "unat (start_lba x) + unat (sec_cnt x) \<le> 2 ^ 28" "st + 2 \<le> 2 ^ 28" using k(5,7) by (simp_all add: st_def)
  have r0: "disk_ready ?hdd ?s0" "disk_of ?hdd ?s0 = disk_of ?hdd s" "get_part q ?s0 = get_part q s" for q using k(1) by simp_all
  have st1: "unat (start_lba x + 1) = st + 1" using bnd(3) by (simp add: st_def unat_word_ariths)
  obtain s1 where s1: "ide_read ?hdd (start_lba x + 1) (replicate 512 0) 1 ?s0 = Inr (disk_of ?hdd s (st + 1), s1)"
    "io ?hdd (disk_of ?hdd s) ?s0 s1"
    using ide_read_io [OF r0(1), of "start_lba x + 1" 1 "replicate 512 0"] bnd(3) r0(2) by (auto simp: st1 read_image_def)
  note f1 = io_frame [OF s1(2)]
  have sec: "sectors (disk_of ?hdd s)" using k(1) by (simp add: disk_ready_def)
  have r1: "disk_ready ?hdd s1" "get_part q s1 = get_part q s" "disk_of ?hdd s1 = disk_of ?hdd s" for q
    using io_ready [OF s1(2) r0(1) sec] io_part [OF s1(2)] io_disk [OF s1(2)] by simp_all
  have m1: "malloc_at s1 (malloc_no s1) \<noteq> 0" using k(10) [rule_format, of 1] f1(6,7) by simp
  have g1: "get_part ?p s1 = Inr x" using r1(2) k(2) by simp
  obtain s6 bm where f: "partition_format pad ?p s1 = Inr (free_object s6)" "length bm = 311296"
    "\<forall>i < 4096 * B. bit (bm ! (i div 8)) (i mod 8) = (i = 0 \<or> unat len < i)"
    "io ?hdd (formatted b st B pad bm (disk_of ?hdd s)) (s1\<lparr>malloc_no := Suc (malloc_no s1), live := Suc (live s1)\<rparr>) s6"
    "sectors (formatted b st B pad bm (disk_of ?hdd s))"
    using partition_format_ok [OF g1 k(3) r1(1) assms(3) bnd(1) k(6) bnd(2) m1 assms(2)] unfolding r1(3) st_def B_def by blast
  let ?F = "formatted b st B pad bm (disk_of ?hdd s)"
  have "io ?hdd (disk_of ?hdd s) (s\<lparr>malloc_no := malloc_no s + 2, live := live s + 2\<rparr>) (s1\<lparr>malloc_no := malloc_no s + 2, live := live s + 2\<rparr>)"
    using io_heap [OF s1(2), where n = "malloc_no s + 2" and m = "live s + 2"] by simp
  then have i6: "io ?hdd ?F (s\<lparr>malloc_no := malloc_no s + 2, live := live s + 2\<rparr>) s6"
    using io_trans f(4) f1(7,8) by simp
  have n6: "malloc_no s6 = malloc_no s + 2" and l6: "live s6 = live s + 2" using io_frame(7,8) [OF i6] by simp_all
  have "io ?hdd ?F (s\<lparr>malloc_no := malloc_no s6, live := live s + 1\<rparr>) (free_object s6)"
    using io_heap [OF i6, where n = "malloc_no s6" and m = "live s + 1"] l6 by (simp add: free_object_def)
  then have i7: "io ?hdd ?F (s\<lparr>malloc_no := malloc_no s + 2, live := live s + 1\<rparr>) (free_object s6)" unfolding n6 .
  have rest: "check_partitions pad ?hdd 1 c (free_object s6) = Inr (c, free_object s6)" for c
    using k(4) io_part [OF i7] by (intro check_partitions_rest) simp
  have "sec_cnt x \<noteq> 0" using k(5) by auto
  then have "check_partitions pad ?hdd 0 (replicate 512 0) ?s0 = Inr (disk_of ?hdd s (st + 1), free_object s6)"
    using k(2,8) s1(1) f(1) rest memset_whole [of 512 "replicate 512 0" 0] by (subst check_partitions.simps) simp
  moreover obtain n where "unat (channel_cnt s) = Suc n" using k(9) by (metis not0_implies_Suc unat_eq_zero)
  ultimately have "check_channels pad 0 (unat (channel_cnt s)) 0 (replicate 512 0) ?s0 = Inr (free_object s6)"
    using check_channels_rest by simp
  then show ?thesis using f(2,3,5) i7 by (auto simp: Let_def)
qed

text \<open>The root directory as formatting leaves it has room for an entry, and none but the first two.\<close>

lemma root_dir_entries:
  assumes "k < 21"
  defines "d \<equiv> root_dir_bytes @ replicate 464 0"
  shows "terminated (entry_text d k)" and "cstr (entry_text d k) = (if k = 0 then [0x2e] else if k = 1 then [0x2e, 0x2e] else [])"
    and "entry_type d k = (if k < 2 then 2 else 0)"
proof -
  have rl: "length root_dir_bytes = 48" by (simp add: root_dir_bytes_def)
  have t: "entry_text d k = (if k = 0 then [0x2e] else if k = 1 then [0x2e, 0x2e] else []) @ 0 # replicate (if k = 0 then 14 else if k = 1 then 13 else 15) 0"
  proof (cases "k < 2")
    case True
    then have "k = 0 \<or> k = 1" by auto
    then show ?thesis by (auto simp: entry_text_def d_def root_dir_bytes_def le32_def numeral_eq_Suc)
  next
    case False
    then have "entry_text d k = replicate 16 0" using assms(1) rl by (simp add: entry_text_def d_def min_def)
    also have "replicate 16 0 = 0 # replicate 15 (0 :: u8)" by (simp add: numeral_eq_Suc)
    finally show ?thesis using False by simp
  qed
  show "terminated (entry_text d k)" unfolding t by (rule terminated_append_nul)
  show "cstr (entry_text d k) = (if k = 0 then [0x2e] else if k = 1 then [0x2e, 0x2e] else [])" unfolding t by (rule cstr_append_nul) simp
  show "entry_type d k = (if k < 2 then 2 else 0)"
  proof (cases "k < 2")
    case True
    then have "k = 0 \<or> k = 1" by auto
    then show ?thesis by (auto simp: entry_type_def d_def root_dir_bytes_def le32_def of_le32_def nth_append)
  next
    case False
    then have "take 4 (drop (24 * k + 20) d) = replicate 4 0" using assms(1) rl by (simp add: d_def min_def)
    then show ?thesis using False by (simp add: entry_type_def of_le32_def)
  qed
qed

lemma fresh_root_dir:
  assumes "im (unat (data_start_lba b)) = root_dir_bytes @ replicate 464 0" and "on_disk (data_start_lba b)"
    and "name \<notin> {[], [0x2e], [0x2e, 0x2e]}" and "i_sectors r = data_start_lba b # replicate 12 0"
  shows "dir_slot im r name 0 2" and "no_entry im r name"
proof -
  note e = root_dir_entries
  have n: "not_named name (im (unat (data_start_lba b))) 21" using e assms(1,3) by (auto simp: not_named_def)
  then show "dir_slot im r name 0 2"
    using e(3) [of 2] e(3) assms(1,2,4) by (auto simp: dir_slot_def in_use_def not_named_def nth_Cons')
  show "no_entry im r name" using n assms(2,4) by (auto simp: no_entry_def nth_Cons')
qed

text \<open>The last two assignments of \<open>filesys_init\<close> touch neither disk nor partitions.\<close>

definition rooted :: "u32 \<Rightarrow> 'z fstate_scheme \<Rightarrow> 'z fstate_scheme" where
  "rooted a s = s\<lparr>root_dir_inode := a, root_dir_pos := 0, file_table := map (\<lambda>f. f\<lparr>fd_inode := 0\<rparr>) (file_table s)\<rparr>"

lemma rooted_frame [simp]:
  "part_ok p hdd b x (rooted a s) = part_ok p hdd b x s" "opened p as (rooted a s) = opened p as s"
  "disk_of hdd (rooted a s) = disk_of hdd s" "malloc_at (rooted a s) = malloc_at s" "malloc_no (rooted a s) = malloc_no s"
  "live (rooted a s) = live s" "cur_part (rooted a s) = cur_part s" "inodes (rooted a s) = inodes s"
  "tasks (rooted a s) = tasks s" "running (rooted a s) = running s" "root_dir_inode (rooted a s) = a"
  "sync_frame t (rooted a s) = sync_frame t s"
  by (simp_all add: rooted_def part_ok_def opened_def get_part_def get_disk_def get_channel_def disk_of_def disk_ready_def
      ide_up_def disk_up_def disk_wired_def controller_ready_def channel_lock_ok_def lock_free_def queue_def dll_def sync_frame_def)

lemma rooted_slots:
  assumes "length (file_table s) = 32" and "tasks s (running s) = Some t" and "length (fd_table t) = 8" and "fd_table t ! 3 = -1"
  shows "free_slots 3 3 t (rooted a s)"
  using assms by (simp add: free_slots_def) (simp add: rooted_def)

lemma filesys_init_ok:
  fixes s :: "'z fstate_scheme"
  assumes "blank_disk x t s" and "format_layout x = (b, len)" and "length pad = 460"
  shows "\<exists>s' y. filesys_init pad s = Inr s' \<and>
           (\<forall>name. name \<notin> {[], [0x2e], [0x2e, 0x2e]} \<longrightarrow>
              can_create ((0, 1), 0) (0, 1) b y (opened_now (root_inode b)) name 0 2 1 3 3 (malloc_at s (malloc_no s + 10)) s') \<and>
           free_blocks y = {k. 0 < k \<and> k \<le> unat len \<and> k < 2048 \<and> k < 4096 * unat (block_bitmap_sects b)} \<and>
           malloc_at s' = malloc_at s \<and> malloc_no s' = malloc_no s + 8 \<and> live s' = live s + 5 \<and> sync_frame s s'"
proof -
  let ?hdd = "(0, 1) :: disk_ptr" and ?p = "((0, 1), 0) :: part_ptr"
  let ?st = "unat (start_lba x)" and ?n = "unat (sec_cnt x)"
  let ?B = "bitmap_sects ?n"
  let ?name = "[0x68, 0x64, 0x62, 0x31, 0, 0, 0, 0] :: buf"
  obtain ts where k: "disk_ready ?hdd s" "get_part ?p s = Inr x" "my_disk x = Some ?hdd"
    "640 \<le> ?n" "?n < 2 ^ 21" "?st + ?n + 2048 \<le> 2 ^ 28" "terminated (part_name x)" "cstr (part_name x) = [0x68, 0x64, 0x62, 0x31]"
    "channel_cnt s \<noteq> 0" "queue s Partition_list (part_tag ?p # ts)" "\<forall>k < 14. malloc_at s (malloc_no s + k) \<noteq> 0"
    "malloc_at s (malloc_no s + 6) \<noteq> malloc_at s (malloc_no s + 10)"
    using assms(1) unfolding blank_disk_def by blast
  have slots: "length (file_table s) = 32" "tasks s (running s) = Some t" "length (fd_table t) = 8" "fd_table t ! 3 = -1"
    using assms(1) unfolding blank_disk_def by blast+
  have big: "620 \<le> ?n" "?st + ?n \<le> 2 ^ 28" using k(4,6) by simp_all
  note bb = bitmap_sects_bounds [OF big(1) k(5)]
  have lay: "unat (block_bitmap_lba b) = ?st + 2" "unat (block_bitmap_sects b) = ?B" "unat (inode_bitmap_lba b) = ?st + 2 + ?B"
    "inode_bitmap_sects b = 1" "unat (inode_table_lba b) = ?st + 3 + ?B" "unat (data_start_lba b) = ?st + 611 + ?B"
    "unat len = data_blocks ?n" "root_inode_no b = 0" "dir_entry_size b = 24"
    using format_layout_ok [OF big(1) k(5) big(2)] assms(2) by auto
  let ?s0 = "s\<lparr>malloc_no := Suc (malloc_no s), live := Suc (live s)\<rparr>"
  obtain s2 bm where s2: "check_channels pad 0 (unat (channel_cnt s)) 0 (replicate 512 0) ?s0 = Inr s2" "length bm = 311296"
    "\<forall>i < 4096 * ?B. bit (bm ! (i div 8)) (i mod 8) = (i = 0 \<or> unat len < i)"
    and F: "sectors (formatted b ?st ?B pad bm (disk_of ?hdd s))"
    "io ?hdd (formatted b ?st ?B pad bm (disk_of ?hdd s)) (s\<lparr>malloc_no := malloc_no s + 2, live := live s + 1\<rparr>) s2"
    using check_channels_formats [OF assms] unfolding Let_def by blast
  let ?F = "formatted b ?st ?B pad bm (disk_of ?hdd s)" and ?s3 = "free_object s2"
  note r = formatted_regions [where im = "disk_of ?hdd s", OF assms(3) s2(2) bb(1,2) lay(5)]
  note f2 = io_frame [OF F(2)] and g2 = io_fstate [OF F(2)]
  have d3: "disk_of ?hdd ?s3 = ?F" using io_disk [OF F(2)] by simp
  have r3: "disk_ready ?hdd ?s3" "get_part ?p ?s3 = Inr x" using io_ready [OF F(2) _ F(1)] io_part [OF F(2)] k(1,2) by simp_all
  have q3: "queue ?s3 Partition_list (part_tag ?p # ts)" using f2(5) k(10) by simp
  have h3: "malloc_at ?s3 = malloc_at s" "malloc_no ?s3 = malloc_no s + 2" "live ?s3 = live s" "tasks ?s3 = tasks s"
    "running ?s3 = running s" "file_table ?s3 = file_table s" "sync_frame s ?s3"
    using f2 g2 sync_frame_trans [OF _ sync_frame_simps(2)] sync_frame_io [OF F(2)]
    by (simp_all add: free_object_def sync_frame_def queue_def dll_def)
  have nm: "terminated ?name" "cstr (part_name x) = cstr ?name" using k(8) by (simp_all add: terminated_def cstr_def)
  have sbb: "sb_of_bytes (disk_of ?hdd ?s3 (?st + 1)) = b" unfolding d3 r(1) by (rule sb_of_bytes_sb_bytes)
  have bnd: "?st + 2 \<le> 2 ^ 28" "unat (block_bitmap_lba b) + unat (block_bitmap_sects b) \<le> 2 ^ 28" "unat (block_bitmap_sects b) \<le> 512"
    "unat (inode_bitmap_lba b) + unat (inode_bitmap_sects b) \<le> 2 ^ 28" "unat (inode_bitmap_sects b) \<le> 512"
    using k(6) bb lay by simp_all
  have heap3: "\<forall>q < 4. malloc_at ?s3 (malloc_no ?s3 + q) \<noteq> 0" using k(11) [rule_format, of "2 + _"] by (simp add: h3(1,2))
  let ?y = "x\<lparr>sb := Some b, block_bitmap := \<lparr>btmp_bytes_len = 512 * ?B, bits = take (512 * ?B) bm\<rparr>,
             inode_bitmap := \<lparr>btmp_bytes_len = 512, bits = (replicate 512 0)[0 := 1]\<rparr>\<rparr>"
  obtain s4 where s4: "mount_partition ?name ?p ?s3 = Inr (True, s4)" "cur_part s4 = Some ?p" "opened ?p [] s4" "live s4 = live s + 4"
    "disk_of ?hdd s4 = ?F" "part_ok ?p ?hdd b ?y s4" "tasks s4 = tasks s" "running s4 = running s"
    "file_table s4 = file_table s" "malloc_at s4 = malloc_at s" "malloc_no s4 = malloc_no s + 6" "sync_frame s s4"
    using mount_partition_ok [OF r3(2) k(3) r3(1) k(7) nm bnd(1) sbb bnd(2-5) heap3] sync_frame_trans [OF h3(7)]
    unfolding d3 lay(1-4) unsigned_1 r(2,3) h3(1-6) by auto
  have tr: "list_traversal (klist Partition_list) (mount_elem ?name) ?s3 = Inr (Some (Elem (part_tag ?p)), s4)"
    by (rule list_traversal_first [where func = "mount_elem ?name", OF q3])
      (use s4(1) in \<open>simp add: mount_elem_def elem2entry_def tag2part_tag\<close>)
  have fits: "table_fits b" using k(6) bb lay(5) by (simp add: table_fits_def)
  let ?a = "malloc_at s (malloc_no s + 6)" and ?r = "opened_now (root_inode b)"
  have a: "malloc_at s4 (malloc_no s4) = ?a" "?a \<noteq> 0" "malloc_at s4 (Suc (malloc_no s4)) \<noteq> 0"
    using k(11) [rule_format, of 6] k(11) [rule_format, of 7] by (simp_all add: s4(10,11) add.commute)
  have z: "unat (0 :: u32) < 4096" "find (has_number s4 0) [] = None" "?a \<notin> set []" by simp_all
  have root: "inode_of_bytes (inode_at ?F b (unat (0 :: u32))) = root_inode b"
    using r(4) inode_of_bytes_inverse [of "root_inode b"] by (simp add: root_inode_def)
  obtain s5 where s5: "inode_open ?p 0 s4 = Inr (?a, s5)" "opened ?p [?a] s5" "live s5 = live s + 5"
    "inodes s5 = (inodes s4)(?a \<mapsto> ?r)" "disk_of ?hdd s5 = ?F" "tasks s5 = tasks s" "cur_part s5 = Some ?p"
    "file_table s5 = file_table s" "part_ok ?p ?hdd b ?y s5" "running s5 = running s" "malloc_at s5 = malloc_at s"
    "malloc_no s5 = malloc_no s + 8" "sync_frame s s5"
    using inode_open_fresh [OF s4(6) fits z(1) s4(3) z(2) a z(3)] s4 sync_frame_trans [OF s4(12)] root by auto
  let ?s' = "rooted ?a s5"
  have "part_sb ?p s4 = Inr b" using s4(6) by (simp add: part_ok_def part_sb_def)
  then have od: "open_root_dir ?p s4 = Inr (s5\<lparr>root_dir_inode := ?a, root_dir_pos := 0\<rparr>)"
    using s5(1) by (simp add: open_root_dir_def lay(8))
  have nb: "new_buffer 512 s = (Some (replicate 512 0), ?s0)" using k(11) [rule_format, of 0] by (intro new_buffer_ok) simp
  have run: "filesys_init pad s = Inr ?s'"
    using s2(1) tr s4(2) od by (simp add: filesys_init_def nb must_have_def rooted_def)
  have used: "used (block_bitmap ?y) i = (i = 0 \<or> unat len < i)" if "i < 4096 * ?B" for i
  proof -
    have "i div 8 < 512 * ?B" using that by (simp add: div_less_iff_less_mult)
    then show ?thesis using s2(3) that by (simp add: used_def)
  qed
  have free: "free_blocks ?y = {k. 0 < k \<and> k \<le> unat len \<and> k < 2048 \<and> k < 4096 * unat (block_bitmap_sects b)}"
    using used by (auto simp: free_blocks_def nbits_def lay(2))
  have "512 * ?B \<le> length bm" using s2(2) bb(2) by simp
  then have maps: "layout_ok b ?y" "inode_map_ok b ?y" "used (block_bitmap ?y) 0" "first_unused (inode_bitmap ?y) 1"
    using k(6) bb lay used [of 0] by (simp_all add: layout_ok_def inode_map_ok_def first_unused_def used_def nbits_def)
  have on: "on_disk (data_start_lba b)" using k(6) bb(6) lay(6,7) by (auto simp: on_disk_def unat_eq_0)
  have rs: "i_sectors ?r = data_start_lba b # replicate 12 0" by (simp add: opened_now_def root_inode_def)
  have heap: "\<forall>q < 4. malloc_at s (malloc_no s + 8 + q) \<noteq> 0" using k(11) [rule_format, of "8 + _"] by (simp add: add.assoc)
  have sl: "free_slots 3 3 t ?s'" by (rule rooted_slots) (use s5(6,8,10) slots in simp_all)
  have create: "can_create ?p ?hdd b ?y ?r name 0 2 1 3 3 (malloc_at s (malloc_no s + 10)) ?s'" if n: "name \<notin> {[], [0x2e], [0x2e, 0x2e]}" for name
  proof -
    have d: "disk_of ?hdd ?s' (unat (data_start_lba b)) = root_dir_bytes @ replicate 464 0" using r(5) s5(5) lay(6) by simp
    show ?thesis unfolding can_create_def
      using fresh_root_dir [where im = "disk_of ?hdd ?s'", OF d on n rs] maps s5 lay(9) sl heap k(12) rs
      by (intro conjI exI [of _ "[?a]"] exI [of _ t]) (simp_all add: add.commute [of 10])
  qed
  show ?thesis using run create free s5(3,11-13) by (intro exI [of _ ?s'] exI [of _ ?y]) simp
qed

section \<open>Properties\<close>

text \<open>C4: From a blank disk to the first file.  On a disk with one partition and no file system, \<open>filesys_init\<close> returns; then \<open>sys_open\<close>
  creates a file and returns descriptor 3, and \<open>sys_write\<close> through it takes up to 6143 bytes.  Afterwards
  they are on the disk: the content of the file, its inode with their number as the size, and its entry behind \<open>.\<close> and \<open>..\<close> in the root
  directory, all where the layout of the partition says.\<close>

theorem blank_disk_stores_the_first_file:
  fixes s :: "'z fstate_scheme"
  assumes "blank_disk x t s" and "length pad = 460" and "O_CREAT AND flags \<noteq> 0"
    and "(ucast flags :: u32) AND 1 \<noteq> 0 \<or> (ucast flags :: u32) AND 2 \<noteq> 0"
    and "terminated fn" and "cstr fn \<notin> {[], [0x2e], [0x2e, 0x2e]}" and "length (cstr fn) < 16"
    and "0 < count" and "unat count \<le> length src" and "unat count < 6144"
  defines "b \<equiv> fst (format_layout x)"
  shows "\<exists>s0 s1 s2 i ns. filesys_init pad s = Inr s0 \<and> sys_open (0x2f # fn) flags s0 = Inr (3, s1) \<and>
           sys_write 3 src count s1 = Inr (([], count), s2) \<and>
           file_content b (disk_of (0, 1) s2) ns (unat count) = take (unat count) src \<and>
           inode_at (disk_of (0, 1) s2) b 1 = inode_bytes i \<and> i_no i = 1 \<and> i_size i = count \<and>
           (\<forall>m < length ns. i_sectors i ! m = block_lba b (ns ! m)) \<and>
           take 24 (drop 48 (disk_of (0, 1) s2 (unat (data_start_lba b)))) = dir_entry (cstr fn) 1 1"
proof -
  obtain len where lay: "format_layout x = (b, len)" unfolding b_def by (metis prod.collapse)
  have n: "640 \<le> unat (sec_cnt x)" "unat (sec_cnt x) < 2 ^ 21" "unat (start_lba x) + unat (sec_cnt x) + 2048 \<le> 2 ^ 28"
    and heap: "\<forall>k < 14. malloc_at s (malloc_no s + k) \<noteq> 0"
    using assms(1) by (simp_all add: blank_disk_def)
  have big: "620 \<le> unat (sec_cnt x)" "unat (start_lba x) + unat (sec_cnt x) \<le> 2 ^ 28" using n by simp_all
  let ?a = "malloc_at s (malloc_no s + 10)" and ?r = "opened_now (root_inode b)"
  obtain s0 y where s0: "filesys_init pad s = Inr s0"
    "\<forall>name. name \<notin> {[], [0x2e], [0x2e, 0x2e]} \<longrightarrow> can_create ((0, 1), 0) (0, 1) b y ?r name 0 2 1 3 3 ?a s0"
    "free_blocks y = {k. 0 < k \<and> k \<le> unat len \<and> k < 2048 \<and> k < 4096 * unat (block_bitmap_sects b)}"
    "malloc_at s0 = malloc_at s" "malloc_no s0 = malloc_no s + 8"
    using filesys_init_ok [OF assms(1) lay assms(2)] by (elim exE conjE) (rule that)
  have bb: "unat len = data_blocks (unat (sec_cnt x))" "unat (block_bitmap_sects b) = bitmap_sects (unat (sec_cnt x))"
    using format_layout_ok [OF big(1) n(2) big(2)] lay by auto
  note d = bitmap_sects_bounds [OF big(1) n(2)]
  have "12 \<le> unat len" using d n(1) bb(1) by (cases "bitmap_sects (unat (sec_cnt x)) = 1") simp_all
  then have "{1..12} \<subseteq> free_blocks y" using d(1) bb(2) by (auto simp: s0(3))
  then have "card {1 .. 12 :: nat} \<le> card (free_blocks y)" by (rule card_mono [OF finite_free_blocks])
  then have "12 \<le> card (free_blocks y)" by simp
  moreover have "unat count div 512 < 12" by (rule less_mult_imp_div_less) (use assms(10) in simp)
  ultimately have room: "unat count div 512 + 1 \<le> card (free_blocks y)" by linarith
  have rs: "i_sectors ?r ! 0 = data_start_lba b" by (simp add: opened_now_def root_inode_def)
  have out: "\<forall>q. unat (i_sectors ?r ! 0) = unat (data_start_lba b) + q \<longrightarrow> q \<notin> free_blocks y" by (simp add: rs s0(3))
  have m: "malloc_at s0 (malloc_no s0 + 4) \<noteq> 0" "malloc_at s0 (malloc_no s0 + 5) \<noteq> 0"
    using heap [rule_format, of 12] heap [rule_format, of 13] by (simp_all add: s0(4,5) add.commute [of _ "malloc_no s"])
  have nc: "can_create ((0, 1), 0) (0, 1) b y ?r (cstr fn) 0 2 1 3 3 ?a s0" "cstr fn \<noteq> []" "\<not> straddles 1"
    using s0(2) assms(6) by (auto simp: straddles_def)
  from new_file_ok [OF nc(1) assms(3,4,5) nc(2) assms(7) nc(3) assms(8-10) room m out] show ?thesis
    using s0(1) by (simp add: rs) blast
qed

text \<open>A disk of zeros, with its partition on the list.\<close>

definition demo_blank :: fstate where
  "demo_blank = (let s = demo_fs (\<lambda>_ _ _. replicate 512 0) Map.empty; n = Elem (part_tag ((0, 1), 0)) in
     s\<lparr>nnext := (nnext s)(Head Partition_list := Some n, n := Some (Tail Partition_list)),
       nprev := (nprev s)(n := Some (Head Partition_list), Tail Partition_list := Some n)\<rparr>)"

lemma demo_blank_ok: "blank_disk demo_part demo_task demo_blank"
proof -
  let ?s = "demo_fs (\<lambda>_ _ _. replicate 512 0) Map.empty"
  have "part_ok ((0, 1), 0) (0, 1) demo_sb demo_part ?s" by (rule demo_fs_ok) simp
  then have r: "disk_ready (0, 1) ?s" by (simp add: part_ok_def)
  have only: "only_lists ?s demo_blank" by (simp add: only_lists_def demo_blank_def Let_def)
  note f = only_lists_fields [OF only]
  have w: "queue demo_blank (Waiters v) []" for v
    using demo_machine_queue [of demo_part] by (simp add: demo_blank_def Let_def demo_fs_def queue_def dll_def part_tag_def)
  have ready: "disk_ready (0, 1) demo_blank"
    using r w f by (auto simp: disk_ready_def ide_up_def disk_up_def disk_wired_def controller_ready_def channel_lock_ok_def
        lock_free_def disk_of_def)
  have q: "queue demo_blank Partition_list [part_tag ((0, 1), 0)]"
    by (simp add: demo_blank_def Let_def queue_def dll_def part_tag_def klist_def)
  have gp: "get_part p demo_blank = get_part p ?s" for p by (simp add: get_part_def get_disk_def get_channel_def f(3))
  have "\<exists>y. get_part ((0, 1), i) ?s = Inr y \<and> sec_cnt y = 0" if "0 < i" "i < 12" for i
    using that by (auto simp: get_part_def get_disk_def get_channel_def demo_fs_def demo_machine_def demo_channel_def demo_disk_def
        rd_def nth_Cons blank_partition_def split: nat.splits)
  moreover have "\<forall>k < 14. malloc_at ?s (malloc_no ?s + k) \<noteq> 0"
  proof (intro allI impI)
    fix k :: nat assume "k < 14"
    then have "k \<in> {0, 1, 2, 3, 4, 5, 6, 7, 8, 9, 10, 11, 12, 13}" by (simp, arith)
    then show "malloc_at ?s (malloc_no ?s + k) \<noteq> 0" by (elim insertE emptyE) simp_all
  qed
  moreover have "of_le32s 13 (replicate 512 0) ! 0 = of_le32 (take 4 (replicate 512 0))"
  proof -
    have e: "(13 :: nat) = Suc 12" by simp
    show ?thesis by (simp only: e of_le32s.simps nth_Cons_0)
  qed
  then have "magic (sb_of_bytes (disk_of (0, 1) ?s 64)) = 0" by (simp add: sb_of_bytes_def sb_of_words_def of_le32_def)
  moreover have "disk_of (0, 1) demo_blank = disk_of (0, 1) ?s" using f(4) by (simp add: disk_of_def)
  moreover have "channel_cnt demo_blank = 2" by (simp add: demo_blank_def Let_def) (simp add: demo_fs_def demo_machine_def)
  moreover have "get_part ((0, 1), 0) ?s = Inr demo_part" "my_disk demo_part = Some (0, 1)" "start_lba demo_part = 63"
    "sec_cnt demo_part = 5000" "terminated (part_name demo_part)" "cstr (part_name demo_part) = [0x68, 0x64, 0x62, 0x31]"
    by (simp_all add: demo_part_def terminated_def cstr_def)
  ultimately show ?thesis
    unfolding blank_disk_def gp using ready q f by (auto simp: demo_task_def)
qed

theorem blank_disk_stores_the_first_file_witness:
  "\<exists>s0 s1 s2 ns. filesys_init (replicate 460 0) demo_blank = Inr s0 \<and> sys_open [0x2f, 0x61, 0] 6 s0 = Inr (3, s1) \<and>
     sys_write 3 [0x68, 0x69] 2 s1 = Inr (([], 2), s2) \<and>
     file_content (fst (format_layout demo_part)) (disk_of (0, 1) s2) ns 2 = [0x68, 0x69]"
proof -
  have c: "terminated [0x61, 0]" "cstr [0x61, 0] = [0x61]" by (simp_all add: terminated_def cstr_def)
  have f: "O_CREAT AND 6 \<noteq> 0" "(ucast (6 :: u8) :: u32) AND 1 \<noteq> 0 \<or> (ucast (6 :: u8) :: u32) AND 2 \<noteq> 0" by (simp_all add: O_CREAT_def)
  show ?thesis
    using blank_disk_stores_the_first_file [OF demo_blank_ok, of "replicate 460 0" 6 "[0x61, 0]" 2 "[0x68, 0x69]"] f c by auto
qed

end
