(* ===== verification/User.thy ===== *)
theory User
  imports Kernel_main Process
begin

text \<open>
  \<open>lib/user/syscall.c\<close>: the system calls as a user program makes them.  The number and the arguments go into
  registers, \<open>int 0x80\<close> enters \<open>syscall_handler\<close> of \<open>kernel/kernel.s\<close>, which pushes the arguments, calls the
  function in the table that \<open>syscall_init\<close> has filled, and puts its result into the \<open>eax\<close> that the program gets back.
\<close>

section \<open>Registers and the handler\<close>

record regs =
  eax :: u32
  ebx :: u32
  ecx :: u32
  edx :: u32

text \<open>\<open>run\<close>: what a function of the kernel does when it is called with these words on the stack; its result carries what else is
  to be seen of the call.\<close>

type_synonym ('o, 's) kernel_functions = "syscall_fn \<Rightarrow> u32 list \<Rightarrow> 's \<Rightarrow> (('o \<times> u32) \<times> 's) res"

definition syscall_handler :: "syscall_fn option list \<Rightarrow> ('o, 's) kernel_functions \<Rightarrow> regs \<Rightarrow> 's \<Rightarrow> (('o \<times> regs) \<times> 's) res" where
  "syscall_handler syscall_table run r s =
     bindE (rd syscall_table (unat (eax r))) (\<lambda>entry.
     bindE (deref entry) (\<lambda>f.
     bindE (run f [ebx r, ecx r, edx r] s) (\<lambda>((calls, retval), s1). Inr ((calls, r\<lparr>eax := retval\<rparr>), s1))))"

text \<open>The registers a stub does not set hold what the program left in them: \<open>r\<close>.\<close>

definition syscall0 :: "syscall_fn option list \<Rightarrow> ('o, 's) kernel_functions \<Rightarrow> regs \<Rightarrow> u32 \<Rightarrow> 's \<Rightarrow> (('o \<times> u32) \<times> 's) res" where
  "syscall0 tab run r n s =
     bindE (syscall_handler tab run (r\<lparr>eax := n\<rparr>) s) (\<lambda>((calls, r1), s1). Inr ((calls, eax r1), s1))"

definition syscall1 :: "syscall_fn option list \<Rightarrow> ('o, 's) kernel_functions \<Rightarrow> regs \<Rightarrow> u32 \<Rightarrow> u32 \<Rightarrow> 's \<Rightarrow> (('o \<times> u32) \<times> 's) res" where
  "syscall1 tab run r n arg1 s =
     bindE (syscall_handler tab run (r\<lparr>eax := n, ebx := arg1\<rparr>) s) (\<lambda>((calls, r1), s1). Inr ((calls, eax r1), s1))"

definition syscall3 :: "syscall_fn option list \<Rightarrow> ('o, 's) kernel_functions \<Rightarrow> regs \<Rightarrow> u32 \<Rightarrow> u32 \<Rightarrow> u32 \<Rightarrow> u32 \<Rightarrow> 's \<Rightarrow>
    (('o \<times> u32) \<times> 's) res" where
  "syscall3 tab run r n arg1 arg2 arg3 s =
     bindE (syscall_handler tab run (r\<lparr>eax := n, ebx := arg1, ecx := arg2, edx := arg3\<rparr>) s)
       (\<lambda>((calls, r1), s1). Inr ((calls, eax r1), s1))"

section \<open>The calls\<close>

text \<open>\<open>enum SYSCALL_NR\<close>\<close>

datatype syscall_nr = SYS_GETPID | SYS_WRITE | SYS_MALLOC | SYS_FREE

primrec nr :: "syscall_nr \<Rightarrow> u32" where
  "nr SYS_GETPID = 0"
| "nr SYS_WRITE = 1"
| "nr SYS_MALLOC = 2"
| "nr SYS_FREE = 3"

definition getpid :: "syscall_fn option list \<Rightarrow> ('o, 's) kernel_functions \<Rightarrow> regs \<Rightarrow> 's \<Rightarrow> (('o \<times> u32) \<times> 's) res" where
  "getpid tab run r s = syscall0 tab run r (nr SYS_GETPID) s"

definition user_write :: "syscall_fn option list \<Rightarrow> ('o, 's) kernel_functions \<Rightarrow> regs \<Rightarrow> u32 \<Rightarrow> u32 \<Rightarrow> u32 \<Rightarrow> 's \<Rightarrow>
    (('o \<times> u32) \<times> 's) res" where
  "user_write tab run r fd buf count s = syscall3 tab run r (nr SYS_WRITE) fd buf count s"

definition malloc :: "syscall_fn option list \<Rightarrow> ('o, 's) kernel_functions \<Rightarrow> regs \<Rightarrow> u32 \<Rightarrow> 's \<Rightarrow> (('o \<times> u32) \<times> 's) res" where
  "malloc tab run r n s = syscall1 tab run r (nr SYS_MALLOC) n s"

definition free :: "syscall_fn option list \<Rightarrow> ('o, 's) kernel_functions \<Rightarrow> regs \<Rightarrow> u32 \<Rightarrow> 's \<Rightarrow> (('o \<times> unit) \<times> 's) res" where
  "free tab run r ptr s =
     bindE (syscall1 tab run r (nr SYS_FREE) ptr s) (\<lambda>((calls, retval), s1). Inr ((calls, ()), s1))"

text \<open>\<open>printf\<close> of \<open>lib/stdio.c\<close> with its last line: the buffer it has filled, at \<open>buf_at\<close>, is written to descriptor 1.  The functions
  of the kernel see the buffer in memory.\<close>

definition print_user :: "syscall_fn option list \<Rightarrow> ((u32 \<Rightarrow> buf option) \<Rightarrow> ('o, 's) kernel_functions) \<Rightarrow> regs \<Rightarrow> (u32 \<Rightarrow> buf option) \<Rightarrow> u32 \<Rightarrow>
    buf \<Rightarrow> u32 list \<Rightarrow> 's \<Rightarrow> (('o \<times> u32) \<times> 's) res" where
  "print_user tab run r mem buf_at format args s =
     bindE (printf mem format args) (\<lambda>(b, len). user_write tab (run (mem(buf_at \<mapsto> b))) r 1 buf_at len s)"

section \<open>Dispatch\<close>

lemma syscall_init_table:
  assumes "syscall_init tab = Inr t"
  shows "rd t 0 = Inr (Some Sys_getpid)" and "rd t (Suc 0) = Inr (Some Sys_write)"
    and "rd t 2 = Inr (Some Sys_malloc)" and "rd t 3 = Inr (Some Sys_free)"
  using assms by (auto simp: syscall_init_def res_simps wr_def rd_def split: if_splits)

lemma calls_dispatch:
  assumes "syscall_init tab = Inr t"
  shows "getpid t run r s = run Sys_getpid [ebx r, ecx r, edx r] s"
    and "user_write t run r fd buf count s = run Sys_write [fd, buf, count] s"
    and "malloc t run r n s = run Sys_malloc [n, ecx r, edx r] s"
    and "free t run r ptr s = bindE (run Sys_free [ptr, ecx r, edx r] s) (\<lambda>((calls, retval), s1). Inr ((calls, ()), s1))"
  by (auto simp: getpid_def user_write_def malloc_def free_def syscall0_def syscall1_def syscall3_def syscall_handler_def
      syscall_init_table [OF assms] bindE_def split: sum.splits prod.splits)

text \<open>What \<open>sys_write\<close> does with a buffer for the console.\<close>

lemma sys_write_console:
  assumes "console_free s" and "length out < 1024"
  defines "b \<equiv> out @ replicate (1024 - length out) 0"
  shows "sys_write 1 b (of_nat (length (cstr out))) s = Inr (([Call_put_str (cstr out)], of_nat (length (cstr out))), s)"
proof -
  let ?n = "length (cstr out)"
  have n: "?n \<le> length out" by (simp add: cstr_def length_takeWhile_le)
  have u: "unat (of_nat ?n :: u32) = ?n" using n assms(2) by (simp add: unat_small)
  have "take ?n out = cstr out" unfolding cstr_def by (rule takeWhile_eq_take [symmetric])
  then have t: "take ?n b = cstr out" using n by (simp add: b_def)
  have "?n \<le> length b" using n by (simp add: b_def)
  then have m: "memcpy (Some (replicate 1024 0)) (Some b) ?n = Inr (cstr out @ replicate (1024 - ?n) 0)"
    using memcpy_ok [of ?n "replicate 1024 0" b] n assms(2) t by simp
  obtain k where k: "1024 - ?n = Suc k" using n assms(2) by (metis Suc_diff_Suc le_less_trans)
  have "terminated (cstr out @ replicate (1024 - ?n) 0)" "cstr (cstr out @ replicate (1024 - ?n) 0) = cstr out"
    by (simp_all add: k terminated_append_nul cstr_append_nul cstr_nonzero)
  then show ?thesis using console_put_str_ok [OF assms(1)] m u by (simp add: sys_write_def)
qed

section \<open>Properties\<close>

text \<open>C30: A user's \<open>printf\<close> reaches the screen.  With the table that \<open>syscall_init\<close> fills, and nobody on the console, the text the
  format stands for is printed by one call of the screen, its length is returned, and the kernel's state is what it was.\<close>

theorem printf_reaches_the_screen:
  fixes s :: "'z fstate_scheme"
  assumes "syscall_init tab = Inr t" and "console_free s" and "format_text mem format args = Some out" and "length out < 1024"
    and "\<forall>m p n s. run m Sys_write [1, p, n] (s :: 'z fstate_scheme) = bindE (deref (m p)) (\<lambda>b. sys_write 1 b n s)"
  shows "print_user t run r mem buf_at format args s =
           Inr (([Call_put_str (cstr out)], of_nat (length (cstr out))), s)"
proof -
  let ?b = "out @ replicate (1024 - length out) 0"
  obtain k where k: "1024 - length out = Suc k" using assms(4) by (metis Suc_diff_Suc)
  have "strlen (Some ?b) = Inr (length (cstr out))" using strlen_ok [of ?b] terminated_append_nul cstr_zero unfolding k by simp
  then have "printf mem format args = Inr (?b, of_nat (length (cstr out)))"
    using vsprintf_ok [OF assms(3,4)] by (simp add: printf_def)
  then show ?thesis
    using sys_write_console [OF assms(2,4)] assms(5) by (simp add: print_user_def calls_dispatch [OF assms(1)])
qed

text \<open>The program \<open>u\<close> of \<open>kernel/main.c\<close> prints the number at its pointer.\<close>

definition demo_run :: "(u32 \<Rightarrow> buf option) \<Rightarrow> (screen_call list, 'z fstate_scheme) kernel_functions" where
  "demo_run m f as s =
     (case f of Sys_write \<Rightarrow> bindE (rd as 0) (\<lambda>fd. bindE (rd as 1) (\<lambda>p. bindE (rd as 2) (\<lambda>n.
                  bindE (deref (m p)) (\<lambda>b. sys_write fd b n s))))
      | _ \<Rightarrow> bindE (sys_getpid s) (\<lambda>pid. Inr (([], pid), s)))"

theorem printf_reaches_the_screen_witness:
  "\<exists>t. syscall_init (replicate 32 None) = Inr t \<and>
     print_user t demo_run \<lparr>eax = 0, ebx = 0, ecx = 0, edx = 0\<rparr> (\<lambda>_. None) 0x8000 (c_string ''value:%d'') [10] file1_fs =
       Inr (([Call_put_str (c_text ''value:10'')], 8), file1_fs)"
proof -
  have "queue file1_fs q []" for q by (simp add: file1_fs_def demo_fs_def demo_machine_queue)
  then have "console_free file1_fs"
    by (simp add: console_free_def lock_free_def) (simp add: file1_fs_def demo_fs_def demo_machine_def)
  moreover have "decimal 10 = [0x31, 0x30]" by (simp add: decimal_def number_text_def digits.simps digit_char_def)
  then have "format_text (\<lambda>_. None) (c_string ''value:%d'') [10] = Some (c_text ''value:10'')"
    by (simp add: c_string_def c_text_def convertible_def arg_text_def of_char_def)
  moreover have "cstr (c_text ''value:10'') = c_text ''value:10''" by (rule cstr_all) (simp add: c_text_def of_char_def)
  moreover obtain t where "syscall_init (replicate 32 None) = Inr t" by (simp add: syscall_init_def wr_def)
  ultimately show ?thesis
    using printf_reaches_the_screen [where run = demo_run and s = file1_fs and mem = "\<lambda>_. None"]
    by (fastforce simp: demo_run_def c_text_def rd_def)
qed

end
