(* ===== verification/Spec2Isabelle.thy ===== *)
theory Spec2Isabelle
  imports Execute IOQueue Keyboard Timer Format Kernel_main Typing Store Scan Boot Printing User
begin

text \<open>
  WinuxOS, a small 32-bit x86 kernel, as a library of functional models and the theorems that make
  its components correct.

  \<^bold>\<open>The program.\<close>  The boot loader enters \<open>main\<close> of \<open>kernel/main.c\<close>, which calls \<open>init_all\<close>
  (\<open>kernel/init.c\<close>) and then uses the services initialised there.  Bitmaps and intrusive lists carry
  the memory manager (\<open>lib/kernel/memory.c\<close>) and the scheduler (\<open>thread/thread.c\<close>); semaphores and
  locks (\<open>thread/sync.c\<close>) block and wake threads of the scheduler; the timer interrupt
  (\<open>device/time.c\<close>) preempts them.  The keyboard interrupt puts characters into a ring buffer
  (\<open>device/ioqueue.c\<close>) that threads read.  The disk driver (\<open>device/ide.c\<close>) takes the lock of
  its channel, programs the controller and sleeps on a semaphore that the disk interrupt raises.
  The file system stands on it: partitions, inodes (\<open>fs/inode.c\<close>), files (\<open>fs/file.c\<close>), one directory
  (\<open>fs/dir.c\<close>), and the system calls on files (\<open>fs/fs.c\<close>).

  \<^bold>\<open>How C is read.\<close>  A function that may not return has a result in \<open>fault + 'a\<close> (\<open>Prelude\<close>):
  \<open>Assertion\<close> and \<open>Panic_call\<close> are \<open>panic_spin\<close>, \<open>OutOfBounds\<close>, \<open>NullPointer\<close> and \<open>PageFault\<close> are bad
  accesses, \<open>Hang\<close> a loop that does not end, \<open>WouldBlock\<close> a wait that nobody ends in a sequential
  run.  Integers keep their width as words; a pointer into a buffer is the list of the bytes from it to the
  end of the object; a pointer to a structure that others share is its address or its index.  State
  is passed explicitly, in records that extend each other as the components do: \<open>kstate\<close> (lists,
  threads, semaphores, locks, interrupt flag), from it \<open>mstate\<close> (memory manager) and \<open>dstate\<close> (disks), and from
  \<open>dstate\<close> \<open>fstate\<close> (file system).  Loops are recursive functions with their termination proved;
  those that may not end return an option or take fuel.

  \<^bold>\<open>The theories.\<close>
  \<^item> \<open>Prelude\<close>, \<open>Bytes\<close>: results, checked access, words; structures in buffers.
  \<^item> \<open>CString\<close>: \<open>lib/kernel/string.c\<close>.  The comparison agrees with that of the texts; what the other
    routines do to texts and buffers.
  \<^item> \<open>Bitmap\<close>: \<open>lib/kernel/bitmap.c\<close>.  The locale \<open>bit_pool\<close> states what an allocator needs of a
    bitmap; the scan finds the lowest free bit, and the limits of the code (2048 bits, the full map).
  \<^item> \<open>Interrupt\<close>: \<open>kernel/interrupt.c\<close>, \<open>userprog/tss.c\<close>: interrupt flag, gates, segment descriptors, the
    interrupt controller, the handler table.
  \<^item> \<open>IList\<close>: \<open>lib/kernel/list.c\<close> over a heap of links.  The operations refine those on lists; the locale
    \<open>linked_queue\<close> is the queue the scheduler uses.
  \<^item> \<open>Paging\<close>, \<open>Memory\<close>, \<open>Allocation\<close>: \<open>lib/kernel/memory.c\<close>: the walk of the page tables, the pools,
    page allocation, the block allocator; a page that was allocated is mapped, cleared and nobody else's.
  \<^item> \<open>Thread\<close>, \<open>Scheduler\<close>: the scheduling half of \<open>thread/thread.c\<close>; it refines an abstract round-robin
    scheduler, one thread runs in every reachable state, and every ready thread gets its turn.
  \<^item> \<open>Sync\<close>: \<open>thread/sync.c\<close>, split where a thread may be switched; all interleavings of any number
    of threads as the step relation \<open>lstep\<close>: mutual exclusion, no failed assertion, no lost wakeup.
  \<^item> \<open>Process\<close>: the other half of \<open>thread/thread.c\<close>, \<open>userprog/process.c\<close>, \<open>userprog/syscall_init.c\<close>.
  \<^item> \<open>Spaces\<close>: the address spaces.  A new page directory shares the kernel's page tables with all others (the
    invariant \<open>spaces_shared\<close>, which gives what the scheduler assumes); \<open>thread_start\<close> adds a ready thread to the
    abstract scheduler.
  \<^item> \<open>Pages\<close>, \<open>Execute\<close>: requests for several pages at once; with them \<open>process_execute\<close> adds a ready process with
    an address space of its own, and \<open>start_process\<close> leaves the frame that enters user mode.
  \<^item> \<open>IOQueue\<close>, \<open>Keyboard\<close>: \<open>device/ioqueue.c\<close>, \<open>device/console.c\<close>, \<open>device/keyboard.c\<close>.  The ring buffer
    is a queue of 63 characters (locale \<open>bounded_fifo\<close>); what is typed reaches the reader in order.
  \<^item> \<open>Timer\<close>: \<open>device/time.c\<close>: time slices, the programming of the counter, and sleeping: the loop that yields
    until the time has passed, in any interleaving with the timer and the other threads (\<open>sleep_reach\<close>), returns
    when it should.
  \<^item> \<open>Stdio\<close>: \<open>lib/stdio.c\<close>, \<open>lib/kernel/stdio_kernel.c\<close>: formatted output prints what the format says.
  \<^item> \<open>Ide\<close>, \<open>Partition\<close>, \<open>Sectors\<close>: \<open>device/ide.c\<close> over a controller that follows its documented
    behaviour (an operation of up to 256 sectors on the drive and the address its registers name).
    Reading returns what was written; \<open>Sectors\<close> has what the file system needs of it.
  \<^item> \<open>Scan\<close>: the partition tables of a disk as they are defined on disks (\<open>tables\<close>, with the chain of logical partitions
    as the inductive predicate \<open>logicals\<close>); \<open>partition_scan\<close> finds what they describe.
  \<^item> \<open>Inode\<close>, \<open>File\<close>, \<open>Dir\<close>, \<open>Fs\<close>: the definitions for \<open>fs/inode.c\<close>, \<open>fs/file.c\<close>, \<open>fs/dir.c\<close>, \<open>fs/fs.c\<close>, with
    the round trip of inodes.
  \<^item> \<open>Format\<close>: formatting lays out a file system and mounting finds it.
  \<^item> \<open>Blocks\<close>, \<open>Writing\<close>, \<open>Append\<close>: allocating blocks, the write loop, and what \<open>file_write\<close> does to the
    content of a file.
  \<^item> \<open>Directory\<close>: a new entry is found by the search; where a thirteenth block goes.
  \<^item> \<open>Store\<close>: the disks as a map from sector numbers to sectors (locale \<open>sector_store\<close>), which the driver refines for
    any sequence of requests.
  \<^item> \<open>Syscalls\<close>: the system calls composed.  What \<open>sys_open\<close> creates, what \<open>sys_write\<close> then leaves on the disk, for
    new and for existing files; a second writer.
  \<^item> \<open>Boot\<close>: \<open>filesys_init\<close> on a blank disk leaves the state that the theorems of \<open>Syscalls\<close> start from; with them, what is
    written to the first file is on the disk.
  \<^item> \<open>Printing\<close>: printing from the kernel, \<open>panic_spin\<close> of \<open>lib/kernel/debug.c\<close>.
  \<^item> \<open>Kernel_main\<close>: \<open>kernel/main.c\<close>, what the kernel does when it has started.
  \<^item> \<open>User\<close>: \<open>lib/user/syscall.c\<close> and the system call handler of \<open>kernel/kernel.s\<close>; a user's \<open>printf\<close> reaches the screen.
  \<^item> \<open>Returning\<close>, \<open>Typing\<close>: what every call keeps whenever it returns, and from it that descriptors, file table and inodes
    stay well typed along any sequence of system calls (the step relation \<open>fs_step\<close>).

  \<^bold>\<open>Bounds and fuel.\<close>  \<open>busy_wait\<close> has the 2999 rounds of the code.  \<open>partition_scan\<close> follows a chain of
  extended partitions that a disk may close to a cycle: it takes the depth as fuel, and running out is \<open>Hang\<close>.  The
  file theorems are about the twelve direct blocks, 6143 bytes, and about inodes that do not straddle two sectors of the
  inode table; for the others, 18 of every 128, \<open>file_write\<close> overruns its buffer.  The theorem on sleeping is about
  fewer than \<open>2 ^ 32\<close> timer interrupts.  The theorems on requests for several pages are about the
  lowest free addresses and frames when these form a run below page 2048, as they do until pages are given back.

  \<^bold>\<open>Not from the sources.\<close>  The disk controller, the 8253 timer, the 8259 interrupt controllers and the
  processor's page walk are given by their documented behaviour.  The file system's use of
  \<open>sys_malloc\<close> is an object heap: \<open>malloc_at\<close> is the sequence of addresses the allocator will
  return, 0 among them when it fails, and \<open>live\<close> counts the objects not yet given back.

  \<^bold>\<open>Not modelled.\<close>  The assembly of the boot loader, of the interrupt entries, of the switch of stacks and of the screen;
  \<open>init_all\<close>, which calls the initialisations of the components in turn; the demonstration threads of \<open>kernel/main.c\<close>, which
  nothing starts; \<open>inode_release\<close>, which is a comment; the messages printed by the disk driver, the memory manager and the file
  system, with the lock of the console they take and the list of the partitions \<open>ide_init\<close> prints at its end; the
  \<open>mtime_sleep\<close> in the rounds of \<open>busy_wait\<close>, as the controller of the model is ready when it is asked.  \<open>panic_spin\<close> is modelled as a function, where it is called by \<open>ASSERT\<close> and \<open>PANIC\<close> it is a fault.
\<close>

end
